(* ===== verification/CFS_Prelude.thy ===== *)
theory CFS_Prelude
  imports Main "HOL-Library.Word" "HOL-Library.Signed_Division"
begin

text \<open>
  Shared vocabulary of the development: the outcomes of C and C++ code (a value, or the
  fault that stops it), the machine integers of the sources, C strings, decimal
  printing, error numbers, and generic list lemmas used by several components.
\<close>

section \<open>Outcomes\<close>

text \<open>
  The ways in which the code stops without returning. Undefined behaviour of C and C++
  is a fault, with the reason as the constructor: the model never invents a value for it.
  A failed \<^verbatim>\<open>assert\<close> and a call of \<^verbatim>\<open>exit\<close> are faults too.
\<close>

datatype fault =
    InvalidIterator   \<comment> \<open>an erased, past-the-end or unset iterator is used\<close>
  | NullPointer       \<comment> \<open>a null or dangling pointer is dereferenced\<close>
  | OutOfBounds       \<comment> \<open>an access outside an object\<close>
  | IntOverflow       \<comment> \<open>signed overflow, or a conversion to int out of range\<close>
  | DivByZero
  | Uninitialised     \<comment> \<open>a variable is read that was never written\<close>
  | AssertFailed
  | Uncaught          \<comment> \<open>a C++ exception that nobody catches\<close>
  | ExitCall int      \<comment> \<open>the process ends with this status\<close>
  | Diverges          \<comment> \<open>a loop never ends\<close>
  | Blocked           \<comment> \<open>the thread waits for another one\<close>

type_synonym 'a res = "fault + 'a"

definition bind_res :: "'a res \<Rightarrow> ('a \<Rightarrow> 'b res) \<Rightarrow> 'b res" where
  "bind_res m f = (case m of Inl e \<Rightarrow> Inl e | Inr x \<Rightarrow> f x)"

lemma bind_res_simps [simp]:
  "bind_res (Inl e) f = Inl e"
  "bind_res (Inr x) f = f x"
  by (simp_all add: bind_res_def)

lemma bind_res_Inr_iff:
  "bind_res m f = Inr y \<longleftrightarrow> (\<exists>x. m = Inr x \<and> f x = Inr y)"
  by (cases m) simp_all

lemma bind_res_Inl_iff:
  "bind_res m f = Inl e \<longleftrightarrow> m = Inl e \<or> (\<exists>x. m = Inr x \<and> f x = Inl e)"
  by (cases m) simp_all

lemma bind_res_cong [fundef_cong]:
  "m = m' \<Longrightarrow> (\<And>x. m' = Inr x \<Longrightarrow> f x = f' x) \<Longrightarrow> bind_res m f = bind_res m' f'"
  by (cases m') simp_all

lemma bind_res_assoc [simp]:
  "bind_res (bind_res m f) g = bind_res m (\<lambda>x. bind_res (f x) g)"
  by (cases m) simp_all

definition guard_res :: "bool \<Rightarrow> fault \<Rightarrow> unit res" where
  "guard_res b e = (if b then Inr () else Inl e)"

lemma guard_res_simps [simp]:
  "guard_res True e = Inr ()"
  "guard_res False e = Inl e"
  by (simp_all add: guard_res_def)

lemma guard_res_Inr_iff: "guard_res b e = Inr u \<longleftrightarrow> b"
  by (simp add: guard_res_def)

definition the_res :: "'a option \<Rightarrow> fault \<Rightarrow> 'a res" where
  "the_res m e = (case m of None \<Rightarrow> Inl e | Some x \<Rightarrow> Inr x)"

lemma the_res_simps [simp]:
  "the_res None e = Inl e"
  "the_res (Some x) e = Inr x"
  by (simp_all add: the_res_def)

lemma the_res_Inr_iff: "the_res m e = Inr x \<longleftrightarrow> m = Some x"
  by (cases m) simp_all

lemmas res_iffs = bind_res_Inr_iff bind_res_Inl_iff guard_res_Inr_iff the_res_Inr_iff

section \<open>Machine integers\<close>

text \<open>
  An \<^verbatim>\<open>int\<close> of the sources is an \<^typ>\<open>int\<close> between \<open>INT_MIN\<close> and \<open>INT_MAX\<close>. A conversion
  from a wider type keeps the low 32 bits (\<open>to_int32\<close>, what every compiler of the project
  does); arithmetic that leaves the range is undefined and goes through \<open>chk_int\<close>.
\<close>

definition INT_MAX :: int where "INT_MAX = 2147483647"
definition INT_MIN :: int where "INT_MIN = - 2147483648"
definition SIZE_MOD :: int where "SIZE_MOD = 18446744073709551616"

definition in_int :: "int \<Rightarrow> bool" where
  "in_int x \<longleftrightarrow> INT_MIN \<le> x \<and> x \<le> INT_MAX"

definition chk_int :: "int \<Rightarrow> int res" where
  "chk_int x = (if in_int x then Inr x else Inl IntOverflow)"

definition to_int32 :: "int \<Rightarrow> int" where
  "to_int32 x = (x + 2147483648) mod 4294967296 - 2147483648"

definition to_size :: "int \<Rightarrow> int" where
  "to_size x = x mod SIZE_MOD"

lemmas int_defs = INT_MAX_def INT_MIN_def in_int_def

lemma to_int32_range: "in_int (to_int32 x)"
proof -
  have "0 \<le> (x + 2147483648) mod 4294967296" "(x + 2147483648) mod 4294967296 < 4294967296"
    by simp_all
  then show ?thesis unfolding to_int32_def int_defs by linarith
qed

lemma to_int32_id [simp]: "in_int x \<Longrightarrow> to_int32 x = x"
  by (simp add: to_int32_def int_defs)

lemma to_size_id: "0 \<le> x \<Longrightarrow> x < SIZE_MOD \<Longrightarrow> to_size x = x"
  by (simp add: to_size_def)

lemma chk_int_Inr [simp]: "in_int x \<Longrightarrow> chk_int x = Inr x"
  by (simp add: chk_int_def)

lemma chk_int_Inr_iff: "chk_int x = Inr y \<longleftrightarrow> in_int x \<and> y = x"
  by (auto simp: chk_int_def)

section \<open>Error numbers\<close>

text \<open>The values of \<^verbatim>\<open>errno.h\<close> on Linux that the sources name.\<close>

definition EPERM :: int where "EPERM = 1"
definition ENOENT :: int where "ENOENT = 2"
definition EIO :: int where "EIO = 5"
definition EAGAIN :: int where "EAGAIN = 11"
definition ENOMEM :: int where "ENOMEM = 12"
definition EACCES :: int where "EACCES = 13"
definition EINVAL :: int where "EINVAL = 22"
definition ENOSYS :: int where "ENOSYS = 38"
definition ENONET :: int where "ENONET = 64"

lemmas errno_defs = EPERM_def ENOENT_def EIO_def EAGAIN_def ENOMEM_def EACCES_def
  EINVAL_def ENOSYS_def ENONET_def

section \<open>Strings\<close>

text \<open>Decimal printing, as \<^verbatim>\<open>std::to_string\<close> and the conversions \<^verbatim>\<open>%d\<close> and \<^verbatim>\<open>%li\<close> do it.\<close>

definition digit_char :: "nat \<Rightarrow> char" where
  "digit_char d = char_of (48 + d)"

fun show_nat :: "nat \<Rightarrow> string" where
  "show_nat n = (if n < 10 then [digit_char n] else show_nat (n div 10) @ [digit_char (n mod 10)])"

declare show_nat.simps [simp del]

definition show_int :: "int \<Rightarrow> string" where
  "show_int i = (if i < 0 then CHR ''-'' # show_nat (nat (- i)) else show_nat (nat i))"

definition newline :: char where "newline = char_of (10::nat)"

text \<open>The last byte of a C++ string, as \<^verbatim>\<open>s[s.length()-1]\<close> reads it: out of bounds when empty.\<close>

definition last_char :: "string \<Rightarrow> char res" where
  "last_char s = (if s = [] then Inl OutOfBounds else Inr (last s))"

lemma last_char_Inr [simp]: "s \<noteq> [] \<Longrightarrow> last_char s = Inr (last s)"
  by (simp add: last_char_def)

lemma digit_chars:
  "digit_char 0 = CHR ''0''" "digit_char 1 = CHR ''1''" "digit_char (Suc 0) = CHR ''1''"
  "digit_char 2 = CHR ''2''" "digit_char 3 = CHR ''3''" "digit_char 4 = CHR ''4''"
  "digit_char 5 = CHR ''5''" "digit_char 6 = CHR ''6''" "digit_char 7 = CHR ''7''"
  "digit_char 8 = CHR ''8''" "digit_char 9 = CHR ''9''"
  by (simp_all add: digit_char_def char_of_def bit_0)

lemma digit_char_not_newline: "d < 10 \<Longrightarrow> digit_char d \<noteq> newline"
proof -
  assume d: "d < 10"
  have "of_char (digit_char d) = 48 + d"
    using d by (simp add: digit_char_def)
  moreover have "of_char newline = (10::nat)"
    by (simp add: newline_def)
  ultimately show ?thesis by auto
qed

lemma show_nat_no_newline: "newline \<notin> set (show_nat n)"
proof (induction n rule: show_nat.induct)
  case (1 n)
  show ?case
    by (subst show_nat.simps) (use "1" digit_char_not_newline in \<open>auto dest: sym\<close>)
qed

section \<open>Lists\<close>

text \<open>The index of the first element with a property.\<close>

fun index_of :: "('a \<Rightarrow> bool) \<Rightarrow> 'a list \<Rightarrow> nat option" where
  "index_of P [] = None"
| "index_of P (x # xs) = (if P x then Some 0 else map_option Suc (index_of P xs))"

lemma index_of_None: "index_of P xs = None \<longleftrightarrow> (\<forall>x\<in>set xs. \<not> P x)"
  by (induction xs) auto

lemma index_of_Some:
  "index_of P xs = Some i \<Longrightarrow> i < length xs \<and> P (xs ! i) \<and> (\<forall>j<i. \<not> P (xs ! j))"
proof (induction xs arbitrary: i)
  case Nil
  then show ?case by simp
next
  case (Cons x xs)
  show ?case
  proof (cases "P x")
    case True
    with Cons.prems show ?thesis by simp
  next
    case False
    with Cons.prems obtain k where k: "index_of P xs = Some k" "i = Suc k"
      by auto
    from Cons.IH [OF k(1)] k(2) False show ?thesis
      by (auto simp: nth_Cons split: nat.splits)
  qed
qed

lemma index_of_append:
  "\<forall>x\<in>set xs. \<not> P x \<Longrightarrow> P y \<Longrightarrow> index_of P (xs @ y # ys) = Some (length xs)"
  by (induction xs) auto

text \<open>Two partial maps are equal when they hold the same values.\<close>

lemma map_ext_Some:
  assumes "\<And>x y. f x = Some y \<longleftrightarrow> g x = Some y"
  shows "f = g"
proof (rule ext)
  fix x
  show "f x = g x"
  proof (cases "f x")
    case None
    then have "\<forall>y. g x \<noteq> Some y" using assms [of x] by simp
    then show ?thesis using None by (simp only: not_Some_eq)
  next
    case (Some y)
    then have "g x = Some y" by (rule assms [THEN iffD1])
    then show ?thesis using Some by simp
  qed
qed

text \<open>Removing the element at an index.\<close>

definition remove_nth :: "nat \<Rightarrow> 'a list \<Rightarrow> 'a list" where
  "remove_nth i xs = take i xs @ drop (Suc i) xs"

lemma length_remove_nth [simp]: "i < length xs \<Longrightarrow> length (remove_nth i xs) = length xs - 1"
  by (simp add: remove_nth_def)

lemma remove_nth_Cons_Suc [simp]: "remove_nth (Suc i) (x # xs) = x # remove_nth i xs"
  by (simp add: remove_nth_def)

lemma remove_nth_0 [simp]: "remove_nth 0 (x # xs) = xs"
  by (simp add: remove_nth_def)

lemma nth_remove_nth:
  "i < length xs \<Longrightarrow> j < length xs - 1 \<Longrightarrow>
    remove_nth i xs ! j = (if j < i then xs ! j else xs ! Suc j)"
  by (auto simp: remove_nth_def nth_append min_def)

lemma map_remove_nth: "map f (remove_nth i xs) = remove_nth i (map f xs)"
  by (simp add: remove_nth_def take_map drop_map)

lemma set_remove_nth_subset: "set (remove_nth i xs) \<subseteq> set xs"
  by (auto simp: remove_nth_def dest: in_set_takeD in_set_dropD)

lemma remove_nth_split: "i < length xs \<Longrightarrow> xs = take i xs @ xs ! i # drop (Suc i) xs"
  by (simp add: id_take_nth_drop)

lemma distinct_remove_nth:
  "distinct xs \<Longrightarrow> distinct (remove_nth i xs)"
proof (cases "i < length xs")
  case True
  assume d: "distinct xs"
  from d remove_nth_split [OF True]
  have "distinct (take i xs @ xs ! i # drop (Suc i) xs)" by simp
  then show ?thesis by (simp add: remove_nth_def)
qed (simp add: remove_nth_def)

lemma set_remove_nth_distinct:
  "distinct xs \<Longrightarrow> i < length xs \<Longrightarrow> set (remove_nth i xs) = set xs - {xs ! i}"
proof -
  assume d: "distinct xs" and i: "i < length xs"
  let ?ys = "take i xs @ xs ! i # drop (Suc i) xs"
  have eq: "?ys = xs" using remove_nth_split [OF i] by simp
  have "distinct ?ys" "set ?ys = set xs" using d eq by simp_all
  then show ?thesis unfolding remove_nth_def by auto
qed

lemma remove_nth_last: "xs \<noteq> [] \<Longrightarrow> remove_nth (length xs - Suc 0) xs = butlast xs"
  by (simp add: remove_nth_def butlast_conv_take)

lemma sorted_remove_nth:
  "sorted xs \<Longrightarrow> sorted (remove_nth i xs)"
proof (cases "i < length xs")
  case True
  assume "sorted xs"
  with remove_nth_split [OF True] have "sorted (take i xs @ xs ! i # drop (Suc i) xs)" by simp
  then show ?thesis by (auto simp: remove_nth_def sorted_append)
qed (simp add: remove_nth_def)

end
