(* ===== verification/Fuse_Types.thy ===== *)
theory Fuse_Types
  imports CFS_Prelude
begin

text \<open>
  The types that the file system and libfuse share (\<^verbatim>\<open>fuse.h\<close>, \<^verbatim>\<open>fuse_common.h\<close>): file
  attributes, open file information, buffers, the table of operations, and the state that
  they act on. Memory is a heap of byte arrays; a pointer is an object with an offset.
  Whatever lies outside the process is the type parameter \<open>'w\<close> of the state.
\<close>

section \<open>Memory\<close>

type_synonym mbytes = "8 word option list"

type_synonym ptr = "nat \<times> nat"

type_synonym heap = "nat \<rightharpoonup> mbytes"

text \<open>A byte that was never written is \<^const>\<open>None\<close>; an access outside an object is a fault.\<close>

definition mem_read :: "heap \<Rightarrow> ptr \<Rightarrow> nat \<Rightarrow> mbytes res" where
  "mem_read h p n =
     bind_res (the_res (h (fst p)) NullPointer) (\<lambda>obj.
       if snd p + n \<le> length obj then Inr (take n (drop (snd p) obj)) else Inl OutOfBounds)"

definition splice_bytes :: "nat \<Rightarrow> 'a list \<Rightarrow> 'a list \<Rightarrow> 'a list" where
  "splice_bytes k bs obj = take k obj @ bs @ drop (k + length bs) obj"

definition mem_write :: "heap \<Rightarrow> ptr \<Rightarrow> mbytes \<Rightarrow> heap res" where
  "mem_write h p bs =
     bind_res (the_res (h (fst p)) NullPointer) (\<lambda>obj.
       if snd p + length bs \<le> length obj
       then Inr (h(fst p \<mapsto> splice_bytes (snd p) bs obj)) else Inl OutOfBounds)"

lemma length_splice_bytes [simp]:
  "k + length bs \<le> length obj \<Longrightarrow> length (splice_bytes k bs obj) = length obj"
  by (simp add: splice_bytes_def)

lemma take_splice_bytes [simp]: "j \<le> k \<Longrightarrow> k \<le> length obj \<Longrightarrow> take j (splice_bytes k bs obj) = take j obj"
  by (simp add: splice_bytes_def)

lemma splice_bytes_Nil [simp]: "splice_bytes k [] obj = obj"
  by (simp add: splice_bytes_def)

lemma splice_bytes_append:
  "k + length bs \<le> length obj \<Longrightarrow>
    splice_bytes (k + length bs) cs (splice_bytes k bs obj) = splice_bytes k (bs @ cs) obj"
  by (simp add: splice_bytes_def ac_simps)

lemma mem_write_Inr:
  "h a = Some obj \<Longrightarrow> k + length bs \<le> length obj \<Longrightarrow>
    mem_write h (a, k) bs = Inr (h(a \<mapsto> splice_bytes k bs obj))"
  by (simp add: mem_write_def)

lemma mem_read_write:
  "mem_write h p bs = Inr h' \<Longrightarrow> mem_read h' p (length bs) = Inr bs"
  by (auto simp: mem_write_def mem_read_def splice_bytes_def res_iffs split: if_splits)

section \<open>Structures\<close>

record stat =
  st_dev :: int
  st_ino :: int
  st_mode :: int
  st_nlink :: int
  st_uid :: int
  st_gid :: int
  st_rdev :: int
  st_size :: int
  st_blksize :: int
  st_blocks :: int
  st_atime :: int
  st_mtime :: int
  st_ctime :: int
  st_mtime_nsec :: int

definition zero_stat :: stat where
  "zero_stat = \<lparr>st_dev = 0, st_ino = 0, st_mode = 0, st_nlink = 0, st_uid = 0, st_gid = 0,
     st_rdev = 0, st_size = 0, st_blksize = 0, st_blocks = 0, st_atime = 0, st_mtime = 0,
     st_ctime = 0, st_mtime_nsec = 0\<rparr>"

text \<open>\<^verbatim>\<open>struct fuse_file_info\<close>; the bit fields are booleans.\<close>

record fuse_file_info =
  fi_flags :: int
  fi_fh_old :: int
  fi_writepage :: int
  fi_direct_io :: bool
  fi_keep_cache :: bool
  fi_flush :: bool
  fi_nonseekable :: bool
  fi_flock_release :: bool
  fi_fh :: int
  fi_lock_owner :: int

record timespec =
  tv_sec :: int
  tv_nsec :: int

record utimbuf =
  actime :: int
  modtime :: int

record flock_t =
  l_type :: int
  l_whence :: int
  l_start :: int
  l_len :: int
  l_pid :: int

record statvfs =
  f_bsize :: int
  f_frsize :: int
  f_blocks :: int
  f_bfree :: int
  f_bavail :: int
  f_files :: int
  f_ffree :: int
  f_namemax :: int

record fuse_conn_info =
  proto_major :: int
  proto_minor :: int
  async_read :: int
  max_write :: int
  max_readahead :: int
  capable :: int
  want :: int
  max_background :: int
  congestion_threshold :: int

text \<open>\<^verbatim>\<open>struct fuse_buf\<close> and \<^verbatim>\<open>struct fuse_bufvec\<close>: the flags are read as booleans, the buffers
  as a list whose length is the field \<^verbatim>\<open>count\<close>; a \<^verbatim>\<open>size_t\<close> is a word.\<close>

record fuse_buf =
  buf_size :: "64 word"
  buf_is_fd :: bool
  buf_fd_seek :: bool
  buf_fd_retry :: bool
  buf_mem :: ptr
  buf_fd :: int
  buf_pos :: int

record fuse_bufvec =
  bv_idx :: nat
  bv_off :: "64 word"
  bv_bufs :: "fuse_buf list"

text \<open>\<^verbatim>\<open>FUSE_BUFVEC_INIT(size)\<close>, with its one buffer at \<open>p\<close>.\<close>

definition bufvec_init :: "64 word \<Rightarrow> ptr \<Rightarrow> fuse_bufvec" where
  "bufvec_init n p =
     \<lparr>bv_idx = 0, bv_off = 0,
      bv_bufs = [\<lparr>buf_size = n, buf_is_fd = False, buf_fd_seek = False, buf_fd_retry = False,
                  buf_mem = p, buf_fd = -1, buf_pos = 0\<rparr>]\<rparr>"

section \<open>The state\<close>

text \<open>
  The context of the calling thread (\<^verbatim>\<open>private_data\<close> is an address, \<^verbatim>\<open>umask\<close>), what was printed
  to the standard error, the heap with the amount of memory that is left, and the world.
\<close>

record 'w fstate =
  private_data :: nat
  ctx_umask :: int
  stderr :: "string list"
  mheap :: heap
  mnext :: nat
  mfree :: nat
  world :: 'w

type_synonym ('a, 'w) act = "'w fstate \<Rightarrow> ('a \<times> 'w fstate) res"

definition malloc :: "nat \<Rightarrow> 'w fstate \<Rightarrow> nat option \<times> 'w fstate" where
  "malloc n s =
     (if n \<le> mfree s
      then (Some (mnext s),
            s\<lparr>mheap := (mheap s)(mnext s \<mapsto> replicate n None), mnext := Suc (mnext s), mfree := mfree s - n\<rparr>)
      else (None, s))"

definition mfree_obj :: "nat \<Rightarrow> 'w fstate \<Rightarrow> ('w fstate) res" where
  "mfree_obj a s =
     bind_res (the_res (mheap s a) NullPointer) (\<lambda>obj.
       Inr (s\<lparr>mheap := (mheap s)(a := None), mfree := mfree s + length obj\<rparr>))"

section \<open>The table of operations\<close>

text \<open>
  \<^verbatim>\<open>struct fuse_operations\<close>. An entry that is a null pointer is \<^const>\<open>None\<close>. A structure behind a
  pointer argument is passed in and returned; a vector of buffers that an operation allocates
  comes with the address of its structure. A path that may be a null pointer is an option.
  Reading a directory may not end: \<^const>\<open>None\<close> is an operation that does not return.
\<close>

type_synonym 'w filler = "string \<Rightarrow> stat option \<Rightarrow> int \<Rightarrow> (int, 'w) act"

record 'w fuse_operations =
  op_getattr :: "(string \<Rightarrow> stat \<Rightarrow> (int \<times> stat, 'w) act) option"
  op_readlink :: "(string \<Rightarrow> ptr \<Rightarrow> nat \<Rightarrow> (int, 'w) act) option"
  op_getdir :: "(string option \<Rightarrow> (string \<Rightarrow> int \<Rightarrow> int \<Rightarrow> (int, 'w) act) \<Rightarrow> 'w fstate \<Rightarrow> (int \<times> 'w fstate) res option) option"
  op_mknod :: "(string \<Rightarrow> int \<Rightarrow> int \<Rightarrow> (int, 'w) act) option"
  op_mkdir :: "(string \<Rightarrow> int \<Rightarrow> (int, 'w) act) option"
  op_unlink :: "(string \<Rightarrow> (int, 'w) act) option"
  op_rmdir :: "(string \<Rightarrow> (int, 'w) act) option"
  op_symlink :: "(string \<Rightarrow> string \<Rightarrow> (int, 'w) act) option"
  op_rename :: "(string \<Rightarrow> string \<Rightarrow> (int, 'w) act) option"
  op_link :: "(string \<Rightarrow> string \<Rightarrow> (int, 'w) act) option"
  op_chmod :: "(string \<Rightarrow> int \<Rightarrow> (int, 'w) act) option"
  op_chown :: "(string \<Rightarrow> int \<Rightarrow> int \<Rightarrow> (int, 'w) act) option"
  op_truncate :: "(string \<Rightarrow> int \<Rightarrow> (int, 'w) act) option"
  op_utime :: "(string \<Rightarrow> utimbuf \<Rightarrow> (int, 'w) act) option"
  op_open :: "(string \<Rightarrow> fuse_file_info \<Rightarrow> (int \<times> fuse_file_info, 'w) act) option"
  op_read :: "(string option \<Rightarrow> ptr \<Rightarrow> nat \<Rightarrow> int \<Rightarrow> fuse_file_info \<Rightarrow> (int \<times> fuse_file_info, 'w) act) option"
  op_write :: "(string option \<Rightarrow> ptr \<Rightarrow> nat \<Rightarrow> int \<Rightarrow> fuse_file_info \<Rightarrow> (int \<times> fuse_file_info, 'w) act) option"
  op_statfs :: "(string \<Rightarrow> statvfs \<Rightarrow> (int \<times> statvfs, 'w) act) option"
  op_flush :: "(string option \<Rightarrow> fuse_file_info \<Rightarrow> (int \<times> fuse_file_info, 'w) act) option"
  op_release :: "(string option \<Rightarrow> fuse_file_info \<Rightarrow> (int \<times> fuse_file_info, 'w) act) option"
  op_fsync :: "(string option \<Rightarrow> int \<Rightarrow> fuse_file_info \<Rightarrow> (int \<times> fuse_file_info, 'w) act) option"
  op_setxattr :: "(string \<Rightarrow> string \<Rightarrow> ptr \<Rightarrow> nat \<Rightarrow> int \<Rightarrow> (int, 'w) act) option"
  op_getxattr :: "(string \<Rightarrow> string \<Rightarrow> ptr \<Rightarrow> nat \<Rightarrow> (int, 'w) act) option"
  op_listxattr :: "(string \<Rightarrow> ptr \<Rightarrow> nat \<Rightarrow> (int, 'w) act) option"
  op_removexattr :: "(string \<Rightarrow> string \<Rightarrow> (int, 'w) act) option"
  op_opendir :: "(string \<Rightarrow> fuse_file_info \<Rightarrow> (int \<times> fuse_file_info, 'w) act) option"
  op_readdir :: "(string option \<Rightarrow> 'w filler \<Rightarrow> int \<Rightarrow> fuse_file_info \<Rightarrow>
                   'w fstate \<Rightarrow> ((int \<times> fuse_file_info) \<times> 'w fstate) res option) option"
  op_releasedir :: "(string option \<Rightarrow> fuse_file_info \<Rightarrow> (int \<times> fuse_file_info, 'w) act) option"
  op_fsyncdir :: "(string option \<Rightarrow> int \<Rightarrow> fuse_file_info \<Rightarrow> (int \<times> fuse_file_info, 'w) act) option"
  op_init :: "(fuse_conn_info \<Rightarrow> (nat \<times> fuse_conn_info, 'w) act) option"
  op_destroy :: "(nat \<Rightarrow> (unit, 'w) act) option"
  op_access :: "(string \<Rightarrow> int \<Rightarrow> (int, 'w) act) option"
  op_create :: "(string \<Rightarrow> int \<Rightarrow> fuse_file_info \<Rightarrow> (int \<times> fuse_file_info, 'w) act) option"
  op_ftruncate :: "(string option \<Rightarrow> int \<Rightarrow> fuse_file_info \<Rightarrow> (int \<times> fuse_file_info, 'w) act) option"
  op_fgetattr :: "(string option \<Rightarrow> stat \<Rightarrow> fuse_file_info \<Rightarrow> (int \<times> stat \<times> fuse_file_info, 'w) act) option"
  op_lock :: "(string option \<Rightarrow> fuse_file_info \<Rightarrow> int \<Rightarrow> flock_t \<Rightarrow> (int \<times> flock_t \<times> fuse_file_info, 'w) act) option"
  op_utimens :: "(string \<Rightarrow> timespec \<times> timespec \<Rightarrow> (int, 'w) act) option"
  op_bmap :: "(string \<Rightarrow> nat \<Rightarrow> int \<Rightarrow> (int \<times> int, 'w) act) option"
  flag_nullpath_ok :: bool
  flag_nopath :: bool
  flag_utime_omit_ok :: bool
  op_ioctl :: "(string option \<Rightarrow> int \<Rightarrow> nat \<Rightarrow> fuse_file_info \<Rightarrow> int \<Rightarrow> ptr option \<Rightarrow> (int \<times> fuse_file_info, 'w) act) option"
  op_poll :: "(string option \<Rightarrow> fuse_file_info \<Rightarrow> nat \<Rightarrow> int \<Rightarrow> (int \<times> int \<times> fuse_file_info, 'w) act) option"
  op_write_buf :: "(string option \<Rightarrow> fuse_bufvec \<Rightarrow> int \<Rightarrow> fuse_file_info \<Rightarrow> (int \<times> fuse_bufvec \<times> fuse_file_info, 'w) act) option"
  op_read_buf :: "(string option \<Rightarrow> nat \<Rightarrow> int \<Rightarrow> fuse_file_info \<Rightarrow> (int \<times> (nat \<times> fuse_bufvec) option \<times> fuse_file_info, 'w) act) option"
  op_flock :: "(string option \<Rightarrow> fuse_file_info \<Rightarrow> int \<Rightarrow> (int \<times> fuse_file_info, 'w) act) option"
  op_fallocate :: "(string option \<Rightarrow> int \<Rightarrow> int \<Rightarrow> int \<Rightarrow> fuse_file_info \<Rightarrow> (int \<times> fuse_file_info, 'w) act) option"

definition no_operations :: "'w fuse_operations" where
  "no_operations = \<lparr>op_getattr = None, op_readlink = None, op_getdir = None, op_mknod = None,
     op_mkdir = None, op_unlink = None, op_rmdir = None, op_symlink = None, op_rename = None,
     op_link = None, op_chmod = None, op_chown = None, op_truncate = None, op_utime = None,
     op_open = None, op_read = None, op_write = None, op_statfs = None, op_flush = None,
     op_release = None, op_fsync = None, op_setxattr = None, op_getxattr = None,
     op_listxattr = None, op_removexattr = None, op_opendir = None, op_readdir = None,
     op_releasedir = None, op_fsyncdir = None, op_init = None, op_destroy = None,
     op_access = None, op_create = None, op_ftruncate = None, op_fgetattr = None,
     op_lock = None, op_utimens = None, op_bmap = None,
     flag_nullpath_ok = False, flag_nopath = False, flag_utime_omit_ok = False, op_ioctl = None, op_poll = None,
     op_write_buf = None, op_read_buf = None, op_flock = None, op_fallocate = None\<rparr>"

end
