(* ===== verification/Cache_Block.thy ===== *)
theory Cache_Block
  imports CFS_Prelude
begin

text \<open>
  The class \<^verbatim>\<open>CacheBlock\<close> (\<^verbatim>\<open>CacheBlock.h\<close>, \<^verbatim>\<open>CacheBlock.cpp\<close>): one cached block of a file, with its
  reference count, its section of the cache, the buffer with its data and the path under
  which the file was read. A buffer is the list of its bytes; a byte that was never written
  is \<^const>\<open>None\<close>, and the null pointer is the absent buffer.
\<close>

datatype Section = newSection | middleSection | oldSection

type_synonym BlockID = "int \<times> int"

type_synonym buffer = "8 word option list"

record CacheBlock =
  refCount :: int
  blockNumber :: int
  fileId :: int
  buff :: "buffer option"
  section_attr :: Section
  path :: string

text \<open>The constructor: the count starts at 1, the block belongs to the new section, and a null
  path leaves the string empty.\<close>

definition new_CacheBlock :: "int \<Rightarrow> int \<Rightarrow> buffer option \<Rightarrow> string option \<Rightarrow> CacheBlock" where
  "new_CacheBlock fid bn b p =
     \<lparr>refCount = 1, blockNumber = bn, fileId = fid, buff = b, section_attr = newSection,
      path = (case p of None \<Rightarrow> [] | Some s \<Rightarrow> s)\<rparr>"

definition getRefCount :: "CacheBlock \<Rightarrow> int" where
  "getRefCount b = refCount b"

text \<open>\<^verbatim>\<open>refCount += 1\<close> on an \<^verbatim>\<open>int\<close>: overflow is undefined.\<close>

definition incrementRefCount :: "CacheBlock \<Rightarrow> CacheBlock res" where
  "incrementRefCount b =
     bind_res (chk_int (refCount b + 1)) (\<lambda>c. Inr (b\<lparr>refCount := c\<rparr>))"

definition getBlockNumber :: "CacheBlock \<Rightarrow> int" where
  "getBlockNumber b = blockNumber b"

definition getBuff :: "CacheBlock \<Rightarrow> buffer option" where
  "getBuff b = buff b"

definition getFileId :: "CacheBlock \<Rightarrow> int" where
  "getFileId b = fileId b"

definition getBlockId :: "CacheBlock \<Rightarrow> BlockID" where
  "getBlockId b = (fileId b, blockNumber b)"

definition setSection :: "Section \<Rightarrow> CacheBlock \<Rightarrow> CacheBlock" where
  "setSection s b = b\<lparr>section_attr := s\<rparr>"

definition getSection :: "CacheBlock \<Rightarrow> Section" where
  "getSection b = section_attr b"

definition getPath :: "CacheBlock \<Rightarrow> string" where
  "getPath b = path b"

definition setPath :: "string \<Rightarrow> CacheBlock \<Rightarrow> CacheBlock" where
  "setPath p b = b\<lparr>path := p\<rparr>"

lemmas CacheBlock_defs = new_CacheBlock_def getRefCount_def getBlockNumber_def getBuff_def
  getFileId_def getBlockId_def setSection_def getSection_def getPath_def setPath_def

text \<open>What the setters leave alone: the identity and the data of a block.\<close>

lemma setSection_frame [simp]:
  "refCount (setSection s b) = refCount b" "blockNumber (setSection s b) = blockNumber b"
  "fileId (setSection s b) = fileId b" "buff (setSection s b) = buff b"
  "path (setSection s b) = path b" "section_attr (setSection s b) = s"
  "setSection s (setSection t b) = setSection s b"
  by (simp_all add: setSection_def)

lemma incrementRefCount_Inr:
  "refCount b \<in> {INT_MIN..<INT_MAX} \<Longrightarrow>
    incrementRefCount b = Inr (b\<lparr>refCount := refCount b + 1\<rparr>)"
  by (simp add: incrementRefCount_def chk_int_def int_defs)

lemma incrementRefCount_Inl:
  "refCount b = INT_MAX \<Longrightarrow> incrementRefCount b = Inl IntOverflow"
  by (simp add: incrementRefCount_def chk_int_def int_defs)

end
