(* ===== verification/Std_List.thy ===== *)
theory Std_List
  imports CFS_Prelude
begin

text \<open>
  What the cache uses of \<^verbatim>\<open>std::list\<close>: a doubly linked list whose nodes keep their identity
  when other nodes come and go. A list is the sequence of its nodes, each with the number
  that an iterator refers to; an iterator is valid as long as its node is in the sequence.
  Using an iterator after its node was erased, moving before the first node, and
  dereferencing the end are undefined behaviour and give a fault.
\<close>

datatype iterator = Node nat | End | Singular

record 'a slist =
  cells :: "(nat \<times> 'a) list"
  fresh :: nat

definition slist_empty :: "'a slist" where
  "slist_empty = \<lparr>cells = [], fresh = 0\<rparr>"

definition slist_vals :: "'a slist \<Rightarrow> 'a list" where
  "slist_vals l = map snd (cells l)"

definition slist_ids :: "'a slist \<Rightarrow> nat list" where
  "slist_ids l = map fst (cells l)"

definition pos :: "'a slist \<Rightarrow> iterator \<Rightarrow> nat option" where
  "pos l it = (case it of Node n \<Rightarrow> index_of (\<lambda>c. fst c = n) (cells l) | _ \<Rightarrow> None)"

definition slist_begin :: "'a slist \<Rightarrow> iterator" where
  "slist_begin l = (case cells l of [] \<Rightarrow> End | c # _ \<Rightarrow> Node (fst c))"

definition push_front :: "'a \<Rightarrow> 'a slist \<Rightarrow> 'a slist" where
  "push_front x l = l\<lparr>cells := (fresh l, x) # cells l, fresh := Suc (fresh l)\<rparr>"

definition slist_back :: "'a slist \<Rightarrow> 'a res" where
  "slist_back l = (if cells l = [] then Inl InvalidIterator else Inr (snd (last (cells l))))"

definition pop_back :: "'a slist \<Rightarrow> 'a slist res" where
  "pop_back l = (if cells l = [] then Inl InvalidIterator
                 else Inr (l\<lparr>cells := butlast (cells l)\<rparr>))"

definition slist_erase :: "iterator \<Rightarrow> 'a slist \<Rightarrow> 'a slist res" where
  "slist_erase it l =
     bind_res (the_res (pos l it) InvalidIterator) (\<lambda>i. Inr (l\<lparr>cells := remove_nth i (cells l)\<rparr>))"

definition deref :: "'a slist \<Rightarrow> iterator \<Rightarrow> 'a res" where
  "deref l it =
     bind_res (the_res (pos l it) InvalidIterator) (\<lambda>i. Inr (snd (cells l ! i)))"

text \<open>\<^verbatim>\<open>--it\<close>: from the end to the last node, from a node to the one before it.\<close>

definition iter_dec :: "'a slist \<Rightarrow> iterator \<Rightarrow> iterator res" where
  "iter_dec l it =
     (if it = End
      then (if cells l = [] then Inl InvalidIterator else Inr (Node (fst (last (cells l)))))
      else bind_res (the_res (pos l it) InvalidIterator)
             (\<lambda>i. if i = 0 then Inl InvalidIterator else Inr (Node (fst (cells l ! (i - 1))))))"

text \<open>The nodes that a loop \<^verbatim>\<open>for (; it != end(); ++it)\<close> visits.\<close>

definition cells_from :: "'a slist \<Rightarrow> iterator \<Rightarrow> (nat \<times> 'a) list res" where
  "cells_from l it =
     (if it = End then Inr []
      else bind_res (the_res (pos l it) InvalidIterator) (\<lambda>i. Inr (drop i (cells l))))"

lemmas slist_defs = slist_vals_def slist_ids_def push_front_def slist_back_def pop_back_def
  slist_erase_def deref_def iter_dec_def cells_from_def slist_begin_def

text \<open>The representation invariant: node numbers are distinct and older than the counter.\<close>

definition slist_inv :: "'a slist \<Rightarrow> bool" where
  "slist_inv l \<longleftrightarrow> distinct (slist_ids l) \<and> (\<forall>n\<in>set (slist_ids l). n < fresh l)"

lemma slist_inv_empty: "slist_inv slist_empty"
  by (simp add: slist_inv_def slist_empty_def slist_ids_def)

lemma slist_inv_push_front: "slist_inv l \<Longrightarrow> slist_inv (push_front x l)"
  by (auto simp: slist_inv_def push_front_def slist_ids_def)

lemma slist_inv_remove_nth:
  "slist_inv l \<Longrightarrow> slist_inv (l\<lparr>cells := remove_nth i (cells l)\<rparr>)"
  using set_remove_nth_subset [of i "map fst (cells l)"]
  by (auto simp: slist_inv_def slist_ids_def map_remove_nth distinct_remove_nth subset_iff)

lemma pos_nth:
  assumes "slist_inv l" "i < length (cells l)"
  shows "pos l (Node (fst (cells l ! i))) = Some i"
proof -
  let ?c = "cells l"
  have d: "distinct (map fst ?c)"
    using assms(1) by (simp add: slist_inv_def slist_ids_def)
  have "\<forall>x\<in>set (take i ?c). fst x \<noteq> fst (?c ! i)"
  proof
    fix x assume "x \<in> set (take i ?c)"
    then obtain j where j: "j < i" "x = ?c ! j"
      using assms(2) by (auto simp: in_set_conv_nth)
    then show "fst x \<noteq> fst (?c ! i)"
      using d assms(2) by (metis (no_types) distinct_conv_nth length_map less_imp_neq less_trans nth_map)
  qed
  then have "index_of (\<lambda>c. fst c = fst (?c ! i)) (take i ?c @ ?c ! i # drop (Suc i) ?c) = Some (length (take i ?c))"
    by (rule index_of_append) simp
  then show ?thesis
    using assms(2) remove_nth_split [of i ?c] by (simp add: pos_def)
qed

lemma pos_Some:
  "pos l it = Some i \<Longrightarrow> i < length (cells l) \<and> it = Node (fst (cells l ! i))"
  by (auto simp: pos_def split: iterator.splits dest: index_of_Some)

lemma deref_nth:
  "slist_inv l \<Longrightarrow> i < length (cells l) \<Longrightarrow>
    deref l (Node (fst (cells l ! i))) = Inr (snd (cells l ! i))"
  by (simp add: deref_def pos_nth)

lemma iter_dec_nth:
  "slist_inv l \<Longrightarrow> Suc i < length (cells l) \<Longrightarrow>
    iter_dec l (Node (fst (cells l ! Suc i))) = Inr (Node (fst (cells l ! i)))"
  by (simp add: iter_dec_def pos_nth)

lemma erase_nth:
  "slist_inv l \<Longrightarrow> i < length (cells l) \<Longrightarrow>
    slist_erase (Node (fst (cells l ! i))) l = Inr (l\<lparr>cells := remove_nth i (cells l)\<rparr>)"
  by (simp add: slist_erase_def pos_nth)

lemma cells_from_nth:
  "slist_inv l \<Longrightarrow> i < length (cells l) \<Longrightarrow>
    cells_from l (Node (fst (cells l ! i))) = Inr (drop i (cells l))"
  by (simp add: cells_from_def pos_nth)

text \<open>A push keeps every iterator valid and moves each node one place down.\<close>

lemma slist_begin_push_front [simp]: "slist_begin (push_front x l) = Node (fresh l)"
  by (simp add: slist_begin_def push_front_def)

lemma cells_push_front [simp]: "cells (push_front x l) = (fresh l, x) # cells l"
  by (simp add: push_front_def)

lemma pos_push_front_head [simp]: "pos (push_front x l) (Node (fresh l)) = Some 0"
  by (simp add: pos_def)

lemma pos_push_front:
  assumes "slist_inv l" "i < length (cells l)"
  shows "pos (push_front x l) (Node (fst (cells l ! i))) = Some (Suc i)"
  using pos_nth [OF slist_inv_push_front [OF assms(1)], of "Suc i" x] assms(2) by simp

text \<open>An iterator whose node is gone: every use is a fault.\<close>

lemma pos_removed:
  assumes "slist_inv l" "i < length (cells l)"
  shows "pos (l\<lparr>cells := remove_nth i (cells l)\<rparr>) (Node (fst (cells l ! i))) = None"
proof -
  have d: "distinct (map fst (cells l))"
    using assms(1) by (simp add: slist_inv_def slist_ids_def)
  have "fst ` set (remove_nth i (cells l)) = set (map fst (cells l)) - {fst (cells l ! i)}"
    using set_remove_nth_distinct [OF d] assms(2) by (simp flip: map_remove_nth)
  then have "\<forall>c\<in>set (remove_nth i (cells l)). fst c \<noteq> fst (cells l ! i)"
    by blast
  then show ?thesis by (simp add: pos_def index_of_None)
qed

lemma iter_dec_removed:
  "slist_inv l \<Longrightarrow> i < length (cells l) \<Longrightarrow>
    iter_dec (l\<lparr>cells := remove_nth i (cells l)\<rparr>) (Node (fst (cells l ! i))) = Inl InvalidIterator"
  using pos_removed [of l i] by (simp add: iter_dec_def)

end
