(* ===== verification/Cache_Manager.thy ===== *)
theory Cache_Manager
  imports Cache_Block Std_List
begin

text \<open>
  The class \<^verbatim>\<open>CacheManager\<close> (\<^verbatim>\<open>CacheManager.h\<close>, \<^verbatim>\<open>CacheManager.cpp\<close>): the frequency based
  replacement cache. The chain is a \<^verbatim>\<open>std::list\<close> of pointers to blocks, from the most to the
  least recently used; two iterators mark the first block of the middle and of the old
  section; a hash map takes a block id to the iterator of its node. Blocks live in a heap
  indexed by address: a block keeps its address while it moves through the chain.
\<close>

record CacheManager =
  numberOfBlocks :: int
  blocksMap :: "BlockID \<rightharpoonup> iterator"
  cacheChain :: "nat slist"
  middleSectionIter :: iterator
  oldSectionIter :: iterator
  blockHeap :: "nat \<rightharpoonup> CacheBlock"
  nextAddr :: nat

definition NULL_BLOCK :: int where "NULL_BLOCK = -1"

section \<open>Access through iterators\<close>

text \<open>\<^verbatim>\<open>(*it)->f()\<close> reads, and \<^verbatim>\<open>(*it)->setSection(s)\<close> writes, the block a node points to.\<close>

definition block_at :: "CacheManager \<Rightarrow> iterator \<Rightarrow> CacheBlock res" where
  "block_at cm it =
     bind_res (deref (cacheChain cm) it) (\<lambda>a. the_res (blockHeap cm a) NullPointer)"

definition set_block_at :: "CacheManager \<Rightarrow> iterator \<Rightarrow> CacheBlock \<Rightarrow> CacheManager res" where
  "set_block_at cm it b =
     bind_res (deref (cacheChain cm) it)
       (\<lambda>a. Inr (cm\<lparr>blockHeap := (blockHeap cm)(a \<mapsto> b)\<rparr>))"

definition set_section_at :: "CacheManager \<Rightarrow> iterator \<Rightarrow> Section \<Rightarrow> CacheManager res" where
  "set_section_at cm it s =
     bind_res (block_at cm it) (\<lambda>b. set_block_at cm it (setSection s b))"

text \<open>The two statements that move a section boundary one node towards the head.\<close>

definition dec_middle :: "CacheManager \<Rightarrow> CacheManager res" where
  "dec_middle cm =
     bind_res (iter_dec (cacheChain cm) (middleSectionIter cm))
       (\<lambda>it. set_section_at (cm\<lparr>middleSectionIter := it\<rparr>) it middleSection)"

definition dec_old :: "CacheManager \<Rightarrow> CacheManager res" where
  "dec_old cm =
     bind_res (iter_dec (cacheChain cm) (oldSectionIter cm))
       (\<lambda>it. set_section_at (cm\<lparr>oldSectionIter := it\<rparr>) it oldSection)"

section \<open>Construction\<close>

text \<open>The loop that fills the chain with \<^verbatim>\<open>numberOfBlocks\<close> null blocks.\<close>

definition new_block :: "CacheManager \<Rightarrow> CacheBlock \<Rightarrow> nat \<times> CacheManager" where
  "new_block cm b =
     (nextAddr cm, cm\<lparr>blockHeap := (blockHeap cm)(nextAddr cm \<mapsto> b), nextAddr := Suc (nextAddr cm)\<rparr>)"

fun push_null_blocks :: "nat \<Rightarrow> CacheManager \<Rightarrow> CacheManager" where
  "push_null_blocks 0 cm = cm"
| "push_null_blocks (Suc k) cm =
     (let (a, cm1) = new_block cm (new_CacheBlock (-1) (-1) None None)
      in push_null_blocks k (cm1\<lparr>cacheChain := push_front a (cacheChain cm1)\<rparr>))"

text \<open>The loop that assigns the two boundary iterators; \<open>i\<close> counts from 1.\<close>

fun assign_iters :: "(nat \<times> nat) list \<Rightarrow> int \<Rightarrow> int \<Rightarrow> int \<Rightarrow> CacheManager \<Rightarrow> CacheManager" where
  "assign_iters [] i mpos opos cm = cm"
| "assign_iters (c # cs) i mpos opos cm =
     (let cm1 = (if i = mpos then cm\<lparr>middleSectionIter := Node (fst c)\<rparr> else cm);
          cm2 = (if i = opos then cm1\<lparr>oldSectionIter := Node (fst c)\<rparr> else cm1)
      in assign_iters cs (i + 1) mpos opos cm2)"

definition build_CacheManager :: "int \<Rightarrow> int \<Rightarrow> int \<Rightarrow> CacheManager" where
  "build_CacheManager n newSectionSize oldSectionSize =
     (let middleSectionSize = n - newSectionSize - oldSectionSize;
          cm0 = \<lparr>numberOfBlocks = n, blocksMap = Map.empty, cacheChain = slist_empty,
                 middleSectionIter = Singular, oldSectionIter = Singular,
                 blockHeap = Map.empty, nextAddr = 0\<rparr>;
          cm1 = push_null_blocks (nat n) cm0
      in assign_iters (cells (cacheChain cm1)) 1 (newSectionSize + 1)
           (newSectionSize + middleSectionSize + 1) cm1)"

text \<open>The destructor empties the chain; the blocks themselves are not freed.\<close>

definition delete_CacheManager :: "CacheManager \<Rightarrow> CacheManager" where
  "delete_CacheManager cm = cm\<lparr>cacheChain := (cacheChain cm)\<lparr>cells := []\<rparr>\<rparr>"

section \<open>Lookup\<close>

text \<open>
  \<^verbatim>\<open>findBlock\<close>: a hit outside the new section counts a reference; the boundaries behind which
  the block lay move one node up; the block moves to the head of the chain.
\<close>

definition findBlock :: "CacheManager \<Rightarrow> BlockID \<Rightarrow> (iterator \<times> CacheManager) res" where
  "findBlock cm blockID =
     (case blocksMap cm blockID of
        None \<Rightarrow> Inr (End, cm)
      | Some blockIter \<Rightarrow>
          bind_res (block_at cm blockIter) (\<lambda>b.
          bind_res (if getSection b \<noteq> newSection
                    then bind_res (incrementRefCount b) (set_block_at cm blockIter)
                    else Inr cm) (\<lambda>cm1.
          bind_res (block_at cm1 blockIter) (\<lambda>b1.
          bind_res (case getSection b1 of
                      newSection \<Rightarrow> Inr cm1
                    | middleSection \<Rightarrow> dec_middle cm1
                    | oldSection \<Rightarrow> bind_res (dec_middle cm1) dec_old) (\<lambda>cm2.
          bind_res (deref (cacheChain cm2) blockIter) (\<lambda>a.
          let cm3 = cm2\<lparr>cacheChain := push_front a (cacheChain cm2)\<rparr> in
          bind_res (set_section_at cm3 (slist_begin (cacheChain cm3)) newSection) (\<lambda>cm4.
          let cm5 = cm4\<lparr>blocksMap := (blocksMap cm4)(blockID \<mapsto> slist_begin (cacheChain cm4))\<rparr> in
          bind_res (slist_erase blockIter (cacheChain cm5)) (\<lambda>ch.
          let cm6 = cm5\<lparr>cacheChain := ch\<rparr> in
          Inr (slist_begin (cacheChain cm6), cm6)))))))))"

definition retrieveBuffer :: "CacheManager \<Rightarrow> BlockID \<Rightarrow> (buffer option \<times> CacheManager) res" where
  "retrieveBuffer cm blockID =
     bind_res (findBlock cm blockID) (\<lambda>(blockIter, cm1).
       if blockIter = End then Inr (None, cm1)
       else bind_res (block_at cm1 blockIter) (\<lambda>b. Inr (getBuff b, cm1)))"

section \<open>Insertion\<close>

text \<open>
  The loop over the old section: the candidate is the last block with the least reference
  count. Its arguments are the nodes still to visit, \<^verbatim>\<open>minimalReff\<close> and
  \<^verbatim>\<open>eraseCandidateBlockIter\<close>.
\<close>

fun evict_loop :: "(nat \<rightharpoonup> CacheBlock) \<Rightarrow> (nat \<times> nat) list \<Rightarrow> int \<Rightarrow> iterator \<Rightarrow> iterator res" where
  "evict_loop h [] m cand = Inr cand"
| "evict_loop h (c # cs) m cand =
     bind_res (the_res (h (snd c)) NullPointer) (\<lambda>b.
       if getRefCount b \<le> m then evict_loop h cs (getRefCount b) (Node (fst c))
       else evict_loop h cs m cand)"

definition evict :: "CacheManager \<Rightarrow> CacheManager res" where
  "evict cm =
     bind_res (cells_from (cacheChain cm) (oldSectionIter cm)) (\<lambda>cs.
     bind_res (evict_loop (blockHeap cm) cs INT_MAX Singular) (\<lambda>cand.
     bind_res (block_at cm cand) (\<lambda>b.
     let cm1 = cm\<lparr>blocksMap := (blocksMap cm)(getBlockId b := None)\<rparr> in
     bind_res (slist_erase cand (cacheChain cm1)) (\<lambda>ch. Inr (cm1\<lparr>cacheChain := ch\<rparr>)))))"

definition insertBlock ::
  "CacheManager \<Rightarrow> int \<Rightarrow> int \<Rightarrow> buffer option \<Rightarrow> string option \<Rightarrow> CacheManager res" where
  "insertBlock cm fid bn b p =
     bind_res (findBlock cm (fid, bn)) (\<lambda>(it, cm0).
     if it \<noteq> End then Inl (ExitCall 1)
     else
       (let block = new_CacheBlock fid bn b p;
            (a, cm1) = new_block cm0 block;
            cm2 = cm1\<lparr>cacheChain := push_front a (cacheChain cm1)\<rparr>;
            cm3 = cm2\<lparr>blocksMap := (blocksMap cm2)(getBlockId block \<mapsto> slist_begin (cacheChain cm2))\<rparr>
        in
        bind_res (slist_back (cacheChain cm3)) (\<lambda>la.
        bind_res (the_res (blockHeap cm3 la) NullPointer) (\<lambda>lb.
        bind_res (if getBlockNumber lb = NULL_BLOCK
                  then bind_res (pop_back (cacheChain cm3)) (\<lambda>ch. Inr (cm3\<lparr>cacheChain := ch\<rparr>))
                  else evict cm3) (\<lambda>cm4.
        bind_res (dec_middle cm4) dec_old)))))"

end
