(* ===== verification/Cache_Refine.thy ===== *)
theory Cache_Refine
  imports Cache_Manager
begin

text \<open>
  The abstract cache and the proof that \<^verbatim>\<open>CacheManager\<close> implements it. Abstractly the cache is
  the list of its blocks, most recently used first; the first \<open>n\<close> positions are the new
  section, those from \<open>n\<close> to \<open>o'\<close> the middle one, the rest the old one. The invariant
  \<open>cm_inv\<close> ties the chain, the heap, the map and the two iterators together.
\<close>

section \<open>Views of the concrete state\<close>

abbreviation chain :: "CacheManager \<Rightarrow> (nat \<times> nat) list" where
  "chain cm \<equiv> cells (cacheChain cm)"

definition is_null :: "CacheBlock \<Rightarrow> bool" where
  "is_null b \<longleftrightarrow> blockNumber b = NULL_BLOCK"

definition chain_blocks :: "CacheManager \<Rightarrow> CacheBlock list" where
  "chain_blocks cm = map (\<lambda>c. the (blockHeap cm (snd c))) (chain cm)"

definition cell_iter :: "CacheManager \<Rightarrow> nat \<Rightarrow> iterator" where
  "cell_iter cm i = Node (fst (chain cm ! i))"

definition upd_nth :: "CacheManager \<Rightarrow> nat \<Rightarrow> CacheBlock \<Rightarrow> CacheManager" where
  "upd_nth cm i b = cm\<lparr>blockHeap := (blockHeap cm)(snd (chain cm ! i) \<mapsto> b)\<rparr>"

text \<open>What the map depends on: the nodes with the id and the nullness of their blocks.\<close>

definition key_of :: "CacheBlock \<Rightarrow> bool \<times> BlockID" where
  "key_of b = (is_null b, getBlockId b)"

definition view :: "CacheManager \<Rightarrow> (nat \<times> bool \<times> BlockID) list" where
  "view cm = zip (map fst (chain cm)) (map key_of (chain_blocks cm))"

definition map_ok :: "(nat \<times> bool \<times> BlockID) list \<Rightarrow> (BlockID \<rightharpoonup> iterator) \<Rightarrow> bool" where
  "map_ok v m \<longleftrightarrow> (\<forall>i it. m i = Some it \<longleftrightarrow> (\<exists>k. it = Node k \<and> (k, False, i) \<in> set v))"

definition wf_chain :: "CacheManager \<Rightarrow> bool" where
  "wf_chain cm \<longleftrightarrow> slist_inv (cacheChain cm) \<and> distinct (map snd (chain cm)) \<and>
     (\<forall>a\<in>set (map snd (chain cm)). a < nextAddr cm \<and> blockHeap cm a \<noteq> None)"

lemma length_chain_blocks [simp]: "length (chain_blocks cm) = length (chain cm)"
  by (simp add: chain_blocks_def)

lemma length_view [simp]: "length (view cm) = length (chain cm)"
  by (simp add: view_def)

lemma map_fst_view [simp]: "map fst (view cm) = map fst (chain cm)"
  by (simp add: view_def)

lemma wf_slist: "wf_chain cm \<Longrightarrow> slist_inv (cacheChain cm)"
  by (simp add: wf_chain_def)

lemma wf_heap:
  "wf_chain cm \<Longrightarrow> i < length (chain cm) \<Longrightarrow>
    blockHeap cm (snd (chain cm ! i)) = Some (chain_blocks cm ! i)"
  by (auto simp: wf_chain_def chain_blocks_def)

lemma wf_distinct_addr:
  "wf_chain cm \<Longrightarrow> i < length (chain cm) \<Longrightarrow> j < length (chain cm) \<Longrightarrow>
    snd (chain cm ! i) = snd (chain cm ! j) \<longleftrightarrow> i = j"
  using nth_eq_iff_index_eq [of "map snd (chain cm)" i j] by (simp add: wf_chain_def)

lemma block_at_nth:
  "wf_chain cm \<Longrightarrow> i < length (chain cm) \<Longrightarrow> block_at cm (cell_iter cm i) = Inr (chain_blocks cm ! i)"
  by (simp add: block_at_def cell_iter_def deref_nth wf_slist wf_heap)

lemma set_block_at_nth:
  "wf_chain cm \<Longrightarrow> i < length (chain cm) \<Longrightarrow> set_block_at cm (cell_iter cm i) b = Inr (upd_nth cm i b)"
  by (simp add: set_block_at_def cell_iter_def deref_nth wf_slist upd_nth_def)

lemma upd_nth_frame [simp]:
  "cacheChain (upd_nth cm i b) = cacheChain cm" "blocksMap (upd_nth cm i b) = blocksMap cm"
  "middleSectionIter (upd_nth cm i b) = middleSectionIter cm"
  "oldSectionIter (upd_nth cm i b) = oldSectionIter cm"
  "nextAddr (upd_nth cm i b) = nextAddr cm" "numberOfBlocks (upd_nth cm i b) = numberOfBlocks cm"
  "cell_iter (upd_nth cm i b) j = cell_iter cm j"
  by (simp_all add: upd_nth_def cell_iter_def)

lemma chain_blocks_upd_nth:
  assumes "wf_chain cm" "i < length (chain cm)"
  shows "chain_blocks (upd_nth cm i b) = (chain_blocks cm)[i := b]"
proof (rule nth_equalityI)
  fix j assume "j < length (chain_blocks (upd_nth cm i b))"
  then have j: "j < length (chain cm)" by simp
  show "chain_blocks (upd_nth cm i b) ! j = (chain_blocks cm)[i := b] ! j"
    using wf_distinct_addr [OF assms(1) j assms(2)] j assms(2)
    by (auto simp: chain_blocks_def upd_nth_def nth_list_update)
qed simp

lemma wf_upd_nth: "wf_chain cm \<Longrightarrow> wf_chain (upd_nth cm i b)"
  by (auto simp: wf_chain_def upd_nth_def)

text \<open>Moving the boundary iterators does not touch the chain or the heap.\<close>

lemma iter_update_frame [simp]:
  "wf_chain (cm\<lparr>middleSectionIter := it\<rparr>) = wf_chain cm"
  "wf_chain (cm\<lparr>oldSectionIter := it\<rparr>) = wf_chain cm"
  "chain_blocks (cm\<lparr>middleSectionIter := it\<rparr>) = chain_blocks cm"
  "chain_blocks (cm\<lparr>oldSectionIter := it\<rparr>) = chain_blocks cm"
  "cell_iter (cm\<lparr>middleSectionIter := it\<rparr>) i = cell_iter cm i"
  "cell_iter (cm\<lparr>oldSectionIter := it\<rparr>) i = cell_iter cm i"
  by (simp_all add: wf_chain_def chain_blocks_def cell_iter_def)

lemma set_section_at_nth:
  "wf_chain cm \<Longrightarrow> i < length (chain cm) \<Longrightarrow>
    set_section_at cm (cell_iter cm i) s = Inr (upd_nth cm i (setSection s (chain_blocks cm ! i)))"
  by (simp add: set_section_at_def block_at_nth set_block_at_nth)

lemma dec_middle_nth:
  assumes "wf_chain cm" "Suc i < length (chain cm)" "middleSectionIter cm = cell_iter cm (Suc i)"
  shows "dec_middle cm =
     Inr (upd_nth (cm\<lparr>middleSectionIter := cell_iter cm i\<rparr>) i
            (setSection middleSection (chain_blocks cm ! i)))"
proof -
  have "iter_dec (cacheChain cm) (middleSectionIter cm) = Inr (cell_iter cm i)"
    using assms by (simp add: cell_iter_def iter_dec_nth wf_slist)
  then show ?thesis
    using assms set_section_at_nth [of "cm\<lparr>middleSectionIter := cell_iter cm i\<rparr>" i middleSection]
    by (simp add: dec_middle_def)
qed

lemma dec_old_nth:
  assumes "wf_chain cm" "Suc i < length (chain cm)" "oldSectionIter cm = cell_iter cm (Suc i)"
  shows "dec_old cm =
     Inr (upd_nth (cm\<lparr>oldSectionIter := cell_iter cm i\<rparr>) i
            (setSection oldSection (chain_blocks cm ! i)))"
proof -
  have "iter_dec (cacheChain cm) (oldSectionIter cm) = Inr (cell_iter cm i)"
    using assms by (simp add: cell_iter_def iter_dec_nth wf_slist)
  then show ?thesis
    using assms set_section_at_nth [of "cm\<lparr>oldSectionIter := cell_iter cm i\<rparr>" i oldSection]
    by (simp add: dec_old_def)
qed

section \<open>The map\<close>

lemma set_remove_nth_keyed:
  "distinct (map fst v) \<Longrightarrow> i < length v \<Longrightarrow> v ! i = e \<Longrightarrow> set (remove_nth i v) = set v - {e}"
  by (auto simp: distinct_map set_remove_nth_distinct)

lemma map_ok_Some: "map_ok v m \<Longrightarrow> m x = Some it \<longleftrightarrow> (\<exists>k. it = Node k \<and> (k, False, x) \<in> set v)"
  unfolding map_ok_def by blast

lemma map_ok_unique:
  "map_ok v m \<Longrightarrow> (k, False, x) \<in> set v \<Longrightarrow> (k', False, x) \<in> set v \<Longrightarrow> k' = k"
  unfolding map_ok_def by (metis iterator.inject option.inject)

lemma map_ok_delete:
  assumes ok: "map_ok v m" and d: "distinct (map fst v)" and i: "i < length v"
    and vi: "v ! i = (k, False, bid)"
  shows "map_ok (remove_nth i v) (m(bid := None))"
proof -
  have s: "set (remove_nth i v) = set v - {(k, False, bid)}"
    using d i vi by (rule set_remove_nth_keyed)
  have mem: "(k, False, bid) \<in> set v" using i vi by (metis nth_mem)
  show ?thesis
    unfolding map_ok_def
  proof (intro allI)
    fix x it
    show "(m(bid := None)) x = Some it \<longleftrightarrow>
      (\<exists>k'. it = Node k' \<and> (k', False, x) \<in> set (remove_nth i v))"
      using map_ok_Some [OF ok, of x it] map_ok_unique [OF ok mem] s by (cases "x = bid") auto
  qed
qed

lemma map_ok_insert:
  assumes "map_ok v m" "m bid = None"
  shows "map_ok ((f, False, bid) # v) (m(bid \<mapsto> Node f))"
  unfolding map_ok_def
proof (intro allI)
  fix x it
  show "(m(bid \<mapsto> Node f)) x = Some it \<longleftrightarrow>
    (\<exists>k. it = Node k \<and> (k, False, x) \<in> set ((f, False, bid) # v))"
    using map_ok_Some [OF assms(1), of x it] map_ok_Some [OF assms(1), of bid] assms(2)
    by (cases "x = bid") auto
qed

lemma map_ok_move:
  assumes "map_ok v m" "distinct (map fst v)" "i < length v" "v ! i = (k, False, bid)"
  shows "map_ok ((f, False, bid) # remove_nth i v) (m(bid \<mapsto> Node f))"
  using map_ok_insert [OF map_ok_delete [OF assms], of bid f] by simp

lemma map_ok_drop_null:
  assumes "map_ok v m" "distinct (map fst v)" "i < length v" "v ! i = (k, True, bid)"
  shows "map_ok (remove_nth i v) m"
  using assms(1) set_remove_nth_keyed [OF assms(2,3,4)] by (simp add: map_ok_def)

section \<open>The abstract cache\<close>

text \<open>A block without its section attribute, which the abstract cache derives from the
  position.\<close>

definition strip :: "CacheBlock \<Rightarrow> CacheBlock" where
  "strip b = setSection newSection b"

definition abs_cache :: "CacheManager \<Rightarrow> CacheBlock list" where
  "abs_cache cm = map strip (chain_blocks cm)"

definition section_at :: "nat \<Rightarrow> nat \<Rightarrow> nat \<Rightarrow> Section" where
  "section_at n p i = (if i < n then newSection else if i < p then middleSection else oldSection)"

definition fbr_pos :: "CacheBlock list \<Rightarrow> BlockID \<Rightarrow> nat option" where
  "fbr_pos xs bid = index_of (\<lambda>b. \<not> is_null b \<and> getBlockId b = bid) xs"

text \<open>A hit at position \<open>i\<close>: the count grows outside the new section, the block moves to
  the front.\<close>

definition fbr_touch :: "nat \<Rightarrow> nat \<Rightarrow> CacheBlock \<Rightarrow> CacheBlock" where
  "fbr_touch n i b = (if i < n then b else b\<lparr>refCount := refCount b + 1\<rparr>)"

definition fbr_hit :: "nat \<Rightarrow> nat \<Rightarrow> CacheBlock list \<Rightarrow> CacheBlock list" where
  "fbr_hit n i xs = fbr_touch n i (xs ! i) # remove_nth i xs"

text \<open>The block to evict: among the old section, the last one with the least count.\<close>

definition victim :: "nat \<Rightarrow> CacheBlock list \<Rightarrow> nat" where
  "victim p xs =
     last (filter (\<lambda>j. \<forall>k\<in>set [p..<length xs]. refCount (xs ! j) \<le> refCount (xs ! k)) [p..<length xs])"

definition fbr_out :: "nat \<Rightarrow> CacheBlock list \<Rightarrow> nat" where
  "fbr_out p xs = (if is_null (last xs) then length xs - 1 else victim p xs)"

definition fbr_insert :: "nat \<Rightarrow> CacheBlock \<Rightarrow> CacheBlock list \<Rightarrow> CacheBlock list" where
  "fbr_insert p b xs = b # remove_nth (fbr_out p xs) xs"

lemma strip_simps [simp]:
  "refCount (strip b) = refCount b" "blockNumber (strip b) = blockNumber b"
  "fileId (strip b) = fileId b" "buff (strip b) = buff b" "path (strip b) = path b"
  "strip (setSection s b) = strip b" "is_null (strip b) = is_null b"
  "getBlockId (strip b) = getBlockId b" "key_of (strip b) = key_of b"
  "is_null (setSection s b) = is_null b" "key_of (setSection s b) = key_of b"
  "getBlockId (setSection s b) = getBlockId b"
  "strip (b\<lparr>refCount := c\<rparr>) = (strip b)\<lparr>refCount := c\<rparr>"
  "key_of (b\<lparr>refCount := c\<rparr>) = key_of b" "is_null (b\<lparr>refCount := c\<rparr>) = is_null b"
  by (simp_all add: strip_def is_null_def getBlockId_def key_of_def setSection_def)

lemma length_abs_cache [simp]: "length (abs_cache cm) = length (chain cm)"
  by (simp add: abs_cache_def)

lemma view_abs: "view cm = zip (map fst (chain cm)) (map key_of (abs_cache cm))"
  by (simp add: view_def abs_cache_def comp_def)

lemma nth_abs_cache: "i < length (chain cm) \<Longrightarrow> abs_cache cm ! i = strip (chain_blocks cm ! i)"
  by (simp add: abs_cache_def)

section \<open>The invariant\<close>

definition sections_ok :: "nat \<Rightarrow> nat \<Rightarrow> CacheBlock list \<Rightarrow> bool" where
  "sections_ok n p bs \<longleftrightarrow>
     (\<forall>i<length bs. \<not> is_null (bs ! i) \<longrightarrow> section_attr (bs ! i) = section_at n p i)"

definition counts_ok :: "CacheBlock list \<Rightarrow> bool" where
  "counts_ok bs \<longleftrightarrow> (\<forall>b\<in>set bs. 1 \<le> refCount b \<and> refCount b \<le> INT_MAX)"

text \<open>Null blocks fill the end of the chain: \<^term>\<open>False < True\<close>.\<close>

definition nulls_last :: "CacheBlock list \<Rightarrow> bool" where
  "nulls_last bs \<longleftrightarrow> sorted (map is_null bs)"

definition cm_inv :: "nat \<Rightarrow> nat \<Rightarrow> CacheManager \<Rightarrow> bool" where
  "cm_inv n p cm \<longleftrightarrow> wf_chain cm \<and> 1 \<le> n \<and> n \<le> p \<and> p < length (chain cm) \<and>
     int (length (chain cm)) = numberOfBlocks cm \<and>
     middleSectionIter cm = cell_iter cm n \<and> oldSectionIter cm = cell_iter cm p \<and>
     map_ok (view cm) (blocksMap cm) \<and> sections_ok n p (chain_blocks cm) \<and>
     nulls_last (abs_cache cm) \<and> counts_ok (abs_cache cm)"

lemma cm_invD:
  assumes "cm_inv n p cm"
  shows "wf_chain cm" "1 \<le> n" "n \<le> p" "p < length (chain cm)"
    "int (length (chain cm)) = numberOfBlocks cm"
    "middleSectionIter cm = cell_iter cm n" "oldSectionIter cm = cell_iter cm p"
    "map_ok (view cm) (blocksMap cm)" "sections_ok n p (chain_blocks cm)"
    "nulls_last (abs_cache cm)" "counts_ok (abs_cache cm)"
  using assms by (simp_all add: cm_inv_def)

text \<open>Where a block that enters at the front pushes the others down to the position \<open>w\<close>, the
  boundary blocks change section.\<close>

lemma shifted_section:
  assumes ys: "ys = b # remove_nth w xs" and ok: "sections_ok n p xs" and w: "w < length xs"
    and i: "0 < i" "i < length ys" "\<not> is_null (ys ! i)"
  shows "section_attr (ys ! i) = section_at n p (if i \<le> w then i - 1 else i)"
proof -
  let ?j = "if i \<le> w then i - 1 else i"
  have "ys ! i = xs ! ?j"
    using i w ys by (cases i) (auto simp: nth_remove_nth)
  moreover have "?j < length xs" using i w ys by auto
  ultimately show ?thesis using ok i(3) by (simp add: sections_ok_def)
qed

lemma sections_shift_new:
  assumes ok: "sections_ok n p xs" and w: "w < n" "w < length xs"
    and b: "section_attr b = newSection" and n: "n \<le> p"
  shows "sections_ok n p (b # remove_nth w xs)"
  unfolding sections_ok_def
proof (intro allI impI)
  fix i assume i: "i < length (b # remove_nth w xs)" and nn: "\<not> is_null ((b # remove_nth w xs) ! i)"
  show "section_attr ((b # remove_nth w xs) ! i) = section_at n p i"
  proof (cases "i = 0")
    case False
    then show ?thesis
      using shifted_section [OF refl ok w(2) _ i nn] w n by (auto simp: section_at_def split: if_splits)
  qed (use b w in \<open>simp add: section_at_def\<close>)
qed

lemma sections_shift_middle:
  assumes ok: "sections_ok n p xs" and w: "n \<le> w" "w < p" "w < length xs"
    and b: "section_attr b = newSection" and n: "1 \<le> n"
    and ys: "ys = b # remove_nth w xs"
  shows "sections_ok n p (ys[n := setSection middleSection (ys ! n)])" (is "sections_ok n p ?zs")
  unfolding sections_ok_def
proof (intro allI impI)
  fix i assume i: "i < length ?zs" and nn: "\<not> is_null (?zs ! i)"
  show "section_attr (?zs ! i) = section_at n p i"
  proof (cases "i = 0 \<or> i = n")
    case True
    moreover have "ys ! 0 = b" using ys by simp
    ultimately show ?thesis using i w n b by (auto simp: section_at_def nth_list_update)
  next
    case False
    then have "?zs ! i = ys ! i" by simp
    then have "section_attr (?zs ! i) = section_at n p (if i \<le> w then i - 1 else i)"
      using shifted_section [OF ys ok w(3), of i] False i nn by simp
    also have "\<dots> = section_at n p i" using False w by (auto simp: section_at_def)
    finally show ?thesis .
  qed
qed

lemma sections_shift_old:
  assumes ok: "sections_ok n p xs" and w: "p \<le> w" "w < length xs"
    and b: "section_attr b = newSection" and n: "1 \<le> n" "n \<le> p"
    and ys: "ys = b # remove_nth w xs"
  shows "sections_ok n p
    (ys[n := setSection middleSection (ys ! n), p := setSection oldSection (ys ! p)])"
    (is "sections_ok n p ?zs")
  unfolding sections_ok_def
proof (intro allI impI)
  fix i assume i: "i < length ?zs" and nn: "\<not> is_null (?zs ! i)"
  show "section_attr (?zs ! i) = section_at n p i"
  proof (cases "i = 0 \<or> i = n \<or> i = p")
    case True
    moreover have "ys ! 0 = b" using ys by simp
    ultimately show ?thesis using i w n b by (auto simp: section_at_def nth_list_update)
  next
    case False
    then have "?zs ! i = ys ! i" by simp
    then have "section_attr (?zs ! i) = section_at n p (if i \<le> w then i - 1 else i)"
      using shifted_section [OF ys ok w(2), of i] False i nn by simp
    also have "\<dots> = section_at n p i" using False w n by (auto simp: section_at_def)
    finally show ?thesis .
  qed
qed

section \<open>Lookup\<close>

lemma fbr_pos_Some:
  "fbr_pos xs bid = Some i \<Longrightarrow> i < length xs \<and> \<not> is_null (xs ! i) \<and> getBlockId (xs ! i) = bid"
  unfolding fbr_pos_def by (drule index_of_Some) simp

lemma view_nth:
  "i < length (chain cm) \<Longrightarrow>
    view cm ! i = (fst (chain cm ! i), is_null (abs_cache cm ! i), getBlockId (abs_cache cm ! i))"
  by (simp add: view_abs key_of_def)

lemma wf_distinct_view: "wf_chain cm \<Longrightarrow> distinct (map fst (view cm))"
  by (simp add: wf_chain_def slist_inv_def slist_ids_def)

text \<open>The map finds exactly the blocks of the chain.\<close>

lemma map_lookup:
  assumes "map_ok (view cm) (blocksMap cm)"
  shows "blocksMap cm bid = map_option (cell_iter cm) (fbr_pos (abs_cache cm) bid)"
proof (cases "fbr_pos (abs_cache cm) bid")
  case None
  then have none: "\<forall>b\<in>set (abs_cache cm). is_null b \<or> getBlockId b \<noteq> bid"
    by (auto simp: fbr_pos_def index_of_None)
  have "(k, False, bid) \<notin> set (view cm)" for k
  proof
    assume "(k, False, bid) \<in> set (view cm)"
    then have "(False, bid) \<in> key_of ` set (abs_cache cm)"
      unfolding view_abs by (auto dest: set_zip_rightD)
    with none show False by (auto simp: key_of_def)
  qed
  then have "blocksMap cm bid = None"
    using map_ok_Some [OF assms, of bid] by (cases "blocksMap cm bid") auto
  with None show ?thesis by simp
next
  case (Some i)
  then have i: "i < length (chain cm)" "\<not> is_null (abs_cache cm ! i)" "getBlockId (abs_cache cm ! i) = bid"
    using fbr_pos_Some by fastforce+
  then have "view cm ! i = (fst (chain cm ! i), False, bid)" by (simp add: view_nth)
  then have "(fst (chain cm ! i), False, bid) \<in> set (view cm)"
    using i(1) by (metis length_view nth_mem)
  then have "blocksMap cm bid = Some (cell_iter cm i)"
    using map_ok_Some [OF assms, of bid] by (simp add: cell_iter_def)
  with Some show ?thesis by simp
qed

text \<open>The second half of \<^const>\<open>findBlock\<close>: the node moves to the head of the chain.\<close>

definition move_front :: "nat \<Rightarrow> BlockID \<Rightarrow> CacheManager \<Rightarrow> CacheManager" where
  "move_front i bid cm =
     cm\<lparr>cacheChain := (cacheChain cm)
             \<lparr>cells := (fresh (cacheChain cm), snd (chain cm ! i)) # remove_nth i (chain cm),
              fresh := Suc (fresh (cacheChain cm))\<rparr>,
        blockHeap := (blockHeap cm)(snd (chain cm ! i) \<mapsto> setSection newSection (chain_blocks cm ! i)),
        blocksMap := (blocksMap cm)(bid \<mapsto> Node (fresh (cacheChain cm)))\<rparr>"

lemma move_front_code:
  assumes wf: "wf_chain cm" and i: "i < length (chain cm)"
  shows "bind_res (deref (cacheChain cm) (cell_iter cm i)) (\<lambda>a.
          let cm3 = cm\<lparr>cacheChain := push_front a (cacheChain cm)\<rparr> in
          bind_res (set_section_at cm3 (slist_begin (cacheChain cm3)) newSection) (\<lambda>cm4.
          let cm5 = cm4\<lparr>blocksMap := (blocksMap cm4)(bid \<mapsto> slist_begin (cacheChain cm4))\<rparr> in
          bind_res (slist_erase (cell_iter cm i) (cacheChain cm5)) (\<lambda>ch.
          let cm6 = cm5\<lparr>cacheChain := ch\<rparr> in
          Inr (slist_begin (cacheChain cm6), cm6))))
    = Inr (Node (fresh (cacheChain cm)), move_front i bid cm)"
proof -
  have "pos (push_front (snd (chain cm ! i)) (cacheChain cm)) (cell_iter cm i) = Some (Suc i)"
    using pos_push_front [OF wf_slist [OF wf] i] by (simp add: cell_iter_def)
  moreover have "deref (cacheChain cm) (cell_iter cm i) = Inr (snd (chain cm ! i))"
    using deref_nth [OF wf_slist [OF wf] i] by (simp add: cell_iter_def)
  ultimately show ?thesis
    using wf_heap [OF wf i]
    by (simp add: Let_def set_section_at_def block_at_def set_block_at_def deref_def
        slist_erase_def move_front_def) (simp add: push_front_def slist_begin_def)
qed

lemma chain_move_front:
  "chain (move_front i bid cm) = (fresh (cacheChain cm), snd (chain cm ! i)) # remove_nth i (chain cm)"
  by (simp add: move_front_def)

lemma move_front_frame [simp]:
  "middleSectionIter (move_front i bid cm) = middleSectionIter cm"
  "oldSectionIter (move_front i bid cm) = oldSectionIter cm"
  "numberOfBlocks (move_front i bid cm) = numberOfBlocks cm"
  "blocksMap (move_front i bid cm) = (blocksMap cm)(bid \<mapsto> Node (fresh (cacheChain cm)))"
  by (simp_all add: move_front_def)

lemma move_front_blocks:
  assumes wf: "wf_chain cm" and i: "i < length (chain cm)"
  shows "chain_blocks (move_front i bid cm) =
    setSection newSection (chain_blocks cm ! i) # remove_nth i (chain_blocks cm)"
proof -
  have "distinct (map snd (chain cm))" using wf by (simp add: wf_chain_def)
  then have "set (remove_nth i (map snd (chain cm))) = set (map snd (chain cm)) - {snd (chain cm ! i)}"
    using i by (simp add: set_remove_nth_distinct)
  then have "snd (chain cm ! i) \<notin> snd ` set (remove_nth i (chain cm))"
    by (simp flip: map_remove_nth)
  then have "snd c \<noteq> snd (chain cm ! i)" if "c \<in> set (remove_nth i (chain cm))" for c
    using that by (metis imageI)
  then have "map (\<lambda>c. the (blockHeap (move_front i bid cm) (snd c))) (remove_nth i (chain cm)) =
      map (\<lambda>c. the (blockHeap cm (snd c))) (remove_nth i (chain cm))"
    by (intro map_cong refl) (auto simp: move_front_def)
  then show ?thesis
    by (simp add: chain_blocks_def chain_move_front map_remove_nth) (simp add: move_front_def chain_blocks_def)
qed

lemma move_front_wf:
  assumes wf: "wf_chain cm" and i: "i < length (chain cm)"
  shows "wf_chain (move_front i bid cm)"
proof -
  have sl: "slist_inv (cacheChain cm)" using wf by (rule wf_slist)
  have d: "distinct (map snd (chain cm))" using wf by (simp add: wf_chain_def)
  have s: "snd ` set (remove_nth i (chain cm)) = snd ` set (chain cm) - {snd (chain cm ! i)}"
    using set_remove_nth_distinct [OF d] i by (simp flip: map_remove_nth)
  have "slist_inv (cacheChain (move_front i bid cm))"
    using slist_inv_push_front [OF slist_inv_remove_nth [OF sl, of i], of "snd (chain cm ! i)"]
    by (simp add: move_front_def push_front_def)
  moreover have "distinct (map snd (chain (move_front i bid cm)))"
    using distinct_remove_nth [OF d, of i] s by (simp add: chain_move_front flip: map_remove_nth)
  moreover have "\<forall>a\<in>set (map snd (chain (move_front i bid cm))).
      a < nextAddr (move_front i bid cm) \<and> blockHeap (move_front i bid cm) a \<noteq> None"
    using wf i by (auto simp: chain_move_front s wf_chain_def) (auto simp: move_front_def)
  ultimately show ?thesis by (simp add: wf_chain_def)
qed

lemma cell_iter_shift:
  assumes "chain cm' = (f, a) # remove_nth w (chain cm)" "w < length (chain cm)"
    "1 \<le> k" "k < length (chain cm)"
  shows "cell_iter cm' k = cell_iter cm (if k \<le> w then k - 1 else k)"
  using assms by (cases k) (auto simp: cell_iter_def nth_remove_nth)

lemma view_shift:
  assumes "chain cm' = (f, a) # remove_nth w (chain cm)"
    "map key_of (abs_cache cm') = key_of b # remove_nth w (map key_of (abs_cache cm))"
    "w < length (chain cm)"
  shows "view cm' = (f, key_of b) # remove_nth w (view cm)"
  using assms(3)
  by (simp add: view_abs assms(1,2) remove_nth_def take_map drop_map take_zip drop_zip)

lemma remove_nth_update_less:
  "k < w \<Longrightarrow> remove_nth w (xs[k := v]) = (remove_nth w xs)[k := v]"
  by (simp add: remove_nth_def list_update_append take_update_swap list_update_beyond)

lemma remove_nth_update_same [simp]: "remove_nth w (xs[w := v]) = remove_nth w xs"
  by (simp add: remove_nth_def)

text \<open>The first half of \<^const>\<open>findBlock\<close>: counting and moving the boundaries.\<close>

definition shift_bounds :: "nat \<Rightarrow> nat \<Rightarrow> nat \<Rightarrow> CacheManager \<Rightarrow> CacheManager" where
  "shift_bounds n p i cm =
     (let cm1 = (if i < n then cm
                 else upd_nth (cm\<lparr>middleSectionIter := cell_iter cm (n - 1)\<rparr>) (n - 1)
                        (setSection middleSection (chain_blocks cm ! (n - 1))))
      in if i < p then cm1
         else upd_nth (cm1\<lparr>oldSectionIter := cell_iter cm (p - 1)\<rparr>) (p - 1)
                (setSection oldSection (chain_blocks cm ! (p - 1))))"

lemma shift_bounds_code:
  assumes wf: "wf_chain cm" and np: "1 \<le> n" "n \<le> p" "p < length (chain cm)"
    and it: "middleSectionIter cm = cell_iter cm n" "oldSectionIter cm = cell_iter cm p"
  shows "(case section_at n p i of newSection \<Rightarrow> Inr cm | middleSection \<Rightarrow> dec_middle cm
     | oldSection \<Rightarrow> bind_res (dec_middle cm) dec_old) = Inr (shift_bounds n p i cm)"
proof -
  obtain m q where m: "n = Suc m" and q: "p = Suc q"
    using np by (cases n; cases p) auto
  let ?cm1 = "upd_nth (cm\<lparr>middleSectionIter := cell_iter cm m\<rparr>) m
      (setSection middleSection (chain_blocks cm ! m))"
  have 1: "dec_middle cm = Inr ?cm1"
    using dec_middle_nth [OF wf] np it m by simp
  have wf1: "wf_chain ?cm1" using wf by (simp add: wf_upd_nth)
  have b1: "setSection oldSection (chain_blocks ?cm1 ! q) = setSection oldSection (chain_blocks cm ! q)"
    using wf np m q by (auto simp: chain_blocks_upd_nth nth_list_update)
  have 2: "dec_old ?cm1 = Inr (upd_nth (?cm1\<lparr>oldSectionIter := cell_iter cm q\<rparr>) q
      (setSection oldSection (chain_blocks cm ! q)))"
    using dec_old_nth [OF wf1, of q] np it q b1 by simp
  show ?thesis
    using 1 2 m q np by (auto simp: section_at_def shift_bounds_def Let_def)
qed

lemma shift_bounds_facts:
  assumes wf: "wf_chain cm" and np: "1 \<le> n" "n \<le> p" "p < length (chain cm)"
  shows "wf_chain (shift_bounds n p i cm)"
    "cacheChain (shift_bounds n p i cm) = cacheChain cm"
    "blocksMap (shift_bounds n p i cm) = blocksMap cm"
    "numberOfBlocks (shift_bounds n p i cm) = numberOfBlocks cm"
    "middleSectionIter (shift_bounds n p i cm) =
       (if i < n then middleSectionIter cm else cell_iter cm (n - 1))"
    "oldSectionIter (shift_bounds n p i cm) =
       (if i < p then oldSectionIter cm else cell_iter cm (p - 1))"
    "chain_blocks (shift_bounds n p i cm) =
       (let xs = chain_blocks cm;
            xs1 = (if i < n then xs else xs[n - 1 := setSection middleSection (xs ! (n - 1))])
        in if i < p then xs1 else xs1[p - 1 := setSection oldSection (xs ! (p - 1))])"
    "abs_cache (shift_bounds n p i cm) = abs_cache cm"
proof -
  show blocks: "chain_blocks (shift_bounds n p i cm) =
       (let xs = chain_blocks cm;
            xs1 = (if i < n then xs else xs[n - 1 := setSection middleSection (xs ! (n - 1))])
        in if i < p then xs1 else xs1[p - 1 := setSection oldSection (xs ! (p - 1))])"
    using wf np by (auto simp: shift_bounds_def Let_def chain_blocks_upd_nth wf_upd_nth)
  show "abs_cache (shift_bounds n p i cm) = abs_cache cm"
    using np by (auto simp: abs_cache_def blocks Let_def map_update list_update_same_conv
        simp del: list_update_overwrite intro!: nth_equalityI simp: nth_list_update)
qed (use wf in \<open>auto simp: shift_bounds_def Let_def wf_upd_nth\<close>)

lemma map_update_same: "f v = f (xs ! i) \<Longrightarrow> map f (xs[i := v]) = map f xs"
  by (metis list_update_id map_update)

lemma map_strip_sections:
  "map strip (ys[n := setSection s (ys ! n)]) = map strip ys"
  "n < length ys \<Longrightarrow>
    map strip (ys[n := setSection s (ys ! n), p := setSection t (ys ! p)]) = map strip ys"
  by (simp_all add: map_update_same nth_list_update)

text \<open>One lemma for both ways in which a block enters at the front: a hit, where \<open>w\<close> is its old
  position, and an insertion, where \<open>w\<close> is the position of the block that leaves.\<close>

lemma cm_inv_front:
  assumes inv: "cm_inv n p cm" and w: "w < length (chain cm)"
    and wf: "wf_chain cm'" and ch: "chain cm' = (f, a) # remove_nth w (chain cm)"
    and blocks: "chain_blocks cm' =
       (let ys = b # remove_nth w (chain_blocks cm);
            ys1 = (if w < n then ys else ys[n := setSection middleSection (ys ! n)])
        in if w < p then ys1 else ys1[p := setSection oldSection (ys ! p)])"
    and b: "section_attr b = newSection" "\<not> is_null b" "1 \<le> refCount b" "refCount b \<le> INT_MAX"
    and m: "middleSectionIter cm' = (if w < n then middleSectionIter cm else cell_iter cm (n - 1))"
    and q: "oldSectionIter cm' = (if w < p then oldSectionIter cm else cell_iter cm (p - 1))"
    and nb: "numberOfBlocks cm' = numberOfBlocks cm"
    and mp: "map_ok ((f, key_of b) # remove_nth w (view cm)) (blocksMap cm')"
  shows "cm_inv n p cm' \<and> abs_cache cm' = strip b # remove_nth w (abs_cache cm)"
proof -
  note I = cm_invD [OF inv]
  have abs: "abs_cache cm' = strip b # remove_nth w (abs_cache cm)"
  proof -
    define ys where "ys = b # remove_nth w (chain_blocks cm)"
    have "n < length ys" using I(3,4) w by (simp add: ys_def)
    then have "map strip (chain_blocks cm') = map strip ys"
      unfolding blocks Let_def ys_def [symmetric] using I(3) by (auto simp: map_strip_sections)
    then show ?thesis by (simp add: abs_cache_def ys_def map_remove_nth)
  qed
  have len: "length (chain cm') = length (chain cm)" using ch w by simp
  have sec: "sections_ok n p (chain_blocks cm')"
    using sections_shift_new [OF I(9) _ _ b(1) I(3), of w]
      sections_shift_middle [OF I(9) _ _ _ b(1) I(2) refl, of w]
      sections_shift_old [OF I(9) _ _ b(1) I(2,3) refl, of w] w I(3)
    by (auto simp: blocks Let_def)
  have view: "view cm' = (f, key_of b) # remove_nth w (view cm)"
    by (rule view_shift [OF ch _ w]) (simp add: abs map_remove_nth)
  have "sorted (map is_null (abs_cache cm'))"
    using sorted_remove_nth [of "map is_null (abs_cache cm)" w] I(10) b(2)
    by (simp add: abs nulls_last_def map_remove_nth)
  moreover have "counts_ok (abs_cache cm')"
    using I(11) b(3,4) set_remove_nth_subset [of w "abs_cache cm"] by (auto simp: abs counts_ok_def)
  moreover have "middleSectionIter cm' = cell_iter cm' n"
    using cell_iter_shift [OF ch w, of n] I(2-4,6) m by auto
  moreover have "oldSectionIter cm' = cell_iter cm' p"
    using cell_iter_shift [OF ch w, of p] I(2-4,7) q by auto
  ultimately show ?thesis
    using wf I(2-5) len nb mp sec view abs by (simp add: cm_inv_def nulls_last_def)
qed

definition can_touch :: "nat \<Rightarrow> nat \<Rightarrow> CacheBlock list \<Rightarrow> bool" where
  "can_touch n i xs \<longleftrightarrow> i < n \<or> refCount (xs ! i) < INT_MAX"

lemma findBlock_miss:
  "cm_inv n p cm \<Longrightarrow> fbr_pos (abs_cache cm) bid = None \<Longrightarrow> findBlock cm bid = Inr (End, cm)"
  by (simp add: findBlock_def map_lookup [OF cm_invD(8)])

lemma hit_facts:
  assumes "fbr_pos (abs_cache cm) bid = Some i"
  shows "i < length (chain cm)" "\<not> is_null (chain_blocks cm ! i)" "getBlockId (chain_blocks cm ! i) = bid"
  using fbr_pos_Some [OF assms] by (auto simp: nth_abs_cache)

text \<open>The count of the block that was hit, outside the new section.\<close>

definition touch_at :: "nat \<Rightarrow> nat \<Rightarrow> CacheManager \<Rightarrow> CacheManager" where
  "touch_at n i cm = (if i < n then cm else upd_nth cm i (fbr_touch n i (chain_blocks cm ! i)))"

lemma touch_at_frame [simp]:
  "cacheChain (touch_at n i cm) = cacheChain cm" "blocksMap (touch_at n i cm) = blocksMap cm"
  "middleSectionIter (touch_at n i cm) = middleSectionIter cm"
  "oldSectionIter (touch_at n i cm) = oldSectionIter cm"
  "numberOfBlocks (touch_at n i cm) = numberOfBlocks cm"
  "cell_iter (touch_at n i cm) j = cell_iter cm j"
  "wf_chain cm \<Longrightarrow> wf_chain (touch_at n i cm)"
  by (simp_all add: touch_at_def wf_upd_nth)

lemma touch_at_blocks:
  "wf_chain cm \<Longrightarrow> i < length (chain cm) \<Longrightarrow>
    chain_blocks (touch_at n i cm) = (chain_blocks cm)[i := fbr_touch n i (chain_blocks cm ! i)]"
  by (simp add: touch_at_def chain_blocks_upd_nth) (simp add: fbr_touch_def)

lemma touch_at_code:
  assumes inv: "cm_inv n p cm" and i: "i < length (chain cm)" "\<not> is_null (chain_blocks cm ! i)"
    and t: "can_touch n i (abs_cache cm)"
  shows "(if getSection (chain_blocks cm ! i) \<noteq> newSection
      then bind_res (incrementRefCount (chain_blocks cm ! i)) (set_block_at cm (cell_iter cm i))
      else Inr cm) = Inr (touch_at n i cm)"
proof -
  note I = cm_invD [OF inv]
  have sec: "getSection (chain_blocks cm ! i) = section_at n p i"
    using I(9) i by (simp add: sections_ok_def getSection_def)
  have "abs_cache cm ! i \<in> set (abs_cache cm)" using i by simp
  then have "1 \<le> refCount (chain_blocks cm ! i)"
    using I(11) i by (auto simp: counts_ok_def nth_abs_cache)
  then have "incrementRefCount (chain_blocks cm ! i) = Inr (fbr_touch n i (chain_blocks cm ! i))"
    if "\<not> i < n"
    using that t i by (simp add: incrementRefCount_Inr can_touch_def fbr_touch_def INT_MIN_def nth_abs_cache)
  then show ?thesis
    using sec set_block_at_nth [OF I(1) i(1)] I(3) by (auto simp: section_at_def touch_at_def)
qed

text \<open>The state after a hit at position \<open>i\<close>.\<close>

definition hit_state :: "nat \<Rightarrow> nat \<Rightarrow> nat \<Rightarrow> BlockID \<Rightarrow> CacheManager \<Rightarrow> CacheManager" where
  "hit_state n p i bid cm = move_front i bid (shift_bounds n p i (touch_at n i cm))"

lemma findBlock_hit_code:
  assumes inv: "cm_inv n p cm" and i: "fbr_pos (abs_cache cm) bid = Some i"
    and t: "can_touch n i (abs_cache cm)"
  shows "findBlock cm bid = Inr (Node (fresh (cacheChain cm)), hit_state n p i bid cm)"
proof -
  note I = cm_invD [OF inv]
  note H = hit_facts [OF i]
  let ?b = "chain_blocks cm ! i"
  let ?cm1 = "touch_at n i cm"
  let ?cm2 = "shift_bounds n p i ?cm1"
  have m: "blocksMap cm bid = Some (cell_iter cm i)"
    using map_lookup [OF I(8), of bid] i by simp
  have wf1: "wf_chain ?cm1" using I(1) by simp
  have b1: "block_at ?cm1 (cell_iter cm i) = Inr (fbr_touch n i ?b)"
    using block_at_nth [OF wf1, of i] H(1) I(1) by (simp add: touch_at_blocks)
  have s1: "getSection (fbr_touch n i ?b) = section_at n p i"
    using I(9) H by (simp add: fbr_touch_def sections_ok_def getSection_def)
  have sh: "(case section_at n p i of newSection \<Rightarrow> Inr ?cm1 | middleSection \<Rightarrow> dec_middle ?cm1
     | oldSection \<Rightarrow> bind_res (dec_middle ?cm1) dec_old) = Inr ?cm2"
    by (rule shift_bounds_code [OF wf1]) (use I in simp_all)
  have F: "wf_chain ?cm2" "cacheChain ?cm2 = cacheChain cm"
    using shift_bounds_facts [OF wf1 I(2,3)] I(4) by simp_all
  have ci: "cell_iter ?cm2 i = cell_iter cm i" using F by (simp add: cell_iter_def)
  show ?thesis
    using move_front_code [OF F(1), of i bid] H(1) F(2) ci
    by (simp only: findBlock_def m option.case block_at_nth [OF I(1) H(1)] bind_res_simps
        touch_at_code [OF inv H(1,2) t] b1 s1 sh hit_state_def)
qed

lemma front_shift_list:
  assumes np: "1 \<le> n" "n \<le> p" "p < length xs" and i: "i < length xs"
    and zs: "zs = (let xs1 = xs[i := t];
          xs2 = (if i < n then xs1 else xs1[n - 1 := setSection middleSection (xs1 ! (n - 1))])
        in if i < p then xs2 else xs2[p - 1 := setSection oldSection (xs1 ! (p - 1))])"
  shows "setSection newSection (zs ! i) # remove_nth i zs =
       (let ys = setSection newSection t # remove_nth i xs;
            ys1 = (if i < n then ys else ys[n := setSection middleSection (ys ! n)])
        in if i < p then ys1 else ys1[p := setSection oldSection (ys ! p)])"
proof -
  obtain m q where m: "n = Suc m" "p = Suc q" using np by (cases n; cases p) auto
  show ?thesis
    unfolding zs m Let_def using np i m
    by (auto simp: remove_nth_update_less nth_remove_nth)
qed

lemma findBlock_hit:
  assumes inv: "cm_inv n p cm" and i: "fbr_pos (abs_cache cm) bid = Some i"
    and t: "can_touch n i (abs_cache cm)"
  shows "cm_inv n p (hit_state n p i bid cm) \<and>
    abs_cache (hit_state n p i bid cm) = fbr_hit n i (abs_cache cm)"
proof -
  note I = cm_invD [OF inv]
  note H = hit_facts [OF i]
  let ?b = "chain_blocks cm ! i"
  let ?cm2 = "shift_bounds n p i (touch_at n i cm)"
  let ?b' = "setSection newSection (fbr_touch n i ?b)"
  have wf1: "wf_chain (touch_at n i cm)" using I(1) by simp
  have np: "p < length (chain (touch_at n i cm))" using I(4) by simp
  note F = shift_bounds_facts [OF wf1 I(2,3) np, of i]
  have ch2: "i < length (chain ?cm2)" using F(2) H(1) by simp
  have key: "key_of ?b' = (False, bid)"
    using H by (simp add: fbr_touch_def key_of_def is_null_def getBlockId_def)
  have "view cm ! i = (fst (chain cm ! i), False, bid)"
    using H by (simp add: view_nth nth_abs_cache)
  then have mp: "map_ok ((fresh (cacheChain cm), key_of ?b') # remove_nth i (view cm))
      ((blocksMap cm)(bid \<mapsto> Node (fresh (cacheChain cm))))"
    using map_ok_move [OF I(8) wf_distinct_view [OF I(1)]] H(1) key by simp
  have bl: "chain_blocks (move_front i bid ?cm2) =
       (let ys = ?b' # remove_nth i (chain_blocks cm);
            ys1 = (if i < n then ys else ys[n := setSection middleSection (ys ! n)])
        in if i < p then ys1 else ys1[p := setSection oldSection (ys ! p)])"
    unfolding move_front_blocks [OF F(1) ch2]
    by (rule front_shift_list [OF I(2,3)]) (use I(4) H(1) F(7) touch_at_blocks [OF I(1) H(1)] in simp_all)
  have rc: "1 \<le> refCount ?b" "i < n \<or> refCount ?b < INT_MAX" "refCount ?b \<le> INT_MAX"
    using I(11) t nth_mem [of i "abs_cache cm"] H(1)
    by (auto simp: counts_ok_def can_touch_def nth_abs_cache)
  have "cm_inv n p (move_front i bid ?cm2) \<and>
      abs_cache (move_front i bid ?cm2) = strip ?b' # remove_nth i (abs_cache cm)"
    by (rule cm_inv_front [OF inv H(1) _ _ bl])
      (use F ch2 key mp rc H(1) in \<open>auto simp: move_front_wf chain_move_front fbr_touch_def key_of_def\<close>)
  then show ?thesis
    using H(1) by (simp add: hit_state_def fbr_hit_def nth_abs_cache) (simp add: fbr_touch_def)
qed

section \<open>The eviction candidate\<close>

lemma victim_spec:
  assumes "p < length xs"
  shows "p \<le> victim p xs" "victim p xs < length xs"
    "p \<le> k \<Longrightarrow> k < length xs \<Longrightarrow> refCount (xs ! victim p xs) \<le> refCount (xs ! k)"
    "victim p xs < k \<Longrightarrow> k < length xs \<Longrightarrow> refCount (xs ! victim p xs) < refCount (xs ! k)"
proof -
  let ?I = "set [p..<length xs]"
  let ?P = "\<lambda>j. \<forall>k\<in>?I. refCount (xs ! j) \<le> refCount (xs ! k)"
  let ?L = "filter ?P [p..<length xs]"
  let ?f = "\<lambda>k. refCount (xs ! k)"
  have "Min (?f ` ?I) \<in> ?f ` ?I" using assms by (intro Min_in) auto
  then obtain j where j: "j \<in> ?I" "Min (?f ` ?I) = ?f j" by blast
  then have "?P j" by (metis List.finite_set Min_le finite_imageI imageI)
  with j(1) have ne: "?L \<noteq> []" by (auto simp: filter_empty_conv)
  have v: "victim p xs \<in> set ?L" unfolding victim_def using ne by (rule last_in_set)
  have top: "k \<le> victim p xs" if k: "k \<in> set ?L" for k
  proof -
    have "sorted (butlast ?L @ [last ?L])" using ne by (simp add: sorted_wrt_filter)
    moreover have "set ?L = set (butlast ?L @ [last ?L])" using ne by simp
    ultimately show ?thesis using k unfolding victim_def by (auto simp: sorted_append)
  qed
  show "p \<le> victim p xs" "victim p xs < length xs" using v by auto
  show le: "p \<le> k \<Longrightarrow> k < length xs \<Longrightarrow> refCount (xs ! victim p xs) \<le> refCount (xs ! k)" for k
    using v by auto
  show "victim p xs < k \<Longrightarrow> k < length xs \<Longrightarrow> refCount (xs ! victim p xs) < refCount (xs ! k)"
  proof (rule ccontr)
    assume k: "victim p xs < k" "k < length xs" and "\<not> refCount (xs ! victim p xs) < refCount (xs ! k)"
    then have "?f k \<le> ?f (victim p xs)" by simp
    then have "k \<in> set ?L" using le v k by (auto intro: order_trans)
    then show False using top k by fastforce
  qed
qed

lemma evict_loop_keep:
  "\<forall>c\<in>set cs. \<exists>b. h (snd c) = Some b \<and> m < refCount b \<Longrightarrow> evict_loop h cs m cand = Inr cand"
  by (induction cs) (auto simp: getRefCount_def)

lemma evict_loop_last_min:
  assumes "\<forall>c\<in>set cs. h (snd c) = Some (g c)" "j < length cs" "refCount (g (cs ! j)) \<le> m"
    "\<And>k. k < length cs \<Longrightarrow> refCount (g (cs ! j)) \<le> refCount (g (cs ! k))"
    "\<And>k. j < k \<Longrightarrow> k < length cs \<Longrightarrow> refCount (g (cs ! j)) < refCount (g (cs ! k))"
  shows "evict_loop h cs m cand = Inr (Node (fst (cs ! j)))"
  using assms
proof (induction cs arbitrary: m cand j)
  case Nil
  then show ?case by simp
next
  case (Cons c cs)
  show ?case
  proof (cases j)
    case 0
    have "\<exists>b. h (snd d) = Some b \<and> refCount (g c) < refCount b" if d: "d \<in> set cs" for d
    proof -
      obtain k where "k < length cs" "d = cs ! k" using d by (auto simp: in_set_conv_nth)
      then show ?thesis using Cons.prems(1) Cons.prems(5) [of "Suc k"] 0 by simp
    qed
    then show ?thesis using Cons.prems(1,3) 0 evict_loop_keep [of cs h] by (simp add: getRefCount_def)
  next
    case (Suc i)
    have IH: "evict_loop h cs m' cand' = Inr (Node (fst (cs ! i)))" if "refCount (g (cs ! i)) \<le> m'" for m' cand'
    proof (rule Cons.IH)
      show "\<forall>c\<in>set cs. h (snd c) = Some (g c)" "i < length cs" using Cons.prems(1,2) Suc by simp_all
    next
      fix k assume "k < length cs"
      then show "refCount (g (cs ! i)) \<le> refCount (g (cs ! k))" using Cons.prems(4) [of "Suc k"] Suc by simp
    next
      fix k assume "i < k" "k < length cs"
      then show "refCount (g (cs ! i)) < refCount (g (cs ! k))" using Cons.prems(5) [of "Suc k"] Suc by simp
    qed (rule that)
    have "refCount (g (cs ! i)) \<le> refCount (g c)" using Cons.prems(4) [of 0] Suc by simp
    then show ?thesis using Cons.prems(1,3) Suc IH by (simp add: getRefCount_def)
  qed
qed

section \<open>Insertion\<close>

text \<open>The state of \<^const>\<open>insertBlock\<close> once the new block is at the head of the chain.\<close>

definition pushed :: "CacheBlock \<Rightarrow> CacheManager \<Rightarrow> CacheManager" where
  "pushed b cm =
     cm\<lparr>blockHeap := (blockHeap cm)(nextAddr cm \<mapsto> b), nextAddr := Suc (nextAddr cm),
        cacheChain := push_front (nextAddr cm) (cacheChain cm),
        blocksMap := (blocksMap cm)(getBlockId b \<mapsto> Node (fresh (cacheChain cm)))\<rparr>"

text \<open>The same state with the node at position \<open>w\<close> of the old chain removed.\<close>

definition replaced :: "CacheBlock \<Rightarrow> nat \<Rightarrow> (BlockID \<rightharpoonup> iterator) \<Rightarrow> CacheManager \<Rightarrow> CacheManager" where
  "replaced b w m cm =
     (pushed b cm)\<lparr>cacheChain := (push_front (nextAddr cm) (cacheChain cm))
         \<lparr>cells := (fresh (cacheChain cm), nextAddr cm) # remove_nth w (chain cm)\<rparr>,
       blocksMap := m\<rparr>"

lemma pushed_heap:
  assumes "wf_chain cm" "i < length (chain cm)"
  shows "blockHeap (pushed b cm) (snd (chain cm ! i)) = Some (chain_blocks cm ! i)"
proof -
  have "snd (chain cm ! i) < nextAddr cm" using assms by (auto simp: wf_chain_def)
  then show ?thesis using wf_heap [OF assms] by (simp add: pushed_def)
qed

lemma replaced_facts:
  assumes wf: "wf_chain cm" and w: "w < length (chain cm)"
  shows "wf_chain (replaced b w m cm)"
    "chain (replaced b w m cm) = (fresh (cacheChain cm), nextAddr cm) # remove_nth w (chain cm)"
    "chain_blocks (replaced b w m cm) = b # remove_nth w (chain_blocks cm)"
    "middleSectionIter (replaced b w m cm) = middleSectionIter cm"
    "oldSectionIter (replaced b w m cm) = oldSectionIter cm"
    "numberOfBlocks (replaced b w m cm) = numberOfBlocks cm"
    "blocksMap (replaced b w m cm) = m"
proof -
  show ch: "chain (replaced b w m cm) = (fresh (cacheChain cm), nextAddr cm) # remove_nth w (chain cm)"
    by (simp add: replaced_def)
  have old: "c \<in> set (chain cm)" if "c \<in> set (remove_nth w (chain cm))" for c
    by (rule subsetD [OF set_remove_nth_subset that])
  have lt: "snd c < nextAddr cm" if "c \<in> set (chain cm)" for c
    using wf that by (simp add: wf_chain_def)
  have hp: "blockHeap (replaced b w m cm) (snd c) = blockHeap cm (snd c)" if "c \<in> set (chain cm)" for c
    using lt [OF that] by (simp add: replaced_def pushed_def)
  have "map (\<lambda>c. the (blockHeap (replaced b w m cm) (snd c))) (remove_nth w (chain cm)) =
      map (\<lambda>c. the (blockHeap cm (snd c))) (remove_nth w (chain cm))"
    by (intro map_cong refl) (simp add: hp old)
  then show "chain_blocks (replaced b w m cm) = b # remove_nth w (chain_blocks cm)"
    by (simp add: chain_blocks_def ch map_remove_nth) (simp add: replaced_def pushed_def)
  have "slist_inv (push_front (nextAddr cm) ((cacheChain cm)\<lparr>cells := remove_nth w (chain cm)\<rparr>))"
    by (intro slist_inv_push_front slist_inv_remove_nth wf_slist [OF wf])
  then have "slist_inv (cacheChain (replaced b w m cm))"
    by (simp add: replaced_def push_front_def slist_inv_def slist_ids_def)
  moreover have "distinct (map snd (chain (replaced b w m cm)))"
    using wf old lt distinct_remove_nth [of "map snd (chain cm)" w]
    by (fastforce simp: ch wf_chain_def map_remove_nth simp flip: map_remove_nth)
  moreover have "snd c < nextAddr (replaced b w m cm) \<and> blockHeap (replaced b w m cm) (snd c) \<noteq> None"
    if "c \<in> set (chain (replaced b w m cm))" for c
  proof (cases "c \<in> set (chain cm)")
    case True
    then have "blockHeap cm (snd c) \<noteq> None" using wf by (simp add: wf_chain_def)
    then show ?thesis using hp [OF True] lt [OF True] by (simp add: replaced_def pushed_def)
  next
    case False
    then have "c = (fresh (cacheChain cm), nextAddr cm)" using that old [of c] by (auto simp: ch)
    then show ?thesis by (simp add: replaced_def pushed_def)
  qed
  ultimately show "wf_chain (replaced b w m cm)" by (simp add: wf_chain_def)
qed (simp_all add: replaced_def pushed_def)

lemma pushed_frame [simp]:
  "cacheChain (pushed b cm) = push_front (nextAddr cm) (cacheChain cm)"
  "oldSectionIter (pushed b cm) = oldSectionIter cm"
  "blocksMap (pushed b cm) = (blocksMap cm)(getBlockId b \<mapsto> Node (fresh (cacheChain cm)))"
  by (simp_all add: pushed_def)

text \<open>Both ways of making room remove one node: the last null block, or the candidate.\<close>

lemma evict_pushed:
  assumes inv: "cm_inv n p cm" and v: "v = victim p (abs_cache cm)"
  shows "evict (pushed b cm) =
    Inr (replaced b v ((blocksMap (pushed b cm))(getBlockId (abs_cache cm ! v) := None)) cm)"
proof -
  note I = cm_invD [OF inv]
  let ?ch = "push_front (nextAddr cm) (cacheChain cm)"
  let ?g = "\<lambda>c. the (blockHeap cm (snd c))"
  have pl: "p < length (abs_cache cm)" using I(4) by simp
  note V = victim_spec [OF pl, folded v]
  have vl: "v < length (chain cm)" using V(2) by simp
  have rc: "refCount (?g (chain cm ! k)) = refCount (abs_cache cm ! k)" if "k < length (chain cm)" for k
    using that wf_heap [OF I(1) that] by (simp add: nth_abs_cache)
  have cf: "cells_from ?ch (oldSectionIter cm) = Inr (drop p (chain cm))"
    using pos_push_front [OF wf_slist [OF I(1)] I(4)] I(7) by (simp add: cells_from_def cell_iter_def)
  have hp: "\<forall>c\<in>set (drop p (chain cm)). blockHeap (pushed b cm) (snd c) = Some (?g c)"
  proof
    fix c assume "c \<in> set (drop p (chain cm))"
    then obtain k where "k < length (chain cm)" "c = chain cm ! k"
      by (metis in_set_conv_nth in_set_dropD)
    then show "blockHeap (pushed b cm) (snd c) = Some (?g c)"
      using pushed_heap [OF I(1)] wf_heap [OF I(1)] by simp
  qed
  have "evict_loop (blockHeap (pushed b cm)) (drop p (chain cm)) INT_MAX Singular =
      Inr (Node (fst (drop p (chain cm) ! (v - p))))"
  proof (rule evict_loop_last_min [OF hp])
    show "refCount (?g (drop p (chain cm) ! (v - p))) \<le> INT_MAX"
      using I(11) V(1) vl rc [OF vl] by (auto simp: counts_ok_def)
  qed (use V vl rc in auto)
  then have el: "evict_loop (blockHeap (pushed b cm)) (drop p (chain cm)) INT_MAX Singular =
      Inr (cell_iter cm v)"
    using V(1) vl by (simp add: cell_iter_def)
  have ps: "pos ?ch (cell_iter cm v) = Some (Suc v)"
    using pos_push_front [OF wf_slist [OF I(1)] vl] by (simp add: cell_iter_def)
  have ba: "block_at (pushed b cm) (cell_iter cm v) = Inr (chain_blocks cm ! v)"
    using ps pushed_heap [OF I(1) vl] by (simp add: block_at_def deref_def)
  show ?thesis
    using vl by (simp add: evict_def cf el ba Let_def slist_erase_def ps replaced_def nth_abs_cache)
qed

lemma pop_back_pushed:
  assumes "chain cm \<noteq> []"
  shows "bind_res (pop_back (cacheChain (pushed b cm))) (\<lambda>ch. Inr ((pushed b cm)\<lparr>cacheChain := ch\<rparr>)) =
    Inr (replaced b (length (chain cm) - 1) (blocksMap (pushed b cm)) cm)"
  using assms by (auto simp: pop_back_def replaced_def remove_nth_last pushed_def
      intro!: CacheManager.equality)

lemma insertBlock_pushed:
  "insertBlock cm fid bn bf pth =
     bind_res (findBlock cm (fid, bn)) (\<lambda>(it, cm0).
     if it \<noteq> End then Inl (ExitCall 1)
     else
       (let cm3 = pushed (new_CacheBlock fid bn bf pth) cm0 in
        bind_res (slist_back (cacheChain cm3)) (\<lambda>la.
        bind_res (the_res (blockHeap cm3 la) NullPointer) (\<lambda>lb.
        bind_res (if getBlockNumber lb = NULL_BLOCK
                  then bind_res (pop_back (cacheChain cm3)) (\<lambda>ch. Inr (cm3\<lparr>cacheChain := ch\<rparr>))
                  else evict cm3) (\<lambda>cm4.
        bind_res (dec_middle cm4) dec_old)))))"
  by (simp add: insertBlock_def new_block_def pushed_def Let_def cong: if_cong)

definition room_map :: "nat \<Rightarrow> CacheBlock \<Rightarrow> CacheManager \<Rightarrow> BlockID \<rightharpoonup> iterator" where
  "room_map p b cm =
     (if is_null (last (abs_cache cm)) then blocksMap (pushed b cm)
      else (blocksMap (pushed b cm))(getBlockId (abs_cache cm ! victim p (abs_cache cm)) := None))"

lemma insertBlock_code:
  assumes inv: "cm_inv n p cm" and no: "fbr_pos (abs_cache cm) (fid, bn) = None"
    and b: "b = new_CacheBlock fid bn bf pth"
  shows "insertBlock cm fid bn bf pth =
    bind_res (dec_middle (replaced b (fbr_out p (abs_cache cm)) (room_map p b cm) cm)) dec_old"
proof -
  note I = cm_invD [OF inv]
  have ne: "chain cm \<noteq> []" "abs_cache cm \<noteq> []"
    using I(4) by auto (metis length_0_conv length_abs_cache less_nat_zero_code)
  let ?l = "length (chain cm) - 1"
  have bk: "slist_back (cacheChain (pushed b cm)) = Inr (snd (chain cm ! ?l))"
    using ne by (simp add: slist_back_def last_conv_nth)
  have lb: "blockHeap (pushed b cm) (snd (chain cm ! ?l)) = Some (chain_blocks cm ! ?l)"
    by (rule pushed_heap [OF I(1)]) (use ne in simp)
  have nl: "getBlockNumber (chain_blocks cm ! ?l) = NULL_BLOCK \<longleftrightarrow> is_null (last (abs_cache cm))"
    using ne by (simp add: last_conv_nth nth_abs_cache is_null_def getBlockNumber_def)
  have room: "(if getBlockNumber (chain_blocks cm ! ?l) = NULL_BLOCK
      then bind_res (pop_back (cacheChain (pushed b cm))) (\<lambda>ch. Inr ((pushed b cm)\<lparr>cacheChain := ch\<rparr>))
      else evict (pushed b cm)) = Inr (replaced b (fbr_out p (abs_cache cm)) (room_map p b cm) cm)"
    unfolding nl using pop_back_pushed [OF ne(1), of b] evict_pushed [OF inv refl, of b]
    by (simp add: fbr_out_def room_map_def)
  show ?thesis
    unfolding insertBlock_pushed findBlock_miss [OF inv no] Let_def b [symmetric] bind_res_simps case_prod_conv
    using bk lb room by (simp only: bind_res_simps the_res_simps if_False not_not simp_thms)
qed

lemma fbr_out_bounds:
  assumes "cm_inv n p cm"
  shows "p \<le> fbr_out p (abs_cache cm)" "fbr_out p (abs_cache cm) < length (chain cm)"
proof -
  have pl: "p < length (abs_cache cm)" using cm_invD(4) [OF assms] by simp
  show "p \<le> fbr_out p (abs_cache cm)" "fbr_out p (abs_cache cm) < length (chain cm)"
    using victim_spec(1,2) [OF pl] pl by (auto simp: fbr_out_def)
qed

lemma room_map_ok:
  assumes inv: "cm_inv n p cm" and no: "fbr_pos (abs_cache cm) (getBlockId b) = None"
    and nn: "\<not> is_null b"
  shows "map_ok ((fresh (cacheChain cm), key_of b) # remove_nth (fbr_out p (abs_cache cm)) (view cm))
    (room_map p b cm)"
proof -
  note I = cm_invD [OF inv]
  let ?f = "fresh (cacheChain cm)" and ?w = "fbr_out p (abs_cache cm)"
  let ?v = "(?f, False, getBlockId b) # view cm"
  have "blocksMap cm (getBlockId b) = None" using map_lookup [OF I(8)] no by simp
  then have ok: "map_ok ?v (blocksMap (pushed b cm))"
    using map_ok_insert [OF I(8)] by simp
  have "?f \<notin> set (map fst (chain cm))"
    using I(1) by (auto simp: wf_chain_def slist_inv_def slist_ids_def)
  then have d: "distinct (map fst ?v)" using wf_distinct_view [OF I(1)] by simp
  have w: "Suc ?w < length ?v" using fbr_out_bounds [OF inv] by simp
  have e: "?v ! Suc ?w = (fst (chain cm ! ?w), is_null (abs_cache cm ! ?w), getBlockId (abs_cache cm ! ?w))"
    using fbr_out_bounds [OF inv] by (simp add: view_nth)
  have ne: "abs_cache cm \<noteq> []" using I(4) length_abs_cache [of cm] by (metis length_0_conv not_less_zero)
  have "map_ok (remove_nth (Suc ?w) ?v) (room_map p b cm)"
  proof (cases "is_null (last (abs_cache cm))")
    case True
    then have "is_null (abs_cache cm ! ?w)" using ne by (simp add: fbr_out_def last_conv_nth)
    then show ?thesis using map_ok_drop_null [OF ok d w] e True by (simp add: room_map_def)
  next
    case False
    have "?w \<le> length (abs_cache cm) - 1" using fbr_out_bounds(2) [OF inv] by simp
    then have "is_null (abs_cache cm ! ?w) \<le> is_null (last (abs_cache cm))"
      using I(10) ne sorted_nth_mono [of "map is_null (abs_cache cm)" ?w "length (abs_cache cm) - 1"]
        I(4) by (simp add: nulls_last_def last_conv_nth)
    then have "\<not> is_null (abs_cache cm ! ?w)" using False by simp
    then show ?thesis using map_ok_delete [OF ok d w] e False by (simp add: room_map_def fbr_out_def)
  qed
  then show ?thesis using nn by (simp add: key_of_def)
qed

definition ins_state :: "nat \<Rightarrow> nat \<Rightarrow> CacheBlock \<Rightarrow> CacheManager \<Rightarrow> CacheManager" where
  "ins_state n p b cm =
     shift_bounds (Suc n) (Suc p) (Suc p) (replaced b (fbr_out p (abs_cache cm)) (room_map p b cm) cm)"

text \<open>Insertion succeeds exactly when the block that leaves is not the first of the old section,
  to which \<^verbatim>\<open>oldSectionIter\<close> still points.\<close>

lemma insertBlock_ok_code:
  assumes inv: "cm_inv n p cm" and no: "fbr_pos (abs_cache cm) (fid, bn) = None"
    and b: "b = new_CacheBlock fid bn bf pth" and w: "fbr_out p (abs_cache cm) \<noteq> p"
  shows "insertBlock cm fid bn bf pth = Inr (ins_state n p b cm)"
proof -
  note I = cm_invD [OF inv]
  let ?w = "fbr_out p (abs_cache cm)"
  let ?cm4 = "replaced b ?w (room_map p b cm) cm"
  have wl: "p < ?w" "?w < length (chain cm)" using fbr_out_bounds [OF inv] w by simp_all
  note R = replaced_facts [OF I(1) wl(2), of b "room_map p b cm"]
  have len: "length (chain ?cm4) = length (chain cm)" using R(2) wl by simp
  have it: "middleSectionIter ?cm4 = cell_iter ?cm4 (Suc n)" "oldSectionIter ?cm4 = cell_iter ?cm4 (Suc p)"
    using cell_iter_shift [OF R(2) wl(2), of "Suc n"] cell_iter_shift [OF R(2) wl(2), of "Suc p"]
      R(4,5) I(3,6,7) wl by auto
  have "bind_res (dec_middle ?cm4) dec_old = Inr (shift_bounds (Suc n) (Suc p) (Suc p) ?cm4)"
    using shift_bounds_code [OF R(1) _ _ _ it, of "Suc p"] I(3) wl len by (simp add: section_at_def)
  then show ?thesis unfolding insertBlock_code [OF inv no b] ins_state_def .
qed

lemma insertBlock_ok:
  assumes inv: "cm_inv n p cm" and no: "fbr_pos (abs_cache cm) (fid, bn) = None"
    and b: "b = new_CacheBlock fid bn bf pth" and bn: "bn \<noteq> NULL_BLOCK"
    and w: "fbr_out p (abs_cache cm) \<noteq> p"
  shows "cm_inv n p (ins_state n p b cm) \<and>
    abs_cache (ins_state n p b cm) = fbr_insert p b (abs_cache cm)"
proof -
  note I = cm_invD [OF inv]
  let ?w = "fbr_out p (abs_cache cm)"
  let ?cm4 = "replaced b ?w (room_map p b cm) cm"
  have wl: "p < ?w" "?w < length (chain cm)" using fbr_out_bounds [OF inv] w by simp_all
  note R = replaced_facts [OF I(1) wl(2), of b "room_map p b cm"]
  have np: "1 \<le> Suc n" "Suc n \<le> Suc p" "Suc p < length (chain ?cm4)" using R(2) wl I(3) by simp_all
  note F = shift_bounds_facts [OF R(1) np, of "Suc p"]
  have bf: "section_attr b = newSection" "\<not> is_null b" "refCount b = 1" "getBlockId b = (fid, bn)" "strip b = b"
    using b bn by (simp_all add: CacheBlock_defs is_null_def strip_def)
  have mp: "map_ok ((fresh (cacheChain cm), key_of b) # remove_nth ?w (view cm)) (room_map p b cm)"
    using room_map_ok [OF inv, of b] no bf by simp
  have bl: "chain_blocks (ins_state n p b cm) =
       (let ys = b # remove_nth ?w (chain_blocks cm);
            ys1 = (if ?w < n then ys else ys[n := setSection middleSection (ys ! n)])
        in if ?w < p then ys1 else ys1[p := setSection oldSection (ys ! p)])"
    using F(7) R(3) wl I(3) by (simp add: ins_state_def Let_def)
  have ci: "cell_iter ?cm4 n = cell_iter cm (n - 1)" "cell_iter ?cm4 p = cell_iter cm (p - 1)"
    using cell_iter_shift [OF R(2) wl(2)] I(2-4) wl by simp_all
  have "cm_inv n p (ins_state n p b cm) \<and>
      abs_cache (ins_state n p b cm) = strip b # remove_nth ?w (abs_cache cm)"
    by (rule cm_inv_front [OF inv wl(2) _ _ bl])
      (use F R wl I(3) bf mp ci in \<open>auto simp: ins_state_def INT_MAX_def\<close>)
  then show ?thesis using bf by (simp add: fbr_insert_def)
qed

lemma insertBlock_dangling:
  assumes inv: "cm_inv n p cm" and no: "fbr_pos (abs_cache cm) (fid, bn) = None"
    and w: "fbr_out p (abs_cache cm) = p"
  shows "insertBlock cm fid bn bf pth = Inl InvalidIterator"
proof -
  note I = cm_invD [OF inv]
  define b where "b = new_CacheBlock fid bn bf pth"
  let ?cm4 = "replaced b p (room_map p b cm) cm"
  note R = replaced_facts [OF I(1,4), of b "room_map p b cm"]
  have d: "distinct (map fst (chain cm))" and f: "fresh (cacheChain cm) \<notin> fst ` set (chain cm)"
    using I(1) by (auto simp: wf_chain_def slist_inv_def slist_ids_def)
  have r: "fst (chain cm ! p) \<notin> fst ` set (remove_nth p (chain cm))"
    using set_remove_nth_distinct [OF d, of p] I(4) by (simp flip: map_remove_nth)
  have "fst (chain cm ! p) \<in> fst ` set (chain cm)" using I(4) by simp
  then have ne: "fresh (cacheChain cm) \<noteq> fst (chain cm ! p)" using f by metis
  have "fst c \<noteq> fst (chain cm ! p)" if "c \<in> set (chain ?cm4)" for c
  proof (cases "c \<in> set (remove_nth p (chain cm))")
    case True
    then show ?thesis using r by (metis imageI)
  next
    case False
    then have "c = (fresh (cacheChain cm), nextAddr cm)" using that R(2) by simp
    then show ?thesis using ne by simp
  qed
  then have gone: "pos (cacheChain ?cm4) (cell_iter cm p) = None"
    by (simp add: pos_def cell_iter_def index_of_None)
  have "bind_res (dec_middle ?cm4) dec_old = Inl InvalidIterator"
  proof (cases "n = p")
    case True
    then show ?thesis
      using gone R(4) I(6) by (simp add: dec_middle_def iter_dec_def cell_iter_def)
  next
    case False
    then have np: "Suc n \<le> p" using I(3) by simp
    then have "middleSectionIter ?cm4 = cell_iter ?cm4 (Suc n)"
      using cell_iter_shift [OF R(2) I(4), of "Suc n"] R(4) I(4,6) by simp
    then have "dec_middle ?cm4 = Inr (upd_nth (?cm4\<lparr>middleSectionIter := cell_iter ?cm4 n\<rparr>) n
        (setSection middleSection (chain_blocks ?cm4 ! n)))"
      using dec_middle_nth [OF R(1), of n] R(2) I(4) np by simp
    then show ?thesis
      using gone R(5) I(7) by (simp add: dec_old_def iter_dec_def cell_iter_def)
  qed
  then show ?thesis using insertBlock_code [OF inv no b_def] w by simp
qed

lemma insertBlock_present:
  assumes "cm_inv n p cm" "fbr_pos (abs_cache cm) (fid, bn) = Some i" "can_touch n i (abs_cache cm)"
  shows "insertBlock cm fid bn bf pth = Inl (ExitCall 1)"
  using findBlock_hit_code [OF assms] by (simp add: insertBlock_def)

end
