(* ===== verification/CFS_Double.thy ===== *)
theory CFS_Double
  imports CFS_Prelude "HOL-Library.Log_Nat" Complex_Main
begin

text \<open>
  The C++ type \<^verbatim>\<open>double\<close> as far as the program uses it: the fractions of the section sizes
  and the quotient that gives the number of blocks to read. A finite value is a rational
  number; every operation computes exactly and rounds to the nearest representable value,
  ties to even, with 53 bits of precision and gradual underflow (IEEE 754 binary64).
\<close>

datatype double = Fin rat | PInf | NInf | NaN

definition pow2 :: "int \<Rightarrow> rat" where
  "pow2 e = (if 0 \<le> e then 2 ^ nat e else 1 / 2 ^ nat (- e))"

text \<open>The exponent of a positive rational: \<open>2^e \<le> q < 2^(e+1)\<close>.\<close>

definition rat_log2 :: "rat \<Rightarrow> int" where
  "rat_log2 q =
     (let (a, b) = quotient_of q; k = bitlen a - bitlen b
      in if pow2 k \<le> q then k else k - 1)"

definition round_even :: "rat \<Rightarrow> int" where
  "round_even q =
     (let f = \<lfloor>q\<rfloor>; d = q - of_int f
      in if d < 1 / 2 then f else if 1 / 2 < d then f + 1 else if even f then f else f + 1)"

definition rnd_exp :: "rat \<Rightarrow> int" where
  "rnd_exp q = max (rat_log2 \<bar>q\<bar> - 52) (-1074)"

definition rnd :: "rat \<Rightarrow> rat" where
  "rnd q = (if q = 0 then 0 else of_int (round_even (q / pow2 (rnd_exp q))) * pow2 (rnd_exp q))"

definition to_double :: "rat \<Rightarrow> double" where
  "to_double q =
     (let r = rnd q in
      if 2 ^ 1024 \<le> r then PInf else if r \<le> - (2 ^ 1024) then NInf else Fin r)"

section \<open>Operations\<close>

definition d_of_int :: "int \<Rightarrow> double" where
  "d_of_int i = to_double (of_int i)"

fun d_neg :: "double \<Rightarrow> double" where
  "d_neg (Fin q) = Fin (- q)" | "d_neg PInf = NInf" | "d_neg NInf = PInf" | "d_neg NaN = NaN"

fun d_add :: "double \<Rightarrow> double \<Rightarrow> double" where
  "d_add (Fin a) (Fin b) = to_double (a + b)"
| "d_add NaN _ = NaN" | "d_add _ NaN = NaN"
| "d_add PInf NInf = NaN" | "d_add NInf PInf = NaN"
| "d_add PInf _ = PInf" | "d_add _ PInf = PInf"
| "d_add NInf _ = NInf" | "d_add _ NInf = NInf"

fun d_mul :: "double \<Rightarrow> double \<Rightarrow> double" where
  "d_mul (Fin a) (Fin b) = to_double (a * b)"
| "d_mul NaN _ = NaN" | "d_mul _ NaN = NaN"
| "d_mul PInf (Fin b) = (if b = 0 then NaN else if 0 < b then PInf else NInf)"
| "d_mul NInf (Fin b) = (if b = 0 then NaN else if 0 < b then NInf else PInf)"
| "d_mul (Fin a) PInf = (if a = 0 then NaN else if 0 < a then PInf else NInf)"
| "d_mul (Fin a) NInf = (if a = 0 then NaN else if 0 < a then NInf else PInf)"
| "d_mul PInf PInf = PInf" | "d_mul NInf NInf = PInf"
| "d_mul PInf NInf = NInf" | "d_mul NInf PInf = NInf"

text \<open>Division of finite values, the only case the program reaches.\<close>

definition d_div_int :: "int \<Rightarrow> int \<Rightarrow> double" where
  "d_div_int a b =
     (if b = 0 then (if a = 0 then NaN else if 0 < a then PInf else NInf)
      else to_double (of_int a / of_int b))"

fun d_floor :: "double \<Rightarrow> double" where
  "d_floor (Fin q) = Fin (of_int \<lfloor>q\<rfloor>)" | "d_floor d = d"

fun d_ceil :: "double \<Rightarrow> double" where
  "d_ceil (Fin q) = Fin (of_int \<lceil>q\<rceil>)" | "d_ceil d = d"

text \<open>Comparisons: false as soon as one side is not a number.\<close>

fun d_less :: "double \<Rightarrow> double \<Rightarrow> bool" where
  "d_less (Fin a) (Fin b) = (a < b)"
| "d_less NaN _ = False" | "d_less _ NaN = False"
| "d_less NInf NInf = False" | "d_less NInf _ = True"
| "d_less PInf _ = False" | "d_less (Fin _) PInf = True" | "d_less (Fin _) NInf = False"

definition d_ge :: "double \<Rightarrow> double \<Rightarrow> bool" where
  "d_ge a b \<longleftrightarrow> a \<noteq> NaN \<and> b \<noteq> NaN \<and> \<not> d_less a b"

text \<open>\<^verbatim>\<open>(int) d\<close>: truncation, undefined when the value does not fit.\<close>

fun d_to_int :: "double \<Rightarrow> int res" where
  "d_to_int (Fin q) = chk_int (if 0 \<le> q then \<lfloor>q\<rfloor> else \<lceil>q\<rceil>)"
| "d_to_int _ = Inl IntOverflow"

section \<open>Rounding\<close>

lemma pow2_pos [simp]: "0 < pow2 e" "pow2 e \<noteq> 0"
  by (simp_all add: pow2_def)

lemma pow2_powi: "pow2 e = 2 powi e"
  by (simp only: pow2_def power_int_def inverse_eq_divide power_one_over)

lemma pow2_add: "pow2 (a + b) = pow2 a * pow2 b"
  unfolding pow2_powi by (rule power_int_add) simp

lemma pow2_mono: "a \<le> b \<Longrightarrow> pow2 a \<le> pow2 b"
  unfolding pow2_powi by (rule power_int_increasing) simp_all

lemma pow2_0 [simp]: "pow2 0 = 1"
  by (simp add: pow2_def)

lemma pow2_1 [simp]: "pow2 1 = 2"
  by (simp add: pow2_def)

lemma pow2_Suc: "pow2 (a + 1) = 2 * pow2 a"
  by (simp add: pow2_add)

lemma bitlen_pow2_bound:
  assumes "0 < x"
  shows "pow2 (bitlen x - 1) \<le> of_int x" "of_int x < pow2 (bitlen x)"
proof -
  have "1 \<le> bitlen x" using assms bitlen_nonneg [of x] bitlen_eq_zero_iff [of x] by linarith
  then have e: "pow2 (bitlen x - 1) = of_int (2 ^ nat (bitlen x - 1))" "pow2 (bitlen x) = of_int (2 ^ nat (bitlen x))"
    by (simp_all add: pow2_def)
  show "pow2 (bitlen x - 1) \<le> of_int x" "of_int x < pow2 (bitlen x)"
    unfolding e of_int_le_iff of_int_less_iff using bitlen_bounds [OF assms] by simp_all
qed

lemma rat_log2_bound:
  assumes "0 < q"
  shows "pow2 (rat_log2 q) \<le> q" "q < pow2 (rat_log2 q + 1)"
proof -
  obtain a b where ab: "quotient_of q = (a, b)" by fastforce
  then have b: "0 < b" and q: "q = of_int a / of_int b"
    by (auto intro: quotient_of_denom_pos quotient_of_div)
  have a: "0 < a" using assms b q by (simp add: zero_less_divide_iff)
  let ?k = "bitlen a - bitlen b"
  note la = bitlen_pow2_bound [OF a] and lb = bitlen_pow2_bound [OF b]
  have bq: "of_int a = q * of_int b" using b q by simp
  have "q * pow2 (bitlen b - 1) \<le> q * of_int b" using lb(1) assms by simp
  also have "\<dots> < pow2 (bitlen a)" using la(2) bq by simp
  also have "\<dots> = pow2 (?k + 1) * pow2 (bitlen b - 1)" by (simp flip: pow2_add)
  finally have up: "q < pow2 (?k + 1)" by simp
  have "pow2 (?k - 1) * pow2 (bitlen b) = pow2 (bitlen a - 1)" by (simp flip: pow2_add)
  also have "\<dots> \<le> q * of_int b" using la(1) bq by simp
  also have "\<dots> \<le> q * pow2 (bitlen b)" using lb(2) assms by simp
  finally have lo: "pow2 (?k - 1) \<le> q" by simp
  show "pow2 (rat_log2 q) \<le> q" "q < pow2 (rat_log2 q + 1)"
    using up lo by (auto simp: rat_log2_def ab Let_def)
qed

lemma round_even_error: "\<bar>of_int (round_even q) - q\<bar> \<le> 1 / 2"
proof -
  have "of_int \<lfloor>q\<rfloor> \<le> q" "q < of_int \<lfloor>q\<rfloor> + 1" by linarith+
  then show ?thesis by (auto simp: round_even_def Let_def abs_le_iff)
qed

lemma round_even_int [simp]: "round_even (of_int k) = k"
  by (simp add: round_even_def)

definition ulp_rel :: rat where "ulp_rel = 1 / 2 ^ 53"
definition ulp_abs :: rat where "ulp_abs = 1 / 2 ^ 100"

lemma ulp_nums:
  "ulp_rel = 1 / 9007199254740992" "ulp_abs = 1 / 1267650600228229401496703205376"
  by (simp_all add: ulp_rel_def ulp_abs_def)

lemma rnd_error: "\<bar>rnd q - q\<bar> \<le> \<bar>q\<bar> * ulp_rel + ulp_abs"
proof (cases "q = 0")
  case True
  then show ?thesis by (simp add: rnd_def ulp_abs_def)
next
  case False
  let ?p = "pow2 (rnd_exp q)"
  have "rnd q - q = (of_int (round_even (q / ?p)) - q / ?p) * ?p"
    using False by (simp add: rnd_def left_diff_distrib)
  then have "\<bar>rnd q - q\<bar> = \<bar>of_int (round_even (q / ?p)) - q / ?p\<bar> * ?p"
    by (simp only: abs_mult abs_of_pos [OF pow2_pos(1)])
  also have "\<dots> \<le> 1 / 2 * ?p"
    by (intro mult_right_mono round_even_error) (simp add: less_imp_le)
  finally have "\<bar>rnd q - q\<bar> \<le> 1 / 2 * ?p" .
  moreover have "1 / 2 * ?p \<le> \<bar>q\<bar> * ulp_rel + ulp_abs"
  proof (cases "rat_log2 \<bar>q\<bar> - 52 \<le> -1074")
    case True
    then have "?p = pow2 (-1074)" by (simp add: rnd_exp_def)
    also have "\<dots> \<le> pow2 (-99)" by (rule pow2_mono) simp
    also have "\<dots> = 2 * ulp_abs" by (simp add: pow2_def ulp_abs_def)
    finally have "1 / 2 * ?p \<le> ulp_abs" by simp
    then show ?thesis by (simp add: ulp_rel_def)
  next
    case big: False
    then have "?p = pow2 (rat_log2 \<bar>q\<bar> + (-52))" by (simp add: rnd_exp_def)
    also have "\<dots> = pow2 (rat_log2 \<bar>q\<bar>) * pow2 (-52)" by (rule pow2_add)
    also have "\<dots> \<le> \<bar>q\<bar> * pow2 (-52)" using rat_log2_bound(1) [of "\<bar>q\<bar>"] False by simp
    also have "\<dots> = \<bar>q\<bar> * (2 * ulp_rel)" by (simp add: pow2_def ulp_rel_def)
    finally have "1 / 2 * ?p \<le> \<bar>q\<bar> * ulp_rel" by simp
    then show ?thesis by (simp add: ulp_abs_def)
  qed
  ultimately show ?thesis by linarith
qed

lemma rnd_int:
  assumes "\<bar>k\<bar> < 2 ^ 53"
  shows "rnd (of_int k) = of_int k"
proof (cases "k = 0")
  case True
  then show ?thesis by (simp add: rnd_def)
next
  case False
  let ?e = "rnd_exp (of_int k)"
  have "pow2 (rat_log2 \<bar>of_int k\<bar>) \<le> \<bar>of_int k\<bar>" by (rule rat_log2_bound) (use False in simp)
  also have "\<dots> < pow2 53"
  proof -
    have "(of_int \<bar>k\<bar> :: rat) < of_int (2 ^ 53)" using assms by (simp only: of_int_less_iff)
    then show ?thesis by (simp add: pow2_def)
  qed
  finally have "rat_log2 \<bar>of_int k :: rat\<bar> < 53" using pow2_mono by (metis not_le)
  then have e: "?e \<le> 0" by (simp add: rnd_exp_def)
  then have "of_int k / pow2 ?e = of_int (k * 2 ^ nat (- ?e))" by (simp add: pow2_def)
  then show ?thesis using False by (simp only: rnd_def round_even_int) (simp add: pow2_def e)
qed

section \<open>What the program computes with doubles\<close>

text \<open>The quotient of two \<^verbatim>\<open>int\<close> values rounds, but its ceiling is exact.\<close>

lemma to_double_Fin: "\<bar>rnd q\<bar> < 2 ^ 1024 \<Longrightarrow> to_double q = Fin (rnd q)"
proof -
  have "(if M \<le> x then PInf else if x \<le> - M then NInf else Fin x) = Fin x" if "\<bar>x\<bar> < M" for x M :: rat
    using that by auto
  then show "\<bar>rnd q\<bar> < 2 ^ 1024 \<Longrightarrow> to_double q = Fin (rnd q)"
    unfolding to_double_def Let_def by blast
qed

lemma small_below_max: "\<bar>q :: rat\<bar> \<le> 2 ^ 60 \<Longrightarrow> \<bar>q\<bar> < 2 ^ 1024"
  by (rule le_less_trans [of _ "2 ^ 60"]) simp_all

lemma int_below_max: "in_int k \<Longrightarrow> \<bar>of_int k :: rat\<bar> \<le> 2 ^ 60"
proof -
  assume "in_int k"
  then have "\<bar>k\<bar> \<le> 2 ^ 60" by (auto simp: int_defs)
  then have "(of_int \<bar>k\<bar> :: rat) \<le> of_int (2 ^ 60)" by (rule of_int_le_iff [THEN iffD2])
  then show ?thesis by simp
qed

lemma d_of_int_exact: "in_int k \<Longrightarrow> d_of_int k = Fin (of_int k)"
proof -
  assume k: "in_int k"
  then have "\<bar>k\<bar> < 2 ^ 53" by (auto simp: int_defs)
  then have r: "rnd (of_int k) = of_int k" by (rule rnd_int)
  then show ?thesis
    using to_double_Fin [of "of_int k"] small_below_max [OF int_below_max [OF k]] by (simp add: d_of_int_def)
qed

lemma scaled_less:
  fixes x q l B :: rat
  assumes "0 < B" "\<bar>x - q\<bar> * B < 1"
  shows "l * B + 1 \<le> q * B \<Longrightarrow> l < x" "q * B + 1 \<le> l * B \<Longrightarrow> x < l"
proof -
  have d: "q * B - x * B \<le> \<bar>x - q\<bar> * B" "x * B - q * B \<le> \<bar>x - q\<bar> * B"
    using assms(1) mult_right_mono [of "q - x" "\<bar>x - q\<bar>" B] mult_right_mono [of "x - q" "\<bar>x - q\<bar>" B]
    by (simp_all add: left_diff_distrib)
  define D where "D = \<bar>x - q\<bar> * B"
  have D: "q * B - x * B \<le> D" "x * B - q * B \<le> D" "D < 1"
    using d assms(2) by (simp_all add: D_def)
  show "l < x" if "l * B + 1 \<le> q * B"
  proof -
    have "l * B < x * B" using that D by linarith
    then show ?thesis using assms(1) by simp
  qed
  show "x < l" if "q * B + 1 \<le> l * B"
  proof -
    have "x * B < l * B" using that D by linarith
    then show ?thesis using assms(1) by simp
  qed
qed

lemma ceiling_rnd_quotient:
  assumes a: "0 \<le> a" "a \<le> INT_MAX" and b: "0 < b" "b \<le> INT_MAX"
  shows "\<lceil>rnd (of_int a / of_int b)\<rceil> = \<lceil>of_int a / of_int b :: rat\<rceil>"
proof (cases "b dvd a")
  case True
  then obtain k where k: "a = b * k" by blast
  then have q: "(of_int a / of_int b :: rat) = of_int k" using b by simp
  have k0: "0 \<le> k" using a b k by (simp add: zero_le_mult_iff)
  then have "k \<le> a" using b k mult_right_mono [of 1 b k] by simp
  then have "\<bar>k\<bar> < 2 ^ 53" using a(2) k0 by (simp add: INT_MAX_def)
  then show ?thesis unfolding q by (simp add: rnd_int)
next
  case False
  define q where "q = (of_int a / of_int b :: rat)"
  define c where "c = a div b + 1"
  have qb: "q * of_int b = of_int a" using b by (simp add: q_def)
  have m: "1 \<le> a mod b" "a mod b \<le> b - 1"
    using False b pos_mod_sign [of b a] pos_mod_bound [of b a] unfolding dvd_eq_mod_eq_0 by linarith+
  have eq: "a = (c - 1) * b + a mod b" by (simp add: c_def)
  have lo: "of_int (c - 1) * of_int b + 1 \<le> q * of_int b"
    unfolding qb using eq m(1) by (metis add_left_mono of_int_1 of_int_add of_int_le_iff of_int_mult)
  have hi: "q * of_int b + 1 \<le> of_int c * of_int b"
  proof -
    have "a + 1 \<le> c * b" using eq m(2) by (simp add: algebra_simps)
    then show ?thesis unfolding qb by (metis of_int_1 of_int_add of_int_le_iff of_int_mult)
  qed
  have q0: "0 \<le> q" using a b by (simp add: q_def)
  have "\<bar>rnd q - q\<bar> * of_int b \<le> (q * ulp_rel + ulp_abs) * of_int b"
    using rnd_error [of q] q0 b by (intro mult_right_mono) simp_all
  also have "\<dots> = of_int a * ulp_rel + ulp_abs * of_int b" using qb by (simp add: algebra_simps)
  also have "\<dots> \<le> of_int INT_MAX * ulp_rel + ulp_abs * of_int INT_MAX"
    using a b by (intro add_mono mult_right_mono mult_left_mono) (simp_all add: ulp_rel_def ulp_abs_def)
  also have "\<dots> < 1" by (simp add: INT_MAX_def ulp_rel_def ulp_abs_def)
  finally have err: "\<bar>rnd q - q\<bar> * of_int b < 1" .
  have B: "(0 :: rat) < of_int b" using b by simp
  have "of_int (c - 1) < rnd q" "rnd q < of_int c"
    using scaled_less [OF B err] lo hi by blast+
  moreover have "of_int (c - 1) < q" "q < of_int c"
    using scaled_less [OF B, of q q] lo hi by simp_all
  ultimately have "\<lceil>rnd q\<rceil> = c" "\<lceil>q\<rceil> = c" by (simp_all add: ceiling_eq_iff)
  then show ?thesis unfolding q_def [symmetric] by simp
qed

text \<open>The ceiling of an integer quotient, without doubles.\<close>

lemma ceiling_quotient:
  assumes "0 < b"
  shows "\<lceil>of_int a / of_int b :: rat\<rceil> = (a + b - 1) div b"
proof -
  have "\<lceil>of_int a / of_int b :: rat\<rceil> = - (- a div b)"
    by (rule ceiling_divide_eq_div)
  also have "\<dots> = (a + b - 1) div b"
  proof (cases "a mod b = 0")
    case True
    have "(a + b - 1) div b = a div b"
      by (rule int_div_pos_eq [where r = "b - 1"]) (use True assms mult_div_mod_eq [of b a] in auto)
    then show ?thesis using True assms by (simp add: zdiv_zminus1_eq_if)
  next
    case False
    moreover have "0 \<le> a mod b" "a mod b < b" using assms by simp_all
    ultimately have "(a + b - 1) div b = a div b + 1"
      by (intro int_div_pos_eq [where r = "a mod b - 1"])
        (use mult_div_mod_eq [of b a] in \<open>auto simp: algebra_simps\<close>)
    then show ?thesis using False assms by (simp add: zdiv_zminus1_eq_if)
  qed
  finally show ?thesis .
qed

lemma rounded_sum_below:
  fixes x y a b N :: rat
  assumes "x \<le> a * (1 + ulp_rel) + ulp_abs" "y \<le> b * (1 + ulp_rel) + ulp_abs"
    "(a + b) * (1 - ulp_rel) \<le> (1 + ulp_abs) * N" "0 < N" "N \<le> 2147483647"
  shows "x + y < N + 1"
  using assms unfolding ulp_nums by (simp add: field_simps)

text \<open>Two fractions whose rounded sum is at most 1 split \<open>n\<close> blocks into two sections that fit.\<close>

lemma section_sizes_fit:
  assumes n: "0 < n" "n \<le> INT_MAX"
    and f: "1 \<le> \<lfloor>rnd (f1 * of_int n)\<rfloor>" "1 \<le> \<lfloor>rnd (f2 * of_int n)\<rfloor>" and s: "rnd (f1 + f2) \<le> 1"
  shows "\<lfloor>rnd (f1 * of_int n)\<rfloor> + \<lfloor>rnd (f2 * of_int n)\<rfloor> \<le> n"
proof -
  let ?N = "of_int n :: rat"
  have N: "0 < ?N" "?N \<le> 2147483647"
    using n by (simp, metis INT_MAX_def of_int_le_iff of_int_numeral)
  have pos: "0 < g" if g: "1 \<le> rnd (g * ?N)" for g
  proof (rule ccontr)
    assume "\<not> 0 < g"
    then have "g * ?N \<le> 0" using N(1) by (simp add: mult_nonpos_nonneg)
    then have "\<bar>g * ?N\<bar> = - (g * ?N)" by simp
    then have "rnd (g * ?N) - g * ?N \<le> - (g * ?N) * ulp_rel + ulp_abs"
      using rnd_error [of "g * ?N"] by (metis abs_le_D1)
    then show False using \<open>g * ?N \<le> 0\<close> g unfolding ulp_nums by linarith
  qed
  have g: "1 \<le> rnd (f1 * ?N)" "1 \<le> rnd (f2 * ?N)" using f by linarith+
  then have p: "0 < f1" "0 < f2" using pos by simp_all
  then have q: "0 < f1 * ?N" "0 < f2 * ?N" using N(1) by simp_all
  have "(f1 + f2) * (1 - ulp_rel) \<le> 1 + ulp_abs"
  proof -
    define t where "t = f1 + f2"
    define e where "e = t * ulp_rel"
    have "t - rnd t \<le> e + ulp_abs"
      using abs_le_D2 [OF rnd_error [of t]] abs_of_pos [of t] p by (simp add: t_def e_def)
    moreover have "t * (1 - ulp_rel) = t - e" by (simp add: e_def right_diff_distrib)
    ultimately show ?thesis using s unfolding t_def [symmetric] by linarith
  qed
  then have "(f1 + f2) * (1 - ulp_rel) * ?N \<le> (1 + ulp_abs) * ?N" using N(1) by simp
  then have t: "(f1 * ?N + f2 * ?N) * (1 - ulp_rel) \<le> (1 + ulp_abs) * ?N"
    by (simp add: algebra_simps)
  have r: "rnd (f1 * ?N) \<le> f1 * ?N * (1 + ulp_rel) + ulp_abs" "rnd (f2 * ?N) \<le> f2 * ?N * (1 + ulp_rel) + ulp_abs"
    using rnd_error [of "f1 * ?N"] rnd_error [of "f2 * ?N"] q by (simp_all add: algebra_simps)
  have "rnd (f1 * ?N) + rnd (f2 * ?N) < ?N + 1"
    by (rule rounded_sum_below [OF r t N])
  then have "of_int (\<lfloor>rnd (f1 * ?N)\<rfloor> + \<lfloor>rnd (f2 * ?N)\<rfloor>) < (of_int (n + 1) :: rat)"
    by (simp only: of_int_add of_int_1) linarith
  then show ?thesis unfolding of_int_less_iff by simp
qed

end
