(* ===== verification/Cache_Contract.thy ===== *)
theory Cache_Contract
  imports Cache_Refine CFS_Double
begin

text \<open>
  The contract of the cache, from its construction to the interface its client relies on:
  the constructor establishes the invariant, lookup and insertion refine the abstract
  cache on every branch, and the locale \<open>block_cache\<close> states what the read operation needs
  of a cache, with its interpretation on \<^verbatim>\<open>CacheManager\<close>.
\<close>

section \<open>Construction\<close>

definition null_block :: CacheBlock where
  "null_block = new_CacheBlock (-1) (-1) None None"

lemma null_block_facts [simp]:
  "is_null null_block" "refCount null_block = 1" "strip null_block = null_block"
  by (simp_all add: null_block_def CacheBlock_defs is_null_def NULL_BLOCK_def strip_def)

lemma push_null_blocks_form:
  assumes "fresh (cacheChain cm) = m" "nextAddr cm = m"
  shows "push_null_blocks k cm =
    cm\<lparr>blockHeap := (\<lambda>a. if m \<le> a \<and> a < m + k then Some null_block else blockHeap cm a),
       nextAddr := m + k,
       cacheChain := (cacheChain cm)\<lparr>cells := rev (map (\<lambda>i. (i, i)) [m..<m + k]) @ chain cm,
                                     fresh := m + k\<rparr>\<rparr>"
  using assms
proof (induction k arbitrary: cm m)
  case 0
  then show ?case by (auto simp: fun_eq_iff intro!: CacheManager.equality slist.equality)
next
  case (Suc k)
  let ?cm1 = "snd (new_block cm null_block)"
  let ?cm2 = "?cm1\<lparr>cacheChain := push_front m (cacheChain ?cm1)\<rparr>"
  have eq: "push_null_blocks (Suc k) cm = push_null_blocks k ?cm2"
    using Suc.prems by (simp add: new_block_def null_block_def)
  have up: "[m..<Suc (m + k)] = m # [Suc m..<Suc (m + k)]" for m by (rule upt_conv_Cons) simp
  show ?case
    unfolding eq using Suc.prems
    by (subst Suc.IH [of _ "Suc m"])
      (auto simp: new_block_def push_front_def up fun_eq_iff simp del: upt_Suc
        intro!: CacheManager.equality slist.equality)
qed

lemma assign_iters_frame:
  "numberOfBlocks (assign_iters cs i mp q cm) = numberOfBlocks cm"
  "blocksMap (assign_iters cs i mp q cm) = blocksMap cm"
  "cacheChain (assign_iters cs i mp q cm) = cacheChain cm"
  "blockHeap (assign_iters cs i mp q cm) = blockHeap cm"
  "nextAddr (assign_iters cs i mp q cm) = nextAddr cm"
  by (induction cs i mp q cm rule: assign_iters.induct) (simp_all add: Let_def)

lemma nat_step: "nat (m - i) - Suc 0 = nat (m - (i + 1))"
  by linarith

lemma assign_iters_middle:
  "middleSectionIter (assign_iters cs i mp q cm) =
     (if i \<le> mp \<and> mp < i + int (length cs) then Node (fst (cs ! nat (mp - i)))
      else middleSectionIter cm)"
  by (induction cs i mp q cm rule: assign_iters.induct)
    (auto simp: Let_def nth_Cons' nat_step)

lemma assign_iters_old:
  "oldSectionIter (assign_iters cs i mp q cm) =
     (if i \<le> q \<and> q < i + int (length cs) then Node (fst (cs ! nat (q - i)))
      else oldSectionIter cm)"
  by (induction cs i mp q cm rule: assign_iters.induct)
    (auto simp: Let_def nth_Cons' nat_step)

text \<open>The sections as \<^verbatim>\<open>main\<close> validates them: at least one block in the new and in the old
  section, the middle one may be empty.\<close>

definition sizes_ok :: "int \<Rightarrow> int \<Rightarrow> int \<Rightarrow> bool" where
  "sizes_ok n newS oldS \<longleftrightarrow> 1 \<le> newS \<and> 1 \<le> oldS \<and> newS + oldS \<le> n"

lemma build_CacheManager_form:
  assumes "sizes_ok n newS oldS"
  defines "cm \<equiv> build_CacheManager n newS oldS"
  shows "chain cm = rev (map (\<lambda>i. (i, i)) [0..<nat n])"
    "blockHeap cm = (\<lambda>a. if a < nat n then Some null_block else None)"
    "nextAddr cm = nat n" "fresh (cacheChain cm) = nat n" "blocksMap cm = Map.empty"
    "numberOfBlocks cm = n"
    "middleSectionIter cm = cell_iter cm (nat newS)"
    "oldSectionIter cm = cell_iter cm (nat (n - oldS))"
proof -
  define cm0 where "cm0 = \<lparr>numberOfBlocks = n, blocksMap = Map.empty, cacheChain = slist_empty,
    middleSectionIter = Singular, oldSectionIter = Singular,
    blockHeap = (Map.empty :: nat \<rightharpoonup> CacheBlock), nextAddr = 0\<rparr>"
  have p: "push_null_blocks (nat n) cm0 =
    cm0\<lparr>blockHeap := (\<lambda>a. if a < nat n then Some null_block else None), nextAddr := nat n,
        cacheChain := (cacheChain cm0)\<lparr>cells := rev (map (\<lambda>i. (i, i)) [0..<nat n]), fresh := nat n\<rparr>\<rparr>"
    by (subst push_null_blocks_form [of _ 0]) (simp_all add: cm0_def slist_empty_def fun_eq_iff)
  have b: "cm = assign_iters (rev (map (\<lambda>i. (i, i)) [0..<nat n])) 1 (newS + 1) (n - oldS + 1)
      (push_null_blocks (nat n) cm0)"
    unfolding cm_def build_CacheManager_def Let_def cm0_def [symmetric] p
    by (simp add: add.commute)
  show ch: "chain cm = rev (map (\<lambda>i. (i, i)) [0..<nat n])"
    "blockHeap cm = (\<lambda>a. if a < nat n then Some null_block else None)"
    "nextAddr cm = nat n" "fresh (cacheChain cm) = nat n" "blocksMap cm = Map.empty"
    "numberOfBlocks cm = n"
    unfolding b assign_iters_frame p by (simp_all add: cm0_def)
  have len: "1 + int (length (rev (map (\<lambda>i. (i, i)) [0..<nat n]))) = n + 1"
    using assms(1) by (simp add: sizes_ok_def)
  show "middleSectionIter cm = cell_iter cm (nat newS)"
    unfolding cell_iter_def ch(1) by (subst b, subst assign_iters_middle)
      (use assms(1) len in \<open>simp add: sizes_ok_def\<close>)
  show "oldSectionIter cm = cell_iter cm (nat (n - oldS))"
    unfolding cell_iter_def ch(1) by (subst b, subst assign_iters_old)
      (use assms(1) len in \<open>simp add: sizes_ok_def\<close>)
qed

lemma chain_blocks_build:
  assumes "sizes_ok n newS oldS"
  shows "chain_blocks (build_CacheManager n newS oldS) = replicate (nat n) null_block"
  by (rule nth_equalityI)
    (auto simp: chain_blocks_def build_CacheManager_form [OF assms] rev_nth)

lemma build_CacheManager_inv:
  assumes ok: "sizes_ok n newS oldS"
  defines "cm \<equiv> build_CacheManager n newS oldS"
  shows "cm_inv (nat newS) (nat (n - oldS)) cm \<and> abs_cache cm = replicate (nat n) null_block"
proof -
  note B = build_CacheManager_form [OF ok, folded cm_def]
  note bl = chain_blocks_build [OF ok, folded cm_def]
  have abs: "abs_cache cm = replicate (nat n) null_block" by (simp add: abs_cache_def bl)
  have "wf_chain cm"
    by (auto simp: wf_chain_def slist_inv_def slist_ids_def B distinct_rev comp_def distinct_map
        intro!: inj_onI)
  moreover have "map_ok (view cm) (blocksMap cm)"
  proof -
    have "(k, False, x) \<notin> set (view cm)" for k x
      by (auto simp: view_abs abs key_of_def dest!: set_zip_rightD)
    then show ?thesis by (simp add: map_ok_def B)
  qed
  moreover have "nulls_last (abs_cache cm)"
    by (simp add: nulls_last_def abs)
  moreover have "1 \<le> nat newS" "nat newS \<le> nat (n - oldS)" "nat (n - oldS) < length (chain cm)"
    "int (length (chain cm)) = numberOfBlocks cm"
    using ok by (auto simp: sizes_ok_def B)
  ultimately show ?thesis
    by (simp add: cm_inv_def abs B bl sections_ok_def counts_ok_def INT_MAX_def)
qed

text \<open>
  The constructor as a whole: the section sizes are rounded products of doubles, and the
  loops count up to \<open>n + 1\<close> in an \<^verbatim>\<open>int\<close>. For \<open>n \<le> 0\<close> no loop body runs.
\<close>

definition section_size :: "double \<Rightarrow> int \<Rightarrow> int res" where
  "section_size f n = d_to_int (d_floor (d_mul f (d_of_int n)))"

definition new_CacheManager :: "int \<Rightarrow> double \<Rightarrow> double \<Rightarrow> CacheManager res" where
  "new_CacheManager n fOld fNew =
     bind_res (section_size fNew n) (\<lambda>newSectionSize.
     bind_res (section_size fOld n) (\<lambda>oldSectionSize.
     bind_res (chk_int (n - newSectionSize)) (\<lambda>rest.
     bind_res (chk_int (rest - oldSectionSize)) (\<lambda>middleSectionSize.
     if n \<le> 0 then Inr (build_CacheManager n newSectionSize oldSectionSize)
     else
       bind_res (chk_int (newSectionSize + 1)) (\<lambda>_.
       bind_res (chk_int (newSectionSize + middleSectionSize)) (\<lambda>s.
       bind_res (chk_int (s + 1)) (\<lambda>_.
       bind_res (chk_int (n + 1)) (\<lambda>_.
       Inr (build_CacheManager n newSectionSize oldSectionSize)))))))))"

lemma new_CacheManager_sizes:
  assumes "section_size fNew n = Inr newS" "section_size fOld n = Inr oldS"
    and "sizes_ok n newS oldS" "n < INT_MAX"
  shows "new_CacheManager n fOld fNew = Inr (build_CacheManager n newS oldS)"
  using assms by (simp add: new_CacheManager_def sizes_ok_def chk_int_def int_defs)

lemma new_CacheManager_max:
  assumes "section_size fNew n = Inr newS" "section_size fOld n = Inr oldS"
    and "sizes_ok n newS oldS" "in_int n" "\<not> n < INT_MAX"
  shows "new_CacheManager n fOld fNew = Inl IntOverflow"
  using assms by (simp add: new_CacheManager_def sizes_ok_def chk_int_def int_defs)

section \<open>Lookup and insertion, every branch\<close>

lemma findBlock_overflow:
  assumes inv: "cm_inv n p cm" and i: "fbr_pos (abs_cache cm) bid = Some i"
    and t: "\<not> can_touch n i (abs_cache cm)"
  shows "findBlock cm bid = Inl IntOverflow"
proof -
  note I = cm_invD [OF inv]
  note H = hit_facts [OF i]
  have rc: "refCount (chain_blocks cm ! i) = INT_MAX" "\<not> i < n"
    using t I(11) nth_mem [of i "abs_cache cm"] H(1)
    by (auto simp: can_touch_def counts_ok_def nth_abs_cache)
  have m: "blocksMap cm bid = Some (cell_iter cm i)"
    using map_lookup [OF I(8), of bid] i by simp
  have "getSection (chain_blocks cm ! i) \<noteq> newSection"
    using I(3,9) H rc(2) by (auto simp: sections_ok_def getSection_def section_at_def)
  then show ?thesis
    using incrementRefCount_Inl [OF rc(1)]
    by (simp add: findBlock_def m block_at_nth [OF I(1) H(1)])
qed

lemma retrieveBuffer_hit:
  assumes inv: "cm_inv n p cm" and i: "fbr_pos (abs_cache cm) bid = Some i"
    and t: "can_touch n i (abs_cache cm)"
  shows "retrieveBuffer cm bid = Inr (buff (abs_cache cm ! i), hit_state n p i bid cm)"
proof -
  let ?cm' = "hit_state n p i bid cm"
  have F: "cm_inv n p ?cm'" "abs_cache ?cm' = fbr_hit n i (abs_cache cm)"
    using findBlock_hit [OF assms] by simp_all
  note I = cm_invD [OF F(1)]
  have len: "0 < length (chain ?cm')" using I(4) by linarith
  have "cacheChain (shift_bounds n p i (touch_at n i cm)) = cacheChain cm"
    using shift_bounds_facts(2) [of "touch_at n i cm" n p i] cm_invD [OF inv] by simp
  then have it: "Node (fresh (cacheChain cm)) = cell_iter ?cm' 0"
    by (simp add: hit_state_def cell_iter_def chain_move_front)
  have "buff (chain_blocks ?cm' ! 0) = buff (abs_cache ?cm' ! 0)"
    using len by (simp add: nth_abs_cache)
  also have "\<dots> = buff (abs_cache cm ! i)"
    unfolding F(2) by (simp add: fbr_hit_def fbr_touch_def)
  finally show ?thesis
    using findBlock_hit_code [OF assms] block_at_nth [OF I(1) len]
    by (simp add: retrieveBuffer_def it getBuff_def cell_iter_def)
qed

text \<open>What a lookup returns: the buffer of the block, if it is cached.\<close>

definition cm_lookup :: "CacheManager \<Rightarrow> BlockID \<Rightarrow> buffer option" where
  "cm_lookup cm bid =
     (case fbr_pos (abs_cache cm) bid of None \<Rightarrow> None | Some i \<Rightarrow> buff (abs_cache cm ! i))"

text \<open>The ids in the cache are pairwise different, so a block is found at its own position.\<close>

lemma fbr_pos_unique:
  assumes inv: "cm_inv n p cm" and i: "i < length (chain cm)" "\<not> is_null (abs_cache cm ! i)"
  shows "fbr_pos (abs_cache cm) (getBlockId (abs_cache cm ! i)) = Some i"
proof -
  note I = cm_invD [OF inv]
  let ?bid = "getBlockId (abs_cache cm ! i)"
  have mem: "(fst (chain cm ! k), is_null (abs_cache cm ! k), getBlockId (abs_cache cm ! k)) \<in> set (view cm)"
    if "k < length (chain cm)" for k
    using that view_nth [OF that] by (metis length_view nth_mem)
  have "fbr_pos (abs_cache cm) ?bid \<noteq> None"
    using i by (auto simp: fbr_pos_def index_of_None)
  then obtain j where j: "fbr_pos (abs_cache cm) ?bid = Some j" by auto
  then have jl: "j < length (chain cm)" "\<not> is_null (abs_cache cm ! j)" "getBlockId (abs_cache cm ! j) = ?bid"
    using fbr_pos_Some by fastforce+
  have "fst (chain cm ! i) = fst (chain cm ! j)"
    using map_ok_unique [OF I(8)] mem [OF jl(1)] mem [OF i(1)] i(2) jl(2,3) by simp
  then have "i = j"
    using nth_eq_iff_index_eq [of "map fst (chain cm)" i j] i(1) jl(1) I(1)
    by (simp add: wf_chain_def slist_inv_def slist_ids_def)
  then show ?thesis using j by simp
qed

lemma cm_lookup_iff:
  assumes inv: "cm_inv n p cm"
  shows "cm_lookup cm bid = Some d \<longleftrightarrow>
    (\<exists>b\<in>set (abs_cache cm). \<not> is_null b \<and> getBlockId b = bid \<and> buff b = Some d)"
proof
  assume "cm_lookup cm bid = Some d"
  then obtain i where i: "fbr_pos (abs_cache cm) bid = Some i" "buff (abs_cache cm ! i) = Some d"
    by (auto simp: cm_lookup_def split: option.splits)
  then show "\<exists>b\<in>set (abs_cache cm). \<not> is_null b \<and> getBlockId b = bid \<and> buff b = Some d"
    using fbr_pos_Some [OF i(1)] by (metis nth_mem)
next
  assume "\<exists>b\<in>set (abs_cache cm). \<not> is_null b \<and> getBlockId b = bid \<and> buff b = Some d"
  then obtain i where "i < length (chain cm)" "\<not> is_null (abs_cache cm ! i)"
      "getBlockId (abs_cache cm ! i) = bid" "buff (abs_cache cm ! i) = Some d"
    by (auto simp: in_set_conv_nth)
  then show "cm_lookup cm bid = Some d"
    using fbr_pos_unique [OF inv] by (auto simp: cm_lookup_def)
qed

lemma fbr_touch_frame [simp]:
  "getBlockId (fbr_touch n i b) = getBlockId b" "is_null (fbr_touch n i b) = is_null b"
  "buff (fbr_touch n i b) = buff b" "path (fbr_touch n i b) = path b"
  by (simp_all add: fbr_touch_def getBlockId_def is_null_def)

lemma cm_lookup_hit:
  assumes "cm_inv n p cm" "cm_inv n p cm'" "i < length (chain cm)"
    "abs_cache cm' = fbr_hit n i (abs_cache cm)"
  shows "cm_lookup cm' = cm_lookup cm"
proof -
  have s: "set (abs_cache cm) = insert (abs_cache cm ! i) (set (remove_nth i (abs_cache cm)))"
    using remove_nth_split [of i "abs_cache cm"] assms(3)
    by (metis Un_insert_right length_abs_cache list.simps(15) remove_nth_def set_append)
  show ?thesis
  proof (rule map_ext_Some)
    fix bid d
    show "cm_lookup cm' bid = Some d \<longleftrightarrow> cm_lookup cm bid = Some d"
      unfolding cm_lookup_iff [OF assms(1)] cm_lookup_iff [OF assms(2)] s assms(4) fbr_hit_def by simp
  qed
qed

lemma cm_lookup_insert:
  assumes inv: "cm_inv n p cm" and inv': "cm_inv n p cm'"
    and eq: "abs_cache cm' = fbr_insert p b (abs_cache cm)" and b: "\<not> is_null b" "buff b = Some d"
  shows "cm_lookup cm' (getBlockId b) = Some d"
    "bid \<noteq> getBlockId b \<Longrightarrow> cm_lookup cm' bid = None \<or> cm_lookup cm' bid = cm_lookup cm bid"
proof -
  show "cm_lookup cm' (getBlockId b) = Some d"
    unfolding cm_lookup_iff [OF inv'] eq fbr_insert_def using b by simp
  assume "bid \<noteq> getBlockId b"
  then have "cm_lookup cm bid = Some e" if "cm_lookup cm' bid = Some e" for e
    using that set_remove_nth_subset [of "fbr_out p (abs_cache cm)" "abs_cache cm"]
    unfolding cm_lookup_iff [OF inv'] cm_lookup_iff [OF inv] eq fbr_insert_def by auto
  then show "cm_lookup cm' bid = None \<or> cm_lookup cm' bid = cm_lookup cm bid"
    by (cases "cm_lookup cm' bid") auto
qed

section \<open>The interface of the read operation\<close>

text \<open>
  What the client needs of a cache: a lookup returns the stored buffer and changes nothing a
  later lookup can see; an insertion stores the buffer and changes no other block but for
  dropping some; the faults are the overflow of a count and the dangling iterator.
\<close>

locale block_cache =
  fixes retrieve :: "'c \<Rightarrow> BlockID \<Rightarrow> (buffer option \<times> 'c) res"
    and insert :: "'c \<Rightarrow> int \<Rightarrow> int \<Rightarrow> buffer option \<Rightarrow> string option \<Rightarrow> 'c res"
    and inv :: "'c \<Rightarrow> bool"
    and lookup :: "'c \<Rightarrow> BlockID \<Rightarrow> buffer option"
  assumes retrieve_law:
      "inv c \<Longrightarrow> retrieve c i = Inr (b, c') \<Longrightarrow> b = lookup c i \<and> inv c' \<and> lookup c' = lookup c"
    and insert_law:
      "inv c \<Longrightarrow> 0 \<le> bn \<Longrightarrow> insert c f bn (Some d) p = Inr c' \<Longrightarrow>
        inv c' \<and> lookup c' (f, bn) = Some d \<and>
        (\<forall>i. i \<noteq> (f, bn) \<longrightarrow> lookup c' i = None \<or> lookup c' i = lookup c i)"
    and retrieve_fault: "inv c \<Longrightarrow> retrieve c i = Inl e \<Longrightarrow> e = IntOverflow"
    and insert_fault:
      "inv c \<Longrightarrow> lookup c (f, bn) = None \<Longrightarrow> insert c f bn (Some d) p = Inl e \<Longrightarrow> e = InvalidIterator"
begin

text \<open>A cache is coherent with a disk when every buffer it holds is the block of the disk.\<close>

definition coherent :: "(BlockID \<Rightarrow> buffer) \<Rightarrow> 'c \<Rightarrow> bool" where
  "coherent disk c \<longleftrightarrow> (\<forall>i d. lookup c i = Some d \<longrightarrow> d = disk i)"

lemma coherentD: "coherent disk c \<Longrightarrow> lookup c i = Some d \<Longrightarrow> d = disk i"
  unfolding coherent_def by blast

lemma retrieve_coherent:
  assumes "inv c" "coherent disk c" "retrieve c i = Inr (b, c')"
  shows "inv c'" "coherent disk c'" "b = None \<and> lookup c' i = None \<or> b = Some (disk i)"
proof -
  note L = retrieve_law [OF assms(1,3)]
  show "inv c'" "coherent disk c'" using L assms(2) unfolding coherent_def by simp_all
  show "b = None \<and> lookup c' i = None \<or> b = Some (disk i)"
    using L coherentD [OF assms(2), of i] by (cases "lookup c i") auto
qed

lemma insert_coherent:
  assumes "inv c" "coherent disk c" "0 \<le> bn" "d = disk (f, bn)" "insert c f bn (Some d) p = Inr c'"
  shows "inv c'" "coherent disk c'"
proof -
  note L = insert_law [OF assms(1,3,5)]
  show "inv c'" using L by blast
  show "coherent disk c'"
    unfolding coherent_def
  proof (intro allI impI)
    fix i e assume e: "lookup c' i = Some e"
    show "e = disk i"
    proof (cases "i = (f, bn)")
      case True
      then show ?thesis using L e assms(4) by simp
    next
      case False
      then have "lookup c i = Some e" using L e by (metis option.distinct(1))
      then show ?thesis by (rule coherentD [OF assms(2)])
    qed
  qed
qed

end

text \<open>
  A cache with room: \<open>room c k\<close> promises that \<open>k\<close> more lookups, each followed by an insertion
  when it misses, all succeed.
\<close>

locale roomy_cache = block_cache +
  fixes room :: "'a \<Rightarrow> nat \<Rightarrow> bool"
  assumes room_retrieve:
      "inv c \<Longrightarrow> room c (Suc k) \<Longrightarrow>
        \<exists>b c'. retrieve c i = Inr (b, c') \<and> (if b = None then room c' (Suc k) else room c' k)"
    and room_insert:
      "inv c \<Longrightarrow> room c (Suc k) \<Longrightarrow> lookup c (f, bn) = None \<Longrightarrow> 0 \<le> bn \<Longrightarrow>
        \<exists>c'. insert c f bn (Some d) p = Inr c' \<and> room c' k"

lemma retrieveBuffer_cases:
  assumes "cm_inv n p cm" "retrieveBuffer cm bid = Inr (b, cm')"
  shows "(fbr_pos (abs_cache cm) bid = None \<and> b = None \<and> cm' = cm) \<or>
    (\<exists>i. fbr_pos (abs_cache cm) bid = Some i \<and> can_touch n i (abs_cache cm) \<and>
      b = buff (abs_cache cm ! i) \<and> cm' = hit_state n p i bid cm)"
proof (cases "fbr_pos (abs_cache cm) bid")
  case None
  then show ?thesis using findBlock_miss [OF assms(1) None] assms(2) by (simp add: retrieveBuffer_def)
next
  case (Some i)
  then show ?thesis
    using findBlock_overflow [OF assms(1) Some] retrieveBuffer_hit [OF assms(1) Some] assms(2)
    by (cases "can_touch n i (abs_cache cm)") (auto simp: retrieveBuffer_def)
qed

lemma insertBlock_cases:
  assumes inv: "cm_inv n p cm" and ins: "insertBlock cm fid bn bf pth = Inr cm'"
  shows "fbr_pos (abs_cache cm) (fid, bn) = None \<and> fbr_out p (abs_cache cm) \<noteq> p \<and>
    cm' = ins_state n p (new_CacheBlock fid bn bf pth) cm"
proof (cases "fbr_pos (abs_cache cm) (fid, bn)")
  case None
  then have w: "fbr_out p (abs_cache cm) \<noteq> p"
    using insertBlock_dangling [OF inv None] ins by auto
  then show ?thesis using insertBlock_ok_code [OF inv None refl w] ins None by simp
next
  case (Some i)
  then show ?thesis
    using findBlock_overflow [OF inv Some] insertBlock_present [OF inv Some] ins
    by (cases "can_touch n i (abs_cache cm)") (auto simp: insertBlock_def)
qed

text \<open>Every cached block has a buffer: the file system never inserts a null pointer.\<close>

definition buffers_ok :: "CacheManager \<Rightarrow> bool" where
  "buffers_ok cm \<longleftrightarrow> (\<forall>b\<in>set (abs_cache cm). \<not> is_null b \<longrightarrow> buff b \<noteq> None)"

definition cache_ok :: "nat \<Rightarrow> nat \<Rightarrow> CacheManager \<Rightarrow> bool" where
  "cache_ok n p cm \<longleftrightarrow> cm_inv n p cm \<and> buffers_ok cm"

lemma set_fbr_hit:
  assumes "i < length xs"
  shows "set (fbr_hit n i xs) \<subseteq> insert (fbr_touch n i (xs ! i)) (set xs)"
  unfolding fbr_hit_def using set_remove_nth_subset [of i xs] by auto

lemma buffers_ok_hit:
  assumes "buffers_ok cm" "i < length (chain cm)" "abs_cache cm' = fbr_hit n i (abs_cache cm)"
  shows "buffers_ok cm'"
  unfolding buffers_ok_def
proof
  fix b assume "b \<in> set (abs_cache cm')"
  then have "b = fbr_touch n i (abs_cache cm ! i) \<or> b \<in> set (abs_cache cm)"
    using set_fbr_hit [of i "abs_cache cm" n] assms(2,3) by auto
  then show "\<not> is_null b \<longrightarrow> buff b \<noteq> None"
    using assms(1) nth_mem [of i "abs_cache cm"] assms(2) by (auto simp: buffers_ok_def)
qed

lemma buffers_ok_insert:
  assumes "buffers_ok cm" "abs_cache cm' = fbr_insert p b (abs_cache cm)" "buff b \<noteq> None"
  shows "buffers_ok cm'"
  using assms(1,3) set_remove_nth_subset [of "fbr_out p (abs_cache cm)" "abs_cache cm"]
  unfolding buffers_ok_def assms(2) fbr_insert_def by auto

lemma lookup_None_absent:
  assumes "buffers_ok cm" "cm_lookup cm bid = None"
  shows "fbr_pos (abs_cache cm) bid = None"
proof (rule ccontr)
  assume "fbr_pos (abs_cache cm) bid \<noteq> None"
  then obtain i where i: "fbr_pos (abs_cache cm) bid = Some i" by auto
  then have "buff (abs_cache cm ! i) \<noteq> None"
    using fbr_pos_Some [OF i] assms(1) nth_mem [of i "abs_cache cm"] by (auto simp: buffers_ok_def)
  then show False using assms(2) i by (simp add: cm_lookup_def)
qed

lemma retrieveBuffer_law:
  assumes ok: "cache_ok n p c" and r: "retrieveBuffer c i = Inr (b, c')"
  shows "b = cm_lookup c i \<and> cache_ok n p c' \<and> cm_lookup c' = cm_lookup c"
proof -
  have inv: "cm_inv n p c" using ok by (simp add: cache_ok_def)
  from retrieveBuffer_cases [OF inv r] show ?thesis
  proof
    assume "fbr_pos (abs_cache c) i = None \<and> b = None \<and> c' = c"
    then show ?thesis using ok by (simp add: cm_lookup_def)
  next
    assume "\<exists>k. fbr_pos (abs_cache c) i = Some k \<and> can_touch n k (abs_cache c) \<and>
      b = buff (abs_cache c ! k) \<and> c' = hit_state n p k i c"
    then obtain k where k: "fbr_pos (abs_cache c) i = Some k" "can_touch n k (abs_cache c)"
      "b = buff (abs_cache c ! k)" "c' = hit_state n p k i c" by blast
    have H: "cm_inv n p c'" "abs_cache c' = fbr_hit n k (abs_cache c)"
      using findBlock_hit [OF inv k(1,2)] k(4) by simp_all
    have kl: "k < length (chain c)" using hit_facts(1) [OF k(1)] .
    show ?thesis
      using cm_lookup_hit [OF inv H(1) kl H(2)] buffers_ok_hit [OF _ kl H(2)] ok H(1) k(1,3)
      by (simp add: cm_lookup_def cache_ok_def)
  qed
qed

lemma insertBlock_law:
  assumes ok: "cache_ok n p c" and bn: "0 \<le> bn" and r: "insertBlock c f bn (Some d) q = Inr c'"
  shows "cache_ok n p c' \<and> cm_lookup c' (f, bn) = Some d \<and>
    (\<forall>i. i \<noteq> (f, bn) \<longrightarrow> cm_lookup c' i = None \<or> cm_lookup c' i = cm_lookup c i)"
proof -
  have inv: "cm_inv n p c" using ok by (simp add: cache_ok_def)
  let ?b = "new_CacheBlock f bn (Some d) q"
  note C = insertBlock_cases [OF inv r]
  have nn: "bn \<noteq> NULL_BLOCK" using bn by (simp add: NULL_BLOCK_def)
  have H: "cm_inv n p c'" "abs_cache c' = fbr_insert p ?b (abs_cache c)"
    using insertBlock_ok [OF inv _ refl nn] C by simp_all
  have b: "\<not> is_null ?b" "buff ?b = Some d" "getBlockId ?b = (f, bn)"
    using nn by (simp_all add: CacheBlock_defs is_null_def)
  have "buffers_ok c'" using ok buffers_ok_insert [OF _ H(2)] b(2) by (simp add: cache_ok_def)
  then show ?thesis
    using cm_lookup_insert [OF inv H b(1,2)] b(3) H(1) by (simp add: cache_ok_def)
qed

lemma retrieveBuffer_faults:
  assumes ok: "cache_ok n p c" and r: "retrieveBuffer c i = Inl e"
  shows "e = IntOverflow"
proof -
  have inv: "cm_inv n p c" using ok by (simp add: cache_ok_def)
  show ?thesis
  proof (cases "fbr_pos (abs_cache c) i")
    case None
    then show ?thesis using findBlock_miss [OF inv None] r by (simp add: retrieveBuffer_def)
  next
    case (Some k)
    then show ?thesis
      using findBlock_overflow [OF inv Some] retrieveBuffer_hit [OF inv Some] r
      by (cases "can_touch n k (abs_cache c)") (auto simp: retrieveBuffer_def)
  qed
qed

lemma insertBlock_faults:
  assumes ok: "cache_ok n p c" and no: "cm_lookup c (f, bn) = None" and r: "insertBlock c f bn (Some d) q = Inl e"
  shows "e = InvalidIterator"
proof -
  have inv: "cm_inv n p c" using ok by (simp add: cache_ok_def)
  have "fbr_pos (abs_cache c) (f, bn) = None"
    using lookup_None_absent no ok by (simp add: cache_ok_def)
  then show ?thesis
    using insertBlock_dangling [OF inv] insertBlock_ok_code [OF inv _ refl] r
    by (cases "fbr_out p (abs_cache c) = p") auto
qed

text \<open>Room for \<open>k\<close> blocks: as many null blocks, two old blocks at least, and counts that stay in
  range.\<close>

definition has_room :: "nat \<Rightarrow> CacheManager \<Rightarrow> nat \<Rightarrow> bool" where
  "has_room p cm k \<longleftrightarrow> Suc p < length (chain cm) \<and> k \<le> length (filter is_null (abs_cache cm)) \<and>
     (\<forall>b\<in>set (abs_cache cm). refCount b + int k \<le> INT_MAX)"

lemma nulls_hit:
  assumes "i < length xs"
  shows "length (filter is_null (fbr_hit n i xs)) = length (filter is_null xs)"
proof -
  have "filter is_null xs = filter is_null (take i xs @ xs ! i # drop (Suc i) xs)"
    using remove_nth_split [OF assms] by simp
  then show ?thesis by (simp add: fbr_hit_def remove_nth_def)
qed

lemma has_room_retrieve:
  assumes ok: "cache_ok n p c" and rm: "has_room p c (Suc k)"
  shows "\<exists>b c'. retrieveBuffer c i = Inr (b, c') \<and> (if b = None then has_room p c' (Suc k) else has_room p c' k)"
proof (cases "fbr_pos (abs_cache c) i")
  case None
  have "retrieveBuffer c i = Inr (None, c)"
    using findBlock_miss [OF _ None, of n p] ok by (simp add: retrieveBuffer_def cache_ok_def)
  then show ?thesis using rm by simp
next
  case (Some j)
  have inv: "cm_inv n p c" "buffers_ok c" using ok by (simp_all add: cache_ok_def)
  have jl: "j < length (abs_cache c)" using hit_facts(1) [OF Some] by simp
  have rc: "\<And>b. b \<in> set (abs_cache c) \<Longrightarrow> refCount b + int (Suc k) \<le> INT_MAX"
    using rm by (simp add: has_room_def)
  have t: "can_touch n j (abs_cache c)" using rc [OF nth_mem [OF jl]] by (simp add: can_touch_def)
  let ?c = "hit_state n p j i c"
  have abs: "abs_cache ?c = fbr_hit n j (abs_cache c)" using findBlock_hit [OF inv(1) Some t] by simp
  have "refCount b + int k \<le> INT_MAX" if "b \<in> set (abs_cache ?c)" for b
    using that rc rc [OF nth_mem [OF jl]] set_fbr_hit [OF jl, of n]
    by (fastforce simp: abs fbr_touch_def)
  moreover have "length (abs_cache ?c) = length (abs_cache c)"
    unfolding abs fbr_hit_def using jl by simp
  moreover have "length (filter is_null (abs_cache ?c)) = length (filter is_null (abs_cache c))"
    unfolding abs by (rule nulls_hit [OF jl])
  ultimately have room: "has_room p ?c k" using rm by (simp add: has_room_def)
  have "buff (abs_cache c ! j) \<noteq> None"
    using inv(2) fbr_pos_Some [OF Some] nth_mem [OF jl] by (auto simp: buffers_ok_def)
  then show ?thesis using retrieveBuffer_hit [OF inv(1) Some t] room by auto
qed

lemma has_room_insert:
  assumes ok: "cache_ok n p c" and rm: "has_room p c (Suc k)" and no: "cm_lookup c (f, bn) = None"
    and bn: "0 \<le> bn"
  shows "\<exists>c'. insertBlock c f bn (Some d) q = Inr c' \<and> has_room p c' k"
proof -
  have inv: "cm_inv n p c" "buffers_ok c" using ok by (simp_all add: cache_ok_def)
  let ?xs = "abs_cache c" and ?b = "new_CacheBlock f bn (Some d) q"
  have absent: "fbr_pos ?xs (f, bn) = None" using lookup_None_absent [OF inv(2) no] .
  have ne: "?xs \<noteq> []" using rm by (auto simp: has_room_def simp flip: length_greater_0_conv)
  have last: "is_null (last ?xs)"
  proof -
    have "\<exists>b\<in>set ?xs. is_null b" using rm by (auto simp: has_room_def intro: ccontr)
    then obtain j where j: "j < length ?xs" "is_null (?xs ! j)" by (auto simp: in_set_conv_nth)
    have "sorted (map is_null ?xs)" using cm_invD(10) [OF inv(1)] by (simp add: nulls_last_def)
    then have "map is_null ?xs ! j \<le> map is_null ?xs ! (length ?xs - 1)"
      using j(1) by (intro sorted_nth_mono) simp_all
    then show ?thesis using j ne by (simp add: last_conv_nth)
  qed
  have out: "fbr_out p ?xs = length ?xs - 1" using last by (simp add: fbr_out_def)
  then have w: "fbr_out p ?xs \<noteq> p" using rm unfolding has_room_def by simp linarith
  have abs: "abs_cache (ins_state n p ?b c) = ?b # butlast ?xs"
    using insertBlock_ok [OF inv(1) absent refl _ w] bn remove_nth_last [OF ne] out
    by (simp add: fbr_insert_def NULL_BLOCK_def)
  have rc: "\<And>b. b \<in> set ?xs \<Longrightarrow> refCount b + int (Suc k) \<le> INT_MAX"
    using rm by (simp add: has_room_def)
  have "1 + int k \<le> INT_MAX"
    using rc [OF last_in_set [OF ne]] cm_invD(11) [OF inv(1)] last_in_set [OF ne] by (auto simp: counts_ok_def)
  then have "refCount b + int k \<le> INT_MAX" if "b \<in> set (?b # butlast ?xs)" for b
    using that rc [OF in_set_butlastD, of b] by (auto simp: new_CacheBlock_def)
  moreover have "length (filter is_null (?b # butlast ?xs)) + 1 = length (filter is_null ?xs)"
  proof -
    have "filter is_null ?xs = filter is_null (butlast ?xs @ [last ?xs])" using ne by simp
    then show ?thesis using last bn by (simp add: is_null_def CacheBlock_defs NULL_BLOCK_def)
  qed
  moreover have "length (chain (ins_state n p ?b c)) = length (chain c)"
    using abs ne length_abs_cache [of "ins_state n p ?b c"] by (simp flip: length_abs_cache)
  ultimately have "has_room p (ins_state n p ?b c) k" using rm unfolding has_room_def abs by simp
  then show ?thesis using insertBlock_ok_code [OF inv(1) absent refl w] by blast
qed

interpretation fbr: block_cache retrieveBuffer insertBlock "cache_ok n p" cm_lookup for n p
  by unfold_locales (fact retrieveBuffer_law insertBlock_law retrieveBuffer_faults insertBlock_faults)+

interpretation fbr_room: roomy_cache retrieveBuffer insertBlock "cache_ok n p" cm_lookup "has_room p" for n p
  by unfold_locales (fact has_room_retrieve has_room_insert)+

end
