(* ===== verification/Cache_Paths.thy ===== *)
theory Cache_Paths
  imports Cache_Contract
begin

text \<open>
  The operations of \<^verbatim>\<open>CacheManager\<close> that walk the whole chain: \<^verbatim>\<open>updatePaths\<close>, which follows
  a rename of a file or directory, and \<^verbatim>\<open>cacheToString\<close>, which prints the cache for the log;
  and the hash of a block id. The abstract counterpart of \<^verbatim>\<open>updatePaths\<close> is \<open>move_path\<close>
  on normalised paths.
\<close>

section \<open>The operations\<close>

text \<open>\<^verbatim>\<open>if (s[s.length()-1] != '/') s.push_back('/')\<close>\<close>

definition with_slash :: "string \<Rightarrow> string res" where
  "with_slash s = bind_res (last_char s) (\<lambda>c. Inr (if c \<noteq> CHR ''/'' then s @ ''/'' else s))"

text \<open>
  The body of the loop of \<^verbatim>\<open>updatePaths\<close> for one path: \<^const>\<open>None\<close> when the prefix does not
  match. \<^verbatim>\<open>suffix[0]\<close> of an empty suffix is the terminating null character.
\<close>

definition renamed_path :: "string \<Rightarrow> string \<Rightarrow> string \<Rightarrow> string option res" where
  "renamed_path pathPrefixStr newPathPrefix pth =
     bind_res (with_slash pth) (\<lambda>pathStr.
       if take (length pathPrefixStr) pathStr = pathPrefixStr
       then
         (let suffix = drop (length pathPrefixStr) pathStr in
          bind_res (last_char newPathPrefix) (\<lambda>c.
          let newPrefixStr = (if c \<noteq> CHR ''/'' \<and> (suffix = [] \<or> hd suffix \<noteq> CHR ''/'')
                              then newPathPrefix @ ''/'' else newPathPrefix);
              resPath = newPrefixStr @ suffix
          in bind_res (last_char resPath) (\<lambda>e.
             Inr (Some (if e = CHR ''/'' then butlast resPath else resPath)))))
       else Inr None)"

fun update_paths_loop :: "string \<Rightarrow> string \<Rightarrow> (nat \<times> nat) list \<Rightarrow> CacheManager \<Rightarrow> CacheManager res" where
  "update_paths_loop pre new [] cm = Inr cm"
| "update_paths_loop pre new (c # cs) cm =
     bind_res (the_res (blockHeap cm (snd c)) NullPointer) (\<lambda>b.
       if getFileId b = NULL_BLOCK then update_paths_loop pre new cs cm
       else bind_res (renamed_path pre new (getPath b)) (\<lambda>r.
         case r of
           None \<Rightarrow> update_paths_loop pre new cs cm
         | Some q \<Rightarrow> update_paths_loop pre new cs
                       (cm\<lparr>blockHeap := (blockHeap cm)(snd c \<mapsto> setPath q b)\<rparr>)))"

definition updatePaths :: "CacheManager \<Rightarrow> string \<Rightarrow> string \<Rightarrow> CacheManager res" where
  "updatePaths cm pathPrefix newPathPrefix =
     bind_res (with_slash pathPrefix) (\<lambda>pre.
       update_paths_loop pre newPathPrefix (chain cm) cm)"

definition block_line :: "CacheBlock \<Rightarrow> string res" where
  "block_line b =
     bind_res (chk_int (getBlockNumber b + 1)) (\<lambda>k.
       Inr (drop 1 (getPath b) @ '' '' @ show_int k @ '' '' @ show_int (getRefCount b) @ [newline]))"

fun cache_lines :: "(nat \<rightharpoonup> CacheBlock) \<Rightarrow> (nat \<times> nat) list \<Rightarrow> string \<Rightarrow> string res" where
  "cache_lines h [] out = Inr out"
| "cache_lines h (c # cs) out =
     bind_res (the_res (h (snd c)) NullPointer) (\<lambda>b.
       if getBlockNumber b \<noteq> NULL_BLOCK
       then bind_res (block_line b) (\<lambda>l. cache_lines h cs (out @ l))
       else cache_lines h cs out)"

text \<open>The reverse iterator goes from the last node of the chain to the first.\<close>

definition cacheToString :: "CacheManager \<Rightarrow> string res" where
  "cacheToString cm = cache_lines (blockHeap cm) (rev (chain cm)) []"

text \<open>
  The hash of a block id. \<^verbatim>\<open>std::hash<int>\<close> is the parameter \<open>hasher\<close>: the standard leaves its
  values open.
\<close>

definition hash_combine :: "('a \<Rightarrow> 64 word) \<Rightarrow> 64 word \<Rightarrow> 'a \<Rightarrow> 64 word" where
  "hash_combine hasher seed v =
     xor seed (hasher v + 0x9e3779b9 + push_bit 6 seed + drop_bit 2 seed)"

definition hash_pair :: "(int \<Rightarrow> 64 word) \<Rightarrow> BlockID \<Rightarrow> 64 word" where
  "hash_pair hasher v = hash_combine hasher (hash_combine hasher 0 (fst v)) (snd v)"

section \<open>Paths\<close>

text \<open>
  A normalised path, as the kernel hands it to a file system: not empty, no slash at its
  end, no two slashes in a row.
\<close>

fun single_slashes :: "string \<Rightarrow> bool" where
  "single_slashes (c # d # s) = (\<not> (c = CHR ''/'' \<and> d = CHR ''/'') \<and> single_slashes (d # s))"
| "single_slashes [c] = True"
| "single_slashes [] = True"

definition norm_path :: "string \<Rightarrow> bool" where
  "norm_path s \<longleftrightarrow> s \<noteq> [] \<and> last s \<noteq> CHR ''/'' \<and> single_slashes s"

text \<open>\<open>q\<close> is the file or directory \<open>a\<close> itself, or lies below it.\<close>

definition under :: "string \<Rightarrow> string \<Rightarrow> bool" where
  "under a q \<longleftrightarrow> q = a \<or> take (Suc (length a)) q = a @ ''/''"

definition move_path :: "string \<Rightarrow> string \<Rightarrow> string \<Rightarrow> string" where
  "move_path a b q = (if under a q then b @ drop (length a) q else q)"

lemma single_slashes_append:
  "single_slashes (xs @ ys) \<Longrightarrow> single_slashes xs \<and> single_slashes ys"
proof (induction xs rule: single_slashes.induct)
  case (2 v)
  then show ?case by (cases ys) simp_all
qed simp_all

lemma single_slashes_join:
  "single_slashes xs \<Longrightarrow> single_slashes ys \<Longrightarrow>
    xs = [] \<or> ys = [] \<or> last xs \<noteq> CHR ''/'' \<or> hd ys \<noteq> CHR ''/'' \<Longrightarrow> single_slashes (xs @ ys)"
proof (induction xs rule: single_slashes.induct)
  case (2 v)
  then show ?case by (cases ys) simp_all
qed simp_all

text \<open>What lies below \<open>a\<close>, other than \<open>a\<close> itself, is \<open>a\<close>, one slash and a relative path.\<close>

lemma under_cases:
  assumes "norm_path q" "under a q"
  obtains (same) "q = a"
    | (below) c r where "q = a @ CHR ''/'' # c # r" "c \<noteq> CHR ''/''"
proof (cases "q = a")
  case False
  then have t: "take (Suc (length a)) q = a @ ''/''" using assms(2) by (simp add: under_def)
  define r where "r = drop (Suc (length a)) q"
  have q: "q = (a @ ''/'') @ r" unfolding r_def t [symmetric] by simp
  show ?thesis
  proof (cases r)
    case Nil
    then show ?thesis using assms(1) q by (simp add: norm_path_def)
  next
    case (Cons c r')
    have "single_slashes (CHR ''/'' # c # r')"
      using assms(1) single_slashes_append [of a "CHR ''/'' # c # r'"] q Cons
      by (simp add: norm_path_def)
    then show ?thesis using below [of c r'] q Cons by simp
  qed
qed (rule same)

lemma with_slash_norm: "norm_path a \<Longrightarrow> with_slash a = Inr (a @ ''/'')"
  by (simp add: with_slash_def norm_path_def)

lemma renamed_path_norm:
  assumes "norm_path a" "norm_path b" "norm_path q"
  shows "renamed_path (a @ ''/'') b q = Inr (if under a q then Some (move_path a b q) else None)"
proof (cases "under a q")
  case True
  with assms(3) show ?thesis
  proof (cases rule: under_cases)
    case same
    then show ?thesis
      using assms by (simp add: renamed_path_def with_slash_norm norm_path_def under_def move_path_def)
  next
    case (below c r)
    then show ?thesis
      using assms True
      by (simp add: renamed_path_def with_slash_norm Let_def move_path_def) (simp add: norm_path_def butlast_append)
  qed
next
  case False
  have "take (Suc (length a)) (q @ ''/'') \<noteq> a @ ''/''"
  proof
    assume eq: "take (Suc (length a)) (q @ ''/'') = a @ ''/''"
    have "length a \<le> length q" using arg_cong [OF eq, of length] by simp
    then have "length q = length a \<or> Suc (length a) \<le> length q" by linarith
    then show False using eq False by (auto simp: under_def)
  qed
  then show ?thesis using False assms by (simp add: renamed_path_def with_slash_norm)
qed

lemma move_path_norm:
  assumes "norm_path b" "norm_path q"
  shows "norm_path (move_path a b q)"
proof (cases "under a q")
  case True
  with assms(2) show ?thesis
  proof (cases rule: under_cases)
    case same
    then show ?thesis using True assms(1) by (simp add: move_path_def)
  next
    case (below c r)
    then have "single_slashes (CHR ''/'' # c # r)" "last (c # r) \<noteq> CHR ''/''"
      using assms(2) single_slashes_append [of a "CHR ''/'' # c # r"] by (auto simp: norm_path_def)
    then show ?thesis
      using True below assms(1) single_slashes_join [of b "CHR ''/'' # c # r"]
      by (auto simp: move_path_def norm_path_def)
  qed
qed (use assms in \<open>simp add: move_path_def\<close>)

text \<open>Renaming back undoes a rename, unless the target already held a path.\<close>

lemma under_split: "under a q \<longleftrightarrow> q = a \<or> (\<exists>r. q = a @ CHR ''/'' # r)"
proof -
  have "q = (a @ ''/'') @ drop (Suc (length a)) q" if "take (Suc (length a)) q = a @ ''/''"
    using that by (metis append_take_drop_id)
  then show ?thesis by (auto simp: under_def)
qed

lemma under_move_path: "under a q \<Longrightarrow> under b (b @ drop (length a) q)"
  by (auto simp: under_split)

lemma move_path_back:
  assumes "\<not> under b q"
  shows "move_path b a (move_path a b q) = q"
proof (cases "under a q")
  case True
  then have "a @ drop (length a) q = q" by (auto simp: under_split)
  then show ?thesis using True under_move_path [OF True, of b] by (simp add: move_path_def)
qed (use assms in \<open>simp add: move_path_def\<close>)

section \<open>Updating the chain\<close>

text \<open>A change of the blocks that keeps their ids, sections and counts keeps the invariant.\<close>

lemma cm_inv_relabel:
  assumes inv: "cm_inv n p cm"
    and g: "\<And>x b. key_of (g x b) = key_of b" "\<And>x b. section_attr (g x b) = section_attr b"
      "\<And>x b. refCount (g x b) = refCount b"
    and h: "\<And>x. x \<in> snd ` set (chain cm) \<Longrightarrow> h x = map_option (g x) (blockHeap cm x)"
  shows "cm_inv n p (cm\<lparr>blockHeap := h\<rparr>)"
    "chain_blocks (cm\<lparr>blockHeap := h\<rparr>) = map (\<lambda>c. g (snd c) (the (blockHeap cm (snd c)))) (chain cm)"
proof -
  let ?cm = "cm\<lparr>blockHeap := h\<rparr>" and ?g = "\<lambda>c. g (snd c) (the (blockHeap cm (snd c)))"
  note I = cm_invD [OF inv]
  have nn: "is_null (g x b) = is_null b" for x b using g(1) [of x b] by (simp add: key_of_def)
  show bl: "chain_blocks ?cm = map ?g (chain cm)"
    using I(1) by (auto simp: chain_blocks_def wf_chain_def h)
  have "view ?cm = view cm" unfolding view_def bl by (simp add: chain_blocks_def g(1) comp_def)
  moreover have "wf_chain ?cm" using I(1) by (auto simp: wf_chain_def h)
  moreover have "sections_ok n p (chain_blocks ?cm)"
    using I(9) unfolding bl by (auto simp: sections_ok_def chain_blocks_def nn g(2))
  moreover have "abs_cache ?cm = map (strip \<circ> ?g) (chain cm)" by (simp add: abs_cache_def bl)
  moreover have "nulls_last (map (strip \<circ> ?g) (chain cm))"
    using I(10) by (simp add: nulls_last_def abs_cache_def chain_blocks_def comp_def nn)
  moreover have "counts_ok (map (strip \<circ> ?g) (chain cm))"
    using I(11) by (auto simp: counts_ok_def abs_cache_def chain_blocks_def g(3))
  ultimately show "cm_inv n p ?cm"
    using I by (simp add: cm_inv_def cell_iter_def)
qed

text \<open>The effect of a rename on one block.\<close>

definition rename_block :: "string \<Rightarrow> string \<Rightarrow> CacheBlock \<Rightarrow> CacheBlock" where
  "rename_block a b blk =
     (if fileId blk = NULL_BLOCK then blk else blk\<lparr>path := move_path a b (path blk)\<rparr>)"

lemma rename_block_frame [simp]:
  "key_of (rename_block a b blk) = key_of blk" "section_attr (rename_block a b blk) = section_attr blk"
  "refCount (rename_block a b blk) = refCount blk" "buff (rename_block a b blk) = buff blk"
  "fileId (rename_block a b blk) = fileId blk" "blockNumber (rename_block a b blk) = blockNumber blk"
  "getBlockId (rename_block a b blk) = getBlockId blk" "is_null (rename_block a b blk) = is_null blk"
  by (simp_all add: rename_block_def key_of_def is_null_def getBlockId_def)

lemma strip_rename_block: "strip (rename_block a b blk) = rename_block a b (strip blk)"
  by (simp add: rename_block_def strip_def setSection_def)

text \<open>Every block of a file carries a normalised path.\<close>

definition paths_ok :: "CacheBlock list \<Rightarrow> bool" where
  "paths_ok bs \<longleftrightarrow> (\<forall>b\<in>set bs. fileId b \<noteq> NULL_BLOCK \<longrightarrow> norm_path (path b))"

text \<open>A function applied to the blocks at a set of addresses.\<close>

definition map_heap :: "(CacheBlock \<Rightarrow> CacheBlock) \<Rightarrow> nat set \<Rightarrow> (nat \<rightharpoonup> CacheBlock) \<Rightarrow> nat \<rightharpoonup> CacheBlock" where
  "map_heap g A h = (\<lambda>x. if x \<in> A then map_option g (h x) else h x)"

lemma map_heap_insert:
  "h x = Some b \<Longrightarrow> x \<notin> A \<Longrightarrow> map_heap g A (h(x \<mapsto> g b)) = map_heap g (insert x A) h"
  by (auto simp: map_heap_def fun_eq_iff)

lemma update_paths_loop_heap:
  assumes ab: "norm_path a" "norm_path b"
    and d: "distinct (map snd cs)"
    and h: "\<forall>c\<in>set cs. \<exists>blk. blockHeap cm (snd c) = Some blk \<and>
               (fileId blk \<noteq> NULL_BLOCK \<longrightarrow> norm_path (path blk))"
  shows "update_paths_loop (a @ ''/'') b cs cm =
    Inr (cm\<lparr>blockHeap := map_heap (rename_block a b) (snd ` set cs) (blockHeap cm)\<rparr>)"
  using d h
proof (induction cs arbitrary: cm)
  case Nil
  then show ?case by (simp add: map_heap_def)
next
  case (Cons c cs)
  obtain blk where blk: "blockHeap cm (snd c) = Some blk" "fileId blk \<noteq> NULL_BLOCK \<longrightarrow> norm_path (path blk)"
    using Cons.prems(2) by auto
  let ?cm = "cm\<lparr>blockHeap := (blockHeap cm)(snd c \<mapsto> rename_block a b blk)\<rparr>"
  have other: "snd x \<noteq> snd c" if "x \<in> set cs" for x using Cons.prems(1) that by (metis distinct.simps(2) imageI list.set_map list.simps(9))
  have same: "?cm = cm" if "rename_block a b blk = blk"
    using that blk(1) by (simp add: map_upd_triv)
  have "update_paths_loop (a @ ''/'') b (c # cs) cm = update_paths_loop (a @ ''/'') b cs ?cm"
    using blk same renamed_path_norm [OF ab, of "path blk"]
    by (auto simp: getFileId_def getPath_def setPath_def rename_block_def move_path_def)
  also have "\<dots> = Inr (?cm\<lparr>blockHeap := map_heap (rename_block a b) (snd ` set cs) (blockHeap ?cm)\<rparr>)"
    using Cons.prems other by (intro Cons.IH) simp_all
  also have "\<dots> = Inr (cm\<lparr>blockHeap := map_heap (rename_block a b) (snd ` set (c # cs)) (blockHeap cm)\<rparr>)"
    using map_heap_insert [of "blockHeap cm" "snd c", OF blk(1), of "snd ` set cs" "rename_block a b"] other
    by fastforce
  finally show ?case .
qed

lemma updatePaths_refines:
  assumes inv: "cm_inv n p cm" and ab: "norm_path a" "norm_path b" and ok: "paths_ok (abs_cache cm)"
  obtains cm' where "updatePaths cm a b = Inr cm'" "cm_inv n p cm'"
    "abs_cache cm' = map (rename_block a b) (abs_cache cm)" "cm_lookup cm' = cm_lookup cm"
proof -
  note I = cm_invD [OF inv]
  define h where "h = map_heap (rename_block a b) (snd ` set (chain cm)) (blockHeap cm)"
  have heap: "\<forall>c\<in>set (chain cm). \<exists>blk. blockHeap cm (snd c) = Some blk \<and>
      (fileId blk \<noteq> NULL_BLOCK \<longrightarrow> norm_path (path blk))"
  proof
    fix c assume c: "c \<in> set (chain cm)"
    obtain blk where blk: "blockHeap cm (snd c) = Some blk" using I(1) c by (auto simp: wf_chain_def)
    then have "strip blk \<in> set (abs_cache cm)"
      using c by (force simp: abs_cache_def chain_blocks_def)
    then have "fileId blk \<noteq> NULL_BLOCK \<longrightarrow> norm_path (path blk)"
      using bspec [OF ok [unfolded paths_ok_def]] by fastforce
    then show "\<exists>blk. blockHeap cm (snd c) = Some blk \<and> (fileId blk \<noteq> NULL_BLOCK \<longrightarrow> norm_path (path blk))"
      using blk by blast
  qed
  have up: "updatePaths cm a b = Inr (cm\<lparr>blockHeap := h\<rparr>)"
    using update_paths_loop_heap [OF ab _ heap] I(1)
    by (simp add: updatePaths_def with_slash_norm [OF ab(1)] wf_chain_def h_def)
  have R: "cm_inv n p (cm\<lparr>blockHeap := h\<rparr>)" "chain_blocks (cm\<lparr>blockHeap := h\<rparr>) = map (rename_block a b) (chain_blocks cm)"
    using cm_inv_relabel [OF inv, of "\<lambda>_. rename_block a b" h]
    by (simp_all add: h_def map_heap_def chain_blocks_def comp_def)
  have abs: "abs_cache (cm\<lparr>blockHeap := h\<rparr>) = map (rename_block a b) (abs_cache cm)"
    by (simp add: abs_cache_def R(2) strip_rename_block)
  have "cm_lookup (cm\<lparr>blockHeap := h\<rparr>) = cm_lookup cm"
  proof (rule map_ext_Some)
    fix bid e
    show "cm_lookup (cm\<lparr>blockHeap := h\<rparr>) bid = Some e \<longleftrightarrow> cm_lookup cm bid = Some e"
      unfolding cm_lookup_iff [OF inv] cm_lookup_iff [OF R(1)] abs by simp
  qed
  then show ?thesis by (rule that [OF up R(1) abs])
qed

text \<open>Whatever the strings are, \<^verbatim>\<open>updatePaths\<close> changes nothing but paths.\<close>

lemma update_paths_loop_frame:
  assumes "update_paths_loop pre new cs cm = Inr cm'"
  shows "\<exists>q. cm' = cm\<lparr>blockHeap := (\<lambda>x. map_option (\<lambda>b. b\<lparr>path := q x (path b)\<rparr>) (blockHeap cm x))\<rparr>"
  using assms
proof (induction cs arbitrary: cm)
  case Nil
  then show ?case by (intro exI [of _ "\<lambda>_ s. s"]) (auto simp: option.map_id0 option.map_ident)
next
  case (Cons c cs)
  then obtain b where b: "blockHeap cm (snd c) = Some b" by (auto simp: res_iffs)
  show ?case
  proof (cases "update_paths_loop pre new cs cm = Inr cm'")
    case True
    then show ?thesis by (rule Cons.IH)
  next
    case False
    then obtain r where "update_paths_loop pre new cs
        (cm\<lparr>blockHeap := (blockHeap cm)(snd c \<mapsto> setPath r b)\<rparr>) = Inr cm'"
      using Cons.prems b by (auto simp: res_iffs split: if_splits option.splits)
    from Cons.IH [OF this] obtain q where q: "cm' = cm\<lparr>blockHeap :=
        (\<lambda>x. map_option (\<lambda>b. b\<lparr>path := q x (path b)\<rparr>) (((blockHeap cm)(snd c \<mapsto> setPath r b)) x))\<rparr>"
      by auto
    then show ?thesis
      using b by (intro exI [of _ "\<lambda>x s. if x = snd c then q x r else q x s"])
        (auto simp: fun_eq_iff setPath_def intro!: CacheManager.equality)
  qed
qed

lemma updatePaths_inv:
  assumes inv: "cm_inv n p cm" and up: "updatePaths cm a b = Inr cm'"
  shows "cm_inv n p cm'" "cm_lookup cm' = cm_lookup cm"
    "map (\<lambda>b. b\<lparr>path := []\<rparr>) (abs_cache cm') = map (\<lambda>b. b\<lparr>path := []\<rparr>) (abs_cache cm)"
proof -
  obtain pre where "update_paths_loop pre b (chain cm) cm = Inr cm'"
    using up by (auto simp: updatePaths_def res_iffs)
  from update_paths_loop_frame [OF this] obtain q where
    q: "cm' = cm\<lparr>blockHeap := (\<lambda>x. map_option (\<lambda>b. b\<lparr>path := q x (path b)\<rparr>) (blockHeap cm x))\<rparr>" ..
  have g: "key_of (b\<lparr>path := s\<rparr>) = key_of b" for b s
    by (simp add: key_of_def is_null_def getBlockId_def)
  note R = cm_inv_relabel [OF inv, of "\<lambda>x b. b\<lparr>path := q x (path b)\<rparr>" "blockHeap cm'"]
  show inv': "cm_inv n p cm'" using R(1) g q by simp
  have bl: "chain_blocks cm' = map (\<lambda>c. (\<lambda>b. b\<lparr>path := q (snd c) (path b)\<rparr>) (the (blockHeap cm (snd c)))) (chain cm)"
    using R(2) g q by simp
  show m: "map (\<lambda>b. b\<lparr>path := []\<rparr>) (abs_cache cm') = map (\<lambda>b. b\<lparr>path := []\<rparr>) (abs_cache cm)"
    by (simp add: abs_cache_def bl chain_blocks_def [of cm] strip_def setSection_def)
  have er: "(\<exists>b\<in>set xs. \<not> is_null b \<and> getBlockId b = i \<and> buff b = Some d) \<longleftrightarrow>
      (\<exists>b\<in>set (map (\<lambda>b. b\<lparr>path := []\<rparr>) xs). \<not> is_null b \<and> getBlockId b = i \<and> buff b = Some d)" for xs i d
    by (simp add: is_null_def getBlockId_def)
  show "cm_lookup cm' = cm_lookup cm"
  proof (rule map_ext_Some)
    fix i d
    show "cm_lookup cm' i = Some d \<longleftrightarrow> cm_lookup cm i = Some d"
      unfolding cm_lookup_iff [OF inv] cm_lookup_iff [OF inv'] er [of "abs_cache cm" i d]
        er [of "abs_cache cm'" i d] m by (rule refl)
  qed
qed

section \<open>Printing\<close>

definition block_text :: "CacheBlock \<Rightarrow> string" where
  "block_text b =
     drop 1 (path b) @ '' '' @ show_int (blockNumber b + 1) @ '' '' @ show_int (refCount b) @ [newline]"

definition numbers_ok :: "CacheBlock list \<Rightarrow> bool" where
  "numbers_ok bs \<longleftrightarrow> (\<forall>b\<in>set bs. -1 \<le> blockNumber b \<and> blockNumber b < INT_MAX)"

lemma cache_lines_text:
  assumes "\<forall>c\<in>set cs. h (snd c) = Some (g c) \<and> -1 \<le> blockNumber (g c) \<and> blockNumber (g c) < INT_MAX"
  shows "cache_lines h cs out =
    Inr (out @ concat (map block_text (filter (\<lambda>b. \<not> is_null b) (map g cs))))"
  using assms
proof (induction cs arbitrary: out)
  case (Cons c cs)
  then show ?case
    by (auto simp: block_line_def chk_int_def int_defs CacheBlock_defs is_null_def block_text_def)
qed simp

lemma filter_abs_cache:
  "map block_text (filter (\<lambda>b. \<not> is_null b) (abs_cache cm)) =
   map block_text (filter (\<lambda>b. \<not> is_null b) (chain_blocks cm))"
  by (simp add: abs_cache_def filter_map comp_def block_text_def)

lemma cacheToString_text:
  assumes "cm_inv n p cm" "numbers_ok (abs_cache cm)"
  shows "cacheToString cm =
    Inr (concat (rev (map block_text (filter (\<lambda>b. \<not> is_null b) (abs_cache cm)))))"
proof -
  let ?g = "\<lambda>c. the (blockHeap cm (snd c))"
  have "\<forall>c\<in>set (rev (chain cm)). blockHeap cm (snd c) = Some (?g c) \<and> -1 \<le> blockNumber (?g c)
      \<and> blockNumber (?g c) < INT_MAX"
  proof
    fix c assume "c \<in> set (rev (chain cm))"
    then have c: "c \<in> set (chain cm)" by simp
    then have "strip (?g c) \<in> set (abs_cache cm)" by (auto simp: abs_cache_def chain_blocks_def)
    then have "-1 \<le> blockNumber (strip (?g c)) \<and> blockNumber (strip (?g c)) < INT_MAX"
      using assms(2) unfolding numbers_ok_def by (rule bspec [rotated])
    then show "blockHeap cm (snd c) = Some (?g c) \<and> -1 \<le> blockNumber (?g c) \<and> blockNumber (?g c) < INT_MAX"
      using c cm_invD(1) [OF assms(1)] by (auto simp: wf_chain_def)
  qed
  from cache_lines_text [OF this, of "[]"] show ?thesis
    unfolding cacheToString_def filter_abs_cache unfolding chain_blocks_def
    by (simp flip: rev_map rev_filter)
qed

section \<open>Hashing\<close>

lemma hash_combine_eq:
  "hash_combine hasher s x = hash_combine hasher s y \<longleftrightarrow> hasher x = hasher y"
proof -
  have "xor s (xor s (a :: 64 word)) = a" for a
    by (simp flip: xor.assoc)
  then have "xor s (a :: 64 word) = xor s b \<longleftrightarrow> a = b" for a b
    by metis
  then show ?thesis by (simp add: hash_combine_def)
qed

end
