(* ===== verification/Caching_Ops.thy ===== *)
theory Caching_Ops
  imports Fuse_Types Cache_Paths
begin

text \<open>
  The handlers of \<^verbatim>\<open>CachingFileSystem.cpp\<close>, except for reading, and the log of
  \<^verbatim>\<open>logManager.cpp\<close>. The system calls are a record of functions on the state of the operating
  system, a parameter: a call returns the error number on the left when it fails. The state
  of the file system proper is the cache, the text written to the log, and the structure
  that the private data of the context points to.
\<close>

unbundle bit_operations_syntax

section \<open>System calls and state\<close>

record dirent =
  d_ino :: int
  d_name :: string

record 'o os =
  os_time :: "'o \<Rightarrow> int \<times> 'o"
  os_lstat :: "string \<Rightarrow> 'o \<Rightarrow> (int + stat) \<times> 'o"
  os_fstat :: "int \<Rightarrow> 'o \<Rightarrow> (int + stat) \<times> 'o"
  os_access :: "string \<Rightarrow> int \<Rightarrow> 'o \<Rightarrow> (int + unit) \<times> 'o"
  os_open :: "string \<Rightarrow> int \<Rightarrow> 'o \<Rightarrow> (int + int) \<times> 'o"
  os_pread :: "int \<Rightarrow> int \<Rightarrow> int \<Rightarrow> 'o \<Rightarrow> (int + 8 word list) \<times> 'o"
  os_close :: "int \<Rightarrow> 'o \<Rightarrow> (int + unit) \<times> 'o"
  os_opendir :: "string \<Rightarrow> 'o \<Rightarrow> (int + int) \<times> 'o"
  os_readdir :: "int \<Rightarrow> 'o \<Rightarrow> dirent option \<times> 'o"
  os_closedir :: "int \<Rightarrow> 'o \<Rightarrow> (int + unit) \<times> 'o"
  os_rename :: "string \<Rightarrow> string \<Rightarrow> 'o \<Rightarrow> (int + unit) \<times> 'o"
  os_realpath :: "string \<Rightarrow> 'o \<Rightarrow> string option \<times> 'o"
  os_stat :: "string \<Rightarrow> 'o \<Rightarrow> (int + stat) \<times> 'o"
  os_fopen_append :: "string \<Rightarrow> 'o \<Rightarrow> bool \<times> 'o"

text \<open>\<^verbatim>\<open>struct cfs_state\<close>; its log stream is the field \<open>log_text\<close> of the memory below.\<close>

record cfs_state =
  logfile_full_path :: string
  rootdir :: string

record 'o cfs_mem =
  cacheManager :: CacheManager
  log_text :: string
  cfs_at :: "nat \<rightharpoonup> cfs_state"
  os_state :: 'o

type_synonym 'o cfs = "'o cfs_mem fstate"

definition with_os :: "('o \<Rightarrow> 'a \<times> 'o) \<Rightarrow> 'o cfs \<Rightarrow> 'a \<times> 'o cfs" where
  "with_os f s = (let (a, w) = f (os_state (world s)) in (a, s\<lparr>world := (world s)\<lparr>os_state := w\<rparr>\<rparr>))"

definition CF_LOG :: "'o cfs \<Rightarrow> cfs_state res" where
  "CF_LOG s = the_res (cfs_at (world s) (private_data s)) NullPointer"

definition PATH_MAX :: nat where "PATH_MAX = 4096"

definition logfile_name :: string where "logfile_name = ''.filesystem.log''"

definition OPEN_FLAGS :: int where "OPEN_FLAGS = 0x105000"

section \<open>The log\<close>

definition log_append :: "string \<Rightarrow> 'o cfs \<Rightarrow> 'o cfs" where
  "log_append t s = s\<lparr>world := (world s)\<lparr>log_text := log_text (world s) @ t\<rparr>\<rparr>"

definition open_log :: "'o os \<Rightarrow> string \<Rightarrow> 'o cfs \<Rightarrow> ('o cfs) res" where
  "open_log os logfile s =
     (case with_os (os_fopen_append os logfile) s of
        (False, s1) \<Rightarrow> Inl (ExitCall 1)
      | (True, s1) \<Rightarrow> Inr s1)"

definition log_call :: "'o os \<Rightarrow> string \<Rightarrow> 'o cfs \<Rightarrow> ('o cfs) res" where
  "log_call os callName s =
     (let (callTime, s1) = with_os (os_time os) s in
      bind_res (CF_LOG s1) (\<lambda>_. Inr (log_append (show_int callTime @ '' '' @ callName @ [newline]) s1)))"

definition ioctl_log :: "string \<Rightarrow> 'o cfs \<Rightarrow> ('o cfs) res" where
  "ioctl_log cached_files s = bind_res (CF_LOG s) (\<lambda>_. Inr (log_append cached_files s))"

section \<open>Paths\<close>

definition refering_logfile :: "string \<Rightarrow> 'o cfs \<Rightarrow> int res" where
  "refering_logfile fpath s =
     bind_res (CF_LOG s) (\<lambda>c. Inr (if fpath = logfile_full_path c then - ENOENT else 0))"

definition set_root_dir :: "'o os \<Rightarrow> string \<Rightarrow> 'o cfs \<Rightarrow> string option \<times> 'o cfs" where
  "set_root_dir os root_dir s = with_os (os_realpath os root_dir) s"

text \<open>
  \<^verbatim>\<open>strcpy\<close> and \<^verbatim>\<open>strncat\<close> into an array of \<^const>\<open>PATH_MAX\<close> bytes: the bound of \<^verbatim>\<open>strncat\<close> limits what
  is appended, not the result, so a long path runs over the end of the array.
\<close>

definition caching_full_path :: "string \<Rightarrow> 'o cfs \<Rightarrow> string res" where
  "caching_full_path pn s =
     bind_res (CF_LOG s) (\<lambda>c.
       if length (rootdir c) < PATH_MAX \<and> length (rootdir c @ take PATH_MAX pn) < PATH_MAX
       then Inr (rootdir c @ take PATH_MAX pn) else Inl OutOfBounds)"

section \<open>Attributes\<close>

definition caching_getattr :: "'o os \<Rightarrow> string \<Rightarrow> stat \<Rightarrow> (int \<times> stat, 'o cfs_mem) act" where
  "caching_getattr os pn statbuf s =
     bind_res (log_call os ''getattr'' s) (\<lambda>s1.
     bind_res (caching_full_path pn s1) (\<lambda>fpath.
     bind_res (refering_logfile fpath s1) (\<lambda>res.
     if res \<noteq> 0 then Inr ((res, statbuf), s1)
     else
       (case with_os (os_lstat os fpath) s1 of
          (Inl e, s2) \<Rightarrow> Inr ((- e, zero_stat), s2)
        | (Inr st, s2) \<Rightarrow> Inr ((0, st), s2)))))"

definition caching_fgetattr ::
  "'o os \<Rightarrow> string option \<Rightarrow> stat \<Rightarrow> fuse_file_info \<Rightarrow> (int \<times> stat \<times> fuse_file_info, 'o cfs_mem) act" where
  "caching_fgetattr os pn statbuf fi s =
     bind_res (log_call os ''fgetattr'' s) (\<lambda>s1.
     bind_res (the_res pn NullPointer) (\<lambda>pth.
     bind_res (caching_full_path pth s1) (\<lambda>fpath.
     bind_res (refering_logfile fpath s1) (\<lambda>res.
     if res \<noteq> 0 then Inr ((- ENONET, statbuf, fi), s1)
     else
       (case with_os (os_fstat os (to_int32 (fi_fh fi))) s1 of
          (Inl e, s2) \<Rightarrow> Inr ((- e, statbuf, fi), s2)
        | (Inr st, s2) \<Rightarrow> Inr ((0, st, fi), s2))))))"

definition caching_access :: "'o os \<Rightarrow> string \<Rightarrow> int \<Rightarrow> (int, 'o cfs_mem) act" where
  "caching_access os pn amask s =
     bind_res (log_call os ''access'' s) (\<lambda>s1.
     bind_res (caching_full_path pn s1) (\<lambda>full_path.
     bind_res (refering_logfile full_path s1) (\<lambda>res.
     if res \<noteq> 0 then Inr (res, s1)
     else
       (case with_os (os_access os full_path amask) s1 of
          (Inl e, s2) \<Rightarrow> Inr (- e, s2)
        | (Inr _, s2) \<Rightarrow> Inr (0, s2)))))"

section \<open>Files\<close>

definition caching_open ::
  "'o os \<Rightarrow> string \<Rightarrow> fuse_file_info \<Rightarrow> (int \<times> fuse_file_info, 'o cfs_mem) act" where
  "caching_open os pn fi s =
     bind_res (log_call os ''open'' s) (\<lambda>s1.
     bind_res (caching_full_path pn s1) (\<lambda>fpath.
     bind_res (refering_logfile fpath s1) (\<lambda>retval.
     if retval \<noteq> 0 then Inr ((- ENONET, fi), s1)
     else
       (let fi1 = fi\<lparr>fi_direct_io := True\<rparr> in
        if fi_flags fi1 AND 3 = 1 \<or> fi_flags fi1 AND 3 = 2 then Inr ((- EACCES, fi1), s1)
        else
          (case with_os (os_open os fpath OPEN_FLAGS) s1 of
             (Inl e, s2) \<Rightarrow> Inr ((- e, fi1), s2)
           | (Inr fd, s2) \<Rightarrow> Inr ((retval, fi1\<lparr>fi_fh := to_size fd\<rparr>), s2))))))"

definition caching_flush ::
  "'o os \<Rightarrow> string option \<Rightarrow> fuse_file_info \<Rightarrow> (int \<times> fuse_file_info, 'o cfs_mem) act" where
  "caching_flush os pn fi s =
     bind_res (log_call os ''flush'' s) (\<lambda>s1.
     bind_res (the_res pn NullPointer) (\<lambda>pth.
     bind_res (caching_full_path pth s1) (\<lambda>fpath.
     bind_res (refering_logfile fpath s1) (\<lambda>res.
     if res \<noteq> 0 then Inr ((- ENONET, fi), s1) else Inr ((res, fi), s1)))))"

text \<open>The result of \<^verbatim>\<open>fstat\<close> is not used.\<close>

definition caching_release ::
  "'o os \<Rightarrow> string option \<Rightarrow> fuse_file_info \<Rightarrow> (int \<times> fuse_file_info, 'o cfs_mem) act" where
  "caching_release os pn fi s =
     bind_res (log_call os ''release'' s) (\<lambda>s1.
     bind_res (the_res pn NullPointer) (\<lambda>pth.
     bind_res (caching_full_path pth s1) (\<lambda>fpath.
     bind_res (refering_logfile fpath s1) (\<lambda>res.
     if res \<noteq> 0 then Inr ((res, fi), s1)
     else
       (let (_, s2) = with_os (os_fstat os (to_int32 (fi_fh fi))) s1 in
        case with_os (os_close os (to_int32 (fi_fh fi))) s2 of
          (Inl e, s3) \<Rightarrow> Inr ((- e, fi), s3)
        | (Inr _, s3) \<Rightarrow> Inr ((0, fi), s3))))))"

section \<open>Directories\<close>

definition caching_opendir ::
  "'o os \<Rightarrow> string \<Rightarrow> fuse_file_info \<Rightarrow> (int \<times> fuse_file_info, 'o cfs_mem) act" where
  "caching_opendir os pn fi s =
     bind_res (log_call os ''opendir'' s) (\<lambda>s1.
     bind_res (caching_full_path pn s1) (\<lambda>fullPath.
     bind_res (refering_logfile fullPath s1) (\<lambda>res.
     if res \<noteq> 0 then Inr ((res, fi), s1)
     else
       (case with_os (os_opendir os fullPath) s1 of
          (Inl e, s2) \<Rightarrow> Inr ((- e, fi), s2)
        | (Inr dp, s2) \<Rightarrow> Inr ((0, fi\<lparr>fi_fh := to_size dp\<rparr>), s2)))))"

text \<open>The loop over the directory: the log file is skipped in the root directory, and a filler
  that returns something else than 0 ends the loop.\<close>

partial_function (option) readdir_loop ::
  "'o os \<Rightarrow> string \<Rightarrow> 'o cfs_mem filler \<Rightarrow> int \<Rightarrow> 'o cfs \<Rightarrow> (int \<times> 'o cfs) res option" where
  "readdir_loop os pn filler dp s =
     (case with_os (os_readdir os dp) s of
        (None, s1) \<Rightarrow> Some (Inr (0, s1))
      | (Some dirEnt, s1) \<Rightarrow>
          (case caching_full_path pn s1 of
             Inl e \<Rightarrow> Some (Inl e)
           | Inr _ \<Rightarrow>
               if d_name dirEnt = logfile_name \<and> pn = ''/''
               then readdir_loop os pn filler dp s1
               else
                 (case filler (d_name dirEnt) (Some (zero_stat\<lparr>st_ino := d_ino dirEnt\<rparr>)) 0 s1 of
                    Inl e \<Rightarrow> Some (Inl e)
                  | Inr (r, s2) \<Rightarrow>
                      if r \<noteq> 0 then Some (Inr (0, s2)) else readdir_loop os pn filler dp s2)))"

definition caching_readdir ::
  "'o os \<Rightarrow> string option \<Rightarrow> 'o cfs_mem filler \<Rightarrow> int \<Rightarrow> fuse_file_info \<Rightarrow> 'o cfs \<Rightarrow>
     ((int \<times> fuse_file_info) \<times> 'o cfs) res option" where
  "caching_readdir os pn filler off fi s =
     (case bind_res (log_call os ''readdir'' s) (\<lambda>s1.
           bind_res (the_res pn NullPointer) (\<lambda>pth. Inr (pth, s1))) of
        Inl e \<Rightarrow> Some (Inl e)
      | Inr (pth, s1) \<Rightarrow>
          map_option (\<lambda>r. bind_res r (\<lambda>(res, s2). Inr ((res, fi), s2)))
            (readdir_loop os pth filler (fi_fh fi) s1))"

definition caching_releasedir ::
  "'o os \<Rightarrow> string option \<Rightarrow> fuse_file_info \<Rightarrow> (int \<times> fuse_file_info, 'o cfs_mem) act" where
  "caching_releasedir os pn fi s =
     bind_res (log_call os ''releasedir'' s) (\<lambda>s1.
     bind_res (the_res pn NullPointer) (\<lambda>pth.
     bind_res (refering_logfile pth s1) (\<lambda>log.
     if log \<noteq> 0 then Inr ((- ENONET, fi), s1)
     else
       (case with_os (os_closedir os (fi_fh fi)) s1 of
          (Inl e, s2) \<Rightarrow> Inr ((- e, fi), s2)
        | (Inr _, s2) \<Rightarrow> Inr ((0, fi), s2)))))"

section \<open>Renaming, start and end, ioctl\<close>

definition caching_rename :: "'o os \<Rightarrow> string \<Rightarrow> string \<Rightarrow> (int, 'o cfs_mem) act" where
  "caching_rename os pn newpath s =
     bind_res (log_call os ''rename'' s) (\<lambda>s1.
     bind_res (caching_full_path pn s1) (\<lambda>fpath.
     bind_res (caching_full_path newpath s1) (\<lambda>fnewpath.
     bind_res (refering_logfile fpath s1) (\<lambda>log.
     if log \<noteq> 0 then Inr (- ENOENT, s1)
     else
       (case with_os (os_rename os fpath fnewpath) s1 of
          (Inl e, s2) \<Rightarrow> Inr (- e, s2)
        | (Inr _, s2) \<Rightarrow>
            bind_res (updatePaths (cacheManager (world s2)) pn newpath) (\<lambda>cm.
              Inr (0, s2\<lparr>world := (world s2)\<lparr>cacheManager := cm\<rparr>\<rparr>)))))))"

definition caching_init :: "'o os \<Rightarrow> fuse_conn_info \<Rightarrow> (nat \<times> fuse_conn_info, 'o cfs_mem) act" where
  "caching_init os conn s = bind_res (log_call os ''init'' s) (\<lambda>s1. Inr ((private_data s1, conn), s1))"

definition caching_destroy :: "'o os \<Rightarrow> nat \<Rightarrow> (unit, 'o cfs_mem) act" where
  "caching_destroy os userdata s = bind_res (log_call os ''destroy'' s) (\<lambda>s1. Inr ((), s1))"

definition caching_ioctl ::
  "'o os \<Rightarrow> string option \<Rightarrow> int \<Rightarrow> nat \<Rightarrow> fuse_file_info \<Rightarrow> int \<Rightarrow> ptr option \<Rightarrow>
     (int \<times> fuse_file_info, 'o cfs_mem) act" where
  "caching_ioctl os pn cmd arg fi flags data s =
     bind_res (log_call os ''ioctl'' s) (\<lambda>s1.
     bind_res (cacheToString (cacheManager (world s1))) (\<lambda>t.
     bind_res (ioctl_log t s1) (\<lambda>s2. Inr ((0, fi), s2))))"

section \<open>What the beginning of every handler does\<close>

text \<open>The facts about the log, the clock and the paths that all handlers share.\<close>

named_theorems cfs_simps

definition logged :: "'o os \<Rightarrow> string \<Rightarrow> 'o cfs \<Rightarrow> 'o cfs" where
  "logged os nm s =
     (let (t, s1) = with_os (os_time os) s in log_append (show_int t @ '' '' @ nm @ [newline]) s1)"

lemma with_os_frame [cfs_simps]:
  "cacheManager (world (snd (with_os f s))) = cacheManager (world s)"
  "log_text (world (snd (with_os f s))) = log_text (world s)"
  "cfs_at (world (snd (with_os f s))) = cfs_at (world s)"
  "os_state (world (snd (with_os f s))) = snd (f (os_state (world s)))"
  "mheap (snd (with_os f s)) = mheap s" "private_data (snd (with_os f s)) = private_data s"
  "mfree (snd (with_os f s)) = mfree s" "mnext (snd (with_os f s)) = mnext s"
  "fst (with_os f s) = fst (f (os_state (world s)))"
  by (simp_all add: with_os_def case_prod_beta)

lemma with_os_split: "with_os f s = (fst (f (os_state (world s))), snd (with_os f s))"
  by (simp add: with_os_def case_prod_beta)

lemma logged_frame [cfs_simps]:
  "cacheManager (world (logged os nm s)) = cacheManager (world s)"
  "log_text (world (logged os nm s)) =
     log_text (world s) @ show_int (fst (os_time os (os_state (world s)))) @ '' '' @ nm @ [newline]"
  "cfs_at (world (logged os nm s)) = cfs_at (world s)"
  "os_state (world (logged os nm s)) = snd (os_time os (os_state (world s)))"
  "mheap (logged os nm s) = mheap s" "private_data (logged os nm s) = private_data s"
  "mfree (logged os nm s) = mfree s" "mnext (logged os nm s) = mnext s"
  by (simp_all add: logged_def log_append_def case_prod_beta cfs_simps)

text \<open>The private data points to the structure \<open>c\<close>, and the path fits behind its root directory.\<close>

definition cfs_ready :: "cfs_state \<Rightarrow> string \<Rightarrow> 'o cfs \<Rightarrow> bool" where
  "cfs_ready c pth s \<longleftrightarrow> cfs_at (world s) (private_data s) = Some c \<and> length (rootdir c) + length pth < PATH_MAX"

lemma cfs_ready_logged [cfs_simps]: "cfs_ready c pth (logged os nm s) = cfs_ready c pth s"
  by (simp add: cfs_ready_def cfs_simps)

lemma CF_LOG_ready [cfs_simps]: "cfs_ready c pth s \<Longrightarrow> CF_LOG s = Inr c"
  by (simp add: cfs_ready_def CF_LOG_def)

lemma log_call_ready [cfs_simps]:
  assumes "cfs_ready c pth s"
  shows "log_call os nm s = Inr (logged os nm s)"
proof -
  have "CF_LOG (snd (with_os (os_time os) s)) = Inr c"
    using assms by (simp add: CF_LOG_def cfs_ready_def cfs_simps)
  then show ?thesis by (simp add: log_call_def logged_def case_prod_beta)
qed

lemma full_path_ready [cfs_simps]: "cfs_ready c pth s \<Longrightarrow> caching_full_path pth s = Inr (rootdir c @ pth)"
  by (simp add: caching_full_path_def CF_LOG_ready) (simp add: cfs_ready_def)

lemma refering_logfile_ready [cfs_simps]:
  "cfs_ready c pth s \<Longrightarrow> refering_logfile fp s = Inr (if fp = logfile_full_path c then - ENOENT else 0)"
  by (simp add: refering_logfile_def CF_LOG_ready)

end
