(* ===== verification/Caching_Read.thy ===== *)
theory Caching_Read
  imports Caching_Ops
begin

text \<open>
  \<^verbatim>\<open>caching_read\<close> of \<^verbatim>\<open>CachingFileSystem.cpp\<close>: the file is read block by block, each block
  from the cache or, when it is not there, from the disk into the cache. All conversions
  between the integer types of the source are written out; the copy into the caller's buffer
  checks both ends.
\<close>

section \<open>The operation\<close>

text \<open>The block buffer after \<^verbatim>\<open>pread\<close>: what was not read keeps its indeterminate bytes.\<close>

definition fill_buf :: "int \<Rightarrow> 8 word list \<Rightarrow> buffer" where
  "fill_buf bs bytes = map Some bytes @ replicate (nat bs - length bytes) None"

text \<open>
  The first half of the loop body: the block comes from the cache, or from the disk and then
  goes into the cache. The result is the negated error number, or the block with the value of
  \<^verbatim>\<open>pread_ret\<close>.
\<close>

definition load_block ::
  "('c \<Rightarrow> BlockID \<Rightarrow> (buffer option \<times> 'c) res) \<Rightarrow>
   ('c \<Rightarrow> int \<Rightarrow> int \<Rightarrow> buffer option \<Rightarrow> string option \<Rightarrow> 'c res) \<Rightarrow>
   ('o \<Rightarrow> (int + 8 word list) \<times> 'o) \<Rightarrow> int \<Rightarrow> int \<Rightarrow> string \<Rightarrow> int \<Rightarrow> int \<Rightarrow> 'c \<Rightarrow> 'o \<Rightarrow>
   ((int + buffer \<times> int) \<times> 'c \<times> 'o) res" where
  "load_block rt ins rd ino bs pn block pread_ret c w =
     bind_res (rt c (ino, block)) (\<lambda>(b, c1).
       case b of
         Some block_buf \<Rightarrow> Inr (Inr (block_buf, pread_ret), c1, w)
       | None \<Rightarrow>
           (case rd w of
              (Inl e, w1) \<Rightarrow> Inr (Inl (- e), c1, w1)
            | (Inr bytes, w1) \<Rightarrow>
                (let block_buf = fill_buf bs bytes in
                 bind_res (ins c1 ino block (Some block_buf) (Some pn)) (\<lambda>c2.
                   Inr (Inr (block_buf, to_int32 (int (length bytes))), c2, w1)))))"

text \<open>\<^verbatim>\<open>memcpy(buf + buf_prog, block_buf + block_offset, size_to_copy)\<close>: a negative size is a huge
  \<^verbatim>\<open>size_t\<close>.\<close>

definition copy_out :: "ptr \<Rightarrow> int \<Rightarrow> buffer \<Rightarrow> int \<Rightarrow> int \<Rightarrow> 'w fstate \<Rightarrow> ('w fstate) res" where
  "copy_out buf buf_prog block_buf block_offset size_to_copy s =
     (if 0 \<le> size_to_copy \<and> 0 \<le> block_offset \<and> block_offset + size_to_copy \<le> int (length block_buf) \<and>
         0 \<le> int (snd buf) + buf_prog
      then bind_res (mem_write (mheap s) (fst buf, nat (int (snd buf) + buf_prog))
                       (take (nat size_to_copy) (drop (nat block_offset) block_buf)))
             (\<lambda>h. Inr (s\<lparr>mheap := h\<rparr>))
      else Inl OutOfBounds)"

record rvars =
  buf_prog :: int
  remaining_data :: int
  rd_res :: int
  pread_ret :: int

text \<open>The number of bytes to copy out of a block and the offset in it.\<close>

definition block_offset_of :: "int \<Rightarrow> int \<Rightarrow> int \<Rightarrow> int \<Rightarrow> int" where
  "block_offset_of bs off first_block block =
     (if block = first_block then to_int32 (off smod bs) else 0)"

definition size_to_copy_of :: "int \<Rightarrow> int \<Rightarrow> int \<Rightarrow> int \<Rightarrow> int \<Rightarrow> int \<Rightarrow> int \<Rightarrow> int" where
  "size_to_copy_of bs off first_block last_block block pr remaining =
     (if block = last_block - 1 then remaining
      else if block = first_block
           then (if pr = 0 then bs - block_offset_of bs off first_block block else pr)
           else bs)"

function read_loop ::
  "'o os \<Rightarrow> string \<Rightarrow> ptr \<Rightarrow> int \<Rightarrow> int \<Rightarrow> int \<Rightarrow> int \<Rightarrow> int \<Rightarrow> int \<Rightarrow> int \<Rightarrow> rvars \<Rightarrow> (int, 'o cfs_mem) act" where
  "read_loop os pn buf fd ino bs off first_block last_block block v s =
     (if block < last_block
      then
        bind_res (chk_int (block * bs)) (\<lambda>block_begin.
        bind_res (load_block retrieveBuffer insertBlock (os_pread os fd bs block_begin) ino bs pn block
                    (pread_ret v) (cacheManager (world s)) (os_state (world s))) (\<lambda>(r, cm, w).
        let s1 = s\<lparr>world := (world s)\<lparr>cacheManager := cm, os_state := w\<rparr>\<rparr> in
        case r of
          Inl err \<Rightarrow> Inr (err, s1)
        | Inr (block_buf, pr) \<Rightarrow>
            (let block_offset = block_offset_of bs off first_block block;
                 size_to_copy = size_to_copy_of bs off first_block last_block block pr (remaining_data v)
             in
             bind_res (copy_out buf (buf_prog v) block_buf block_offset size_to_copy s1) (\<lambda>s2.
             read_loop os pn buf fd ino bs off first_block last_block (block + 1)
               \<lparr>buf_prog = to_int32 (buf_prog v + size_to_copy),
                remaining_data = to_int32 (remaining_data v - size_to_copy),
                rd_res = to_size (rd_res v + size_to_copy), pread_ret = pr\<rparr> s2))))
      else Inr (to_int32 (rd_res v), s))"
  by pat_completeness auto
termination
  by (relation "measure (\<lambda>(os, pn, buf, fd, ino, bs, off, fb, lb, block, v, s). nat (lb - block))") auto

declare read_loop.simps [simp del]

text \<open>
  The whole handler. A failed \<^verbatim>\<open>fstat\<close> goes unnoticed and leaves \<^verbatim>\<open>st\<close> unset; the test \<^verbatim>\<open>size < 0\<close> on
  an unsigned number is never true; a block size of zero divides by zero.
\<close>

definition caching_read ::
  "'o os \<Rightarrow> string option \<Rightarrow> ptr \<Rightarrow> nat \<Rightarrow> int \<Rightarrow> fuse_file_info \<Rightarrow> (int \<times> fuse_file_info, 'o cfs_mem) act" where
  "caching_read os pn buf sz off fi s =
     bind_res (log_call os ''read'' s) (\<lambda>s1.
     bind_res (the_res pn NullPointer) (\<lambda>pth.
     bind_res (caching_full_path pth s1) (\<lambda>fpath.
     bind_res (refering_logfile fpath s1) (\<lambda>log.
     if log \<noteq> 0 then Inr ((- ENOENT, fi), s1)
     else
       (let fd = to_int32 (fi_fh fi); (r, s2) = with_os (os_fstat os fd) s1 in
        bind_res (case r of Inl _ \<Rightarrow> Inl Uninitialised | Inr st \<Rightarrow> Inr st) (\<lambda>st.
        let file_size = to_int32 (st_size st); block_size = to_int32 (st_blksize st) in
        if off < 0 \<or> file_size \<le> off then Inr ((0, fi), s2)
        else
          (let remaining = (if to_size file_size < to_size (int sz + off)
                            then to_int32 (to_size (to_size file_size - off)) else to_int32 (int sz))
           in
           bind_res (guard_res (block_size \<noteq> 0) DivByZero) (\<lambda>_.
           let first_block = to_int32 (off sdiv block_size) in
           bind_res (d_to_int (d_ceil (d_div_int remaining block_size))) (\<lambda>number_of_blocks.
           bind_res (chk_int (first_block + number_of_blocks)) (\<lambda>last_block.
           bind_res (read_loop os pth buf fd (to_int32 (st_ino st)) block_size off first_block last_block
                       first_block \<lparr>buf_prog = 0, remaining_data = remaining, rd_res = 0, pread_ret = 0\<rparr> s2)
             (\<lambda>(res, s3). Inr ((res, fi), s3))))))))))))"

section \<open>Loading a block\<close>

context block_cache
begin

lemma load_block_cases:
  assumes c: "inv c" "coherent disk c" and block: "0 \<le> block"
    and bytes: "fill_buf bs bytes = disk (ino, block)" "rd w = (Inr bytes, w1)"
  shows "case load_block retrieve insert rd ino bs pn block pr c w of
      Inl e \<Rightarrow> e = IntOverflow \<or> e = InvalidIterator
    | Inr (r, c', w') \<Rightarrow> inv c' \<and> coherent disk c' \<and>
        (r = Inr (disk (ino, block), pr) \<and> w' = w \<or>
         r = Inr (disk (ino, block), to_int32 (int (length bytes))) \<and> w' = w1)"
proof (cases "retrieve c (ino, block)")
  case (Inl e)
  then show ?thesis using retrieve_fault [OF c(1)] by (simp add: load_block_def)
next
  case (Inr x)
  obtain b c1 where r: "retrieve c (ino, block) = Inr (b, c1)" using Inr by (cases x) simp
  note R = retrieve_coherent [OF c r]
  show ?thesis
  proof (cases b)
    case (Some d)
    then show ?thesis using r R by (simp add: load_block_def)
  next
    case None
    then have no: "lookup c1 (ino, block) = None" using R(3) by simp
    show ?thesis
    proof (cases "insert c1 ino block (Some (disk (ino, block))) (Some pn)")
      case (Inl e)
      then show ?thesis
        using r None bytes insert_fault [OF R(1) no Inl] by (simp add: load_block_def)
    next
      case (Inr c2)
      then show ?thesis
        using r None bytes insert_coherent [OF R(1,2) block refl Inr] by (simp add: load_block_def)
    qed
  qed
qed

end

context roomy_cache
begin

lemma load_block_room:
  assumes c: "inv c" "room c (Suc k)" and block: "0 \<le> block" and rd: "rd w = (Inr bytes, w1)"
  shows "\<exists>r c' w'. load_block retrieve insert rd ino bs pn block pr c w = Inr (r, c', w') \<and> room c' k"
proof -
  obtain b c1 where r: "retrieve c (ino, block) = Inr (b, c1)"
      "if b = None then room c1 (Suc k) else room c1 k"
    using room_retrieve [OF c] by blast
  note L = retrieve_law [OF c(1) r(1)]
  show ?thesis
  proof (cases b)
    case (Some d)
    then show ?thesis using r by (simp add: load_block_def)
  next
    case None
    then have "lookup c1 (ino, block) = None" "room c1 (Suc k)" "inv c1" using L r(2) by simp_all
    then obtain c2 where "insert c1 ino block (Some (fill_buf bs bytes)) (Some pn) = Inr c2" "room c2 k"
      using room_insert block by blast
    then show ?thesis using r(1) None rd by (simp add: load_block_def)
  qed
qed

end

section \<open>The geometry of a read\<close>

text \<open>
  A read of \<open>rem\<close> bytes at \<open>off\<close> of a file \<open>f\<close> that the loop serves correctly: it starts at a block
  boundary, or stays inside one block.
\<close>

definition read_ok :: "int \<Rightarrow> 8 word list \<Rightarrow> int \<Rightarrow> int \<Rightarrow> int \<Rightarrow> int \<Rightarrow> bool" where
  "read_ok bs f off rm fb lb \<longleftrightarrow> 0 < bs \<and> bs \<le> INT_MAX \<and> 0 \<le> off \<and> 0 < rm \<and>
     off + rm \<le> int (length f) \<and> int (length f) \<le> INT_MAX \<and> fb = off div bs \<and>
     (lb - fb - 1) * bs < rm \<and> rm \<le> (lb - fb) * bs \<and> (off mod bs = 0 \<or> off mod bs + rm \<le> bs)"

lemma int_nonneg_range: "0 \<le> x \<Longrightarrow> x \<le> INT_MAX \<Longrightarrow> in_int x"
  by (simp add: int_defs)

lemma smod_mod: "0 \<le> a \<Longrightarrow> 0 < b \<Longrightarrow> (a :: int) smod b = a mod b"
  by (simp add: signed_modulo_int_def sgn_if)

lemma sdiv_div: "0 \<le> a \<Longrightarrow> 0 < b \<Longrightarrow> (a :: int) sdiv b = a div b"
  by (simp add: signed_divide_int_def sgn_if)

lemma div_mult_le: "0 < b \<Longrightarrow> a div b * b \<le> (a :: int)"
  using div_mult_mod_eq [of a b] pos_mod_sign [of b a] by linarith

lemma block_offset_of_mod:
  assumes "0 \<le> off" "0 < bs" "bs \<le> INT_MAX"
  shows "block_offset_of bs off fb block = (if block = fb then off mod bs else 0)"
proof -
  have "0 \<le> off mod bs" "off mod bs < bs" using assms by simp_all
  then have "in_int (off mod bs)" using assms(3) by (intro int_nonneg_range) linarith+
  then show ?thesis using assms by (simp add: block_offset_of_def smod_mod)
qed

lemma read_ok_block:
  assumes ok: "read_ok bs f off rm fb lb" and b: "fb \<le> block" "block < lb"
  defines "c \<equiv> (block - fb) * bs" and "d \<equiv> block_offset_of bs off fb block"
  shows "0 \<le> c" "c < rm" "0 \<le> block * bs" "block * bs \<le> INT_MAX" "0 \<le> block" "0 \<le> d" "block * bs + d = off + c"
    "block = lb - 1 \<Longrightarrow> d + (rm - c) \<le> bs"
    "block \<noteq> lb - 1 \<Longrightarrow> d = 0 \<and> c + bs < rm"
proof -
  have bs: "0 < bs" "bs \<le> INT_MAX" "0 \<le> off" and fb: "fb = off div bs"
    and lo: "(lb - fb - 1) * bs < rm" and hi: "rm \<le> (lb - fb) * bs"
    and al: "off mod bs = 0 \<or> off mod bs + rm \<le> bs"
    and len: "off + rm \<le> int (length f)" "int (length f) \<le> INT_MAX"
    using ok unfolding read_ok_def by blast+
  have d: "d = (if block = fb then off mod bs else 0)" using block_offset_of_mod bs by (simp add: d_def)
  have fbs: "fb * bs + off mod bs = off" using fb by simp
  have fb0: "0 \<le> fb" using fb bs by (simp add: pos_imp_zdiv_nonneg_iff)
  show c0: "0 \<le> c" using b(1) bs(1) by (simp add: c_def)
  have "c \<le> (lb - fb - 1) * bs" using b bs(1) by (auto simp: c_def intro!: mult_right_mono)
  then show cr: "c < rm" using lo by linarith
  have one: "off mod bs = 0 \<or> block = fb"
  proof (rule disjCI)
    assume "block \<noteq> fb"
    then have "1 * bs \<le> (lb - fb - 1) * bs" using b bs(1) by (intro mult_right_mono) auto
    then show "off mod bs = 0" using al lo pos_mod_sign [OF bs(1), of off] by auto
  qed
  have m0: "0 \<le> off mod bs" using bs(1) by simp
  show d0: "0 \<le> d" using d m0 by simp
  have bb: "block * bs = fb * bs + c" by (simp add: c_def algebra_simps)
  then show e: "block * bs + d = off + c" using fbs one d by (auto simp: c_def)
  show "0 \<le> block * bs" using fb0 b(1) bs(1) by simp
  show "0 \<le> block" using fb0 b(1) by simp
  show "block * bs \<le> INT_MAX" using e d0 cr len by linarith
  show "d + (rm - c) \<le> bs" if "block = lb - 1"
  proof (cases "off mod bs = 0")
    case True
    then have "d = 0" using d by simp
    moreover have "(lb - fb) * bs = c + bs" using arg_cong [OF that, of "\<lambda>x. (x - fb) * bs"] by (simp add: c_def algebra_simps)
    then have "rm \<le> c + bs" using hi by simp
    ultimately show ?thesis by simp
  next
    case False
    then show ?thesis using al one d by (simp add: c_def)
  qed
  show "d = 0 \<and> c + bs < rm" if "block \<noteq> lb - 1"
  proof -
    have "c + bs = (block - fb + 1) * bs" by (simp add: c_def algebra_simps)
    also have "\<dots> \<le> (lb - fb - 1) * bs" using b that bs(1) by (intro mult_right_mono) auto
    finally have "c + bs < rm" using lo by linarith
    moreover from this c0 have "off mod bs = 0" using al m0 by auto
    ultimately show ?thesis using d by simp
  qed
qed

section \<open>The loop\<close>

definition disk_block :: "int \<Rightarrow> 8 word list \<Rightarrow> int \<Rightarrow> buffer" where
  "disk_block bs f k = fill_buf bs (take (nat bs) (drop (nat (k * bs)) f))"

text \<open>
  The documented behaviour of the system calls on an open regular file with contents \<open>f\<close>, as long
  as the world satisfies \<open>P\<close>: \<^verbatim>\<open>fstat\<close> gives its attributes, \<^verbatim>\<open>pread\<close> the bytes from an offset up to
  the end of the file, and neither, nor reading the clock, changes the file.
\<close>

definition os_file :: "'o os \<Rightarrow> ('o \<Rightarrow> bool) \<Rightarrow> int \<Rightarrow> stat \<Rightarrow> 8 word list \<Rightarrow> bool" where
  "os_file os P fd st f \<longleftrightarrow> st_size st = int (length f) \<and>
     (\<forall>w. P w \<longrightarrow> P (snd (os_time os w))) \<and>
     (\<forall>w. P w \<longrightarrow> fst (os_fstat os fd w) = Inr st \<and> P (snd (os_fstat os fd w))) \<and>
     (\<forall>w n off. P w \<and> 0 \<le> n \<and> 0 \<le> off \<longrightarrow>
        fst (os_pread os fd n off w) = Inr (take (nat n) (drop (nat off) f)) \<and>
        P (snd (os_pread os fd n off w)))"

lemma os_file_pread:
  assumes "os_file os P fd st f" "P w" "0 \<le> n" "0 \<le> off"
  obtains w' where "os_pread os fd n off w = (Inr (take (nat n) (drop (nat off) f)), w')" "P w'"
proof -
  have "fst (os_pread os fd n off w) = Inr (take (nat n) (drop (nat off) f))" "P (snd (os_pread os fd n off w))"
    using assms unfolding os_file_def by blast+
  then show ?thesis using that [of "snd (os_pread os fd n off w)"] by (metis prod.collapse)
qed

lemma disk_block_part:
  assumes "0 \<le> k * bs" "0 \<le> d" "0 \<le> z" "d + z \<le> bs" "k * bs + d + z \<le> int (length f)"
  shows "take (nat z) (drop (nat d) (disk_block bs f k)) = map Some (take (nat z) (drop (nat (k * bs + d)) f))"
proof -
  let ?N = "nat (k * bs)"
  let ?b = "take (nat bs) (drop ?N f)"
  have n: "nat (k * bs + d) = nat d + ?N" using assms by simp
  have "nat d + nat z \<le> nat bs" "nat d + nat z \<le> length f - ?N" using assms by linarith+
  then have len: "nat d + nat z \<le> length ?b" by simp
  have "take (nat z) (drop (nat d) (disk_block bs f k)) = map Some (take (nat z) (drop (nat d) ?b))"
    using len by (simp add: disk_block_def fill_buf_def take_map drop_map)
  also have "take (nat z) (drop (nat d) ?b) = take (nat z) (drop (nat d + ?N) f)"
    using \<open>nat d + nat z \<le> nat bs\<close> by (simp add: drop_take min_def)
  finally show ?thesis by (simp add: n)
qed

lemma length_disk_block: "length (disk_block bs f k) = nat bs"
  by (simp add: disk_block_def fill_buf_def)

lemma size_to_copy_block:
  assumes ok: "read_ok bs f off rm fb lb" and b: "fb \<le> block" "block < lb" and c: "c = (block - fb) * bs"
    and pr: "block = fb \<longrightarrow> pr = 0 \<or> pr = to_int32 (int (length (take (nat bs) (drop (nat (block * bs)) f))))"
  shows "size_to_copy_of bs off fb lb block pr (rm - c) = (if block = lb - 1 then rm - c else bs)"
proof (cases "block \<noteq> lb - 1 \<and> block = fb")
  case True
  note B = read_ok_block [OF ok b]
  have d: "block_offset_of bs off fb block = 0" and cb: "c + bs < rm" using B(9) True c by simp_all
  have bs: "0 < bs" "bs \<le> INT_MAX" "off + rm \<le> int (length f)" using ok by (simp_all add: read_ok_def)
  have "block * bs + bs \<le> int (length f)" using B(7) d cb bs(3) c by linarith
  then have "length (take (nat bs) (drop (nat (block * bs)) f)) = nat bs" using B(3) bs(1) by simp
  then have "pr = 0 \<or> pr = bs" using pr True bs by (simp add: int_defs)
  then show ?thesis using True d bs by (auto simp: size_to_copy_of_def)
qed (auto simp: size_to_copy_of_def)

lemma copy_out_block:
  assumes h: "mheap s a = Some obj" and bnd: "0 \<le> c" "0 \<le> z" "0 \<le> d" "boff + nat c + nat z \<le> length obj"
    and src: "d + z \<le> int (length bb)"
  shows "copy_out (a, boff) c bb d z s =
    Inr (s\<lparr>mheap := (mheap s)(a \<mapsto> splice_bytes (boff + nat c) (take (nat z) (drop (nat d) bb)) obj)\<rparr>)"
proof -
  have len: "length (take (nat z) (drop (nat d) bb)) = nat z" using src bnd by simp
  have "nat (int boff + c) = boff + nat c" using bnd by simp
  then show ?thesis using h bnd src len by (simp add: copy_out_def mem_write_Inr)
qed

text \<open>Every cached block agrees with the disk.\<close>

definition cache_coherent :: "(BlockID \<Rightarrow> buffer) \<Rightarrow> CacheManager \<Rightarrow> bool" where
  "cache_coherent disk cm \<longleftrightarrow> (\<forall>i d. cm_lookup cm i = Some d \<longrightarrow> d = disk i)"

lemma coherent_eq: "fbr.coherent = cache_coherent"
  by (intro ext) (simp only: fbr.coherent_def cache_coherent_def)

definition load_state :: "CacheManager \<Rightarrow> 'o \<Rightarrow> 'o cfs \<Rightarrow> 'o cfs" where
  "load_state cm w s = s\<lparr>world := (world s)\<lparr>cacheManager := cm, os_state := w\<rparr>\<rparr>"

lemma load_state_simps [simp]:
  "mheap (load_state cm w s) = mheap s" "mfree (load_state cm w s) = mfree s"
  "mnext (load_state cm w s) = mnext s" "cacheManager (world (load_state cm w s)) = cm"
  "os_state (world (load_state cm w s)) = w"
  "load_state cm w (load_state cm' w' s) = load_state cm w s"
  "load_state cm w (s\<lparr>mheap := h\<rparr>) = (load_state cm w s)\<lparr>mheap := h\<rparr>"
  by (simp_all add: load_state_def)

text \<open>One round of the loop on a good read: a fault of the cache, or the next part of the file in
  the caller's buffer and a cache that is still coherent.\<close>

lemma read_loop_round:
  fixes s :: "'o cfs" and pn :: string
  assumes ok: "read_ok bs f off rm fb lb" and b: "fb \<le> block" "block < lb" and c: "c = (block - fb) * bs"
    and os: "os_file os P fd st f" "P (os_state (world s))"
    and cm: "cache_ok n p (cacheManager (world s))" "cache_coherent disk (cacheManager (world s))"
    and disk: "\<And>k. 0 \<le> k \<Longrightarrow> disk (ino, k) = disk_block bs f k"
    and h: "mheap s a = Some obj" "boff + nat rm \<le> length obj"
    and pr: "block = fb \<longrightarrow> pr = 0"
  defines "z \<equiv> (if block = lb - 1 then rm - c else bs)"
  defines "R \<equiv> \<lambda>blk v s'. read_loop os pn (a, boff) fd ino bs off fb lb blk v s'"
  defines "v \<equiv> \<lambda>c pr. \<lparr>buf_prog = c, remaining_data = rm - c, rd_res = c, pread_ret = pr\<rparr>"
  shows "(\<exists>e. R block (v c pr) s = Inl e \<and> (e = IntOverflow \<or> e = InvalidIterator) \<and>
           \<not> has_room p (cacheManager (world s)) (nat (lb - block))) \<or>
    (\<exists>cm' w' pr'. cache_ok n p cm' \<and> cache_coherent disk cm' \<and> P w' \<and>
       (has_room p (cacheManager (world s)) (nat (lb - block)) \<longrightarrow> has_room p cm' (nat (lb - (block + 1)))) \<and>
       R block (v c pr) s = R (block + 1) (v (c + z) pr') ((load_state cm' w' s)\<lparr>mheap := (mheap s)(a \<mapsto>
           splice_bytes (boff + nat c) (map Some (take (nat z) (drop (nat (off + c)) f))) obj)\<rparr>))"
proof -
  note B = read_ok_block [OF ok b, folded c]
  let ?cm = "cacheManager (world s)" and ?w = "os_state (world s)"
  let ?bytes = "take (nat bs) (drop (nat (block * bs)) f)" and ?d = "block_offset_of bs off fb block"
  let ?lb = "load_block retrieveBuffer insertBlock (os_pread os fd bs (block * bs)) ino bs pn block pr ?cm ?w"
  have bs: "0 < bs" "off + rm \<le> int (length f)" "int (length f) \<le> INT_MAX" "0 \<le> off"
    using ok by (simp_all add: read_ok_def)
  obtain w1 where rd: "os_pread os fd bs (block * bs) ?w = (Inr ?bytes, w1)" "P w1"
    using os_file_pread [OF os, of bs "block * bs"] bs(1) B(3) by (metis less_imp_le)
  have chk: "chk_int (block * bs) = Inr (block * bs)" using B(3,4) by (simp add: int_nonneg_range)
  have dk: "fill_buf bs ?bytes = disk (ino, block)" using disk [OF B(5)] by (simp add: disk_block_def)
  have L: "case ?lb of Inl e \<Rightarrow> e = IntOverflow \<or> e = InvalidIterator
    | Inr (r, c', w') \<Rightarrow> cache_ok n p c' \<and> cache_coherent disk c' \<and>
        (r = Inr (disk (ino, block), pr) \<and> w' = ?w \<or>
         r = Inr (disk (ino, block), to_int32 (int (length ?bytes))) \<and> w' = w1)"
    unfolding coherent_eq [symmetric]
    by (rule fbr.load_block_cases) (use cm B(5) dk rd(1) in \<open>simp_all add: coherent_eq\<close>)
  have room: "\<exists>r cm' w'. ?lb = Inr (r, cm', w') \<and> has_room p cm' (nat (lb - (block + 1)))"
    if "has_room p ?cm (nat (lb - block))"
  proof -
    have "nat (lb - block) = Suc (nat (lb - (block + 1)))" using b(2) by simp
    then show ?thesis using fbr_room.load_block_room [OF cm(1) _ B(5), where k = "nat (lb - (block + 1))"] that rd(1)
      by simp
  qed
  show ?thesis
  proof (cases ?lb)
    case (Inl e)
    then have "R block (v c pr) s = Inl e" using b(2) chk by (simp add: R_def v_def read_loop.simps)
    moreover have "e = IntOverflow \<or> e = InvalidIterator" using L Inl by simp
    moreover have "\<not> has_room p ?cm (nat (lb - block))" using room Inl by auto
    ultimately show ?thesis by blast
  next
    case (Inr x)
    obtain r cm' w' where lb: "?lb = Inr (r, cm', w')" using Inr by (cases x) auto
    have C: "cache_ok n p cm'" "cache_coherent disk cm'"
      "r = Inr (disk_block bs f block, pr) \<and> w' = ?w \<or>
       r = Inr (disk_block bs f block, to_int32 (int (length ?bytes))) \<and> w' = w1"
      using L lb disk [OF B(5)] by simp_all
    then obtain pr' where r: "r = Inr (disk_block bs f block, pr')" "P w'"
      and pr': "block = fb \<longrightarrow> pr' = 0 \<or> pr' = to_int32 (int (length ?bytes))"
      using pr rd(2) os(2) by auto
    have z: "size_to_copy_of bs off fb lb block pr' (rm - c) = z"
      unfolding z_def by (rule size_to_copy_block [OF ok b c pr'])
    have zb: "0 \<le> z" "?d + z \<le> bs" "c + z \<le> rm" using B(1,2,8,9) bs(1) by (auto simp: z_def)
    have fit: "boff + nat c + nat z \<le> length obj" using h(2) zb B(1) by linarith
    have part: "take (nat z) (drop (nat ?d) (disk_block bs f block)) = map Some (take (nat z) (drop (nat (off + c)) f))"
      using disk_block_part [OF B(3,6) zb(1,2)] B(7) zb(3) bs(2) by simp
    have cp: "copy_out (a, boff) c (disk_block bs f block) ?d z (load_state cm' w' s) =
        Inr ((load_state cm' w' s)\<lparr>mheap := (mheap s)(a \<mapsto>
           splice_bytes (boff + nat c) (map Some (take (nat z) (drop (nat (off + c)) f))) obj)\<rparr>)"
      using copy_out_block [of "load_state cm' w' s" a obj c z ?d boff "disk_block bs f block"] h(1) B(1,6) zb fit
      by (simp add: part length_disk_block)
    have rng: "in_int (c + z)" "in_int (rm - (c + z))" "to_size (c + z) = c + z"
      using B(1) zb(1,3) bs by (auto simp: int_defs to_size_def SIZE_MOD_def)
    have "R block (v c pr) s = R (block + 1) (v (c + z) pr') ((load_state cm' w' s)\<lparr>mheap := (mheap s)(a \<mapsto>
           splice_bytes (boff + nat c) (map Some (take (nat z) (drop (nat (off + c)) f))) obj)\<rparr>)"
      unfolding R_def v_def
      by (subst read_loop.simps)
        (simp add: b(2) chk lb r(1) z Let_def load_state_def [symmetric] cp rng diff_diff_eq)
    moreover have "has_room p ?cm (nat (lb - block)) \<longrightarrow> has_room p cm' (nat (lb - (block + 1)))"
      using room lb by auto
    ultimately show ?thesis
      by (intro disjI2 exI [of _ cm'] exI [of _ w'] exI [of _ pr'] conjI C(1,2) r(2))
  qed
qed

text \<open>The whole loop: it faults only where the cache does, and otherwise returns the number of
  bytes and leaves exactly the bytes of the file in the caller's buffer.\<close>

lemma read_loop_correct:
  fixes s :: "'o cfs" and pn :: string
  assumes ok: "read_ok bs f off rm fb lb" and os: "os_file os P fd st f" "P (os_state (world s))"
    and cm: "cache_ok n p (cacheManager (world s))" "cache_coherent disk (cacheManager (world s))"
    and disk: "\<And>k. 0 \<le> k \<Longrightarrow> disk (ino, k) = disk_block bs f k"
    and h: "mheap s a = Some obj" "boff + nat rm \<le> length obj"
    and b: "fb \<le> block" "block \<le> lb" and c: "c = (if block < lb then (block - fb) * bs else rm)"
    and pr: "block = fb \<longrightarrow> pr = 0"
  defines "v \<equiv> \<lparr>buf_prog = c, remaining_data = rm - c, rd_res = c, pread_ret = pr\<rparr>"
  shows "case read_loop os pn (a, boff) fd ino bs off fb lb block v s of
      Inl e \<Rightarrow> (e = IntOverflow \<or> e = InvalidIterator) \<and>
               \<not> has_room p (cacheManager (world s)) (nat (lb - block))
    | Inr (r, s') \<Rightarrow> r = rm \<and> (\<exists>cm' w'. cache_ok n p cm' \<and> cache_coherent disk cm' \<and> P w' \<and>
        s' = (load_state cm' w' s)\<lparr>mheap := (mheap s)(a \<mapsto>
           splice_bytes (boff + nat c) (map Some (take (nat (rm - c)) (drop (nat (off + c)) f))) obj)\<rparr>)"
  using os(2) cm h b c pr unfolding v_def
proof (induction "nat (lb - block)" arbitrary: block c pr s obj)
  case 0
  then have "block = lb" "c = rm" by auto
  moreover have "in_int rm" "to_size rm = rm"
    using ok by (auto simp: read_ok_def int_defs to_size_def SIZE_MOD_def)
  moreover have "s = (load_state (cacheManager (world s)) (os_state (world s)) s)\<lparr>mheap := (mheap s)(a \<mapsto> obj)\<rparr>"
    using 0 by (simp add: load_state_def map_upd_triv)
  ultimately show ?case using 0 by (auto simp: read_loop.simps)
next
  case (Suc x)
  have lt: "block < lb" using Suc.hyps(2) by linarith
  then have c: "c = (block - fb) * bs" using Suc.prems by simp
  define z where "z = (if block = lb - 1 then rm - c else bs)"
  define c' where "c' = c + z"
  have bs: "0 < bs" using ok by (simp add: read_ok_def)
  have c': "c' = (if block + 1 < lb then (block + 1 - fb) * bs else rm)"
    using lt c by (auto simp: c'_def z_def algebra_simps)
  note B = read_ok_block [OF ok Suc.prems(6) lt, folded c]
  have z0: "0 \<le> z" "c' \<le> rm" using B(1,2,9) bs by (auto simp: z_def c'_def)
  define bytes where "bytes = map Some (take (nat z) (drop (nat (off + c)) f))"
  have len: "length bytes = nat z" using ok z0 B(1) by (auto simp: bytes_def read_ok_def c'_def)
  let ?R = "\<lambda>block c pr s. read_loop os pn (a, boff) fd ino bs off fb lb block
    \<lparr>buf_prog = c, remaining_data = rm - c, rd_res = c, pread_ret = pr\<rparr> s"
  consider (fault) e where "?R block c pr s = Inl e" "e = IntOverflow \<or> e = InvalidIterator"
      "\<not> has_room p (cacheManager (world s)) (nat (lb - block))"
    | (round) cm' w' pr' where "cache_ok n p cm'" "cache_coherent disk cm'" "P w'"
      "has_room p (cacheManager (world s)) (nat (lb - block)) \<longrightarrow> has_room p cm' (nat (lb - (block + 1)))"
      "?R block c pr s = ?R (block + 1) c' pr'
          ((load_state cm' w' s)\<lparr>mheap := (mheap s)(a \<mapsto> splice_bytes (boff + nat c) bytes obj)\<rparr>)"
    using read_loop_round [OF ok Suc.prems(6) lt c os(1) Suc.prems(1-3) disk Suc.prems(4,5,9), where pn = pn]
    unfolding c'_def bytes_def z_def by blast
  then show ?case
  proof cases
    case fault
    then show ?thesis by simp
  next
    case (round cm' w' pr')
    note N = round(1-4) and eq = round(5)
    let ?s = "(load_state cm' w' s)\<lparr>mheap := (mheap s)(a \<mapsto> splice_bytes (boff + nat c) bytes obj)\<rparr>"
    have fit: "boff + nat c + length bytes \<le> length obj"
      using Suc.prems(5) len z0 B(1) by (simp add: c'_def)
    have IH: "case read_loop os pn (a, boff) fd ino bs off fb lb (block + 1)
          \<lparr>buf_prog = c', remaining_data = rm - c', rd_res = c', pread_ret = pr'\<rparr> ?s of
      Inl e \<Rightarrow> (e = IntOverflow \<or> e = InvalidIterator) \<and> \<not> has_room p (cacheManager (world ?s)) (nat (lb - (block + 1)))
    | Inr (r, s') \<Rightarrow> r = rm \<and> (\<exists>cm'' w''. cache_ok n p cm'' \<and> cache_coherent disk cm'' \<and> P w'' \<and>
        s' = (load_state cm'' w'' ?s)\<lparr>mheap := (mheap ?s)(a \<mapsto>
           splice_bytes (boff + nat c') (map Some (take (nat (rm - c')) (drop (nat (off + c')) f)))
             (splice_bytes (boff + nat c) bytes obj))\<rparr>)"
      using Suc.hyps(2) N fit Suc.prems(5,6) lt c' by (intro Suc.hyps(1)) auto
    have n: "nat c' = nat c + nat z" "nat (rm - c) = nat z + nat (rm - c')" "nat (off + c') = nat z + nat (off + c)"
      using z0 B(1) ok by (auto simp: c'_def read_ok_def nat_add_distrib simp flip: nat_add_distrib)
    have "splice_bytes (boff + nat c') (map Some (take (nat (rm - c')) (drop (nat (off + c')) f)))
        (splice_bytes (boff + nat c) bytes obj) =
      splice_bytes (boff + nat c) (map Some (take (nat (rm - c)) (drop (nat (off + c)) f))) obj"
      using splice_bytes_append [OF fit] unfolding n len
      by (simp add: add.assoc bytes_def take_add flip: map_append)
    then show ?thesis using IH N(4) unfolding eq by (auto split: sum.splits)
  qed
qed

section \<open>The handler\<close>

lemma number_of_blocks_exact:
  assumes "0 \<le> a" "a \<le> INT_MAX" "0 < b" "b \<le> INT_MAX"
  shows "d_to_int (d_ceil (d_div_int a b)) = Inr ((a + b - 1) div b)"
proof -
  define q where "q = (of_int a / of_int b :: rat)"
  define r where "r = rnd q"
  have cr: "\<lceil>r\<rceil> = \<lceil>q\<rceil>" unfolding r_def q_def by (rule ceiling_rnd_quotient [OF assms])
  have "0 \<le> q" using assms by (simp add: q_def)
  have "of_int a * 1 \<le> (of_int a * of_int b :: rat)" using assms by (intro mult_left_mono) simp_all
  then have "q \<le> of_int a" using assms(3) by (simp add: q_def divide_le_eq)
  then have c: "0 \<le> \<lceil>r\<rceil>" "\<lceil>r\<rceil> \<le> INT_MAX"
    unfolding cr using \<open>0 \<le> q\<close> assms(2) by (simp_all add: ceiling_le_iff)
  have "r \<le> of_int \<lceil>r\<rceil>" "of_int \<lceil>r\<rceil> - 1 < r" by linarith+
  moreover have "(of_int \<lceil>r\<rceil> :: rat) \<le> of_int INT_MAX" "0 \<le> (of_int \<lceil>r\<rceil> :: rat)"
    using c by (simp_all only: of_int_le_iff of_int_0_le_iff)
  ultimately have "\<bar>r\<bar> \<le> of_int INT_MAX" by (simp add: abs_le_iff INT_MAX_def)
  moreover have "(of_int INT_MAX :: rat) \<le> 2 ^ 60" by (simp add: INT_MAX_def)
  ultimately have "to_double q = Fin r"
    using to_double_Fin [of q] small_below_max [of r] unfolding r_def by (meson order_trans)
  moreover have "\<lceil>q\<rceil> = (a + b - 1) div b" unfolding q_def by (rule ceiling_quotient [OF assms(3)])
  ultimately show ?thesis
    using assms(3) c cr by (simp add: d_div_int_def int_nonneg_range flip: q_def)
qed

definition blocks_for :: "int \<Rightarrow> int \<Rightarrow> int" where
  "blocks_for bs rm = (rm + bs - 1) div bs"

lemma blocks_for_bounds:
  assumes "0 < bs"
  shows "(blocks_for bs rm - 1) * bs < rm" "rm \<le> blocks_for bs rm * bs"
proof -
  have "(rm + bs - 1) div bs * bs + (rm + bs - 1) mod bs = rm + bs - 1" by simp
  moreover have "0 \<le> (rm + bs - 1) mod bs" "(rm + bs - 1) mod bs < bs" using assms by simp_all
  ultimately show "(blocks_for bs rm - 1) * bs < rm" "rm \<le> blocks_for bs rm * bs"
    unfolding blocks_for_def left_diff_distrib by linarith+
qed

text \<open>What the handler needs to know of its surroundings: the path is not the log file's, and the
  descriptor is that of a file \<open>f\<close> whose size fits into an \<^verbatim>\<open>int\<close>.\<close>

definition read_env ::
  "'o os \<Rightarrow> ('o \<Rightarrow> bool) \<Rightarrow> cfs_state \<Rightarrow> string \<Rightarrow> fuse_file_info \<Rightarrow> stat \<Rightarrow> 8 word list \<Rightarrow> 'o cfs \<Rightarrow> bool" where
  "read_env os P c pth fi st f s \<longleftrightarrow> cfs_ready c pth s \<and> rootdir c @ pth \<noteq> logfile_full_path c \<and>
     os_file os P (to_int32 (fi_fh fi)) st f \<and> P (os_state (world s)) \<and>
     0 < st_blksize st \<and> st_blksize st \<le> INT_MAX \<and> int (length f) \<le> INT_MAX"

abbreviation stat_state :: "'o os \<Rightarrow> fuse_file_info \<Rightarrow> 'o cfs \<Rightarrow> 'o cfs" where
  "stat_state os fi s \<equiv> snd (with_os (os_fstat os (to_int32 (fi_fh fi))) (logged os ''read'' s))"

lemma stat_state_facts:
  assumes "read_env os P c pth fi st f s"
  shows "P (os_state (world (stat_state os fi s)))"
    "with_os (os_fstat os (to_int32 (fi_fh fi))) (logged os ''read'' s) = (Inr st, stat_state os fi s)"
    "cacheManager (world (stat_state os fi s)) = cacheManager (world s)" "mheap (stat_state os fi s) = mheap s"
    "mfree (stat_state os fi s) = mfree s" "mnext (stat_state os fi s) = mnext s"
proof -
  have f: "os_file os P (to_int32 (fi_fh fi)) st f" "P (os_state (world s))"
    using assms by (simp_all add: read_env_def)
  then have t: "P (os_state (world (logged os ''read'' s)))"
    by (simp add: os_file_def cfs_simps)
  then show "P (os_state (world (stat_state os fi s)))"
    using f(1) by (simp add: os_file_def cfs_simps)
  show "with_os (os_fstat os (to_int32 (fi_fh fi))) (logged os ''read'' s) = (Inr st, stat_state os fi s)"
    using f(1) t by (subst with_os_split) (simp add: os_file_def)
qed (simp_all add: cfs_simps)

lemma caching_read_loop:
  assumes env: "read_env os P c pth fi st f s" and off: "0 \<le> off" "off < int (length f)"
    and sz: "int sz \<le> INT_MAX"
  defines "bs \<equiv> st_blksize st" and "rm \<equiv> min (int sz) (int (length f) - off)"
  shows "caching_read os (Some pth) buf sz off fi s =
    bind_res (read_loop os pth buf (to_int32 (fi_fh fi)) (to_int32 (st_ino st)) bs off (off div bs)
        (off div bs + blocks_for bs rm) (off div bs)
        \<lparr>buf_prog = 0, remaining_data = rm, rd_res = 0, pread_ret = 0\<rparr> (stat_state os fi s))
      (\<lambda>(res, s3). Inr ((res, fi), s3))"
proof -
  have e: "cfs_ready c pth s" "rootdir c @ pth \<noteq> logfile_full_path c" and len: "int (length f) \<le> INT_MAX"
    and bs: "0 < bs" "bs \<le> INT_MAX" and size: "st_size st = int (length f)"
    using env by (simp_all add: read_env_def os_file_def bs_def)
  have rm: "0 \<le> rm" "rm \<le> INT_MAX" "off + rm \<le> int (length f)" using off sz by (auto simp: rm_def)
  let ?fb = "off div bs" and ?nb = "blocks_for bs rm"
  have fb: "0 \<le> ?fb" "?fb \<le> off" "?fb * bs \<le> off"
  proof -
    show f0: "0 \<le> ?fb" using off bs by (simp add: pos_imp_zdiv_nonneg_iff)
    show fm: "?fb * bs \<le> off" using bs(1) by (rule div_mult_le)
    have "?fb * 1 \<le> ?fb * bs" using f0 bs by (intro mult_left_mono) auto
    then show "?fb \<le> off" using fm by linarith
  qed
  have nb: "0 \<le> ?nb" using rm bs by (simp add: blocks_for_def pos_imp_zdiv_nonneg_iff)
  have last: "?fb + ?nb \<le> INT_MAX"
  proof (cases "?nb = 0")
    case False
    then have "(?fb + ?nb - 1) * 1 \<le> (?fb + ?nb - 1) * bs" using fb nb bs by (intro mult_left_mono) auto
    also have "\<dots> < off + rm" using fb(3) blocks_for_bounds(1) [OF bs(1), of rm] by (simp add: algebra_simps)
    finally have "?fb + ?nb - 1 < off + rm" by (simp only: mult_1_right)
    moreover have "x \<le> z" if "x - 1 < y" "y \<le> z" for x y z :: int using that by linarith
    ultimately show ?thesis using order_trans [OF rm(3) len] by blast
  qed (use fb(2) off len in simp)
  have ints: "in_int (int (length f))" "in_int bs" "in_int ?fb" "in_int (?fb + ?nb)" "in_int (int sz)" "in_int (int (length f) - off)"
    using len bs fb nb last off sz by (auto intro!: int_nonneg_range)
  have sizes: "to_size (int (length f)) = int (length f)" "to_size (int sz + off) = int sz + off"
      "to_size (int (length f) - off) = int (length f) - off"
    using len off sz by (simp_all add: to_size_def SIZE_MOD_def INT_MAX_def)
  have rem: "rm = (if int (length f) < int sz + off then int (length f) - off else int sz)"
    by (auto simp: rm_def)
  have nbe: "d_to_int (d_ceil (d_div_int rm bs)) = Inr ?nb"
    using number_of_blocks_exact [OF rm(1,2) bs] by (simp add: blocks_for_def)
  define s2 where "s2 = stat_state os fi s"
  have st: "with_os (os_fstat os (to_int32 (fi_fh fi))) (logged os ''read'' s) = (Inr st, s2)"
    unfolding s2_def by (rule stat_state_facts(2) [OF env])
  have start: "log_call os ''read'' s = Inr (logged os ''read'' s)"
    "caching_full_path pth (logged os ''read'' s) = Inr (rootdir c @ pth)"
    "refering_logfile (rootdir c @ pth) (logged os ''read'' s) = Inr 0"
    using e by (simp_all add: cfs_simps)
  show ?thesis
    unfolding s2_def [symmetric] using off ints nbe bs
    by (cases "int (length f) < int sz + off")
      (simp_all add: caching_read_def start st Let_def size sizes rem sdiv_div flip: bs_def)
qed

end
