(* ===== verification/CFS_Main.thy ===== *)
theory CFS_Main
  imports Caching_Read
begin

text \<open>
  The table of operations and \<^verbatim>\<open>main\<close> of \<^verbatim>\<open>CachingFileSystem.cpp\<close>. The conversions \<^verbatim>\<open>stoi\<close> and
  \<^verbatim>\<open>stod\<close> are parameters, \<^const>\<open>None\<close> when they throw; so is \<^verbatim>\<open>fuse_main\<close>, which runs the file
  system until it is unmounted.
\<close>

unbundle bit_operations_syntax

section \<open>The operations\<close>

definition init_caching_oper :: "'o os \<Rightarrow> 'o cfs_mem fuse_operations" where
  "init_caching_oper os = no_operations
     \<lparr>op_getattr := Some (caching_getattr os),
      op_access := Some (caching_access os),
      op_open := Some (caching_open os),
      op_read := Some (caching_read os),
      op_flush := Some (caching_flush os),
      op_release := Some (caching_release os),
      op_opendir := Some (caching_opendir os),
      op_readdir := Some (caching_readdir os),
      op_releasedir := Some (caching_releasedir os),
      op_rename := Some (caching_rename os),
      op_init := Some (caching_init os),
      op_destroy := Some (caching_destroy os),
      op_ioctl := Some (caching_ioctl os),
      op_fgetattr := Some (caching_fgetattr os)\<rparr>"

section \<open>The program\<close>

definition S_ISDIR :: "int \<Rightarrow> bool" where
  "S_ISDIR m \<longleftrightarrow> m AND 0xF000 = 0x4000"

definition ARGS_NUM :: nat where "ARGS_NUM = 6"

text \<open>The test of the two directories: \<^verbatim>\<open>stat\<close> of a null pointer fails.\<close>

definition dirs_valid :: "'o os \<Rightarrow> string option \<Rightarrow> string option \<Rightarrow> 'o cfs \<Rightarrow> bool \<times> 'o cfs" where
  "dirs_valid os rootDir mountDir s =
     (case rootDir of
        None \<Rightarrow> (False, s)
      | Some rd \<Rightarrow>
          (case with_os (os_stat os rd) s of
             (Inl _, s1) \<Rightarrow> (False, s1)
           | (Inr st_root, s1) \<Rightarrow>
               (case mountDir of
                  None \<Rightarrow> (False, s1)
                | Some md \<Rightarrow>
                    (case with_os (os_stat os md) s1 of
                       (Inl _, s2) \<Rightarrow> (False, s2)
                     | (Inr st_mount, s2) \<Rightarrow> (S_ISDIR (st_mode st_root) \<and> S_ISDIR (st_mode st_mount), s2)))))"

text \<open>The condition under which the numeric arguments are rejected.\<close>

definition numbers_rejected :: "int \<Rightarrow> double \<Rightarrow> double \<Rightarrow> bool" where
  "numbers_rejected nBlocks fOld fNew \<longleftrightarrow>
     d_less (d_floor (d_mul fOld (d_of_int nBlocks))) (Fin 1) \<or> d_ge fOld (Fin 1) \<or>
     d_less (d_floor (d_mul fNew (d_of_int nBlocks))) (Fin 1) \<or> d_ge fNew (Fin 1) \<or>
     d_less (Fin 1) (d_add fOld fNew) \<or> nBlocks \<le> 0"

text \<open>The address of the local variable \<^verbatim>\<open>cfs_st\<close>, which \<^verbatim>\<open>fuse_main\<close> gets as user data.\<close>

definition cfs_addr :: nat where "cfs_addr = 1"

text \<open>The path of the log file, built in an array of \<^const>\<open>PATH_MAX\<close> bytes.\<close>

definition log_path :: "string \<Rightarrow> string res" where
  "log_path rd =
     (if length rd + 1 < PATH_MAX \<and> length (rd @ ''/'' @ take PATH_MAX logfile_name) < PATH_MAX
      then Inr (rd @ ''/'' @ take PATH_MAX logfile_name) else Inl OutOfBounds)"

definition main ::
  "'o os \<Rightarrow> (string \<Rightarrow> int option) \<Rightarrow> (string \<Rightarrow> double option) \<Rightarrow>
   (string list \<Rightarrow> 'o cfs_mem fuse_operations \<Rightarrow> nat \<Rightarrow> (int, 'o cfs_mem) act) \<Rightarrow>
   string list \<Rightarrow> (int, 'o cfs_mem) act" where
  "main os stoi stod fuse_main argv s =
     (if length argv \<noteq> ARGS_NUM then Inl (ExitCall 1)
      else
        bind_res (the_res (stoi (argv ! 3)) Uncaught) (\<lambda>nBlocks.
        bind_res (the_res (stod (argv ! 4)) Uncaught) (\<lambda>fOld.
        bind_res (the_res (stod (argv ! 5)) Uncaught) (\<lambda>fNew.
        let (rootDir, s1) = with_os (os_realpath os (argv ! 1)) s;
            (mountDir, s2) = with_os (os_realpath os (argv ! 2)) s1;
            (dirs, s3) = dirs_valid os rootDir mountDir s2
        in
        if \<not> dirs \<or> numbers_rejected nBlocks fOld fNew then Inl (ExitCall 1)
        else
          bind_res (new_CacheManager nBlocks fOld fNew) (\<lambda>cm.
          let s4 = s3\<lparr>world := (world s3)\<lparr>cacheManager := cm\<rparr>\<rparr>;
              caching_oper = init_caching_oper os;
              (root, s5) = set_root_dir os (argv ! 1) s4
          in
          bind_res (the_res root NullPointer) (\<lambda>rd.
          bind_res (log_path rd) (\<lambda>log_full_path.
          let cfs_st = \<lparr>logfile_full_path = log_full_path, rootdir = rd\<rparr>;
              s6 = s5\<lparr>world := (world s5)\<lparr>cfs_at := [cfs_addr \<mapsto> cfs_st]\<rparr>\<rparr>
          in
          bind_res (open_log os log_full_path s6) (\<lambda>s7.
          bind_res (fuse_main [argv ! 0, argv ! 2, ''-s''] caching_oper cfs_addr s7) (\<lambda>(fuse_stat, s8).
          Inr (fuse_stat, s8\<lparr>world := (world s8)
                 \<lparr>cacheManager := delete_CacheManager (cacheManager (world s8))\<rparr>\<rparr>))))))))))"

end
