(* ===== verification/Cache_Props.thy ===== *)
theory Cache_Props
  imports Cache_Paths
begin

text \<open>
  The properties of the cache: every operation refines the abstract cache on every branch,
  the states the cache can reach, what eviction removes, and round trips of insertion,
  lookup, renaming.
\<close>

section \<open>Reachable caches\<close>

text \<open>
  One call of a public operation that returns. The file system inserts blocks with a number
  that is not \<^const>\<open>NULL_BLOCK\<close> and with a buffer.
\<close>

inductive cache_step :: "CacheManager \<Rightarrow> CacheManager \<Rightarrow> bool" where
  retrieve_step: "retrieveBuffer cm bid = Inr (b, cm') \<Longrightarrow> cache_step cm cm'"
| insert_step: "bn \<noteq> NULL_BLOCK \<Longrightarrow> insertBlock cm fid bn (Some d) q = Inr cm' \<Longrightarrow> cache_step cm cm'"
| rename_step: "updatePaths cm a b = Inr cm' \<Longrightarrow> cache_step cm cm'"

inductive_cases cache_stepE: "cache_step cm cm'"

inductive cache_reachable :: "int \<Rightarrow> int \<Rightarrow> int \<Rightarrow> CacheManager \<Rightarrow> bool" for n newS oldS where
  start: "cache_reachable n newS oldS (build_CacheManager n newS oldS)"
| step: "cache_reachable n newS oldS cm \<Longrightarrow> cache_step cm cm' \<Longrightarrow> cache_reachable n newS oldS cm'"

lemma retrieveBuffer_inv:
  assumes inv: "cm_inv n p cm" and r: "retrieveBuffer cm bid = Inr (b, cm')"
  shows "cm_inv n p cm'"
  using retrieveBuffer_cases [OF inv r] inv findBlock_hit [OF inv] by blast

lemma insertBlock_inv:
  assumes inv: "cm_inv n p cm" and bn: "bn \<noteq> NULL_BLOCK" and r: "insertBlock cm fid bn bf q = Inr cm'"
  shows "cm_inv n p cm'" "abs_cache cm' = fbr_insert p (new_CacheBlock fid bn bf q) (abs_cache cm)"
  using insertBlock_cases [OF inv r] insertBlock_ok [OF inv _ refl bn] by simp_all

lemma cache_step_inv: "cache_step cm cm' \<Longrightarrow> cm_inv n p cm \<Longrightarrow> cm_inv n p cm'"
proof (erule cache_stepE)
  fix bid b
  assume "cm_inv n p cm" "retrieveBuffer cm bid = Inr (b, cm')"
  then show ?thesis by (rule retrieveBuffer_inv)
next
  fix bn fid d q
  assume "cm_inv n p cm" "bn \<noteq> NULL_BLOCK" "insertBlock cm fid bn (Some d) q = Inr cm'"
  then show ?thesis by (rule insertBlock_inv)
next
  fix a b
  assume "cm_inv n p cm" "updatePaths cm a b = Inr cm'"
  then show ?thesis by (rule updatePaths_inv)
qed

lemma cache_step_number:
  assumes "cache_step cm cm'" "cm_inv n p cm"
  shows "numberOfBlocks cm' = numberOfBlocks cm"
proof -
  have "length (abs_cache cm') = length (abs_cache cm)"
    using assms(1)
  proof cases
    case (retrieve_step bid b)
    show ?thesis
      using retrieveBuffer_cases [OF assms(2) retrieve_step]
    proof
      assume "\<exists>i. fbr_pos (abs_cache cm) bid = Some i \<and> can_touch n i (abs_cache cm) \<and>
        b = buff (abs_cache cm ! i) \<and> cm' = hit_state n p i bid cm"
      then obtain i where i: "fbr_pos (abs_cache cm) bid = Some i" "can_touch n i (abs_cache cm)"
        "cm' = hit_state n p i bid cm" by blast
      then have "abs_cache cm' = fbr_hit n i (abs_cache cm)" using findBlock_hit [OF assms(2) i(1,2)] by simp
      moreover have "i < length (abs_cache cm)" using hit_facts(1) [OF i(1)] by simp
      ultimately show ?thesis unfolding fbr_hit_def by (simp del: length_abs_cache)
    qed simp
  next
    case (insert_step bn fid d q)
    then show ?thesis
      using insertBlock_inv(2) [OF assms(2) insert_step] fbr_out_bounds [OF assms(2)]
      by (simp add: fbr_insert_def flip: length_abs_cache)
  next
    case (rename_step a b)
    then show ?thesis using updatePaths_inv(3) [OF assms(2)] map_eq_imp_length_eq by blast
  qed
  then show ?thesis
    using cm_invD(5) [OF assms(2)] cm_invD(5) [OF cache_step_inv [OF assms]] by simp
qed

lemma reachable_inv:
  assumes "cache_reachable n newS oldS cm" "sizes_ok n newS oldS"
  shows "cm_inv (nat newS) (nat (n - oldS)) cm"
  using assms by (induction) (simp_all add: build_CacheManager_inv cache_step_inv)

lemma distinct_ids:
  assumes inv: "cm_inv n p cm"
  shows "distinct (map getBlockId (filter (\<lambda>b. \<not> is_null b) (abs_cache cm)))"
proof -
  have inj: "i = j" if "i < length (chain cm)" "j < length (chain cm)" "\<not> is_null (abs_cache cm ! i)"
    "\<not> is_null (abs_cache cm ! j)" "getBlockId (abs_cache cm ! i) = getBlockId (abs_cache cm ! j)" for i j
  proof -
    have "Some j = Some i"
      by (rule trans [OF fbr_pos_unique [OF inv that(2,4), symmetric]
            fbr_pos_unique [OF inv that(1,3), unfolded that(5)]])
    then show "i = j" by simp
  qed
  have "distinct (map f (filter P xs))"
    if "\<And>i j. i < length xs \<Longrightarrow> j < length xs \<Longrightarrow> P (xs ! i) \<Longrightarrow> P (xs ! j) \<Longrightarrow> f (xs ! i) = f (xs ! j) \<Longrightarrow> i = j"
    for f :: "CacheBlock \<Rightarrow> BlockID" and P xs
    using that
  proof (induction xs)
    case (Cons x xs)
    have "distinct (map f (filter P xs))"
      using Cons.prems [of "Suc _" "Suc _"] by (intro Cons.IH) fastforce
    moreover have "f x \<notin> f ` {y \<in> set xs. P y}" if "P x"
      using Cons.prems [of 0 "Suc _"] that by (fastforce simp: in_set_conv_nth)
    ultimately show ?case by auto
  qed simp
  from this [of "abs_cache cm" "\<lambda>b. \<not> is_null b" getBlockId] inj show ?thesis by simp
qed

section \<open>Lookup and insertion refine the abstract cache\<close>

text \<open>A small cache for the witnesses: six blocks, one of them new and three old.\<close>

definition small_cache :: CacheManager where
  "small_cache = build_CacheManager 6 1 3"

lemma small_cache_inv: "cm_inv 1 3 small_cache" "abs_cache small_cache = replicate 6 null_block"
  using build_CacheManager_inv [of 6 1 3] by (simp_all add: small_cache_def sizes_ok_def)

lemma small_cache_absent: "fbr_pos (abs_cache small_cache) bid = None"
  by (simp add: small_cache_inv fbr_pos_def index_of_None)

text \<open>
  (C12) \<^verbatim>\<open>retrieveBuffer\<close> refines the abstract lookup on every branch: a miss returns a null pointer
  and changes nothing; a hit returns the buffer of the block, moves the block to the front and
  counts a reference unless it was in the new section, and keeps the invariant; the only fault
  is the overflow of the reference count.
\<close>

theorem retrieveBuffer_refines:
  assumes "cm_inv n p cm"
  shows "case fbr_pos (abs_cache cm) bid of
      None \<Rightarrow> retrieveBuffer cm bid = Inr (None, cm)
    | Some i \<Rightarrow>
        if can_touch n i (abs_cache cm)
        then \<exists>cm'. retrieveBuffer cm bid = Inr (buff (abs_cache cm ! i), cm') \<and> cm_inv n p cm' \<and>
               abs_cache cm' = fbr_hit n i (abs_cache cm)
        else retrieveBuffer cm bid = Inl IntOverflow"
proof (cases "fbr_pos (abs_cache cm) bid")
  case None
  then show ?thesis using findBlock_miss [OF assms None] by (simp add: retrieveBuffer_def)
next
  case (Some i)
  then show ?thesis
    using findBlock_overflow [OF assms Some] findBlock_hit [OF assms Some]
      retrieveBuffer_hit [OF assms Some]
    by (simp add: retrieveBuffer_def)
qed

theorem retrieveBuffer_refines_witness:
  "retrieveBuffer small_cache (7, 0) = Inr (None, small_cache)"
  using retrieveBuffer_refines [OF small_cache_inv(1), of "(7, 0)"] by (simp add: small_cache_absent)

text \<open>
  (C13) \<^verbatim>\<open>insertBlock\<close> refines the abstract insertion on every branch: a block that is already cached
  ends the process (after the lookup, whose count may overflow); otherwise the new block goes
  to the front and one block of the old section leaves, and the invariant is kept, unless the
  block that leaves is the first of the old section: then the boundary iterator dangles and its
  decrement is undefined.
\<close>

theorem insertBlock_refines:
  assumes "cm_inv n p cm" "bn \<noteq> NULL_BLOCK"
  shows "case fbr_pos (abs_cache cm) (fid, bn) of
      Some i \<Rightarrow> insertBlock cm fid bn bf q =
                 Inl (if can_touch n i (abs_cache cm) then ExitCall 1 else IntOverflow)
    | None \<Rightarrow>
        if fbr_out p (abs_cache cm) = p then insertBlock cm fid bn bf q = Inl InvalidIterator
        else \<exists>cm'. insertBlock cm fid bn bf q = Inr cm' \<and> cm_inv n p cm' \<and>
               abs_cache cm' = fbr_insert p (new_CacheBlock fid bn bf q) (abs_cache cm)"
proof (cases "fbr_pos (abs_cache cm) (fid, bn)")
  case None
  then show ?thesis
    using insertBlock_dangling [OF assms(1) None] insertBlock_ok_code [OF assms(1) None refl]
      insertBlock_ok [OF assms(1) None refl assms(2)]
    by simp
next
  case (Some i)
  then show ?thesis
    using findBlock_overflow [OF assms(1) Some] insertBlock_present [OF assms(1) Some]
    by (simp add: insertBlock_def)
qed

theorem insertBlock_refines_witness:
  "\<exists>cm'. insertBlock small_cache 7 0 (Some [Some 65]) (Some ''/f'') = Inr cm' \<and> cm_inv 1 3 cm' \<and>
     abs_cache cm' = new_CacheBlock 7 0 (Some [Some 65]) (Some ''/f'') # replicate 5 null_block"
proof -
  have "fbr_out 3 (abs_cache small_cache) = 5" by (simp add: small_cache_inv fbr_out_def)
  then show ?thesis
    using insertBlock_refines [OF small_cache_inv(1), of 0 7 "Some [Some 65]" "Some ''/f''"]
    by (simp add: small_cache_absent fbr_insert_def NULL_BLOCK_def)
      (simp add: small_cache_inv remove_nth_def numeral_eq_Suc)
qed

section \<open>What every reachable cache satisfies\<close>

text \<open>
  (C14) In every state the cache reaches from its construction by lookups, insertions and renames,
  in any order, the invariant holds: map, chain and boundary iterators agree, each section has
  its constant size and its blocks carry its name, the chain holds exactly \<open>n\<close> blocks, and no
  block is cached twice.
\<close>

theorem cache_reachable_invariant:
  assumes "cache_reachable n newS oldS cm" "sizes_ok n newS oldS"
  shows "cm_inv (nat newS) (nat (n - oldS)) cm \<and> numberOfBlocks cm = n \<and>
    int (length (chain cm)) = n \<and>
    distinct (map getBlockId (filter (\<lambda>b. \<not> is_null b) (abs_cache cm)))"
proof -
  have inv: "cm_inv (nat newS) (nat (n - oldS)) cm" using assms by (rule reachable_inv)
  have num: "numberOfBlocks cm = n"
    using assms
  proof induction
    case start
    then show ?case by (simp add: build_CacheManager_form)
  next
    case (step cm cm')
    have "numberOfBlocks cm' = numberOfBlocks cm"
      by (rule cache_step_number [OF step.hyps(2) reachable_inv [OF step.hyps(1) step.prems]])
    then show ?case using step by simp
  qed
  then show ?thesis using inv cm_invD(5) [OF inv] distinct_ids [OF inv] by simp
qed

theorem cache_reachable_invariant_witness:
  "cm_inv 1 3 small_cache \<and> numberOfBlocks small_cache = 6"
  using cache_reachable_invariant [OF cache_reachable.start, of 6 1 3]
  by (simp add: small_cache_def sizes_ok_def)

text \<open>
  (C15) The replacement policy: when the cache is full, a successful insertion removes the block of
  the old section with the least reference count, the least recently used one of them, and
  leaves every other block where it was, one place further down.
\<close>

theorem insertBlock_evicts_least_used:
  assumes "cm_inv n p cm" "bn \<noteq> NULL_BLOCK" "\<not> is_null (last (abs_cache cm))"
    "insertBlock cm fid bn bf q = Inr cm'"
  shows "\<exists>v. p < v \<and> v < length (abs_cache cm) \<and>
    (\<forall>k. p \<le> k \<and> k < length (abs_cache cm) \<longrightarrow> refCount (abs_cache cm ! v) \<le> refCount (abs_cache cm ! k)) \<and>
    (\<forall>k. v < k \<and> k < length (abs_cache cm) \<longrightarrow> refCount (abs_cache cm ! v) < refCount (abs_cache cm ! k)) \<and>
    abs_cache cm' = new_CacheBlock fid bn bf q # remove_nth v (abs_cache cm)"
proof -
  let ?xs = "abs_cache cm"
  have p: "p < length ?xs" using cm_invD(4) [OF assms(1)] by simp
  have out: "fbr_out p ?xs = victim p ?xs" using assms(3) by (simp add: fbr_out_def)
  note C = insertBlock_cases [OF assms(1,4)]
  have abs: "abs_cache cm' = new_CacheBlock fid bn bf q # remove_nth (victim p ?xs) ?xs"
    using insertBlock_inv(2) [OF assms(1,2,4)] out by (simp add: fbr_insert_def)
  have "p < victim p ?xs" using victim_spec(1) [OF p] C out by simp
  then show ?thesis
    using victim_spec(2-4) [OF p] abs by (intro exI [of _ "victim p ?xs"]) blast
qed

section \<open>Filling a new cache\<close>

fun insert_all :: "CacheManager \<Rightarrow> (BlockID \<times> buffer) list \<Rightarrow> string \<Rightarrow> CacheManager res" where
  "insert_all cm [] q = Inr cm"
| "insert_all cm (x # xs) q =
     bind_res (insertBlock cm (fst (fst x)) (snd (fst x)) (Some (snd x)) (Some q))
       (\<lambda>cm'. insert_all cm' xs q)"

abbreviation block_of :: "string \<Rightarrow> BlockID \<times> buffer \<Rightarrow> CacheBlock" where
  "block_of q x \<equiv> new_CacheBlock (fst (fst x)) (snd (fst x)) (Some (snd x)) (Some q)"

lemma insert_all_fills:
  assumes inv: "cm_inv n p cm" and old: "Suc p < length (chain cm)"
    and abs: "abs_cache cm = map (block_of q) ys @ replicate m null_block"
    and xs: "length xs \<le> m" "distinct (map fst (ys @ xs))" "\<forall>x\<in>set xs. snd (fst x) \<noteq> NULL_BLOCK"
  shows "\<exists>cm'. insert_all cm xs q = Inr cm' \<and> cm_inv n p cm' \<and>
    abs_cache cm' = map (block_of q) (rev xs @ ys) @ replicate (m - length xs) null_block"
  using inv old abs xs
proof (induction xs arbitrary: cm ys m)
  case Nil
  then show ?case by simp
next
  case (Cons x xs)
  obtain k where m: "m = Suc k" using Cons.prems(4) by (cases m) simp_all
  let ?b = "block_of q x"
  have id: "getBlockId (block_of q y) = fst y" for y by (simp add: CacheBlock_defs)
  have "fst x \<notin> fst ` set ys" using Cons.prems(5) by auto
  then have "is_null b \<or> getBlockId b \<noteq> fst x" if "b \<in> set (abs_cache cm)" for b
  proof -
    from that have "b \<in> block_of q ` set ys \<or> b = null_block" unfolding Cons.prems(3) by auto
    then show ?thesis
    proof
      assume "b \<in> block_of q ` set ys"
      then obtain y where y: "y \<in> set ys" "b = block_of q y" by auto
      then have "getBlockId b = fst y" "fst y \<in> fst ` set ys" by (simp_all add: id)
      then show ?thesis using \<open>fst x \<notin> fst ` set ys\<close> by metis
    qed simp
  qed
  then have no: "fbr_pos (abs_cache cm) (fst (fst x), snd (fst x)) = None"
    by (simp add: fbr_pos_def index_of_None)
  have last: "is_null (last (abs_cache cm))" unfolding Cons.prems(3) m by simp
  have bn: "snd (fst x) \<noteq> NULL_BLOCK" using Cons.prems(6) by simp
  have out: "fbr_out p (abs_cache cm) = length (abs_cache cm) - 1" using last by (simp add: fbr_out_def)
  then have w: "fbr_out p (abs_cache cm) \<noteq> p" using Cons.prems(2) by simp
  have ne: "abs_cache cm \<noteq> []" unfolding Cons.prems(3) m by simp
  define cm1 where "cm1 = ins_state n p ?b cm"
  have ins: "insertBlock cm (fst (fst x)) (snd (fst x)) (Some (snd x)) (Some q) = Inr cm1"
    unfolding cm1_def by (rule insertBlock_ok_code [OF Cons.prems(1) no refl w])
  have "cm_inv n p cm1" "abs_cache cm1 = fbr_insert p ?b (abs_cache cm)"
    using insertBlock_ok [OF Cons.prems(1) no refl bn w] by (simp_all add: cm1_def)
  moreover have "fbr_insert p ?b (abs_cache cm) = map (block_of q) (x # ys) @ replicate k null_block"
    using remove_nth_last [OF ne] out unfolding fbr_insert_def
    by (simp add: Cons.prems(3) m butlast_append butlast_conv_take del: replicate.simps(2))
  ultimately have A: "cm_inv n p cm1" "abs_cache cm1 = map (block_of q) (x # ys) @ replicate k null_block"
    by simp_all
  have len: "Suc p < length (chain cm1)"
    using Cons.prems(2,3) A(2) m length_abs_cache [of cm] length_abs_cache [of cm1] by simp
  have "\<exists>cm'. insert_all cm1 xs q = Inr cm' \<and> cm_inv n p cm' \<and>
      abs_cache cm' = map (block_of q) (rev xs @ x # ys) @ replicate (k - length xs) null_block"
    using Cons.prems(4-6) m by (intro Cons.IH [OF A(1) len A(2)]) auto
  then show ?case using ins m by simp
qed

text \<open>A full cache for the witness of the replacement policy.\<close>

lemma full_cache:
  "\<exists>cm. cm_inv 1 3 cm \<and> fbr_out 3 (abs_cache cm) = 5 \<and> fbr_pos (abs_cache cm) (7, 6) = None \<and>
     abs_cache cm = map (\<lambda>k. new_CacheBlock 7 k (Some [Some 65]) (Some ''/f'')) [5, 4, 3, 2, 1, 0]"
proof -
  let ?xs = "map (\<lambda>k. ((7, k), [Some 65])) [0, 1, 2, 3, 4, 5 :: int]"
  have "Suc 3 < length (chain small_cache)" using small_cache_inv(2) length_abs_cache [of small_cache] by simp
  from insert_all_fills [OF small_cache_inv(1) this, of "''/f''" "[]" 6 ?xs] obtain cm where
    cm: "cm_inv 1 3 cm" "abs_cache cm = map (\<lambda>k. new_CacheBlock 7 k (Some [Some 65]) (Some ''/f'')) [5, 4, 3, 2, 1, 0]"
    by (auto simp: small_cache_inv NULL_BLOCK_def)
  have "fbr_out 3 (abs_cache cm) = 5" "fbr_pos (abs_cache cm) (7, 6) = None"
    unfolding cm(2) by (simp_all add: fbr_out_def victim_def fbr_pos_def is_null_def CacheBlock_defs
        NULL_BLOCK_def upt_rec numeral_eq_Suc)
  then show ?thesis using cm by blast
qed

theorem insertBlock_evicts_least_used_witness:
  "\<exists>cm cm' v. insertBlock cm 7 6 (Some []) (Some ''/f'') = Inr cm' \<and> 3 < v \<and> v < 6 \<and>
     abs_cache cm' = new_CacheBlock 7 6 (Some []) (Some ''/f'') # remove_nth v (abs_cache cm)"
proof -
  obtain cm where cm: "cm_inv 1 3 cm" "fbr_out 3 (abs_cache cm) = 5" "fbr_pos (abs_cache cm) (7, 6) = None"
    "abs_cache cm = map (\<lambda>k. new_CacheBlock 7 k (Some [Some 65]) (Some ''/f'')) [5, 4, 3, 2, 1, 0]"
    using full_cache by blast
  have nn: "\<not> is_null (last (abs_cache cm))" "length (abs_cache cm) = 6"
    by (simp_all add: cm(4) is_null_def CacheBlock_defs NULL_BLOCK_def)
  have "insertBlock cm 7 6 (Some []) (Some ''/f'') =
      Inr (ins_state 1 3 (new_CacheBlock 7 6 (Some []) (Some ''/f'')) cm)"
    using cm by (intro insertBlock_ok_code) simp_all
  from this insertBlock_evicts_least_used [OF cm(1) _ nn(1) this] nn(2) show ?thesis
    by (auto simp: NULL_BLOCK_def)
qed

text \<open>
  (C16) A new cache whose old section has at least two blocks takes as many different blocks as it
  has room for, without a fault and without losing one: afterwards each is found with its data.
\<close>

theorem new_cache_fills:
  assumes "sizes_ok n newS oldS" "2 \<le> oldS" "int (length xs) \<le> n" "distinct (map fst xs)"
    "\<forall>x\<in>set xs. snd (fst x) \<noteq> NULL_BLOCK"
  shows "\<exists>cm. insert_all (build_CacheManager n newS oldS) xs q = Inr cm \<and>
    (\<forall>(bid, d)\<in>set xs. cm_lookup cm bid = Some d)"
proof -
  let ?cm0 = "build_CacheManager n newS oldS" and ?p = "nat (n - oldS)"
  have inv: "cm_inv (nat newS) ?p ?cm0" and abs: "abs_cache ?cm0 = map (block_of q) [] @ replicate (nat n) null_block"
    using build_CacheManager_inv [OF assms(1)] by simp_all
  have "Suc ?p < nat n" using assms(1,2) unfolding sizes_ok_def by linarith
  then have "Suc ?p < length (chain ?cm0)" by (simp add: build_CacheManager_form [OF assms(1)])
  moreover have "length xs \<le> nat n" using assms(3) by linarith
  ultimately obtain cm where
    cm: "insert_all ?cm0 xs q = Inr cm" "cm_inv (nat newS) ?p cm"
      "abs_cache cm = map (block_of q) (rev xs) @ replicate (nat n - length xs) null_block"
    using insert_all_fills [OF inv _ abs, of xs] assms(4,5) by auto
  have "cm_lookup cm bid = Some d" if x: "(bid, d) \<in> set xs" for bid d
  proof -
    have "block_of q (bid, d) \<in> set (abs_cache cm)" unfolding cm(3) using x by force
    moreover have "\<not> is_null (block_of q (bid, d))"
      using assms(5) x by (auto simp: is_null_def CacheBlock_defs)
    ultimately show ?thesis
      unfolding cm_lookup_iff [OF cm(2)] by (intro bexI [of _ "block_of q (bid, d)"]) (simp_all add: CacheBlock_defs)
  qed
  then show ?thesis using cm(1) by blast
qed

theorem new_cache_fills_witness:
  "\<exists>cm. insert_all (build_CacheManager 6 1 3) [((7, 0), [Some 65]), ((7, 1), [Some 66])] ''/f'' = Inr cm \<and>
    cm_lookup cm (7, 1) = Some [Some 66]"
  using new_cache_fills [of 6 1 3 "[((7, 0), [Some 65]), ((7, 1), [Some 66])]" "''/f''"]
  by (auto simp: sizes_ok_def NULL_BLOCK_def)

text \<open>
  (C17) With an old section of a single block, which the program accepts, the very first insertion
  is undefined behaviour: the null block that is popped is the one the boundary iterator of the
  old section refers to, and that iterator is decremented next.
\<close>

theorem first_insert_faults_single_old:
  assumes "sizes_ok n newS 1"
  shows "insertBlock (build_CacheManager n newS 1) fid bn bf q = Inl InvalidIterator"
proof -
  let ?cm = "build_CacheManager n newS 1"
  note B = build_CacheManager_inv [OF assms]
  have no: "fbr_pos (abs_cache ?cm) (fid, bn) = None"
    using B by (simp add: fbr_pos_def index_of_None)
  have "fbr_out (nat (n - 1)) (abs_cache ?cm) = nat (n - 1)"
    using B assms by (auto simp: fbr_out_def sizes_ok_def)
  then show ?thesis using insertBlock_dangling [OF _ no] B by blast
qed

theorem first_insert_faults_single_old_witness:
  "insertBlock (build_CacheManager 3 1 1) 7 0 (Some []) (Some ''/f'') = Inl InvalidIterator"
  using first_insert_faults_single_old [of 3 1] by (simp add: sizes_ok_def)

section \<open>Round trips\<close>

text \<open>
  (C18) What was inserted is found: a lookup right after a successful insertion returns the inserted
  buffer, does not fault, and leaves every other block as findable as it was.
\<close>

theorem insert_then_retrieve:
  assumes "cm_inv n p cm" "bn \<noteq> NULL_BLOCK" "insertBlock cm fid bn (Some d) q = Inr cm'"
  shows "\<exists>cm''. retrieveBuffer cm' (fid, bn) = Inr (Some d, cm'') \<and> cm_inv n p cm'' \<and>
    cm_lookup cm'' = cm_lookup cm'"
proof -
  let ?b = "new_CacheBlock fid bn (Some d) q"
  have inv: "cm_inv n p cm'" and abs: "abs_cache cm' = fbr_insert p ?b (abs_cache cm)"
    using insertBlock_inv [OF assms] by simp_all
  have pos: "fbr_pos (abs_cache cm') (fid, bn) = Some 0"
    using assms(2) by (simp add: abs fbr_insert_def fbr_pos_def is_null_def CacheBlock_defs)
  have t: "can_touch n 0 (abs_cache cm')" using cm_invD(2) [OF inv] by (simp add: can_touch_def)
  have r: "retrieveBuffer cm' (fid, bn) = Inr (Some d, hit_state n p 0 (fid, bn) cm')"
    using retrieveBuffer_hit [OF inv pos t] by (simp add: abs fbr_insert_def new_CacheBlock_def)
  have "cm_inv n p (hit_state n p 0 (fid, bn) cm')"
    "abs_cache (hit_state n p 0 (fid, bn) cm') = fbr_hit n 0 (abs_cache cm')"
    using findBlock_hit [OF inv pos t] by simp_all
  then show ?thesis using r cm_lookup_hit [OF inv _ hit_facts(1) [OF pos]] by blast
qed

theorem insert_then_retrieve_witness:
  "\<exists>cm' cm''. insertBlock small_cache 7 0 (Some [Some 65]) (Some ''/f'') = Inr cm' \<and>
     retrieveBuffer cm' (7, 0) = Inr (Some [Some 65], cm'')"
proof -
  have "fbr_out 3 (abs_cache small_cache) = 5" by (simp add: small_cache_inv fbr_out_def)
  then have "insertBlock small_cache 7 0 (Some [Some 65]) (Some ''/f'') =
      Inr (ins_state 1 3 (new_CacheBlock 7 0 (Some [Some 65]) (Some ''/f'')) small_cache)"
    by (intro insertBlock_ok_code [OF small_cache_inv(1) small_cache_absent refl]) simp
  from this insert_then_retrieve [OF small_cache_inv(1) _ this] show ?thesis
    by (auto simp: NULL_BLOCK_def)
qed

text \<open>
  (C19) \<^verbatim>\<open>updatePaths\<close> follows a rename: on normalised paths it returns, gives every block below the
  old path the same place below the new one, leaves the other blocks alone, and changes neither
  the order of the blocks nor what a lookup finds.
\<close>

theorem updatePaths_moves_paths:
  assumes "cm_inv n p cm" "norm_path a" "norm_path b" "paths_ok (abs_cache cm)"
  shows "\<exists>cm'. updatePaths cm a b = Inr cm' \<and> cm_inv n p cm' \<and>
    abs_cache cm' = map (rename_block a b) (abs_cache cm) \<and> cm_lookup cm' = cm_lookup cm"
  using updatePaths_refines [OF assms] by blast

text \<open>One block of a file below a directory, in an otherwise empty cache.\<close>

lemma one_block_cache:
  "\<exists>cm. cm_inv 1 3 cm \<and>
     abs_cache cm = new_CacheBlock 7 0 (Some [Some 65]) (Some ''/d/f'') # replicate 5 null_block"
proof -
  let ?b = "new_CacheBlock 7 0 (Some [Some 65]) (Some ''/d/f'')"
  have "fbr_out 3 (abs_cache small_cache) = 5" by (simp add: small_cache_inv fbr_out_def)
  then have "cm_inv 1 3 (ins_state 1 3 ?b small_cache) \<and>
      abs_cache (ins_state 1 3 ?b small_cache) = fbr_insert 3 ?b (abs_cache small_cache)"
    by (intro insertBlock_ok [OF small_cache_inv(1) small_cache_absent refl]) (simp_all add: NULL_BLOCK_def)
  moreover have "fbr_insert 3 ?b (abs_cache small_cache) = ?b # replicate 5 null_block"
    by (simp add: small_cache_inv fbr_insert_def fbr_out_def remove_nth_def numeral_eq_Suc)
  ultimately show ?thesis by auto
qed

lemma one_block_paths:
  "paths_ok (new_CacheBlock 7 0 (Some [Some 65]) (Some ''/d/f'') # replicate 5 null_block)"
  by (simp add: paths_ok_def new_CacheBlock_def null_block_def norm_path_def NULL_BLOCK_def)

theorem updatePaths_moves_paths_witness:
  "\<exists>cm cm'. updatePaths cm ''/d'' ''/e'' = Inr cm' \<and>
     abs_cache cm' = new_CacheBlock 7 0 (Some [Some 65]) (Some ''/e/f'') # replicate 5 null_block"
proof -
  obtain cm where cm: "cm_inv 1 3 cm"
    "abs_cache cm = new_CacheBlock 7 0 (Some [Some 65]) (Some ''/d/f'') # replicate 5 null_block"
    using one_block_cache by blast
  have "paths_ok (abs_cache cm)" unfolding cm(2) by (rule one_block_paths)
  from updatePaths_moves_paths [OF cm(1) _ _ this, of "''/d''" "''/e''"] show ?thesis
    unfolding cm(2) by (auto simp: norm_path_def rename_block_def move_path_def under_def new_CacheBlock_def
        null_block_def NULL_BLOCK_def)
qed

text \<open>
  (C20) Renaming back undoes a rename: if no cached file lies at the target of the rename, then
  renaming \<open>a\<close> to \<open>b\<close> and \<open>b\<close> to \<open>a\<close> gives every block its path again.
\<close>

theorem rename_and_back:
  assumes "cm_inv n p cm" "norm_path a" "norm_path b" "paths_ok (abs_cache cm)"
    "\<forall>blk\<in>set (abs_cache cm). \<not> under b (path blk)"
  shows "\<exists>cm'. bind_res (updatePaths cm a b) (\<lambda>cm1. updatePaths cm1 b a) = Inr cm' \<and>
    abs_cache cm' = abs_cache cm"
proof -
  obtain cm1 where 1: "updatePaths cm a b = Inr cm1" "cm_inv n p cm1"
      "abs_cache cm1 = map (rename_block a b) (abs_cache cm)"
    using updatePaths_refines [OF assms(1-4)] by blast
  have "paths_ok (abs_cache cm1)"
    using assms(4) move_path_norm [OF assms(3)] unfolding 1(3) paths_ok_def by (auto simp: rename_block_def)
  then obtain cm2 where 2: "updatePaths cm1 b a = Inr cm2"
      "abs_cache cm2 = map (rename_block b a) (abs_cache cm1)"
    using updatePaths_refines [OF 1(2) assms(3,2)] by blast
  have "rename_block b a (rename_block a b blk) = blk" if "blk \<in> set (abs_cache cm)" for blk
    using assms(5) that by (simp add: rename_block_def move_path_back)
  then have "map (rename_block b a) (map (rename_block a b) (abs_cache cm)) = abs_cache cm"
    by (simp add: map_idI)
  then show ?thesis using 1 2 by simp
qed

theorem rename_and_back_witness:
  "\<exists>cm cm'. bind_res (updatePaths cm ''/d'' ''/e'') (\<lambda>cm1. updatePaths cm1 ''/e'' ''/d'') = Inr cm' \<and>
     abs_cache cm' = new_CacheBlock 7 0 (Some [Some 65]) (Some ''/d/f'') # replicate 5 null_block"
proof -
  obtain cm where cm: "cm_inv 1 3 cm"
    "abs_cache cm = new_CacheBlock 7 0 (Some [Some 65]) (Some ''/d/f'') # replicate 5 null_block"
    using one_block_cache by blast
  have "paths_ok (abs_cache cm)" "\<forall>blk\<in>set (abs_cache cm). \<not> under ''/e'' (path blk)"
    unfolding cm(2) using one_block_paths
    by (simp_all add: under_def new_CacheBlock_def null_block_def)
  from rename_and_back [OF cm(1) _ _ this, of "''/d''"] show ?thesis
    unfolding cm(2) [symmetric] by (auto simp: norm_path_def)
qed

section \<open>Printing and hashing\<close>

text \<open>
  \<^verbatim>\<open>cacheToString\<close> prints one line for each cached block and none for the null blocks: the path
  without its first character, the block number counted from 1, and the reference count; the
  first line is the block at the end of the chain, the least recently used one.
\<close>

theorem cacheToString_lines:
  assumes "cm_inv n p cm" "numbers_ok (abs_cache cm)"
  shows "cacheToString cm = Inr (concat (map (\<lambda>b. drop 1 (path b) @ '' '' @ show_int (blockNumber b + 1)
      @ '' '' @ show_int (refCount b) @ [newline]) (rev (filter (\<lambda>b. \<not> is_null b) (abs_cache cm)))))"
  using cacheToString_text [OF assms] by (simp add: block_text_def [abs_def] rev_map)

theorem cacheToString_lines_witness:
  "\<exists>cm. cacheToString cm = Inr (''d/f 1 1'' @ [newline])"
proof -
  obtain cm where cm: "cm_inv 1 3 cm"
    "abs_cache cm = new_CacheBlock 7 0 (Some [Some 65]) (Some ''/d/f'') # replicate 5 null_block"
    using one_block_cache by blast
  have "numbers_ok (abs_cache cm)"
    unfolding cm(2) by (simp add: numbers_ok_def new_CacheBlock_def null_block_def INT_MAX_def)
  from cacheToString_lines [OF cm(1) this] show ?thesis
    unfolding cm(2)
    by (auto simp: is_null_def new_CacheBlock_def null_block_def NULL_BLOCK_def show_int_def
        show_nat.simps digit_chars)
qed

text \<open>
  The hash of block ids separates the blocks of one file as well as the hash of integers does:
  two ids with the same file collide exactly when their block numbers do. All sums wrap at
  64 bits.
\<close>

theorem hash_pair_separates_blocks:
  "hash_pair hasher (f, b) = hash_pair hasher (f, b') \<longleftrightarrow> hasher b = hasher b'"
  by (simp add: hash_pair_def hash_combine_eq)

end
