(* ===== verification/Read_Props.thy ===== *)
theory Read_Props
  imports Caching_Read Cache_Props
begin

text \<open>
  The properties of reading: a read that starts at a block boundary or stays inside a block
  returns the bytes of the file, whatever the cache held before; with room in the cache it
  does return; at the end of the file it returns nothing; across a block boundary from an
  unaligned offset it reads past the end of a block.
\<close>

lemma min_read_ok:
  assumes env: "read_env os P c pth fi st f s" and off: "0 \<le> off" "off < int (length f)" and sz: "0 < sz"
    and rm: "rm = min (int sz) (int (length f) - off)" and bs: "bs = st_blksize st"
    and al: "off mod bs = 0 \<or> off mod bs + rm \<le> bs"
  shows "read_ok bs f off rm (off div bs) (off div bs + blocks_for bs rm)"
  using env off sz al blocks_for_bounds [of bs rm] unfolding read_ok_def read_env_def rm bs by auto

text \<open>A read at an offset inside the file, of a size that is not zero.\<close>

lemma caching_read_inside:
  assumes env: "read_env os P c pth fi st f s"
    and cm: "cache_ok n p (cacheManager (world s))" "cache_coherent disk (cacheManager (world s))"
    and disk: "\<And>k. 0 \<le> k \<Longrightarrow> disk (to_int32 (st_ino st), k) = disk_block (st_blksize st) f k"
    and h: "mheap s a = Some obj" "boff + sz \<le> length obj"
    and off: "0 \<le> off" "off < int (length f)" and sz: "0 < sz" "int sz \<le> INT_MAX"
    and rm: "rm = min (int sz) (int (length f) - off)"
    and al: "off mod st_blksize st = 0 \<or> off mod st_blksize st + rm \<le> st_blksize st"
  shows "case caching_read os (Some pth) (a, boff) sz off fi s of
      Inl e \<Rightarrow> (e = IntOverflow \<or> e = InvalidIterator) \<and>
               \<not> has_room p (cacheManager (world s)) (nat (blocks_for (st_blksize st) rm))
    | Inr (r, s') \<Rightarrow> r = (rm, fi) \<and> cache_ok n p (cacheManager (world s')) \<and>
        cache_coherent disk (cacheManager (world s')) \<and> P (os_state (world s')) \<and>
        mfree s' = mfree s \<and> mnext s' = mnext s \<and>
        mheap s' = (mheap s)(a \<mapsto> splice_bytes boff (map Some (take (nat rm) (drop (nat off) f))) obj)"
proof -
  let ?bs = "st_blksize st"
  have ok: "read_ok ?bs f off rm (off div ?bs) (off div ?bs + blocks_for ?bs rm)"
    by (rule min_read_ok [OF env off sz(1) rm refl al])
  have "0 < rm" "0 < ?bs" using rm off sz env by (auto simp: read_env_def)
  then have nb: "0 < blocks_for ?bs rm"
    using blocks_for_bounds(2) [of ?bs rm] by (smt (verit) mult_nonpos_nonneg)
  note S = stat_state_facts [OF env]
  have f: "os_file os P (to_int32 (fi_fh fi)) st f" using env by (simp add: read_env_def)
  have fit: "boff + nat rm \<le> length obj" using h(2) rm off by auto
  have L: "case read_loop os pth (a, boff) (to_int32 (fi_fh fi)) (to_int32 (st_ino st)) ?bs off (off div ?bs)
          (off div ?bs + blocks_for ?bs rm) (off div ?bs)
          \<lparr>buf_prog = 0, remaining_data = rm - 0, rd_res = 0, pread_ret = 0\<rparr> (stat_state os fi s) of
      Inl e \<Rightarrow> (e = IntOverflow \<or> e = InvalidIterator) \<and>
               \<not> has_room p (cacheManager (world (stat_state os fi s)))
                   (nat (off div ?bs + blocks_for ?bs rm - off div ?bs))
    | Inr (r, s') \<Rightarrow> r = rm \<and> (\<exists>cm' w'. cache_ok n p cm' \<and> cache_coherent disk cm' \<and> P w' \<and>
        s' = (load_state cm' w' (stat_state os fi s))\<lparr>mheap := (mheap (stat_state os fi s))(a \<mapsto>
           splice_bytes (boff + nat 0) (map Some (take (nat (rm - 0)) (drop (nat (off + 0)) f))) obj)\<rparr>)"
    using nb S cm disk h(1) fit by (intro read_loop_correct [OF ok f]) auto
  show ?thesis
    unfolding caching_read_loop [OF env off sz(2), folded rm]
    using L by (auto simp: S(3-6) split: sum.splits)
qed

text \<open>
  (C1) \<^verbatim>\<open>caching_read\<close> returns the contents of the file: for a cache that agrees with the disk, a
  read at a block boundary, or within one block, either stops on a fault of the cache or
  returns the number of bytes up to the end of the file, with exactly those bytes of the file
  in the caller's buffer and nothing else of it changed, and the cache still agrees with the
  disk.
\<close>

theorem caching_read_correct:
  assumes "read_env os P c pth fi st f s"
    "cache_ok n p (cacheManager (world s))" "cache_coherent disk (cacheManager (world s))"
    "\<And>k. 0 \<le> k \<Longrightarrow> disk (to_int32 (st_ino st), k) = disk_block (st_blksize st) f k"
    "mheap s a = Some obj" "boff + sz \<le> length obj"
    "0 \<le> off" "off < int (length f)" "0 < sz" "int sz \<le> INT_MAX"
    "rm = min (int sz) (int (length f) - off)"
    "off mod st_blksize st = 0 \<or> off mod st_blksize st + rm \<le> st_blksize st"
  shows "case caching_read os (Some pth) (a, boff) sz off fi s of
      Inl e \<Rightarrow> e = IntOverflow \<or> e = InvalidIterator
    | Inr (r, s') \<Rightarrow> r = (rm, fi) \<and> cache_ok n p (cacheManager (world s')) \<and>
        cache_coherent disk (cacheManager (world s')) \<and>
        mheap s' = (mheap s)(a \<mapsto> splice_bytes boff (map Some (take (nat rm) (drop (nat off) f))) obj)"
  using caching_read_inside [OF assms] by (auto split: sum.splits)

text \<open>
  (C2) With room in the cache for the blocks it touches, such a read does return, with the bytes of
  the file.
\<close>

theorem caching_read_returns:
  assumes "read_env os P c pth fi st f s"
    "cache_ok n p (cacheManager (world s))" "cache_coherent disk (cacheManager (world s))"
    "\<And>k. 0 \<le> k \<Longrightarrow> disk (to_int32 (st_ino st), k) = disk_block (st_blksize st) f k"
    "mheap s a = Some obj" "boff + sz \<le> length obj"
    "0 \<le> off" "off < int (length f)" "0 < sz" "int sz \<le> INT_MAX"
    "rm = min (int sz) (int (length f) - off)"
    "off mod st_blksize st = 0 \<or> off mod st_blksize st + rm \<le> st_blksize st"
    "has_room p (cacheManager (world s)) (nat (blocks_for (st_blksize st) rm))"
  shows "\<exists>s'. caching_read os (Some pth) (a, boff) sz off fi s = Inr ((rm, fi), s') \<and>
    mheap s' = (mheap s)(a \<mapsto> splice_bytes boff (map Some (take (nat rm) (drop (nat off) f))) obj)"
  using caching_read_inside [OF assms(1-12)] assms(13) by (auto split: sum.splits)

text \<open>
  (C23) Before the start and at or after the end of the file, \<^verbatim>\<open>caching_read\<close> returns 0 and leaves
  the cache and the caller's buffer alone.
\<close>

theorem caching_read_end_of_file:
  assumes "read_env os P c pth fi st f s" "off < 0 \<or> int (length f) \<le> off"
  shows "\<exists>s'. caching_read os (Some pth) buf sz off fi s = Inr ((0, fi), s') \<and>
    cacheManager (world s') = cacheManager (world s) \<and> mheap s' = mheap s"
proof -
  have e: "cfs_ready c pth s" "rootdir c @ pth \<noteq> logfile_full_path c" "in_int (st_size st)"
      "st_size st = int (length f)"
    using assms(1) by (auto simp: read_env_def os_file_def int_nonneg_range)
  note S = stat_state_facts [OF assms(1)]
  obtain s2 where st: "with_os (os_fstat os (to_int32 (fi_fh fi))) (logged os ''read'' s) = (Inr st, s2)"
    "cacheManager (world s2) = cacheManager (world s)" "mheap s2 = mheap s"
    using S by blast
  show ?thesis
    using e assms(2) st by (auto simp: caching_read_def cfs_simps Let_def)
qed

text \<open>
  (C22) An unaligned read of at most one block of data that crosses a block boundary is not served:
  the number of blocks is computed from the size alone, so only one block is loaded, and the copy
  reads past the end of that block's buffer. The offset lies inside the file and the cache has room
  for the block. Nothing is said of reads of more than one block of data.
\<close>

theorem caching_read_unaligned_overruns:
  assumes env: "read_env os P c pth fi st f s"
    and cm: "cache_ok n p (cacheManager (world s))" "cache_coherent disk (cacheManager (world s))"
    and disk: "\<And>k. 0 \<le> k \<Longrightarrow> disk (to_int32 (st_ino st), k) = disk_block (st_blksize st) f k"
    and off: "0 \<le> off" "off < int (length f)" and sz: "0 < sz" "int sz \<le> INT_MAX"
    and rm: "rm = min (int sz) (int (length f) - off)"
    and cross: "rm \<le> st_blksize st" "st_blksize st < off mod st_blksize st + rm"
    and room: "has_room p (cacheManager (world s)) 1"
  shows "caching_read os (Some pth) buf sz off fi s = Inl OutOfBounds"
proof -
  let ?bs = "st_blksize st" and ?ino = "to_int32 (st_ino st)" and ?fd = "to_int32 (fi_fh fi)"
  let ?fb = "off div ?bs" and ?s = "stat_state os fi s"
  have bs: "0 < ?bs" "?bs \<le> INT_MAX" "int (length f) \<le> INT_MAX" using env by (auto simp: read_env_def)
  have rm0: "0 < rm" using rm off sz by auto
  then have nb: "blocks_for ?bs rm = 1"
    unfolding blocks_for_def using cross(1) bs(1) by (intro int_div_pos_eq [where r = "rm - 1"]) auto
  note S = stat_state_facts [OF env]
  have fb: "0 \<le> ?fb" using off(1) bs(1) by (simp add: pos_imp_zdiv_nonneg_iff)
  have fbs: "0 \<le> ?fb * ?bs" "?fb * ?bs \<le> off"
    using fb bs(1) by (simp_all add: div_mult_le)
  let ?bytes = "take (nat ?bs) (drop (nat (?fb * ?bs)) f)"
  obtain w1 where rd: "os_pread os ?fd ?bs (?fb * ?bs) (os_state (world ?s)) = (Inr ?bytes, w1)"
    using env S(1) bs(1) fbs(1) os_file_pread [of os P ?fd st f] by (metis less_imp_le read_env_def)
  let ?l = "load_block retrieveBuffer insertBlock (os_pread os ?fd ?bs (?fb * ?bs)) ?ino ?bs pth ?fb 0
      (cacheManager (world s)) (os_state (world ?s))"
  have "\<exists>r c' w'. ?l = Inr (r, c', w') \<and> has_room p c' 0"
    using room rd fb by (intro fbr_room.load_block_room [OF cm(1)]) simp_all
  then obtain r c' w' where l: "?l = Inr (r, c', w')" by blast
  have "case ?l of Inl e \<Rightarrow> e = IntOverflow \<or> e = InvalidIterator
    | Inr (r, c', w') \<Rightarrow> cache_ok n p c' \<and> cache_coherent disk c' \<and>
        (r = Inr (disk (?ino, ?fb), 0) \<and> w' = os_state (world ?s) \<or>
         r = Inr (disk (?ino, ?fb), to_int32 (int (length ?bytes))) \<and> w' = w1)"
    unfolding coherent_eq [symmetric]
    by (rule fbr.load_block_cases) (use cm fb rd disk [OF fb] in \<open>simp_all add: coherent_eq disk_block_def\<close>)
  then obtain pr where r: "r = Inr (disk_block ?bs f ?fb, pr)" using l disk [OF fb] by auto
  have chk: "chk_int (?fb * ?bs) = Inr (?fb * ?bs)"
    using fbs off bs(3) by (auto simp: int_nonneg_range)
  have d: "block_offset_of ?bs off ?fb ?fb = off mod ?bs" using block_offset_of_mod [OF off(1) bs(1,2)] by simp
  have "copy_out buf 0 (disk_block ?bs f ?fb) (off mod ?bs) rm t = Inl OutOfBounds" for t :: "'a cfs"
    using cross bs(1) by (simp add: copy_out_def length_disk_block)
  then show ?thesis
    unfolding caching_read_loop [OF env off sz(2), folded rm] nb
    by (subst read_loop.simps)
      (simp add: chk S(3) l r d size_to_copy_of_def)
qed

section \<open>A concrete file\<close>

text \<open>An operating system with one file of eight bytes in blocks of four, and a file system with an
  empty cache, for the witnesses.\<close>

definition ram_os :: "8 word list \<Rightarrow> stat \<Rightarrow> unit os" where
  "ram_os f st = \<lparr>os_time = (\<lambda>w. (0, w)), os_lstat = (\<lambda>_ w. (Inr st, w)), os_fstat = (\<lambda>_ w. (Inr st, w)),
     os_access = (\<lambda>_ _ w. (Inr (), w)), os_open = (\<lambda>_ _ w. (Inr 3, w)),
     os_pread = (\<lambda>_ n off w. (Inr (take (nat n) (drop (nat off) f)), w)), os_close = (\<lambda>_ w. (Inr (), w)),
     os_opendir = (\<lambda>_ w. (Inr 4, w)), os_readdir = (\<lambda>_ w. (None, w)), os_closedir = (\<lambda>_ w. (Inr (), w)),
     os_rename = (\<lambda>_ _ w. (Inr (), w)), os_realpath = (\<lambda>p w. (Some p, w)), os_stat = (\<lambda>_ w. (Inr st, w)),
     os_fopen_append = (\<lambda>_ w. (True, w))\<rparr>"

definition ram_file :: "8 word list" where "ram_file = [10, 20, 30, 40, 50, 60, 70, 80]"

definition ram_stat :: stat where "ram_stat = zero_stat\<lparr>st_ino := 7, st_size := 8, st_blksize := 4\<rparr>"

definition ram_conf :: cfs_state where
  "ram_conf = \<lparr>logfile_full_path = ''/r/.filesystem.log'', rootdir = ''/r''\<rparr>"

definition ram_fi :: fuse_file_info where
  "ram_fi = \<lparr>fi_flags = 0, fi_fh_old = 0, fi_writepage = 0, fi_direct_io = True, fi_keep_cache = False,
     fi_flush = False, fi_nonseekable = False, fi_flock_release = False, fi_fh = 3, fi_lock_owner = 0\<rparr>"

definition ram_state :: "unit cfs" where
  "ram_state = \<lparr>private_data = 1, ctx_umask = 0, stderr = [], mheap = [0 \<mapsto> replicate 8 None], mnext = 1,
     mfree = 0, world = \<lparr>cacheManager = small_cache, log_text = [], cfs_at = [1 \<mapsto> ram_conf], os_state = ()\<rparr>\<rparr>"

definition ram_disk :: "BlockID \<Rightarrow> buffer" where
  "ram_disk = (\<lambda>(i, k). disk_block 4 ram_file k)"

abbreviation the_ram_os :: "unit os" where "the_ram_os \<equiv> ram_os ram_file ram_stat"

lemma ram_env: "read_env the_ram_os (\<lambda>_. True) ram_conf ''/f'' ram_fi ram_stat ram_file ram_state"
  by (simp add: read_env_def cfs_ready_def os_file_def ram_os_def ram_file_def ram_stat_def ram_conf_def
      ram_fi_def ram_state_def PATH_MAX_def INT_MAX_def)

lemma ram_cache:
  "cache_ok 1 3 (cacheManager (world ram_state))" "cache_coherent ram_disk (cacheManager (world ram_state))"
  "has_room 3 (cacheManager (world ram_state)) 2" "has_room 3 (cacheManager (world ram_state)) 1"
proof -
  have c: "cacheManager (world ram_state) = small_cache" by (simp add: ram_state_def)
  show "cache_ok 1 3 (cacheManager (world ram_state))"
    unfolding c cache_ok_def buffers_ok_def using small_cache_inv by simp
  show "cache_coherent ram_disk (cacheManager (world ram_state))"
    unfolding c by (simp add: cache_coherent_def cm_lookup_def small_cache_absent)
  show "has_room 3 (cacheManager (world ram_state)) 2" "has_room 3 (cacheManager (world ram_state)) 1"
    unfolding c using length_abs_cache [of small_cache]
    by (simp_all add: has_room_def small_cache_inv(2) INT_MAX_def)
qed

lemma ram_buffer: "mheap ram_state 0 = Some (replicate 8 None)"
  by (simp add: ram_state_def)

lemmas ram_read = ram_env ram_cache ram_buffer

lemma ram_spliced:
  "splice_bytes 1 (map Some (take (nat 6) (drop (nat 0) ram_file))) (replicate 8 None) =
     [None, Some 10, Some 20, Some 30, Some 40, Some 50, Some 60, None]"
  by (simp add: splice_bytes_def ram_file_def numeral_eq_Suc)

lemma ram_disk_blocks: "ram_disk (to_int32 (st_ino ram_stat), k) = disk_block (st_blksize ram_stat) ram_file k"
  by (simp add: ram_disk_def ram_stat_def)

lemma ram_range:
  "(0 :: int) < int (length ram_file)" "(2 :: int) < int (length ram_file)" "0 < (6 :: nat)" "0 < (4 :: nat)"
  "int 6 \<le> INT_MAX" "int 4 \<le> INT_MAX"
  "1 + (6 :: nat) \<le> length (replicate 8 (None :: 8 word option))"
  "6 = min (int 6) (int (length ram_file) - 0)" "4 = min (int 4) (int (length ram_file) - 2)"
  "0 mod st_blksize ram_stat = 0 \<or> 0 mod st_blksize ram_stat + 6 \<le> st_blksize ram_stat"
  "(4 :: int) \<le> st_blksize ram_stat" "st_blksize ram_stat < 2 mod st_blksize ram_stat + 4"
  by (simp_all add: ram_file_def ram_stat_def INT_MAX_def)

lemmas ram_aligned = ram_env ram_cache(1,2) ram_disk_blocks ram_buffer ram_range(7) order_refl ram_range(1,3,5,8,10)

theorem caching_read_correct_witness:
  "case caching_read the_ram_os (Some ''/f'') (0, 1) 6 0 ram_fi ram_state of
      Inl e \<Rightarrow> e = IntOverflow \<or> e = InvalidIterator
    | Inr (r, s') \<Rightarrow> r = (6, ram_fi) \<and>
        mheap s' 0 = Some [None, Some 10, Some 20, Some 30, Some 40, Some 50, Some 60, None]"
  using caching_read_correct [OF ram_aligned] unfolding ram_spliced by (auto split: sum.splits)

theorem caching_read_returns_witness:
  "\<exists>s'. caching_read the_ram_os (Some ''/f'') (0, 1) 6 0 ram_fi ram_state = Inr ((6, ram_fi), s') \<and>
     mheap s' 0 = Some [None, Some 10, Some 20, Some 30, Some 40, Some 50, Some 60, None]"
proof -
  have "nat (blocks_for (st_blksize ram_stat) 6) = 2" by (simp add: blocks_for_def ram_stat_def)
  then have "has_room 3 (cacheManager (world ram_state)) (nat (blocks_for (st_blksize ram_stat) 6))"
    using ram_cache(3) by (simp only:)
  from caching_read_returns [OF ram_aligned this] show ?thesis unfolding ram_spliced by auto
qed

theorem caching_read_end_of_file_witness:
  "\<exists>s'. caching_read the_ram_os (Some ''/f'') (0, 0) 4 8 ram_fi ram_state = Inr ((0, ram_fi), s') \<and>
     mheap s' = mheap ram_state"
  using caching_read_end_of_file [OF ram_env, of 8 "(0, 0)" 4] by (auto simp: ram_file_def)

theorem caching_read_unaligned_overruns_witness:
  "caching_read the_ram_os (Some ''/f'') (0, 0) 4 2 ram_fi ram_state = Inl OutOfBounds"
  by (rule caching_read_unaligned_overruns [OF ram_env ram_cache(1,2) ram_disk_blocks _ ram_range(2,4,6,9,11,12)
        ram_cache(4)]) simp

end
