(* ===== verification/CFS_Props.thy ===== *)
theory CFS_Props
  imports CFS_Main Read_Props
begin

text \<open>
  The properties of the program around the cache: which arguments \<^verbatim>\<open>main\<close> accepts and what it
  starts, which requests reach the log file, what reading a directory, renaming and \<^verbatim>\<open>ioctl\<close> do.
\<close>

section \<open>The arguments\<close>

lemma to_double_cases:
  obtains "to_double q = PInf" "2 ^ 1024 \<le> rnd q" | "to_double q = NInf" "rnd q \<le> - (2 ^ 1024)"
    | "to_double q = Fin (rnd q)"
proof -
  have "(let r = x in if M \<le> r then PInf else if r \<le> - M then NInf else Fin r) = PInf \<and> M \<le> x \<or>
      (let r = x in if M \<le> r then PInf else if r \<le> - M then NInf else Fin r) = NInf \<and> x \<le> - M \<or>
      (let r = x in if M \<le> r then PInf else if r \<le> - M then NInf else Fin r) = Fin x" for x M :: rat
    by auto
  from this [of "rnd q" "2 ^ 1024", folded to_double_def] show ?thesis using that by blast
qed

lemma rnd_upper: "q < of_int n \<Longrightarrow> in_int n \<Longrightarrow> 0 < n \<Longrightarrow> \<not> 2 ^ 1024 \<le> rnd q"
proof
  assume q: "q < of_int n" and n: "in_int n" "0 < n" and big: "2 ^ 1024 \<le> rnd q"
  have N: "(of_int n :: rat) \<le> 2147483647"
    using n by (metis INT_MAX_def in_int_def of_int_le_iff of_int_numeral)
  have e: "rnd q \<le> q + (\<bar>q\<bar> * ulp_rel + ulp_abs)" using rnd_error [of q] by linarith
  have "rnd q \<le> 2 ^ 60"
  proof (cases "0 \<le> q")
    case True
    then show ?thesis using e q N unfolding ulp_nums by simp
  next
    case False
    then show ?thesis using e unfolding ulp_nums by simp
  qed
  moreover have "(2 :: rat) ^ 60 < 2 ^ 1024" by (rule power_strict_increasing) simp_all
  ultimately show False using big by (meson le_less_trans linorder_not_le)
qed

lemma accepted_fraction:
  assumes f: "f \<noteq> NaN" "\<not> d_less (d_floor (d_mul f (d_of_int n))) (Fin 1)" "\<not> d_ge f (Fin 1)"
    and n: "in_int n" "0 < n"
  obtains q where "f = Fin q" "d_mul f (d_of_int n) = Fin (rnd (q * of_int n))" "1 \<le> \<lfloor>rnd (q * of_int n)\<rfloor>"
proof (cases f)
  case (Fin q)
  have q: "q < 1" using f(3) Fin by (auto simp: d_ge_def)
  have m: "d_mul f (d_of_int n) = to_double (q * of_int n)" using Fin n by (simp add: d_of_int_exact)
  have "q * of_int n < of_int n" using q n(2) by simp
  then have up: "\<not> 2 ^ 1024 \<le> rnd (q * of_int n)" by (rule rnd_upper [OF _ n])
  show ?thesis
  proof (cases rule: to_double_cases [of "q * of_int n"])
    case 2
    then show ?thesis using f(2) m by simp
  next
    case 3
    then show ?thesis using that [OF Fin] f(2) m by simp
  qed (use up in blast)
qed (use f n in \<open>auto simp: d_ge_def d_of_int_exact\<close>)

lemma accepted_sizes:
  assumes "\<not> numbers_rejected n fOld fNew" "fOld \<noteq> NaN" "fNew \<noteq> NaN" "in_int n"
  obtains newS oldS where "section_size fNew n = Inr newS" "section_size fOld n = Inr oldS" "sizes_ok n newS oldS"
proof -
  have n: "0 < n" and r: "\<not> d_less (d_floor (d_mul fOld (d_of_int n))) (Fin 1)" "\<not> d_ge fOld (Fin 1)"
      "\<not> d_less (d_floor (d_mul fNew (d_of_int n))) (Fin 1)" "\<not> d_ge fNew (Fin 1)"
      "\<not> d_less (Fin 1) (d_add fOld fNew)"
    using assms(1) unfolding numbers_rejected_def by auto
  obtain f1 where 1: "fOld = Fin f1" "d_mul fOld (d_of_int n) = Fin (rnd (f1 * of_int n))"
      "1 \<le> \<lfloor>rnd (f1 * of_int n)\<rfloor>"
    by (rule accepted_fraction [OF assms(2) r(1,2) assms(4) n])
  obtain f2 where 2: "fNew = Fin f2" "d_mul fNew (d_of_int n) = Fin (rnd (f2 * of_int n))"
      "1 \<le> \<lfloor>rnd (f2 * of_int n)\<rfloor>"
    by (rule accepted_fraction [OF assms(3) r(3,4) assms(4) n])
  have "rnd (f1 + f2) \<le> 1"
  proof (cases rule: to_double_cases [of "f1 + f2"])
    case 1
    then show ?thesis using r(5) \<open>fOld = Fin f1\<close> \<open>fNew = Fin f2\<close> by simp
  next
    case 2
    have "- ((2 :: rat) ^ 1024) \<le> 0" by (simp only: neg_le_0_iff_le zero_le_power zero_le_numeral)
    then show ?thesis using 2(2) by (meson order_trans zero_le_one)
  next
    case 3
    then show ?thesis using r(5) \<open>fOld = Fin f1\<close> \<open>fNew = Fin f2\<close> by simp
  qed
  then have sum: "\<lfloor>rnd (f1 * of_int n)\<rfloor> + \<lfloor>rnd (f2 * of_int n)\<rfloor> \<le> n"
    using section_sizes_fit [OF n _ 1(3) 2(3)] assms(4) by (simp add: in_int_def)
  have sz: "section_size fNew n = Inr \<lfloor>rnd (f2 * of_int n)\<rfloor>" "section_size fOld n = Inr \<lfloor>rnd (f1 * of_int n)\<rfloor>"
  proof -
    have i: "in_int \<lfloor>rnd (f1 * of_int n)\<rfloor>" "in_int \<lfloor>rnd (f2 * of_int n)\<rfloor>"
      using 1(3) 2(3) sum assms(4) unfolding int_defs by linarith+
    have d: "section_size f n = Inr k" if "d_mul f (d_of_int n) = Fin r" "k = \<lfloor>r\<rfloor>" "in_int k" "1 \<le> k" for f r k
      using that by (simp add: section_size_def chk_int_def)
    show "section_size fNew n = Inr \<lfloor>rnd (f2 * of_int n)\<rfloor>" by (rule d [OF 2(2) refl i(2) 2(3)])
    show "section_size fOld n = Inr \<lfloor>rnd (f1 * of_int n)\<rfloor>" by (rule d [OF 1(2) refl i(1) 1(3)])
  qed
  show ?thesis by (rule that [OF sz]) (use 1(3) 2(3) sum in \<open>simp add: sizes_ok_def\<close>)
qed

text \<open>
  (C7) Arguments that \<^verbatim>\<open>main\<close> accepts, neither of the fractions being a NaN and the number of blocks
  being below \<^const>\<open>INT_MAX\<close>, give a sound cache: the constructor returns, both section sizes are at
  least one and fit into the cache despite the rounding of the floating point products, and the new
  cache satisfies the invariant. With \<^const>\<open>INT_MAX\<close> blocks, which \<^verbatim>\<open>main\<close> accepts too, the constructor
  overflows an \<^verbatim>\<open>int\<close>.
\<close>

theorem accepted_arguments_build_cache:
  assumes "\<not> numbers_rejected n fOld fNew" "fOld \<noteq> NaN" "fNew \<noteq> NaN" "in_int n"
  shows "if n < INT_MAX then \<exists>newS oldS cm. new_CacheManager n fOld fNew = Inr cm \<and> sizes_ok n newS oldS \<and>
      cm_inv (nat newS) (nat (n - oldS)) cm \<and> abs_cache cm = replicate (nat n) null_block
    else new_CacheManager n fOld fNew = Inl IntOverflow"
proof -
  obtain newS oldS where "section_size fNew n = Inr newS" "section_size fOld n = Inr oldS" "sizes_ok n newS oldS"
    by (rule accepted_sizes [OF assms(1-4)])
  then show ?thesis
    using new_CacheManager_sizes build_CacheManager_inv new_CacheManager_max [OF _ _ _ assms(4)] by (simp, blast)
qed

text \<open>Six blocks, a quarter of them new and half of them old.\<close>

lemma half_numbers:
  "d_mul (Fin (1 / 2)) (d_of_int 6) = Fin 3" "d_mul (Fin (1 / 4)) (d_of_int 6) = Fin (3 / 2)"
  "to_double (3 / 4) = Fin (3 / 4)"
proof -
  have r: "rnd 3 = 3" "rnd (3 / 2) = 3 / 2" "rnd (3 / 4) = 3 / 4" by code_simp+
  have f: "to_double 3 = Fin 3" "to_double (3 / 2) = Fin (3 / 2)" "to_double (3 / 4) = Fin (3 / 4)"
    using to_double_Fin [of 3] to_double_Fin [of "3 / 2"] to_double_Fin [of "3 / 4"]
      small_below_max [of 3] small_below_max [of "3 / 2"] small_below_max [of "3 / 4"] unfolding r by simp_all
  have n: "d_of_int 6 = Fin 6" using d_of_int_exact [of 6] by (simp add: int_defs)
  show "d_mul (Fin (1 / 2)) (d_of_int 6) = Fin 3" "d_mul (Fin (1 / 4)) (d_of_int 6) = Fin (3 / 2)"
    "to_double (3 / 4) = Fin (3 / 4)"
    unfolding n by (simp_all add: f)
qed

lemma half_accepted: "\<not> numbers_rejected 6 (Fin (1 / 2)) (Fin (1 / 4))"
  by (simp add: numbers_rejected_def half_numbers d_ge_def)

theorem accepted_arguments_build_cache_witness:
  "\<exists>newS oldS cm. new_CacheManager 6 (Fin (1 / 2)) (Fin (1 / 4)) = Inr cm \<and> sizes_ok 6 newS oldS \<and>
     cm_inv (nat newS) (nat (6 - oldS)) cm \<and> abs_cache cm = replicate (nat 6) null_block"
  using accepted_arguments_build_cache [OF half_accepted] by (simp add: int_defs)

text \<open>
  (C32) A NaN slips through the validation: for a fraction of old blocks that is a NaN every
  comparison is false, so the arguments are accepted whenever the other two are good, and the
  constructor then converts a NaN to an integer, which is undefined.
\<close>

theorem nan_fraction_accepted:
  "(numbers_rejected n NaN fNew \<longleftrightarrow>
      d_less (d_floor (d_mul fNew (d_of_int n))) (Fin 1) \<or> d_ge fNew (Fin 1) \<or> n \<le> 0) \<and>
   new_CacheManager n NaN fNew = Inl IntOverflow"
proof -
  have nan: "d_mul NaN x = NaN" "d_add NaN x = NaN" for x by (cases x; simp)+
  have "section_size NaN n = Inl IntOverflow" by (simp add: section_size_def nan)
  moreover have "section_size fNew n = Inl e \<Longrightarrow> e = IntOverflow" for e
    by (cases "d_floor (d_mul fNew (d_of_int n))") (auto simp: section_size_def chk_int_def split: if_splits)
  ultimately have "new_CacheManager n NaN fNew = Inl IntOverflow"
    by (cases "section_size fNew n") (simp_all add: new_CacheManager_def)
  then show ?thesis by (simp add: numbers_rejected_def nan d_ge_def)
qed

section \<open>The program\<close>

text \<open>
  (C24) What \<^verbatim>\<open>main\<close> starts: when it reaches \<^verbatim>\<open>fuse_main\<close>, the arguments are the program name, the
  mount point and \<^verbatim>\<open>-s\<close>, the operations are those of the table, the user data is the
  structure with the resolved root directory and the log file inside it, the cache is new and
  satisfies the invariant; and the result of \<^verbatim>\<open>main\<close> is that of \<^verbatim>\<open>fuse_main\<close>. So it is for numbers that
  \<^verbatim>\<open>main\<close> accepts, when no fraction is a NaN and the number of blocks is below \<^const>\<open>INT_MAX\<close>; the two
  paths resolve to directories without a change of the system, the path of the log fits its array,
  and the log can be opened, which may change the system (the file is made).
\<close>

theorem main_starts_fuse:
  assumes acc: "\<not> numbers_rejected n fOld fNew" "fOld \<noteq> NaN" "fNew \<noteq> NaN" "in_int n" "n < INT_MAX"
    and conv: "stoi a3 = Some n" "stod a4 = Some fOld" "stod a5 = Some fNew"
    and real: "\<And>w. os_realpath os a1 w = (Some rd, w)" "\<And>w. os_realpath os a2 w = (Some md, w)"
    and dirs: "\<And>w. os_stat os rd w = (Inr stR, w)" "\<And>w. os_stat os md w = (Inr stM, w)"
      "S_ISDIR (st_mode stR)" "S_ISDIR (st_mode stM)"
    and log: "length rd + 16 < PATH_MAX" "os_fopen_append os (rd @ ''/.filesystem.log'') (os_state (world s)) = (True, w')"
  shows "\<exists>newS oldS cm. sizes_ok n newS oldS \<and> cm_inv (nat newS) (nat (n - oldS)) cm \<and>
    main os stoi stod fuse_main [a0, a1, a2, a3, a4, a5] s =
      bind_res (fuse_main [a0, a2, ''-s''] (init_caching_oper os) cfs_addr
          (s\<lparr>world := (world s)\<lparr>cacheManager := cm, cfs_at :=
              [cfs_addr \<mapsto> \<lparr>logfile_full_path = rd @ ''/.filesystem.log'', rootdir = rd\<rparr>], os_state := w'\<rparr>\<rparr>))
        (\<lambda>(r, s'). Inr (r, s'\<lparr>world := (world s')
            \<lparr>cacheManager := delete_CacheManager (cacheManager (world s'))\<rparr>\<rparr>))"
proof -
  obtain newS oldS where sz: "section_size fNew n = Inr newS" "section_size fOld n = Inr oldS" "sizes_ok n newS oldS"
    by (rule accepted_sizes [OF acc(1-4)])
  let ?cm = "build_CacheManager n newS oldS"
  have cm: "new_CacheManager n fOld fNew = Inr ?cm" "cm_inv (nat newS) (nat (n - oldS)) ?cm"
    using new_CacheManager_sizes [OF sz acc(5)] build_CacheManager_inv [OF sz(3)] by simp_all
  have d: "dirs_valid os (Some rd) (Some md) t = (True, t)" for t
    using dirs by (simp add: dirs_valid_def with_os_def)
  have w: "with_os (os_realpath os a1) t = (Some rd, t)" "with_os (os_realpath os a2) t = (Some md, t)"
    for t using real by (simp_all add: with_os_def)
  have lo: "with_os (os_fopen_append os (rd @ ''/.filesystem.log'')) t = (True, t\<lparr>world := (world t)\<lparr>os_state := w'\<rparr>\<rparr>)"
    if "os_state (world t) = os_state (world s)" for t
    using log(2) that by (simp add: with_os_def)
  have lp: "log_path rd = Inr (rd @ ''/.filesystem.log'')"
    using log(1) by (simp add: log_path_def logfile_name_def PATH_MAX_def)
  have "main os stoi stod fuse_main [a0, a1, a2, a3, a4, a5] s =
      bind_res (fuse_main [a0, a2, ''-s''] (init_caching_oper os) cfs_addr
          (s\<lparr>world := (world s)\<lparr>cacheManager := ?cm, cfs_at :=
              [cfs_addr \<mapsto> \<lparr>logfile_full_path = rd @ ''/.filesystem.log'', rootdir = rd\<rparr>], os_state := w'\<rparr>\<rparr>))
        (\<lambda>(r, s'). Inr (r, s'\<lparr>world := (world s')
            \<lparr>cacheManager := delete_CacheManager (cacheManager (world s'))\<rparr>\<rparr>))"
    using acc(1) by (simp add: main_def ARGS_NUM_def conv numeral_eq_Suc w d cm(1) set_root_dir_def lp open_log_def lo)
  then show ?thesis using sz(3) cm(2) by blast
qed

text \<open>Two directories, and a run of \<^verbatim>\<open>fuse_main\<close> that returns at once.\<close>

abbreviation dir_os :: "unit os" where
  "dir_os \<equiv> ram_os ram_file (ram_stat\<lparr>st_mode := 0x4000\<rparr>)"

theorem main_starts_fuse_witness:
  "\<exists>s'. main dir_os (\<lambda>_. Some 6) (\<lambda>t. Some (if t = ''0.5'' then Fin (1 / 2) else Fin (1 / 4)))
     (\<lambda>argv ops u s. Inr (if argv = [''cfs'', ''/m'', ''-s''] then 0 else 1, s))
     [''cfs'', ''/r'', ''/m'', ''6'', ''0.5'', ''0.25''] ram_state = Inr (0, s')"
proof -
  have "\<exists>newS oldS cm. sizes_ok 6 newS oldS \<and> cm_inv (nat newS) (nat (6 - oldS)) cm \<and>
    main dir_os (\<lambda>_. Some 6) (\<lambda>t. Some (if t = ''0.5'' then Fin (1 / 2) else Fin (1 / 4)))
      (\<lambda>argv ops u s. Inr (if argv = [''cfs'', ''/m'', ''-s''] then 0 else 1, s))
      [''cfs'', ''/r'', ''/m'', ''6'', ''0.5'', ''0.25''] ram_state =
    bind_res (Inr (if [''cfs'', ''/m'', ''-s''] = [''cfs'', ''/m'', ''-s''] then 0 else 1,
        ram_state\<lparr>world := (world ram_state)\<lparr>cacheManager := cm, cfs_at :=
              [cfs_addr \<mapsto> \<lparr>logfile_full_path = ''/r'' @ ''/.filesystem.log'', rootdir = ''/r''\<rparr>], os_state := ()\<rparr>\<rparr>))
      (\<lambda>(r, s'). Inr (r, s'\<lparr>world := (world s')
          \<lparr>cacheManager := delete_CacheManager (cacheManager (world s'))\<rparr>\<rparr>))"
    by (rule main_starts_fuse [OF half_accepted, where md = "''/m''" and stR = "ram_stat\<lparr>st_mode := 0x4000\<rparr>"
          and stM = "ram_stat\<lparr>st_mode := 0x4000\<rparr>"])
      (simp_all add: ram_os_def int_defs S_ISDIR_def PATH_MAX_def)
  then show ?thesis by auto
qed

text \<open>
  \<^verbatim>\<open>main\<close> rejects what it should before anything is built: with a wrong number of arguments, or
  numbers that fail the test, it exits with status 1 and never reaches \<^verbatim>\<open>fuse_main\<close>.
\<close>

theorem main_rejects:
  "length argv \<noteq> 6 \<or>
     (\<exists>n fOld fNew. stoi (argv ! 3) = Some n \<and> stod (argv ! 4) = Some fOld \<and> stod (argv ! 5) = Some fNew \<and>
        numbers_rejected n fOld fNew)
   \<Longrightarrow> main os stoi stod fuse_main argv s = Inl (ExitCall 1)"
  by (auto simp: main_def ARGS_NUM_def case_prod_beta)

theorem main_rejects_witness:
  "main the_ram_os (\<lambda>_. Some 0) (\<lambda>_. Some NaN) (\<lambda>_ _ _ s. Inr (0, s)) [] ram_state = Inl (ExitCall 1)"
  by (rule main_rejects) simp

section \<open>The log file\<close>

text \<open>
  (C25) Nine handlers refuse a request whose path is that of the log file, before any system call but
  the clock's, and change nothing but the log itself. \<^verbatim>\<open>getattr\<close>, \<^verbatim>\<open>access\<close>, \<^verbatim>\<open>opendir\<close>, \<^verbatim>\<open>read\<close> and
  \<^verbatim>\<open>release\<close> answer with \<^const>\<open>ENOENT\<close>, and so does \<^verbatim>\<open>rename\<close>, which looks at the old path only;
  \<^verbatim>\<open>fgetattr\<close>, \<^verbatim>\<open>open\<close> and \<^verbatim>\<open>flush\<close> answer with \<^const>\<open>ENONET\<close>. Nothing is said of the other handlers:
  \<^verbatim>\<open>releasedir\<close> compares a path without the root directory, \<^verbatim>\<open>readdir\<close> and \<^verbatim>\<open>ioctl\<close> do not look at the path.
\<close>

theorem log_file_refused:
  assumes "cfs_ready c pth s" "rootdir c @ pth = logfile_full_path c"
  shows "caching_getattr os pth st s = Inr ((- ENOENT, st), logged os ''getattr'' s) \<and>
    caching_access os pth m s = Inr (- ENOENT, logged os ''access'' s) \<and>
    caching_opendir os pth fi s = Inr ((- ENOENT, fi), logged os ''opendir'' s) \<and>
    caching_read os (Some pth) buf sz off fi s = Inr ((- ENOENT, fi), logged os ''read'' s) \<and>
    caching_release os (Some pth) fi s = Inr ((- ENOENT, fi), logged os ''release'' s) \<and>
    (cfs_ready c new s \<longrightarrow> caching_rename os pth new s = Inr (- ENOENT, logged os ''rename'' s)) \<and>
    caching_fgetattr os (Some pth) st fi s = Inr ((- ENONET, st, fi), logged os ''fgetattr'' s) \<and>
    caching_open os pth fi s = Inr ((- ENONET, fi), logged os ''open'' s) \<and>
    caching_flush os (Some pth) fi s = Inr ((- ENONET, fi), logged os ''flush'' s)"
  using assms
  by (simp add: caching_getattr_def caching_access_def caching_opendir_def caching_read_def caching_release_def
      caching_rename_def caching_fgetattr_def caching_open_def caching_flush_def cfs_simps errno_defs)

lemma ram_ready: "length pth \<le> 100 \<Longrightarrow> cfs_ready ram_conf pth ram_state"
  by (simp add: cfs_ready_def ram_state_def ram_conf_def PATH_MAX_def)

theorem log_file_refused_witness:
  "caching_open the_ram_os ''/.filesystem.log'' ram_fi ram_state =
     Inr ((-64, ram_fi), logged the_ram_os ''open'' ram_state)"
  using log_file_refused [OF ram_ready, of "''/.filesystem.log''" the_ram_os]
  by (simp add: ram_conf_def ENONET_def)

text \<open>
  (C33) A path that is too long is not refused: when root directory and path together need more than
  \<^const>\<open>PATH_MAX\<close> bytes, each of the ten handlers that build the full path writes past the end of its
  array: \<^verbatim>\<open>getattr\<close>, \<^verbatim>\<open>fgetattr\<close>, \<^verbatim>\<open>access\<close>, \<^verbatim>\<open>open\<close>, \<^verbatim>\<open>read\<close>, \<^verbatim>\<open>flush\<close>, \<^verbatim>\<open>release\<close> and \<^verbatim>\<open>opendir\<close> always,
  \<^verbatim>\<open>rename\<close> when either of its paths is too long, and \<^verbatim>\<open>readdir\<close> when the directory has an entry left.
\<close>

theorem long_path_overruns:
  assumes "cfs_at (world s) (private_data s) = Some c" "PATH_MAX \<le> length (rootdir c) + length pth"
  shows "caching_getattr os pth st s = Inl OutOfBounds \<and> caching_fgetattr os (Some pth) st fi s = Inl OutOfBounds \<and>
    caching_access os pth m s = Inl OutOfBounds \<and> caching_open os pth fi s = Inl OutOfBounds \<and>
    caching_read os (Some pth) buf sz off fi s = Inl OutOfBounds \<and> caching_flush os (Some pth) fi s = Inl OutOfBounds \<and>
    caching_release os (Some pth) fi s = Inl OutOfBounds \<and> caching_opendir os pth fi s = Inl OutOfBounds \<and>
    caching_rename os pth other s = Inl OutOfBounds \<and> caching_rename os other pth s = Inl OutOfBounds \<and>
    (fst (os_readdir os (fi_fh fi) (snd (os_time os (os_state (world s))))) \<noteq> None \<longrightarrow>
       caching_readdir os (Some pth) fl off fi s = Some (Inl OutOfBounds))"
proof -
  have lg: "log_call os nm s = Inr (logged os nm s)" for nm
    using assms(1) by (simp add: log_call_def logged_def case_prod_beta CF_LOG_def cfs_simps)
  have fp: "caching_full_path pth t = Inl OutOfBounds" if "cfs_at (world t) (private_data t) = Some c" for t :: "'a cfs"
    using that assms(2) by (auto simp: caching_full_path_def CF_LOG_def min_def)
  have ct: "cfs_at (world (logged os nm s)) (private_data (logged os nm s)) = Some c" for nm
    using assms(1) by (simp add: cfs_simps)
  have fo: "caching_full_path other (logged os nm s) = Inl OutOfBounds \<or> (\<exists>fo. caching_full_path other (logged os nm s) = Inr fo)" for nm
    using ct by (simp add: caching_full_path_def CF_LOG_def)
  have rd: "caching_readdir os (Some pth) fl off fi s = Some (Inl OutOfBounds)"
    if some: "fst (os_readdir os (fi_fh fi) (snd (os_time os (os_state (world s))))) \<noteq> None"
  proof -
    let ?t = "logged os ''readdir'' s"
    obtain e where e: "fst (with_os (os_readdir os (fi_fh fi)) ?t) = Some e" using some by (auto simp: cfs_simps)
    obtain t1 where "with_os (os_readdir os (fi_fh fi)) ?t = (Some e, t1)" "cfs_at (world t1) (private_data t1) = Some c"
      using e ct [of "''readdir''"] with_os_frame(3,6) [of "os_readdir os (fi_fh fi)" ?t] by (metis prod.collapse)
    then have "readdir_loop os pth fl (fi_fh fi) ?t = Some (Inl OutOfBounds)"
      by (subst readdir_loop.simps) (simp add: fp)
    then show ?thesis by (simp add: caching_readdir_def lg)
  qed
  have rn: "caching_rename os other pth s = Inl OutOfBounds"
    using fo [of "''rename''"] by (auto simp: caching_rename_def lg fp [OF ct])
  note simps = lg fp [OF ct]
  show ?thesis
    using rn rd by (simp add: simps caching_getattr_def caching_fgetattr_def caching_access_def caching_open_def
        caching_read_def caching_flush_def caching_release_def caching_opendir_def caching_rename_def)
qed

theorem long_path_overruns_witness:
  "caching_open the_ram_os (replicate 4094 (CHR ''a'')) ram_fi ram_state = Inl OutOfBounds"
  using long_path_overruns [of ram_state ram_conf "replicate 4094 (CHR ''a'')" the_ram_os]
  by (simp add: ram_state_def ram_conf_def PATH_MAX_def)

section \<open>Directories\<close>

text \<open>The entries that a directory stream still holds in a state of the operating system.\<close>

fun dir_stream :: "'o os \<Rightarrow> int \<Rightarrow> 'o \<Rightarrow> dirent list \<Rightarrow> bool" where
  "dir_stream os dp w [] \<longleftrightarrow> fst (os_readdir os dp w) = None"
| "dir_stream os dp w (e # es) \<longleftrightarrow>
     fst (os_readdir os dp w) = Some e \<and> dir_stream os dp (snd (os_readdir os dp w)) es"

definition shown :: "string \<Rightarrow> dirent \<Rightarrow> bool" where
  "shown pn e \<longleftrightarrow> \<not> (d_name e = logfile_name \<and> pn = ''/'')"

definition entry_stat :: "dirent \<Rightarrow> stat" where
  "entry_stat e = zero_stat\<lparr>st_ino := d_ino e\<rparr>"

text \<open>A filler that takes every entry and touches only memory.\<close>

definition taking_filler ::
  "'o cfs_mem filler \<Rightarrow> (string \<Rightarrow> stat \<Rightarrow> heap \<Rightarrow> heap) \<Rightarrow> bool" where
  "taking_filler fl g \<longleftrightarrow> (\<forall>nm st s. fl nm (Some st) 0 s = Inr (0, s\<lparr>mheap := g nm st (mheap s)\<rparr>))"

lemma readdir_loop_all:
  assumes "dir_stream os dp (os_state (world s)) es" "cfs_ready c pn s" "taking_filler fl g"
  shows "\<exists>s'. readdir_loop os pn fl dp s = Some (Inr (0, s')) \<and> cacheManager (world s') = cacheManager (world s) \<and>
    mheap s' = fold (\<lambda>e. g (d_name e) (entry_stat e)) (filter (shown pn) es) (mheap s)"
  using assms(1,2)
proof (induction es arbitrary: s)
  case Nil
  then have "with_os (os_readdir os dp) s = (None, snd (with_os (os_readdir os dp) s))"
    by (subst with_os_split) simp
  then obtain s1 where "with_os (os_readdir os dp) s = (None, s1)" "mheap s1 = mheap s"
      "cacheManager (world s1) = cacheManager (world s)"
    using with_os_frame(1,5) by blast
  then show ?case by (subst readdir_loop.simps) simp
next
  case (Cons e es)
  define s1 where "s1 = snd (with_os (os_readdir os dp) s)"
  have r: "with_os (os_readdir os dp) s = (Some e, s1)"
    using Cons.prems(1) unfolding s1_def by (subst with_os_split) simp
  have s1: "dir_stream os dp (os_state (world s1)) es" "cfs_ready c pn s1" "mheap s1 = mheap s"
      "cacheManager (world s1) = cacheManager (world s)"
    using Cons.prems by (simp_all add: s1_def cfs_simps cfs_ready_def)
  let ?s2 = "s1\<lparr>mheap := g (d_name e) (entry_stat e) (mheap s1)\<rparr>"
  have fill: "fl (d_name e) (Some (zero_stat\<lparr>st_ino := d_ino e\<rparr>)) 0 s1 = Inr (0, ?s2)"
    using assms(3) by (simp add: taking_filler_def entry_stat_def)
  have step: "readdir_loop os pn fl dp s = readdir_loop os pn fl dp (if shown pn e then ?s2 else s1)"
    by (subst readdir_loop.simps) (simp add: r full_path_ready [OF s1(2)] fill shown_def)
  show ?case
  proof (cases "shown pn e")
    case True
    have "dir_stream os dp (os_state (world ?s2)) es" "cfs_ready c pn ?s2" using s1(1,2) by (simp_all add: cfs_ready_def)
    from Cons.IH [OF this] show ?thesis unfolding step using True s1 by simp
  next
    case False
    from Cons.IH [OF s1(1,2)] show ?thesis unfolding step using False s1 by simp
  qed
qed

text \<open>
  (C26) Reading a directory ends and is complete: for a directory stream with finitely many entries
  and a filler that takes them, \<^verbatim>\<open>caching_readdir\<close> returns 0 after it has passed on every entry
  in order, except for the log file in the root directory.
\<close>

theorem caching_readdir_complete:
  assumes "cfs_ready c pn s" "taking_filler fl g"
    "dir_stream os (fi_fh fi) (snd (os_time os (os_state (world s)))) es"
  shows "\<exists>s'. caching_readdir os (Some pn) fl off fi s = Some (Inr ((0, fi), s')) \<and>
    mheap s' = fold (\<lambda>e. g (d_name e) (entry_stat e))
      (filter (\<lambda>e. \<not> (d_name e = ''.filesystem.log'' \<and> pn = ''/'')) es) (mheap s)"
proof -
  have r: "cfs_ready c pn (logged os ''readdir'' s)" using assms(1) by (simp add: cfs_simps)
  have d: "dir_stream os (fi_fh fi) (os_state (world (logged os ''readdir'' s))) es"
    using assms(3) by (simp add: cfs_simps)
  have sh: "(\<lambda>e. \<not> (d_name e = ''.filesystem.log'' \<and> pn = ''/'')) = shown pn"
    by (simp add: shown_def [abs_def] logfile_name_def)
  from readdir_loop_all [OF d r assms(2)] show ?thesis
    unfolding sh using assms(1) by (auto simp: caching_readdir_def cfs_simps)
qed

theorem caching_readdir_complete_witness:
  "\<exists>s'. caching_readdir the_ram_os (Some ''/'') (\<lambda>nm st off s. Inr (0, s\<lparr>mheap := Map.empty\<rparr>)) 0 ram_fi ram_state =
     Some (Inr ((0, ram_fi), s')) \<and> mheap s' = mheap ram_state"
  using caching_readdir_complete [of ram_conf "''/''" ram_state "\<lambda>nm st off s. Inr (0, s\<lparr>mheap := Map.empty\<rparr>)"
      "\<lambda>_ _ _. Map.empty" the_ram_os ram_fi "[]" 0]
  by (auto simp: ram_ready taking_filler_def ram_os_def)

section \<open>Renaming and logging\<close>

text \<open>
  (C21) A rename keeps cache and disk together: when the operating system renames the file, every
  cached block below the old path gets the new path and no other block changes; when it
  refuses, the cache stays as it was and its error is returned.
\<close>

theorem caching_rename_follows:
  assumes "cfs_ready c a s" "cfs_ready c b s" "rootdir c @ a \<noteq> logfile_full_path c"
    "norm_path a" "norm_path b" "cm_inv n p (cacheManager (world s))" "paths_ok (abs_cache (cacheManager (world s)))"
  shows "case fst (os_rename os (rootdir c @ a) (rootdir c @ b) (snd (os_time os (os_state (world s))))) of
      Inl e \<Rightarrow> \<exists>s'. caching_rename os a b s = Inr (- e, s') \<and> cacheManager (world s') = cacheManager (world s)
    | Inr _ \<Rightarrow> \<exists>s'. caching_rename os a b s = Inr (0, s') \<and> cm_inv n p (cacheManager (world s')) \<and>
        abs_cache (cacheManager (world s')) = map (rename_block a b) (abs_cache (cacheManager (world s)))"
proof -
  let ?s1 = "logged os ''rename'' s"
  define r where "r = fst (os_rename os (rootdir c @ a) (rootdir c @ b) (os_state (world ?s1)))"
  define s2 where "s2 = snd (with_os (os_rename os (rootdir c @ a) (rootdir c @ b)) ?s1)"
  have w: "with_os (os_rename os (rootdir c @ a) (rootdir c @ b)) ?s1 = (r, s2)"
    unfolding r_def s2_def by (rule with_os_split)
  have cm: "cacheManager (world s2) = cacheManager (world s)" by (simp add: s2_def cfs_simps)
  have "caching_full_path a ?s1 = Inr (rootdir c @ a)" "caching_full_path b ?s1 = Inr (rootdir c @ b)"
    "refering_logfile (rootdir c @ a) ?s1 = Inr 0" "log_call os ''rename'' s = Inr ?s1"
    using assms(1-3) by (simp_all add: cfs_simps)
  then have eq: "caching_rename os a b s = (case r of Inl e \<Rightarrow> Inr (- e, s2)
      | Inr _ \<Rightarrow> bind_res (updatePaths (cacheManager (world s)) a b) (\<lambda>cm.
          Inr (0, s2\<lparr>world := (world s2)\<lparr>cacheManager := cm\<rparr>\<rparr>)))"
    using cm by (simp add: caching_rename_def w split: sum.split)
  obtain cm' where "updatePaths (cacheManager (world s)) a b = Inr cm'" "cm_inv n p cm'"
    "abs_cache cm' = map (rename_block a b) (abs_cache (cacheManager (world s)))"
    by (rule updatePaths_refines [OF assms(6,4,5,7)])
  then show ?thesis using eq cm unfolding r_def by (auto simp: cfs_simps split: sum.splits)
qed

theorem caching_rename_follows_witness:
  "\<exists>s'. caching_rename the_ram_os ''/f'' ''/g'' ram_state = Inr (0, s') \<and> cm_inv 1 3 (cacheManager (world s'))"
proof -
  have c: "cacheManager (world ram_state) = small_cache" by (simp add: ram_state_def)
  have "paths_ok (abs_cache (cacheManager (world ram_state)))"
    unfolding c by (simp add: paths_ok_def small_cache_inv(2) null_block_def new_CacheBlock_def NULL_BLOCK_def)
  moreover have "cm_inv 1 3 (cacheManager (world ram_state))" unfolding c by (rule small_cache_inv)
  ultimately show ?thesis
    using caching_rename_follows [OF ram_ready ram_ready, of "''/f''" "''/g''" 1 3 the_ram_os]
    by (auto simp: ram_conf_def norm_path_def ram_os_def)
qed

text \<open>
  \<^verbatim>\<open>ioctl\<close> writes the cache to the log: after the line of the call itself the log gets the text of
  the cache, and nothing else changes.
\<close>

theorem caching_ioctl_logs_cache:
  assumes "cfs_ready c [] s" "cm_inv n p (cacheManager (world s))" "numbers_ok (abs_cache (cacheManager (world s)))"
  shows "\<exists>s'. caching_ioctl os pn cmd arg fi flags data s = Inr ((0, fi), s') \<and>
    cacheManager (world s') = cacheManager (world s) \<and>
    log_text (world s') = log_text (world s) @ show_int (fst (os_time os (os_state (world s)))) @ '' ioctl'' @ [newline]
      @ concat (rev (map block_text (filter (\<lambda>b. \<not> is_null b) (abs_cache (cacheManager (world s))))))"
proof -
  let ?s1 = "logged os ''ioctl'' s"
  have r: "cfs_ready c [] ?s1" using assms(1) by (simp add: cfs_simps)
  note t = cacheToString_text [OF assms(2,3)]
  show ?thesis
    using log_call_ready [OF assms(1)] CF_LOG_ready [OF r] t
    by (auto simp: caching_ioctl_def ioctl_log_def log_append_def cfs_simps)
qed

theorem caching_ioctl_logs_cache_witness:
  "\<exists>s'. caching_ioctl the_ram_os None 0 0 ram_fi 0 None ram_state = Inr ((0, ram_fi), s') \<and>
     log_text (world s') = ''0 ioctl'' @ [newline]"
proof -
  have c: "cacheManager (world ram_state) = small_cache" by (simp add: ram_state_def)
  have "numbers_ok (abs_cache (cacheManager (world ram_state)))"
    unfolding c by (simp add: numbers_ok_def small_cache_inv(2) null_block_def new_CacheBlock_def INT_MAX_def)
  moreover have "cm_inv 1 3 (cacheManager (world ram_state))" unfolding c by (rule small_cache_inv)
  moreover have "filter (\<lambda>b. \<not> is_null b) (abs_cache (cacheManager (world ram_state))) = []"
    unfolding c by (simp add: small_cache_inv(2))
  moreover have "log_text (world ram_state) = []" "show_int (fst (os_time the_ram_os (os_state (world ram_state)))) = ''0''"
    by (simp_all add: ram_state_def ram_os_def show_int_def show_nat.simps digit_chars)
  ultimately show ?thesis
    using caching_ioctl_logs_cache [OF ram_ready, of 1 3 the_ram_os None 0 0 ram_fi 0 None] by auto
qed

end
