(* ===== verification/Fuse_Buf.thy ===== *)
theory Fuse_Buf
  imports Fuse_Types
begin

text \<open>
  The buffer vectors of libfuse (\<^verbatim>\<open>lib/buffer.c\<close>): data moves between memory and file
  descriptors, in any combination, through vectors of buffers with a current position. The
  system calls are a record of functions on the world; a call that reports more bytes than it
  was given breaks its contract and stops the model with a fault.
\<close>

section \<open>System calls on descriptors\<close>

record 'w fdops =
  fd_write :: "int \<Rightarrow> mbytes \<Rightarrow> 'w \<Rightarrow> (int + 64 word) \<times> 'w"
  fd_pwrite :: "int \<Rightarrow> mbytes \<Rightarrow> int \<Rightarrow> 'w \<Rightarrow> (int + 64 word) \<times> 'w"
  fd_read :: "int \<Rightarrow> 64 word \<Rightarrow> 'w \<Rightarrow> (int + mbytes) \<times> 'w"
  fd_pread :: "int \<Rightarrow> 64 word \<Rightarrow> int \<Rightarrow> 'w \<Rightarrow> (int + mbytes) \<times> 'w"
  fd_splice :: "int \<Rightarrow> int option \<Rightarrow> int \<Rightarrow> int option \<Rightarrow> 64 word \<Rightarrow> bool \<Rightarrow> bool \<Rightarrow> 'w \<Rightarrow> (int + 64 word) \<times> 'w"

text \<open>\<^verbatim>\<open>enum fuse_buf_copy_flags\<close>\<close>

record copy_flags =
  no_splice :: bool
  force_splice :: bool
  splice_move :: bool
  splice_nonblock :: bool

definition ptr_add :: "ptr \<Rightarrow> 64 word \<Rightarrow> ptr" where
  "ptr_add p n = (fst p, snd p + unat n)"

definition SIZE_MAX :: "64 word" where "SIZE_MAX = - 1"

section \<open>Sizes\<close>

fun buf_size_loop :: "fuse_buf list \<Rightarrow> 64 word \<Rightarrow> 64 word" where
  "buf_size_loop [] sz = sz"
| "buf_size_loop (b # bs) sz =
     buf_size_loop bs (if buf_size b = SIZE_MAX then SIZE_MAX else sz + buf_size b)"

definition fuse_buf_size :: "fuse_bufvec \<Rightarrow> 64 word" where
  "fuse_buf_size bufv = buf_size_loop (bv_bufs bufv) 0"

definition min_size :: "64 word \<Rightarrow> 64 word \<Rightarrow> 64 word" where
  "min_size s1 s2 = (if s1 < s2 then s1 else s2)"

section \<open>One buffer\<close>

text \<open>From memory to a descriptor.\<close>

function fuse_buf_write ::
  "'w fdops \<Rightarrow> fuse_buf \<Rightarrow> 64 word \<Rightarrow> fuse_buf \<Rightarrow> 64 word \<Rightarrow> 64 word \<Rightarrow> 64 word \<Rightarrow> (int, 'w) act" where
  "fuse_buf_write ops dst dst_off src src_off len copied s =
     (if len = 0 then Inr (sint copied, s)
      else
        bind_res (mem_read (mheap s) (ptr_add (buf_mem src) src_off) (unat len)) (\<lambda>bytes.
        case (if buf_fd_seek dst
              then fd_pwrite ops (buf_fd dst) bytes (buf_pos dst + uint dst_off) (world s)
              else fd_write ops (buf_fd dst) bytes (world s)) of
          (Inl e, w) \<Rightarrow> Inr (if copied = 0 then - e else sint copied, s\<lparr>world := w\<rparr>)
        | (Inr res, w) \<Rightarrow>
            if res = 0 then Inr (sint copied, s\<lparr>world := w\<rparr>)
            else if len < res then Inl OutOfBounds
            else if \<not> buf_fd_retry dst then Inr (sint (copied + res), s\<lparr>world := w\<rparr>)
            else fuse_buf_write ops dst (dst_off + res) src (src_off + res) (len - res) (copied + res)
                   (s\<lparr>world := w\<rparr>)))"
  by pat_completeness auto
termination
  by (relation "measure (\<lambda>(ops, dst, dst_off, src, src_off, len, copied, s). unat len)")
    (auto simp: unat_sub word_le_nat_alt word_less_nat_alt unat_gt_0)

text \<open>From a descriptor to memory.\<close>

function fuse_buf_read ::
  "'w fdops \<Rightarrow> fuse_buf \<Rightarrow> 64 word \<Rightarrow> fuse_buf \<Rightarrow> 64 word \<Rightarrow> 64 word \<Rightarrow> 64 word \<Rightarrow> (int, 'w) act" where
  "fuse_buf_read ops dst dst_off src src_off len copied s =
     (if len = 0 then Inr (sint copied, s)
      else
        (case (if buf_fd_seek src
               then fd_pread ops (buf_fd src) len (buf_pos src + uint src_off) (world s)
               else fd_read ops (buf_fd src) len (world s)) of
           (Inl e, w) \<Rightarrow> Inr (if copied = 0 then - e else sint copied, s\<lparr>world := w\<rparr>)
         | (Inr bytes, w) \<Rightarrow>
             bind_res (mem_write (mheap s) (ptr_add (buf_mem dst) dst_off) bytes) (\<lambda>h.
             let s1 = s\<lparr>world := w, mheap := h\<rparr>; res = word_of_nat (length bytes) in
             if res = 0 then Inr (sint copied, s1)
             else if len < res then Inl OutOfBounds
             else if \<not> buf_fd_retry src then Inr (sint (copied + res), s1)
             else fuse_buf_read ops dst (dst_off + res) src (src_off + res) (len - res) (copied + res) s1)))"
  by pat_completeness auto
termination
  by (relation "measure (\<lambda>(ops, dst, dst_off, src, src_off, len, copied, s). unat len)")
    (auto simp: unat_sub word_le_nat_alt word_less_nat_alt unat_gt_0)

declare fuse_buf_write.simps [simp del] fuse_buf_read.simps [simp del]

text \<open>From a descriptor to a descriptor, through an array of 4096 bytes on the stack.\<close>

definition tmp_buf :: "nat \<Rightarrow> fuse_buf" where
  "tmp_buf a = \<lparr>buf_size = 4096, buf_is_fd = False, buf_fd_seek = False, buf_fd_retry = False,
     buf_mem = (a, 0), buf_fd = 0, buf_pos = 0\<rparr>"

function fd_to_fd_loop ::
  "'w fdops \<Rightarrow> fuse_buf \<Rightarrow> fuse_buf \<Rightarrow> 64 word \<Rightarrow> fuse_buf \<Rightarrow> 64 word \<Rightarrow> 64 word \<Rightarrow> 64 word \<Rightarrow> (int, 'w) act" where
  "fd_to_fd_loop ops tmp dst dst_off src src_off len copied s =
     (if len = 0 then Inr (sint copied, s)
      else
        (let this_len = min_size (buf_size tmp) len in
         bind_res (fuse_buf_read ops tmp 0 src src_off this_len 0 s) (\<lambda>(res, s1).
         if res < 0 then Inr (if copied = 0 then res else sint copied, s1)
         else if res = 0 then Inr (sint copied, s1)
         else
           (let read_len = word_of_int res in
            bind_res (fuse_buf_write ops dst dst_off tmp 0 read_len 0 s1) (\<lambda>(res2, s2).
            if res2 < 0 then Inr (if copied = 0 then res2 else sint copied, s2)
            else if res2 = 0 then Inr (sint copied, s2)
            else
              (let r = word_of_int res2 in
               if r < this_len then Inr (sint (copied + r), s2)
               else if len < r \<or> r = 0 then Inl OutOfBounds
               else fd_to_fd_loop ops tmp dst (dst_off + r) src (src_off + r) (len - r) (copied + r) s2))))))"
  by pat_completeness auto
termination
  by (relation "measure (\<lambda>(ops, tmp, dst, dst_off, src, src_off, len, copied, s). unat len)")
    (auto simp: unat_sub word_le_nat_alt word_less_nat_alt unat_gt_0)

declare fd_to_fd_loop.simps [simp del]

definition fuse_buf_fd_to_fd ::
  "'w fdops \<Rightarrow> fuse_buf \<Rightarrow> 64 word \<Rightarrow> fuse_buf \<Rightarrow> 64 word \<Rightarrow> 64 word \<Rightarrow> (int, 'w) act" where
  "fuse_buf_fd_to_fd ops dst dst_off src src_off len s =
     (let a = mnext s; s1 = s\<lparr>mheap := (mheap s)(a \<mapsto> replicate 4096 None), mnext := Suc a\<rparr> in
      bind_res (fd_to_fd_loop ops (tmp_buf a) dst dst_off src src_off len 0 s1) (\<lambda>(res, s2).
      Inr (res, s2\<lparr>mheap := (mheap s2)(a := None)\<rparr>)))"

text \<open>\<^verbatim>\<open>splice\<close> moves the two positions itself.\<close>

definition advance_pos :: "int option \<Rightarrow> 64 word \<Rightarrow> int option" where
  "advance_pos p res = map_option (\<lambda>x. x + uint res) p"

function splice_loop ::
  "'w fdops \<Rightarrow> fuse_buf \<Rightarrow> 64 word \<Rightarrow> fuse_buf \<Rightarrow> 64 word \<Rightarrow> copy_flags \<Rightarrow> int option \<Rightarrow> int option \<Rightarrow>
     64 word \<Rightarrow> 64 word \<Rightarrow> (int, 'w) act" where
  "splice_loop ops dst dst_off src src_off flags srcpos dstpos len copied s =
     (if len = 0 then Inr (sint copied, s)
      else
        (case fd_splice ops (buf_fd src) srcpos (buf_fd dst) dstpos len (splice_move flags)
                (splice_nonblock flags) (world s) of
           (Inl e, w) \<Rightarrow>
             (let s1 = s\<lparr>world := w\<rparr> in
              if copied \<noteq> 0 then Inr (sint copied, s1)
              else if e \<noteq> EINVAL \<or> force_splice flags then Inr (- e, s1)
              else fuse_buf_fd_to_fd ops dst dst_off src src_off len s1)
         | (Inr res, w) \<Rightarrow>
             (let s1 = s\<lparr>world := w\<rparr> in
              if res = 0 then Inr (sint copied, s1)
              else if len < res then Inl OutOfBounds
              else if \<not> buf_fd_retry src \<and> \<not> buf_fd_retry dst then Inr (sint (copied + res), s1)
              else splice_loop ops dst dst_off src src_off flags (advance_pos srcpos res)
                     (advance_pos dstpos res) (len - res) (copied + res) s1)))"
  by pat_completeness auto
termination
  by (relation "measure (\<lambda>(ops, dst, dst_off, src, src_off, flags, sp, dp, len, copied, s). unat len)")
    (auto simp: unat_sub word_le_nat_alt word_less_nat_alt unat_gt_0)

declare splice_loop.simps [simp del]

definition fuse_buf_splice ::
  "'w fdops \<Rightarrow> fuse_buf \<Rightarrow> 64 word \<Rightarrow> fuse_buf \<Rightarrow> 64 word \<Rightarrow> 64 word \<Rightarrow> copy_flags \<Rightarrow> (int, 'w) act" where
  "fuse_buf_splice ops dst dst_off src src_off len flags s =
     splice_loop ops dst dst_off src src_off flags
       (if buf_fd_seek src then Some (buf_pos src + uint src_off) else None)
       (if buf_fd_seek dst then Some (buf_pos dst + uint dst_off) else None) len 0 s"

text \<open>
  Between two memory buffers \<^verbatim>\<open>memcpy\<close> or, when they overlap, \<^verbatim>\<open>memmove\<close>: both write what the
  source held before.
\<close>

definition fuse_buf_copy_one ::
  "'w fdops \<Rightarrow> fuse_buf \<Rightarrow> 64 word \<Rightarrow> fuse_buf \<Rightarrow> 64 word \<Rightarrow> 64 word \<Rightarrow> copy_flags \<Rightarrow> (int, 'w) act" where
  "fuse_buf_copy_one ops dst dst_off src src_off len flags s =
     (if \<not> buf_is_fd src \<and> \<not> buf_is_fd dst
      then
        (let dstmem = ptr_add (buf_mem dst) dst_off; srcmem = ptr_add (buf_mem src) src_off in
         if dstmem \<noteq> srcmem
         then bind_res (mem_read (mheap s) srcmem (unat len)) (\<lambda>bytes.
              bind_res (mem_write (mheap s) dstmem bytes) (\<lambda>h. Inr (sint len, s\<lparr>mheap := h\<rparr>)))
         else Inr (sint len, s))
      else if \<not> buf_is_fd src then fuse_buf_write ops dst dst_off src src_off len 0 s
      else if \<not> buf_is_fd dst then fuse_buf_read ops dst dst_off src src_off len 0 s
      else if no_splice flags then fuse_buf_fd_to_fd ops dst dst_off src src_off len s
      else fuse_buf_splice ops dst dst_off src src_off len flags s)"

section \<open>Vectors\<close>

definition fuse_bufvec_current :: "fuse_bufvec \<Rightarrow> fuse_buf option" where
  "fuse_bufvec_current bufv =
     (if bv_idx bufv < length (bv_bufs bufv) then Some (bv_bufs bufv ! bv_idx bufv) else None)"

text \<open>The flag that is returned: whether there is another buffer.\<close>

definition fuse_bufvec_advance :: "fuse_bufvec \<Rightarrow> 64 word \<Rightarrow> (bool \<times> fuse_bufvec) res" where
  "fuse_bufvec_advance bufv len =
     bind_res (the_res (fuse_bufvec_current bufv) NullPointer) (\<lambda>buf.
     let off = bv_off bufv + len in
     bind_res (guard_res (off \<le> buf_size buf) AssertFailed) (\<lambda>_.
     if off = buf_size buf
     then (if Suc (bv_idx bufv) = length (bv_bufs bufv)
           then Inr (False, bufv\<lparr>bv_off := off, bv_idx := Suc (bv_idx bufv)\<rparr>)
           else Inr (True, bufv\<lparr>bv_off := 0, bv_idx := Suc (bv_idx bufv)\<rparr>))
     else Inr (True, bufv\<lparr>bv_off := off\<rparr>)))"

text \<open>The number of buffers that are not used up.\<close>

definition bufs_left :: "fuse_bufvec \<Rightarrow> nat" where
  "bufs_left bufv = length (bv_bufs bufv) - bv_idx bufv"

lemma advance_left:
  assumes "fuse_bufvec_advance bufv len = Inr (b, bufv')"
  shows "bufs_left bufv' \<le> bufs_left bufv"
    "fuse_bufvec_current bufv = Some buf \<Longrightarrow> bv_off bufv + len = buf_size buf \<Longrightarrow> bufs_left bufv' < bufs_left bufv"
  using assms
  by (auto simp: fuse_bufvec_advance_def fuse_bufvec_current_def bufs_left_def res_iffs Let_def split: if_splits)


text \<open>A round of the copy that does not stop uses up one of the two current buffers.\<close>

lemma copy_step_left:
  assumes "fuse_bufvec_current srcv = Some src" "fuse_bufvec_current dstv = Some dst"
    and "fuse_bufvec_advance srcv r = Inr (b, srcv1)" "fuse_bufvec_advance dstv r = Inr (c, dstv1)"
    and "\<not> min_size (buf_size src - bv_off srcv) (buf_size dst - bv_off dstv) < r"
      "\<not> r < min_size (buf_size src - bv_off srcv) (buf_size dst - bv_off dstv)"
  shows "bufs_left dstv1 + bufs_left srcv1 < bufs_left dstv + bufs_left srcv"
proof -
  have "r = buf_size src - bv_off srcv \<or> r = buf_size dst - bv_off dstv"
    using assms(5,6) by (auto simp: min_size_def split: if_splits)
  then have "bv_off srcv + r = buf_size src \<or> bv_off dstv + r = buf_size dst"
    by auto
  then show ?thesis
    using advance_left [OF assms(3)] advance_left [OF assms(4)] assms(1,2) by fastforce
qed

text \<open>
  \<^verbatim>\<open>fuse_buf_copy\<close>: the loop over both vectors. When the source is used up the destination is
  not advanced any more.
\<close>

function fuse_buf_copy_loop ::
  "'w fdops \<Rightarrow> fuse_bufvec \<Rightarrow> fuse_bufvec \<Rightarrow> copy_flags \<Rightarrow> 64 word \<Rightarrow> (int \<times> fuse_bufvec \<times> fuse_bufvec, 'w) act" where
  "fuse_buf_copy_loop ops dstv srcv flags copied s =
     (case (fuse_bufvec_current srcv, fuse_bufvec_current dstv) of
        (Some src, Some dst) \<Rightarrow>
          (let src_len = buf_size src - bv_off srcv; dst_len = buf_size dst - bv_off dstv;
               len = min_size src_len dst_len in
           bind_res (fuse_buf_copy_one ops dst (bv_off dstv) src (bv_off srcv) len flags s) (\<lambda>(res, s1).
           if res < 0 then Inr ((if copied = 0 then res else sint copied, dstv, srcv), s1)
           else
             (let r = word_of_int res in
              if len < r then Inl OutOfBounds
              else
                bind_res (fuse_bufvec_advance srcv r) (\<lambda>(more, srcv1).
                if \<not> more then Inr ((sint (copied + r), dstv, srcv1), s1)
                else
                  bind_res (fuse_bufvec_advance dstv r) (\<lambda>(more2, dstv1).
                  if \<not> more2 \<or> r < len then Inr ((sint (copied + r), dstv1, srcv1), s1)
                  else fuse_buf_copy_loop ops dstv1 srcv1 flags (copied + r) s1)))))
      | _ \<Rightarrow> Inr ((sint copied, dstv, srcv), s))"
  by pat_completeness auto
termination
  by (relation "measure (\<lambda>(ops, dstv, srcv, flags, copied, s). bufs_left dstv + bufs_left srcv)")
    (auto intro: copy_step_left [OF sym sym])

declare fuse_buf_copy_loop.simps [simp del]

text \<open>The two arguments may be the same vector, which \<open>same\<close> says.\<close>

definition fuse_buf_copy ::
  "'w fdops \<Rightarrow> bool \<Rightarrow> fuse_bufvec \<Rightarrow> fuse_bufvec \<Rightarrow> copy_flags \<Rightarrow> (int \<times> fuse_bufvec \<times> fuse_bufvec, 'w) act" where
  "fuse_buf_copy ops same dstv srcv flags s =
     (if same then Inr ((sint (fuse_buf_size dstv), dstv, srcv), s)
      else fuse_buf_copy_loop ops dstv srcv flags 0 s)"

end
