(* ===== verification/Fuse_FS.thy ===== *)
theory Fuse_FS
  imports Fuse_Buf
begin

text \<open>
  The layer of \<^verbatim>\<open>lib/fuse.c\<close> that calls the operations of a file system: every
  \<^verbatim>\<open>fuse_fs_*\<close> function sets the private data of the context, prints a line when debugging,
  and calls the operation or one that can stand in for it. The versions of the interface before
  2.5 read the same table with older types, which is the record \<open>compat_operations\<close>.
\<close>

unbundle bit_operations_syntax

section \<open>Formats\<close>

text \<open>The conversions of \<^verbatim>\<open>printf\<close> that the messages use. A null string prints as \<^verbatim>\<open>(null)\<close>.\<close>

definition hex_digit :: "nat \<Rightarrow> char" where
  "hex_digit d = (if d < 10 then digit_char d else char_of (87 + d))"

fun show_base :: "nat \<Rightarrow> nat \<Rightarrow> string" where
  "show_base b n = (if b < 2 \<or> n < b then [hex_digit n] else show_base b (n div b) @ [hex_digit (n mod b)])"

declare show_base.simps [simp del]

definition fmt_x :: "int \<Rightarrow> string" where "fmt_x i = show_base 16 (nat (i mod 2 ^ 32))"
definition fmt_o :: "int \<Rightarrow> string" where "fmt_o i = show_base 8 (nat (i mod 2 ^ 32))"
definition fmt_u :: "int \<Rightarrow> string" where "fmt_u i = show_nat (nat (i mod 2 ^ 32))"
definition fmt_llx :: "int \<Rightarrow> string" where "fmt_llx i = show_base 16 (nat (i mod 2 ^ 64))"
definition fmt_llu :: "int \<Rightarrow> string" where "fmt_llu i = show_nat (nat (i mod 2 ^ 64))"
definition fmt_lli :: "int \<Rightarrow> string" where "fmt_lli i = show_int (sint (word_of_int i :: 64 word))"
definition fmt_p :: "nat \<Rightarrow> string" where "fmt_p p = (if p = 0 then ''(nil)'' else ''0x'' @ show_base 16 p)"

definition pad0 :: "nat \<Rightarrow> string \<Rightarrow> string" where
  "pad0 k t = replicate (k - length t) CHR ''0'' @ t"

definition cstr :: "string option \<Rightarrow> string" where
  "cstr p = (case p of None \<Rightarrow> ''(null)'' | Some t \<Rightarrow> t)"

section \<open>A file system\<close>

text \<open>\<^verbatim>\<open>struct fuse_file_info_compat\<close> and \<^verbatim>\<open>struct fuse_statfs_compat1\<close>\<close>

record file_info_compat =
  fic_flags :: int
  fic_fh :: int
  fic_writepage :: int
  fic_direct_io :: bool
  fic_keep_cache :: bool

record statfs_compat1 =
  c1_block_size :: int
  c1_blocks :: int
  c1_blocks_free :: int
  c1_files :: int
  c1_files_free :: int
  c1_namelen :: int

text \<open>The fields of \<^verbatim>\<open>struct statfs\<close> that the conversion reads.\<close>

record statfs =
  sf_bsize :: int
  sf_blocks :: int
  sf_bfree :: int
  sf_bavail :: int
  sf_files :: int
  sf_ffree :: int
  sf_namelen :: int

record 'w compat_operations =
  c22_open :: "string \<Rightarrow> file_info_compat \<Rightarrow> (int \<times> file_info_compat, 'w) act"
  c2_open :: "string \<Rightarrow> int \<Rightarrow> (int, 'w) act"
  c2_release :: "string option \<Rightarrow> int \<Rightarrow> (int, 'w) act"
  c22_opendir :: "string \<Rightarrow> file_info_compat \<Rightarrow> (int \<times> file_info_compat, 'w) act"
  c22_statfs :: "string \<Rightarrow> (int \<times> statfs, 'w) act"
  c1_statfs :: "statfs_compat1 \<Rightarrow> (int \<times> statfs_compat1, 'w) act"

text \<open>\<^verbatim>\<open>struct fuse_fs\<close>, without the module that it came from.\<close>

record 'w fuse_fs =
  fs_op :: "'w fuse_operations"
  fs_compat_op :: "'w compat_operations"
  fs_user_data :: nat
  fs_compat :: int
  fs_debug :: bool

definition set_private :: "'w fuse_fs \<Rightarrow> 'w fstate \<Rightarrow> 'w fstate" where
  "set_private fs s = s\<lparr>private_data := fs_user_data fs\<rparr>"

definition eprint :: "string \<Rightarrow> 'w fstate \<Rightarrow> 'w fstate" where
  "eprint msg s = s\<lparr>stderr := stderr s @ [msg @ [newline]]\<rparr>"

definition debug_print :: "'w fuse_fs \<Rightarrow> bool \<Rightarrow> string \<Rightarrow> 'w fstate \<Rightarrow> 'w fstate" where
  "debug_print fs b msg s = (if fs_debug fs \<and> b then eprint msg s else s)"

section \<open>Older interfaces\<close>

text \<open>The two structures share their first fields; the handle moves from the old field to the new one.\<close>

definition to_compat :: "fuse_file_info \<Rightarrow> file_info_compat" where
  "to_compat fi = \<lparr>fic_flags = fi_flags fi, fic_fh = fi_fh_old fi, fic_writepage = fi_writepage fi,
     fic_direct_io = fi_direct_io fi, fic_keep_cache = fi_keep_cache fi\<rparr>"

definition from_compat :: "file_info_compat \<Rightarrow> fuse_file_info \<Rightarrow> fuse_file_info" where
  "from_compat tmp fi = fi\<lparr>fi_flags := fic_flags tmp, fi_fh_old := fic_fh tmp, fi_writepage := fic_writepage tmp,
     fi_direct_io := fic_direct_io tmp, fi_keep_cache := fic_keep_cache tmp, fi_fh := fic_fh tmp\<rparr>"

definition fuse_compat_open ::
  "'w fuse_fs \<Rightarrow> (string \<Rightarrow> fuse_file_info \<Rightarrow> (int \<times> fuse_file_info, 'w) act) \<Rightarrow>
     string \<Rightarrow> fuse_file_info \<Rightarrow> (int \<times> fuse_file_info, 'w) act" where
  "fuse_compat_open fs opn pn fi s =
     (if fs_compat fs = 0 \<or> 25 \<le> fs_compat fs then opn pn fi s
      else if fs_compat fs = 22
      then bind_res (c22_open (fs_compat_op fs) pn (to_compat fi) s) (\<lambda>((err, tmp), s1).
           Inr ((err, from_compat tmp fi), s1))
      else bind_res (c2_open (fs_compat_op fs) pn (fi_flags fi) s) (\<lambda>(err, s1). Inr ((err, fi), s1)))"

definition fuse_compat_release ::
  "'w fuse_fs \<Rightarrow> (string option \<Rightarrow> fuse_file_info \<Rightarrow> (int \<times> fuse_file_info, 'w) act) \<Rightarrow>
     string option \<Rightarrow> fuse_file_info \<Rightarrow> (int \<times> fuse_file_info, 'w) act" where
  "fuse_compat_release fs rel pn fi s =
     (if fs_compat fs = 0 \<or> 22 \<le> fs_compat fs then rel pn fi s
      else bind_res (c2_release (fs_compat_op fs) pn (fi_flags fi) s) (\<lambda>(err, s1). Inr ((err, fi), s1)))"

definition fuse_compat_opendir ::
  "'w fuse_fs \<Rightarrow> (string \<Rightarrow> fuse_file_info \<Rightarrow> (int \<times> fuse_file_info, 'w) act) \<Rightarrow>
     string \<Rightarrow> fuse_file_info \<Rightarrow> (int \<times> fuse_file_info, 'w) act" where
  "fuse_compat_opendir fs opn pn fi s =
     (if fs_compat fs = 0 \<or> 25 \<le> fs_compat fs then opn pn fi s
      else bind_res (c22_opendir (fs_compat_op fs) pn (to_compat fi) s) (\<lambda>((err, tmp), s1).
           Inr ((err, from_compat tmp fi), s1)))"

definition convert_statfs_compat :: "statfs_compat1 \<Rightarrow> statvfs \<Rightarrow> statvfs" where
  "convert_statfs_compat c st = st\<lparr>f_bsize := c1_block_size c, f_blocks := c1_blocks c, f_bfree := c1_blocks_free c,
     f_bavail := c1_blocks_free c, f_files := c1_files c, f_ffree := c1_files_free c, f_namemax := c1_namelen c\<rparr>"

definition convert_statfs_old :: "statfs \<Rightarrow> statvfs \<Rightarrow> statvfs" where
  "convert_statfs_old c st = st\<lparr>f_bsize := sf_bsize c, f_blocks := sf_blocks c, f_bfree := sf_bfree c,
     f_bavail := sf_bavail c, f_files := sf_files c, f_ffree := sf_ffree c, f_namemax := sf_namelen c\<rparr>"

definition fuse_compat_statfs ::
  "'w fuse_fs \<Rightarrow> (string \<Rightarrow> statvfs \<Rightarrow> (int \<times> statvfs, 'w) act) \<Rightarrow> string \<Rightarrow> statvfs \<Rightarrow> (int \<times> statvfs, 'w) act" where
  "fuse_compat_statfs fs stf pn buf s =
     (if fs_compat fs = 0 \<or> 25 \<le> fs_compat fs then stf (if fs_compat fs = 25 then ''/'' else pn) buf s
      else if 11 < fs_compat fs
      then bind_res (c22_statfs (fs_compat_op fs) ''/'' s) (\<lambda>((err, oldbuf), s1).
           Inr ((err, if err = 0 then convert_statfs_old oldbuf buf else buf), s1))
      else bind_res (c1_statfs (fs_compat_op fs) \<lparr>c1_block_size = 0, c1_blocks = 0, c1_blocks_free = 0,
               c1_files = 0, c1_files_free = 0, c1_namelen = 0\<rparr> s) (\<lambda>((err, compatbuf), s1).
           Inr ((err, if err = 0 then convert_statfs_compat compatbuf buf else buf), s1)))"

section \<open>Attributes and names\<close>

definition fuse_fs_getattr :: "'w fuse_fs \<Rightarrow> string \<Rightarrow> stat \<Rightarrow> (int \<times> stat, 'w) act" where
  "fuse_fs_getattr fs pn st s =
     (let s0 = set_private fs s in
      case op_getattr (fs_op fs) of None \<Rightarrow> Inr ((- ENOSYS, st), s0)
      | Some f \<Rightarrow> f pn st (debug_print fs True (''getattr '' @ pn) s0))"

definition fuse_fs_fgetattr ::
  "'w fuse_fs \<Rightarrow> string option \<Rightarrow> stat \<Rightarrow> fuse_file_info \<Rightarrow> (int \<times> stat \<times> fuse_file_info, 'w) act" where
  "fuse_fs_fgetattr fs pn st fi s =
     (let s0 = set_private fs s in
      case (op_fgetattr (fs_op fs), pn, op_getattr (fs_op fs)) of
        (Some f, _, _) \<Rightarrow> f pn st fi (debug_print fs True (''fgetattr['' @ fmt_llu (fi_fh fi) @ ''] '' @ cstr pn) s0)
      | (None, Some p, Some f) \<Rightarrow>
          bind_res (f p st (debug_print fs True (''getattr '' @ p) s0)) (\<lambda>((res, st1), s1). Inr ((res, st1, fi), s1))
      | _ \<Rightarrow> Inr ((- ENOSYS, st, fi), s0))"

definition fuse_fs_rename :: "'w fuse_fs \<Rightarrow> string \<Rightarrow> string \<Rightarrow> (int, 'w) act" where
  "fuse_fs_rename fs oldpath newpath s =
     (let s0 = set_private fs s in
      case op_rename (fs_op fs) of None \<Rightarrow> Inr (- ENOSYS, s0)
      | Some f \<Rightarrow> f oldpath newpath (debug_print fs True (''rename '' @ oldpath @ '' '' @ newpath) s0))"

definition fuse_fs_unlink :: "'w fuse_fs \<Rightarrow> string \<Rightarrow> (int, 'w) act" where
  "fuse_fs_unlink fs pn s =
     (let s0 = set_private fs s in
      case op_unlink (fs_op fs) of None \<Rightarrow> Inr (- ENOSYS, s0)
      | Some f \<Rightarrow> f pn (debug_print fs True (''unlink '' @ pn) s0))"

definition fuse_fs_rmdir :: "'w fuse_fs \<Rightarrow> string \<Rightarrow> (int, 'w) act" where
  "fuse_fs_rmdir fs pn s =
     (let s0 = set_private fs s in
      case op_rmdir (fs_op fs) of None \<Rightarrow> Inr (- ENOSYS, s0)
      | Some f \<Rightarrow> f pn (debug_print fs True (''rmdir '' @ pn) s0))"

definition fuse_fs_symlink :: "'w fuse_fs \<Rightarrow> string \<Rightarrow> string \<Rightarrow> (int, 'w) act" where
  "fuse_fs_symlink fs linkname pn s =
     (let s0 = set_private fs s in
      case op_symlink (fs_op fs) of None \<Rightarrow> Inr (- ENOSYS, s0)
      | Some f \<Rightarrow> f linkname pn (debug_print fs True (''symlink '' @ linkname @ '' '' @ pn) s0))"

definition fuse_fs_link :: "'w fuse_fs \<Rightarrow> string \<Rightarrow> string \<Rightarrow> (int, 'w) act" where
  "fuse_fs_link fs oldpath newpath s =
     (let s0 = set_private fs s in
      case op_link (fs_op fs) of None \<Rightarrow> Inr (- ENOSYS, s0)
      | Some f \<Rightarrow> f oldpath newpath (debug_print fs True (''link '' @ oldpath @ '' '' @ newpath) s0))"

section \<open>Opening and closing\<close>

definition fuse_fs_release ::
  "'w fuse_fs \<Rightarrow> string option \<Rightarrow> fuse_file_info \<Rightarrow> (int \<times> fuse_file_info, 'w) act" where
  "fuse_fs_release fs pn fi s =
     (let s0 = set_private fs s in
      case op_release (fs_op fs) of None \<Rightarrow> Inr ((0, fi), s0)
      | Some f \<Rightarrow> fuse_compat_release fs f pn fi
          (debug_print fs True (''release'' @ (if fi_flush fi then ''+flush'' else []) @ ''['' @ fmt_llu (fi_fh fi) @
             ''] flags: 0x'' @ fmt_x (fi_flags fi)) s0))"

definition fuse_fs_opendir ::
  "'w fuse_fs \<Rightarrow> string \<Rightarrow> fuse_file_info \<Rightarrow> (int \<times> fuse_file_info, 'w) act" where
  "fuse_fs_opendir fs pn fi s =
     (let s0 = set_private fs s in
      case op_opendir (fs_op fs) of None \<Rightarrow> Inr ((0, fi), s0)
      | Some f \<Rightarrow>
          bind_res (fuse_compat_opendir fs f pn fi
              (debug_print fs True (''opendir flags: 0x'' @ fmt_x (fi_flags fi) @ '' '' @ pn) s0)) (\<lambda>((err, fi1), s1).
          Inr ((err, fi1), debug_print fs (err = 0)
            (''   opendir['' @ fmt_lli (fi_fh fi1) @ ''] flags: 0x'' @ fmt_x (fi_flags fi1) @ '' '' @ pn) s1)))"

definition fuse_fs_open ::
  "'w fuse_fs \<Rightarrow> string \<Rightarrow> fuse_file_info \<Rightarrow> (int \<times> fuse_file_info, 'w) act" where
  "fuse_fs_open fs pn fi s =
     (let s0 = set_private fs s in
      case op_open (fs_op fs) of None \<Rightarrow> Inr ((0, fi), s0)
      | Some f \<Rightarrow>
          bind_res (fuse_compat_open fs f pn fi
              (debug_print fs True (''open flags: 0x'' @ fmt_x (fi_flags fi) @ '' '' @ pn) s0)) (\<lambda>((err, fi1), s1).
          Inr ((err, fi1), debug_print fs (err = 0)
            (''   open['' @ fmt_lli (fi_fh fi1) @ ''] flags: 0x'' @ fmt_x (fi_flags fi1) @ '' '' @ pn) s1)))"

section \<open>Reading and writing\<close>

text \<open>\<^verbatim>\<open>free\<close>: address 0 is the null pointer, any other pointer has to be the start of an object.\<close>

definition free_ptr :: "ptr \<Rightarrow> 'w fstate \<Rightarrow> ('w fstate) res" where
  "free_ptr p s =
     (if fst p = 0 then Inr s else if snd p = 0 then mfree_obj (fst p) s else Inl OutOfBounds)"

fun free_bufs :: "fuse_buf list \<Rightarrow> 'w fstate \<Rightarrow> ('w fstate) res" where
  "free_bufs [] s = Inr s"
| "free_bufs (b # bs) s = bind_res (free_ptr (buf_mem b) s) (free_bufs bs)"

definition fuse_free_buf :: "(nat \<times> fuse_bufvec) option \<Rightarrow> 'w fstate \<Rightarrow> ('w fstate) res" where
  "fuse_free_buf buf s =
     (case buf of None \<Rightarrow> Inr s
      | Some (a, bv) \<Rightarrow> bind_res (free_bufs (bv_bufs bv) s) (mfree_obj a))"

text \<open>\<^verbatim>\<open>sizeof(struct fuse_bufvec)\<close>, and the size of a conversion to \<^verbatim>\<open>int\<close> and back.\<close>

definition SIZEOF_BUFVEC :: nat where "SIZEOF_BUFVEC = 64"

definition int_of_size :: "64 word \<Rightarrow> int" where
  "int_of_size n = to_int32 (uint n)"

text \<open>
  The common part of \<^verbatim>\<open>fuse_fs_read_buf\<close> after the operation was called. The size of a null
  vector is only taken when the operation succeeded.
\<close>

definition read_buf_done ::
  "'w fuse_fs \<Rightarrow> 64 word \<Rightarrow> int \<Rightarrow> int \<Rightarrow> (nat \<times> fuse_bufvec) option \<Rightarrow> fuse_file_info \<Rightarrow>
     (int \<times> (nat \<times> fuse_bufvec) option \<times> fuse_file_info, 'w) act" where
  "read_buf_done fs sz off res bufp fi s =
     (if res < 0 then Inr ((res, bufp, fi), s)
      else
        bind_res (the_res bufp NullPointer) (\<lambda>(a, bv).
        let n = fuse_buf_size bv;
            s1 = debug_print fs True
              (''   read['' @ fmt_llu (fi_fh fi) @ ''] '' @ fmt_llu (uint n) @ '' bytes from '' @ fmt_llu off) s;
            s2 = (if word_of_int (int_of_size sz) < n then eprint ''fuse: read too many bytes'' s1 else s1) in
        Inr ((0, bufp, fi), s2)))"

definition fuse_fs_read_buf ::
  "'w fuse_fs \<Rightarrow> string option \<Rightarrow> (nat \<times> fuse_bufvec) option \<Rightarrow> 64 word \<Rightarrow> int \<Rightarrow> fuse_file_info \<Rightarrow>
     (int \<times> (nat \<times> fuse_bufvec) option \<times> fuse_file_info, 'w) act" where
  "fuse_fs_read_buf fs pn bufp sz off fi s =
     (let s0 = set_private fs s;
          s1 = debug_print fs True (''read['' @ fmt_llu (fi_fh fi) @ ''] '' @ fmt_llu (uint sz) @ '' bytes from '' @
                 fmt_llu off @ '' flags: 0x'' @ fmt_x (fi_flags fi)) s0 in
      case (op_read_buf (fs_op fs), op_read (fs_op fs)) of
        (Some f, _) \<Rightarrow>
          bind_res (f pn (unat sz) off fi s1) (\<lambda>((res, bufp1, fi1), s2). read_buf_done fs sz off res bufp1 fi1 s2)
      | (None, Some f) \<Rightarrow>
          (case malloc SIZEOF_BUFVEC s1 of
             (None, s2) \<Rightarrow> Inr ((- ENOMEM, bufp, fi), s2)
           | (Some a, s2) \<Rightarrow>
               (case malloc (unat sz) s2 of
                  (None, s3) \<Rightarrow> bind_res (mfree_obj a s3) (\<lambda>s4. Inr ((- ENOMEM, bufp, fi), s4))
                | (Some m, s3) \<Rightarrow>
                    bind_res (f pn (m, 0) (unat sz) off fi s3) (\<lambda>((res, fi1), s4).
                    read_buf_done fs sz off res
                      (Some (a, bufvec_init (if 0 \<le> res then word_of_int res else sz) (m, 0))) fi1 s4)))
      | (None, None) \<Rightarrow> Inr ((- ENOSYS, bufp, fi), s0))"

definition no_flags :: copy_flags where
  "no_flags = \<lparr>no_splice = False, force_splice = False, splice_move = False, splice_nonblock = False\<rparr>"

definition fuse_fs_read ::
  "'w fdops \<Rightarrow> 'w fuse_fs \<Rightarrow> string option \<Rightarrow> ptr \<Rightarrow> 64 word \<Rightarrow> int \<Rightarrow> fuse_file_info \<Rightarrow> (int \<times> fuse_file_info, 'w) act" where
  "fuse_fs_read ops fs pn mem sz off fi s =
     bind_res (fuse_fs_read_buf fs pn None sz off fi s) (\<lambda>((res, buf, fi1), s1).
     bind_res
       (if res = 0
        then bind_res (the_res buf NullPointer) (\<lambda>(a, bv).
             bind_res (fuse_buf_copy ops False (bufvec_init sz mem) bv no_flags s1) (\<lambda>((n, dst, bv1), s2).
             Inr (to_int32 n, Some (a, bv1), s2)))
        else Inr (res, buf, s1)) (\<lambda>(res1, buf1, s2).
     bind_res (fuse_free_buf buf1 s2) (\<lambda>s3. Inr ((res1, fi1), s3))))"

text \<open>
  Writing without \<^verbatim>\<open>write_buf\<close>: a single memory buffer is passed on, anything else is collected
  in a buffer of its own first.
\<close>

definition write_collected ::
  "'w fdops \<Rightarrow> (string option \<Rightarrow> ptr \<Rightarrow> nat \<Rightarrow> int \<Rightarrow> fuse_file_info \<Rightarrow> (int \<times> fuse_file_info, 'w) act) \<Rightarrow>
     string option \<Rightarrow> fuse_bufvec \<Rightarrow> 64 word \<Rightarrow> int \<Rightarrow> fuse_file_info \<Rightarrow> (int \<times> fuse_bufvec \<times> fuse_file_info, 'w) act" where
  "write_collected ops wr pn buf sz off fi s =
     (case malloc (unat sz) s of
        (None, s1) \<Rightarrow> Inr ((- ENOMEM, buf, fi), s1)
      | (Some m, s1) \<Rightarrow>
          bind_res (fuse_buf_copy ops False (bufvec_init sz (m, 0)) buf no_flags s1) (\<lambda>((n, tmp, buf1), s2).
          let res = to_int32 n in
          if res \<le> 0 then bind_res (mfree_obj m s2) (\<lambda>s3. Inr ((res, buf1, fi), s3))
          else
            bind_res (wr pn (m, 0) (nat res) off fi s2) (\<lambda>((res1, fi1), s3).
            bind_res (mfree_obj m s3) (\<lambda>s4. Inr ((res1, buf1, fi1), s4)))))"

definition write_flat ::
  "'w fdops \<Rightarrow> (string option \<Rightarrow> ptr \<Rightarrow> nat \<Rightarrow> int \<Rightarrow> fuse_file_info \<Rightarrow> (int \<times> fuse_file_info, 'w) act) \<Rightarrow>
     string option \<Rightarrow> fuse_bufvec \<Rightarrow> 64 word \<Rightarrow> int \<Rightarrow> fuse_file_info \<Rightarrow> (int \<times> fuse_bufvec \<times> fuse_file_info, 'w) act" where
  "write_flat ops wr pn buf sz off fi s =
     (case bv_bufs buf of
        [b] \<Rightarrow>
          if \<not> buf_is_fd b
          then bind_res (wr pn (buf_mem b) (unat (buf_size b)) off fi s) (\<lambda>((res, fi1), s1). Inr ((res, buf, fi1), s1))
          else write_collected ops wr pn buf sz off fi s
      | _ \<Rightarrow> write_collected ops wr pn buf sz off fi s)"

definition fuse_fs_write_buf ::
  "'w fdops \<Rightarrow> 'w fuse_fs \<Rightarrow> string option \<Rightarrow> fuse_bufvec \<Rightarrow> int \<Rightarrow> fuse_file_info \<Rightarrow>
     (int \<times> fuse_bufvec \<times> fuse_file_info, 'w) act" where
  "fuse_fs_write_buf ops fs pn buf off fi s =
     (let s0 = set_private fs s; sz = fuse_buf_size buf; page = (if fi_writepage fi \<noteq> 0 then ''page'' else []) in
      if op_write_buf (fs_op fs) = None \<and> op_write (fs_op fs) = None then Inr ((- ENOSYS, buf, fi), s0)
      else
        bind_res (guard_res (bv_idx buf = 0 \<and> bv_off buf = 0) AssertFailed) (\<lambda>_.
        let s1 = debug_print fs True (''write'' @ page @ ''['' @ fmt_llu (fi_fh fi) @ ''] '' @ fmt_llu (uint sz) @
              '' bytes to '' @ fmt_llu off @ '' flags: 0x'' @ fmt_x (fi_flags fi)) s0 in
        bind_res
          (case (op_write_buf (fs_op fs), op_write (fs_op fs)) of
             (Some f, _) \<Rightarrow> f pn buf off fi s1
           | (None, Some f) \<Rightarrow> write_flat ops f pn buf sz off fi s1
           | (None, None) \<Rightarrow> Inr ((- ENOSYS, buf, fi), s1)) (\<lambda>((res, buf1, fi1), s2).
        let page1 = (if fi_writepage fi1 \<noteq> 0 then ''page'' else []);
            s3 = debug_print fs (0 \<le> res) (''   write'' @ page1 @ ''['' @ fmt_llu (fi_fh fi1) @ ''] '' @ fmt_u res @
              '' bytes to '' @ fmt_llu off) s2 in
        Inr ((res, buf1, fi1), if int_of_size sz < res then eprint ''fuse: wrote too many bytes'' s3 else s3))))"

definition fuse_fs_write ::
  "'w fdops \<Rightarrow> 'w fuse_fs \<Rightarrow> string option \<Rightarrow> ptr \<Rightarrow> 64 word \<Rightarrow> int \<Rightarrow> fuse_file_info \<Rightarrow> (int \<times> fuse_file_info, 'w) act" where
  "fuse_fs_write ops fs pn mem sz off fi s =
     bind_res (fuse_fs_write_buf ops fs pn (bufvec_init sz mem) off fi s) (\<lambda>((res, buf, fi1), s1). Inr ((res, fi1), s1))"

section \<open>Synchronisation and directories\<close>

definition fuse_fs_fsync :: "'w fuse_fs \<Rightarrow> string option \<Rightarrow> int \<Rightarrow> fuse_file_info \<Rightarrow> (int \<times> fuse_file_info, 'w) act" where
  "fuse_fs_fsync fs pn datasync fi s =
     (let s0 = set_private fs s in
      case op_fsync (fs_op fs) of None \<Rightarrow> Inr ((- ENOSYS, fi), s0)
      | Some f \<Rightarrow> f pn datasync fi (debug_print fs True (''fsync['' @ fmt_llu (fi_fh fi) @ ''] datasync: '' @ show_int datasync) s0))"

definition fuse_fs_fsyncdir :: "'w fuse_fs \<Rightarrow> string option \<Rightarrow> int \<Rightarrow> fuse_file_info \<Rightarrow> (int \<times> fuse_file_info, 'w) act" where
  "fuse_fs_fsyncdir fs pn datasync fi s =
     (let s0 = set_private fs s in
      case op_fsyncdir (fs_op fs) of None \<Rightarrow> Inr ((- ENOSYS, fi), s0)
      | Some f \<Rightarrow> f pn datasync fi (debug_print fs True (''fsyncdir['' @ fmt_llu (fi_fh fi) @ ''] datasync: '' @ show_int datasync) s0))"

definition fuse_fs_flush :: "'w fuse_fs \<Rightarrow> string option \<Rightarrow> fuse_file_info \<Rightarrow> (int \<times> fuse_file_info, 'w) act" where
  "fuse_fs_flush fs pn fi s =
     (let s0 = set_private fs s in
      case op_flush (fs_op fs) of None \<Rightarrow> Inr ((- ENOSYS, fi), s0)
      | Some f \<Rightarrow> f pn fi (debug_print fs True (''flush['' @ fmt_llu (fi_fh fi) @ '']'') s0))"

definition fuse_fs_statfs :: "'w fuse_fs \<Rightarrow> string \<Rightarrow> statvfs \<Rightarrow> (int \<times> statvfs, 'w) act" where
  "fuse_fs_statfs fs pn buf s =
     (let s0 = set_private fs s in
      case op_statfs (fs_op fs) of None \<Rightarrow> Inr ((0, buf\<lparr>f_namemax := 255, f_bsize := 512\<rparr>), s0)
      | Some f \<Rightarrow> fuse_compat_statfs fs f pn buf (debug_print fs True (''statfs '' @ pn) s0))"

definition fuse_fs_releasedir :: "'w fuse_fs \<Rightarrow> string option \<Rightarrow> fuse_file_info \<Rightarrow> (int \<times> fuse_file_info, 'w) act" where
  "fuse_fs_releasedir fs pn fi s =
     (let s0 = set_private fs s in
      case op_releasedir (fs_op fs) of None \<Rightarrow> Inr ((0, fi), s0)
      | Some f \<Rightarrow> f pn fi (debug_print fs True (''releasedir['' @ fmt_llu (fi_fh fi) @ ''] flags: 0x'' @ fmt_x (fi_flags fi)) s0))"

definition fill_dir_old :: "'w filler \<Rightarrow> string \<Rightarrow> int \<Rightarrow> int \<Rightarrow> (int, 'w) act" where
  "fill_dir_old filler name type ino s =
     bind_res (filler name (Some (zero_stat\<lparr>st_mode := (type * 4096) mod 2 ^ 32, st_ino := ino\<rparr>)) 0 s) (\<lambda>(res, s1).
     Inr (if res \<noteq> 0 then - ENOMEM else 0, s1))"

definition fuse_fs_readdir ::
  "'w fuse_fs \<Rightarrow> string option \<Rightarrow> 'w filler \<Rightarrow> int \<Rightarrow> fuse_file_info \<Rightarrow>
     'w fstate \<Rightarrow> ((int \<times> fuse_file_info) \<times> 'w fstate) res option" where
  "fuse_fs_readdir fs pn filler off fi s =
     (let s0 = set_private fs s in
      case (op_readdir (fs_op fs), op_getdir (fs_op fs)) of
        (Some f, _) \<Rightarrow>
          f pn filler off fi (debug_print fs True (''readdir['' @ fmt_llu (fi_fh fi) @ ''] from '' @ fmt_llu off) s0)
      | (None, Some f) \<Rightarrow>
          map_option (\<lambda>r. bind_res r (\<lambda>(res, s1). Inr ((res, fi), s1)))
            (f pn (fill_dir_old filler) (debug_print fs True (''getdir['' @ fmt_llu (fi_fh fi) @ '']'') s0))
      | (None, None) \<Rightarrow> Some (Inr ((- ENOSYS, fi), s0)))"

section \<open>Creating and locking\<close>

definition fuse_fs_create ::
  "'w fuse_fs \<Rightarrow> string \<Rightarrow> int \<Rightarrow> fuse_file_info \<Rightarrow> (int \<times> fuse_file_info, 'w) act" where
  "fuse_fs_create fs pn mode fi s =
     (let s0 = set_private fs s in
      case op_create (fs_op fs) of None \<Rightarrow> Inr ((- ENOSYS, fi), s0)
      | Some f \<Rightarrow>
          bind_res (f pn mode fi
              (debug_print fs True (''create flags: 0x'' @ fmt_x (fi_flags fi) @ '' '' @ pn @ '' 0'' @ fmt_o mode @
                 '' umask=0'' @ pad0 3 (fmt_o (ctx_umask s0))) s0)) (\<lambda>((err, fi1), s1).
          Inr ((err, fi1), debug_print fs (err = 0)
            (''   create['' @ fmt_llu (fi_fh fi1) @ ''] flags: 0x'' @ fmt_x (fi_flags fi1) @ '' '' @ pn) s1)))"

text \<open>The constants of \<^verbatim>\<open>fcntl.h\<close> and \<^verbatim>\<open>sys/file.h\<close> on Linux.\<close>

definition lock_cmd_name :: "int \<Rightarrow> string" where
  "lock_cmd_name cmd = (if cmd = 5 then ''F_GETLK'' else if cmd = 6 then ''F_SETLK''
     else if cmd = 7 then ''F_SETLKW'' else ''???'')"

definition lock_type_name :: "int \<Rightarrow> string" where
  "lock_type_name t = (if t = 0 then ''F_RDLCK'' else if t = 1 then ''F_WRLCK''
     else if t = 2 then ''F_UNLCK'' else ''???'')"

definition fuse_fs_lock ::
  "'w fuse_fs \<Rightarrow> string option \<Rightarrow> fuse_file_info \<Rightarrow> int \<Rightarrow> flock_t \<Rightarrow> (int \<times> flock_t \<times> fuse_file_info, 'w) act" where
  "fuse_fs_lock fs pn fi cmd lck s =
     (let s0 = set_private fs s in
      case op_lock (fs_op fs) of None \<Rightarrow> Inr ((- ENOSYS, lck, fi), s0)
      | Some f \<Rightarrow> f pn fi cmd lck
          (debug_print fs True (''lock['' @ fmt_llu (fi_fh fi) @ ''] '' @ lock_cmd_name cmd @ '' '' @
             lock_type_name (l_type lck) @ '' start: '' @ fmt_llu (l_start lck) @ '' len: '' @ fmt_llu (l_len lck) @
             '' pid: '' @ fmt_llu (l_pid lck)) s0))"

definition LOCK_NB :: int where "LOCK_NB = 4"

definition fuse_fs_flock ::
  "'w fuse_fs \<Rightarrow> string option \<Rightarrow> fuse_file_info \<Rightarrow> int \<Rightarrow> (int \<times> fuse_file_info, 'w) act" where
  "fuse_fs_flock fs pn fi lop s =
     (let s0 = set_private fs s; xop = lop AND NOT LOCK_NB in
      case op_flock (fs_op fs) of None \<Rightarrow> Inr ((- ENOSYS, fi), s0)
      | Some f \<Rightarrow> f pn fi lop
          (debug_print fs True (''lock['' @ fmt_llu (fi_fh fi) @ ''] '' @
             (if xop = 1 then ''LOCK_SH'' else if xop = 2 then ''LOCK_EX'' else if xop = 8 then ''LOCK_UN'' else ''???'') @
             (if lop AND LOCK_NB \<noteq> 0 then ''|LOCK_NB'' else [])) s0))"

section \<open>Attributes that are set\<close>

definition fuse_fs_chown :: "'w fuse_fs \<Rightarrow> string \<Rightarrow> int \<Rightarrow> int \<Rightarrow> (int, 'w) act" where
  "fuse_fs_chown fs pn uid gid s =
     (let s0 = set_private fs s in
      case op_chown (fs_op fs) of None \<Rightarrow> Inr (- ENOSYS, s0)
      | Some f \<Rightarrow> f pn uid gid (debug_print fs True (''chown '' @ pn @ '' '' @ fmt_llu uid @ '' '' @ fmt_llu gid) s0))"

definition fuse_fs_truncate :: "'w fuse_fs \<Rightarrow> string \<Rightarrow> int \<Rightarrow> (int, 'w) act" where
  "fuse_fs_truncate fs pn sz s =
     (let s0 = set_private fs s in
      case op_truncate (fs_op fs) of None \<Rightarrow> Inr (- ENOSYS, s0)
      | Some f \<Rightarrow> f pn sz (debug_print fs True (''truncate '' @ pn @ '' '' @ fmt_llu sz) s0))"

definition fuse_fs_ftruncate ::
  "'w fuse_fs \<Rightarrow> string option \<Rightarrow> int \<Rightarrow> fuse_file_info \<Rightarrow> (int \<times> fuse_file_info, 'w) act" where
  "fuse_fs_ftruncate fs pn sz fi s =
     (let s0 = set_private fs s in
      case (op_ftruncate (fs_op fs), pn, op_truncate (fs_op fs)) of
        (Some f, _, _) \<Rightarrow> f pn sz fi (debug_print fs True (''ftruncate['' @ fmt_llu (fi_fh fi) @ ''] '' @ fmt_llu sz) s0)
      | (None, Some p, Some f) \<Rightarrow>
          bind_res (f p sz (debug_print fs True (''truncate '' @ p @ '' '' @ fmt_llu sz) s0)) (\<lambda>(res, s1). Inr ((res, fi), s1))
      | _ \<Rightarrow> Inr ((- ENOSYS, fi), s0))"

definition fuse_fs_utimens :: "'w fuse_fs \<Rightarrow> string \<Rightarrow> timespec \<times> timespec \<Rightarrow> (int, 'w) act" where
  "fuse_fs_utimens fs pn tv s =
     (let s0 = set_private fs s; (t0, t1) = tv in
      case (op_utimens (fs_op fs), op_utime (fs_op fs)) of
        (Some f, _) \<Rightarrow> f pn tv (debug_print fs True (''utimens '' @ pn @ '' '' @ show_int (tv_sec t0) @ ''.'' @
            pad0 9 (fmt_llu (tv_nsec t0)) @ '' '' @ show_int (tv_sec t1) @ ''.'' @ pad0 9 (fmt_llu (tv_nsec t1))) s0)
      | (None, Some f) \<Rightarrow> f pn \<lparr>actime = tv_sec t0, modtime = tv_sec t1\<rparr>
          (debug_print fs True (''utime '' @ pn @ '' '' @ show_int (tv_sec t0) @ '' '' @ show_int (tv_sec t1)) s0)
      | (None, None) \<Rightarrow> Inr (- ENOSYS, s0))"

definition fuse_fs_access :: "'w fuse_fs \<Rightarrow> string \<Rightarrow> int \<Rightarrow> (int, 'w) act" where
  "fuse_fs_access fs pn amask s =
     (let s0 = set_private fs s in
      case op_access (fs_op fs) of None \<Rightarrow> Inr (- ENOSYS, s0)
      | Some f \<Rightarrow> f pn amask (debug_print fs True (''access '' @ pn @ '' 0'' @ fmt_o amask) s0))"

definition fuse_fs_readlink :: "'w fuse_fs \<Rightarrow> string \<Rightarrow> ptr \<Rightarrow> nat \<Rightarrow> (int, 'w) act" where
  "fuse_fs_readlink fs pn buf len s =
     (let s0 = set_private fs s in
      case op_readlink (fs_op fs) of None \<Rightarrow> Inr (- ENOSYS, s0)
      | Some f \<Rightarrow> f pn buf len (debug_print fs True (''readlink '' @ pn @ '' '' @ show_nat len) s0))"

definition fuse_fs_mknod :: "'w fuse_fs \<Rightarrow> string \<Rightarrow> int \<Rightarrow> int \<Rightarrow> (int, 'w) act" where
  "fuse_fs_mknod fs pn mode rdev s =
     (let s0 = set_private fs s in
      case op_mknod (fs_op fs) of None \<Rightarrow> Inr (- ENOSYS, s0)
      | Some f \<Rightarrow> f pn mode rdev (debug_print fs True (''mknod '' @ pn @ '' 0'' @ fmt_o mode @ '' 0x'' @ fmt_llx rdev @ '' umask=0'' @ pad0 3 (fmt_o (ctx_umask s0))) s0))"

definition fuse_fs_mkdir :: "'w fuse_fs \<Rightarrow> string \<Rightarrow> int \<Rightarrow> (int, 'w) act" where
  "fuse_fs_mkdir fs pn mode s =
     (let s0 = set_private fs s in
      case op_mkdir (fs_op fs) of None \<Rightarrow> Inr (- ENOSYS, s0)
      | Some f \<Rightarrow> f pn mode (debug_print fs True (''mkdir '' @ pn @ '' 0'' @ fmt_o mode @ '' umask=0'' @ pad0 3 (fmt_o (ctx_umask s0))) s0))"

definition fuse_fs_setxattr :: "'w fuse_fs \<Rightarrow> string \<Rightarrow> string \<Rightarrow> ptr \<Rightarrow> nat \<Rightarrow> int \<Rightarrow> (int, 'w) act" where
  "fuse_fs_setxattr fs pn name val sz flags s =
     (let s0 = set_private fs s in
      case op_setxattr (fs_op fs) of None \<Rightarrow> Inr (- ENOSYS, s0)
      | Some f \<Rightarrow> f pn name val sz flags (debug_print fs True (''setxattr '' @ pn @ '' '' @ name @ '' '' @ show_nat sz @ '' 0x'' @ fmt_x flags) s0))"

definition fuse_fs_getxattr :: "'w fuse_fs \<Rightarrow> string \<Rightarrow> string \<Rightarrow> ptr \<Rightarrow> nat \<Rightarrow> (int, 'w) act" where
  "fuse_fs_getxattr fs pn name val sz s =
     (let s0 = set_private fs s in
      case op_getxattr (fs_op fs) of None \<Rightarrow> Inr (- ENOSYS, s0)
      | Some f \<Rightarrow> f pn name val sz (debug_print fs True (''getxattr '' @ pn @ '' '' @ name @ '' '' @ show_nat sz) s0))"

definition fuse_fs_listxattr :: "'w fuse_fs \<Rightarrow> string \<Rightarrow> ptr \<Rightarrow> nat \<Rightarrow> (int, 'w) act" where
  "fuse_fs_listxattr fs pn lst sz s =
     (let s0 = set_private fs s in
      case op_listxattr (fs_op fs) of None \<Rightarrow> Inr (- ENOSYS, s0)
      | Some f \<Rightarrow> f pn lst sz (debug_print fs True (''listxattr '' @ pn @ '' '' @ show_nat sz) s0))"

definition fuse_fs_bmap :: "'w fuse_fs \<Rightarrow> string \<Rightarrow> nat \<Rightarrow> int \<Rightarrow> (int \<times> int, 'w) act" where
  "fuse_fs_bmap fs pn blocksize idx s =
     (let s0 = set_private fs s in
      case op_bmap (fs_op fs) of None \<Rightarrow> Inr ((- ENOSYS, idx), s0)
      | Some f \<Rightarrow> f pn blocksize idx (debug_print fs True (''bmap '' @ pn @ '' blocksize: '' @ show_nat blocksize @ '' index: '' @ fmt_llu idx) s0))"

definition fuse_fs_removexattr :: "'w fuse_fs \<Rightarrow> string \<Rightarrow> string \<Rightarrow> (int, 'w) act" where
  "fuse_fs_removexattr fs pn name s =
     (let s0 = set_private fs s in
      case op_removexattr (fs_op fs) of None \<Rightarrow> Inr (- ENOSYS, s0)
      | Some f \<Rightarrow> f pn name (debug_print fs True (''removexattr '' @ pn @ '' '' @ name) s0))"

definition fuse_fs_ioctl :: "'w fuse_fs \<Rightarrow> string option \<Rightarrow> int \<Rightarrow> nat \<Rightarrow> fuse_file_info \<Rightarrow> int \<Rightarrow> ptr option \<Rightarrow> (int \<times> fuse_file_info, 'w) act" where
  "fuse_fs_ioctl fs pn cmd arg fi flags data s =
     (let s0 = set_private fs s in
      case op_ioctl (fs_op fs) of None \<Rightarrow> Inr ((- ENOSYS, fi), s0)
      | Some f \<Rightarrow> f pn cmd arg fi flags data (debug_print fs True (''ioctl['' @ fmt_llu (fi_fh fi) @ ''] 0x'' @ fmt_x cmd @ '' flags: 0x'' @ fmt_x flags) s0))"

definition fuse_fs_poll ::
  "'w fuse_fs \<Rightarrow> string option \<Rightarrow> fuse_file_info \<Rightarrow> nat \<Rightarrow> int \<Rightarrow> (int \<times> int \<times> fuse_file_info, 'w) act" where
  "fuse_fs_poll fs pn fi ph reventsp s =
     (let s0 = set_private fs s in
      case op_poll (fs_op fs) of None \<Rightarrow> Inr ((- ENOSYS, reventsp, fi), s0)
      | Some f \<Rightarrow>
          bind_res (f pn fi ph reventsp
              (debug_print fs True (''poll['' @ fmt_llu (fi_fh fi) @ ''] ph: '' @ fmt_p ph) s0)) (\<lambda>((res, rev, fi1), s1).
          Inr ((res, rev, fi1), debug_print fs (res = 0)
            (''   poll['' @ fmt_llu (fi_fh fi1) @ ''] revents: 0x'' @ fmt_x rev) s1)))"

definition fuse_fs_fallocate :: "'w fuse_fs \<Rightarrow> string option \<Rightarrow> int \<Rightarrow> int \<Rightarrow> int \<Rightarrow> fuse_file_info \<Rightarrow> (int \<times> fuse_file_info, 'w) act" where
  "fuse_fs_fallocate fs pn mode offs len fi s =
     (let s0 = set_private fs s in
      case op_fallocate (fs_op fs) of None \<Rightarrow> Inr ((- ENOSYS, fi), s0)
      | Some f \<Rightarrow> f pn mode offs len fi (debug_print fs True (''fallocate '' @ cstr pn @ '' mode '' @ fmt_x mode @ '', offset: '' @ fmt_llu offs @ '', length: '' @ fmt_llu len) s0))"

definition fuse_fs_chmod :: "'w fuse_fs \<Rightarrow> string \<Rightarrow> int \<Rightarrow> (int, 'w) act" where
  "fuse_fs_chmod fs pn mode s =
     (let s0 = set_private fs s in
      case op_chmod (fs_op fs) of None \<Rightarrow> Inr (- ENOSYS, s0) | Some f \<Rightarrow> f pn mode s0)"

section \<open>Start and end\<close>

definition FUSE_CAP_POSIX_LOCKS :: int where "FUSE_CAP_POSIX_LOCKS = 2"
definition FUSE_CAP_EXPORT_SUPPORT :: int where "FUSE_CAP_EXPORT_SUPPORT = 16"
definition FUSE_CAP_SPLICE_READ :: int where "FUSE_CAP_SPLICE_READ = 512"
definition FUSE_CAP_FLOCK_LOCKS :: int where "FUSE_CAP_FLOCK_LOCKS = 1024"

definition drop_want :: "bool \<Rightarrow> int \<Rightarrow> fuse_conn_info \<Rightarrow> fuse_conn_info" where
  "drop_want b flag conn = (if b then conn\<lparr>want := want conn AND NOT flag\<rparr> else conn)"

definition fuse_fs_init :: "'w fuse_fs \<Rightarrow> fuse_conn_info \<Rightarrow> ('w fuse_fs \<times> fuse_conn_info, 'w) act" where
  "fuse_fs_init fs conn s =
     (let s0 = set_private fs s;
          conn1 = drop_want (op_write_buf (fs_op fs) = None) FUSE_CAP_SPLICE_READ conn;
          conn2 = drop_want (op_lock (fs_op fs) = None) FUSE_CAP_POSIX_LOCKS conn1;
          conn3 = drop_want (op_flock (fs_op fs) = None) FUSE_CAP_FLOCK_LOCKS conn2 in
      case op_init (fs_op fs) of None \<Rightarrow> Inr ((fs, conn3), s0)
      | Some f \<Rightarrow> bind_res (f conn3 s0) (\<lambda>((d, conn4), s1). Inr ((fs\<lparr>fs_user_data := d\<rparr>, conn4), s1)))"

text \<open>What \<^verbatim>\<open>fuse_fs_destroy\<close> does before the file system is freed.\<close>

definition fuse_fs_destroy :: "'w fuse_fs \<Rightarrow> (unit, 'w) act" where
  "fuse_fs_destroy fs s =
     (let s0 = set_private fs s in
      case op_destroy (fs_op fs) of None \<Rightarrow> Inr ((), s0) | Some f \<Rightarrow> f (fs_user_data fs) s0)"

end
