(* ===== verification/Buf_Props.thy ===== *)
theory Buf_Props
  imports Fuse_Buf
begin

text \<open>
  What copying between buffer vectors does. For vectors of memory buffers the copy is
  scatter/gather: the bytes of the source, in the order of its buffers, replace the bytes of the
  destination, as many as both have. The loops over descriptors return.
\<close>

section \<open>The bytes of a vector\<close>

definition rest :: "fuse_bufvec \<Rightarrow> fuse_buf list" where
  "rest v = drop (bv_idx v) (bv_bufs v)"

definition buf_obj :: "fuse_buf \<Rightarrow> nat" where
  "buf_obj b = fst (buf_mem b)"

definition buf_bytes :: "heap \<Rightarrow> fuse_buf \<Rightarrow> mbytes" where
  "buf_bytes h b =
     (case h (buf_obj b) of None \<Rightarrow> []
      | Some obj \<Rightarrow> take (unat (buf_size b)) (drop (snd (buf_mem b)) obj))"

definition vec_bytes :: "heap \<Rightarrow> fuse_bufvec \<Rightarrow> mbytes" where
  "vec_bytes h v = drop (unat (bv_off v)) (concat (map (buf_bytes h) (rest v)))"

text \<open>A memory buffer lies inside its object.\<close>

definition mem_buf :: "heap \<Rightarrow> fuse_buf \<Rightarrow> bool" where
  "mem_buf h b \<longleftrightarrow> \<not> buf_is_fd b \<and>
     (case h (buf_obj b) of None \<Rightarrow> False
      | Some obj \<Rightarrow> snd (buf_mem b) + unat (buf_size b) \<le> length obj)"

definition mem_vec :: "heap \<Rightarrow> fuse_bufvec \<Rightarrow> bool" where
  "mem_vec h v \<longleftrightarrow> list_all (mem_buf h) (rest v) \<and>
     (case rest v of [] \<Rightarrow> True | b # bs \<Rightarrow> bv_off v \<le> buf_size b)"

text \<open>
  A heap after writing to the rest of a vector only: other objects and the bytes around the
  buffers are the same.
\<close>

definition outside :: "fuse_buf \<Rightarrow> heap \<Rightarrow> heap \<Rightarrow> bool" where
  "outside b h h' \<longleftrightarrow>
     map_option (take (snd (buf_mem b))) (h' (buf_obj b)) = map_option (take (snd (buf_mem b))) (h (buf_obj b)) \<and>
     map_option (drop (snd (buf_mem b) + unat (buf_size b))) (h' (buf_obj b)) =
     map_option (drop (snd (buf_mem b) + unat (buf_size b))) (h (buf_obj b))"

definition vec_frame :: "fuse_bufvec \<Rightarrow> heap \<Rightarrow> heap \<Rightarrow> bool" where
  "vec_frame v h h' \<longleftrightarrow>
     (\<forall>a. a \<notin> buf_obj ` set (rest v) \<longrightarrow> h' a = h a) \<and>
     (\<forall>a. map_option length (h' a) = map_option length (h a)) \<and>
     (\<forall>b\<in>set (rest v). outside b h h') \<and>
     (case rest v of [] \<Rightarrow> True
      | b # bs \<Rightarrow> map_option (take (snd (buf_mem b) + unat (bv_off v))) (h' (buf_obj b)) =
                  map_option (take (snd (buf_mem b) + unat (bv_off v))) (h (buf_obj b)))"

lemma vec_frame_refl: "vec_frame v h h"
  by (cases "rest v") (simp_all add: vec_frame_def outside_def)

lemma current_rest: "fuse_bufvec_current v = (case rest v of [] \<Rightarrow> None | b # bs \<Rightarrow> Some b)"
  by (cases "bv_idx v < length (bv_bufs v)")
    (simp_all add: fuse_bufvec_current_def rest_def Cons_nth_drop_Suc [symmetric])

lemma length_buf_bytes: "mem_buf h b \<Longrightarrow> length (buf_bytes h b) = unat (buf_size b)"
  by (auto simp: mem_buf_def buf_bytes_def split: option.splits)

lemma vec_bytes_Nil [simp]: "rest v = [] \<Longrightarrow> vec_bytes h v = []"
  by (simp add: vec_bytes_def)

lemma vec_bytes_Cons:
  assumes "rest v = b # bs" "mem_vec h v"
  shows "vec_bytes h v = drop (unat (bv_off v)) (buf_bytes h b) @ concat (map (buf_bytes h) bs)"
    "length (drop (unat (bv_off v)) (buf_bytes h b)) = unat (buf_size b - bv_off v)"
proof -
  have "bv_off v \<le> buf_size b" "mem_buf h b"
    using assms by (simp_all add: mem_vec_def)
  moreover have "length (buf_bytes h b) = unat (buf_size b)" "unat (bv_off v) \<le> unat (buf_size b)"
    using calculation by (simp_all add: length_buf_bytes word_le_nat_alt)
  ultimately show "vec_bytes h v = drop (unat (bv_off v)) (buf_bytes h b) @ concat (map (buf_bytes h) bs)"
    "length (drop (unat (bv_off v)) (buf_bytes h b)) = unat (buf_size b - bv_off v)"
    using assms(1) by (simp_all add: vec_bytes_def unat_sub)
qed

section \<open>Moving the position\<close>

lemma rest_ConsD:
  assumes "rest v = b # bs"
  shows "bv_idx v < length (bv_bufs v)" "bv_bufs v ! bv_idx v = b" "drop (Suc (bv_idx v)) (bv_bufs v) = bs"
proof -
  show *: "bv_idx v < length (bv_bufs v)"
    using assms by (cases "bv_idx v < length (bv_bufs v)") (simp_all add: rest_def)
  have "bv_bufs v ! bv_idx v # drop (Suc (bv_idx v)) (bv_bufs v) = b # bs"
    using assms unfolding rest_def Cons_nth_drop_Suc [OF *] .
  then show "bv_bufs v ! bv_idx v = b" "drop (Suc (bv_idx v)) (bv_bufs v) = bs"
    by simp_all
qed

lemma offset_add:
  fixes off sz n :: "64 word"
  assumes "off \<le> sz" "n \<le> sz - off"
  shows "off + n \<le> sz" "off + n = sz \<longleftrightarrow> n = sz - off" "unat (off + n) = unat off + unat n"
proof -
  have "unat sz < 2 ^ LENGTH(64)" by (rule unsigned_less)
  then show *: "unat (off + n) = unat off + unat n"
    using assms by (intro unat_add_lem [THEN iffD1]) (simp add: word_le_nat_alt unat_sub)
  show "off + n \<le> sz"
    using assms * by (simp add: word_le_nat_alt unat_sub)
  show "off + n = sz \<longleftrightarrow> n = sz - off" by auto
qed

lemma advance_mem:
  assumes r: "rest v = b # bs" and m: "mem_vec h v" and n: "n \<le> buf_size b - bv_off v"
  obtains v' where "fuse_bufvec_advance v n = Inr (bs \<noteq> [] \<or> n \<noteq> buf_size b - bv_off v, v')"
    "n \<noteq> buf_size b - bv_off v \<Longrightarrow> rest v' = b # bs \<and> bv_off v' = bv_off v + n"
    "n = buf_size b - bv_off v \<Longrightarrow> rest v' = bs \<and> (bs \<noteq> [] \<longrightarrow> bv_off v' = 0)"
proof -
  have le: "bv_off v \<le> buf_size b" using r m by (simp add: mem_vec_def)
  note idx = rest_ConsD [OF r] and off = offset_add [OF le n]
  have last: "Suc (bv_idx v) = length (bv_bufs v) \<longleftrightarrow> bs = []"
    using idx(1,3) by auto
  define v' where "v' = (if n = buf_size b - bv_off v
    then if bs = [] then v\<lparr>bv_off := bv_off v + n, bv_idx := Suc (bv_idx v)\<rparr>
         else v\<lparr>bv_off := 0, bv_idx := Suc (bv_idx v)\<rparr>
    else v\<lparr>bv_off := bv_off v + n\<rparr>)"
  have "fuse_bufvec_advance v n = Inr (bs \<noteq> [] \<or> n \<noteq> buf_size b - bv_off v, v')"
    using idx(1,2) off(1,2) last
    by (simp add: fuse_bufvec_advance_def fuse_bufvec_current_def v'_def)
  moreover have "n \<noteq> buf_size b - bv_off v \<Longrightarrow> rest v' = b # bs \<and> bv_off v' = bv_off v + n"
    "n = buf_size b - bv_off v \<Longrightarrow> rest v' = bs \<and> (bs \<noteq> [] \<longrightarrow> bv_off v' = 0)"
    using r idx(3) by (simp_all add: v'_def rest_def)
  ultimately show thesis by (rule that)
qed

lemma concat_bytes_drop:
  assumes "rest v = b # bs" "mem_vec h v" "n \<le> buf_size b - bv_off v"
    and "n \<noteq> buf_size b - bv_off v \<Longrightarrow> rest v' = b # bs \<and> bv_off v' = bv_off v + n"
    and "n = buf_size b - bv_off v \<Longrightarrow> rest v' = bs \<and> (bs \<noteq> [] \<longrightarrow> bv_off v' = 0)"
  shows "vec_bytes h v' = drop (unat n) (vec_bytes h v)" "mem_vec h v'"
proof -
  note v = vec_bytes_Cons [OF assms(1,2)]
  have le: "bv_off v \<le> buf_size b" using assms(1,2) by (simp add: mem_vec_def)
  note off = offset_add [OF le assms(3)]
  have ok: "list_all (mem_buf h) (b # bs)" using assms(1,2) by (simp add: mem_vec_def)
  show *: "mem_vec h v'"
    using ok off(1) assms(4,5) by (cases "n = buf_size b - bv_off v") (auto simp: mem_vec_def split: list.splits)
  show "vec_bytes h v' = drop (unat n) (vec_bytes h v)"
  proof (cases "n = buf_size b - bv_off v")
    case True
    then have "vec_bytes h v' = concat (map (buf_bytes h) bs)"
      using assms(5) by (cases bs) (simp_all add: vec_bytes_def)
    then show ?thesis using v True by simp
  next
    case False
    then have "unat n < unat (buf_size b - bv_off v)"
      using assms(3) by (simp flip: word_less_nat_alt)
    then show ?thesis
      using v(2) vec_bytes_Cons(1) [of v' b bs h] assms(4) False * off(3)
      by (simp add: v(1) ac_simps)
  qed
qed

section \<open>One round\<close>

text \<open>\<open>v'\<close> is \<open>v\<close> moved on by \<open>n\<close> bytes of its current buffer.\<close>

definition moved :: "fuse_buf \<Rightarrow> fuse_buf list \<Rightarrow> fuse_bufvec \<Rightarrow> 64 word \<Rightarrow> fuse_bufvec \<Rightarrow> bool" where
  "moved b bs v n v' \<longleftrightarrow> rest v = b # bs \<and> n \<le> buf_size b - bv_off v \<and>
     (if n = buf_size b - bv_off v then rest v' = bs \<and> (bs \<noteq> [] \<longrightarrow> bv_off v' = 0)
      else rest v' = b # bs \<and> bv_off v' = bv_off v + n)"

lemma advance_moved:
  assumes "rest v = b # bs" "mem_vec h v" "n \<le> buf_size b - bv_off v"
  obtains v' where "fuse_bufvec_advance v n = Inr (bs \<noteq> [] \<or> n \<noteq> buf_size b - bv_off v, v')" "moved b bs v n v'"
proof (rule advance_mem [OF assms])
  fix v'
  assume v': "fuse_bufvec_advance v n = Inr (bs \<noteq> [] \<or> n \<noteq> buf_size b - bv_off v, v')"
    "n \<noteq> buf_size b - bv_off v \<Longrightarrow> rest v' = b # bs \<and> bv_off v' = bv_off v + n"
    "n = buf_size b - bv_off v \<Longrightarrow> rest v' = bs \<and> (bs \<noteq> [] \<longrightarrow> bv_off v' = 0)"
  have "moved b bs v n v'"
    unfolding moved_def using assms(1,3) v'(2,3) by (cases "n = buf_size b - bv_off v") simp_all
  with v'(1) show thesis by (rule that)
qed

lemma moved_bytes:
  assumes "moved b bs v n v'" "mem_vec h v"
  shows "vec_bytes h v' = drop (unat n) (vec_bytes h v)" "mem_vec h v'"
  using concat_bytes_drop [of v b bs h n v'] assms by (simp_all add: moved_def split: if_splits)

lemma mem_vec_lengths:
  assumes "\<And>a. map_option length (h' a) = map_option length (h a)"
  shows "mem_vec h' v = mem_vec h v"
proof -
  have "mem_buf h' b = mem_buf h b" for b
    using assms [of "buf_obj b"] by (auto simp: mem_buf_def split: option.splits)
  then have "mem_buf h' = mem_buf h" by (rule ext)
  then show ?thesis by (simp add: mem_vec_def)
qed

lemma vec_bytes_cong:
  assumes "\<And>b. b \<in> set (rest v) \<Longrightarrow> h' (buf_obj b) = h (buf_obj b)"
  shows "vec_bytes h' v = vec_bytes h v"
proof -
  have "map (buf_bytes h') (rest v) = map (buf_bytes h) (rest v)"
    using assms by (simp add: buf_bytes_def)
  then show ?thesis by (simp only: vec_bytes_def)
qed

lemma vec_bytes_take:
  assumes "rest v = b # bs" "mem_vec h v" "n \<le> buf_size b - bv_off v" "h (buf_obj b) = Some obj"
  shows "take (unat n) (vec_bytes h v) = take (unat n) (drop (snd (buf_mem b) + unat (bv_off v)) obj)"
    "snd (buf_mem b) + unat (bv_off v) + unat n \<le> length obj"
proof -
  have le: "bv_off v \<le> buf_size b" and fit: "snd (buf_mem b) + unat (buf_size b) \<le> length obj"
    using assms by (simp_all add: mem_vec_def mem_buf_def)
  then have n: "unat n \<le> unat (buf_size b) - unat (bv_off v)" "unat (bv_off v) \<le> unat (buf_size b)"
    using assms(3) by (simp_all add: word_le_nat_alt unat_sub)
  show "take (unat n) (vec_bytes h v) = take (unat n) (drop (snd (buf_mem b) + unat (bv_off v)) obj)"
    using vec_bytes_Cons [OF assms(1,2)] assms(3,4) n
    by (simp add: buf_bytes_def drop_take min_absorb1 word_le_nat_alt ac_simps)
  show "snd (buf_mem b) + unat (bv_off v) + unat n \<le> length obj"
    using fit n by linarith
qed

lemma drop_splice_bytes:
  assumes "k + length bs \<le> length obj" "k + length bs \<le> j"
  shows "drop j (splice_bytes k bs obj) = drop j obj"
  using assms by (simp add: splice_bytes_def)

lemma mem_vec_obj:
  assumes "rest v = b # bs" "mem_vec h v"
  obtains obj where "h (buf_obj b) = Some obj"
  using assms by (auto simp: mem_vec_def mem_buf_def split: option.splits)


lemma write_outside:
  assumes v: "moved b cs v n v'" and m: "mem_vec h v" and d: "distinct (map buf_obj (rest v))"
    and obj: "h (buf_obj b) = Some obj" and len: "length bs = unat n"
    and h1: "h1 = h(buf_obj b \<mapsto> splice_bytes (snd (buf_mem b) + unat (bv_off v)) bs obj)"
    and f: "vec_frame v' h1 h'" and c: "c \<in> set (rest v)"
  shows "outside c h h'"
proof -
  have r: "rest v = b # cs" and n: "n \<le> buf_size b - bv_off v" using v by (simp_all add: moved_def)
  have le: "bv_off v \<le> buf_size b" using r m by (simp add: mem_vec_def)
  have fit: "snd (buf_mem b) + unat (bv_off v) + unat n \<le> length obj" by (rule vec_bytes_take(2) [OF r m n obj])
  have bc: "c = b \<or> c \<in> set cs \<and> buf_obj c \<noteq> buf_obj b"
    using c d r by (metis distinct.simps(2) imageI list.simps(9) set_ConsD set_map)
  have "unat (bv_off v) + unat n \<le> unat (buf_size b)"
    using offset_add(1,3) [OF le n] by (simp add: word_le_nat_alt)
  then have "outside b h h1"
    using fit len obj by (simp add: outside_def h1 drop_splice_bytes)
  then have 1: "outside c h h1" using bc by (auto simp: outside_def h1)
  have "outside c h1 h'"
  proof (cases "c \<in> set (rest v')")
    case True
    then show ?thesis using f by (simp add: vec_frame_def)
  next
    case False
    then have "c = b" "rest v' = cs" using c v r by (auto simp: moved_def split: if_splits)
    then have "buf_obj c \<notin> buf_obj ` set (rest v')" using d r by simp
    then show ?thesis using f by (simp add: vec_frame_def outside_def)
  qed
  with 1 show ?thesis by (simp add: outside_def)
qed

text \<open>
  The bytes \<open>bs\<close> are written at the current position of \<open>v\<close>, then the memory behind the new
  position may change.
\<close>

lemma write_moved:
  assumes v: "moved b cs v n v'" and m: "mem_vec h v" and d: "distinct (map buf_obj (rest v))"
    and obj: "h (buf_obj b) = Some obj" and len: "length bs = unat n"
    and h1: "h1 = h(buf_obj b \<mapsto> splice_bytes (snd (buf_mem b) + unat (bv_off v)) bs obj)"
    and f: "vec_frame v' h1 h'"
  shows "vec_bytes h' v = bs @ vec_bytes h' v'" "vec_frame v h h'" "mem_vec h1 v'"
proof -
  define k where "k = snd (buf_mem b) + unat (bv_off v)"
  have r: "rest v = b # cs" and n: "n \<le> buf_size b - bv_off v" using v by (simp_all add: moved_def)
  have fit: "k + unat n \<le> length obj" using vec_bytes_take(2) [OF r m n obj] by (simp add: k_def)
  have l1: "map_option length (h1 a) = map_option length (h a)" for a
    using obj fit len by (simp add: h1 flip: k_def)
  have l2: "map_option length (h' a) = map_option length (h a)" for a
    using f l1 by (simp add: vec_frame_def)
  have m': "mem_vec h' v" and m1: "mem_vec h1 v" using m mem_vec_lengths l1 l2 by metis+
  show "mem_vec h1 v'" by (rule moved_bytes [OF v m1])
  have le: "bv_off v \<le> buf_size b" using r m by (simp add: mem_vec_def)
  obtain obj' where obj': "h' (buf_obj b) = Some obj'" by (rule mem_vec_obj [OF r m'])
  have take': "take (k + unat n) obj' = take (k + unat n) (splice_bytes k bs obj)"
  proof (cases "n = buf_size b - bv_off v")
    case True
    then have "h' (buf_obj b) = h1 (buf_obj b)"
      using v d r f by (auto simp: moved_def vec_frame_def)
    then show ?thesis using obj' by (simp add: h1 k_def)
  next
    case False
    then have "rest v' = b # cs" "bv_off v' = bv_off v + n" using v by (simp_all add: moved_def)
    then show ?thesis using f obj' offset_add(3) [OF le n] by (simp add: vec_frame_def h1 k_def add.assoc)
  qed
  have "take (unat n) (vec_bytes h' v) = take (unat n) (drop k obj')"
    using vec_bytes_take(1) [OF r m' n obj'] by (simp add: k_def)
  also have "\<dots> = drop k (take (k + unat n) obj')" by (simp add: drop_take)
  also have "\<dots> = bs" using fit len by (simp add: take' splice_bytes_def)
  finally show "vec_bytes h' v = bs @ vec_bytes h' v'"
    using moved_bytes(1) [OF v m'] by (metis append_take_drop_id)
  have "take k obj' = take k obj"
    using arg_cong [where f = "take k", OF take'] fit by simp
  moreover have "h' a = h a" if "a \<notin> buf_obj ` set (rest v)" for a
  proof -
    have "a \<notin> buf_obj ` set (rest v')" using that v r by (auto simp: moved_def split: if_splits)
    then show ?thesis using f that r by (simp add: vec_frame_def h1)
  qed
  moreover have "outside c h h'" if "c \<in> set (rest v)" for c
    by (rule write_outside [OF v m d obj len h1 f that])
  ultimately show "vec_frame v h h'"
    using l2 r obj obj' by (simp add: vec_frame_def k_def)
qed

lemma write_moved_rest:
  assumes v: "moved b cs v n v'" and m: "mem_vec h v" and d: "distinct (map buf_obj (rest v))"
    and obj: "h (buf_obj b) = Some obj" and len: "length bs = unat n"
    and h1: "h1 = h(buf_obj b \<mapsto> splice_bytes (snd (buf_mem b) + unat (bv_off v)) bs obj)"
  shows "vec_bytes h1 v' = drop (unat n) (vec_bytes h v)"
proof -
  have r: "rest v = b # cs" and n: "n \<le> buf_size b - bv_off v" using v by (simp_all add: moved_def)
  have le: "bv_off v \<le> buf_size b" using r m by (simp add: mem_vec_def)
  have tl: "buf_bytes h1 c = buf_bytes h c" if "c \<in> set cs" for c
  proof -
    have "buf_obj c \<noteq> buf_obj b" using that d r by (metis distinct.simps(2) imageI list.simps(9) set_map)
    then show ?thesis by (simp add: buf_bytes_def h1)
  qed
  have hd: "drop (unat (bv_off v) + unat n) (buf_bytes h1 b) = drop (unat (bv_off v) + unat n) (buf_bytes h b)"
    using vec_bytes_take(2) [OF r m n obj] len obj
    by (simp add: buf_bytes_def h1 drop_take drop_drop drop_splice_bytes)
  have len1: "length (buf_bytes h1 b) = length (buf_bytes h b)"
    using vec_bytes_take(2) [OF r m n obj] len obj by (simp add: buf_bytes_def h1)
  have "vec_bytes h1 v' = vec_bytes h v'"
  proof (cases "n = buf_size b - bv_off v")
    case True
    then have "rest v' = cs" using v by (simp add: moved_def)
    then show ?thesis using tl by (simp add: vec_bytes_def cong: map_cong)
  next
    case False
    then have "rest v' = b # cs" "unat (bv_off v') = unat (bv_off v) + unat n"
      using v offset_add(3) [OF le n] by (simp_all add: moved_def)
    then show ?thesis using tl hd len1 by (simp add: vec_bytes_def cong: map_cong)
  qed
  then show ?thesis using moved_bytes(1) [OF v m] by simp
qed


section \<open>The whole copy\<close>

text \<open>The two vectors are in memory, in different objects, each object used once by the destination.\<close>

definition separate :: "heap \<Rightarrow> fuse_bufvec \<Rightarrow> fuse_bufvec \<Rightarrow> bool" where
  "separate h dstv srcv \<longleftrightarrow> mem_vec h dstv \<and> mem_vec h srcv \<and> distinct (map buf_obj (rest dstv)) \<and>
     buf_obj ` set (rest dstv) \<inter> buf_obj ` set (rest srcv) = {}"

definition copied_bytes :: "heap \<Rightarrow> fuse_bufvec \<Rightarrow> fuse_bufvec \<Rightarrow> nat" where
  "copied_bytes h dstv srcv = min (length (vec_bytes h srcv)) (length (vec_bytes h dstv))"

lemma sint_small:
  fixes x :: "64 word"
  assumes "unat x < 2 ^ 63"
  shows "sint x = int (unat x)"
proof -
  have "int (unat x) < int (2 ^ 63)" using assms by (simp only: of_nat_less_iff)
  then have "uint x < 2 ^ 63" by simp
  moreover have "- (2 ^ 63) \<le> uint x" by (rule order_trans [of _ 0]) simp_all
  ultimately have "signed_take_bit 63 (uint x) = uint x" by (intro signed_take_bit_int_eq_self)
  then show ?thesis by (simp add: sint_uint)
qed

lemma copy_one_mem:
  assumes dst: "rest dstv = d # ds" and src: "rest srcv = b # bs" and sep: "separate (mheap s) dstv srcv"
    and len: "len \<le> buf_size d - bv_off dstv" "len \<le> buf_size b - bv_off srcv"
    and obj: "mheap s (buf_obj d) = Some obj"
  shows "fuse_buf_copy_one ops d (bv_off dstv) b (bv_off srcv) len flags s =
    Inr (sint len, s\<lparr>mheap := (mheap s)(buf_obj d \<mapsto>
      splice_bytes (snd (buf_mem d) + unat (bv_off dstv)) (take (unat len) (vec_bytes (mheap s) srcv)) obj)\<rparr>)"
proof -
  have m: "mem_vec (mheap s) dstv" "mem_vec (mheap s) srcv" and ne: "buf_obj d \<noteq> buf_obj b"
    using sep dst src by (auto simp: separate_def)
  obtain sobj where sobj: "mheap s (buf_obj b) = Some sobj" by (rule mem_vec_obj [OF src m(2)])
  have nofd: "\<not> buf_is_fd d" "\<not> buf_is_fd b" using m dst src by (simp_all add: mem_vec_def mem_buf_def)
  note t = vec_bytes_take [OF src m(2) len(2) sobj] and td = vec_bytes_take(2) [OF dst m(1) len(1) obj]
  have "mem_read (mheap s) (ptr_add (buf_mem b) (bv_off srcv)) (unat len) =
      Inr (take (unat len) (vec_bytes (mheap s) srcv))"
    using t sobj by (simp add: mem_read_def ptr_add_def buf_obj_def)
  moreover have "length (take (unat len) (vec_bytes (mheap s) srcv)) = unat len"
    using t by simp
  ultimately show ?thesis
    using nofd ne td obj
    by (auto simp: fuse_buf_copy_one_def Let_def ptr_add_def buf_obj_def mem_write_Inr)
qed


lemma separate_step:
  assumes sep: "separate h dstv srcv" and d: "moved d ds dstv len dstv1" and b: "moved b bs srcv len srcv1"
    and obj: "h (buf_obj d) = Some obj"
    and h1: "h1 = h(buf_obj d \<mapsto> splice_bytes (snd (buf_mem d) + unat (bv_off dstv)) (take (unat len) (vec_bytes h srcv)) obj)"
  shows "separate h1 dstv1 srcv1" "vec_bytes h1 srcv1 = drop (unat len) (vec_bytes h srcv)"
    "vec_bytes h1 dstv1 = drop (unat len) (vec_bytes h dstv)"
    "vec_frame dstv1 h1 h' \<Longrightarrow>
      vec_bytes h' dstv = take (unat len) (vec_bytes h srcv) @ vec_bytes h' dstv1 \<and> vec_frame dstv h h'"
proof -
  have m: "mem_vec h dstv" "mem_vec h srcv" and dist: "distinct (map buf_obj (rest dstv))"
    and disj: "buf_obj ` set (rest dstv) \<inter> buf_obj ` set (rest srcv) = {}"
    using sep by (simp_all add: separate_def)
  have r: "rest dstv = d # ds" "rest srcv = b # bs" and n: "len \<le> buf_size b - bv_off srcv"
    using d b by (simp_all add: moved_def)
  obtain sobj where "h (buf_obj b) = Some sobj" by (rule mem_vec_obj [OF r(2) m(2)])
  then have len: "length (take (unat len) (vec_bytes h srcv)) = unat len"
    using vec_bytes_take [OF r(2) m(2) n] by simp
  note w = write_moved [OF d m(1) dist obj len h1]
  note frame = vec_frame_refl [of dstv1 h1]
  have sub: "set (rest dstv1) \<subseteq> set (rest dstv)" "set (rest srcv1) \<subseteq> set (rest srcv)"
    "distinct (map buf_obj (rest dstv1))"
    using d b r dist by (auto simp: moved_def split: if_splits)
  have same: "h1 (buf_obj c) = h (buf_obj c)" if "c \<in> set (rest srcv)" for c
  proof -
    have "buf_obj c \<noteq> buf_obj d" using that disj r(1) by (metis IntI empty_iff imageI list.set_intros(1))
    then show ?thesis by (simp add: h1)
  qed
  have src1: "mem_vec h srcv1" "vec_bytes h srcv1 = drop (unat len) (vec_bytes h srcv)"
    using moved_bytes [OF b m(2)] by simp_all
  have "map_option length (h1 a) = map_option length (h a)" for a
    using w(2) [OF frame] by (simp add: vec_frame_def)
  then have "mem_vec h1 srcv1" using src1(1) mem_vec_lengths by blast
  then show "separate h1 dstv1 srcv1"
    using w(3) [OF frame] sub disj by (fastforce simp: separate_def)
  show "vec_bytes h1 srcv1 = drop (unat len) (vec_bytes h srcv)"
    using src1(2) vec_bytes_cong [of srcv1 h1 h] same sub(2) by auto
  show "vec_bytes h1 dstv1 = drop (unat len) (vec_bytes h dstv)"
    by (rule write_moved_rest [OF d m(1) dist obj len h1])
  show "vec_bytes h' dstv = take (unat len) (vec_bytes h srcv) @ vec_bytes h' dstv1 \<and> vec_frame dstv h h'"
    if "vec_frame dstv1 h1 h'"
    using w(1,2) [OF that] by simp
qed


text \<open>One round of the loop between memory vectors.\<close>

lemma copy_round:
  assumes sep: "separate (mheap s) dstv srcv" and r: "rest srcv = b # bs" "rest dstv = d # ds"
    and obj: "mheap s (buf_obj d) = Some obj"
    and len: "len = min_size (buf_size b - bv_off srcv) (buf_size d - bv_off dstv)" "unat len < 2 ^ 63"
    and s1: "s1 = s\<lparr>mheap := (mheap s)(buf_obj d \<mapsto>
      splice_bytes (snd (buf_mem d) + unat (bv_off dstv)) (take (unat len) (vec_bytes (mheap s) srcv)) obj)\<rparr>"
  obtains srcv1 dstv1 dstv2 where "moved b bs srcv len srcv1" "moved d ds dstv len dstv1"
    "bufs_left dstv1 + bufs_left srcv1 < bufs_left dstv + bufs_left srcv"
    "fuse_buf_copy_loop ops dstv srcv flags copied s =
      (if bs = [] \<and> len = buf_size b - bv_off srcv \<or> ds = [] \<and> len = buf_size d - bv_off dstv
       then Inr ((sint (copied + len), dstv2, srcv1), s1)
       else fuse_buf_copy_loop ops dstv1 srcv1 flags (copied + len) s1)"
proof -
  have m: "mem_vec (mheap s) dstv" "mem_vec (mheap s) srcv" using sep by (simp_all add: separate_def)
  have le: "len \<le> buf_size b - bv_off srcv" "len \<le> buf_size d - bv_off dstv"
    by (auto simp: len min_size_def)
  have cur: "fuse_bufvec_current srcv = Some b" "fuse_bufvec_current dstv = Some d"
    using r by (simp_all add: current_rest)
  obtain srcv1 where src1: "fuse_bufvec_advance srcv len = Inr (bs \<noteq> [] \<or> len \<noteq> buf_size b - bv_off srcv, srcv1)"
    "moved b bs srcv len srcv1" by (rule advance_moved [OF r(1) m(2) le(1)])
  obtain dstv1 where dst1: "fuse_bufvec_advance dstv len = Inr (ds \<noteq> [] \<or> len \<noteq> buf_size d - bv_off dstv, dstv1)"
    "moved d ds dstv len dstv1" by (rule advance_moved [OF r(2) m(1) le(2)])
  note one = copy_one_mem [OF r(2,1) sep le(2,1) obj, of ops flags, folded s1]
  have w: "word_of_int (sint len) = len" "0 \<le> sint len"
    using sint_small [OF len(2)] by simp_all
  show thesis
  proof (rule that [OF src1(2) dst1(2)])
    show "bufs_left dstv1 + bufs_left srcv1 < bufs_left dstv + bufs_left srcv"
      by (rule copy_step_left [OF cur src1(1) dst1(1)]) (simp_all add: len(1))
    show "fuse_buf_copy_loop ops dstv srcv flags copied s =
      (if bs = [] \<and> len = buf_size b - bv_off srcv \<or> ds = [] \<and> len = buf_size d - bv_off dstv
       then Inr ((sint (copied + len), if bs = [] \<and> len = buf_size b - bv_off srcv then dstv else dstv1, srcv1), s1)
       else fuse_buf_copy_loop ops dstv1 srcv1 flags (copied + len) s1)"
      using one w src1(1) dst1(1)
      by (subst fuse_buf_copy_loop.simps) (auto simp: cur Let_def simp flip: len(1))
  qed
qed

lemma take_drop_split: "k \<le> n \<Longrightarrow> take k xs @ take (n - k) (drop k xs) = take n xs"
  by (metis le_add_diff_inverse take_add)

lemma copy_loop_mem:
  assumes "separate (mheap s) dstv srcv" "unat copied + copied_bytes (mheap s) dstv srcv < 2 ^ 63"
  shows "\<exists>dstv' srcv' h'.
    fuse_buf_copy_loop ops dstv srcv flags copied s =
      Inr ((int (unat copied + copied_bytes (mheap s) dstv srcv), dstv', srcv'), s\<lparr>mheap := h'\<rparr>) \<and>
    vec_bytes h' dstv = take (copied_bytes (mheap s) dstv srcv) (vec_bytes (mheap s) srcv) @
      drop (copied_bytes (mheap s) dstv srcv) (vec_bytes (mheap s) dstv) \<and>
    vec_frame dstv (mheap s) h'"
  using assms
proof (induction "bufs_left dstv + bufs_left srcv" arbitrary: dstv srcv copied s rule: less_induct)
  case less
  let ?h = "mheap s"
  define n where "n = copied_bytes ?h dstv srcv"
  show ?case
  proof (cases "rest srcv = [] \<or> rest dstv = []")
    case True
    then have z: "copied_bytes ?h dstv srcv = 0" by (auto simp: copied_bytes_def)
    then have "fuse_buf_copy_loop ops dstv srcv flags copied s =
        Inr ((int (unat copied), dstv, srcv), s\<lparr>mheap := ?h\<rparr>)"
      using True less.prems(2) by (subst fuse_buf_copy_loop.simps) (auto simp: current_rest sint_small split: list.splits)
    with z show ?thesis
      by (intro exI [of _ dstv] exI [of _ srcv] exI [of _ ?h]) (simp add: vec_frame_refl)
  next
    case False
    then obtain b bs d ds where r: "rest srcv = b # bs" "rest dstv = d # ds"
      by (meson neq_Nil_conv)
    define len where "len = min_size (buf_size b - bv_off srcv) (buf_size d - bv_off dstv)"
    have m: "mem_vec ?h dstv" "mem_vec ?h srcv" using less.prems(1) by (simp_all add: separate_def)
    note vd = vec_bytes_Cons [OF r(2) m(1)] and vs = vec_bytes_Cons [OF r(1) m(2)]
    obtain obj where obj: "?h (buf_obj d) = Some obj" by (rule mem_vec_obj [OF r(2) m(1)])
    have len: "unat len \<le> n" "unat len \<le> length (vec_bytes ?h srcv)" "unat len \<le> length (vec_bytes ?h dstv)"
      using vd vs by (auto simp: n_def copied_bytes_def len_def min_size_def word_le_nat_alt word_less_nat_alt)
    define s1 where "s1 = s\<lparr>mheap := ?h(buf_obj d \<mapsto> splice_bytes (snd (buf_mem d) + unat (bv_off dstv))
      (take (unat len) (vec_bytes ?h srcv)) obj)\<rparr>"
    have small: "unat len < 2 ^ 63" using less.prems(2) len(1) by (simp add: n_def)
    have add: "unat (copied + len) = unat copied + unat len"
      using less.prems(2) len(1) by (intro unat_add_lem [THEN iffD1]) (simp add: n_def)
    obtain srcv1 dstv1 dstv2 where v1: "moved b bs srcv len srcv1" "moved d ds dstv len dstv1"
      and left: "bufs_left dstv1 + bufs_left srcv1 < bufs_left dstv + bufs_left srcv"
      and loop: "fuse_buf_copy_loop ops dstv srcv flags copied s =
        (if bs = [] \<and> len = buf_size b - bv_off srcv \<or> ds = [] \<and> len = buf_size d - bv_off dstv
         then Inr ((sint (copied + len), dstv2, srcv1), s1)
         else fuse_buf_copy_loop ops dstv1 srcv1 flags (copied + len) s1)"
      by (rule copy_round [OF less.prems(1) r obj len_def small s1_def])
    have h1: "mheap s1 = ?h(buf_obj d \<mapsto> splice_bytes (snd (buf_mem d) + unat (bv_off dstv))
      (take (unat len) (vec_bytes ?h srcv)) obj)" by (simp add: s1_def)
    note st = separate_step [OF less.prems(1) v1(2,1) obj h1]
    show ?thesis
    proof (cases "bs = [] \<and> len = buf_size b - bv_off srcv \<or> ds = [] \<and> len = buf_size d - bv_off dstv")
      case True
      then have n: "n = unat len" using len vd vs by (auto simp: n_def copied_bytes_def)
      have "sint (copied + len) = int (unat copied + n)"
        using sint_small [of "copied + len"] less.prems(2) by (simp add: add n flip: n_def)
      moreover have "s1 = s\<lparr>mheap := mheap s1\<rparr>" by (simp add: s1_def)
      ultimately show ?thesis
        using loop True st(3) st(4) [OF vec_frame_refl] n
        by (intro exI [of _ dstv2] exI [of _ srcv1] exI [of _ "mheap s1"]) (simp flip: n_def)
    next
      case False
      have n1: "copied_bytes (mheap s1) dstv1 srcv1 = n - unat len"
        using st(2,3) by (simp add: n_def copied_bytes_def)
      then have "unat (copied + len) + copied_bytes (mheap s1) dstv1 srcv1 = unat copied + n"
        using add len(1) by simp
      moreover from this have "unat (copied + len) + copied_bytes (mheap s1) dstv1 srcv1 < 2 ^ 63"
        using less.prems(2) by (simp add: n_def)
      ultimately obtain dstv' srcv' h' where ih:
        "fuse_buf_copy_loop ops dstv1 srcv1 flags (copied + len) s1 =
          Inr ((int (unat copied + n), dstv', srcv'), s1\<lparr>mheap := h'\<rparr>)"
        "vec_bytes h' dstv1 = take (n - unat len) (vec_bytes (mheap s1) srcv1) @
          drop (n - unat len) (vec_bytes (mheap s1) dstv1)" "vec_frame dstv1 (mheap s1) h'"
        using less.hyps [OF left st(1)] n1 by metis
      have "vec_bytes h' dstv = take n (vec_bytes ?h srcv) @ drop n (vec_bytes ?h dstv)"
        using st(4) [OF ih(3)] ih(2) st(2,3) len(1) by (simp add: take_drop_split)
      then show ?thesis
        using loop False ih(1) st(4) [OF ih(3)]
        by (intro exI [of _ dstv'] exI [of _ srcv'] exI [of _ h']) (simp add: s1_def flip: n_def)
    qed
  qed
qed


section \<open>Properties\<close>

text \<open>
  (C27) Copying between vectors of memory buffers returns the number of bytes that both have, puts
  the bytes of the source in their order over the bytes of the destination, whatever the
  boundaries of the buffers on both sides, and touches nothing else.
\<close>

theorem fuse_buf_copy_memory:
  assumes "separate (mheap s) dstv srcv" "n = copied_bytes (mheap s) dstv srcv" "n < 2 ^ 63"
  shows "\<exists>dstv' srcv' h'.
    fuse_buf_copy ops False dstv srcv flags s = Inr ((int n, dstv', srcv'), s\<lparr>mheap := h'\<rparr>) \<and>
    vec_bytes h' dstv = take n (vec_bytes (mheap s) srcv) @ drop n (vec_bytes (mheap s) dstv) \<and>
    vec_frame dstv (mheap s) h'"
  using copy_loop_mem [of s dstv srcv 0] assms by (simp add: fuse_buf_copy_def)

definition mbuf :: "nat \<Rightarrow> nat \<Rightarrow> 64 word \<Rightarrow> fuse_buf" where
  "mbuf a k n = \<lparr>buf_size = n, buf_is_fd = False, buf_fd_seek = False, buf_fd_retry = False,
     buf_mem = (a, k), buf_fd = 0, buf_pos = 0\<rparr>"

definition two_objects :: "unit fstate" where
  "two_objects = \<lparr>private_data = 0, ctx_umask = 0, stderr = [],
     mheap = [1 \<mapsto> [Some 10, Some 11], 2 \<mapsto> [Some 12, Some 13, Some 14], 3 \<mapsto> [Some 20, Some 21, Some 22, Some 23]],
     mnext = 4, mfree = 0, world = ()\<rparr>"

definition gather_src :: fuse_bufvec where
  "gather_src = \<lparr>bv_idx = 0, bv_off = 1, bv_bufs = [mbuf 1 0 2, mbuf 2 1 2]\<rparr>"

definition gather_dst :: fuse_bufvec where
  "gather_dst = \<lparr>bv_idx = 0, bv_off = 0, bv_bufs = [mbuf 3 0 4]\<rparr>"

lemmas gather_defs = two_objects_def gather_src_def gather_dst_def mbuf_def separate_def mem_vec_def
  mem_buf_def rest_def buf_obj_def vec_bytes_def buf_bytes_def copied_bytes_def

theorem fuse_buf_copy_memory_witness:
  "\<forall>ops flags. \<exists>dstv' srcv' h'.
    fuse_buf_copy ops False gather_dst gather_src flags two_objects = Inr ((3, dstv', srcv'), two_objects\<lparr>mheap := h'\<rparr>) \<and>
    vec_bytes h' gather_dst = [Some 11, Some 13, Some 14, Some 23]"
proof (intro allI)
  fix ops flags
  have "separate (mheap two_objects) gather_dst gather_src" by (simp add: gather_defs)
  moreover have "vec_bytes (mheap two_objects) gather_src = [Some 11, Some 13, Some 14]"
    "vec_bytes (mheap two_objects) gather_dst = [Some 20, Some 21, Some 22, Some 23]"
    by (simp_all add: gather_defs)
  ultimately show "\<exists>dstv' srcv' h'.
    fuse_buf_copy ops False gather_dst gather_src flags two_objects = Inr ((3, dstv', srcv'), two_objects\<lparr>mheap := h'\<rparr>) \<and>
    vec_bytes h' gather_dst = [Some 11, Some 13, Some 14, Some 23]"
    using fuse_buf_copy_memory [of two_objects gather_dst gather_src 3 ops flags]
    by (fastforce simp: copied_bytes_def)
qed

section \<open>Short writes\<close>

text \<open>
  What POSIX promises of \<^verbatim>\<open>pwrite\<close> on a regular file with room: it writes at least one of the
  bytes, possibly not all. \<open>file\<close> reads the contents of the file off the world.
\<close>

definition pwrite_ok :: "'w fdops \<Rightarrow> int \<Rightarrow> ('w \<Rightarrow> mbytes) \<Rightarrow> bool" where
  "pwrite_ok ops fd file \<longleftrightarrow>
     (\<forall>bytes pos w. bytes \<noteq> [] \<and> 0 \<le> pos \<and> nat pos \<le> length (file w) \<longrightarrow>
       (\<exists>k w'. fd_pwrite ops fd bytes pos w = (Inr k, w') \<and> 0 < k \<and> unat k \<le> length bytes \<and>
          file w' = splice_bytes (nat pos) (take (unat k) bytes) (file w)))"

lemma splice_bytes_extend:
  "k \<le> length obj \<Longrightarrow> j = k + length bs \<Longrightarrow>
    splice_bytes j cs (splice_bytes k bs obj) = splice_bytes k (bs @ cs) obj"
  by (simp add: splice_bytes_def ac_simps)

lemma mem_read_rest:
  assumes "mem_read h (ptr_add p off) (unat len) = Inr bytes" "k \<le> len" "unat off + unat len < 2 ^ 64"
  shows "mem_read h (ptr_add p (off + k)) (unat (len - k)) = Inr (drop (unat k) bytes)"
    "length bytes = unat len"
proof -
  have k: "unat k \<le> unat len" "unat (len - k) = unat len - unat k"
    using assms(2) by (simp_all add: word_le_nat_alt unat_sub)
  have "unat (off + k) = unat off + unat k"
    using assms(3) k by (intro unat_add_lem [THEN iffD1]) simp
  then show "mem_read h (ptr_add p (off + k)) (unat (len - k)) = Inr (drop (unat k) bytes)"
    using assms(1) k by (auto simp: mem_read_def ptr_add_def res_iffs drop_take ac_simps split: if_splits)
  show "length bytes = unat len"
    using assms(1) by (auto simp: mem_read_def res_iffs split: if_splits)
qed

lemma fuse_buf_write_loop:
  assumes ok: "pwrite_ok ops (buf_fd dst) file" "buf_fd_seek dst" "buf_fd_retry dst"
  shows "\<lbrakk>mem_read (mheap s) (ptr_add (buf_mem src) src_off) (unat len) = Inr bytes;
    0 \<le> buf_pos dst; unat copied + unat len < 2 ^ 63;
    unat src_off + unat len < 2 ^ 64; unat dst_off + unat len < 2 ^ 64;
    nat (buf_pos dst) + unat dst_off \<le> length (file (world s))\<rbrakk> \<Longrightarrow>
    \<exists>w'. fuse_buf_write ops dst dst_off src src_off len copied s =
        Inr (int (unat copied + unat len), s\<lparr>world := w'\<rparr>) \<and>
      file w' = splice_bytes (nat (buf_pos dst) + unat dst_off) bytes (file (world s))"
proof (induction "unat len" arbitrary: dst_off src_off len copied s bytes rule: less_induct)
  case less
  note rd = mem_read_rest [OF less.prems(1) _ less.prems(4)]
  show ?case
  proof (cases "len = 0")
    case True
    then have "bytes = []" using rd(2) [of 0] by simp
    moreover have "fuse_buf_write ops dst dst_off src src_off len copied s = Inr (int (unat copied), s\<lparr>world := world s\<rparr>)"
      using True less.prems(3) by (subst fuse_buf_write.simps) (simp add: sint_small)
    ultimately show ?thesis using True by (intro exI [of _ "world s"]) simp
  next
    case False
    let ?pos = "buf_pos dst + uint dst_off"
    have len: "length bytes = unat len" using rd(2) [of 0] by simp
    have pos: "nat ?pos = nat (buf_pos dst) + unat dst_off" "0 \<le> ?pos"
      using less.prems(2) by (simp_all add: nat_add_distrib)
    have "bytes \<noteq> []" using len False by (metis length_0_conv unat_eq_0)
    then obtain k w where k: "fd_pwrite ops (buf_fd dst) bytes ?pos (world s) = (Inr k, w)" "0 < k"
      "unat k \<le> unat len" and w: "file w = splice_bytes (nat ?pos) (take (unat k) bytes) (file (world s))"
      using ok(1) less.prems(6) pos len by (metis pwrite_ok_def)
    have kl: "k \<le> len" using k(3) by (simp add: word_le_nat_alt)
    have sub: "unat (len - k) = unat len - unat k" using kl by (simp add: unat_sub)
    have sums: "unat (copied + k) = unat copied + unat k" "unat (src_off + k) = unat src_off + unat k"
      "unat (dst_off + k) = unat dst_off + unat k"
      using less.prems(3-5) k(3) by (auto intro!: unat_add_lem [THEN iffD1])
    have nz: "k \<noteq> 0" "\<not> len < k" using k(2) kl by (auto simp: not_less)
    have step: "fuse_buf_write ops dst dst_off src src_off len copied s =
      fuse_buf_write ops dst (dst_off + k) src (src_off + k) (len - k) (copied + k) (s\<lparr>world := w\<rparr>)"
      using less.prems(1) False k(1) nz ok by (subst fuse_buf_write.simps) simp
    have "unat (len - k) < unat len" using k(2,3) sub by (simp add: word_less_nat_alt)
    then obtain w' where w': "fuse_buf_write ops dst (dst_off + k) src (src_off + k) (len - k) (copied + k) (s\<lparr>world := w\<rparr>) =
        Inr (int (unat (copied + k) + unat (len - k)), s\<lparr>world := w, world := w'\<rparr>)"
      "file w' = splice_bytes (nat (buf_pos dst) + unat (dst_off + k)) (drop (unat k) bytes) (file w)"
      using less.hyps [of "len - k" "s\<lparr>world := w\<rparr>" "src_off + k" "drop (unat k) bytes" "copied + k" "dst_off + k"]
        rd(1) [OF kl] less.prems(2-6) sums sub k(3) w len pos(1) by (auto simp: splice_bytes_def)
    have "file w' = splice_bytes (nat (buf_pos dst) + unat dst_off) bytes (file (world s))"
      using w' w sums(3) pos len k(3) less.prems(6) by (simp add: splice_bytes_extend)
    then show ?thesis
      using step w'(1) sums(1) sub k(3) by (intro exI [of _ w']) simp
  qed
qed

text \<open>
  (C35) With \<^verbatim>\<open>FUSE_BUF_FD_RETRY\<close>, writing a memory buffer to a file goes on after short writes until
  everything is written: it returns the full length and the file has the bytes at the position.
\<close>

theorem fuse_buf_write_retry_complete:
  assumes "pwrite_ok ops (buf_fd dst) file" "buf_fd_seek dst" "buf_fd_retry dst"
    and "mem_read (mheap s) (ptr_add (buf_mem src) src_off) (unat len) = Inr bytes"
    and "0 \<le> buf_pos dst" "unat len < 2 ^ 63" "unat src_off + unat len < 2 ^ 64" "unat dst_off + unat len < 2 ^ 64"
    and "nat (buf_pos dst) + unat dst_off \<le> length (file (world s))"
  shows "\<exists>w'. fuse_buf_write ops dst dst_off src src_off len 0 s = Inr (int (unat len), s\<lparr>world := w'\<rparr>) \<and>
    file w' = splice_bytes (nat (buf_pos dst) + unat dst_off) bytes (file (world s))"
  using fuse_buf_write_loop [OF assms(1-4), of 0 dst_off] assms(5-) by simp

text \<open>A file in memory whose every write is cut to one byte.\<close>

definition byte_ops :: "mbytes fdops" where
  "byte_ops = \<lparr>fd_write = (\<lambda>fd bytes w. (Inl EIO, w)),
     fd_pwrite = (\<lambda>fd bytes pos w. (Inr 1, splice_bytes (nat pos) (take 1 bytes) w)),
     fd_read = (\<lambda>fd n w. (Inl EIO, w)), fd_pread = (\<lambda>fd n pos w. (Inl EIO, w)),
     fd_splice = (\<lambda>a b c d n f g w. (Inl EIO, w))\<rparr>"

definition byte_state :: "mbytes fstate" where
  "byte_state = \<lparr>private_data = 0, ctx_umask = 0, stderr = [], mheap = [1 \<mapsto> [Some 10, Some 11, Some 12]],
     mnext = 2, mfree = 0, world = [Some 0, Some 1]\<rparr>"

definition byte_dst :: fuse_buf where
  "byte_dst = (mbuf 0 0 8)\<lparr>buf_is_fd := True, buf_fd_seek := True, buf_fd_retry := True, buf_pos := 1\<rparr>"

theorem fuse_buf_write_retry_complete_witness:
  "\<exists>w'. fuse_buf_write byte_ops byte_dst 0 (mbuf 1 0 3) 0 3 0 byte_state = Inr (3, byte_state\<lparr>world := w'\<rparr>) \<and>
    w' = [Some 0, Some 10, Some 11, Some 12]"
proof -
  have "pwrite_ok byte_ops (buf_fd byte_dst) (\<lambda>w. w)"
    by (auto simp: pwrite_ok_def byte_ops_def byte_dst_def Suc_le_eq)
  then show ?thesis
    using fuse_buf_write_retry_complete
      [of byte_ops byte_dst "\<lambda>w. w" byte_state "mbuf 1 0 3" 0 3 "[Some 10, Some 11, Some 12]"]
    by (simp add: byte_dst_def byte_state_def mbuf_def mem_read_def ptr_add_def splice_bytes_def)
qed

text \<open>
  A buffer of unknown size does not make the size of the vector unknown: what follows it is added
  on top and wraps around.
\<close>

lemma fuse_buf_size_unknown_lost:
  "n \<noteq> SIZE_MAX \<Longrightarrow> fuse_buf_size (v\<lparr>bv_bufs := [mbuf a k SIZE_MAX, mbuf a' k' n]\<rparr>) = n - 1"
  by (simp add: fuse_buf_size_def mbuf_def SIZE_MAX_def)

end
