(* ===== verification/FS_Props.thy ===== *)
theory FS_Props
  imports Fuse_FS Buf_Props Read_Props CFS_Main
begin

text \<open>
  The file system of this repository behind the calls of libfuse: a read through
  \<^verbatim>\<open>fuse_fs_read\<close> reaches \<^verbatim>\<open>caching_read\<close>, its bytes come back through a vector of buffers, and
  what is not in the table of operations cannot change anything.
\<close>

section \<open>Copying one buffer\<close>

lemma rest_init [simp]: "rest (bufvec_init n p) = [\<lparr>buf_size = n, buf_is_fd = False, buf_fd_seek = False,
    buf_fd_retry = False, buf_mem = p, buf_fd = -1, buf_pos = 0\<rparr>]"
  "bv_off (bufvec_init n p) = 0"
  by (simp_all add: rest_def bufvec_init_def)

lemma copy_single:
  assumes h: "mheap s a = Some obj" "k + unat n \<le> length obj" "mheap s b = Some src" "unat m \<le> length src" "a \<noteq> b"
    and m: "m \<le> n" "unat m < 2 ^ 63"
  shows "\<exists>dstv'. fuse_buf_copy ops False (bufvec_init n (a, k)) (bufvec_init m (b, 0)) flags s =
    Inr ((int (unat m), dstv', (bufvec_init m (b, 0))\<lparr>bv_off := m, bv_idx := 1\<rparr>),
      s\<lparr>mheap := (mheap s)(a \<mapsto> splice_bytes k (take (unat m) src) obj)\<rparr>)"
proof -
  let ?d = "bufvec_init n (a, k)" and ?s = "bufvec_init m (b, 0)"
  have bytes: "vec_bytes (mheap s) ?s = take (unat m) src"
    using h by (simp add: vec_bytes_def buf_bytes_def buf_obj_def)
  have sep: "separate (mheap s) ?d ?s"
    using h by (simp add: separate_def mem_vec_def mem_buf_def buf_obj_def)
  obtain d b' where r: "rest ?d = [d]" "rest ?s = [b']" and fields: "buf_size d = n" "buf_size b' = m"
    "buf_obj d = a" "buf_mem d = (a, k)"
    by (simp add: buf_obj_def)
  have len: "min_size m n = m" using m(1) by (auto simp: min_size_def)
  have one: "fuse_buf_copy_one ops d 0 b' 0 m flags s =
      Inr (sint m, s\<lparr>mheap := (mheap s)(a \<mapsto> splice_bytes k (take (unat m) src) obj)\<rparr>)"
    using copy_one_mem [OF r sep, of m obj ops flags] fields m(1) h(1) bytes by simp
  have adv: "fuse_bufvec_advance ?s m = Inr (False, ?s\<lparr>bv_off := m, bv_idx := 1\<rparr>)"
    by (simp add: fuse_bufvec_advance_def fuse_bufvec_current_def bufvec_init_def)
  have small: "sint m = int (unat m)" by (rule sint_small [OF m(2)])
  have "fuse_buf_copy_loop ops ?d ?s flags 0 s = Inr ((int (unat m), ?d, ?s\<lparr>bv_off := m, bv_idx := 1\<rparr>),
      s\<lparr>mheap := (mheap s)(a \<mapsto> splice_bytes k (take (unat m) src) obj)\<rparr>)"
    using one small by (subst fuse_buf_copy_loop.simps) (simp add: current_rest r fields len adv del: rest_init(1))
  then show ?thesis by (simp add: fuse_buf_copy_def)
qed

section \<open>Reading through an operation\<close>

text \<open>The state that the operation sees: private data, message, the vector and its memory.\<close>

definition read_start :: "'w fuse_fs \<Rightarrow> 64 word \<Rightarrow> int \<Rightarrow> fuse_file_info \<Rightarrow> 'w fstate \<Rightarrow> 'w fstate" where
  "read_start fs sz off fi s =
     (debug_print fs True (''read['' @ fmt_llu (fi_fh fi) @ ''] '' @ fmt_llu (uint sz) @ '' bytes from '' @
        fmt_llu off @ '' flags: 0x'' @ fmt_x (fi_flags fi)) (set_private fs s))
     \<lparr>mheap := (mheap s)(mnext s \<mapsto> replicate SIZEOF_BUFVEC None, Suc (mnext s) \<mapsto> replicate (unat sz) None),
      mnext := Suc (Suc (mnext s)), mfree := mfree s - SIZEOF_BUFVEC - unat sz\<rparr>"

lemma debug_print_fields [simp]:
  "private_data (debug_print fs b msg s) = private_data s" "mheap (debug_print fs b msg s) = mheap s"
  "mnext (debug_print fs b msg s) = mnext s" "mfree (debug_print fs b msg s) = mfree s"
  "world (debug_print fs b msg s) = world s"
  by (simp_all add: debug_print_def eprint_def)

lemma debug_print_stderr: "\<exists>e. debug_print fs b msg s = s\<lparr>stderr := e\<rparr>"
  by (cases "fs_debug fs \<and> b") (auto simp: debug_print_def eprint_def intro: exI [of _ "stderr s"])

lemma set_private_fields [simp]:
  "private_data (set_private fs s) = fs_user_data fs" "mheap (set_private fs s) = mheap s"
  "mnext (set_private fs s) = mnext s" "mfree (set_private fs s) = mfree s" "world (set_private fs s) = world s"
  by (simp_all add: set_private_def)

lemma read_start_fields [simp]:
  "private_data (read_start fs sz off fi s) = fs_user_data fs" "world (read_start fs sz off fi s) = world s"
  "mnext (read_start fs sz off fi s) = Suc (Suc (mnext s))"
  "mfree (read_start fs sz off fi s) = mfree s - SIZEOF_BUFVEC - unat sz"
  "mheap (read_start fs sz off fi s) =
     (mheap s)(mnext s \<mapsto> replicate SIZEOF_BUFVEC None, Suc (mnext s) \<mapsto> replicate (unat sz) None)"
  by (simp_all add: read_start_def)

lemma fuse_fs_read_buf_start:
  assumes "op_read_buf (fs_op fs) = None" "op_read (fs_op fs) = Some f" "SIZEOF_BUFVEC + unat sz \<le> mfree s"
  shows "fuse_fs_read_buf fs pn bufp sz off fi s =
    bind_res (f pn (Suc (mnext s), 0) (unat sz) off fi (read_start fs sz off fi s)) (\<lambda>((res, fi1), s4).
    read_buf_done fs sz off res
      (Some (mnext s, bufvec_init (if 0 \<le> res then word_of_int res else sz) (Suc (mnext s), 0))) fi1 s4)"
proof -
  define s1 where "s1 = debug_print fs True (''read['' @ fmt_llu (fi_fh fi) @ ''] '' @ fmt_llu (uint sz) @
    '' bytes from '' @ fmt_llu off @ '' flags: 0x'' @ fmt_x (fi_flags fi)) (set_private fs s)"
  define s2 where "s2 = s1\<lparr>mheap := (mheap s)(mnext s \<mapsto> replicate SIZEOF_BUFVEC None), mnext := Suc (mnext s),
    mfree := mfree s - SIZEOF_BUFVEC\<rparr>"
  have "malloc SIZEOF_BUFVEC s1 = (Some (mnext s), s2)"
    using assms(3) by (simp add: malloc_def s1_def s2_def)
  moreover have "unat sz \<le> mfree s - SIZEOF_BUFVEC" using assms(3) by linarith
  then have "malloc (unat sz) s2 = (Some (Suc (mnext s)), read_start fs sz off fi s)"
    unfolding malloc_def read_start_def s1_def [symmetric] s2_def by simp
  ultimately show ?thesis
    unfolding fuse_fs_read_buf_def s1_def [symmetric] Let_def assms(1,2) by simp
qed

lemma size_small:
  assumes "unat (sz :: 64 word) \<le> nat INT_MAX"
  shows "int_of_size sz = int (unat sz)" "word_of_int (int_of_size sz) = sz"
proof -
  have "int (unat sz) \<le> int (nat INT_MAX)" using assms by (simp only: of_nat_le_iff)
  then have "in_int (uint sz)" by (simp add: int_defs order_trans [of _ 0])
  then show "int_of_size sz = int (unat sz)" by (simp add: int_of_size_def)
  then show "word_of_int (int_of_size sz) = sz" by simp
qed

lemma int_small: "n \<le> k \<Longrightarrow> k \<le> nat INT_MAX \<Longrightarrow> n < 2 ^ 63 \<and> in_int (int n)"
  by (auto simp: int_defs)

lemma read_buf_done_ok:
  assumes "unat sz \<le> nat INT_MAX" "k \<le> sz"
  shows "\<exists>e. read_buf_done fs sz off (int (unat k)) (Some (a, bufvec_init k p)) fi s =
    Inr ((0, Some (a, bufvec_init k p), fi), s\<lparr>stderr := e\<rparr>)"
proof -
  have "fuse_buf_size (bufvec_init k p) = k"
    by (simp add: fuse_buf_size_def bufvec_init_def)
  then show ?thesis
    using assms(2) size_small(2) [OF assms(1)] debug_print_stderr
    by (auto simp: read_buf_done_def not_less [symmetric])
qed

text \<open>
  Reading with an operation that fills its buffer and leaves the allocation alone: the bytes reach
  the caller's buffer and the temporary memory is freed.
\<close>

lemma fuse_fs_read_op:
  assumes op: "op_read_buf (fs_op fs) = None" "op_read (fs_op fs) = Some f"
    and mem: "SIZEOF_BUFVEC + unat sz \<le> mfree s" "unat sz \<le> nat INT_MAX"
    and fresh: "mheap s (mnext s) = None" "mheap s (Suc (mnext s)) = None"
    and buf: "mheap s a = Some obj" "boff + unat sz \<le> length obj"
    and rd: "f pn (Suc (mnext s), 0) (unat sz) off fi (read_start fs sz off fi s) = Inr ((int (unat k), fi1), s4)"
    and s4: "mheap s4 = (mheap (read_start fs sz off fi s))(Suc (mnext s) \<mapsto> bytes)" "length bytes = unat sz"
      "mfree s4 = mfree (read_start fs sz off fi s)" "k \<le> sz"
  shows "\<exists>s'. fuse_fs_read ops fs pn (a, boff) sz off fi s = Inr ((int (unat k), fi1), s') \<and>
    mheap s' = (mheap s)(a \<mapsto> splice_bytes boff (take (unat k) bytes) obj) \<and> mfree s' = mfree s \<and> world s' = world s4"
proof -
  let ?m = "Suc (mnext s)"
  have k: "unat k \<le> unat sz" using s4(4) by (simp add: word_le_nat_alt)
  note k = k int_small [OF k mem(2), THEN conjunct1] int_small [OF k mem(2), THEN conjunct2]
  have a: "a \<noteq> mnext s" "a \<noteq> ?m" using fresh buf(1) by auto
  obtain e where fin: "read_buf_done fs sz off (int (unat k)) (Some (mnext s, bufvec_init k (?m, 0))) fi1 s4 =
      Inr ((0, Some (mnext s, bufvec_init k (?m, 0)), fi1), s4\<lparr>stderr := e\<rparr>)"
    using read_buf_done_ok [OF mem(2) s4(4)] by blast
  define s5 where "s5 = s4\<lparr>stderr := e\<rparr>"
  have h5: "mheap s5 a = Some obj" "mheap s5 ?m = Some bytes" using s4(1) a buf(1) by (simp_all add: s5_def)
  obtain dstv' where cp: "fuse_buf_copy ops False (bufvec_init sz (a, boff)) (bufvec_init k (?m, 0)) no_flags s5 =
    Inr ((int (unat k), dstv', (bufvec_init k (?m, 0))\<lparr>bv_off := k, bv_idx := 1\<rparr>),
      s5\<lparr>mheap := (mheap s5)(a \<mapsto> splice_bytes boff (take (unat k) bytes) obj)\<rparr>)"
    using copy_single [OF h5(1) buf(2) h5(2) _ a(2) s4(4) k(2)] k(1) s4(2) by auto
  define s6 where "s6 = s5\<lparr>mheap := (mheap s5)(a \<mapsto> splice_bytes boff (take (unat k) bytes) obj)\<rparr>"
  have free: "fuse_free_buf (Some (mnext s, (bufvec_init k (?m, 0))\<lparr>bv_off := k, bv_idx := 1\<rparr>)) s6 =
    Inr (s6\<lparr>mheap := (mheap s6)(?m := None, mnext s := None), mfree := mfree s\<rparr>)"
    using a s4 mem(1) by (simp add: fuse_free_buf_def bufvec_init_def free_ptr_def mfree_obj_def s6_def s5_def)
  have "(mheap s6)(?m := None, mnext s := None) = (mheap s)(a \<mapsto> splice_bytes boff (take (unat k) bytes) obj)"
    using a s4(1) fresh by (auto simp: s6_def s5_def fun_eq_iff)
  moreover have "fuse_fs_read ops fs pn (a, boff) sz off fi s =
      Inr ((int (unat k), fi1), s6\<lparr>mheap := (mheap s6)(?m := None, mnext s := None), mfree := mfree s\<rparr>)"
    using rd fin cp free k(3)
    by (simp add: fuse_fs_read_def fuse_fs_read_buf_start [OF op mem(1)] s5_def [symmetric] s6_def [symmetric])
  ultimately show ?thesis by (simp add: s6_def s5_def)
qed

section \<open>The caching file system behind libfuse\<close>

lemma read_env_cong:
  "world s' = world s \<Longrightarrow> private_data s' = private_data s \<Longrightarrow>
    read_env os P c pth fi st f s' = read_env os P c pth fi st f s"
  by (simp add: read_env_def cfs_ready_def)

text \<open>
  (C3) A read through libfuse on the table of this file system that starts at a block boundary, or
  stays within one block, returns the bytes of the file in the caller's buffer, whatever the private
  data of the context was before, touches no other memory, frees what it allocated, and keeps the
  cache in agreement with the disk. The offset lies inside the file, the size is positive and an
  \<^verbatim>\<open>int\<close>, the cache has room for the blocks of the read, and there is memory for the vector and the
  bounce buffer of \<^verbatim>\<open>fuse_fs_read\<close>.
\<close>

theorem fuse_read_end_to_end:
  assumes fs: "fs_op fs = init_caching_oper os"
    and env: "read_env os P c pth fi st f (set_private fs s)"
    and cm: "cache_ok n p (cacheManager (world s))" "cache_coherent disk (cacheManager (world s))"
    and disk: "\<And>k. 0 \<le> k \<Longrightarrow> disk (to_int32 (st_ino st), k) = disk_block (st_blksize st) f k"
    and buf: "mheap s a = Some obj" "boff + unat sz \<le> length obj"
    and mem: "\<And>x. mnext s \<le> x \<Longrightarrow> mheap s x = None" "SIZEOF_BUFVEC + unat sz \<le> mfree s"
    and off: "0 \<le> off" "off < int (length f)" and sz: "0 < unat sz" "int (unat sz) \<le> INT_MAX"
    and rm: "rm = min (int (unat sz)) (int (length f) - off)"
    and al: "off mod st_blksize st = 0 \<or> off mod st_blksize st + rm \<le> st_blksize st"
    and room: "has_room p (cacheManager (world s)) (nat (blocks_for (st_blksize st) rm))"
  shows "\<exists>s'. fuse_fs_read ops fs (Some pth) (a, boff) sz off fi s = Inr ((rm, fi), s') \<and>
    mheap s' = (mheap s)(a \<mapsto> splice_bytes boff (map Some (take (nat rm) (drop (nat off) f))) obj) \<and>
    mfree s' = mfree s \<and> cache_ok n p (cacheManager (world s')) \<and> cache_coherent disk (cacheManager (world s'))"
proof -
  let ?s = "read_start fs sz off fi s" and ?m = "Suc (mnext s)"
  let ?data = "map Some (take (nat rm) (drop (nat off) f))"
  define k where "k = (word_of_nat (nat rm) :: 64 word)"
  have "rm \<le> int (unat sz)" unfolding rm by (rule min.cobounded1)
  then have r: "nat rm \<le> unat sz" by (simp only: nat_le_iff)
  have "0 \<le> rm" "length ?data = nat rm" using rm off by auto
  note r = \<open>0 \<le> rm\<close> r \<open>length ?data = nat rm\<close>
  have "unat sz < 2 ^ LENGTH(64)" by (rule unsigned_less)
  then have k: "unat k = nat rm" using r(2) by (simp add: k_def unat_of_nat)
  have op: "op_read_buf (fs_op fs) = None" "op_read (fs_op fs) = Some (caching_read os)"
    by (simp_all add: fs init_caching_oper_def no_operations_def)
  have env': "read_env os P c pth fi st f ?s"
    using env read_env_cong [of ?s "set_private fs s"] by simp
  have "mheap ?s ?m = Some (replicate (unat sz) None)" by simp
  from caching_read_inside [OF env' _ _ disk this, of n p 0 "unat sz" off rm] cm off sz rm al room
  obtain s4 where rd: "caching_read os (Some pth) (?m, 0) (unat sz) off fi ?s = Inr ((rm, fi), s4)"
    and s4: "cache_ok n p (cacheManager (world s4))" "cache_coherent disk (cacheManager (world s4))"
      "mfree s4 = mfree ?s" "mheap s4 = (mheap ?s)(?m \<mapsto> splice_bytes 0 ?data (replicate (unat sz) None))"
    by (auto split: sum.splits)
  have bytes: "take (unat k) (splice_bytes 0 ?data (replicate (unat sz) None)) = ?data"
    "length (splice_bytes 0 ?data (replicate (unat sz) (None :: 8 word option))) = unat sz"
    using r k by (simp_all add: splice_bytes_def)
  have eq: "int (unat k) = rm" and le: "k \<le> sz" using k r by (simp_all add: word_le_nat_alt)
  have "unat sz \<le> nat INT_MAX" using sz(2) by linarith
  moreover have "mheap s (mnext s) = None" "mheap s ?m = None" by (simp_all add: mem(1))
  ultimately obtain s' where "fuse_fs_read ops fs (Some pth) (a, boff) sz off fi s = Inr ((int (unat k), fi), s')"
    "mheap s' = (mheap s)(a \<mapsto> splice_bytes boff ?data obj)" "mfree s' = mfree s" "world s' = world s4"
    using fuse_fs_read_op [OF op mem(2) _ _ _ buf rd [folded eq] s4(4) bytes(2) s4(3) le, of ops] bytes(1) by auto
  then show ?thesis using s4(1,2) by (auto simp only: eq)
qed

text \<open>For the witness: the file of the reading witnesses, with memory to allocate.\<close>

definition null_compat :: "'w compat_operations" where
  "null_compat = \<lparr>c22_open = (\<lambda>_ _ _. Inl NullPointer), c2_open = (\<lambda>_ _ _. Inl NullPointer),
     c2_release = (\<lambda>_ _ _. Inl NullPointer), c22_opendir = (\<lambda>_ _ _. Inl NullPointer),
     c22_statfs = (\<lambda>_ _. Inl NullPointer), c1_statfs = (\<lambda>_ _. Inl NullPointer)\<rparr>"

definition ram_fs :: "unit cfs_mem fuse_fs" where
  "ram_fs = \<lparr>fs_op = init_caching_oper the_ram_os, fs_compat_op = null_compat, fs_user_data = 1,
     fs_compat = 0, fs_debug = True\<rparr>"

definition roomy_state :: "unit cfs" where
  "roomy_state = ram_state\<lparr>private_data := 0, mfree := 100\<rparr>"

theorem fuse_read_end_to_end_witness:
  "\<forall>ops. \<exists>s'. fuse_fs_read ops ram_fs (Some ''/f'') (0, 1) 6 0 ram_fi roomy_state = Inr ((6, ram_fi), s') \<and>
    mheap s' 0 = Some [None, Some 10, Some 20, Some 30, Some 40, Some 50, Some 60, None] \<and> mfree s' = 100"
proof
  fix ops
  have w: "world roomy_state = world ram_state" "mheap roomy_state = mheap ram_state" "mfree roomy_state = 100"
    "mnext roomy_state = 1" "fs_op ram_fs = init_caching_oper the_ram_os"
    by (simp_all add: roomy_state_def ram_fs_def ram_state_def)
  have env: "read_env the_ram_os (\<lambda>_. True) ram_conf ''/f'' ram_fi ram_stat ram_file (set_private ram_fs roomy_state)"
    using ram_env read_env_cong [of "set_private ram_fs roomy_state" ram_state] w
    by (simp add: ram_fs_def ram_state_def)
  have room: "has_room 3 (cacheManager (world roomy_state)) (nat (blocks_for (st_blksize ram_stat) 6))"
  proof -
    have "nat (blocks_for (st_blksize ram_stat) 6) = 2" by (simp add: blocks_for_def ram_stat_def)
    then show ?thesis using ram_cache(3) by (simp only: w)
  qed
  have fresh: "mheap roomy_state x = None" if "mnext roomy_state \<le> x" for x
    using that by (simp add: w ram_state_def)
  have sz: "1 + unat (6 :: 64 word) \<le> length (replicate 8 (None :: 8 word option))"
    "SIZEOF_BUFVEC + unat (6 :: 64 word) \<le> mfree roomy_state" "0 < unat (6 :: 64 word)"
    "int (unat (6 :: 64 word)) \<le> INT_MAX" "6 = min (int (unat (6 :: 64 word))) (int (length ram_file) - 0)"
    by (simp_all add: w SIZEOF_BUFVEC_def INT_MAX_def ram_file_def)
  have cm: "cache_ok 1 3 (cacheManager (world roomy_state))" "cache_coherent ram_disk (cacheManager (world roomy_state))"
    "mheap roomy_state 0 = Some (replicate 8 None)"
    using ram_cache(1,2) ram_buffer by (simp_all only: w)
  obtain s' where "fuse_fs_read ops ram_fs (Some ''/f'') (0, 1) 6 0 ram_fi roomy_state = Inr ((6, ram_fi), s')"
    "mheap s' = (mheap roomy_state)(0 \<mapsto> splice_bytes 1 (map Some (take (nat 6) (drop (nat 0) ram_file))) (replicate 8 None))"
    "mfree s' = mfree roomy_state"
    using fuse_read_end_to_end [OF w(5) env cm(1,2) ram_disk_blocks cm(3) sz(1) fresh sz(2) order_refl ram_range(1)
        sz(3-5) ram_range(10) room] by blast
  then show "\<exists>s'. fuse_fs_read ops ram_fs (Some ''/f'') (0, 1) 6 0 ram_fi roomy_state = Inr ((6, ram_fi), s') \<and>
    mheap s' 0 = Some [None, Some 10, Some 20, Some 30, Some 40, Some 50, Some 60, None] \<and> mfree s' = 100"
    unfolding ram_spliced w(3) by (intro exI [of _ s']) simp
qed

text \<open>The file system that \<^verbatim>\<open>fuse_main\<close> makes of the table and the private data of \<^verbatim>\<open>main\<close>.\<close>

definition caching_fs :: "'o os \<Rightarrow> nat \<Rightarrow> bool \<Rightarrow> 'o cfs_mem fuse_fs" where
  "caching_fs os d dbg = \<lparr>fs_op = init_caching_oper os, fs_compat_op = null_compat, fs_user_data = d,
     fs_compat = 0, fs_debug = dbg\<rparr>"

text \<open>
  (C28) The file system is read-only but for renaming: through libfuse, every other call that would
  change a file fails with \<^verbatim>\<open>ENOSYS\<close> and changes nothing but the private data of the context.
\<close>

theorem caching_read_only:
  "let fs = caching_fs os d dbg; s0 = set_private fs s in
     fuse_fs_write_buf ops fs pn bv off fi s = Inr ((- ENOSYS, bv, fi), s0) \<and>
     fuse_fs_create fs pth mode fi s = Inr ((- ENOSYS, fi), s0) \<and>
     fuse_fs_truncate fs pth len s = Inr (- ENOSYS, s0) \<and>
     fuse_fs_ftruncate fs pn len fi s = Inr ((- ENOSYS, fi), s0) \<and>
     fuse_fs_unlink fs pth s = Inr (- ENOSYS, s0) \<and> fuse_fs_rmdir fs pth s = Inr (- ENOSYS, s0) \<and>
     fuse_fs_mkdir fs pth mode s = Inr (- ENOSYS, s0) \<and> fuse_fs_mknod fs pth mode rdev s = Inr (- ENOSYS, s0) \<and>
     fuse_fs_symlink fs pth pth' s = Inr (- ENOSYS, s0) \<and> fuse_fs_link fs pth pth' s = Inr (- ENOSYS, s0) \<and>
     fuse_fs_chmod fs pth mode s = Inr (- ENOSYS, s0) \<and> fuse_fs_chown fs pth uid gid s = Inr (- ENOSYS, s0) \<and>
     fuse_fs_utimens fs pth tv s = Inr (- ENOSYS, s0) \<and>
     fuse_fs_setxattr fs pth nm val k flags s = Inr (- ENOSYS, s0) \<and>
     fuse_fs_removexattr fs pth nm s = Inr (- ENOSYS, s0) \<and>
     fuse_fs_fallocate fs pn mode off len fi s = Inr ((- ENOSYS, fi), s0)"
  unfolding fuse_fs_write_buf_def fuse_fs_create_def fuse_fs_truncate_def fuse_fs_ftruncate_def fuse_fs_unlink_def
    fuse_fs_rmdir_def fuse_fs_mkdir_def fuse_fs_mknod_def fuse_fs_symlink_def fuse_fs_link_def fuse_fs_chmod_def
    fuse_fs_chown_def fuse_fs_utimens_def fuse_fs_setxattr_def fuse_fs_removexattr_def fuse_fs_fallocate_def
    caching_fs_def init_caching_oper_def no_operations_def Let_def
  by (intro conjI) (simp_all add: case_prod_beta split: option.split)

text \<open>
  (C29) The start of the file system keeps the private data that \<^verbatim>\<open>main\<close> handed over, which every
  handler needs later, and asks the kernel neither for spliced reads nor for file locks.
\<close>

theorem fuse_fs_init_caching:
  assumes "cfs_at (world s) d = Some c"
  shows "\<exists>conn' s'. fuse_fs_init (caching_fs os d dbg) conn s = Inr ((caching_fs os d dbg, conn'), s') \<and>
    want conn' AND (FUSE_CAP_SPLICE_READ OR FUSE_CAP_POSIX_LOCKS OR FUSE_CAP_FLOCK_LOCKS) = 0 \<and>
    cfs_at (world s') (private_data s') = Some c"
proof -
  let ?fs = "caching_fs os d dbg"
  have "CF_LOG (snd (with_os (os_time os) (set_private ?fs s))) = Inr c"
    using assms by (simp add: CF_LOG_def cfs_simps caching_fs_def)
  then have log: "log_call os ''init'' (set_private ?fs s) = Inr (logged os ''init'' (set_private ?fs s))"
    by (simp add: log_call_def logged_def case_prod_beta)
  define conn' where "conn' = drop_want True FUSE_CAP_FLOCK_LOCKS (drop_want True FUSE_CAP_POSIX_LOCKS
    (drop_want True FUSE_CAP_SPLICE_READ conn))"
  have "fuse_fs_init ?fs conn s = Inr ((?fs, conn'), logged os ''init'' (set_private ?fs s))"
    using log by (simp add: fuse_fs_init_def caching_fs_def init_caching_oper_def no_operations_def caching_init_def
        conn'_def cfs_simps)
  moreover have "want conn' AND (FUSE_CAP_SPLICE_READ OR FUSE_CAP_POSIX_LOCKS OR FUSE_CAP_FLOCK_LOCKS) = 0"
    by (rule bit_eqI) (auto simp: conn'_def drop_want_def bit_and_iff bit_or_iff bit_not_iff)
  moreover have "cfs_at (world (logged os ''init'' (set_private ?fs s))) (private_data (logged os ''init'' (set_private ?fs s))) = Some c"
    using assms by (simp add: cfs_simps caching_fs_def)
  ultimately show ?thesis by blast
qed

theorem fuse_fs_init_caching_witness:
  "\<forall>conn. \<exists>conn' s'. fuse_fs_init (caching_fs the_ram_os 1 False) conn ram_state =
      Inr ((caching_fs the_ram_os 1 False, conn'), s') \<and>
    want conn' AND (FUSE_CAP_SPLICE_READ OR FUSE_CAP_POSIX_LOCKS OR FUSE_CAP_FLOCK_LOCKS) = 0"
proof
  fix conn
  have "cfs_at (world ram_state) 1 = Some ram_conf" by (simp add: ram_state_def)
  from fuse_fs_init_caching [OF this, of the_ram_os False conn]
  show "\<exists>conn' s'. fuse_fs_init (caching_fs the_ram_os 1 False) conn ram_state =
      Inr ((caching_fs the_ram_os 1 False, conn'), s') \<and>
    want conn' AND (FUSE_CAP_SPLICE_READ OR FUSE_CAP_POSIX_LOCKS OR FUSE_CAP_FLOCK_LOCKS) = 0"
    by blast
qed

end
