(* ===== verification/Fuse_Opt.thy ===== *)
theory Fuse_Opt
  imports CFS_Prelude
begin

text \<open>
  The option parser of libfuse (\<^verbatim>\<open>lib/fuse_opt.c\<close>): it goes through an argument vector, matches
  every option against a table of templates, sets variables or calls a processing function, and
  collects what is kept in a new vector. The user data are a type parameter with a function that
  writes the variable at an offset; \<^verbatim>\<open>sscanf\<close> with the format of a template is a parameter.
\<close>

section \<open>Data\<close>

text \<open>What a template can store: the value of its entry, a copy of a string, or a scanned value.\<close>

datatype optval = OInt int | OStr string

record fuse_opt =
  templ :: string
  opt_offset :: nat
  opt_value :: int

text \<open>\<^verbatim>\<open>struct fuse_args\<close>; the field \<^verbatim>\<open>argc\<close> is the length of the list, a null \<^verbatim>\<open>argv\<close> is \<^const>\<open>None\<close>.\<close>

record fuse_args =
  args_argv :: "string list option"
  allocated :: bool

definition FUSE_ARGS_INIT :: "string list \<Rightarrow> fuse_args" where
  "FUSE_ARGS_INIT argv = \<lparr>args_argv = Some argv, allocated = False\<rparr>"

definition arg_list :: "fuse_args \<Rightarrow> string list" where
  "arg_list args = (case args_argv args of None \<Rightarrow> [] | Some xs \<Rightarrow> xs)"

text \<open>
  The surroundings: which of the coming allocations succeed (all, when the list is used up), and
  what is printed to the standard error.
\<close>

record oenv =
  allocs :: "bool list"
  oerr :: "string list"

text \<open>
  \<^verbatim>\<open>struct fuse_opt_context\<close>: what the processing function may change, the rest of the variable
  fields, and the fields that never change.
\<close>

record 'd optst =
  odata :: 'd
  outargs :: fuse_args
  oenv :: oenv

record 'd octx =
  ost :: "'d optst"
  oopts :: "string option"
  argctr :: nat
  nonopt :: nat

record 'd ospec =
  sp_put :: "nat \<Rightarrow> optval \<Rightarrow> 'd \<Rightarrow> 'd"
  sp_scan :: "string \<Rightarrow> string \<Rightarrow> optval option"
  sp_opts :: "fuse_opt list"
  sp_proc :: "(string \<Rightarrow> int \<Rightarrow> 'd optst \<Rightarrow> (int \<times> 'd optst) res) option"
  sp_argv :: "string list"

definition FUSE_OPT_KEY_OPT :: int where "FUSE_OPT_KEY_OPT = - 1"
definition FUSE_OPT_KEY_NONOPT :: int where "FUSE_OPT_KEY_NONOPT = - 2"
definition FUSE_OPT_KEY_KEEP :: int where "FUSE_OPT_KEY_KEEP = - 3"
definition FUSE_OPT_KEY_DISCARD :: int where "FUSE_OPT_KEY_DISCARD = - 4"

text \<open>The offset \<^verbatim>\<open>-1U\<close> of an entry that only has a key.\<close>

definition KEY_OFFSET :: nat where "KEY_OFFSET = 4294967295"

definition FUSE_OPT_KEY :: "string \<Rightarrow> int \<Rightarrow> fuse_opt" where
  "FUSE_OPT_KEY t k = \<lparr>templ = t, opt_offset = KEY_OFFSET, opt_value = k\<rparr>"

definition NUL :: char where "NUL = CHR 0x00"

text \<open>The character at an index of a C string: the terminating zero at its end.\<close>

definition char_at :: "string \<Rightarrow> nat \<Rightarrow> char" where
  "char_at t i = (if i < length t then t ! i else NUL)"

section \<open>Argument vectors\<close>

definition alloc :: "oenv \<Rightarrow> bool \<times> oenv" where
  "alloc e = (case allocs e of [] \<Rightarrow> (True, e) | b # bs \<Rightarrow> (b, e\<lparr>allocs := bs\<rparr>))"

definition print_err :: "string \<Rightarrow> oenv \<Rightarrow> oenv" where
  "print_err msg e = e\<lparr>oerr := oerr e @ [msg @ [newline]]\<rparr>"

definition alloc_failed :: "oenv \<Rightarrow> int \<times> oenv" where
  "alloc_failed e = (- 1, print_err ''fuse: memory allocation failed'' e)"

definition fuse_opt_free_args :: "fuse_args \<Rightarrow> fuse_args" where
  "fuse_opt_free_args args = \<lparr>args_argv = None, allocated = False\<rparr>"

text \<open>A copy of the argument, then a larger array.\<close>

definition fuse_opt_add_arg :: "string \<Rightarrow> fuse_args \<Rightarrow> oenv \<Rightarrow> (int \<times> fuse_args \<times> oenv) res" where
  "fuse_opt_add_arg arg args e =
     bind_res (guard_res (args_argv args = None \<or> allocated args) AssertFailed) (\<lambda>_.
     case alloc e of
       (False, e1) \<Rightarrow> (let (r, e2) = alloc_failed e1 in Inr (r, args, e2))
     | (True, e1) \<Rightarrow>
         (case alloc e1 of
            (False, e2) \<Rightarrow> (let (r, e3) = alloc_failed e2 in Inr (r, args, e3))
          | (True, e2) \<Rightarrow> Inr (0, \<lparr>args_argv = Some (arg_list args @ [arg]), allocated = True\<rparr>, e2)))"

text \<open>The new argument is added at the end and then moved to its place.\<close>

definition move_last :: "nat \<Rightarrow> string list \<Rightarrow> string list" where
  "move_last pos xs = take pos xs @ last xs # take (length xs - pos - 1) (drop pos xs)"

definition fuse_opt_insert_arg :: "nat \<Rightarrow> string \<Rightarrow> fuse_args \<Rightarrow> oenv \<Rightarrow> (int \<times> fuse_args \<times> oenv) res" where
  "fuse_opt_insert_arg pos arg args e =
     bind_res (guard_res (pos \<le> length (arg_list args)) AssertFailed) (\<lambda>_.
     bind_res (fuse_opt_add_arg arg args e) (\<lambda>(r, args1, e1).
     if r = - 1 then Inr (- 1, args1, e1)
     else if pos \<noteq> length (arg_list args1) - 1
     then Inr (0, args1\<lparr>args_argv := Some (move_last pos (arg_list args1))\<rparr>, e1)
     else Inr (0, args1, e1)))"

section \<open>Option lists\<close>

definition escape_char :: "bool \<Rightarrow> char \<Rightarrow> string" where
  "escape_char esc c = (if esc \<and> (c = CHR '','' \<or> c = CHR 0x5C) then [CHR 0x5C, c] else [c])"

definition add_opt_common :: "string option \<Rightarrow> string \<Rightarrow> bool \<Rightarrow> oenv \<Rightarrow> int \<times> string option \<times> oenv" where
  "add_opt_common opts opt esc e =
     (case alloc e of
        (False, e1) \<Rightarrow> (let (r, e2) = alloc_failed e1 in (r, opts, e2))
      | (True, e1) \<Rightarrow>
          (let old = (case opts of None \<Rightarrow> [] | Some t \<Rightarrow> t) in
           (0, Some ((if old = [] then [] else old @ '','') @ concat (map (escape_char esc) opt)), e1)))"

definition fuse_opt_add_opt :: "string option \<Rightarrow> string \<Rightarrow> oenv \<Rightarrow> int \<times> string option \<times> oenv" where
  "fuse_opt_add_opt opts opt e = add_opt_common opts opt False e"

definition fuse_opt_add_opt_escaped :: "string option \<Rightarrow> string \<Rightarrow> oenv \<Rightarrow> int \<times> string option \<times> oenv" where
  "fuse_opt_add_opt_escaped opts opt e = add_opt_common opts opt True e"

section \<open>The context\<close>

definition ctx_env :: "(oenv \<Rightarrow> oenv) \<Rightarrow> 'd octx \<Rightarrow> 'd octx" where
  "ctx_env f ctx = ctx\<lparr>ost := (ost ctx)\<lparr>oenv := f (oenv (ost ctx))\<rparr>\<rparr>"

definition next_arg :: "'d ospec \<Rightarrow> string \<Rightarrow> 'd octx \<Rightarrow> int \<times> 'd octx" where
  "next_arg sp opt ctx =
     (if length (sp_argv sp) \<le> argctr ctx + 1
      then (- 1, ctx_env (print_err (''fuse: missing argument after `'' @ opt @ [CHR 0x27])) ctx)
      else (0, ctx\<lparr>argctr := argctr ctx + 1\<rparr>))"

definition add_arg :: "string \<Rightarrow> 'd octx \<Rightarrow> (int \<times> 'd octx) res" where
  "add_arg arg ctx =
     bind_res (fuse_opt_add_arg arg (outargs (ost ctx)) (oenv (ost ctx))) (\<lambda>(r, args, e).
     Inr (r, ctx\<lparr>ost := (ost ctx)\<lparr>outargs := args, oenv := e\<rparr>\<rparr>))"

definition add_opt :: "string \<Rightarrow> 'd octx \<Rightarrow> int \<times> 'd octx" where
  "add_opt opt ctx =
     (let (r, opts, e) = add_opt_common (oopts ctx) opt True (oenv (ost ctx)) in
      (r, ctx\<lparr>oopts := opts, ost := (ost ctx)\<lparr>oenv := e\<rparr>\<rparr>))"

definition keep_arg :: "string \<Rightarrow> bool \<Rightarrow> 'd octx \<Rightarrow> (int \<times> 'd octx) res" where
  "keep_arg arg isopt ctx = (if isopt then Inr (add_opt arg ctx) else add_arg arg ctx)"

definition call_proc :: "'d ospec \<Rightarrow> string \<Rightarrow> int \<Rightarrow> bool \<Rightarrow> 'd octx \<Rightarrow> (int \<times> 'd octx) res" where
  "call_proc sp arg key isopt ctx =
     (if key = FUSE_OPT_KEY_DISCARD then Inr (0, ctx)
      else
        (case sp_proc sp of
           None \<Rightarrow> keep_arg arg isopt ctx
         | Some proc \<Rightarrow>
             if key = FUSE_OPT_KEY_KEEP then keep_arg arg isopt ctx
             else
               bind_res (proc arg key (ost ctx)) (\<lambda>(r, st).
               let ctx1 = ctx\<lparr>ost := st\<rparr> in
               if r = - 1 \<or> r = 0 then Inr (r, ctx1) else keep_arg arg isopt ctx1)))"

section \<open>Templates\<close>

definition strchr :: "string \<Rightarrow> char \<Rightarrow> nat option" where
  "strchr t c = index_of (\<lambda>x. x = c) t"

text \<open>The position of the separator when the template matches, 0 when it has none.\<close>

definition template_sep :: "string \<Rightarrow> nat option" where
  "template_sep t = (case strchr t (CHR ''='') of Some i \<Rightarrow> Some i | None \<Rightarrow> strchr t (CHR '' ''))"

definition match_template :: "string \<Rightarrow> string \<Rightarrow> nat option" where
  "match_template t arg =
     (let exact = (if t = arg then Some 0 else None) in
      case template_sep t of
        None \<Rightarrow> exact
      | Some sep \<Rightarrow>
          if char_at t (Suc sep) = NUL \<or> char_at t (Suc sep) = CHR ''%''
          then (let tlen = (if char_at t sep = CHR ''='' then Suc sep else sep) in
                if tlen \<le> length arg \<and> take tlen arg = take tlen t then Some sep else exact)
          else exact)"

text \<open>The first entry that matches, with the rest of the table after it.\<close>

fun find_opt :: "fuse_opt list \<Rightarrow> string \<Rightarrow> (fuse_opt \<times> fuse_opt list \<times> nat) option" where
  "find_opt [] arg = None"
| "find_opt (opt # opts) arg =
     (case match_template (templ opt) arg of Some sep \<Rightarrow> Some (opt, opts, sep) | None \<Rightarrow> find_opt opts arg)"

definition fuse_opt_match :: "fuse_opt list \<Rightarrow> string \<Rightarrow> bool" where
  "fuse_opt_match opts opt = (find_opt opts opt \<noteq> None)"

lemma find_opt_rest: "find_opt tbl arg = Some (opt, rst, sep) \<Longrightarrow> length rst < length tbl"
  by (induction tbl) (auto split: option.splits)

section \<open>Options\<close>

definition ctx_put :: "'d ospec \<Rightarrow> nat \<Rightarrow> optval \<Rightarrow> 'd octx \<Rightarrow> 'd octx" where
  "ctx_put sp off v ctx = ctx\<lparr>ost := (ost ctx)\<lparr>odata := sp_put sp off v (odata (ost ctx))\<rparr>\<rparr>"

definition process_opt_param ::
  "'d ospec \<Rightarrow> nat \<Rightarrow> string \<Rightarrow> string \<Rightarrow> string \<Rightarrow> 'd octx \<Rightarrow> (int \<times> 'd octx) res" where
  "process_opt_param sp off format param arg ctx =
     bind_res (guard_res (char_at format 0 = CHR ''%'') AssertFailed) (\<lambda>_.
     if char_at format 1 = CHR ''s''
     then
       (case alloc (oenv (ost ctx)) of
          (False, e) \<Rightarrow> Inr (- 1, ctx_env (\<lambda>_. snd (alloc_failed e)) ctx)
        | (True, e) \<Rightarrow> Inr (0, ctx_put sp off (OStr param) (ctx_env (\<lambda>_. e) ctx)))
     else
       (case sp_scan sp format param of
          None \<Rightarrow> Inr (- 1, ctx_env (print_err (''fuse: invalid parameter in option `'' @ arg @ [CHR 0x27])) ctx)
        | Some v \<Rightarrow> Inr (0, ctx_put sp off v ctx)))"

definition process_opt ::
  "'d ospec \<Rightarrow> fuse_opt \<Rightarrow> nat \<Rightarrow> string \<Rightarrow> bool \<Rightarrow> 'd octx \<Rightarrow> (int \<times> 'd octx) res" where
  "process_opt sp opt sep arg isopt ctx =
     (if opt_offset opt = KEY_OFFSET
      then bind_res (call_proc sp arg (opt_value opt) isopt ctx) (\<lambda>(r, ctx1). Inr (if r = - 1 then - 1 else 0, ctx1))
      else if sep \<noteq> 0 \<and> char_at (templ opt) (Suc sep) \<noteq> NUL
      then
        (let param = (if char_at (templ opt) sep = CHR ''='' then drop (Suc sep) arg else drop sep arg) in
         bind_res (process_opt_param sp (opt_offset opt) (drop (Suc sep) (templ opt)) param arg ctx) (\<lambda>(r, ctx1).
         Inr (if r = - 1 then - 1 else 0, ctx1)))
      else Inr (0, ctx_put sp (opt_offset opt) (OInt (opt_value opt)) ctx))"

text \<open>The parameter is the next argument: it is joined to the option.\<close>

definition process_opt_sep_arg ::
  "'d ospec \<Rightarrow> fuse_opt \<Rightarrow> nat \<Rightarrow> string \<Rightarrow> bool \<Rightarrow> 'd octx \<Rightarrow> (int \<times> 'd octx) res" where
  "process_opt_sep_arg sp opt sep arg isopt ctx =
     (case next_arg sp arg ctx of
        (r, ctx1) \<Rightarrow>
          if r = - 1 then Inr (- 1, ctx1)
          else
            (let param = sp_argv sp ! argctr ctx1 in
             case alloc (oenv (ost ctx1)) of
               (False, e) \<Rightarrow> Inr (- 1, ctx_env (\<lambda>_. snd (alloc_failed e)) ctx1)
             | (True, e) \<Rightarrow> process_opt sp opt sep (take sep arg @ param) isopt (ctx_env (\<lambda>_. e) ctx1)))"

function gopt_loop :: "'d ospec \<Rightarrow> fuse_opt list \<Rightarrow> string \<Rightarrow> bool \<Rightarrow> 'd octx \<Rightarrow> (int \<times> 'd octx) res" where
  "gopt_loop sp tbl arg isopt ctx =
     (case find_opt tbl arg of
        None \<Rightarrow> Inr (0, ctx)
      | Some (opt, rst, sep) \<Rightarrow>
          bind_res
            (if sep \<noteq> 0 \<and> char_at (templ opt) sep = CHR '' '' \<and> char_at arg sep = NUL
             then process_opt_sep_arg sp opt sep arg isopt ctx
             else process_opt sp opt sep arg isopt ctx) (\<lambda>(r, ctx1).
          if r = - 1 then Inr (- 1, ctx1) else gopt_loop sp rst arg isopt ctx1))"
  by pat_completeness auto
termination
  by (relation "measure (\<lambda>(sp, tbl, arg, isopt, ctx). length tbl)") (auto simp: find_opt_rest)

declare gopt_loop.simps [simp del]

definition process_gopt :: "'d ospec \<Rightarrow> string \<Rightarrow> bool \<Rightarrow> 'd octx \<Rightarrow> (int \<times> 'd octx) res" where
  "process_gopt sp arg isopt ctx =
     (if find_opt (sp_opts sp) arg \<noteq> None then gopt_loop sp (sp_opts sp) arg isopt ctx
      else call_proc sp arg FUSE_OPT_KEY_OPT isopt ctx)"

section \<open>Groups of options\<close>

text \<open>
  The list is unescaped in place: \<open>d\<close> is what was written, a reversed list. An escaped zero byte
  ends the option early.
\<close>

definition octal :: "char \<Rightarrow> nat \<Rightarrow> bool" where
  "octal c m \<longleftrightarrow> 48 \<le> (of_char c :: nat) \<and> of_char c \<le> 48 + m"

definition octal_char :: "char \<Rightarrow> char \<Rightarrow> char \<Rightarrow> char" where
  "octal_char a b c = char_of ((of_char a - 48) * 64 + (of_char b - 48) * 8 + (of_char c - 48) :: nat)"

definition c_string :: "string \<Rightarrow> string" where
  "c_string t = takeWhile (\<lambda>c. c \<noteq> NUL) t"

fun option_group_loop :: "'d ospec \<Rightarrow> string \<Rightarrow> string \<Rightarrow> 'd octx \<Rightarrow> (int \<times> 'd octx) res" where
  "option_group_loop sp s d ctx =
     (case s of
        [] \<Rightarrow> bind_res (process_gopt sp (c_string (rev d)) True ctx) (\<lambda>(r, ctx1). Inr (if r = - 1 then - 1 else 0, ctx1))
      | x # xs \<Rightarrow>
          if x = CHR '',''
          then bind_res (process_gopt sp (c_string (rev d)) True ctx) (\<lambda>(r, ctx1).
               if r = - 1 then Inr (- 1, ctx1) else option_group_loop sp xs [] ctx1)
          else if x = CHR 0x5C \<and> xs \<noteq> []
          then
            (if octal (char_at xs 0) 3 \<and> octal (char_at xs 1) 7 \<and> octal (char_at xs 2) 7
             then option_group_loop sp (drop 3 xs) (octal_char (char_at xs 0) (char_at xs 1) (char_at xs 2) # d) ctx
             else option_group_loop sp (drop 1 xs) (char_at xs 0 # d) ctx)
          else option_group_loop sp xs (x # d) ctx)"

declare option_group_loop.simps [simp del]

definition process_option_group :: "'d ospec \<Rightarrow> string \<Rightarrow> 'd octx \<Rightarrow> (int \<times> 'd octx) res" where
  "process_option_group sp opts ctx =
     (case alloc (oenv (ost ctx)) of
        (False, e) \<Rightarrow> Inr (- 1, ctx_env (\<lambda>_. snd (alloc_failed e)) ctx)
      | (True, e) \<Rightarrow> option_group_loop sp opts [] (ctx_env (\<lambda>_. e) ctx))"

section \<open>Arguments\<close>

definition process_one :: "'d ospec \<Rightarrow> string \<Rightarrow> 'd octx \<Rightarrow> (int \<times> 'd octx) res" where
  "process_one sp arg ctx =
     (if nonopt ctx \<noteq> 0 \<or> char_at arg 0 \<noteq> CHR ''-'' then call_proc sp arg FUSE_OPT_KEY_NONOPT False ctx
      else if char_at arg 1 = CHR ''o''
      then
        (if char_at arg 2 \<noteq> NUL then process_option_group sp (drop 2 arg) ctx
         else
           (case next_arg sp arg ctx of
              (r, ctx1) \<Rightarrow>
                if r = - 1 then Inr (- 1, ctx1) else process_option_group sp (sp_argv sp ! argctr ctx1) ctx1))
      else if char_at arg 1 = CHR ''-'' \<and> char_at arg 2 = NUL
      then
        bind_res (add_arg arg ctx) (\<lambda>(r, ctx1).
        if r = - 1 then Inr (- 1, ctx1)
        else Inr (0, ctx1\<lparr>nonopt := length (arg_list (outargs (ost ctx1)))\<rparr>))
      else process_gopt sp arg False ctx)"

text \<open>No step goes back in the argument vector, so the loop over it ends.\<close>

named_theorems argctr_mono

lemma ctx_argctr [simp]:
  "argctr (ctx_env f ctx) = argctr ctx" "argctr (ctx_put sp off v ctx) = argctr ctx"
  by (simp_all add: ctx_env_def ctx_put_def)

lemma next_arg_argctr [argctr_mono]: "next_arg sp opt ctx = (r, ctx') \<Longrightarrow> argctr ctx \<le> argctr ctx'"
  by (auto simp: next_arg_def split: if_splits)

lemma keep_arg_argctr [argctr_mono]: "keep_arg arg isopt ctx = Inr (r, ctx') \<Longrightarrow> argctr ctx' = argctr ctx"
  by (auto simp: keep_arg_def add_opt_def add_arg_def res_iffs Let_def split: if_splits prod.splits)

lemma call_proc_argctr [argctr_mono]: "call_proc sp arg key isopt ctx = Inr (r, ctx') \<Longrightarrow> argctr ctx' = argctr ctx"
  by (auto simp: call_proc_def res_iffs Let_def dest!: keep_arg_argctr split: if_splits option.splits)

lemma process_opt_param_argctr [argctr_mono]:
  "process_opt_param sp off format param arg ctx = Inr (r, ctx') \<Longrightarrow> argctr ctx' = argctr ctx"
  by (auto simp: process_opt_param_def res_iffs split: if_splits option.splits prod.splits bool.splits)

lemma process_opt_argctr [argctr_mono]:
  "process_opt sp opt sep arg isopt ctx = Inr (r, ctx') \<Longrightarrow> argctr ctx' = argctr ctx"
  by (auto simp: process_opt_def res_iffs Let_def dest!: call_proc_argctr process_opt_param_argctr split: if_splits)

lemma process_opt_sep_arg_argctr [argctr_mono]:
  "process_opt_sep_arg sp opt sep arg isopt ctx = Inr (r, ctx') \<Longrightarrow> argctr ctx \<le> argctr ctx'"
  by (auto simp: process_opt_sep_arg_def res_iffs Let_def dest!: next_arg_argctr process_opt_argctr
      split: if_splits prod.splits bool.splits)

lemma gopt_loop_argctr [argctr_mono]:
  "gopt_loop sp tbl arg isopt ctx = Inr (r, ctx') \<Longrightarrow> argctr ctx \<le> argctr ctx'"
proof (induction sp tbl arg isopt ctx rule: gopt_loop.induct)
  case (1 sp tbl arg isopt ctx)
  show ?case
  proof (cases "find_opt tbl arg")
    case None
    then show ?thesis using "1.prems" by (subst (asm) gopt_loop.simps) simp
  next
    case (Some x)
    obtain opt rst sep where x: "x = (opt, rst, sep)" by (cases x)
    obtain r1 ctx1 where step: "(if sep \<noteq> 0 \<and> char_at (templ opt) sep = CHR '' '' \<and> char_at arg sep = NUL
        then process_opt_sep_arg sp opt sep arg isopt ctx else process_opt sp opt sep arg isopt ctx) = Inr (r1, ctx1)"
      and rest: "(if r1 = - 1 then Inr (- 1, ctx1) else gopt_loop sp rst arg isopt ctx1) = Inr (r, ctx')"
      using "1.prems" Some x by (subst (asm) gopt_loop.simps) (auto simp: bind_res_Inr_iff)
    have "argctr ctx \<le> argctr ctx1"
      using step by (auto dest: process_opt_sep_arg_argctr process_opt_argctr split: if_splits)
    moreover have "argctr ctx1 \<le> argctr ctx'"
      using rest "1.IH" [OF Some x [symmetric] refl step refl] by (auto split: if_splits)
    ultimately show ?thesis by simp
  qed
qed

lemma process_gopt_argctr [argctr_mono]:
  "process_gopt sp arg isopt ctx = Inr (r, ctx') \<Longrightarrow> argctr ctx \<le> argctr ctx'"
  by (auto simp: process_gopt_def dest: gopt_loop_argctr call_proc_argctr split: if_splits)

text \<open>The options of a group, and processing them one after the other.\<close>

fun split_opts :: "string \<Rightarrow> string \<Rightarrow> string list" where
  "split_opts s d =
     (case s of
        [] \<Rightarrow> [c_string (rev d)]
      | x # xs \<Rightarrow>
          if x = CHR '','' then c_string (rev d) # split_opts xs []
          else if x = CHR 0x5C \<and> xs \<noteq> []
          then
            (if octal (char_at xs 0) 3 \<and> octal (char_at xs 1) 7 \<and> octal (char_at xs 2) 7
             then split_opts (drop 3 xs) (octal_char (char_at xs 0) (char_at xs 1) (char_at xs 2) # d)
             else split_opts (drop 1 xs) (char_at xs 0 # d))
          else split_opts xs (x # d))"

declare split_opts.simps [simp del]

fun run_gopts :: "'d ospec \<Rightarrow> string list \<Rightarrow> 'd octx \<Rightarrow> (int \<times> 'd octx) res" where
  "run_gopts sp [] ctx = Inr (0, ctx)"
| "run_gopts sp (opt # opts) ctx =
     bind_res (process_gopt sp opt True ctx) (\<lambda>(r, ctx1). if r = - 1 then Inr (- 1, ctx1) else run_gopts sp opts ctx1)"

lemma option_group_split: "option_group_loop sp s d ctx = run_gopts sp (split_opts s d) ctx"
proof (induction s d arbitrary: ctx rule: split_opts.induct)
  case (1 s d)
  show ?case
  proof (cases s)
    case Nil
    then show ?thesis
      by (subst option_group_loop.simps, subst split_opts.simps)
        (auto intro!: arg_cong2 [where f = bind_res] simp: fun_eq_iff)
  next
    case (Cons x xs)
    note IH = "1" [OF Cons]
    consider "x = CHR '',''" | "x \<noteq> CHR '',''" "x = CHR 0x5C \<and> xs \<noteq> []"
      "octal (char_at xs 0) 3 \<and> octal (char_at xs 1) 7 \<and> octal (char_at xs 2) 7"
      | "x \<noteq> CHR '',''" "x = CHR 0x5C \<and> xs \<noteq> []"
        "\<not> (octal (char_at xs 0) 3 \<and> octal (char_at xs 1) 7 \<and> octal (char_at xs 2) 7)"
      | "x \<noteq> CHR '',''" "\<not> (x = CHR 0x5C \<and> xs \<noteq> [])" by blast
    then show ?thesis
    proof cases
      case 1
      then show ?thesis
        using IH(1) by (simp add: Cons option_group_loop.simps [of sp "_ # _"] split_opts.simps [of "_ # _"] cong: if_cong)
    next
      case 2
      show ?thesis
        unfolding Cons option_group_loop.simps [of sp "_ # _"] split_opts.simps [of "_ # _"] list.case
          if_not_P [OF 2(1)] if_P [OF 2(2)] if_P [OF 2(3)] by (rule IH(2) [OF 2])
    next
      case 3
      show ?thesis
        unfolding Cons option_group_loop.simps [of sp "_ # _"] split_opts.simps [of "_ # _"] list.case
          if_not_P [OF 3(1)] if_P [OF 3(2)] if_not_P [OF 3(3)] by (rule IH(3) [OF 3])
    next
      case 4
      show ?thesis
        unfolding Cons option_group_loop.simps [of sp "_ # _"] split_opts.simps [of "_ # _"] list.case
          if_not_P [OF 4(1)] if_not_P [OF 4(2)] by (rule IH(4) [OF 4])
    qed
  qed
qed

lemma run_gopts_argctr [argctr_mono]: "run_gopts sp opts ctx = Inr (r, ctx') \<Longrightarrow> argctr ctx \<le> argctr ctx'"
  by (induction opts arbitrary: ctx) (auto simp: res_iffs dest!: process_gopt_argctr split: if_splits intro: order_trans)

lemma process_option_group_argctr [argctr_mono]:
  "process_option_group sp opts ctx = Inr (r, ctx') \<Longrightarrow> argctr ctx \<le> argctr ctx'"
  by (auto simp: process_option_group_def option_group_split dest!: run_gopts_argctr split: prod.splits bool.splits)

lemma process_one_argctr:
  "process_one sp arg ctx = Inr (r, ctx') \<Longrightarrow> argctr ctx \<le> argctr ctx'"
  by (auto simp: process_one_def add_arg_def res_iffs split: if_splits prod.splits dest!: argctr_mono)

function parse_args :: "'d ospec \<Rightarrow> 'd octx \<Rightarrow> (int \<times> 'd octx) res" where
  "parse_args sp ctx =
     (if argctr ctx < length (sp_argv sp)
      then
        bind_res (process_one sp (sp_argv sp ! argctr ctx) ctx) (\<lambda>(r, ctx1).
        if r = - 1 then Inr (- 1, ctx1) else parse_args sp (ctx1\<lparr>argctr := argctr ctx1 + 1\<rparr>))
      else Inr (0, ctx))"
  by pat_completeness auto
termination
  by (relation "measure (\<lambda>(sp, ctx). length (sp_argv sp) - argctr ctx)") (auto dest!: process_one_argctr)

declare parse_args.simps [simp del]

section \<open>Parsing\<close>

text \<open>Two arguments are inserted behind the first, when there are options.\<close>

definition insert_opts :: "'d octx \<Rightarrow> (int \<times> 'd octx) res" where
  "insert_opts ctx =
     (case oopts ctx of
        None \<Rightarrow> Inr (0, ctx)
      | Some opts \<Rightarrow>
          bind_res (fuse_opt_insert_arg 1 ''-o'' (outargs (ost ctx)) (oenv (ost ctx))) (\<lambda>(r, args, e).
          let ctx1 = ctx\<lparr>ost := (ost ctx)\<lparr>outargs := args, oenv := e\<rparr>\<rparr> in
          if r = - 1 then Inr (- 1, ctx1)
          else
            bind_res (fuse_opt_insert_arg 2 opts args e) (\<lambda>(r2, args2, e2).
            Inr (if r2 = - 1 then - 1 else 0, ctx\<lparr>ost := (ost ctx)\<lparr>outargs := args2, oenv := e2\<rparr>\<rparr>))))"

definition drop_separator :: "'d octx \<Rightarrow> 'd octx" where
  "drop_separator ctx =
     (let xs = arg_list (outargs (ost ctx)) in
      if nonopt ctx \<noteq> 0 \<and> nonopt ctx = length xs \<and> last xs = ''--''
      then ctx\<lparr>ost := (ost ctx)\<lparr>outargs := (outargs (ost ctx))\<lparr>args_argv := Some (butlast xs)\<rparr>\<rparr>\<rparr>
      else ctx)"

definition opt_parse :: "'d ospec \<Rightarrow> 'd octx \<Rightarrow> (int \<times> 'd octx) res" where
  "opt_parse sp ctx =
     bind_res (if sp_argv sp \<noteq> [] then add_arg (sp_argv sp ! 0) ctx else Inr (0, ctx)) (\<lambda>(r, ctx1).
     if r = - 1 then Inr (- 1, ctx1)
     else
       bind_res (parse_args sp (ctx1\<lparr>argctr := 1\<rparr>)) (\<lambda>(r2, ctx2).
       if r2 = - 1 then Inr (- 1, ctx2)
       else
         bind_res (insert_opts ctx2) (\<lambda>(r3, ctx3).
         if r3 = - 1 then Inr (- 1, ctx3) else Inr (0, drop_separator ctx3))))"

definition init_ctx :: "'d \<Rightarrow> oenv \<Rightarrow> 'd octx" where
  "init_ctx d e = \<lparr>ost = \<lparr>odata = d, outargs = \<lparr>args_argv = None, allocated = False\<rparr>, oenv = e\<rparr>,
     oopts = None, argctr = 0, nonopt = 0\<rparr>"

text \<open>The new vector replaces the old one only on success; the other one is freed.\<close>

definition fuse_opt_parse ::
  "(nat \<Rightarrow> optval \<Rightarrow> 'd \<Rightarrow> 'd) \<Rightarrow> (string \<Rightarrow> string \<Rightarrow> optval option) \<Rightarrow> fuse_args option \<Rightarrow> 'd \<Rightarrow> fuse_opt list \<Rightarrow>
     (string \<Rightarrow> int \<Rightarrow> 'd optst \<Rightarrow> (int \<times> 'd optst) res) option \<Rightarrow> oenv \<Rightarrow> (int \<times> fuse_args option \<times> 'd \<times> oenv) res" where
  "fuse_opt_parse put scan args d opts proc e =
     (case args of
        None \<Rightarrow> Inr (0, None, d, e)
      | Some a \<Rightarrow>
          if arg_list a = [] then Inr (0, Some a, d, e)
          else
            bind_res (opt_parse \<lparr>sp_put = put, sp_scan = scan, sp_opts = opts, sp_proc = proc, sp_argv = arg_list a\<rparr>
                (init_ctx d e)) (\<lambda>(r, ctx).
            Inr (r, Some (if r \<noteq> - 1 then outargs (ost ctx) else a), odata (ost ctx), oenv (ost ctx))))"

end
