(* ===== verification/Fuse_Helper.thy ===== *)
theory Fuse_Helper
  imports Fuse_Opt Fuse_Types
begin

text \<open>
  The start of a file system in \<^verbatim>\<open>lib/helper.c\<close>: the command line, setting up, the main loop and
  taking down. The options go through the parser; mounting, the session and its loops are the
  functions of a record, a parameter.
\<close>

section \<open>Options of the command line\<close>

record helper_opts =
  singlethread :: int
  foreground :: int
  nodefault_subtype :: int
  mountpoint :: "string option"

text \<open>The user data of the parser: the options, and the world that \<^verbatim>\<open>realpath\<close> looks at.\<close>

record 'w hdata =
  hopts :: helper_opts
  hworld :: 'w

text \<open>\<^verbatim>\<open>offsetof\<close> of the fields\<close>

definition OFF_SINGLETHREAD :: nat where "OFF_SINGLETHREAD = 0"
definition OFF_FOREGROUND :: nat where "OFF_FOREGROUND = 4"
definition OFF_NODEFAULT_SUBTYPE :: nat where "OFF_NODEFAULT_SUBTYPE = 8"

definition put_helper :: "nat \<Rightarrow> optval \<Rightarrow> 'w hdata \<Rightarrow> 'w hdata" where
  "put_helper off v d =
     (case v of
        OInt i \<Rightarrow>
          if off = OFF_SINGLETHREAD then d\<lparr>hopts := (hopts d)\<lparr>singlethread := i\<rparr>\<rparr>
          else if off = OFF_FOREGROUND then d\<lparr>hopts := (hopts d)\<lparr>foreground := i\<rparr>\<rparr>
          else if off = OFF_NODEFAULT_SUBTYPE then d\<lparr>hopts := (hopts d)\<lparr>nodefault_subtype := i\<rparr>\<rparr>
          else d
      | OStr t \<Rightarrow> d)"

definition KEY_HELP :: int where "KEY_HELP = 0"
definition KEY_HELP_NOHEADER :: int where "KEY_HELP_NOHEADER = 1"
definition KEY_VERSION :: int where "KEY_VERSION = 2"

definition FUSE_HELPER_OPT :: "string \<Rightarrow> nat \<Rightarrow> fuse_opt" where
  "FUSE_HELPER_OPT t p = \<lparr>templ = t, opt_offset = p, opt_value = 1\<rparr>"

definition fuse_helper_opts :: "fuse_opt list" where
  "fuse_helper_opts =
     [FUSE_HELPER_OPT ''-d'' OFF_FOREGROUND,
      FUSE_HELPER_OPT ''debug'' OFF_FOREGROUND,
      FUSE_HELPER_OPT ''-f'' OFF_FOREGROUND,
      FUSE_HELPER_OPT ''-s'' OFF_SINGLETHREAD,
      FUSE_HELPER_OPT ''fsname='' OFF_NODEFAULT_SUBTYPE,
      FUSE_HELPER_OPT ''subtype='' OFF_NODEFAULT_SUBTYPE,
      FUSE_OPT_KEY ''-h'' KEY_HELP,
      FUSE_OPT_KEY ''--help'' KEY_HELP,
      FUSE_OPT_KEY ''-ho'' KEY_HELP_NOHEADER,
      FUSE_OPT_KEY ''-V'' KEY_VERSION,
      FUSE_OPT_KEY ''--version'' KEY_VERSION,
      FUSE_OPT_KEY ''-d'' FUSE_OPT_KEY_KEEP,
      FUSE_OPT_KEY ''debug'' FUSE_OPT_KEY_KEEP,
      FUSE_OPT_KEY ''fsname='' FUSE_OPT_KEY_KEEP,
      FUSE_OPT_KEY ''subtype='' FUSE_OPT_KEY_KEEP]"

definition print_lines :: "string list \<Rightarrow> oenv \<Rightarrow> oenv" where
  "print_lines ls e = e\<lparr>oerr := oerr e @ [concat (map (\<lambda>l. l @ [newline]) ls)]\<rparr>"

definition usage :: "string \<Rightarrow> oenv \<Rightarrow> oenv" where
  "usage progname e =
     print_lines [''general options:'',
        ''    -o opt,[opt...]        mount options'',
        ''    -h   --help            print help'',
        ''    -V   --version         print version'',
        []]
       (print_lines [''usage: '' @ progname @ '' mountpoint [options]'', []] e)"

definition helper_help :: "oenv \<Rightarrow> oenv" where
  "helper_help e =
     print_lines [''FUSE options:'',
        ''    -d   -o debug          enable debug output (implies -f)'',
        ''    -f                     foreground operation'',
        ''    -s                     disable multi-threaded operation'',
        []] e"

definition helper_version :: "string \<Rightarrow> oenv \<Rightarrow> oenv" where
  "helper_version version e = print_err (''FUSE library version: '' @ version) e"

text \<open>
  The C library and the configuration of the build: resolving a path, the text of an error number,
  and the version of the package.
\<close>

record 'w hsys =
  hs_realpath :: "string \<Rightarrow> 'w \<Rightarrow> (int + string) \<times> 'w"
  hs_strerror :: "int \<Rightarrow> string"
  hs_version :: string

definition st_env :: "(oenv \<Rightarrow> oenv) \<Rightarrow> 'd optst \<Rightarrow> 'd optst" where
  "st_env f st = st\<lparr>oenv := f (oenv st)\<rparr>"

definition fuse_helper_opt_proc ::
  "'w hsys \<Rightarrow> string \<Rightarrow> int \<Rightarrow> 'w hdata optst \<Rightarrow> (int \<times> 'w hdata optst) res" where
  "fuse_helper_opt_proc hs arg key st =
     (if key = KEY_HELP \<or> key = KEY_HELP_NOHEADER
      then
        bind_res (guard_res (key = KEY_HELP \<longrightarrow> arg_list (outargs st) \<noteq> []) NullPointer) (\<lambda>_.
        let st1 = (if key = KEY_HELP then st_env (usage (hd (arg_list (outargs st)))) st else st);
            st2 = st_env helper_help st1 in
        bind_res (fuse_opt_add_arg ''-h'' (outargs st2) (oenv st2)) (\<lambda>(r, args, e).
        Inr (r, st2\<lparr>outargs := args, oenv := e\<rparr>)))
      else if key = KEY_VERSION then Inr (1, st_env (helper_version (hs_version hs)) st)
      else if key = FUSE_OPT_KEY_NONOPT
      then
        (if mountpoint (hopts (odata st)) = None
         then
           (case hs_realpath hs arg (hworld (odata st)) of
              (Inl err, w) \<Rightarrow>
                Inr (- 1, st_env (print_err (''fuse: bad mount point `'' @ arg @ [CHR 0x27] @ '': '' @ hs_strerror hs err))
                  (st\<lparr>odata := (odata st)\<lparr>hworld := w\<rparr>\<rparr>))
            | (Inr mp, w) \<Rightarrow>
                (let (r, m, e) = fuse_opt_add_opt None mp (oenv st) in
                 Inr (r, st\<lparr>odata := \<lparr>hopts = (hopts (odata st))\<lparr>mountpoint := m\<rparr>, hworld = w\<rparr>, oenv := e\<rparr>)))
         else Inr (- 1, st_env (print_err (''fuse: invalid argument `'' @ arg @ [CHR 0x27])) st))
      else Inr (1, st))"

text \<open>The name behind the last slash; a slash at the end is kept.\<close>

definition base_name :: "string \<Rightarrow> string" where
  "base_name progname =
     (let tail = rev (takeWhile (\<lambda>c. c \<noteq> CHR ''/'') (rev progname)) in
      if CHR ''/'' \<notin> set progname then progname else if tail \<noteq> [] then tail else ''/'')"

definition add_default_subtype :: "string \<Rightarrow> fuse_args \<Rightarrow> oenv \<Rightarrow> (int \<times> fuse_args \<times> oenv) res" where
  "add_default_subtype progname args e =
     (case alloc e of
        (False, e1) \<Rightarrow> Inr (- 1, args, snd (alloc_failed e1))
      | (True, e1) \<Rightarrow> fuse_opt_add_arg (''-osubtype='' @ base_name progname) args e1)"

record cmdline =
  cl_mountpoint :: "string option"
  cl_multithreaded :: int
  cl_foreground :: int

definition fuse_parse_cmdline ::
  "'w hsys \<Rightarrow> fuse_args \<Rightarrow> 'w \<Rightarrow> oenv \<Rightarrow> (cmdline option \<times> fuse_args \<times> 'w \<times> oenv) res" where
  "fuse_parse_cmdline hs args w e =
     bind_res (fuse_opt_parse put_helper (\<lambda>_ _. None) (Some args)
         \<lparr>hopts = \<lparr>singlethread = 0, foreground = 0, nodefault_subtype = 0, mountpoint = None\<rparr>, hworld = w\<rparr>
         fuse_helper_opts (Some (fuse_helper_opt_proc hs)) e) (\<lambda>(r, args1, d, e1).
     bind_res (the_res args1 NullPointer) (\<lambda>args2.
     if r = - 1 then Inr (None, args2, hworld d, e1)
     else
       bind_res
         (if nodefault_subtype (hopts d) = 0
          then bind_res (guard_res (arg_list args2 \<noteq> []) NullPointer) (\<lambda>_.
               add_default_subtype (hd (arg_list args2)) args2 e1)
          else Inr (0, args2, e1)) (\<lambda>(r2, args3, e2).
       if r2 = - 1 then Inr (None, args3, hworld d, e2)
       else
         Inr (Some \<lparr>cl_mountpoint = mountpoint (hopts d),
                    cl_multithreaded = (if singlethread (hopts d) = 0 then 1 else 0),
                    cl_foreground = foreground (hopts d)\<rparr>, args3, hworld d, e2))))"

section \<open>Setting up and running\<close>

text \<open>
  The parts of the library that the start calls, on the state of the process: mounting gives a
  channel, the new session is a handle, the loops return when the file system is unmounted.
\<close>

record 'w libfuse =
  lf_mount :: "string option \<Rightarrow> fuse_args \<Rightarrow> 'w fstate \<Rightarrow> nat option \<times> fuse_args \<times> 'w fstate"
  lf_new :: "nat \<Rightarrow> fuse_args \<Rightarrow> 'w fuse_operations \<Rightarrow> nat \<Rightarrow> int \<Rightarrow> 'w fstate \<Rightarrow> nat option \<times> 'w fstate"
  lf_daemonize :: "int \<Rightarrow> 'w fstate \<Rightarrow> int \<times> 'w fstate"
  lf_set_signals :: "nat \<Rightarrow> 'w fstate \<Rightarrow> int \<times> 'w fstate"
  lf_remove_signals :: "nat \<Rightarrow> 'w fstate \<Rightarrow> 'w fstate"
  lf_unmount :: "string option \<Rightarrow> nat \<Rightarrow> 'w fstate \<Rightarrow> 'w fstate"
  lf_destroy :: "nat \<Rightarrow> 'w fstate \<Rightarrow> 'w fstate"
  lf_loop :: "nat \<Rightarrow> 'w fstate \<Rightarrow> (int \<times> 'w fstate) res"
  lf_loop_mt :: "nat \<Rightarrow> 'w fstate \<Rightarrow> (int \<times> 'w fstate) res"

definition with_err :: "oenv \<Rightarrow> 'w \<Rightarrow> 'w fstate \<Rightarrow> 'w fstate" where
  "with_err e w s = s\<lparr>stderr := oerr e, world := w\<rparr>"

text \<open>The running file system with its channel and the command line, or nothing.\<close>

definition fuse_setup_common ::
  "'w hsys \<Rightarrow> 'w libfuse \<Rightarrow> bool list \<Rightarrow> string list \<Rightarrow> 'w fuse_operations \<Rightarrow> nat \<Rightarrow> int \<Rightarrow> 'w fstate \<Rightarrow>
     ((nat \<times> nat \<times> cmdline) option \<times> 'w fstate) res" where
  "fuse_setup_common hs lf al argv op user_data cmp s =
     bind_res (fuse_parse_cmdline hs (FUSE_ARGS_INIT argv) (world s) \<lparr>allocs = al, oerr = stderr s\<rparr>)
       (\<lambda>(cl, args, w, e).
     let s1 = with_err e w s in
     case cl of
       None \<Rightarrow> Inr (None, s1)
     | Some c \<Rightarrow>
         (case lf_mount lf (cl_mountpoint c) args s1 of
            (None, args1, s2) \<Rightarrow> Inr (None, s2)
          | (Some ch, args1, s2) \<Rightarrow>
              (case lf_new lf ch args1 op user_data cmp s2 of
                 (None, s3) \<Rightarrow> Inr (None, lf_unmount lf (cl_mountpoint c) ch s3)
               | (Some fuse, s3) \<Rightarrow>
                   (case lf_daemonize lf (cl_foreground c) s3 of
                      (r, s4) \<Rightarrow>
                        if r = - 1 then Inr (None, lf_destroy lf fuse (lf_unmount lf (cl_mountpoint c) ch s4))
                        else
                          (case lf_set_signals lf fuse s4 of
                             (r2, s5) \<Rightarrow>
                               if r2 = - 1 then Inr (None, lf_destroy lf fuse (lf_unmount lf (cl_mountpoint c) ch s5))
                               else Inr (Some (fuse, ch, c), s5))))))"

definition fuse_teardown_common :: "'w libfuse \<Rightarrow> nat \<Rightarrow> nat \<Rightarrow> string option \<Rightarrow> 'w fstate \<Rightarrow> 'w fstate" where
  "fuse_teardown_common lf fuse ch mp s =
     lf_destroy lf fuse (lf_unmount lf mp ch (lf_remove_signals lf fuse s))"

definition fuse_main_common ::
  "'w hsys \<Rightarrow> 'w libfuse \<Rightarrow> bool list \<Rightarrow> int \<Rightarrow> string list \<Rightarrow> 'w fuse_operations \<Rightarrow> nat \<Rightarrow> (int, 'w) act" where
  "fuse_main_common hs lf al cmp argv op user_data s =
     bind_res (fuse_setup_common hs lf al argv op user_data cmp s) (\<lambda>(x, s1).
     case x of
       None \<Rightarrow> Inr (1, s1)
     | Some (fuse, ch, c) \<Rightarrow>
         bind_res (if cl_multithreaded c \<noteq> 0 then lf_loop_mt lf fuse s1 else lf_loop lf fuse s1) (\<lambda>(res, s2).
         Inr (if res = - 1 then 1 else 0, fuse_teardown_common lf fuse ch (cl_mountpoint c) s2)))"

definition fuse_main_real ::
  "'w hsys \<Rightarrow> 'w libfuse \<Rightarrow> bool list \<Rightarrow> string list \<Rightarrow> 'w fuse_operations \<Rightarrow> nat \<Rightarrow> (int, 'w) act" where
  "fuse_main_real hs lf al argv op user_data s = fuse_main_common hs lf al 0 argv op user_data s"

end
