(* ===== verification/Helper_Props.thy ===== *)
theory Helper_Props
  imports Fuse_Helper Opt_Props CFS_Main
begin

text \<open>
  What becomes of the arguments that \<^verbatim>\<open>main\<close> hands to \<^verbatim>\<open>fuse_main\<close>: the mount point is resolved, and the
  option \<^verbatim>\<open>-s\<close> keeps the file system, whose cache has no locks, to one thread.
\<close>

section \<open>The command line of the caching file system\<close>

lemmas keys = KEY_HELP_def KEY_HELP_NOHEADER_def KEY_VERSION_def FUSE_OPT_KEY_NONOPT_def

lemma find_single: "find_opt fuse_helper_opts ''-s'' =
    Some (FUSE_HELPER_OPT ''-s'' OFF_SINGLETHREAD, drop 4 fuse_helper_opts, 0)"
  "find_opt (drop 4 fuse_helper_opts) ''-s'' = None"
  by (simp_all add: fuse_helper_opts_def FUSE_HELPER_OPT_def FUSE_OPT_KEY_def match_template_def template_sep_def
      strchr_def char_at_def NUL_def)

text \<open>The option \<^verbatim>\<open>-s\<close>.\<close>

lemma process_single:
  assumes "sp_opts sp = fuse_helper_opts" "sp_put sp = put_helper"
  shows "process_gopt sp ''-s'' False ctx = Inr (0, ctx_put sp OFF_SINGLETHREAD (OInt 1) ctx)"
  using assms find_single
  by (simp add: process_gopt_def gopt_loop.simps process_opt_def FUSE_HELPER_OPT_def OFF_SINGLETHREAD_def KEY_OFFSET_def)

text \<open>The mount point, the first argument that is not an option.\<close>

lemma process_mountpoint:
  assumes "sp_proc sp = Some (fuse_helper_opt_proc hs)" "char_at m 0 \<noteq> CHR ''-''"
    "mountpoint (hopts (odata (ost ctx))) = None" "process_one sp m ctx = Inr (r, ctx')" "r \<noteq> - 1"
  shows "\<exists>mp w'. hs_realpath hs m (hworld (odata (ost ctx))) = (Inr mp, w') \<and>
    odata (ost ctx') = \<lparr>hopts = (hopts (odata (ost ctx)))\<lparr>mountpoint := Some mp\<rparr>, hworld = w'\<rparr> \<and>
    outargs (ost ctx') = outargs (ost ctx) \<and> oopts ctx' = oopts ctx \<and> argctr ctx' = argctr ctx \<and> nonopt ctx' = nonopt ctx"
proof -
  obtain x w' where rp: "hs_realpath hs m (hworld (odata (ost ctx))) = (x, w')" by (cases "hs_realpath hs m (hworld (odata (ost ctx)))")
  obtain b e where al: "alloc (oenv (ost ctx)) = (b, e)" by (cases "alloc (oenv (ost ctx))")
  have esc: "concat (map (escape_char False) z) = z" for z by (induction z) (simp_all add: escape_char_def)
  show ?thesis
    using assms rp al
    by (cases x; cases b)
      (auto simp: process_one_def call_proc_def fuse_helper_opt_proc_def keys FUSE_OPT_KEY_DISCARD_def
        FUSE_OPT_KEY_KEEP_def fuse_opt_add_opt_def add_opt_common_def alloc_failed_def esc)
qed

lemma parse_main_args:
  assumes sp: "sp_proc sp = Some (fuse_helper_opt_proc hs)" "sp_opts sp = fuse_helper_opts" "sp_put sp = put_helper"
      "sp_argv sp = [p, m, ''-s'']" and m: "char_at m 0 \<noteq> CHR ''-''"
    and ctx: "mountpoint (hopts (odata (ost ctx))) = None" "argctr ctx = 1" "nonopt ctx = 0" "oopts ctx = None"
    and run: "parse_args sp ctx = Inr (r, ctx')" "r \<noteq> - 1"
  shows "\<exists>mp w'. hs_realpath hs m (hworld (odata (ost ctx))) = (Inr mp, w') \<and>
    odata (ost ctx') = \<lparr>hopts = (hopts (odata (ost ctx)))\<lparr>mountpoint := Some mp, singlethread := 1\<rparr>, hworld = w'\<rparr> \<and>
    outargs (ost ctx') = outargs (ost ctx) \<and> oopts ctx' = None \<and> nonopt ctx' = 0"
proof -
  obtain r1 c1 where r1: "process_one sp m ctx = Inr (r1, c1)" "r1 \<noteq> - 1"
    and rest: "parse_args sp (c1\<lparr>argctr := argctr c1 + 1\<rparr>) = Inr (r, ctx')"
    using run ctx(2) sp(4) by (subst (asm) parse_args.simps) (auto simp: res_iffs split: if_splits)
  from process_mountpoint [OF sp(1) m ctx(1) r1] obtain mp w' where
    c1: "hs_realpath hs m (hworld (odata (ost ctx))) = (Inr mp, w')"
      "odata (ost c1) = \<lparr>hopts = (hopts (odata (ost ctx)))\<lparr>mountpoint := Some mp\<rparr>, hworld = w'\<rparr>"
      "outargs (ost c1) = outargs (ost ctx)" "oopts c1 = None" "argctr c1 = 1" "nonopt c1 = 0"
    using ctx by auto
  let ?c = "c1\<lparr>argctr := argctr c1 + 1\<rparr>"
  have one: "process_one sp ''-s'' ?c = Inr (0, ctx_put sp OFF_SINGLETHREAD (OInt 1) ?c)"
    using c1(6) process_single [OF sp(2,3), of ?c] by (simp add: process_one_def char_at_def NUL_def)
  have "parse_args sp ?c = parse_args sp ((ctx_put sp OFF_SINGLETHREAD (OInt 1) ?c)\<lparr>argctr := 3\<rparr>)"
    using one c1(5) sp(4) by (subst parse_args.simps) (simp add: ctx_put_def numeral_3_eq_3)
  also have "\<dots> = Inr (0, (ctx_put sp OFF_SINGLETHREAD (OInt 1) ?c)\<lparr>argctr := 3\<rparr>)"
    using sp(4) by (subst parse_args.simps) simp
  finally have "ctx' = (ctx_put sp OFF_SINGLETHREAD (OInt 1) ?c)\<lparr>argctr := 3\<rparr>" using rest by simp
  then show ?thesis
    using c1 sp(3) by (auto simp: ctx_put_def put_helper_def)
qed

lemma cmdline_single:
  assumes m: "char_at m 0 \<noteq> CHR ''-''"
    and run: "fuse_parse_cmdline hs (FUSE_ARGS_INIT [p, m, ''-s'']) w e = Inr (Some c, args, w', e')"
  shows "\<exists>mp. hs_realpath hs m w = (Inr mp, w') \<and> c = \<lparr>cl_mountpoint = Some mp, cl_multithreaded = 0, cl_foreground = 0\<rparr>"
proof -
  let ?d = "\<lparr>hopts = \<lparr>singlethread = 0, foreground = 0, nodefault_subtype = 0, mountpoint = None\<rparr>, hworld = w\<rparr>"
  let ?sp = "\<lparr>sp_put = put_helper, sp_scan = \<lambda>_ _. None, sp_opts = fuse_helper_opts,
    sp_proc = Some (fuse_helper_opt_proc hs), sp_argv = [p, m, ''-s'']\<rparr>"
  obtain r cx where parse: "opt_parse ?sp (init_ctx ?d e) = Inr (r, cx)" "r \<noteq> - 1"
    and c: "c = \<lparr>cl_mountpoint = mountpoint (hopts (odata (ost cx))),
        cl_multithreaded = (if singlethread (hopts (odata (ost cx))) = 0 then 1 else 0),
        cl_foreground = foreground (hopts (odata (ost cx)))\<rparr>" "w' = hworld (odata (ost cx))"
    using run
    by (auto simp: fuse_parse_cmdline_def fuse_opt_parse_def FUSE_ARGS_INIT_def arg_list_def res_iffs split: if_splits)
  from parse obtain r1 c1 r2 c2 r3 c3 where s: "add_arg p (init_ctx ?d e) = Inr (r1, c1)" "r1 \<noteq> - 1"
    "parse_args ?sp (c1\<lparr>argctr := 1\<rparr>) = Inr (r2, c2)" "r2 \<noteq> - 1" "insert_opts c2 = Inr (r3, c3)" "cx = drop_separator c3"
    by (auto simp: opt_parse_def res_iffs split: if_splits)
  have c1: "odata (ost c1) = ?d" "nonopt c1 = 0" "oopts c1 = None"
    using s(1) by (auto simp: add_arg_def init_ctx_def res_iffs)
  obtain mp where c2: "hs_realpath hs m w = (Inr mp, hworld (odata (ost c2)))"
    "hopts (odata (ost c2)) = (hopts ?d)\<lparr>mountpoint := Some mp, singlethread := 1\<rparr>" "oopts c2 = None"
    using parse_main_args [OF _ _ _ _ m _ _ _ _ s(3,4)] c1 by fastforce
  have "odata (ost cx) = odata (ost c2)"
    using s(5,6) c2(3) by (simp add: insert_opts_def drop_separator_def Let_def)
  then show ?thesis using c c2 by simp
qed

lemma other_parts:
  "lf_mount (lf\<lparr>lf_loop_mt := mt\<rparr>) = lf_mount lf" "lf_new (lf\<lparr>lf_loop_mt := mt\<rparr>) = lf_new lf"
  "lf_daemonize (lf\<lparr>lf_loop_mt := mt\<rparr>) = lf_daemonize lf" "lf_set_signals (lf\<lparr>lf_loop_mt := mt\<rparr>) = lf_set_signals lf"
  "lf_remove_signals (lf\<lparr>lf_loop_mt := mt\<rparr>) = lf_remove_signals lf" "lf_unmount (lf\<lparr>lf_loop_mt := mt\<rparr>) = lf_unmount lf"
  "lf_destroy (lf\<lparr>lf_loop_mt := mt\<rparr>) = lf_destroy lf" "lf_loop (lf\<lparr>lf_loop_mt := mt\<rparr>) = lf_loop lf"
  by simp_all

lemma setup_cmdline:
  assumes "fuse_setup_common hs lf al argv op d k s = Inr (Some (fuse, ch, c), s')"
  obtains args w e where "fuse_parse_cmdline hs (FUSE_ARGS_INIT argv) (world s) \<lparr>allocs = al, oerr = stderr s\<rparr> =
    Inr (Some c, args, w, e)"
proof -
  obtain y args w e where p: "fuse_parse_cmdline hs (FUSE_ARGS_INIT argv) (world s) \<lparr>allocs = al, oerr = stderr s\<rparr> =
      Inr (Some y, args, w, e)"
    using assms by (auto simp: fuse_setup_common_def res_iffs Let_def split: option.splits)
  obtain cho args1 s2 where m: "lf_mount lf (cl_mountpoint y) args (with_err e w s) = (cho, args1, s2)"
    by (metis surj_pair)
  obtain ch' where ch: "cho = Some ch'"
    using assms by (cases cho) (simp_all add: fuse_setup_common_def p m)
  obtain fo s3 where n: "lf_new lf ch' args1 op d k s2 = (fo, s3)" by fastforce
  obtain fs where fs: "fo = Some fs"
    using assms by (cases fo) (simp_all add: fuse_setup_common_def p m ch n)
  have "y = c"
    using assms by (auto simp: fuse_setup_common_def p m ch n fs case_prod_beta split: if_splits)
  then show thesis using p that by blast
qed

text \<open>
  (C30) The program runs in one thread, as its cache, which has no locks, requires: whatever else
  happens, the multi-threaded loop of libfuse is never entered, for every mount point that does not
  look like an option.
\<close>

theorem main_single_threaded:
  assumes "char_at (argv ! 2) 0 \<noteq> CHR ''-''"
  shows "main os stoi stod (fuse_main_real hs (lf\<lparr>lf_loop_mt := mt\<rparr>) al) argv s =
    main os stoi stod (fuse_main_real hs lf al) argv s"
proof -
  have eq: "fuse_main_real hs (lf\<lparr>lf_loop_mt := mt\<rparr>) al [p, argv ! 2, ''-s''] op d s1 =
      fuse_main_real hs lf al [p, argv ! 2, ''-s''] op d s1" for p op d s1
  proof -
    have same: "fuse_setup_common hs (lf\<lparr>lf_loop_mt := mt\<rparr>) al a op d 0 s1 = fuse_setup_common hs lf al a op d 0 s1" for a
      unfolding fuse_setup_common_def other_parts ..
    have "cl_multithreaded c = 0"
      if "fuse_setup_common hs lf al [p, argv ! 2, ''-s''] op d 0 s1 = Inr (Some (fuse, ch, c), s2)" for fuse ch c s2
    proof (rule setup_cmdline [OF that])
      fix args w e
      assume "fuse_parse_cmdline hs (FUSE_ARGS_INIT [p, argv ! 2, ''-s'']) (world s1) \<lparr>allocs = al, oerr = stderr s1\<rparr> =
        Inr (Some c, args, w, e)"
      from cmdline_single [OF assms this] show "cl_multithreaded c = 0" by auto
    qed
    then show ?thesis
      unfolding fuse_main_real_def fuse_main_common_def same other_parts fuse_teardown_common_def
      by (intro bind_res_cong) (auto split: option.split)
  qed
  show ?thesis unfolding main_def eq ..
qed

theorem main_single_threaded_witness:
  "\<forall>os stoi stod hs lf mt s. main os stoi stod (fuse_main_real hs (lf\<lparr>lf_loop_mt := mt\<rparr>) []) [''prog'', ''/r'', ''/m'', ''4'', ''1'', ''1''] s =
    main os stoi stod (fuse_main_real hs lf []) [''prog'', ''/r'', ''/m'', ''4'', ''1'', ''1''] s"
  by (intro allI main_single_threaded) (simp add: char_at_def)

text \<open>
  (C38) On the arguments of the program the command line yields the resolved mount point, a single
  thread and the background, and the options that are left name the program as the type of the
  file system.
\<close>

theorem caching_command_line:
  assumes "char_at m 0 \<noteq> CHR ''-''" "hs_realpath hs m w = (Inr mp, w')" "allocs e = []"
  shows "fuse_parse_cmdline hs (FUSE_ARGS_INIT [p, m, ''-s'']) w e =
    Inr (Some \<lparr>cl_mountpoint = Some mp, cl_multithreaded = 0, cl_foreground = 0\<rparr>,
      \<lparr>args_argv = Some [p, ''-osubtype='' @ base_name p], allocated = True\<rparr>, w', e)"
proof -
  have esc: "concat (map (escape_char False) z) = z" for z by (induction z) (simp_all add: escape_char_def)
  have "alloc e = (True, e)" using assms(3) by simp
  then show ?thesis
    using assms(1,2)
    by (simp add: fuse_parse_cmdline_def fuse_opt_parse_def FUSE_ARGS_INIT_def arg_list_def opt_parse_def init_ctx_def
        add_arg_def fuse_opt_add_arg_def parse_args.simps process_one_def call_proc_def fuse_helper_opt_proc_def keys
        FUSE_OPT_KEY_DISCARD_def FUSE_OPT_KEY_KEEP_def fuse_opt_add_opt_def add_opt_common_def process_single char_at_def
        NUL_def ctx_put_def put_helper_def insert_opts_def drop_separator_def add_default_subtype_def esc)
qed

definition plain_hs :: "unit hsys" where
  "plain_hs = \<lparr>hs_realpath = (\<lambda>pn w. (Inr pn, w)), hs_strerror = show_int, hs_version = ''2.9.6''\<rparr>"

theorem caching_command_line_witness:
  "fuse_parse_cmdline plain_hs (FUSE_ARGS_INIT [''./cfs'', ''/m'', ''-s'']) () no_env =
    Inr (Some \<lparr>cl_mountpoint = Some ''/m'', cl_multithreaded = 0, cl_foreground = 0\<rparr>,
      \<lparr>args_argv = Some [''./cfs'', ''-osubtype=cfs''], allocated = True\<rparr>, (), no_env)"
  using caching_command_line [of "''/m''" plain_hs "()" "''/m''" "()" no_env "''./cfs''"]
  by (simp add: char_at_def plain_hs_def no_env_def base_name_def)

end
