(* ===== verification/Fuse_Subdir.thy ===== *)
theory Fuse_Subdir
  imports Fuse_FS Fuse_Opt
begin

text \<open>
  The module of libfuse that puts a directory in front of every path (\<^verbatim>\<open>lib/modules/subdir.c\<close>): a
  table of operations that calls the file system below it with the longer path, and that can make
  absolute links relative. The structures of the module lie somewhere in the world of the process:
  the record \<open>subdir_store\<close> reads and writes the one at an address.
\<close>

section \<open>The module\<close>

record 'w subdir =
  sd_base :: string
  sd_baselen :: nat
  sd_rellinks :: bool
  sd_next :: "'w fuse_fs"

record 'w subdir_store =
  sd_get :: "nat \<Rightarrow> 'w \<Rightarrow> 'w subdir option"
  sd_put :: "nat \<Rightarrow> 'w subdir \<Rightarrow> 'w \<Rightarrow> 'w"
  sd_delete :: "nat \<Rightarrow> 'w \<Rightarrow> 'w"

definition subdir_get :: "'w subdir_store \<Rightarrow> 'w fstate \<Rightarrow> ('w subdir) res" where
  "subdir_get D s = the_res (sd_get D (private_data s) (world s)) NullPointer"

text \<open>The path with the base directory in front of it; an empty result is the current directory.\<close>

definition skip_slash :: "string \<Rightarrow> string" where
  "skip_slash pn = (case pn of c # cs \<Rightarrow> if c = CHR ''/'' then cs else pn | [] \<Rightarrow> [])"

definition joined_path :: "'w subdir \<Rightarrow> string \<Rightarrow> string" where
  "joined_path d pn = (let t = sd_base d @ skip_slash pn in if t = [] then ''.'' else t)"

text \<open>
  \<^verbatim>\<open>subdir_addpath\<close>: the error number, and the address of the new string with its value. The length
  is an \<^verbatim>\<open>unsigned\<close>, and so is what is asked of \<^verbatim>\<open>malloc\<close>: both wrap, and a path for which they do
  overruns the memory.
\<close>

definition subdir_addpath :: "'w subdir \<Rightarrow> string option \<Rightarrow> 'w fstate \<Rightarrow> (int \<times> (nat \<times> string) option \<times> 'w fstate) res" where
  "subdir_addpath d pn s =
     (case pn of
        None \<Rightarrow> Inr (0, None, s)
      | Some p \<Rightarrow>
          (let newlen = (sd_baselen d + length p) mod 2 ^ 32 in
           case malloc ((newlen + 2) mod 2 ^ 32) s of
             (None, s1) \<Rightarrow> Inr (- ENOMEM, None, s1)
           | (Some a, s1) \<Rightarrow>
               if length (joined_path d p) + 1 \<le> (newlen + 2) mod 2 ^ 32 then Inr (0, Some (a, joined_path d p), s1)
               else Inl OutOfBounds))"

definition free_path :: "(nat \<times> string) option \<Rightarrow> 'w fstate \<Rightarrow> ('w fstate) res" where
  "free_path np s = (case np of None \<Rightarrow> Inr s | Some (a, t) \<Rightarrow> mfree_obj a s)"

text \<open>The frame that all operations share, and an operation that needs a path.\<close>

definition with_newpath ::
  "'w subdir_store \<Rightarrow> string option \<Rightarrow> (int \<Rightarrow> 'a) \<Rightarrow> ('w subdir \<Rightarrow> string option \<Rightarrow> ('a, 'w) act) \<Rightarrow> ('a, 'w) act" where
  "with_newpath D pn fail call s =
     bind_res (subdir_get D s) (\<lambda>d.
     bind_res (subdir_addpath d pn s) (\<lambda>(err, np, s1).
     if err \<noteq> 0 then Inr (fail err, s1)
     else
       bind_res (call d (map_option snd np) s1) (\<lambda>(r, s2).
       bind_res (free_path np s2) (\<lambda>s3. Inr (r, s3)))))"

definition on_path :: "string option \<Rightarrow> (string \<Rightarrow> ('a, 'w) act) \<Rightarrow> ('a, 'w) act" where
  "on_path np f s = bind_res (the_res np NullPointer) (\<lambda>p. f p s)"

section \<open>Relative links\<close>

definition drop_slashes :: "string \<Rightarrow> string" where
  "drop_slashes t = dropWhile (\<lambda>c. c = CHR ''/'') t"

definition drop_name :: "string \<Rightarrow> string" where
  "drop_name t = dropWhile (\<lambda>c. c \<noteq> CHR ''/'') t"

lemma length_drop_slashes: "length (drop_slashes t) \<le> length t"
  by (simp add: drop_slashes_def length_dropWhile_le)

lemma length_drop_name: "length (drop_name t) \<le> length t"
  by (simp add: drop_name_def length_dropWhile_le)

lemma drop_slashes_Cons: "drop_slashes t = c # cs \<Longrightarrow> c \<noteq> CHR ''/''"
  by (metis (mono_tags, lifting) drop_slashes_def dropWhile_eq_Cons_conv)

lemma drop_name_Cons_less: "c \<noteq> CHR ''/'' \<Longrightarrow> length (drop_name (c # cs)) < Suc (length cs)"
  using length_drop_name [of cs] by (simp add: drop_name_def)

lemma component_less: "length (drop_slashes (drop_name (c # cs))) < Suc (length cs)"
proof (cases "c = CHR ''/''")
  case True
  then show ?thesis using length_drop_slashes [of cs] by (simp add: drop_name_def drop_slashes_def)
next
  case False
  then show ?thesis using le_less_trans [OF length_drop_slashes drop_name_Cons_less] by blast
qed

text \<open>The loop of \<^verbatim>\<open>count_components\<close>, at the start of a component.\<close>

function components_loop :: "string \<Rightarrow> nat" where
  "components_loop [] = 0"
| "components_loop (c # cs) = Suc (components_loop (drop_slashes (drop_name (c # cs))))"
  by pat_completeness auto
termination
  by (relation "measure length") (simp_all add: component_less)

definition count_components :: "string \<Rightarrow> nat" where
  "count_components t = components_loop (drop_slashes t)"

text \<open>The loop over equal characters inside a component.\<close>

fun skip_equal :: "string \<Rightarrow> string \<Rightarrow> string \<times> string" where
  "skip_equal (a # s) (b # t) = (if a = b \<and> a \<noteq> CHR ''/'' then skip_equal s t else (a # s, b # t))"
| "skip_equal s t = (s, t)"

text \<open>Whether both strings are at the end of a component that they share.\<close>

definition both_at_end :: "string \<Rightarrow> string \<Rightarrow> bool" where
  "both_at_end s t \<longleftrightarrow>
     char_at s 0 = char_at t 0 \<and> char_at s 0 \<noteq> NUL \<or>
     char_at s 0 = NUL \<and> char_at t 0 = CHR ''/'' \<or> char_at s 0 = CHR ''/'' \<and> char_at t 0 = NUL"

lemma skip_equal_common:
  "skip_equal s t = (s', t') \<Longrightarrow> \<exists>u. s = u @ s' \<and> t = u @ t' \<and> CHR ''/'' \<notin> set u"
  by (induction s t rule: skip_equal.induct) (auto split: if_splits intro: exI [of _ "_ # _"])

lemma skip_equal_stop:
  "skip_equal s t = (s', t') \<Longrightarrow> char_at s' 0 = char_at t' 0 \<Longrightarrow> char_at s' 0 \<noteq> NUL \<Longrightarrow> char_at s' 0 = CHR ''/''"
  by (induction s t rule: skip_equal.induct) (auto simp: char_at_def split: if_splits)

lemma char_at_drop_slashes: "char_at (drop_slashes t) 0 \<noteq> CHR ''/''"
  by (cases "drop_slashes t") (auto simp: char_at_def NUL_def dest: drop_slashes_Cons)

text \<open>Before the next round of \<^verbatim>\<open>strip_common\<close> both strings have moved past a component that is not empty.\<close>

lemma both_at_end_component:
  assumes "skip_equal (drop_slashes s) (drop_slashes t) = (s', t')" "both_at_end s' t'"
  obtains u where "drop_slashes s = u @ s'" "drop_slashes t = u @ t'" "CHR ''/'' \<notin> set u" "u \<noteq> []"
proof -
  obtain u where u: "drop_slashes s = u @ s'" "drop_slashes t = u @ t'" "CHR ''/'' \<notin> set u"
    using skip_equal_common [OF assms(1)] by blast
  have "u \<noteq> []"
  proof
    assume "u = []"
    then have "char_at s' 0 \<noteq> CHR ''/''" "char_at t' 0 \<noteq> CHR ''/''"
      using u char_at_drop_slashes [of s] char_at_drop_slashes [of t] by simp_all
    then show False using assms skip_equal_stop by (auto simp: both_at_end_def)
  qed
  with u show thesis by (rule that)
qed

lemma strip_common_less:
  assumes "skip_equal (drop_slashes s) (drop_slashes t) = (s', t')" "both_at_end s' t'"
  shows "length s' + length t' < length s + length t"
proof (rule both_at_end_component [OF assms])
  fix u
  assume "drop_slashes s = u @ s'" "drop_slashes t = u @ t'" "u \<noteq> []"
  then show ?thesis using length_drop_slashes [of s] length_drop_slashes [of t] by (cases u) auto
qed

function strip_common :: "string \<Rightarrow> string \<Rightarrow> string \<times> string" where
  "strip_common s t =
     (case skip_equal (drop_slashes s) (drop_slashes t) of
        (s', t') \<Rightarrow> if both_at_end s' t' then strip_common s' t' else (drop_slashes s, drop_slashes t))"
  by pat_completeness auto
termination
proof (relation "measure (\<lambda>(s, t). length s + length t)", goal_cases)
  case (2 s t s' t')
  have "skip_equal (drop_slashes s) (drop_slashes t) = (s', t')" using 2(1) by (rule sym)
  from strip_common_less [OF this 2(2)] show ?case by simp
qed simp

declare strip_common.simps [simp del]

text \<open>Strings in memory.\<close>

definition byte_of :: "char \<Rightarrow> 8 word" where "byte_of c = word_of_nat (of_char c)"
definition char_of_byte :: "8 word \<Rightarrow> char" where "char_of_byte b = char_of (unat b)"

text \<open>The string at a pointer: initialised bytes up to a zero inside the object.\<close>

fun cstr_bytes :: "mbytes \<Rightarrow> string res" where
  "cstr_bytes [] = Inl OutOfBounds"
| "cstr_bytes (None # bs) = Inl Uninitialised"
| "cstr_bytes (Some b # bs) =
     (if b = 0 then Inr [] else bind_res (cstr_bytes bs) (\<lambda>t. Inr (char_of_byte b # t)))"

definition read_cstr :: "heap \<Rightarrow> ptr \<Rightarrow> string res" where
  "read_cstr h p = bind_res (the_res (h (fst p)) NullPointer) (\<lambda>obj. cstr_bytes (drop (snd p) obj))"

definition cstr_mem :: "string \<Rightarrow> mbytes" where
  "cstr_mem t = map (\<lambda>c. Some (byte_of c)) t @ [Some 0]"

text \<open>The text of the relative link, or the link as it is.\<close>

definition relative_link :: "'w subdir \<Rightarrow> string \<Rightarrow> nat \<Rightarrow> string \<Rightarrow> string option" where
  "relative_link d pn sz l0 =
     (if char_at l0 0 \<noteq> CHR ''/'' \<or> char_at (sd_base d) 0 \<noteq> CHR ''/'' then None
      else
        (let (l, path') = strip_common l0 pn in
         if length l0 - length l < sd_baselen d then None
         else if count_components path' = 0 then None
         else
           (let dotdots = count_components path' - 1 in
            if sz < dotdots * 3 + length l + 2 then None
            else Some (concat (replicate dotdots ''../'') @ (if l \<noteq> [] then l else if dotdots = 0 then ''.'' else [])))))"

definition transform_symlink :: "'w subdir \<Rightarrow> string \<Rightarrow> ptr \<Rightarrow> nat \<Rightarrow> 'w fstate \<Rightarrow> ('w fstate) res" where
  "transform_symlink d pn buf sz s =
     bind_res (read_cstr (mheap s) buf) (\<lambda>l0.
     case relative_link d pn sz l0 of
       None \<Rightarrow> Inr s
     | Some t \<Rightarrow> bind_res (mem_write (mheap s) buf (cstr_mem t)) (\<lambda>h. Inr (s\<lparr>mheap := h\<rparr>)))"

section \<open>Operations\<close>

definition subdir_getattr :: "'w subdir_store \<Rightarrow> string \<Rightarrow> stat \<Rightarrow> (int \<times> stat, 'w) act" where
  "subdir_getattr D pn st =
     with_newpath D (Some pn) (\<lambda>err. (err, st)) (\<lambda>d np. on_path np (\<lambda>p. fuse_fs_getattr (sd_next d) p st))"

definition subdir_fgetattr :: "'w subdir_store \<Rightarrow> string option \<Rightarrow> stat \<Rightarrow> fuse_file_info \<Rightarrow> (int \<times> stat \<times> fuse_file_info, 'w) act" where
  "subdir_fgetattr D pn st fi =
     with_newpath D pn (\<lambda>err. (err, st, fi)) (\<lambda>d np. fuse_fs_fgetattr (sd_next d) np st fi)"

definition subdir_access :: "'w subdir_store \<Rightarrow> string \<Rightarrow> int \<Rightarrow> (int, 'w) act" where
  "subdir_access D pn amask =
     with_newpath D (Some pn) (\<lambda>err. err) (\<lambda>d np. on_path np (\<lambda>p. fuse_fs_access (sd_next d) p amask))"

definition subdir_readlink :: "'w subdir_store \<Rightarrow> string \<Rightarrow> ptr \<Rightarrow> nat \<Rightarrow> (int, 'w) act" where
  "subdir_readlink D pn buf sz =
     with_newpath D (Some pn) (\<lambda>err. err) (\<lambda>d np. on_path np (\<lambda>p s.
       bind_res (fuse_fs_readlink (sd_next d) p buf sz s) (\<lambda>(err, s1).
       if err = 0 \<and> sd_rellinks d
       then bind_res (transform_symlink d p buf sz s1) (\<lambda>s2. Inr (err, s2)) else Inr (err, s1))))"

definition subdir_opendir :: "'w subdir_store \<Rightarrow> string \<Rightarrow> fuse_file_info \<Rightarrow> (int \<times> fuse_file_info, 'w) act" where
  "subdir_opendir D pn fi =
     with_newpath D (Some pn) (\<lambda>err. (err, fi)) (\<lambda>d np. on_path np (\<lambda>p. fuse_fs_opendir (sd_next d) p fi))"

text \<open>Reading a directory may not end, which the frame has to allow.\<close>

definition subdir_readdir ::
  "'w subdir_store \<Rightarrow> string option \<Rightarrow> 'w filler \<Rightarrow> int \<Rightarrow> fuse_file_info \<Rightarrow>
     'w fstate \<Rightarrow> ((int \<times> fuse_file_info) \<times> 'w fstate) res option" where
  "subdir_readdir D pn filler off fi s =
     (case bind_res (subdir_get D s) (\<lambda>d. bind_res (subdir_addpath d pn s) (\<lambda>x. Inr (d, x))) of
        Inl e \<Rightarrow> Some (Inl e)
      | Inr (d, err, np, s1) \<Rightarrow>
          if err \<noteq> 0 then Some (Inr ((err, fi), s1))
          else
            map_option (\<lambda>m. bind_res m (\<lambda>(r, s2). bind_res (free_path np s2) (\<lambda>s3. Inr (r, s3))))
              (fuse_fs_readdir (sd_next d) (map_option snd np) filler off fi s1))"

definition subdir_releasedir :: "'w subdir_store \<Rightarrow> string option \<Rightarrow> fuse_file_info \<Rightarrow> (int \<times> fuse_file_info, 'w) act" where
  "subdir_releasedir D pn fi =
     with_newpath D pn (\<lambda>err. (err, fi)) (\<lambda>d np. fuse_fs_releasedir (sd_next d) np fi)"

definition subdir_mknod :: "'w subdir_store \<Rightarrow> string \<Rightarrow> int \<Rightarrow> int \<Rightarrow> (int, 'w) act" where
  "subdir_mknod D pn mode rdev =
     with_newpath D (Some pn) (\<lambda>err. err) (\<lambda>d np. on_path np (\<lambda>p. fuse_fs_mknod (sd_next d) p mode rdev))"

definition subdir_mkdir :: "'w subdir_store \<Rightarrow> string \<Rightarrow> int \<Rightarrow> (int, 'w) act" where
  "subdir_mkdir D pn mode =
     with_newpath D (Some pn) (\<lambda>err. err) (\<lambda>d np. on_path np (\<lambda>p. fuse_fs_mkdir (sd_next d) p mode))"

definition subdir_unlink :: "'w subdir_store \<Rightarrow> string \<Rightarrow> (int, 'w) act" where
  "subdir_unlink D pn =
     with_newpath D (Some pn) (\<lambda>err. err) (\<lambda>d np. on_path np (\<lambda>p. fuse_fs_unlink (sd_next d) p))"

definition subdir_rmdir :: "'w subdir_store \<Rightarrow> string \<Rightarrow> (int, 'w) act" where
  "subdir_rmdir D pn =
     with_newpath D (Some pn) (\<lambda>err. err) (\<lambda>d np. on_path np (\<lambda>p. fuse_fs_rmdir (sd_next d) p))"

definition subdir_symlink :: "'w subdir_store \<Rightarrow> string \<Rightarrow> string \<Rightarrow> (int, 'w) act" where
  "subdir_symlink D frm pn =
     with_newpath D (Some pn) (\<lambda>err. err) (\<lambda>d np. on_path np (\<lambda>p. fuse_fs_symlink (sd_next d) frm p))"

text \<open>Two paths: the second is made while the first is held.\<close>

definition with_two_paths ::
  "'w subdir_store \<Rightarrow> string \<Rightarrow> string \<Rightarrow> ('w subdir \<Rightarrow> string \<Rightarrow> string \<Rightarrow> (int, 'w) act) \<Rightarrow> (int, 'w) act" where
  "with_two_paths D frm dest call =
     with_newpath D (Some frm) (\<lambda>err. err) (\<lambda>d np. on_path np (\<lambda>p s.
       bind_res (subdir_addpath d (Some dest) s) (\<lambda>(err, np2, s1).
       if err \<noteq> 0 then Inr (err, s1)
       else
         bind_res (on_path (map_option snd np2) (call d p) s1) (\<lambda>(r, s2).
         bind_res (free_path np2 s2) (\<lambda>s3. Inr (r, s3))))))"

definition subdir_rename :: "'w subdir_store \<Rightarrow> string \<Rightarrow> string \<Rightarrow> (int, 'w) act" where
  "subdir_rename D frm dest = with_two_paths D frm dest (\<lambda>d. fuse_fs_rename (sd_next d))"

definition subdir_link :: "'w subdir_store \<Rightarrow> string \<Rightarrow> string \<Rightarrow> (int, 'w) act" where
  "subdir_link D frm dest = with_two_paths D frm dest (\<lambda>d. fuse_fs_link (sd_next d))"

definition subdir_chmod :: "'w subdir_store \<Rightarrow> string \<Rightarrow> int \<Rightarrow> (int, 'w) act" where
  "subdir_chmod D pn mode =
     with_newpath D (Some pn) (\<lambda>err. err) (\<lambda>d np. on_path np (\<lambda>p. fuse_fs_chmod (sd_next d) p mode))"

definition subdir_chown :: "'w subdir_store \<Rightarrow> string \<Rightarrow> int \<Rightarrow> int \<Rightarrow> (int, 'w) act" where
  "subdir_chown D pn uid gid =
     with_newpath D (Some pn) (\<lambda>err. err) (\<lambda>d np. on_path np (\<lambda>p. fuse_fs_chown (sd_next d) p uid gid))"

definition subdir_truncate :: "'w subdir_store \<Rightarrow> string \<Rightarrow> int \<Rightarrow> (int, 'w) act" where
  "subdir_truncate D pn sz =
     with_newpath D (Some pn) (\<lambda>err. err) (\<lambda>d np. on_path np (\<lambda>p. fuse_fs_truncate (sd_next d) p sz))"

definition subdir_ftruncate :: "'w subdir_store \<Rightarrow> string option \<Rightarrow> int \<Rightarrow> fuse_file_info \<Rightarrow> (int \<times> fuse_file_info, 'w) act" where
  "subdir_ftruncate D pn sz fi =
     with_newpath D pn (\<lambda>err. (err, fi)) (\<lambda>d np. fuse_fs_ftruncate (sd_next d) np sz fi)"

definition subdir_utimens :: "'w subdir_store \<Rightarrow> string \<Rightarrow> timespec \<times> timespec \<Rightarrow> (int, 'w) act" where
  "subdir_utimens D pn ts =
     with_newpath D (Some pn) (\<lambda>err. err) (\<lambda>d np. on_path np (\<lambda>p. fuse_fs_utimens (sd_next d) p ts))"

definition subdir_create :: "'w subdir_store \<Rightarrow> string \<Rightarrow> int \<Rightarrow> fuse_file_info \<Rightarrow> (int \<times> fuse_file_info, 'w) act" where
  "subdir_create D pn mode fi =
     with_newpath D (Some pn) (\<lambda>err. (err, fi)) (\<lambda>d np. on_path np (\<lambda>p. fuse_fs_create (sd_next d) p mode fi))"

definition subdir_open :: "'w subdir_store \<Rightarrow> string \<Rightarrow> fuse_file_info \<Rightarrow> (int \<times> fuse_file_info, 'w) act" where
  "subdir_open D pn fi =
     with_newpath D (Some pn) (\<lambda>err. (err, fi)) (\<lambda>d np. on_path np (\<lambda>p. fuse_fs_open (sd_next d) p fi))"

definition subdir_read_buf :: "'w subdir_store \<Rightarrow> string option \<Rightarrow> nat \<Rightarrow> int \<Rightarrow> fuse_file_info \<Rightarrow> (int \<times> (nat \<times> fuse_bufvec) option \<times> fuse_file_info, 'w) act" where
  "subdir_read_buf D pn sz off fi =
     with_newpath D pn (\<lambda>err. (err, None, fi)) (\<lambda>d np. fuse_fs_read_buf (sd_next d) np None (word_of_nat sz) off fi)"

definition subdir_write_buf :: "'w subdir_store \<Rightarrow> 'w fdops \<Rightarrow> string option \<Rightarrow> fuse_bufvec \<Rightarrow> int \<Rightarrow> fuse_file_info \<Rightarrow> (int \<times> fuse_bufvec \<times> fuse_file_info, 'w) act" where
  "subdir_write_buf D ops pn buf off fi =
     with_newpath D pn (\<lambda>err. (err, buf, fi)) (\<lambda>d np. fuse_fs_write_buf ops (sd_next d) np buf off fi)"

definition subdir_statfs :: "'w subdir_store \<Rightarrow> string \<Rightarrow> statvfs \<Rightarrow> (int \<times> statvfs, 'w) act" where
  "subdir_statfs D pn st =
     with_newpath D (Some pn) (\<lambda>err. (err, st)) (\<lambda>d np. on_path np (\<lambda>p. fuse_fs_statfs (sd_next d) p st))"

definition subdir_flush :: "'w subdir_store \<Rightarrow> string option \<Rightarrow> fuse_file_info \<Rightarrow> (int \<times> fuse_file_info, 'w) act" where
  "subdir_flush D pn fi =
     with_newpath D pn (\<lambda>err. (err, fi)) (\<lambda>d np. fuse_fs_flush (sd_next d) np fi)"

definition subdir_release :: "'w subdir_store \<Rightarrow> string option \<Rightarrow> fuse_file_info \<Rightarrow> (int \<times> fuse_file_info, 'w) act" where
  "subdir_release D pn fi =
     with_newpath D pn (\<lambda>err. (err, fi)) (\<lambda>d np. fuse_fs_release (sd_next d) np fi)"

definition subdir_fsync :: "'w subdir_store \<Rightarrow> string option \<Rightarrow> int \<Rightarrow> fuse_file_info \<Rightarrow> (int \<times> fuse_file_info, 'w) act" where
  "subdir_fsync D pn isdatasync fi =
     with_newpath D pn (\<lambda>err. (err, fi)) (\<lambda>d np. fuse_fs_fsync (sd_next d) np isdatasync fi)"

definition subdir_fsyncdir :: "'w subdir_store \<Rightarrow> string option \<Rightarrow> int \<Rightarrow> fuse_file_info \<Rightarrow> (int \<times> fuse_file_info, 'w) act" where
  "subdir_fsyncdir D pn isdatasync fi =
     with_newpath D pn (\<lambda>err. (err, fi)) (\<lambda>d np. fuse_fs_fsyncdir (sd_next d) np isdatasync fi)"

definition subdir_setxattr :: "'w subdir_store \<Rightarrow> string \<Rightarrow> string \<Rightarrow> ptr \<Rightarrow> nat \<Rightarrow> int \<Rightarrow> (int, 'w) act" where
  "subdir_setxattr D pn name val sz flags =
     with_newpath D (Some pn) (\<lambda>err. err) (\<lambda>d np. on_path np (\<lambda>p. fuse_fs_setxattr (sd_next d) p name val sz flags))"

definition subdir_getxattr :: "'w subdir_store \<Rightarrow> string \<Rightarrow> string \<Rightarrow> ptr \<Rightarrow> nat \<Rightarrow> (int, 'w) act" where
  "subdir_getxattr D pn name val sz =
     with_newpath D (Some pn) (\<lambda>err. err) (\<lambda>d np. on_path np (\<lambda>p. fuse_fs_getxattr (sd_next d) p name val sz))"

definition subdir_listxattr :: "'w subdir_store \<Rightarrow> string \<Rightarrow> ptr \<Rightarrow> nat \<Rightarrow> (int, 'w) act" where
  "subdir_listxattr D pn lst sz =
     with_newpath D (Some pn) (\<lambda>err. err) (\<lambda>d np. on_path np (\<lambda>p. fuse_fs_listxattr (sd_next d) p lst sz))"

definition subdir_removexattr :: "'w subdir_store \<Rightarrow> string \<Rightarrow> string \<Rightarrow> (int, 'w) act" where
  "subdir_removexattr D pn name =
     with_newpath D (Some pn) (\<lambda>err. err) (\<lambda>d np. on_path np (\<lambda>p. fuse_fs_removexattr (sd_next d) p name))"

definition subdir_lock :: "'w subdir_store \<Rightarrow> string option \<Rightarrow> fuse_file_info \<Rightarrow> int \<Rightarrow> flock_t \<Rightarrow> (int \<times> flock_t \<times> fuse_file_info, 'w) act" where
  "subdir_lock D pn fi cmd lck =
     with_newpath D pn (\<lambda>err. (err, lck, fi)) (\<lambda>d np. fuse_fs_lock (sd_next d) np fi cmd lck)"

definition subdir_flock :: "'w subdir_store \<Rightarrow> string option \<Rightarrow> fuse_file_info \<Rightarrow> int \<Rightarrow> (int \<times> fuse_file_info, 'w) act" where
  "subdir_flock D pn fi lop =
     with_newpath D pn (\<lambda>err. (err, fi)) (\<lambda>d np. fuse_fs_flock (sd_next d) np fi lop)"

definition subdir_bmap :: "'w subdir_store \<Rightarrow> string \<Rightarrow> nat \<Rightarrow> int \<Rightarrow> (int \<times> int, 'w) act" where
  "subdir_bmap D pn blocksize idx =
     with_newpath D (Some pn) (\<lambda>err. (err, idx)) (\<lambda>d np. on_path np (\<lambda>p. fuse_fs_bmap (sd_next d) p blocksize idx))"

text \<open>Starting writes the private data of the file system below back into the structure.\<close>

definition subdir_init :: "'w subdir_store \<Rightarrow> fuse_conn_info \<Rightarrow> (nat \<times> fuse_conn_info, 'w) act" where
  "subdir_init D conn s =
     bind_res (subdir_get D s) (\<lambda>d.
     bind_res (fuse_fs_init (sd_next d) conn s) (\<lambda>((fs, conn1), s1).
     Inr ((private_data s, conn1), s1\<lparr>world := sd_put D (private_data s) (d\<lparr>sd_next := fs\<rparr>) (world s1)\<rparr>)))"

definition subdir_destroy :: "'w subdir_store \<Rightarrow> nat \<Rightarrow> (unit, 'w) act" where
  "subdir_destroy D data s =
     bind_res (the_res (sd_get D data (world s)) NullPointer) (\<lambda>d.
     bind_res (fuse_fs_destroy (sd_next d) s) (\<lambda>(u, s1).
     Inr ((), s1\<lparr>world := sd_delete D data (world s1)\<rparr>)))"

section \<open>The table\<close>

definition subdir_oper :: "'w subdir_store \<Rightarrow> 'w fdops \<Rightarrow> 'w fuse_operations" where
  "subdir_oper D ops = no_operations
     \<lparr>op_destroy := Some (subdir_destroy D),
      op_init := Some (subdir_init D),
      op_getattr := Some (subdir_getattr D),
      op_fgetattr := Some (subdir_fgetattr D),
      op_access := Some (subdir_access D),
      op_readlink := Some (subdir_readlink D),
      op_opendir := Some (subdir_opendir D),
      op_readdir := Some (subdir_readdir D),
      op_releasedir := Some (subdir_releasedir D),
      op_mknod := Some (subdir_mknod D),
      op_mkdir := Some (subdir_mkdir D),
      op_symlink := Some (subdir_symlink D),
      op_unlink := Some (subdir_unlink D),
      op_rmdir := Some (subdir_rmdir D),
      op_rename := Some (subdir_rename D),
      op_link := Some (subdir_link D),
      op_chmod := Some (subdir_chmod D),
      op_chown := Some (subdir_chown D),
      op_truncate := Some (subdir_truncate D),
      op_ftruncate := Some (subdir_ftruncate D),
      op_utimens := Some (subdir_utimens D),
      op_create := Some (subdir_create D),
      op_open := Some (subdir_open D),
      op_read_buf := Some (subdir_read_buf D),
      op_write_buf := Some (subdir_write_buf D ops),
      op_statfs := Some (subdir_statfs D),
      op_flush := Some (subdir_flush D),
      op_release := Some (subdir_release D),
      op_fsync := Some (subdir_fsync D),
      op_fsyncdir := Some (subdir_fsyncdir D),
      op_setxattr := Some (subdir_setxattr D),
      op_getxattr := Some (subdir_getxattr D),
      op_listxattr := Some (subdir_listxattr D),
      op_removexattr := Some (subdir_removexattr D),
      op_lock := Some (subdir_lock D),
      op_flock := Some (subdir_flock D),
      op_bmap := Some (subdir_bmap D),
      flag_nullpath_ok := True,
      flag_nopath := True\<rparr>"

section \<open>Making a module\<close>

record subdir_conf =
  sc_base :: "string option"
  sc_rellinks :: int

text \<open>\<^verbatim>\<open>offsetof\<close> of the two fields\<close>

definition OFF_BASE :: nat where "OFF_BASE = 0"
definition OFF_RELLINKS :: nat where "OFF_RELLINKS = 16"

definition put_subdir :: "nat \<Rightarrow> optval \<Rightarrow> subdir_conf \<Rightarrow> subdir_conf" where
  "put_subdir off v c =
     (case v of
        OStr t \<Rightarrow> if off = OFF_BASE then c\<lparr>sc_base := Some t\<rparr> else c
      | OInt i \<Rightarrow> if off = OFF_RELLINKS then c\<lparr>sc_rellinks := i\<rparr> else c)"

definition subdir_opts :: "fuse_opt list" where
  "subdir_opts =
     [FUSE_OPT_KEY ''-h'' 0,
      FUSE_OPT_KEY ''--help'' 0,
      \<lparr>templ = ''subdir=%s'', opt_offset = OFF_BASE, opt_value = 0\<rparr>,
      \<lparr>templ = ''rellinks'', opt_offset = OFF_RELLINKS, opt_value = 1\<rparr>,
      \<lparr>templ = ''norellinks'', opt_offset = OFF_RELLINKS, opt_value = 0\<rparr>]"

definition tab :: char where "tab = char_of (9::nat)"

definition subdir_help :: "oenv \<Rightarrow> oenv" where
  "subdir_help e = e\<lparr>oerr := oerr e @
     [''    -o subdir=DIR'' @ [tab] @ ''    prepend this directory to all paths (mandatory)'' @ [newline] @
      ''    -o [no]rellinks'' @ [tab] @ ''    transform absolute symlinks to relative'' @ [newline]]\<rparr>"

definition subdir_opt_proc :: "string \<Rightarrow> int \<Rightarrow> subdir_conf optst \<Rightarrow> (int \<times> subdir_conf optst) res" where
  "subdir_opt_proc arg key st =
     (if key = 0 then Inr (- 1, st\<lparr>oenv := subdir_help (oenv st)\<rparr>) else Inr (1, st))"

text \<open>A base directory that is not empty gets a slash at its end.\<close>

definition add_slash :: "string \<Rightarrow> oenv \<Rightarrow> string option \<times> oenv" where
  "add_slash t e =
     (if t \<noteq> [] \<and> last t \<noteq> CHR ''/''
      then
        (case alloc e of
           (False, e1) \<Rightarrow> (None, print_err ''fuse-subdir: memory allocation failed'' e1)
         | (True, e1) \<Rightarrow> (Some (t @ ''/''), e1))
      else (Some t, e))"

text \<open>
  \<^verbatim>\<open>subdir_new\<close>: the structure for the address \<open>a\<close> that it is allocated at, with the file system that
  calls it. The last allocation is that of \<^verbatim>\<open>fuse_fs_new\<close>.
\<close>

definition subdir_new ::
  "'w subdir_store \<Rightarrow> 'w fdops \<Rightarrow> 'w compat_operations \<Rightarrow> nat \<Rightarrow> fuse_args option \<Rightarrow> 'w fuse_fs list \<Rightarrow> oenv \<Rightarrow>
     (('w subdir \<times> 'w fuse_fs) option \<times> fuse_args option \<times> oenv) res" where
  "subdir_new D ops cops a args nexts e =
     (case alloc e of
        (False, e1) \<Rightarrow> Inr (None, args, print_err ''fuse-subdir: memory allocation failed'' e1)
      | (True, e1) \<Rightarrow>
          bind_res (fuse_opt_parse put_subdir (\<lambda>_ _. None) args \<lparr>sc_base = None, sc_rellinks = 0\<rparr> subdir_opts
              (Some subdir_opt_proc) e1) (\<lambda>(r, args1, c, e2).
          if r = - 1 then Inr (None, args1, e2)
          else
            (case nexts of
               [next] \<Rightarrow>
                 (case sc_base c of
                    None \<Rightarrow> Inr (None, args1, print_err ''fuse-subdir: missing 'subdir' option'' e2)
                  | Some t \<Rightarrow>
                      (case add_slash t e2 of
                         (None, e3) \<Rightarrow> Inr (None, args1, e3)
                       | (Some base, e3) \<Rightarrow>
                           (case alloc e3 of
                              (False, e4) \<Rightarrow> Inr (None, args1, print_err ''fuse: failed to allocate fuse_fs object'' e4)
                            | (True, e4) \<Rightarrow>
                                Inr (Some (\<lparr>sd_base = base, sd_baselen = length base, sd_rellinks = sc_rellinks c \<noteq> 0,
                                            sd_next = next\<rparr>,
                                           \<lparr>fs_op = subdir_oper D ops, fs_compat_op = cops, fs_user_data = a,
                                            fs_compat = 0, fs_debug = False\<rparr>), args1, e4))))
             | _ \<Rightarrow> Inr (None, args1, print_err ''fuse-subdir: exactly one next filesystem required'' e2))))"

end
