(* ===== verification/Subdir_Props.thy ===== *)
theory Subdir_Props
  imports Fuse_Subdir
begin

text \<open>
  Properties of the module: a link that is made relative still points to the same file, and a new
  module has a base directory that ends in a slash and joins paths to it without an overrun.
\<close>

section \<open>Components of a path\<close>

text \<open>The names between the slashes.\<close>

function comps :: "string \<Rightarrow> string list" where
  "comps t = (case drop_slashes t of [] \<Rightarrow> []
     | c # cs \<Rightarrow> takeWhile (\<lambda>x. x \<noteq> CHR ''/'') (c # cs) # comps (drop_name (c # cs)))"
  by pat_completeness auto
termination
proof (relation "measure length", goal_cases)
  case (2 t c cs)
  then have "c \<noteq> CHR ''/''" by (rule drop_slashes_Cons)
  then have "length (drop_name (c # cs)) < length (drop_slashes t)"
    using drop_name_Cons_less 2 by simp
  then show ?case using length_drop_slashes [of t] by simp
qed simp

declare comps.simps [simp del]

lemma drop_slashes_idem [simp]: "drop_slashes (drop_slashes t) = drop_slashes t"
  by (simp add: drop_slashes_def)

lemma comps_drop_slashes: "comps (drop_slashes t) = comps t"
  by (subst (1 2) comps.simps) simp

lemma components_loop_comps: "components_loop (drop_slashes t) = length (comps t)"
proof (induction t rule: comps.induct)
  case (1 t)
  show ?case
  proof (cases "drop_slashes t")
    case Nil
    then show ?thesis by (simp add: comps.simps [of t])
  next
    case (Cons c cs)
    then show ?thesis using "1" [OF Cons] by (simp add: comps.simps [of t])
  qed
qed

lemma count_components_comps: "count_components t = length (comps t)"
  by (simp add: count_components_def components_loop_comps)

text \<open>A name in front of a string that is empty or starts with a slash.\<close>

lemma comps_name:
  assumes "CHR ''/'' \<notin> set u" "u \<noteq> []" "r = [] \<or> hd r = CHR ''/''"
  shows "comps (u @ r) = u # comps r"
proof -
  obtain c cs where u: "u = c # cs" "c \<noteq> CHR ''/''" using assms(1,2) by (cases u) auto
  then have "drop_slashes (u @ r) = u @ r" by (simp add: drop_slashes_def)
  moreover have "takeWhile (\<lambda>x. x \<noteq> CHR ''/'') (u @ r) = u" "drop_name (u @ r) = r"
    using assms(1,3) by (cases r; fastforce simp: drop_name_def takeWhile_append dropWhile_append)+
  ultimately show ?thesis using u by (subst comps.simps) simp
qed

lemma char_at_0: "char_at x 0 = (if x = [] then NUL else hd x)"
  by (cases x) (simp_all add: char_at_def)

lemma strip_common_comps:
  assumes "NUL \<notin> set s" "NUL \<notin> set t" "strip_common s t = (s', t')"
  shows "\<exists>c. comps s = c @ comps s' \<and> comps t = c @ comps t'"
  using assms
proof (induction s t rule: strip_common.induct)
  case (1 s t)
  obtain s1 t1 where sk: "skip_equal (drop_slashes s) (drop_slashes t) = (s1, t1)" by fastforce
  show ?case
  proof (cases "both_at_end s1 t1")
    case False
    then have "s' = drop_slashes s" "t' = drop_slashes t"
      using "1.prems"(3) sk by (simp_all add: strip_common.simps [of s t])
    then show ?thesis by (simp add: comps_drop_slashes)
  next
    case True
    obtain u where u: "drop_slashes s = u @ s1" "drop_slashes t = u @ t1" "CHR ''/'' \<notin> set u" "u \<noteq> []"
      by (rule both_at_end_component [OF sk True])
    have sub: "set (drop_slashes x) \<subseteq> set x" for x by (auto simp: drop_slashes_def dest: set_dropWhileD)
    have nul: "NUL \<notin> set s1" "NUL \<notin> set t1"
      using "1.prems"(1,2) sub [of s] sub [of t] u by auto
    have "s1 \<noteq> [] \<Longrightarrow> hd s1 \<noteq> NUL" "t1 \<noteq> [] \<Longrightarrow> hd t1 \<noteq> NUL" using nul hd_in_set by metis+
    then have ends: "s1 = [] \<or> hd s1 = CHR ''/''" "t1 = [] \<or> hd t1 = CHR ''/''"
      using True skip_equal_stop [OF sk]
      by (auto simp: both_at_end_def char_at_0 NUL_def split: if_splits)
    have "comps s = u # comps s1" "comps t = u # comps t1"
      using comps_name [OF u(3,4) ends(1)] comps_name [OF u(3,4) ends(2)] u(1,2) comps_drop_slashes by metis+
    moreover have "strip_common s1 t1 = (s', t')"
      using "1.prems"(3) sk True by (simp add: strip_common.simps [of s t])
    ultimately show ?thesis
      using "1.IH" [OF sk [symmetric] True nul] by (metis append_Cons)
  qed
qed

text \<open>Following a path from a directory, name by name.\<close>

definition resolve :: "string list \<Rightarrow> string list \<Rightarrow> string list" where
  "resolve dir cs = foldl (\<lambda>d c. if c = ''..'' then butlast d else if c = ''.'' then d else d @ [c]) dir cs"

lemma resolve_append: "resolve dir (xs @ ys) = resolve (resolve dir xs) ys"
  by (simp add: resolve_def)

lemma resolve_plain: "''..'' \<notin> set cs \<Longrightarrow> ''.'' \<notin> set cs \<Longrightarrow> resolve dir cs = dir @ cs"
  by (induction cs arbitrary: dir) (auto simp: resolve_def)

lemma resolve_up: "length ys = k \<Longrightarrow> resolve (xs @ ys) (replicate k ''..'') = xs"
proof (induction k arbitrary: ys)
  case (Suc k)
  then have "butlast (xs @ ys) = xs @ butlast ys" "length (butlast ys) = k"
    by (auto simp: butlast_append)
  then show ?case using Suc.IH [of "butlast ys"] by (simp add: resolve_def)
qed (simp add: resolve_def)

lemma comps_dots: "comps (concat (replicate k ''../'') @ x) = replicate k ''..'' @ comps x"
proof (induction k)
  case (Suc k)
  have "comps (''..'' @ CHR ''/'' # (concat (replicate k ''../'') @ x)) =
      ''..'' # comps (CHR ''/'' # (concat (replicate k ''../'') @ x))"
    by (rule comps_name) simp_all
  also have "comps (CHR ''/'' # (concat (replicate k ''../'') @ x)) = comps (concat (replicate k ''../'') @ x)"
    by (subst (1 2) comps.simps) (simp add: drop_slashes_def)
  finally show ?case using Suc by simp
qed simp

text \<open>
  (C39) An absolute link that is made relative points to the same place: followed from the directory
  that holds the link, the new text leads to where the old text led from the root.
\<close>

theorem relative_link_resolves:
  assumes "relative_link d pn sz l = Some t" "NUL \<notin> set l" "NUL \<notin> set pn" "''..'' \<notin> set (comps pn)" "''.'' \<notin> set (comps pn)"
  shows "resolve (butlast (comps pn)) (comps t) = resolve [] (comps l) \<and> length t + 1 \<le> sz"
proof -
  obtain l' pn' where sc: "strip_common l pn = (l', pn')" by fastforce
  define k where "k = count_components pn' - 1"
  have n: "count_components pn' \<noteq> 0" "k * 3 + length l' + 2 \<le> sz"
    and t: "t = concat (replicate k ''../'') @ (if l' \<noteq> [] then l' else if k = 0 then ''.'' else [])"
    using assms(1) sc by (auto simp: relative_link_def k_def Let_def not_less split: if_splits)
  obtain c where c: "comps l = c @ comps l'" "comps pn = c @ comps pn'"
    using strip_common_comps [OF assms(2,3) sc] by blast
  have "comps pn' \<noteq> []" and k: "length (butlast (comps pn')) = k"
    using n(1) by (auto simp: k_def count_components_comps)
  then have "butlast (comps pn) = c @ butlast (comps pn')" by (simp add: c(2) butlast_append)
  then have up: "resolve (butlast (comps pn)) (replicate k ''..'') = c" using resolve_up [OF k] by simp
  have dot: "comps ''.'' = [''.'']" "comps [] = []"
    using comps_name [of "''.''" "[]"] by (simp_all add: comps.simps [of "[]"] drop_slashes_def)
  have "resolve (butlast (comps pn)) (comps t) = resolve c (comps l')"
    using up dot by (simp add: t comps_dots resolve_append) (simp add: resolve_def)
  moreover have "resolve [] (comps l) = resolve c (comps l')"
    using assms(4,5) resolve_plain [of c "[]"] by (simp add: c resolve_append)
  moreover have "length t + 1 \<le> sz"
    using n(2) by (auto simp: t length_concat sum_list_replicate)
  ultimately show ?thesis by simp
qed

definition null_fs :: "unit fuse_fs" where
  "null_fs = \<lparr>fs_op = no_operations, fs_compat_op =
       \<lparr>c22_open = (\<lambda>_ _ _. Inl NullPointer), c2_open = (\<lambda>_ _ _. Inl NullPointer),
        c2_release = (\<lambda>_ _ _. Inl NullPointer), c22_opendir = (\<lambda>_ _ _. Inl NullPointer),
        c22_statfs = (\<lambda>_ _. Inl NullPointer), c1_statfs = (\<lambda>_ _. Inl NullPointer)\<rparr>,
     fs_user_data = 5, fs_compat = 0, fs_debug = False\<rparr>"

definition sub_b :: "unit subdir" where
  "sub_b = \<lparr>sd_base = ''/b/'', sd_baselen = 3, sd_rellinks = True, sd_next = null_fs\<rparr>"

lemmas comps_eval = comps.simps drop_slashes_def drop_name_def

theorem relative_link_resolves_witness:
  "relative_link sub_b ''/b/x/y'' 20 ''/b/z'' = Some ''../z'' \<and>
   resolve (butlast (comps ''/b/x/y'')) (comps ''../z'') = resolve [] (comps ''/b/z'')"
proof -
  have r: "relative_link sub_b ''/b/x/y'' 20 ''/b/z'' = Some ''../z''"
    by (simp add: relative_link_def sub_b_def char_at_def NUL_def strip_common.simps drop_slashes_def drop_name_def
        both_at_end_def count_components_def)
  have "''..'' \<notin> set (comps ''/b/x/y'')" "''.'' \<notin> set (comps ''/b/x/y'')"
    by (simp_all add: comps_eval)
  then show ?thesis using r relative_link_resolves [OF r] by (simp add: NUL_def)
qed

section \<open>Calling the file system below\<close>

lemma joined_path_length: "length (joined_path d p) \<le> length (sd_base d) + length p + 1"
  by (auto simp: joined_path_def skip_slash_def Let_def split: list.splits)

lemma addpath_cases:
  assumes "sd_baselen d = length (sd_base d)" "length (sd_base d) + length p + 2 < 2 ^ 32"
  shows "subdir_addpath d (Some p) s =
    (case malloc (length (sd_base d) + length p + 2) s of
       (None, s1) \<Rightarrow> Inr (- ENOMEM, None, s1) | (Some a, s1) \<Rightarrow> Inr (0, Some (a, joined_path d p), s1))"
  using assms joined_path_length [of d p]
  by (simp add: subdir_addpath_def mod_less split: prod.split option.split)

definition sub_store :: "unit subdir_store" where
  "sub_store = \<lparr>sd_get = (\<lambda>a w. Some sub_b), sd_put = (\<lambda>a d w. w), sd_delete = (\<lambda>a w. w)\<rparr>"

definition sub_state :: "nat \<Rightarrow> unit fstate" where
  "sub_state k = \<lparr>private_data = 1, ctx_umask = 0, stderr = [], mheap = Map.empty, mnext = 2, mfree = k, world = ()\<rparr>"

section \<open>A new module\<close>

text \<open>
  (C40) A module that was made has a base directory that is empty or ends in a slash and whose length
  is recorded, so that every path is joined to it without overrunning memory as long as the two
  lengths and the two bytes behind them add up to less than \<open>2 ^ 32\<close>, where the size that \<^verbatim>\<open>malloc\<close> is
  asked for would wrap. Its file system calls the operations of the module.
\<close>

theorem subdir_new_well_formed:
  assumes "subdir_new D ops cops a args nexts e = Inr (Some (d, fs), args', e')"
    "length (sd_base d) + length p + 2 < 2 ^ 32"
  shows "(sd_base d = [] \<or> last (sd_base d) = CHR ''/'') \<and> sd_baselen d = length (sd_base d) \<and> nexts = [sd_next d] \<and>
    fs_op fs = subdir_oper D ops \<and> fs_user_data fs = a \<and>
    (\<exists>r. subdir_addpath d (Some p) s = Inr r)"
proof -
  obtain t e2 e3 where t: "add_slash t e2 = (Some (sd_base d), e3)" and f: "sd_baselen d = length (sd_base d)"
    "nexts = [sd_next d]" "fs_op fs = subdir_oper D ops" "fs_user_data fs = a"
    using assms(1)
    by (auto simp: subdir_new_def res_iffs split: prod.splits bool.splits if_splits list.splits option.splits)
  have "sd_base d = [] \<or> last (sd_base d) = CHR ''/''"
    using t by (auto simp: add_slash_def split: if_splits prod.splits bool.splits) (metis last_snoc)
  moreover have "\<exists>r. subdir_addpath d (Some p) s = Inr r"
    using addpath_cases [OF f(1) assms(2)] by (simp split: prod.split option.split)
  ultimately show ?thesis using f by simp
qed

lemma find_subdir:
  "find_opt subdir_opts ''subdir=/b'' = Some (subdir_opts ! 2, drop 3 subdir_opts, 6)"
  "find_opt (drop 3 subdir_opts) ''subdir=/b'' = None"
  by (simp_all add: subdir_opts_def FUSE_OPT_KEY_def match_template_def template_sep_def strchr_def char_at_def NUL_def
      nth_Cons')

definition sub_env :: oenv where "sub_env = \<lparr>allocs = [], oerr = []\<rparr>"

lemma subdir_new_example:
  "subdir_new sub_store ops cops 1 (Some (FUSE_ARGS_INIT [''p'', ''-osubdir=/b''])) [null_fs] sub_env =
    Inr (Some (sub_b\<lparr>sd_rellinks := False\<rparr>, \<lparr>fs_op = subdir_oper sub_store ops, fs_compat_op = cops, fs_user_data = 1,
       fs_compat = 0, fs_debug = False\<rparr>), Some \<lparr>args_argv = Some [''p''], allocated = True\<rparr>, sub_env)"
proof -
  have a: "alloc sub_env = (True, sub_env)" by (simp add: alloc_def sub_env_def)
  have "process_gopt \<lparr>sp_put = put_subdir, sp_scan = \<lambda>_ _. None, sp_opts = subdir_opts, sp_proc = Some subdir_opt_proc,
      sp_argv = [''p'', ''-osubdir=/b'']\<rparr> ''subdir=/b'' True ctx = Inr (0, ctx\<lparr>ost := (ost ctx)\<lparr>odata := (odata (ost ctx))\<lparr>sc_base := Some ''/b''\<rparr>\<rparr>\<rparr>)"
    if "oenv (ost ctx) = sub_env" for ctx :: "subdir_conf octx"
    using find_subdir that a
    by (simp add: process_gopt_def gopt_loop.simps process_opt_def process_opt_param_def ctx_put_def ctx_env_def
        put_subdir_def subdir_opts_def OFF_BASE_def KEY_OFFSET_def char_at_def NUL_def)
  note g = this
  show ?thesis
    using a
    by (simp add: subdir_new_def fuse_opt_parse_def FUSE_ARGS_INIT_def arg_list_def opt_parse_def init_ctx_def
        add_arg_def fuse_opt_add_arg_def parse_args.simps process_one_def char_at_def NUL_def process_option_group_def
        option_group_loop.simps c_string_def g ctx_env_def insert_opts_def drop_separator_def add_slash_def sub_b_def)
qed

theorem subdir_new_well_formed_witness:
  "\<forall>ops cops. \<exists>d fs args' e'.
    subdir_new sub_store ops cops 1 (Some (FUSE_ARGS_INIT [''p'', ''-osubdir=/b''])) [null_fs] sub_env =
      Inr (Some (d, fs), args', e') \<and> last (sd_base d) = CHR ''/'' \<and>
    (\<exists>r. subdir_addpath d (Some ''/x'') (sub_state 9) = Inr r)"
proof (intro allI)
  fix ops cops
  have "length (sd_base (sub_b\<lparr>sd_rellinks := False\<rparr>)) + length ''/x'' + 2 < 2 ^ 32" by (simp add: sub_b_def)
  from subdir_new_well_formed [OF subdir_new_example this, of ops cops "sub_state 9"]
  show "\<exists>d fs args' e'.
    subdir_new sub_store ops cops 1 (Some (FUSE_ARGS_INIT [''p'', ''-osubdir=/b''])) [null_fs] sub_env =
      Inr (Some (d, fs), args', e') \<and> last (sd_base d) = CHR ''/'' \<and>
    (\<exists>r. subdir_addpath d (Some ''/x'') (sub_state 9) = Inr r)"
    using subdir_new_example by (fastforce simp: sub_b_def)
qed

end
