(* ===== verification/Node_Table.thy ===== *)
theory Node_Table
  imports CFS_Prelude "HOL-Library.Multiset"
begin

text \<open>
  The hash tables of \<^verbatim>\<open>lib/fuse.c\<close> that find a node by its number or by its parent and name. They
  grow and shrink one bucket at a time (linear hashing): below the mark \<open>split\<close> a bucket is
  already divided. A chain of nodes is the list of their addresses. Both tables run the same code;
  the hash of a node is the argument \<open>raw\<close>.
\<close>

section \<open>The table\<close>

record node_table =
  tb_array :: "nat list list"
  tb_use :: nat
  tb_size :: nat
  tb_split :: nat

definition NODE_TABLE_MIN_SIZE :: nat where "NODE_TABLE_MIN_SIZE = 8192"

definition node_table_init :: node_table where
  "node_table_init = \<lparr>tb_array = replicate NODE_TABLE_MIN_SIZE [], tb_use = 0, tb_size = NODE_TABLE_MIN_SIZE, tb_split = 0\<rparr>"

text \<open>The bucket of a hash, the end of \<^verbatim>\<open>id_hash\<close> and \<^verbatim>\<open>name_hash\<close>.\<close>

definition slot :: "node_table \<Rightarrow> nat \<Rightarrow> nat" where
  "slot t h =
     (let hash = h mod tb_size t; oldhash = hash mod (tb_size t div 2) in
      if tb_split t \<le> oldhash then oldhash else hash)"

text \<open>\<open>ok\<close> says whether \<^verbatim>\<open>realloc\<close> succeeds: when it fails the larger array is kept.\<close>

definition node_table_reduce :: "bool \<Rightarrow> node_table \<Rightarrow> node_table" where
  "node_table_reduce ok t =
     (let newsize = tb_size t div 2 in
      if newsize < NODE_TABLE_MIN_SIZE then t
      else t\<lparr>tb_array := (if ok then take newsize (tb_array t) else tb_array t), tb_size := newsize,
             tb_split := newsize div 2\<rparr>)"

text \<open>At most eight buckets are looked at, and one that is not empty is joined to its lower half.\<close>

fun remerge_loop :: "nat \<Rightarrow> node_table \<Rightarrow> node_table" where
  "remerge_loop 0 t = t"
| "remerge_loop (Suc iter) t =
     (if tb_split t = 0 then t
      else
        (let s = tb_split t - 1; u = s + tb_size t div 2; upper = tb_array t ! u; t1 = t\<lparr>tb_split := s\<rparr> in
         if upper \<noteq> [] then t1\<lparr>tb_array := (tb_array t)[s := tb_array t ! s @ upper, u := []]\<rparr>
         else remerge_loop iter t1))"

definition remerge :: "bool \<Rightarrow> node_table \<Rightarrow> node_table" where
  "remerge ok t = remerge_loop 8 (if tb_split t = 0 then node_table_reduce ok t else t)"

definition node_table_resize :: "bool \<Rightarrow> node_table \<Rightarrow> node_table" where
  "node_table_resize ok t =
     (if \<not> ok then t
      else t\<lparr>tb_array := take (tb_size t) (tb_array t) @ replicate (tb_size t) [], tb_size := tb_size t * 2, tb_split := 0\<rparr>)"

text \<open>The nodes of one bucket are distributed; a node that moves goes to the head of its new chain.\<close>

fun rehash_loop :: "(nat \<Rightarrow> nat) \<Rightarrow> nat \<Rightarrow> nat list \<Rightarrow> node_table \<Rightarrow> node_table" where
  "rehash_loop raw hash [] t = t"
| "rehash_loop raw hash (n # ns) t =
     (let newhash = slot t (raw n) in
      if newhash \<noteq> hash
      then
        (let a = (tb_array t)[hash := remove1 n (tb_array t ! hash)] in
         rehash_loop raw hash ns (t\<lparr>tb_array := a[newhash := n # a ! newhash]\<rparr>))
      else rehash_loop raw hash ns t)"

definition rehash :: "bool \<Rightarrow> (nat \<Rightarrow> nat) \<Rightarrow> node_table \<Rightarrow> node_table" where
  "rehash ok raw t =
     (if tb_split t = tb_size t div 2 then t
      else
        (let hash = tb_split t; t1 = t\<lparr>tb_split := hash + 1\<rparr>;
             t2 = rehash_loop raw hash (tb_array t1 ! hash) t1 in
         if tb_split t2 = tb_size t2 div 2 then node_table_resize ok t2 else t2))"

definition table_insert :: "bool \<Rightarrow> (nat \<Rightarrow> nat) \<Rightarrow> nat \<Rightarrow> node_table \<Rightarrow> node_table" where
  "table_insert ok raw n t =
     (let hash = slot t (raw n);
          t1 = t\<lparr>tb_array := (tb_array t)[hash := n # tb_array t ! hash], tb_use := tb_use t + 1\<rparr> in
      if tb_size t1 div 2 \<le> tb_use t1 then rehash ok raw t1 else t1)"

text \<open>
  Taking a node out of its chain, \<^const>\<open>None\<close> when it is not there, and counting it out. The count
  is positive then: it counts the nodes of the table and those just taken out.
\<close>

definition table_unlink :: "(nat \<Rightarrow> nat) \<Rightarrow> nat \<Rightarrow> node_table \<Rightarrow> node_table option" where
  "table_unlink raw n t =
     (let hash = slot t (raw n) in
      if n \<in> set (tb_array t ! hash)
      then Some (t\<lparr>tb_array := (tb_array t)[hash := remove1 n (tb_array t ! hash)]\<rparr>)
      else None)"

definition table_release :: "bool \<Rightarrow> node_table \<Rightarrow> node_table" where
  "table_release ok t =
     (let t1 = t\<lparr>tb_use := tb_use t - 1\<rparr> in
      if tb_use t1 < tb_size t1 div 4 then remerge ok t1 else t1)"

definition table_find :: "(nat \<Rightarrow> bool) \<Rightarrow> nat \<Rightarrow> node_table \<Rightarrow> nat option" where
  "table_find P h t = List.find P (tb_array t ! slot t h)"

section \<open>The invariant\<close>

definition members :: "node_table \<Rightarrow> nat set" where
  "members t = set (concat (tb_array t))"

text \<open>
  The size is a power of two, at least the minimum; the array has room for it; every node is in
  the bucket of its hash, once; and the count is right, but for \<open>k\<close> nodes that were taken out of
  their chains and not yet counted out.
\<close>

definition table_shape :: "node_table \<Rightarrow> bool" where
  "table_shape t \<longleftrightarrow> (\<exists>k. tb_size t = 2 ^ k) \<and> NODE_TABLE_MIN_SIZE \<le> tb_size t \<and> tb_size t \<le> length (tb_array t) \<and>
     tb_split t \<le> tb_size t div 2"

definition table_inv :: "(nat \<Rightarrow> nat) \<Rightarrow> nat \<Rightarrow> node_table \<Rightarrow> bool" where
  "table_inv raw k t \<longleftrightarrow> table_shape t \<and>
     (\<forall>i < length (tb_array t). \<forall>n \<in> set (tb_array t ! i). slot t (raw n) = i) \<and>
     distinct (concat (tb_array t)) \<and> tb_use t = length (concat (tb_array t)) + k"

lemma shape_half:
  assumes "table_shape t"
  obtains m where "tb_size t = 2 * m" "tb_size t div 2 = m" "4096 \<le> m" "even m" "tb_split t \<le> m" "2 * m \<le> length (tb_array t)"
proof -
  obtain k where k: "tb_size t = 2 ^ k" "8192 \<le> (2 :: nat) ^ k"
    using assms by (auto simp: table_shape_def NODE_TABLE_MIN_SIZE_def)
  have "\<not> k < 2"
  proof
    assume "k < 2"
    then have "(2 :: nat) ^ k \<le> 2 ^ 2" by (intro power_increasing) simp_all
    then show False using k(2) by simp
  qed
  then obtain j where j: "k = Suc (Suc j)" by (metis add_2_eq_Suc le_Suc_ex not_less)
  then show thesis
    using k assms that [of "2 * 2 ^ j"] by (simp add: table_shape_def)
qed

lemma slot_cases:
  assumes "tb_size t = 2 * m" "0 < m"
  shows "slot t h = (if tb_split t \<le> h mod m then h mod m else h mod (2 * m))"
  using assms by (simp add: slot_def mod_mod_cancel)

lemma slot_less: "table_shape t \<Longrightarrow> slot t h < tb_size t"
  by (erule shape_half) (auto simp: slot_cases intro: less_le_trans [OF mod_less_divisor])

lemma slot_in_array: "table_shape t \<Longrightarrow> slot t h < length (tb_array t)"
  using slot_less [of t h] by (simp add: table_shape_def)

text \<open>Doubling the modulus keeps the residue or adds the old modulus to it.\<close>

lemma mod_double:
  assumes "0 < (m :: nat)"
  shows "h mod (2 * m) = h mod m \<or> h mod (2 * m) = h mod m + m"
proof -
  have "h mod (m * 2) = m * (h div m mod 2) + h mod m"
    by (rule mod_mult2_eq)
  moreover have "h div m mod 2 = 0 \<or> h div m mod 2 = 1"
    by linarith
  ultimately show ?thesis
    by (auto simp: mult.commute)
qed

lemma mod_not_ge: "0 < (m :: nat) \<Longrightarrow> \<not> m \<le> h mod m"
  by (simp add: not_le)

section \<open>Moving nodes between chains\<close>

lemma mset_concat_update:
  "i < length xs \<Longrightarrow> mset (concat (xs[i := ys])) + mset (xs ! i) = mset (concat xs) + mset ys"
  by (induction xs arbitrary: i) (auto split: nat.split)

lemma mset_concat_push:
  "i < length xs \<Longrightarrow> mset (concat (xs[i := n # xs ! i])) = add_mset n (mset (concat xs))"
  using mset_concat_update [of i xs "n # xs ! i"] by simp

lemma mset_concat_pull:
  assumes "i < length xs" "n \<in> set (xs ! i)"
  shows "add_mset n (mset (concat (xs[i := remove1 n (xs ! i)]))) = mset (concat xs)"
proof -
  obtain Y where Y: "mset (xs ! i) = add_mset n Y"
    using assms(2) by (metis multi_member_split set_mset_mset)
  then show ?thesis
    using mset_concat_update [OF assms(1), of "remove1 n (xs ! i)"] by simp
qed

lemma concat_update_mem: "i < length xs \<Longrightarrow> n \<in> set (xs ! i) \<Longrightarrow> n \<in> set (concat xs)"
  by (auto intro: nth_mem)

lemma distinct_bucket: "distinct (concat xs) \<Longrightarrow> i < length xs \<Longrightarrow> distinct (xs ! i)"
  by (induction xs arbitrary: i) (auto split: nat.split simp: nth_Cons)

text \<open>Every node but those still to be moved is in the bucket of its hash.\<close>

definition placed :: "(nat \<Rightarrow> nat) \<Rightarrow> (nat \<times> nat) set \<Rightarrow> node_table \<Rightarrow> bool" where
  "placed raw W t \<longleftrightarrow> (\<forall>i < length (tb_array t). \<forall>n \<in> set (tb_array t ! i). (i, n) \<in> W \<or> slot t (raw n) = i)"

lemma table_inv_alt:
  "table_inv raw k t \<longleftrightarrow>
     table_shape t \<and> placed raw {} t \<and> distinct (concat (tb_array t)) \<and> tb_use t = length (concat (tb_array t)) + k"
  by (simp add: table_inv_def placed_def)

lemma members_alt: "members t = set_mset (mset (concat (tb_array t)))"
  by (simp add: members_def)

text \<open>
  An operation that keeps the multiset of nodes, the count, the shape and the placement keeps
  the invariant and the set of nodes.
\<close>

definition keeps :: "(nat \<Rightarrow> nat) \<Rightarrow> node_table \<Rightarrow> node_table \<Rightarrow> bool" where
  "keeps raw t t' \<longleftrightarrow> table_shape t' \<and> placed raw {} t' \<and> mset (concat (tb_array t')) = mset (concat (tb_array t)) \<and>
     tb_use t' = tb_use t"

lemma keepsI:
  "table_shape t' \<Longrightarrow> placed raw {} t' \<Longrightarrow> mset (concat (tb_array t')) = mset (concat (tb_array t)) \<Longrightarrow>
   tb_use t' = tb_use t \<Longrightarrow> keeps raw t t'"
  by (simp add: keeps_def)

lemma keeps_trans: "keeps raw t u \<Longrightarrow> keeps raw u v \<Longrightarrow> keeps raw t v"
  by (simp add: keeps_def)

lemma keeps_refl: "table_shape t \<Longrightarrow> placed raw {} t \<Longrightarrow> keeps raw t t"
  by (simp add: keeps_def)

lemma keeps_ok:
  assumes "keeps raw t t'" "distinct (concat (tb_array t))" "tb_use t = length (concat (tb_array t)) + k"
  shows "table_inv raw k t'" "members t' = members t"
proof -
  have m: "mset (concat (tb_array t')) = mset (concat (tb_array t))"
    using assms(1) by (simp add: keeps_def)
  then show "table_inv raw k t'"
    using assms mset_eq_imp_distinct_iff [OF m] mset_eq_length [OF m]
    by (simp add: keeps_def table_inv_alt)
  show "members t' = members t"
    using m by (simp add: members_alt del: set_mset_mset)
qed

section \<open>Shrinking\<close>

text \<open>Above the half size an unsplit table is empty, so cutting the array loses no node.\<close>

lemma concat_take_empty:
  "(\<And>i. k \<le> i \<Longrightarrow> i < length xs \<Longrightarrow> xs ! i = []) \<Longrightarrow> concat (take k xs) = concat xs"
proof -
  assume e: "\<And>i. k \<le> i \<Longrightarrow> i < length xs \<Longrightarrow> xs ! i = []"
  have "concat (drop k xs) = []"
    by (auto simp: in_set_conv_nth e)
  then show ?thesis
    by (metis append_Nil2 append_take_drop_id concat_append)
qed

lemma placed_above:
  assumes "placed raw {} t" "i < length (tb_array t)" "\<And>h. slot t h < k" "k \<le> i"
  shows "tb_array t ! i = []"
proof (rule ccontr)
  assume "tb_array t ! i \<noteq> []"
  then obtain n where "n \<in> set (tb_array t ! i)"
    using list.set_sel(1) by blast
  then have "slot t (raw n) = i"
    using assms(1,2) by (auto simp: placed_def)
  then show False
    using assms(3) [of "raw n"] assms(4) by simp
qed

lemma placed_same_slots:
  assumes "placed raw {} t" "\<And>h. slot t' h = slot t h" "tb_array t' = take k (tb_array t) @ replicate j []"
  shows "placed raw {} t'"
  using assms by (auto simp: placed_def nth_append)

lemma node_table_reduce_keeps:
  assumes "table_shape t" "placed raw {} t" "tb_split t = 0"
  shows "keeps raw t (node_table_reduce ok t)"
proof (cases "tb_size t div 2 < NODE_TABLE_MIN_SIZE")
  case True
  then show ?thesis
    using assms by (simp add: node_table_reduce_def keeps_refl)
next
  case False
  obtain m where m: "tb_size t = 2 * m" "4096 \<le> m" "even m" "2 * m \<le> length (tb_array t)"
    using assms(1) by (elim shape_half)
  obtain j where j: "m = 2 * j" using m(3) by (elim evenE)
  have s: "slot t h = h mod m" for h
    using assms(3) m by (simp add: slot_cases)
  define t' where "t' = node_table_reduce ok t"
  have t': "tb_size t' = m" "tb_split t' = j" "tb_use t' = tb_use t"
    "tb_array t' = (if ok then take m (tb_array t) else tb_array t)"
    using False m j by (simp_all add: t'_def node_table_reduce_def Let_def)
  have s': "slot t' h = h mod m" for h
    using t'(1,2) j m(2) mod_not_ge [of j h] by (simp add: slot_cases [of t' j])
  have e: "concat (take m (tb_array t)) = concat (tb_array t)"
    using m(2) by (intro concat_take_empty placed_above [OF assms(2), of _ m]) (simp_all add: s)
  have "\<exists>k. 2 * m = 2 ^ k" using assms(1) m(1) by (simp add: table_shape_def)
  then obtain k where k: "2 * m = 2 ^ k" by blast
  have "k \<noteq> 0" using k m(2) by (intro notI) simp
  then have "\<exists>k. m = 2 ^ k" using k by (cases k) auto
  then have sh: "table_shape t'"
    using False m j t' by (auto simp: table_shape_def)
  have p: "placed raw {} t'"
    using assms(2) by (auto simp: placed_def s s' t'(4))
  show ?thesis
    unfolding t'_def [symmetric] using sh p by (rule keepsI) (simp_all add: t' e)
qed

text \<open>Lowering the mark by one joins the two buckets of one residue and leaves the others.\<close>

lemma slot_step:
  assumes "tb_size t = 2 * m" "tb_size t' = 2 * m" "0 < m" "tb_split t' = s" "tb_split t = Suc s"
  shows "slot t' h = (if h mod m = s then s else slot t h)"
  using assms by (auto simp: slot_cases [OF assms(1)] slot_cases [OF assms(2)])

lemma slot_split_pair:
  assumes "tb_size t = 2 * m" "0 < m" "tb_split t = Suc s" "s < m"
  shows "h mod m = s \<longleftrightarrow> slot t h = s \<or> slot t h = s + m"
  using assms mod_double [of m h] mod_not_ge [of m h] by (auto simp: slot_cases)

lemma remerge_step:
  fixes t :: node_table
  assumes sh: "table_shape t" and pl: "placed raw {} t" and s: "tb_split t = Suc s"
  defines "u \<equiv> s + tb_size t div 2"
  defines "t' \<equiv> t\<lparr>tb_split := s, tb_array := (tb_array t)[s := tb_array t ! s @ tb_array t ! u, u := []]\<rparr>"
  shows "keeps raw t t'"
proof -
  obtain m where m: "tb_size t = 2 * m" "tb_size t div 2 = m" "4096 \<le> m" "tb_split t \<le> m" "2 * m \<le> length (tb_array t)"
    using sh by (elim shape_half)
  have len: "s < length (tb_array t)" "u < length (tb_array t)" "s \<noteq> u" and u: "u = s + m"
    using m s by (auto simp: u_def)
  have sl: "slot t' h = (if h mod m = s then s else slot t h)" for h
    using m s by (intro slot_step) (simp_all add: t'_def)
  have pr: "h mod m = s \<longleftrightarrow> slot t h = s \<or> slot t h = u" for h
    unfolding u using m s by (intro slot_split_pair) simp_all
  have "table_shape t'"
    using sh s by (simp add: table_shape_def t'_def)
  moreover have "placed raw {} t'"
    unfolding placed_def
  proof (intro allI impI ballI disjI2)
    fix i n
    assume i: "i < length (tb_array t')" and n: "n \<in> set (tb_array t' ! i)"
    show "slot t' (raw n) = i"
      using i n pl len pr [of "raw n"] unfolding placed_def sl
      by (auto simp: t'_def nth_list_update split: if_splits)
  qed
  moreover have "mset (concat (tb_array t')) = mset (concat (tb_array t))"
    using mset_concat_update [of s "tb_array t" "tb_array t ! s @ tb_array t ! u"]
      mset_concat_update [of u "(tb_array t)[s := tb_array t ! s @ tb_array t ! u]" "[]"] len
    by (simp add: t'_def)
  ultimately show ?thesis
    by (simp add: keeps_def t'_def)
qed

lemma join_empty: "xs ! u = [] \<Longrightarrow> xs[s := xs ! s @ xs ! u, u := []] = xs"
  by (metis append_Nil2 list_update_id)

lemma remerge_loop_keeps:
  "table_shape t \<Longrightarrow> placed raw {} t \<Longrightarrow> keeps raw t (remerge_loop k t)"
proof (induction k arbitrary: t)
  case 0
  then show ?case by (simp add: keeps_refl)
next
  case (Suc iter)
  show ?case
  proof (cases "tb_split t")
    case 0
    then show ?thesis using Suc by (simp add: keeps_refl)
  next
    fix s
    assume s: "tb_split t = Suc s"
    define u where "u = s + tb_size t div 2"
    have k: "keeps raw t (t\<lparr>tb_split := s, tb_array := (tb_array t)[s := tb_array t ! s @ tb_array t ! u, u := []]\<rparr>)"
      unfolding u_def using Suc.prems s by (rule remerge_step)
    show ?thesis
    proof (cases "tb_array t ! u = []")
      case True
      define t1 where "t1 = t\<lparr>tb_split := s\<rparr>"
      have "t\<lparr>tb_split := s, tb_array := tb_array t\<rparr> = t1" by (simp add: t1_def)
      with k have k1: "keeps raw t t1"
        unfolding join_empty [OF True] by (rule subst [rotated])
      then have "keeps raw t1 (remerge_loop iter t1)"
        by (intro Suc.IH) (simp_all add: keeps_def)
      then show ?thesis
        using keeps_trans [OF k1] s True by (simp add: Let_def u_def t1_def)
    next
      case False
      then show ?thesis using k s by (simp add: Let_def u_def)
    qed
  qed
qed

lemma remerge_keeps:
  assumes "table_shape t" "placed raw {} t"
  shows "keeps raw t (remerge ok t)"
proof -
  define t1 where "t1 = (if tb_split t = 0 then node_table_reduce ok t else t)"
  have k: "keeps raw t t1"
    using assms by (simp add: t1_def node_table_reduce_keeps keeps_refl)
  then have "keeps raw t1 (remerge_loop 8 t1)"
    by (intro remerge_loop_keeps) (simp_all add: keeps_def)
  with k show ?thesis
    unfolding remerge_def t1_def by (rule keeps_trans)
qed

section \<open>Growing\<close>

lemma node_table_resize_keeps:
  assumes "table_shape t" "placed raw {} t" "tb_split t = tb_size t div 2"
  shows "keeps raw t (node_table_resize ok t)"
proof (cases ok)
  case False
  then show ?thesis using assms by (simp add: node_table_resize_def keeps_refl)
next
  case True
  obtain m where m: "tb_size t = 2 * m" "4096 \<le> m" "tb_split t = m" "2 * m \<le> length (tb_array t)"
    using assms by (elim shape_half) simp
  define t' where "t' = node_table_resize ok t"
  have t': "tb_size t' = 2 * (2 * m)" "tb_split t' = 0" "tb_use t' = tb_use t"
    "tb_array t' = take (2 * m) (tb_array t) @ replicate (2 * m) []"
    using True m by (simp_all add: t'_def node_table_resize_def)
  have s: "slot t h = h mod (2 * m)" for h
    using m mod_not_ge [of m h] by (simp add: slot_cases)
  have s': "slot t' h = h mod (2 * m)" for h
    using t'(1,2) m(2) by (simp add: slot_cases [of t' "2 * m"])
  have e: "concat (take (2 * m) (tb_array t)) = concat (tb_array t)"
    using m(2) by (intro concat_take_empty placed_above [OF assms(2), of _ "2 * m"]) (simp_all add: s)
  obtain k where "tb_size t = 2 ^ k" using assms(1) by (auto simp: table_shape_def)
  then have "tb_size t' = 2 ^ Suc k" using m(1) t'(1) by simp
  then have "\<exists>k. tb_size t' = 2 ^ k" by blast
  then have "table_shape t'"
    using assms(1) m t' by (simp add: table_shape_def)
  moreover have "placed raw {} t'"
    by (rule placed_same_slots [OF assms(2) _ t'(4)]) (simp add: s s')
  ultimately show ?thesis
    unfolding t'_def [symmetric] by (rule keepsI) (simp_all add: t' e)
qed

lemma slot_array_update [simp]: "slot (t\<lparr>tb_array := a\<rparr>) h = slot t h"
  by (simp add: slot_def)

lemma slot_use_update [simp]: "slot (t\<lparr>tb_use := a\<rparr>) h = slot t h"
  by (simp add: slot_def)

lemma shape_array_update [simp]:
  "length a = length (tb_array t) \<Longrightarrow> table_shape (t\<lparr>tb_array := a\<rparr>) = table_shape t"
  by (simp add: table_shape_def)

lemma shape_use_update [simp]: "table_shape (t\<lparr>tb_use := a\<rparr>) = table_shape t"
  by (simp add: table_shape_def)

text \<open>
  The loop of a split: what is still in the list and in the bucket may be misplaced, everything
  else is where it belongs.
\<close>

lemma rehash_move:
  fixes t :: node_table
  assumes pl: "placed raw ({hash} \<times> set (n # ns)) t" and n: "n \<in> set (tb_array t ! hash)"
    and d: "distinct (tb_array t ! hash)" and len: "hash < length (tb_array t)" "slot t (raw n) < length (tb_array t)"
    and ne: "slot t (raw n) \<noteq> hash"
  defines "a \<equiv> (tb_array t)[hash := remove1 n (tb_array t ! hash)]"
  defines "t' \<equiv> t\<lparr>tb_array := a[slot t (raw n) := n # a ! slot t (raw n)]\<rparr>"
  shows "placed raw ({hash} \<times> set ns) t'"
    "mset (concat (tb_array t')) = mset (concat (tb_array t))"
    "tb_array t' ! hash = remove1 n (tb_array t ! hash)"
proof -
  have slot: "slot t' h = slot t h" for h by (simp add: t'_def)
  show b: "tb_array t' ! hash = remove1 n (tb_array t ! hash)"
    using ne len by (simp add: t'_def a_def)
  show "placed raw ({hash} \<times> set ns) t'"
    unfolding placed_def slot
  proof (intro allI impI ballI)
    fix i x
    assume i: "i < length (tb_array t')" and x: "x \<in> set (tb_array t' ! i)"
    consider "i = hash" | "i = slot t (raw n)" "x = n" | "i \<noteq> hash" "x \<in> set (tb_array t ! i)"
      using i x ne len by (cases "i = slot t (raw n)") (auto simp: t'_def a_def nth_list_update split: if_splits)
    then show "(i, x) \<in> {hash} \<times> set ns \<or> slot t (raw x) = i"
    proof cases
      case 1
      then show ?thesis using x b d pl len(1) by (auto simp: placed_def)
    next
      case 2
      then show ?thesis by simp
    next
      case 3
      then show ?thesis using pl i by (auto simp: placed_def t'_def a_def)
    qed
  qed
  show "mset (concat (tb_array t')) = mset (concat (tb_array t))"
    using mset_concat_push [of "slot t (raw n)" a n] mset_concat_pull [OF len(1) n] len
    by (simp add: t'_def a_def)
qed

lemma rehash_loop_keeps:
  "table_shape t \<Longrightarrow> placed raw ({hash} \<times> set ns) t \<Longrightarrow> distinct ns \<Longrightarrow> set ns \<subseteq> set (tb_array t ! hash) \<Longrightarrow>
   distinct (tb_array t ! hash) \<Longrightarrow> hash < length (tb_array t) \<Longrightarrow>
   keeps raw t (rehash_loop raw hash ns t) \<and> tb_split (rehash_loop raw hash ns t) = tb_split t \<and>
   tb_size (rehash_loop raw hash ns t) = tb_size t"
proof (induction ns arbitrary: t)
  case Nil
  then show ?case by (simp add: keeps_refl)
next
  case (Cons n ns)
  have n: "n \<in> set (tb_array t ! hash)" using Cons.prems(4) by simp
  show ?case
  proof (cases "slot t (raw n) = hash")
    case True
    then have "placed raw ({hash} \<times> set ns) t"
      using Cons.prems(2) by (auto simp: placed_def)
    then show ?thesis
      using Cons True by simp
  next
    case False
    define a where "a = (tb_array t)[hash := remove1 n (tb_array t ! hash)]"
    define t' where "t' = t\<lparr>tb_array := a[slot t (raw n) := n # a ! slot t (raw n)]\<rparr>"
    have mv: "placed raw ({hash} \<times> set ns) t'" "mset (concat (tb_array t')) = mset (concat (tb_array t))"
      "tb_array t' ! hash = remove1 n (tb_array t ! hash)"
      unfolding t'_def a_def
      by (rule rehash_move [OF Cons.prems(2) n Cons.prems(5,6) slot_in_array [OF Cons.prems(1)] False])+
    have len: "length (tb_array t') = length (tb_array t)" and sh: "table_shape t'"
      and eq: "tb_use t' = tb_use t" "tb_split t' = tb_split t" "tb_size t' = tb_size t"
      using Cons.prems(1) by (simp_all add: t'_def a_def)
    have "set ns \<subseteq> set (tb_array t' ! hash)" "distinct (tb_array t' ! hash)" "distinct ns"
      using Cons.prems(3,4,5) by (auto simp: mv(3))
    then have IH: "keeps raw t' (rehash_loop raw hash ns t')" "tb_split (rehash_loop raw hash ns t') = tb_split t'"
      "tb_size (rehash_loop raw hash ns t') = tb_size t'"
      using Cons.IH [OF sh mv(1)] Cons.prems(6) len by simp_all
    moreover have "rehash_loop raw hash (n # ns) t = rehash_loop raw hash ns t'"
      using False by (simp add: Let_def a_def t'_def)
    ultimately show ?thesis
      using mv(2) eq by (simp add: keeps_def)
  qed
qed

lemma rehash_keeps:
  assumes sh: "table_shape t" and pl: "placed raw {} t" and d: "distinct (concat (tb_array t))"
  shows "keeps raw t (rehash ok raw t)"
proof (cases "tb_split t = tb_size t div 2")
  case True
  then show ?thesis using assms by (simp add: rehash_def keeps_refl)
next
  case False
  obtain m where m: "tb_size t = 2 * m" "tb_size t div 2 = m" "4096 \<le> m" "tb_split t < m" "2 * m \<le> length (tb_array t)"
    using sh False by (elim shape_half) simp
  define hash where "hash = tb_split t"
  define t1 where "t1 = t\<lparr>tb_split := hash + 1\<rparr>"
  define t2 where "t2 = rehash_loop raw hash (tb_array t1 ! hash) t1"
  have sl: "slot t h = (if h mod m = hash then hash else slot t1 h)" for h
    using m by (intro slot_step) (simp_all add: t1_def hash_def)
  have pl1: "placed raw ({hash} \<times> set (tb_array t1 ! hash)) t1"
    using pl sl unfolding placed_def by (auto simp: t1_def split: if_splits)
  have k: "keeps raw t1 t2 \<and> tb_split t2 = tb_split t1 \<and> tb_size t2 = tb_size t1"
    unfolding t2_def
    using sh pl1 m d by (intro rehash_loop_keeps) (auto simp: t1_def table_shape_def hash_def distinct_bucket)
  then have k2: "keeps raw t t2" by (simp add: keeps_def t1_def)
  then have "tb_split t2 = tb_size t2 div 2 \<Longrightarrow> keeps raw t2 (node_table_resize ok t2)"
    by (intro node_table_resize_keeps) (simp_all add: keeps_def)
  then show ?thesis
    using False k2 by (auto simp: rehash_def Let_def hash_def t1_def t2_def intro: keeps_trans)
qed

section \<open>The table is a set of nodes\<close>

lemma table_init_inv: "table_inv raw 0 node_table_init" "members node_table_init = {}"
proof -
  have "(2 :: nat) ^ 13 = 8192" by simp
  then have "\<exists>k. (8192 :: nat) = 2 ^ k" by metis
  then show "table_inv raw 0 node_table_init"
    by (simp add: table_inv_def table_shape_def node_table_init_def NODE_TABLE_MIN_SIZE_def)
  show "members node_table_init = {}"
    by (simp add: members_def node_table_init_def)
qed

lemma table_insert_inv:
  assumes "table_inv raw k t" "n \<notin> members t"
  shows "table_inv raw k (table_insert ok raw n t)" "members (table_insert ok raw n t) = insert n (members t)"
proof -
  define h where "h = slot t (raw n)"
  define t1 where "t1 = t\<lparr>tb_array := (tb_array t)[h := n # tb_array t ! h], tb_use := tb_use t + 1\<rparr>"
  have sh: "table_shape t" and len: "h < length (tb_array t)"
    using assms(1) slot_in_array by (simp_all add: table_inv_def h_def)
  have m: "mset (concat (tb_array t1)) = add_mset n (mset (concat (tb_array t)))"
    using mset_concat_push [OF len] by (simp add: t1_def)
  have sh1: "table_shape t1" using sh by (simp add: t1_def)
  have pl1: "placed raw {} t1"
    using assms(1) len by (auto simp: table_inv_alt placed_def t1_def nth_list_update h_def split: if_splits)
  have d1: "distinct (concat (tb_array t1))"
    using assms m mset_eq_imp_distinct_iff [of "concat (tb_array t1)" "n # concat (tb_array t)"]
    by (simp add: table_inv_def members_def)
  have u1: "tb_use t1 = length (concat (tb_array t1)) + k"
    using assms(1) m mset_eq_length [of "concat (tb_array t1)" "n # concat (tb_array t)"]
    by (simp add: table_inv_def t1_def)
  have "keeps raw t1 (table_insert ok raw n t)"
    using rehash_keeps [OF sh1 pl1 d1] keeps_refl [OF sh1 pl1]
    unfolding table_insert_def h_def [symmetric] Let_def t1_def [symmetric] by simp
  note ok = keeps_ok [OF this d1 u1]
  show "table_inv raw k (table_insert ok raw n t)" by (rule ok)
  show "members (table_insert ok raw n t) = insert n (members t)"
    unfolding ok(2) by (simp add: members_alt m del: set_mset_mset)
qed

lemma table_member_bucket:
  assumes "table_inv raw k t"
  shows "n \<in> members t \<longleftrightarrow> n \<in> set (tb_array t ! slot t (raw n))"
proof
  assume "n \<in> members t"
  then show "n \<in> set (tb_array t ! slot t (raw n))"
    using assms by (auto simp: members_def table_inv_def in_set_conv_nth [of _ "tb_array t"])
next
  assume "n \<in> set (tb_array t ! slot t (raw n))"
  moreover have "slot t (raw n) < length (tb_array t)"
    using assms by (simp add: table_inv_def slot_in_array)
  ultimately show "n \<in> members t"
    using concat_update_mem by (simp add: members_def)
qed

lemma table_unlink_inv:
  assumes "table_inv raw k t" "n \<in> members t"
  shows "\<exists>t'. table_unlink raw n t = Some t' \<and> table_inv raw (Suc k) t' \<and> members t' = members t - {n}"
proof -
  define h where "h = slot t (raw n)"
  define t1 where "t1 = t\<lparr>tb_array := (tb_array t)[h := remove1 n (tb_array t ! h)]\<rparr>"
  have sh: "table_shape t" and len: "h < length (tb_array t)" and d: "distinct (concat (tb_array t))"
    using assms(1) slot_in_array by (simp_all add: table_inv_def h_def)
  have n: "n \<in> set (tb_array t ! h)"
    using assms table_member_bucket by (simp add: h_def)
  have m: "mset (concat (tb_array t)) = add_mset n (mset (concat (tb_array t1)))"
    using mset_concat_pull [OF len n] by (simp add: t1_def)
  have "placed raw {} t1"
    using assms(1) len
    by (auto simp: table_inv_alt placed_def t1_def nth_list_update split: if_splits dest: notin_set_remove1)
  moreover have d1: "distinct (concat (tb_array t1))" "n \<notin> set (concat (tb_array t1))"
    using d m mset_eq_imp_distinct_iff [of "concat (tb_array t)" "n # concat (tb_array t1)"] by simp_all
  moreover have "tb_use t1 = length (concat (tb_array t1)) + Suc k"
    using assms(1) m mset_eq_length [of "concat (tb_array t)" "n # concat (tb_array t1)"]
    by (simp add: table_inv_def t1_def)
  ultimately have "table_inv raw (Suc k) t1"
    using sh by (simp add: table_inv_alt t1_def)
  moreover have "table_unlink raw n t = Some t1"
    using n by (simp add: table_unlink_def Let_def h_def [symmetric] t1_def)
  moreover have "members t = insert n (members t1)"
    by (simp add: members_alt m del: set_mset_mset)
  then have "members t1 = members t - {n}" using d1(2) by (auto simp: members_def)
  ultimately show ?thesis by simp
qed

lemma table_unlink_none: "table_inv raw k t \<Longrightarrow> n \<notin> members t \<Longrightarrow> table_unlink raw n t = None"
  by (simp add: table_unlink_def Let_def table_member_bucket)

lemma table_release_inv:
  assumes "table_inv raw (Suc k) t"
  shows "table_inv raw k (table_release ok t)" "members (table_release ok t) = members t"
proof -
  define t1 where "t1 = t\<lparr>tb_use := tb_use t - 1\<rparr>"
  have t1: "table_shape t1" "placed raw {} t1" "distinct (concat (tb_array t1))"
    "tb_use t1 = length (concat (tb_array t1)) + k"
    using assms by (simp_all add: t1_def table_inv_alt placed_def)
  have "keeps raw t1 (table_release ok t)"
    using remerge_keeps [OF t1(1,2)] keeps_refl [OF t1(1,2)]
    unfolding table_release_def t1_def [symmetric] Let_def by simp
  note ok = keeps_ok [OF this t1(3,4)]
  show "table_inv raw k (table_release ok t)" by (rule ok)
  show "members (table_release ok t) = members t"
    unfolding ok(2) by (simp add: members_def t1_def)
qed

lemma table_inv_cong:
  "table_inv raw k t \<Longrightarrow> (\<And>n. n \<in> members t \<Longrightarrow> raw' n = raw n) \<Longrightarrow> table_inv raw' k t"
  using concat_update_mem [of _ "tb_array t"] by (auto simp: table_inv_def members_def)

text \<open>
  A search that only one node of the table can meet, and by the hash of that node, finds it.
\<close>

lemma table_find_some:
  assumes "table_inv raw k t" "n \<in> members t" "P n" "raw n = h" "\<And>n'. n' \<in> members t \<Longrightarrow> P n' \<Longrightarrow> n' = n"
  shows "table_find P h t = Some n"
proof -
  let ?b = "tb_array t ! slot t h"
  have len: "slot t h < length (tb_array t)"
    using assms(1) by (simp add: table_inv_def slot_in_array)
  have u: "n' = n" if "n' \<in> set ?b" "P n'" for n'
    using assms(5) concat_update_mem [OF len that(1)] that(2) by (simp add: members_def)
  have "n \<in> set ?b"
    using assms table_member_bucket by auto
  then have "List.find P ?b \<noteq> None"
    using assms(3) by (auto simp: find_None_iff)
  then obtain n' where f: "List.find P ?b = Some n'" by blast
  then have "n' \<in> set ?b" "P n'" by (auto simp: find_Some_iff)
  then show ?thesis using u f by (simp add: table_find_def)
qed

lemma table_find_sound:
  assumes "table_inv raw k t" "table_find P h t = Some n"
  shows "n \<in> members t \<and> P n"
  using assms slot_in_array [of t h] concat_update_mem [of "slot t h" "tb_array t" n]
  by (auto simp: table_find_def find_Some_iff table_inv_def members_def)

end
