(* ===== verification/Node_Slab.thy ===== *)
theory Node_Slab
  imports CFS_Prelude "HOL-Library.Multiset"
begin

unbundle bit_operations_syntax

text \<open>
  The allocator of nodes in \<^verbatim>\<open>lib/fuse.c\<close>. Nodes are cut out of pages, the slabs; a slab with a free
  node is on the list of partial slabs, any other on the list of full slabs, and a slab without a
  used node is given back. A ring of list heads is the list of its elements. The pages that
  \<^verbatim>\<open>mmap\<close> returns, one after the other, are part of the state (\<^const>\<open>None\<close> is \<^verbatim>\<open>MAP_FAILED\<close>).
\<close>

section \<open>The allocator\<close>

record slab =
  sl_page :: nat
  sl_free :: "nat list"
  sl_used :: int

record node_mem =
  nm_pagesize :: nat
  nm_sizeof_slab :: nat
  nm_sizeof_node :: nat
  nm_sizeof_node_lru :: nat
  nm_remember :: int
  nm_partial :: "slab list"
  nm_full :: "slab list"
  nm_mmap :: "nat option list"

definition lru_enabled :: "'a node_mem_scheme \<Rightarrow> bool" where
  "lru_enabled f \<longleftrightarrow> nm_remember f > 0"

definition get_node_size :: "'a node_mem_scheme \<Rightarrow> nat" where
  "get_node_size f = (if lru_enabled f then nm_sizeof_node_lru f else nm_sizeof_node f)"

definition node_to_slab :: "'a node_mem_scheme \<Rightarrow> nat \<Rightarrow> nat" where
  "node_to_slab f n = unat ((of_nat n :: 64 word) AND NOT (of_nat (nm_pagesize f) - 1))"

definition mmap :: "'a node_mem_scheme \<Rightarrow> nat option \<times> 'a node_mem_scheme" where
  "mmap f = (case nm_mmap f of [] \<Rightarrow> (None, f) | r # rs \<Rightarrow> (r, f\<lparr>nm_mmap := rs\<rparr>))"

definition slab_nodes :: "'a node_mem_scheme \<Rightarrow> nat \<Rightarrow> nat list" where
  "slab_nodes f mem =
     (let node_size = get_node_size f; num = (nm_pagesize f - nm_sizeof_slab f) div node_size;
          start = mem + nm_pagesize f - num * node_size in
      map (\<lambda>i. start + i * node_size) [0..<num])"

definition alloc_slab :: "'a node_mem_scheme \<Rightarrow> int \<times> 'a node_mem_scheme" where
  "alloc_slab f =
     (case mmap f of
        (None, f1) \<Rightarrow> (-1, f1)
      | (Some mem, f1) \<Rightarrow>
          (0, f1\<lparr>nm_partial := nm_partial f1 @ [\<lparr>sl_page = mem, sl_free = slab_nodes f mem, sl_used = 0\<rparr>]\<rparr>))"

text \<open>The second half of \<^verbatim>\<open>alloc_node\<close>, with a slab at hand; a slab without a node would be read through its list head.\<close>

definition take_node :: "'a node_mem_scheme \<Rightarrow> (nat \<times> 'a node_mem_scheme) res" where
  "take_node f =
     (case nm_partial f of
        [] \<Rightarrow> Inl NullPointer
      | slab # rest \<Rightarrow>
          (case sl_free slab of
             [] \<Rightarrow> Inl NullPointer
           | node # free \<Rightarrow>
               (let slab1 = slab\<lparr>sl_used := sl_used slab + 1, sl_free := free\<rparr> in
                Inr (node,
                  if free = [] then f\<lparr>nm_partial := rest, nm_full := nm_full f @ [slab1]\<rparr>
                  else f\<lparr>nm_partial := slab1 # rest\<rparr>))))"

definition alloc_node :: "'a node_mem_scheme \<Rightarrow> (nat option \<times> 'a node_mem_scheme) res" where
  "alloc_node f =
     (let (res, f1) = (if nm_partial f = [] then alloc_slab f else (0, f)) in
      if res \<noteq> 0 then Inr (None, f1)
      else bind_res (take_node f1) (\<lambda>(node, f2). Inr (Some node, f2)))"

definition free_slab :: "'a node_mem_scheme \<Rightarrow> nat \<Rightarrow> 'a node_mem_scheme" where
  "free_slab f page =
     f\<lparr>nm_partial := filter (\<lambda>s. sl_page s \<noteq> page) (nm_partial f),
       nm_full := filter (\<lambda>s. sl_page s \<noteq> page) (nm_full f)\<rparr>"

definition put_slab :: "slab \<Rightarrow> slab list \<Rightarrow> slab list" where
  "put_slab slab = map (\<lambda>s. if sl_page s = sl_page slab then slab else s)"

definition free_node_mem :: "'a node_mem_scheme \<Rightarrow> nat \<Rightarrow> 'a node_mem_scheme res" where
  "free_node_mem f node =
     bind_res (the_res (List.find (\<lambda>s. sl_page s = node_to_slab f node) (nm_partial f @ nm_full f)) NullPointer)
       (\<lambda>slab.
          let slab1 = slab\<lparr>sl_used := sl_used slab - 1, sl_free := node # sl_free slab\<rparr> in
          Inr
            (if sl_used slab1 \<noteq> 0
             then
               (if sl_free slab = []
                then (let g = free_slab f (sl_page slab) in g\<lparr>nm_partial := nm_partial g @ [slab1]\<rparr>)
                else f\<lparr>nm_partial := put_slab slab1 (nm_partial f), nm_full := put_slab slab1 (nm_full f)\<rparr>)
             else free_slab f (sl_page slab)))"

section \<open>The invariant\<close>

definition slabs :: "'a node_mem_scheme \<Rightarrow> slab list" where
  "slabs f = nm_partial f @ nm_full f"

definition cells :: "'a node_mem_scheme \<Rightarrow> nat \<Rightarrow> nat set" where
  "cells f page = set (slab_nodes f page)"

definition live :: "'a node_mem_scheme \<Rightarrow> slab \<Rightarrow> nat set" where
  "live f s = cells f (sl_page s) - set (sl_free s)"

definition allocated :: "'a node_mem_scheme \<Rightarrow> nat set" where
  "allocated f = (\<Union>s \<in> set (slabs f). live f s)"

definition page_ok :: "'a node_mem_scheme \<Rightarrow> nat \<Rightarrow> bool" where
  "page_ok f page \<longleftrightarrow> page mod nm_pagesize f = 0 \<and> page + nm_pagesize f \<le> 2 ^ 64"

definition slab_ok :: "'a node_mem_scheme \<Rightarrow> slab \<Rightarrow> bool" where
  "slab_ok f s \<longleftrightarrow> page_ok f (sl_page s) \<and> distinct (sl_free s) \<and> set (sl_free s) \<subseteq> cells f (sl_page s) \<and>
     sl_used s = int (card (live f s))"

definition sizes_ok :: "'a node_mem_scheme \<Rightarrow> bool" where
  "sizes_ok f \<longleftrightarrow> (\<exists>k \<le> 64. nm_pagesize f = 2 ^ k) \<and> 0 < get_node_size f \<and>
     nm_sizeof_slab f + get_node_size f \<le> nm_pagesize f"

definition mem_ok :: "'a node_mem_scheme \<Rightarrow> bool" where
  "mem_ok f \<longleftrightarrow> sizes_ok f \<and> distinct (map sl_page (slabs f)) \<and> (\<forall>s \<in> set (slabs f). slab_ok f s \<and> 0 < sl_used s) \<and>
     (\<forall>s \<in> set (nm_partial f). sl_free s \<noteq> []) \<and> (\<forall>s \<in> set (nm_full f). sl_free s = [])"

text \<open>What \<^verbatim>\<open>mmap\<close> promises: a page that is aligned and not mapped yet.\<close>

definition mmap_fresh :: "'a node_mem_scheme \<Rightarrow> bool" where
  "mmap_fresh f \<longleftrightarrow> (case nm_mmap f of Some page # _ \<Rightarrow> page_ok f page \<and> page \<notin> sl_page ` set (slabs f) | _ \<Rightarrow> True)"

section \<open>Pages and their nodes\<close>

lemma and_not_mask: "(w :: 64 word) AND NOT (mask k) = push_bit k (drop_bit k w)"
  by (rule bit_eqI) (auto simp: bit_simps)

lemma unat_and_not_mask:
  assumes "n < 2 ^ 64"
  shows "unat ((of_nat n :: 64 word) AND NOT (mask k)) = n - n mod 2 ^ k"
proof -
  have "push_bit k (drop_bit k n) \<le> n" by (metis bits_ident le_add1)
  then have l: "push_bit k (drop_bit k n) < 2 ^ 64" using assms by simp
  have "unat ((of_nat n :: 64 word) AND NOT (mask k)) = take_bit 64 (push_bit k (drop_bit k n))"
    using assms by (simp add: and_not_mask unsigned_push_bit_eq unat_drop_bit_eq take_bit_nat_eq_self unat_of_nat)
  also have "\<dots> = push_bit k (drop_bit k n)" using l by (simp add: take_bit_nat_eq_self)
  also have "\<dots> = n - n mod 2 ^ k" by (simp add: push_bit_eq_mult drop_bit_eq_div minus_mod_eq_div_mult)
  finally show ?thesis .
qed

text \<open>Masking the address of a node gives its page.\<close>

lemma node_to_slab_page:
  assumes "sizes_ok f" "page_ok f page" "page \<le> n" "n < page + nm_pagesize f"
  shows "node_to_slab f n = page"
proof -
  obtain k where k: "nm_pagesize f = 2 ^ k" using assms(1) by (auto simp: sizes_ok_def)
  have "(of_nat (nm_pagesize f) :: 64 word) - 1 = mask k"
    by (simp add: k mask_eq_decr_exp)
  moreover have "n < 2 ^ 64" using assms(2,4) by (simp add: page_ok_def)
  ultimately have "node_to_slab f n = n - n mod 2 ^ k"
    by (simp add: node_to_slab_def unat_and_not_mask)
  moreover have "n mod 2 ^ k = n - page"
  proof -
    obtain q where q: "page = q * 2 ^ k" using assms(2) k by (auto simp: page_ok_def)
    have "n = (n - page) + q * 2 ^ k" "n - page < 2 ^ k" using assms(3,4) q k by simp_all
    then show ?thesis by (metis mod_less mod_mult_self1)
  qed
  ultimately show ?thesis using assms(3) by simp
qed

lemma cells_in_page:
  assumes "sizes_ok f" "n \<in> cells f page"
  shows "page + nm_sizeof_slab f \<le> n" "n + get_node_size f \<le> page + nm_pagesize f"
proof -
  define ns where "ns = get_node_size f"
  define num where "num = (nm_pagesize f - nm_sizeof_slab f) div ns"
  obtain i where i: "i < num" "n = page + nm_pagesize f - num * ns + i * ns"
    using assms(2) by (auto simp: cells_def slab_nodes_def Let_def ns_def num_def)
  have le: "num * ns \<le> nm_pagesize f - nm_sizeof_slab f" by (simp add: num_def)
  have "Suc i * ns \<le> num * ns" using i(1) by (intro mult_le_mono1) simp
  then show "page + nm_sizeof_slab f \<le> n" "n + get_node_size f \<le> page + nm_pagesize f"
    using i(2) le assms(1) unfolding sizes_ok_def ns_def [symmetric] mult_Suc by linarith+
qed

lemma cells_page:
  assumes "sizes_ok f" "page_ok f page" "n \<in> cells f page"
  shows "node_to_slab f n = page"
  using assms cells_in_page [OF assms(1,3)]
  by (intro node_to_slab_page) (auto simp: sizes_ok_def)

lemma slab_nodes_distinct: "sizes_ok f \<Longrightarrow> distinct (slab_nodes f page)"
  by (auto simp: slab_nodes_def Let_def distinct_map sizes_ok_def intro: inj_onI)

lemma slab_nodes_nonempty: "sizes_ok f \<Longrightarrow> slab_nodes f page \<noteq> []"
  by (auto simp: slab_nodes_def Let_def sizes_ok_def div_eq_0_iff)

lemma finite_live [simp]: "finite (live f s)"
  by (simp add: live_def cells_def)

text \<open>The lists of slabs play no part in the layout of a page.\<close>

lemma layout_updates [simp]:
  "lru_enabled (f\<lparr>nm_partial := x\<rparr>) = lru_enabled f" "lru_enabled (f\<lparr>nm_full := x\<rparr>) = lru_enabled f" "lru_enabled (f\<lparr>nm_mmap := y\<rparr>) = lru_enabled f"
  "get_node_size (f\<lparr>nm_partial := x\<rparr>) = get_node_size f" "get_node_size (f\<lparr>nm_full := x\<rparr>) = get_node_size f" "get_node_size (f\<lparr>nm_mmap := y\<rparr>) = get_node_size f"
  "node_to_slab (f\<lparr>nm_partial := x\<rparr>) n = node_to_slab f n" "node_to_slab (f\<lparr>nm_full := x\<rparr>) n = node_to_slab f n" "node_to_slab (f\<lparr>nm_mmap := y\<rparr>) n = node_to_slab f n"
  "slab_nodes (f\<lparr>nm_partial := x\<rparr>) p = slab_nodes f p" "slab_nodes (f\<lparr>nm_full := x\<rparr>) p = slab_nodes f p" "slab_nodes (f\<lparr>nm_mmap := y\<rparr>) p = slab_nodes f p"
  "cells (f\<lparr>nm_partial := x\<rparr>) p = cells f p" "cells (f\<lparr>nm_full := x\<rparr>) p = cells f p" "cells (f\<lparr>nm_mmap := y\<rparr>) p = cells f p"
  "live (f\<lparr>nm_partial := x\<rparr>) s = live f s" "live (f\<lparr>nm_full := x\<rparr>) s = live f s" "live (f\<lparr>nm_mmap := y\<rparr>) s = live f s"
  "page_ok (f\<lparr>nm_partial := x\<rparr>) p = page_ok f p" "page_ok (f\<lparr>nm_full := x\<rparr>) p = page_ok f p" "page_ok (f\<lparr>nm_mmap := y\<rparr>) p = page_ok f p"
  "slab_ok (f\<lparr>nm_partial := x\<rparr>) s = slab_ok f s" "slab_ok (f\<lparr>nm_full := x\<rparr>) s = slab_ok f s" "slab_ok (f\<lparr>nm_mmap := y\<rparr>) s = slab_ok f s"
  "sizes_ok (f\<lparr>nm_partial := x\<rparr>) = sizes_ok f" "sizes_ok (f\<lparr>nm_full := x\<rparr>) = sizes_ok f" "sizes_ok (f\<lparr>nm_mmap := y\<rparr>) = sizes_ok f"
  by (simp_all add: lru_enabled_def get_node_size_def node_to_slab_def slab_nodes_def cells_def live_def page_ok_def
      slab_ok_def sizes_ok_def Let_def)

section \<open>Allocation\<close>

lemma page_owner:
  assumes "sizes_ok f" "slab_ok f s" "slab_ok f t" "n \<in> cells f (sl_page s)" "n \<in> cells f (sl_page t)"
  shows "sl_page s = sl_page t"
  using assms cells_page [OF assms(1)] by (metis slab_ok_def)

text \<open>
  A slab that is replaced by another for the same page changes the set of nodes in use by the nodes
  of that page only.
\<close>

lemma live_other:
  assumes "sizes_ok f" "\<forall>s \<in> S. slab_ok f s" "inj_on sl_page S" "s \<in> S" "n \<in> cells f (sl_page s)"
  shows "n \<in> (\<Union>t \<in> S. live f t) \<longleftrightarrow> n \<in> live f s" and "n \<notin> (\<Union>t \<in> S - {s}. live f t)"
proof -
  have o: "t = s" if "t \<in> S" "n \<in> live f t" for t
  proof -
    have "n \<in> cells f (sl_page t)" using that(2) by (simp add: live_def)
    then have "sl_page t = sl_page s" using assms that(1) by (intro page_owner) auto
    then show ?thesis using assms(3,4) that(1) by (auto dest: inj_onD)
  qed
  show "n \<in> (\<Union>t \<in> S. live f t) \<longleftrightarrow> n \<in> live f s" using o assms(4) by auto
  show "n \<notin> (\<Union>t \<in> S - {s}. live f t)" using o by auto
qed

lemma live_take:
  assumes "sl_free s = n # ns" "slab_ok f s" "s' = s\<lparr>sl_used := sl_used s + 1, sl_free := ns\<rparr>"
  shows "live f s' = insert n (live f s)" "n \<notin> live f s" "n \<in> cells f (sl_page s)" "slab_ok f s'"
proof -
  show l: "live f s' = insert n (live f s)" "n \<notin> live f s" and c: "n \<in> cells f (sl_page s)"
    using assms by (auto simp: live_def slab_ok_def)
  show "slab_ok f s'"
    using assms l by (simp add: slab_ok_def)
qed

lemma live_put:
  assumes "n \<in> live f s" "slab_ok f s" "s' = s\<lparr>sl_used := sl_used s - 1, sl_free := n # sl_free s\<rparr>"
  shows "live f s' = live f s - {n}" "slab_ok f s'"
proof -
  show l: "live f s' = live f s - {n}"
    using assms by (auto simp: live_def)
  have "card (live f s) = Suc (card (live f s - {n}))"
    using assms(1) by (metis card.remove finite_live)
  moreover have "n \<in> cells f (sl_page s)" "n \<notin> set (sl_free s)"
    using assms(1) by (simp_all add: live_def)
  ultimately show "slab_ok f s'"
    unfolding slab_ok_def l using assms(2,3) by (simp add: slab_ok_def)
qed

lemma slabs_inj: "mem_ok f \<Longrightarrow> inj_on sl_page (set (slabs f))"
  by (simp add: mem_ok_def distinct_map)

lemma take_node_ok:
  assumes s: "sizes_ok f" "distinct (map sl_page (slabs f))" "\<forall>s \<in> set (slabs f). slab_ok f s"
    and p: "nm_partial f = slab # rest" "\<forall>s \<in> set rest. 0 < sl_used s" "\<forall>s \<in> set (nm_full f). 0 < sl_used s"
    and e: "\<forall>s \<in> set (nm_partial f). sl_free s \<noteq> []" "\<forall>s \<in> set (nm_full f). sl_free s = []"
  shows "\<exists>n f'. take_node f = Inr (n, f') \<and> n \<notin> allocated f \<and> mem_ok f' \<and> allocated f' = insert n (allocated f)"
proof -
  obtain n ns where fr: "sl_free slab = n # ns" using e(1) p(1) by (cases "sl_free slab") auto
  define s' where "s' = slab\<lparr>sl_used := sl_used slab + 1, sl_free := ns\<rparr>"
  define f' where "f' = (if ns = [] then f\<lparr>nm_partial := rest, nm_full := nm_full f @ [s']\<rparr> else f\<lparr>nm_partial := s' # rest\<rparr>)"
  have t: "take_node f = Inr (n, f')"
    using p(1) fr by (simp add: take_node_def f'_def s'_def Let_def)
  have sl: "slab_ok f slab" "slab \<in> set (slabs f)" using s(3) p(1) by (simp_all add: slabs_def)
  note lt = live_take [OF fr sl(1) s'_def]
  have ne: "slab \<notin> set rest \<union> set (nm_full f)" using s(2) p(1) by (auto simp: slabs_def)
  have S: "set (slabs f) = insert slab (set rest \<union> set (nm_full f))" using p(1) by (simp add: slabs_def)
  have S': "set (slabs f') = insert s' (set rest \<union> set (nm_full f))" by (simp add: slabs_def f'_def)
  have eq: "live f' x = live f x" "slab_ok f' x = slab_ok f x" "sizes_ok f' = sizes_ok f" for x by (simp_all add: f'_def)
  have "n \<notin> allocated f"
    using live_other(1) [OF s(1,3) _ sl(2) lt(3)] s(2) lt(2) by (simp add: allocated_def distinct_map)
  moreover have "allocated f' = insert n (allocated f)"
    unfolding allocated_def S S' by (simp add: eq lt(1) Un_assoc)
  moreover have "distinct (map sl_page (slabs f'))"
    using s(2) p(1) by (auto simp: slabs_def f'_def s'_def)
  moreover have "0 < sl_used s'" using sl(1) by (simp add: s'_def slab_ok_def)
  ultimately have "mem_ok f'"
    using s p e lt(4) unfolding mem_ok_def S' eq by (auto simp: S f'_def s'_def)
  with t \<open>n \<notin> allocated f\<close> \<open>allocated f' = insert n (allocated f)\<close> show ?thesis by blast
qed

lemma alloc_node_ok:
  assumes "mem_ok f" "mmap_fresh f"
  shows "\<exists>r f'. alloc_node f = Inr (r, f') \<and> mem_ok f' \<and>
    (case r of None \<Rightarrow> allocated f' = allocated f | Some n \<Rightarrow> n \<notin> allocated f \<and> allocated f' = insert n (allocated f))"
proof (cases "nm_partial f")
  case (Cons slab rest)
  then have "\<exists>n f'. take_node f = Inr (n, f') \<and> n \<notin> allocated f \<and> mem_ok f' \<and> allocated f' = insert n (allocated f)"
    using assms(1) by (intro take_node_ok [of f slab rest]) (auto simp: mem_ok_def slabs_def)
  then show ?thesis
    using Cons by (auto simp: alloc_node_def)
next
  case Nil
  show ?thesis
  proof (cases "fst (mmap f)")
    case None
    then obtain f1 where "mmap f = (None, f1)" by (cases "mmap f") auto
    moreover from this have "f1 = f \<or> (\<exists>y. f1 = f\<lparr>nm_mmap := y\<rparr>)"
      by (auto simp: mmap_def split: list.splits)
    then have "mem_ok f1 \<and> allocated f1 = allocated f"
      using assms(1) by (elim disjE exE) (simp_all add: mem_ok_def allocated_def slabs_def)
    ultimately show ?thesis
      using Nil by (simp add: alloc_node_def alloc_slab_def)
  next
    case (Some page)
    then obtain rs where rs: "nm_mmap f = Some page # rs" by (auto simp: mmap_def split: list.splits)
    then have pg: "page_ok f page" "page \<notin> sl_page ` set (nm_full f)"
      using assms(2) Nil by (simp_all add: mmap_fresh_def slabs_def)
    define s0 where "s0 = \<lparr>sl_page = page, sl_free = slab_nodes f page, sl_used = 0\<rparr>"
    define f1 where "f1 = f\<lparr>nm_mmap := rs, nm_partial := [s0]\<rparr>"
    have a: "alloc_slab f = (0, f1)"
      using rs Nil by (simp add: alloc_slab_def mmap_def f1_def s0_def)
    have sz: "sizes_ok f" using assms(1) by (simp add: mem_ok_def)
    have l0: "live f s0 = {}" by (simp add: live_def s0_def cells_def)
    then have s0: "slab_ok f s0"
      using pg(1) slab_nodes_distinct [OF sz] by (simp add: slab_ok_def) (simp add: s0_def cells_def)
    have "\<exists>n f'. take_node f1 = Inr (n, f') \<and> n \<notin> allocated f1 \<and> mem_ok f' \<and> allocated f' = insert n (allocated f1)"
    proof (rule take_node_ok [of f1 s0 "[]"])
      show "distinct (map sl_page (slabs f1))" using assms(1) Nil pg(2) by (simp add: mem_ok_def slabs_def f1_def s0_def)
      show "\<forall>s \<in> set (slabs f1). slab_ok f1 s" using assms(1) s0 by (simp add: mem_ok_def slabs_def f1_def)
      show "\<forall>s \<in> set (nm_partial f1). sl_free s \<noteq> []" using slab_nodes_nonempty [OF sz] by (simp add: f1_def s0_def)
    qed (use assms(1) sz in \<open>simp_all add: f1_def mem_ok_def slabs_def\<close>)
    moreover have "allocated f1 = allocated f"
      using Nil l0 by (simp add: allocated_def slabs_def f1_def)
    ultimately show ?thesis
      using a Nil by (auto simp: alloc_node_def)
  qed
qed

section \<open>Giving a node back\<close>

lemma slabs_free_slab: "slabs (free_slab f page) = filter (\<lambda>s. sl_page s \<noteq> page) (slabs f)"
  by (simp add: slabs_def free_slab_def)

lemma slabs_put:
  "s \<in> set xs \<Longrightarrow> inj_on sl_page (set xs) \<Longrightarrow> sl_page s' = sl_page s \<Longrightarrow> set (put_slab s' xs) = insert s' (set xs - {s})"
  by (auto simp: put_slab_def dest: inj_onD)

lemma put_slab_pages [simp]: "map sl_page (put_slab s xs) = map sl_page xs"
  by (simp add: put_slab_def)

lemma put_slab_append: "put_slab s xs @ put_slab s ys = put_slab s (xs @ ys)"
  by (simp add: put_slab_def)

lemma find_key: "s \<in> set xs \<Longrightarrow> inj_on k (set xs) \<Longrightarrow> List.find (\<lambda>t. k t = k s) xs = Some s"
  by (induction xs) (auto dest: inj_onD)

lemma filter_pages:
  "s \<in> set xs \<Longrightarrow> inj_on sl_page (set xs) \<Longrightarrow> set (filter (\<lambda>t. sl_page t \<noteq> sl_page s) xs) = set xs - {s}"
  by (auto dest: inj_onD)

text \<open>The three ways a slab can change when it gets a node back.\<close>

lemma mem_ok_free_slab:
  assumes "mem_ok f" "s \<in> set (slabs f)"
  shows "mem_ok (free_slab f (sl_page s))" "set (slabs (free_slab f (sl_page s))) = set (slabs f) - {s}"
proof -
  show e: "set (slabs (free_slab f (sl_page s))) = set (slabs f) - {s}"
    unfolding slabs_free_slab using assms slabs_inj by (intro filter_pages) auto
  have "distinct (map sl_page (slabs (free_slab f (sl_page s))))"
    unfolding slabs_free_slab using assms(1) by (simp add: mem_ok_def distinct_map_filter)
  moreover have "sizes_ok (free_slab f p) = sizes_ok f" "slab_ok (free_slab f p) x = slab_ok f x" for x p
    by (simp_all add: free_slab_def)
  ultimately show "mem_ok (free_slab f (sl_page s))"
    using assms(1) unfolding mem_ok_def e by (auto simp: free_slab_def)
qed

lemma mem_ok_put:
  assumes "mem_ok f" "s \<in> set (slabs f)" "sl_free s \<noteq> []" "slab_ok f s1" "0 < sl_used s1" "sl_page s1 = sl_page s" "sl_free s1 \<noteq> []"
    and "f' = f\<lparr>nm_partial := put_slab s1 (nm_partial f), nm_full := put_slab s1 (nm_full f)\<rparr>"
  shows "mem_ok f'" "set (slabs f') = insert s1 (set (slabs f) - {s})"
proof -
  have sl: "slabs f' = put_slab s1 (slabs f)" by (simp add: slabs_def assms(8) put_slab_append)
  show e: "set (slabs f') = insert s1 (set (slabs f) - {s})"
    unfolding sl using assms(1,2,6) slabs_inj by (intro slabs_put) auto
  have "s \<notin> set (nm_full f)" using assms(1,3) by (auto simp: mem_ok_def)
  then have s: "s \<in> set (nm_partial f)" using assms(2) by (simp add: slabs_def)
  have "sl_page s \<notin> sl_page ` set (nm_full f)"
    using assms(1) s by (auto simp: mem_ok_def slabs_def)
  then have "nm_full f' = nm_full f"
    using assms(6) by (simp add: assms(8) put_slab_def) (rule map_idI, metis image_eqI)
  moreover have "\<forall>t \<in> set (nm_partial f'). sl_free t \<noteq> []"
    using assms(1,7) by (auto simp: assms(8) put_slab_def mem_ok_def)
  moreover have "sizes_ok f' = sizes_ok f" "slab_ok f' x = slab_ok f x" for x by (simp_all add: assms(8))
  ultimately show "mem_ok f'"
    using assms(1,4,5) unfolding mem_ok_def e [unfolded sl] sl by auto
qed

lemma mem_ok_unfill:
  assumes "mem_ok f" "s \<in> set (slabs f)" "slab_ok f s1" "0 < sl_used s1" "sl_page s1 = sl_page s" "sl_free s1 \<noteq> []"
    and "g = free_slab f (sl_page s)" "f' = g\<lparr>nm_partial := nm_partial g @ [s1]\<rparr>"
  shows "mem_ok f'" "set (slabs f') = insert s1 (set (slabs f) - {s})"
proof -
  note g = mem_ok_free_slab [OF assms(1,2), folded assms(7)]
  have sl: "set (slabs f') = insert s1 (set (slabs g))" "mset (map sl_page (slabs f')) = add_mset (sl_page s) (mset (map sl_page (slabs g)))"
    using assms(5) by (simp_all add: slabs_def assms(8))
  then show "set (slabs f') = insert s1 (set (slabs f) - {s})" by (simp add: g(2))
  have "sl_page s \<notin> sl_page ` set (slabs g)"
    by (auto simp: assms(7) slabs_free_slab)
  then have "distinct (map sl_page (slabs f'))"
    using g(1) mset_eq_imp_distinct_iff [of "map sl_page (slabs f')" "sl_page s # map sl_page (slabs g)"] sl(2)
    by (simp add: mem_ok_def)
  moreover have "sizes_ok f' = sizes_ok g" "slab_ok f' x = slab_ok g x" "slab_ok g x = slab_ok f x" for x
    by (simp_all add: assms(7,8) free_slab_def)
  ultimately show "mem_ok f'"
    using g(1) assms(3,4,6) unfolding mem_ok_def sl by (auto simp: assms(8))
qed

lemma free_node_mem_ok:
  assumes ok: "mem_ok f" and n: "n \<in> allocated f"
  shows "\<exists>f'. free_node_mem f n = Inr f' \<and> mem_ok f' \<and> allocated f' = allocated f - {n}"
proof -
  have sz: "sizes_ok f" and all: "\<forall>s \<in> set (slabs f). slab_ok f s" using ok by (simp_all add: mem_ok_def)
  note inj = slabs_inj [OF ok]
  obtain s where s: "s \<in> set (slabs f)" "n \<in> live f s" using n by (auto simp: allocated_def)
  have c: "n \<in> cells f (sl_page s)" using s(2) by (simp add: live_def)
  have so: "slab_ok f s" using ok s by (simp add: mem_ok_def)
  have pg: "node_to_slab f n = sl_page s"
    using cells_page [OF sz] so s(2) by (simp add: slab_ok_def live_def)
  have "List.find (\<lambda>t. sl_page t = sl_page s) (slabs f) = Some s"
    using s(1) inj by (rule find_key)
  then have fd: "List.find (\<lambda>t. sl_page t = node_to_slab f n) (nm_partial f @ nm_full f) = Some s"
    by (simp add: pg slabs_def)
  define s1 where "s1 = s\<lparr>sl_used := sl_used s - 1, sl_free := n # sl_free s\<rparr>"
  note lp = live_put [OF s(2) so s1_def]
  have s1: "sl_page s1 = sl_page s" "sl_free s1 \<noteq> []" "sl_used s1 = int (card (live f s1))"
    using lp(2) by (simp_all add: slab_ok_def) (simp_all add: s1_def)
  have split: "allocated f = live f s \<union> (\<Union>t \<in> set (slabs f) - {s}. live f t)"
    using s(1) by (auto simp: allocated_def)
  have rest: "n \<notin> (\<Union>t \<in> set (slabs f) - {s}. live f t)"
    using sz all inj s(1) c by (rule live_other(2))
  have new: "allocated f' = allocated f - {n}"
    if "set (slabs f') = insert s1 (set (slabs f) - {s})" "\<And>x. live f' x = live f x" for f' :: "'a node_mem_scheme"
  proof -
    have "allocated f' = live f s1 \<union> (\<Union>t \<in> set (slabs f) - {s}. live f t)"
      unfolding allocated_def that by simp
    then show ?thesis using rest unfolding split lp(1) by blast
  qed
  consider "sl_used s1 = 0" | "0 < sl_used s1" "sl_free s = []" | "0 < sl_used s1" "sl_free s \<noteq> []"
    using s1(3) by fastforce
  then show ?thesis
  proof cases
    case 1
    then have "live f s1 = {}" using s1(3) by simp
    then have "live f s = {n}" using lp(1) s(2) by auto
    then have "allocated (free_slab f (sl_page s)) = allocated f - {n}"
      using rest mem_ok_free_slab(2) [OF ok s(1)] unfolding split by (simp add: allocated_def) (simp add: free_slab_def)
    moreover have "free_node_mem f n = Inr (free_slab f (sl_page s))"
      unfolding free_node_mem_def fd the_res_simps bind_res_simps s1_def [symmetric] Let_def using 1 by simp
    ultimately show ?thesis
      using mem_ok_free_slab(1) [OF ok s(1)] by simp
  next
    case 2
    let ?g = "free_slab f (sl_page s)"
    let ?f' = "?g\<lparr>nm_partial := nm_partial ?g @ [s1]\<rparr>"
    have "mem_ok ?f'" "set (slabs ?f') = insert s1 (set (slabs f) - {s})"
      using mem_ok_unfill [OF ok s(1) lp(2) 2(1) s1(1,2) refl refl] by simp_all
    moreover have "free_node_mem f n = Inr ?f'"
      unfolding free_node_mem_def fd the_res_simps bind_res_simps s1_def [symmetric] Let_def using 2 by simp
    moreover have "live ?f' x = live f x" for x by (simp add: free_slab_def)
    ultimately show ?thesis using new [of ?f'] by blast
  next
    case 3
    let ?f' = "f\<lparr>nm_partial := put_slab s1 (nm_partial f), nm_full := put_slab s1 (nm_full f)\<rparr>"
    have "mem_ok ?f'" "set (slabs ?f') = insert s1 (set (slabs f) - {s})"
      using mem_ok_put [OF ok s(1) 3(2) lp(2) 3(1) s1(1,2) refl] by simp_all
    moreover have "free_node_mem f n = Inr ?f'"
      unfolding free_node_mem_def fd the_res_simps bind_res_simps s1_def [symmetric] Let_def using 3 by simp
    moreover have "live ?f' x = live f x" for x by simp
    ultimately show ?thesis using new [of ?f'] by blast
  qed
qed

text \<open>The configuration is never changed.\<close>

lemma alloc_node_remember: "alloc_node f = Inr (r, f') \<Longrightarrow> nm_remember f' = nm_remember f"
  by (auto simp: alloc_node_def alloc_slab_def mmap_def take_node_def Let_def bind_res_Inr_iff
      split: if_splits prod.splits option.splits list.splits)

lemma free_node_mem_remember: "free_node_mem f n = Inr f' \<Longrightarrow> nm_remember f' = nm_remember f"
  by (auto simp: free_node_mem_def free_slab_def Let_def bind_res_Inr_iff split: if_splits)

end
