(* ===== verification/File_Locks.thy ===== *)
theory File_Locks
  imports Fuse_Types
begin

text \<open>
  The byte range locks of a node in \<^verbatim>\<open>lib/fuse.c\<close>. The locks of all owners are in one list; those of
  one owner are sorted and do not overlap. Setting a lock splits, trims and joins the locks of its
  owner. The list promises a map from owners and offsets to the type of the lock held there.
\<close>

section \<open>The list of locks\<close>

record lock_t =
  lk_type :: int
  lk_start :: int
  lk_end :: int
  lk_pid :: int
  lk_owner :: int

definition F_RDLCK :: int where "F_RDLCK = 0"
definition F_WRLCK :: int where "F_WRLCK = 1"
definition F_UNLCK :: int where "F_UNLCK = 2"
definition OFFSET_MAX :: int where "OFFSET_MAX = 0x7fffffffffffffff"
definition ENOLCK :: int where "ENOLCK = 37"

lemmas lock_consts = F_RDLCK_def F_WRLCK_def F_UNLCK_def OFFSET_MAX_def

definition conflicts :: "lock_t \<Rightarrow> lock_t \<Rightarrow> bool" where
  "conflicts lock l \<longleftrightarrow> lk_owner l \<noteq> lk_owner lock \<and> lk_start lock \<le> lk_end l \<and> lk_start l \<le> lk_end lock \<and>
     (lk_type l = F_WRLCK \<or> lk_type lock = F_WRLCK)"

definition locks_conflict :: "lock_t list \<Rightarrow> lock_t \<Rightarrow> lock_t option" where
  "locks_conflict locks lock = List.find (conflicts lock) locks"

text \<open>The end of \<^verbatim>\<open>locks_insert\<close>: the lock goes where the loop stopped; \<open>newl1\<close> says whether there is memory for it.\<close>

definition insert_lock :: "bool \<Rightarrow> lock_t \<Rightarrow> lock_t list \<Rightarrow> lock_t list res" where
  "insert_lock newl1 lock ls =
     (if lk_type lock \<noteq> F_UNLCK then (if newl1 then Inr (lock # ls) else Inl NullPointer) else Inr ls)"

text \<open>
  The loop of \<^verbatim>\<open>locks_insert\<close>. A branch that goes to \<^verbatim>\<open>skip\<close> keeps the (changed) element, one that goes
  to \<^verbatim>\<open>delete\<close> drops it. \<open>newl2\<close> says whether the second piece of memory is still there.
\<close>

function locks_loop :: "bool \<Rightarrow> bool \<Rightarrow> lock_t \<Rightarrow> lock_t list \<Rightarrow> lock_t list res" where
  "locks_loop newl1 newl2 lock [] = insert_lock newl1 lock []"
| "locks_loop newl1 newl2 lock (l # ls) =
     (if lk_owner l \<noteq> lk_owner lock
      then bind_res (locks_loop newl1 newl2 lock ls) (\<lambda>r. Inr (l # r))
      else if lk_type lock = lk_type l
      then
        (if lk_end l < lk_start lock - 1
         then bind_res (locks_loop newl1 newl2 lock ls) (\<lambda>r. Inr (l # r))
         else if lk_end lock < lk_start l - 1
         then insert_lock newl1 lock (l # ls)
         else if lk_start l \<le> lk_start lock \<and> lk_end lock \<le> lk_end l
         then Inr (l # ls)
         else
           (let lock1 = (if lk_start l < lk_start lock then lock\<lparr>lk_start := lk_start l\<rparr> else lock);
                lock2 = (if lk_end lock1 < lk_end l then lock1\<lparr>lk_end := lk_end l\<rparr> else lock1) in
            locks_loop newl1 newl2 lock2 ls))
      else
        (if lk_end l < lk_start lock
         then bind_res (locks_loop newl1 newl2 lock ls) (\<lambda>r. Inr (l # r))
         else if lk_end lock < lk_start l
         then insert_lock newl1 lock (l # ls)
         else if lk_start lock \<le> lk_start l \<and> lk_end l \<le> lk_end lock
         then locks_loop newl1 newl2 lock ls
         else if lk_end l \<le> lk_end lock
         then bind_res (locks_loop newl1 newl2 lock ls) (\<lambda>r. Inr (l\<lparr>lk_end := lk_start lock - 1\<rparr> # r))
         else if lk_start lock \<le> lk_start l
         then insert_lock newl1 lock (l\<lparr>lk_start := lk_end lock + 1\<rparr> # ls)
         else if newl2
         then bind_res (locks_loop newl1 False lock (l\<lparr>lk_start := lk_end lock + 1\<rparr> # ls))
                (\<lambda>r. Inr (l\<lparr>lk_end := lk_start lock - 1\<rparr> # r))
         else Inl NullPointer))"
  by pat_completeness auto
termination
  by (relation "measures [\<lambda>(_, newl2, _, _). if newl2 then 1 else 0, \<lambda>(_, _, _, ls). length ls]") auto

text \<open>The two calls of \<^verbatim>\<open>malloc\<close> succeed or not.\<close>

definition locks_insert :: "bool \<Rightarrow> bool \<Rightarrow> lock_t list \<Rightarrow> lock_t \<Rightarrow> (int \<times> lock_t list) res" where
  "locks_insert ok1 ok2 locks lock =
     (let need = lk_type lock \<noteq> F_UNLCK \<or> lk_start lock \<noteq> 0 \<or> lk_end lock \<noteq> OFFSET_MAX in
      if need \<and> (\<not> ok1 \<or> \<not> ok2) then Inr (- ENOLCK, locks)
      else bind_res (locks_loop need need lock locks) (\<lambda>r. Inr (0, r)))"

text \<open>Conversion from and to \<^verbatim>\<open>struct flock\<close>; the sum of offset and length is an \<^verbatim>\<open>off_t\<close>.\<close>

definition chk_off :: "int \<Rightarrow> int res" where
  "chk_off x = (if - (2 ^ 63) \<le> x \<and> x < 2 ^ 63 then Inr x else Inl IntOverflow)"

definition flock_to_lock :: "flock_t \<Rightarrow> lock_t res" where
  "flock_to_lock flock =
     bind_res
       (if l_len flock \<noteq> 0 then bind_res (chk_off (l_start flock + l_len flock)) (\<lambda>s. chk_off (s - 1)) else Inr OFFSET_MAX)
       (\<lambda>e. Inr \<lparr>lk_type = l_type flock, lk_start = l_start flock, lk_end = e, lk_pid = l_pid flock, lk_owner = 0\<rparr>)"

definition lock_to_flock :: "lock_t \<Rightarrow> flock_t \<Rightarrow> flock_t res" where
  "lock_to_flock lock flock =
     bind_res
       (if lk_end lock = OFFSET_MAX then Inr 0
        else bind_res (chk_off (lk_end lock - lk_start lock)) (\<lambda>d. chk_off (d + 1)))
       (\<lambda>n. Inr (flock\<lparr>l_type := lk_type lock, l_start := lk_start lock, l_len := n, l_pid := lk_pid lock\<rparr>))"

section \<open>What the list promises\<close>

text \<open>The type of lock an owner holds at an offset.\<close>

definition held :: "lock_t list \<Rightarrow> int \<Rightarrow> int \<Rightarrow> int \<Rightarrow> bool" where
  "held ls ow x t \<longleftrightarrow> (\<exists>l \<in> set ls. lk_owner l = ow \<and> lk_start l \<le> x \<and> x \<le> lk_end l \<and> lk_type l = t)"

definition range_ok :: "lock_t \<Rightarrow> bool" where
  "range_ok l \<longleftrightarrow> 0 \<le> lk_start l \<and> lk_start l \<le> lk_end l \<and> lk_end l \<le> OFFSET_MAX"

definition before :: "lock_t \<Rightarrow> lock_t \<Rightarrow> bool" where
  "before a b \<longleftrightarrow> (lk_owner a = lk_owner b \<longrightarrow> lk_end a < lk_start b)"

definition locks_ok :: "lock_t list \<Rightarrow> bool" where
  "locks_ok ls \<longleftrightarrow> (\<forall>l \<in> set ls. range_ok l \<and> lk_type l \<in> {F_RDLCK, F_WRLCK}) \<and> sorted_wrt before ls"

text \<open>Setting a lock on the map of held locks.\<close>

definition set_range :: "lock_t \<Rightarrow> (int \<Rightarrow> int \<Rightarrow> int \<Rightarrow> bool) \<Rightarrow> int \<Rightarrow> int \<Rightarrow> int \<Rightarrow> bool" where
  "set_range lock h ow x t \<longleftrightarrow>
     (if ow = lk_owner lock \<and> lk_start lock \<le> x \<and> x \<le> lk_end lock then t = lk_type lock \<and> t \<noteq> F_UNLCK else h ow x t)"

text \<open>
  What the loop guarantees: the result is in order, it is the map with the range set, and no lock
  starts before every lock that was there and the new one.
\<close>

definition above :: "int \<Rightarrow> int \<Rightarrow> lock_t list \<Rightarrow> bool" where
  "above ow k ls \<longleftrightarrow> (\<forall>l \<in> set ls. lk_owner l = ow \<longrightarrow> k < lk_start l)"

definition loop_post :: "lock_t \<Rightarrow> lock_t list \<Rightarrow> lock_t list \<Rightarrow> bool" where
  "loop_post lock ls r \<longleftrightarrow> locks_ok r \<and> (\<forall>ow x t. held r ow x t \<longleftrightarrow> set_range lock (held ls) ow x t) \<and>
     (\<forall>ow k. above ow k ls \<longrightarrow> (ow = lk_owner lock \<longrightarrow> k < lk_start lock) \<longrightarrow> above ow k r)"

lemma locks_ok_Cons:
  "locks_ok (l # ls) \<longleftrightarrow> range_ok l \<and> lk_type l \<in> {F_RDLCK, F_WRLCK} \<and> above (lk_owner l) (lk_end l) ls \<and> locks_ok ls"
  by (auto simp: locks_ok_def before_def above_def)

lemma held_Cons:
  "held (l # ls) ow x t \<longleftrightarrow> (lk_owner l = ow \<and> lk_start l \<le> x \<and> x \<le> lk_end l \<and> lk_type l = t) \<or> held ls ow x t"
  by (auto simp: held_def)

lemma above_Cons: "above ow k (l # ls) \<longleftrightarrow> (lk_owner l = ow \<longrightarrow> k < lk_start l) \<and> above ow k ls"
  by (auto simp: above_def)

lemma above_held: "above ow k ls \<Longrightarrow> x \<le> k \<Longrightarrow> \<not> held ls ow x t"
  by (auto simp: above_def held_def)

lemma above_mono: "above ow k ls \<Longrightarrow> k' \<le> k \<Longrightarrow> above ow k' ls"
  by (auto simp: above_def)

lemmas lock_simps = locks_ok_Cons held_Cons above_Cons

text \<open>Keeping an element in front of the result of the loop.\<close>

lemma post_skip:
  assumes "loop_post lock ls r" "locks_ok (l # ls)" "lk_owner l = lk_owner lock \<longrightarrow> lk_end l < lk_start lock"
  shows "loop_post lock (l # ls) (l # r)"
  using assms by (auto simp: loop_post_def lock_simps set_range_def)

lemma post_insert:
  assumes "insert_lock n1 lock ls = Inr r" "locks_ok ls" "range_ok lock" "lk_type lock \<in> {F_RDLCK, F_WRLCK, F_UNLCK}"
    "above (lk_owner lock) (lk_end lock) ls"
  shows "loop_post lock ls r"
proof (cases "lk_type lock = F_UNLCK")
  case True
  then have r: "r = ls" using assms(1) by (simp add: insert_lock_def)
  have "held ls ow x t \<longleftrightarrow> set_range lock (held ls) ow x t" for ow x t
    using above_held [OF assms(5)] True by (auto simp: set_range_def)
  then show ?thesis
    unfolding r loop_post_def using assms(2) by blast
next
  case False
  then have r: "r = lock # ls" using assms(1) by (simp add: insert_lock_def split: if_splits)
  have "held (lock # ls) ow x t \<longleftrightarrow> set_range lock (held ls) ow x t" for ow x t
    using above_held [OF assms(5)] False by (auto simp: set_range_def held_Cons)
  then show ?thesis
    unfolding r loop_post_def using assms False by (auto simp: locks_ok_Cons above_Cons)
qed

text \<open>Joining: the lock takes over a lock of its type that overlaps it or touches it.\<close>

lemma post_join:
  assumes post: "loop_post lock2 ls r" and ok: "locks_ok (l # ls)" "range_ok lock"
    and l: "lk_owner l = lk_owner lock" "lk_type lock = lk_type l" "lk_start lock - 1 \<le> lk_end l" "lk_start l - 1 \<le> lk_end lock"
    and lock2: "lk_owner lock2 = lk_owner lock" "lk_type lock2 = lk_type lock"
      "lk_start lock2 = min (lk_start l) (lk_start lock)" "lk_end lock2 = max (lk_end l) (lk_end lock)"
  shows "loop_post lock (l # ls) r"
proof -
  have a: "above (lk_owner lock) (lk_end l) ls" and t: "lk_type l \<noteq> F_UNLCK"
    using ok l(1) by (auto simp: locks_ok_Cons lock_consts)
  have "set_range lock2 (held ls) ow x u \<longleftrightarrow> set_range lock (held (l # ls)) ow x u" for ow x u
    using above_held [OF a] l t lock2 by (auto simp: set_range_def held_Cons)
  moreover have "above ow k (l # ls) \<Longrightarrow> ow = lk_owner lock \<longrightarrow> k < lk_start lock \<Longrightarrow> above ow k r" for ow k
    using post l(1) lock2 by (auto simp: loop_post_def above_Cons)
  ultimately show ?thesis
    using post unfolding loop_post_def by blast
qed

lemma post_contained:
  assumes "locks_ok (l # ls)" "lk_owner l = lk_owner lock" "lk_type lock = lk_type l" "lk_start l \<le> lk_start lock" "lk_end lock \<le> lk_end l"
  shows "loop_post lock (l # ls) (l # ls)"
proof -
  have "above (lk_owner lock) (lk_end l) ls" "lk_type l \<noteq> F_UNLCK"
    using assms by (auto simp: locks_ok_Cons lock_consts)
  then have "held (l # ls) ow x u \<longleftrightarrow> set_range lock (held (l # ls)) ow x u" for ow x u
    using assms above_held [of "lk_owner lock" "lk_end l" ls x u] by (auto simp: set_range_def held_Cons)
  then show ?thesis
    using assms(1) unfolding loop_post_def by blast
qed

text \<open>Deleting, trimming and splitting a lock of another type.\<close>

lemma post_delete:
  assumes "loop_post lock ls r" "lk_owner l = lk_owner lock" "lk_start lock \<le> lk_start l" "lk_end l \<le> lk_end lock"
  shows "loop_post lock (l # ls) r"
  using assms by (auto simp: loop_post_def above_Cons held_Cons set_range_def)

lemma post_above:
  "loop_post lock ls r \<Longrightarrow> above (lk_owner lock) k ls \<Longrightarrow> lk_start lock - 1 \<le> k \<Longrightarrow> above (lk_owner lock) (lk_start lock - 1) r"
  using above_mono [of "lk_owner lock" k ls "lk_start lock - 1"] by (simp add: loop_post_def)

lemma post_trim_end:
  assumes "loop_post lock ls r" "locks_ok (l # ls)" "lk_owner l = lk_owner lock" "lk_start l < lk_start lock"
    "lk_start lock \<le> lk_end l" "lk_end l \<le> lk_end lock"
  shows "loop_post lock (l # ls) (l\<lparr>lk_end := lk_start lock - 1\<rparr> # r)"
proof -
  have a: "above (lk_owner lock) (lk_start lock - 1) r"
    using assms by (intro post_above [OF assms(1), of "lk_end l"]) (auto simp: locks_ok_Cons)
  show ?thesis
    using assms a by (auto simp: loop_post_def lock_simps set_range_def range_ok_def)
qed

lemma post_trim_start:
  assumes "loop_post lock (l\<lparr>lk_start := lk_end lock + 1\<rparr> # ls) r" "lk_owner l = lk_owner lock" "lk_start lock \<le> lk_start l"
    "lk_start l \<le> lk_end lock"
  shows "loop_post lock (l # ls) r"
  using assms by (auto simp: loop_post_def held_Cons above_Cons set_range_def)

lemma post_split:
  assumes "loop_post lock (l\<lparr>lk_start := lk_end lock + 1\<rparr> # ls) r" "locks_ok (l # ls)" "range_ok lock" "lk_owner l = lk_owner lock"
    "lk_start l < lk_start lock" "lk_end lock < lk_end l"
  shows "loop_post lock (l # ls) (l\<lparr>lk_end := lk_start lock - 1\<rparr> # r)"
proof -
  have a: "above (lk_owner lock) (lk_start lock - 1) r"
    using assms by (intro post_above [OF assms(1), of "lk_end lock"])
      (auto simp: lock_simps range_ok_def elim: above_mono)
  show ?thesis
    using assms a by (auto simp: loop_post_def lock_simps set_range_def range_ok_def)
qed

definition loop_pre :: "bool \<Rightarrow> bool \<Rightarrow> lock_t \<Rightarrow> lock_t list \<Rightarrow> bool" where
  "loop_pre n1 n2 lock ls \<longleftrightarrow> locks_ok ls \<and> range_ok lock \<and> lk_type lock \<in> {F_RDLCK, F_WRLCK, F_UNLCK} \<and>
     (n1 \<or> lk_type lock = F_UNLCK) \<and>
     (n2 \<or> lk_start lock = 0 \<and> lk_end lock = OFFSET_MAX \<or> above (lk_owner lock) (lk_end lock) ls)"

lemma insert_lock_ok: "n1 \<or> lk_type lock = F_UNLCK \<Longrightarrow> \<exists>r. insert_lock n1 lock ls = Inr r"
  by (auto simp: insert_lock_def)

definition loop_good :: "bool \<Rightarrow> bool \<Rightarrow> lock_t list \<Rightarrow> bool" where
  "loop_good n1 n2 ls \<longleftrightarrow>
     (\<forall>lock. loop_pre n1 n2 lock ls \<longrightarrow> (\<exists>r. locks_loop n1 n2 lock ls = Inr r \<and> loop_post lock ls r))"

lemma loop_goodD:
  "loop_good n1 n2 ls \<Longrightarrow> loop_pre n1 n2 lock ls \<Longrightarrow> \<exists>r. locks_loop n1 n2 lock ls = Inr r \<and> loop_post lock ls r"
  by (simp add: loop_good_def)

lemma loop_preD:
  assumes "loop_pre n1 n2 lock (l # ls)"
  shows "locks_ok (l # ls)" "range_ok lock" "range_ok l" "above (lk_owner l) (lk_end l) ls" "loop_pre n1 n2 lock ls"
  using assms by (auto simp: loop_pre_def locks_ok_Cons above_Cons)

lemma loop_place:
  assumes "loop_pre n1 n2 lock ls'" "locks_ok ls" "above (lk_owner lock) (lk_end lock) ls"
  shows "\<exists>r. insert_lock n1 lock ls = Inr r \<and> loop_post lock ls r"
  using assms insert_lock_ok [of n1 lock ls] post_insert [of n1 lock ls] by (auto simp: loop_pre_def)

lemma loop_skip:
  assumes "loop_good n1 n2 ls" "loop_pre n1 n2 lock (l # ls)" "lk_owner l = lk_owner lock \<longrightarrow> lk_end l < lk_start lock"
  shows "\<exists>r. bind_res (locks_loop n1 n2 lock ls) (\<lambda>r. Inr (l # r)) = Inr r \<and> loop_post lock (l # ls) r"
  using loop_goodD [OF assms(1) loop_preD(5) [OF assms(2)]] post_skip [OF _ loop_preD(1) [OF assms(2)] assms(3)] by force

lemma loop_up:
  assumes "loop_pre n1 n2 lock (l # ls)" "lk_end lock < lk_start l" "lk_owner l = lk_owner lock"
  shows "above (lk_owner lock) (lk_end lock) (l # ls)"
  using loop_preD(3,4) [OF assms(1)] assms(2,3) by (auto simp: above_Cons range_ok_def elim: above_mono)

lemma loop_join:
  assumes good: "loop_good n1 n2 ls" and pre: "loop_pre n1 n2 lock (l # ls)"
    and l: "lk_owner l = lk_owner lock" "lk_type lock = lk_type l" "lk_start lock - 1 \<le> lk_end l" "lk_start l - 1 \<le> lk_end lock"
    and lock2: "lk_owner lock2 = lk_owner lock" "lk_type lock2 = lk_type lock"
      "lk_start lock2 = min (lk_start l) (lk_start lock)" "lk_end lock2 = max (lk_end l) (lk_end lock)"
  shows "\<exists>r. locks_loop n1 n2 lock2 ls = Inr r \<and> loop_post lock (l # ls) r"
proof -
  note p = loop_preD [OF pre]
  have "loop_pre n1 n2 lock2 ls"
    using pre p l(1,2) lock2 by (auto simp: loop_pre_def locks_ok_Cons above_Cons range_ok_def max_def min_def)
  with good show ?thesis
    using post_join [OF _ p(1,2) l lock2] loop_goodD by blast
qed

lemma loop_same:
  assumes good: "loop_good n1 n2 ls" and pre: "loop_pre n1 n2 lock (l # ls)"
    and l: "lk_owner l = lk_owner lock" "lk_type lock = lk_type l"
  shows "\<exists>r. locks_loop n1 n2 lock (l # ls) = Inr r \<and> loop_post lock (l # ls) r"
proof -
  note p = loop_preD [OF pre]
  define lock1 where "lock1 = (if lk_start l < lk_start lock then lock\<lparr>lk_start := lk_start l\<rparr> else lock)"
  define lock2 where "lock2 = (if lk_end lock1 < lk_end l then lock1\<lparr>lk_end := lk_end l\<rparr> else lock1)"
  have l2: "lk_owner lock2 = lk_owner lock" "lk_type lock2 = lk_type lock" "lk_start lock2 = min (lk_start l) (lk_start lock)"
    "lk_end lock2 = max (lk_end l) (lk_end lock)"
    by (simp_all add: lock1_def lock2_def)
  consider "lk_end l < lk_start lock - 1" | "lk_start lock - 1 \<le> lk_end l" "lk_end lock < lk_start l - 1"
    | "lk_start l \<le> lk_start lock" "lk_end lock \<le> lk_end l"
    | "lk_start lock - 1 \<le> lk_end l" "lk_start l - 1 \<le> lk_end lock" "\<not> (lk_start l \<le> lk_start lock \<and> lk_end lock \<le> lk_end l)"
    by linarith
  then show ?thesis
  proof cases
    case 1
    then show ?thesis using loop_skip [OF good pre] l by simp
  next
    case 2
    then show ?thesis using loop_place [OF pre p(1) loop_up [OF pre]] l by simp
  next
    case 3
    then have "locks_loop n1 n2 lock (l # ls) = Inr (l # ls)"
      using l p(2,3) by (simp add: range_ok_def)
    with post_contained [OF p(1) l 3] show ?thesis by blast
  next
    case 4
    then have "locks_loop n1 n2 lock (l # ls) = locks_loop n1 n2 lock2 ls"
      using l by (auto simp: lock1_def lock2_def Let_def)
    with loop_join [OF good pre l 4(1,2) l2] show ?thesis by simp
  qed
qed

text \<open>A lock of another type that starts before and ends after the new one is split.\<close>

lemma loop_split:
  assumes good: "n2 \<Longrightarrow> loop_good n1 False (l\<lparr>lk_start := lk_end lock + 1\<rparr> # ls)" and pre: "loop_pre n1 n2 lock (l # ls)"
    and l: "lk_owner l = lk_owner lock" "lk_start l < lk_start lock" "lk_end lock < lk_end l"
  shows "n2" "\<exists>r. bind_res (locks_loop n1 False lock (l\<lparr>lk_start := lk_end lock + 1\<rparr> # ls))
      (\<lambda>r. Inr (l\<lparr>lk_end := lk_start lock - 1\<rparr> # r)) = Inr r \<and> loop_post lock (l # ls) r"
proof -
  note p = loop_preD [OF pre]
  show n2: "n2"
    using pre p(2,3) l by (auto simp: loop_pre_def above_Cons range_ok_def)
  have "loop_pre n1 False lock (l\<lparr>lk_start := lk_end lock + 1\<rparr> # ls)"
    using pre p(2,3,4) l by (auto simp: loop_pre_def locks_ok_Cons above_Cons range_ok_def elim: above_mono)
  from loop_goodD [OF good [OF n2] this] show "\<exists>r. bind_res (locks_loop n1 False lock (l\<lparr>lk_start := lk_end lock + 1\<rparr> # ls))
      (\<lambda>r. Inr (l\<lparr>lk_end := lk_start lock - 1\<rparr> # r)) = Inr r \<and> loop_post lock (l # ls) r"
    using post_split [OF _ p(1,2) l] by fastforce
qed

lemma loop_diff:
  assumes good: "loop_good n1 n2 ls" "n2 \<Longrightarrow> loop_good n1 False (l\<lparr>lk_start := lk_end lock + 1\<rparr> # ls)"
    and pre: "loop_pre n1 n2 lock (l # ls)" and l: "lk_owner l = lk_owner lock" "lk_type lock \<noteq> lk_type l"
  shows "\<exists>r. locks_loop n1 n2 lock (l # ls) = Inr r \<and> loop_post lock (l # ls) r"
proof -
  note p = loop_preD [OF pre]
  obtain r where r: "locks_loop n1 n2 lock ls = Inr r" "loop_post lock ls r"
    using loop_goodD [OF good(1) p(5)] by blast
  consider "lk_end l < lk_start lock" | "lk_start lock \<le> lk_end l" "lk_end lock < lk_start l"
    | "lk_start lock \<le> lk_start l" "lk_end l \<le> lk_end lock"
    | "lk_start l < lk_start lock" "lk_start lock \<le> lk_end l" "lk_end l \<le> lk_end lock"
    | "lk_start lock \<le> lk_start l" "lk_start l \<le> lk_end lock" "lk_end lock < lk_end l"
    | "lk_start l < lk_start lock" "lk_end lock < lk_end l"
    by linarith
  then show ?thesis
  proof cases
    case 1
    then show ?thesis using loop_skip [OF good(1) pre] l by simp
  next
    case 2
    then show ?thesis using loop_place [OF pre p(1) loop_up [OF pre]] l by simp
  next
    case 3
    then show ?thesis using r post_delete [OF r(2) l(1) 3] p(2,3) l by (simp add: range_ok_def)
  next
    case 4
    then show ?thesis using r post_trim_end [OF r(2) p(1) l(1) 4] p(2,3) l by (simp add: range_ok_def)
  next
    case 5
    let ?l = "l\<lparr>lk_start := lk_end lock + 1\<rparr>"
    have "locks_ok (?l # ls)" "above (lk_owner lock) (lk_end lock) (?l # ls)"
      using p(1,2,3,4) 5 l(1) by (auto simp: locks_ok_Cons above_Cons range_ok_def elim: above_mono)
    from loop_place [OF pre this] obtain r' where "insert_lock n1 lock (?l # ls) = Inr r'" "loop_post lock (?l # ls) r'" by blast
    then show ?thesis using post_trim_start [OF _ l(1) 5(1,2)] 5 p(2,3) l by (auto simp: range_ok_def)
  next
    case 6
    then show ?thesis using loop_split [OF good(2) pre l(1) 6] p(2,3) l by (simp add: range_ok_def)
  qed
qed

lemma loop_good_Nil: "loop_good n1 n2 []"
proof -
  have "\<exists>r. insert_lock n1 lock [] = Inr r \<and> loop_post lock [] r" if "loop_pre n1 n2 lock []" for lock
    using loop_place [OF that] that by (simp add: above_def loop_pre_def)
  then show ?thesis by (simp add: loop_good_def)
qed

lemma loop_good_Cons:
  assumes "loop_good n1 n2 ls" "\<And>l :: lock_t. n2 \<Longrightarrow> loop_good n1 False (l # ls)"
  shows "loop_good n1 n2 (l # ls)"
  unfolding loop_good_def
proof (intro allI impI)
  fix lock
  assume pre: "loop_pre n1 n2 lock (l # ls)"
  consider "lk_owner l \<noteq> lk_owner lock" | "lk_owner l = lk_owner lock" "lk_type lock = lk_type l"
    | "lk_owner l = lk_owner lock" "lk_type lock \<noteq> lk_type l"
    by blast
  then show "\<exists>r. locks_loop n1 n2 lock (l # ls) = Inr r \<and> loop_post lock (l # ls) r"
  proof cases
    case 1
    then show ?thesis using loop_skip [OF assms(1) pre] by simp
  next
    case 2
    then show ?thesis using loop_same [OF assms(1) pre] by blast
  next
    case 3
    then show ?thesis using loop_diff [OF assms(1) _ pre] assms(2) by blast
  qed
qed

lemma locks_loop_good: "loop_good n1 n2 ls"
proof (induction ls arbitrary: n2)
  case Nil
  show ?case by (rule loop_good_Nil)
next
  case (Cons l ls)
  have "loop_good n1 False (l # ls)" for l :: lock_t
    by (rule loop_good_Cons [OF Cons.IH]) simp
  then show ?case
    by (rule loop_good_Cons [OF Cons.IH])
qed

section \<open>Properties\<close>

lemma locks_loop_post:
  "loop_pre n1 n2 lock ls \<Longrightarrow> \<exists>r. locks_loop n1 n2 lock ls = Inr r \<and> loop_post lock ls r"
  by (rule loop_goodD [OF locks_loop_good])

text \<open>
  (C31) Setting a lock never dereferences a null pointer and keeps the list in order. Without memory
  it fails with \<^verbatim>\<open>ENOLCK\<close> and changes nothing; otherwise the owner holds the new type exactly on the
  range of the lock, whatever locks it splits, trims, joins or replaces, and every other owner and
  offset keep what they had. Giving up everything needs no memory.
\<close>

theorem locks_insert_refines:
  assumes "locks_ok locks" "range_ok lock" "lk_type lock \<in> {F_RDLCK, F_WRLCK, F_UNLCK}"
  shows "\<exists>err locks'. locks_insert ok1 ok2 locks lock = Inr (err, locks') \<and> locks_ok locks' \<and>
     (err = 0 \<and> held locks' = set_range lock (held locks) \<or> err = - ENOLCK \<and> locks' = locks \<and> \<not> (ok1 \<and> ok2)) \<and>
     (lk_type lock = F_UNLCK \<and> lk_start lock = 0 \<and> lk_end lock = OFFSET_MAX \<longrightarrow> err = 0)"
proof -
  define need where "need \<longleftrightarrow> lk_type lock \<noteq> F_UNLCK \<or> lk_start lock \<noteq> 0 \<or> lk_end lock \<noteq> OFFSET_MAX"
  have "loop_pre need need lock locks"
    using assms by (auto simp: loop_pre_def need_def)
  then obtain r where r: "locks_loop need need lock locks = Inr r" "loop_post lock locks r"
    using locks_loop_post by blast
  then have "held r = set_range lock (held locks)"
    by (simp add: loop_post_def fun_eq_iff)
  then show ?thesis
    using r assms(1) unfolding locks_insert_def need_def [symmetric] Let_def
    by (auto simp: loop_post_def need_def ENOLCK_def)
qed

theorem locks_insert_refines_witness:
  "held [\<lparr>lk_type = F_RDLCK, lk_start = 0, lk_end = 3, lk_pid = 7, lk_owner = 1\<rparr>,
         \<lparr>lk_type = F_WRLCK, lk_start = 4, lk_end = 5, lk_pid = 7, lk_owner = 1\<rparr>,
         \<lparr>lk_type = F_RDLCK, lk_start = 6, lk_end = 9, lk_pid = 7, lk_owner = 1\<rparr>] =
   set_range \<lparr>lk_type = F_WRLCK, lk_start = 4, lk_end = 5, lk_pid = 7, lk_owner = 1\<rparr>
     (held [\<lparr>lk_type = F_RDLCK, lk_start = 0, lk_end = 9, lk_pid = 7, lk_owner = 1\<rparr>])"
proof -
  let ?old = "[\<lparr>lk_type = F_RDLCK, lk_start = 0, lk_end = 9, lk_pid = 7, lk_owner = 1\<rparr>]"
  let ?lock = "\<lparr>lk_type = F_WRLCK, lk_start = 4, lk_end = 5, lk_pid = 7, lk_owner = 1\<rparr>"
  have "locks_ok ?old" "range_ok ?lock" "lk_type ?lock \<in> {F_RDLCK, F_WRLCK, F_UNLCK}"
    by (simp_all add: locks_ok_def range_ok_def lock_consts)
  note locks_insert_refines [OF this, of True True]
  moreover have "locks_insert True True ?old ?lock =
      Inr (0, [\<lparr>lk_type = F_RDLCK, lk_start = 0, lk_end = 3, lk_pid = 7, lk_owner = 1\<rparr>,
         \<lparr>lk_type = F_WRLCK, lk_start = 4, lk_end = 5, lk_pid = 7, lk_owner = 1\<rparr>,
         \<lparr>lk_type = F_RDLCK, lk_start = 6, lk_end = 9, lk_pid = 7, lk_owner = 1\<rparr>])"
    by (simp add: locks_insert_def insert_lock_def lock_consts)
  ultimately show ?thesis by simp
qed

text \<open>
  A conflict is found exactly when another owner holds a lock on the range, and one of the two is a
  write lock.
\<close>

lemma locks_conflict_held:
  assumes "locks_ok locks" "range_ok lock"
  shows "locks_conflict locks lock = None \<longleftrightarrow>
     \<not> (\<exists>ow x t. ow \<noteq> lk_owner lock \<and> lk_start lock \<le> x \<and> x \<le> lk_end lock \<and> held locks ow x t \<and>
          (t = F_WRLCK \<or> lk_type lock = F_WRLCK))" (is "_ \<longleftrightarrow> \<not> ?c")
proof -
  have "(\<exists>l \<in> set locks. conflicts lock l) \<longleftrightarrow> ?c"
  proof
    assume "\<exists>l \<in> set locks. conflicts lock l"
    then obtain l where l: "l \<in> set locks" "conflicts lock l" by blast
    then have "range_ok l" using assms(1) by (simp add: locks_ok_def)
    then have "held locks (lk_owner l) (max (lk_start l) (lk_start lock)) (lk_type l)"
      using l by (auto simp: held_def conflicts_def range_ok_def)
    then show ?c
      using l(2) \<open>range_ok l\<close> assms(2) by (intro exI conjI) (auto simp: conflicts_def range_ok_def)
  next
    assume ?c
    then show "\<exists>l \<in> set locks. conflicts lock l"
      by (force simp: held_def conflicts_def)
  qed
  then show ?thesis
    by (auto simp: locks_conflict_def find_None_iff)
qed

text \<open>A lock reported to the kernel and read back is the same range.\<close>

lemma flock_roundtrip:
  assumes "range_ok lock" "lk_owner lock = 0" "lock_to_flock lock flock = Inr fl"
  shows "flock_to_lock fl = Inr lock"
  using assms
  by (cases lock) (auto simp: lock_to_flock_def flock_to_lock_def chk_off_def range_ok_def OFFSET_MAX_def
      bind_res_Inr_iff split: if_splits)

end
