(* ===== verification/Fuse_Nodes.thy ===== *)
theory Fuse_Nodes
  imports Node_Table Node_Slab File_Locks
begin

unbundle bit_operations_syntax

text \<open>
  The nodes of \<^verbatim>\<open>lib/fuse.c\<close>, which stand for the files the kernel knows: their numbers, names and
  parents, how long they are kept (\<^verbatim>\<open>nlookup\<close>, \<^verbatim>\<open>refctr\<close>), and the operations that find, forget,
  remove and rename them. A node lives on a heap, at the address the allocator gave it. The chains
  through \<^verbatim>\<open>name_next\<close> and \<^verbatim>\<open>id_next\<close> are the buckets of the two tables. A failed assertion and
  \<^verbatim>\<open>abort\<close> are faults. Messages on the standard error are left out.
\<close>

section \<open>State\<close>

record fnode =
  nd_nodeid :: "64 word"
  nd_generation :: "32 word"
  nd_refctr :: int
  nd_parent :: "nat option"
  nd_name :: "string option"
  nd_nlookup :: "64 word"
  nd_open_count :: int
  nd_stat_updated :: timespec
  nd_mtime :: timespec
  nd_size :: int
  nd_locks :: "lock_t list"
  nd_is_hidden :: bool
  nd_cache_valid :: bool
  nd_treelock :: int
  nd_forget_time :: timespec

definition zero_node :: fnode where
  "zero_node = \<lparr>nd_nodeid = 0, nd_generation = 0, nd_refctr = 0, nd_parent = None, nd_name = None, nd_nlookup = 0,
     nd_open_count = 0, nd_stat_updated = \<lparr>tv_sec = 0, tv_nsec = 0\<rparr>, nd_mtime = \<lparr>tv_sec = 0, tv_nsec = 0\<rparr>, nd_size = 0,
     nd_locks = [], nd_is_hidden = False, nd_cache_valid = False, nd_treelock = 0,
     nd_forget_time = \<lparr>tv_sec = 0, tv_nsec = 0\<rparr>\<rparr>"

text \<open>
  The part of \<^verbatim>\<open>struct fuse\<close> that the nodes use. The outcomes of the coming calls of \<^verbatim>\<open>realloc\<close> and
  \<^verbatim>\<open>strdup\<close>, and the coming readings of the clock, are part of the state.
\<close>

record fuse_nodes =
  fn_heap :: "nat \<Rightarrow> fnode option"
  fn_names :: node_table
  fn_ids :: node_table
  fn_lru :: "nat list"
  fn_ctr :: "64 word"
  fn_generation :: "32 word"
  fn_mem :: node_mem
  fn_realloc :: "bool list"
  fn_clock :: "timespec list"

definition FUSE_ROOT_ID :: "64 word" where "FUSE_ROOT_ID = 1"
definition FUSE_UNKNOWN_INO :: "64 word" where "FUSE_UNKNOWN_INO = 0xffffffff"

definition conf_remember :: "fuse_nodes \<Rightarrow> int" where
  "conf_remember f = nm_remember (fn_mem f)"

definition node :: "fuse_nodes \<Rightarrow> nat \<Rightarrow> fnode res" where
  "node f n = the_res (fn_heap f n) NullPointer"

definition put_node :: "nat \<Rightarrow> fnode \<Rightarrow> fuse_nodes \<Rightarrow> fuse_nodes" where
  "put_node n d f = f\<lparr>fn_heap := (fn_heap f)(n \<mapsto> d)\<rparr>"

definition next_ok :: "fuse_nodes \<Rightarrow> bool \<times> fuse_nodes" where
  "next_ok f = (case fn_realloc f of [] \<Rightarrow> (True, f) | b # bs \<Rightarrow> (b, f\<lparr>fn_realloc := bs\<rparr>))"

definition curr_time :: "fuse_nodes \<Rightarrow> (timespec \<times> fuse_nodes) res" where
  "curr_time f = (case fn_clock f of [] \<Rightarrow> Inl AssertFailed | t # ts \<Rightarrow> Inr (t, f\<lparr>fn_clock := ts\<rparr>))"

text \<open>The chain a hash leads to.\<close>

definition chain :: "node_table \<Rightarrow> nat \<Rightarrow> nat list res" where
  "chain t hash = (if hash < length (tb_array t) then Inr (tb_array t ! hash) else Inl OutOfBounds)"

section \<open>The table of numbers\<close>

definition id_raw :: "64 word \<Rightarrow> nat" where
  "id_raw ino = unat ((ucast ino :: 32 word) * 2654435761)"

definition id_hash :: "fuse_nodes \<Rightarrow> 64 word \<Rightarrow> nat" where
  "id_hash f ino = slot (fn_ids f) (id_raw ino)"

text \<open>The number that is hashed for a node on the heap; a table that is spread again reads it for every node of a chain.\<close>

definition raw_id :: "(nat \<Rightarrow> fnode option) \<Rightarrow> nat \<Rightarrow> nat" where
  "raw_id h n = (case h n of None \<Rightarrow> 0 | Some d \<Rightarrow> id_raw (nd_nodeid d))"

fun find_id :: "fuse_nodes \<Rightarrow> 64 word \<Rightarrow> nat list \<Rightarrow> nat option res" where
  "find_id f ino [] = Inr None"
| "find_id f ino (n # ns) =
     bind_res (node f n) (\<lambda>d. if nd_nodeid d = ino then Inr (Some n) else find_id f ino ns)"

definition get_node_nocheck :: "fuse_nodes \<Rightarrow> 64 word \<Rightarrow> nat option res" where
  "get_node_nocheck f nodeid = bind_res (chain (fn_ids f) (id_hash f nodeid)) (find_id f nodeid)"

definition get_node :: "fuse_nodes \<Rightarrow> 64 word \<Rightarrow> nat res" where
  "get_node f nodeid = bind_res (get_node_nocheck f nodeid) (\<lambda>r. the_res r AssertFailed)"

definition remove_node_lru :: "nat \<Rightarrow> fuse_nodes \<Rightarrow> fuse_nodes" where
  "remove_node_lru n f = f\<lparr>fn_lru := remove1 n (fn_lru f)\<rparr>"

definition set_forget_time :: "fuse_nodes \<Rightarrow> nat \<Rightarrow> fuse_nodes res" where
  "set_forget_time f n =
     (let f1 = f\<lparr>fn_lru := remove1 n (fn_lru f) @ [n]\<rparr> in
      bind_res (curr_time f1) (\<lambda>(now, f2). bind_res (node f2 n) (\<lambda>d. Inr (put_node n (d\<lparr>nd_forget_time := now\<rparr>) f2))))"

definition free_node :: "fuse_nodes \<Rightarrow> nat \<Rightarrow> fuse_nodes res" where
  "free_node f n =
     bind_res (free_node_mem (fn_mem f) n) (\<lambda>m. Inr (f\<lparr>fn_mem := m, fn_heap := (fn_heap f)(n := None)\<rparr>))"

definition unhash_id :: "fuse_nodes \<Rightarrow> nat \<Rightarrow> fuse_nodes res" where
  "unhash_id f n =
     bind_res (node f n) (\<lambda>d.
     bind_res (chain (fn_ids f) (id_hash f (nd_nodeid d))) (\<lambda>_.
       case table_unlink (raw_id (fn_heap f)) n (fn_ids f) of
         None \<Rightarrow> Inr f
       | Some t \<Rightarrow> (let (ok, f1) = next_ok f in Inr (f1\<lparr>fn_ids := table_release ok t\<rparr>))))"

text \<open>The chain that an insertion spreads, if any: every node of it is read.\<close>

definition spread :: "node_table \<Rightarrow> nat list" where
  "spread t =
     (if tb_size t div 2 \<le> tb_use t + 1 \<and> tb_split t \<noteq> tb_size t div 2 then tb_array t ! tb_split t else [])"

definition hash_id :: "fuse_nodes \<Rightarrow> nat \<Rightarrow> fuse_nodes res" where
  "hash_id f n =
     bind_res (node f n) (\<lambda>d.
     bind_res (chain (fn_ids f) (id_hash f (nd_nodeid d))) (\<lambda>_.
       let (ok, f1) = next_ok f in
       bind_res (guard_res (\<forall>m \<in> set (spread (fn_ids f)). fn_heap f m \<noteq> None) NullPointer) (\<lambda>_.
         Inr (f1\<lparr>fn_ids := table_insert ok (raw_id (fn_heap f)) n (fn_ids f)\<rparr>))))"

section \<open>The table of names\<close>

fun name_raw :: "64 word \<Rightarrow> string \<Rightarrow> 64 word" where
  "name_raw hash [] = hash"
| "name_raw hash (c # cs) = name_raw (hash * 31 + of_nat (of_char c)) cs"

definition name_hash :: "fuse_nodes \<Rightarrow> 64 word \<Rightarrow> string \<Rightarrow> nat" where
  "name_hash f parent name = slot (fn_names f) (unat (name_raw parent name))"

text \<open>The place of a node in the tree: the number of its parent and its name.\<close>

definition node_key :: "(nat \<Rightarrow> fnode option) \<Rightarrow> nat \<Rightarrow> (64 word \<times> string) option" where
  "node_key h n =
     (case h n of
        None \<Rightarrow> None
      | Some d \<Rightarrow>
          (case (nd_parent d, nd_name d) of
             (Some p, Some name) \<Rightarrow> (case h p of None \<Rightarrow> None | Some pd \<Rightarrow> Some (nd_nodeid pd, name))
           | _ \<Rightarrow> None))"

definition raw_name :: "(nat \<Rightarrow> fnode option) \<Rightarrow> nat \<Rightarrow> nat" where
  "raw_name h n = (case node_key h n of None \<Rightarrow> 0 | Some (parent, name) \<Rightarrow> unat (name_raw parent name))"

fun find_name :: "fuse_nodes \<Rightarrow> 64 word \<Rightarrow> string \<Rightarrow> nat list \<Rightarrow> nat option res" where
  "find_name f parent name [] = Inr None"
| "find_name f parent name (n # ns) =
     bind_res (the_res (node_key (fn_heap f) n) NullPointer) (\<lambda>k.
       if k = (parent, name) then Inr (Some n) else find_name f parent name ns)"

definition lookup_node :: "fuse_nodes \<Rightarrow> 64 word \<Rightarrow> string \<Rightarrow> nat option res" where
  "lookup_node f parent name = bind_res (chain (fn_names f) (name_hash f parent name)) (find_name f parent name)"

definition INLINE_NAME :: nat where "INLINE_NAME = 32"

definition hash_name :: "fuse_nodes \<Rightarrow> nat \<Rightarrow> 64 word \<Rightarrow> string \<Rightarrow> (int \<times> fuse_nodes) res" where
  "hash_name f n parentid name =
     bind_res (get_node f parentid) (\<lambda>parent.
       let (dup, f1) = (if length name < INLINE_NAME then (True, f) else next_ok f) in
       if \<not> dup then bind_res (node f1 n) (\<lambda>d. Inr (-1, put_node n (d\<lparr>nd_name := None\<rparr>) f1))
       else
         bind_res (node f1 parent) (\<lambda>pd.
         bind_res (chk_int (nd_refctr pd + 1)) (\<lambda>c.
           let f2 = put_node parent (pd\<lparr>nd_refctr := c\<rparr>) f1 in
           bind_res (node f2 n) (\<lambda>d.
             let f3 = put_node n (d\<lparr>nd_name := Some name, nd_parent := Some parent\<rparr>) f2 in
             bind_res (chain (fn_names f3) (name_hash f parentid name)) (\<lambda>_.
               let (ok, f4) = next_ok f3 in
               bind_res (guard_res (\<forall>m \<in> set (spread (fn_names f4)). node_key (fn_heap f4) m \<noteq> None) NullPointer)
                 (\<lambda>_. Inr (0, f4\<lparr>fn_names := table_insert ok (raw_name (fn_heap f4)) n (fn_names f4)\<rparr>)))))))"

section \<open>Dropping references\<close>

text \<open>How many nodes are in the table of names; each round of the recursion takes one out.\<close>

definition names_count :: "fuse_nodes \<Rightarrow> nat" where
  "names_count f = length (concat (tb_array (fn_names f)))"

lemma unlink_shorter:
  assumes "table_unlink raw n t = Some t'" "slot t (raw n) < length (tb_array t)"
  shows "length (concat (tb_array t')) < length (concat (tb_array t))"
proof -
  let ?h = "slot t (raw n)"
  have "n \<in> set (tb_array t ! ?h)" and t': "tb_array t' = (tb_array t)[?h := remove1 n (tb_array t ! ?h)]"
    using assms(1) by (auto simp: table_unlink_def Let_def split: if_splits)
  then have "mset (concat (tb_array t)) = mset (n # concat (tb_array t'))"
    using mset_concat_pull [OF assms(2), of n] by simp
  then have "length (concat (tb_array t)) = length (n # concat (tb_array t'))"
    by (rule mset_eq_length)
  then show ?thesis by simp
qed

lemma chain_Inr [simp]: "chain t h = Inr ns \<longleftrightarrow> h < length (tb_array t) \<and> ns = tb_array t ! h"
  by (auto simp: chain_def)

function unhash_name :: "fuse_nodes \<Rightarrow> nat \<Rightarrow> fuse_nodes res"
  and unref_node :: "fuse_nodes \<Rightarrow> nat \<Rightarrow> fuse_nodes res"
  and delete_node :: "fuse_nodes \<Rightarrow> nat \<Rightarrow> fuse_nodes res" where
  "unhash_name f n =
     bind_res (node f n) (\<lambda>d.
       case nd_name d of
         None \<Rightarrow> Inr f
       | Some name \<Rightarrow>
           bind_res (the_res (nd_parent d) NullPointer) (\<lambda>parent.
           bind_res (node f parent) (\<lambda>pd.
           bind_res (chain (fn_names f) (slot (fn_names f) (raw_name (fn_heap f) n))) (\<lambda>_.
             case table_unlink (raw_name (fn_heap f)) n (fn_names f) of
               None \<Rightarrow> Inl AssertFailed
             | Some t \<Rightarrow>
                 bind_res (unref_node (f\<lparr>fn_names := t\<rparr>) parent) (\<lambda>f1.
                 bind_res (node f1 n) (\<lambda>d1.
                   let f2 = put_node n (d1\<lparr>nd_name := None, nd_parent := None\<rparr>) f1;
                       (ok, f3) = next_ok f2 in
                   Inr (f3\<lparr>fn_names := table_release ok (fn_names f3)\<rparr>)))))))"
| "unref_node f n =
     bind_res (node f n) (\<lambda>d.
     bind_res (guard_res (nd_refctr d > 0) AssertFailed) (\<lambda>_.
       let f1 = put_node n (d\<lparr>nd_refctr := nd_refctr d - 1\<rparr>) f in
       if nd_refctr d - 1 = 0 then delete_node f1 n else Inr f1))"
| "delete_node f n =
     bind_res (node f n) (\<lambda>d.
     bind_res (guard_res (nd_treelock d = 0) AssertFailed) (\<lambda>_.
     bind_res (unhash_name f n) (\<lambda>f1.
       let f2 = (if lru_enabled (fn_mem f1) then remove_node_lru n f1 else f1) in
       bind_res (unhash_id f2 n) (\<lambda>f3. free_node f3 n))))"
  by pat_completeness auto
termination
proof (relation "measures
    [\<lambda>x. case x of Inl (f, n) \<Rightarrow> names_count f | Inr (Inl (f, n)) \<Rightarrow> names_count f | Inr (Inr (f, n)) \<Rightarrow> names_count f,
     \<lambda>x. case x of Inl _ \<Rightarrow> 0 | Inr (Inl _) \<Rightarrow> 2 | Inr (Inr _) \<Rightarrow> 1]", goal_cases)
  case (2 f n d name parent pd c t)
  then have "names_count (f\<lparr>fn_names := t\<rparr>) < names_count f"
    using unlink_shorter by (simp add: names_count_def)
  then show ?case by simp
qed (auto simp: names_count_def put_node_def)

section \<open>Operations\<close>

text \<open>
  The next free number. The loop runs until a number is free, so it may run for ever; \<^const>\<open>None\<close>
  says that it does.
\<close>

partial_function (option) next_id :: "fuse_nodes \<Rightarrow> (64 word \<times> fuse_nodes) res option" where
  "next_id f =
     (let ctr = (fn_ctr f + 1) AND 0xffffffff;
          f1 = f\<lparr>fn_ctr := ctr, fn_generation := (if ctr = 0 then fn_generation f + 1 else fn_generation f)\<rparr> in
      if ctr = 0 \<or> ctr = FUSE_UNKNOWN_INO then next_id f1
      else
        (case get_node_nocheck f1 ctr of
           Inl e \<Rightarrow> Some (Inl e)
         | Inr None \<Rightarrow> Some (Inr (ctr, f1))
         | Inr (Some _) \<Rightarrow> next_id f1))"

definition inc_nlookup :: "fuse_nodes \<Rightarrow> nat \<Rightarrow> fuse_nodes res" where
  "inc_nlookup f n =
     bind_res (node f n) (\<lambda>d.
     bind_res (if nd_nlookup d = 0 then chk_int (nd_refctr d + 1) else Inr (nd_refctr d)) (\<lambda>c.
       Inr (put_node n (d\<lparr>nd_refctr := c, nd_nlookup := nd_nlookup d + 1\<rparr>) f)))"

text \<open>The branch of \<^verbatim>\<open>find_node\<close> that makes a node; a node without a name is never made, since \<^verbatim>\<open>get_node\<close> aborts.\<close>

definition new_node :: "fuse_nodes \<Rightarrow> 64 word \<Rightarrow> string \<Rightarrow> (nat option \<times> fuse_nodes) res" where
  "new_node f parent name =
     bind_res (alloc_node (fn_mem f)) (\<lambda>(r, m).
       let f0 = f\<lparr>fn_mem := m\<rparr> in
       case r of
         None \<Rightarrow> Inr (None, f0)
       | Some n \<Rightarrow>
           bind_res (the_res (next_id (put_node n zero_node f0)) Diverges) (\<lambda>r1.
           bind_res r1 (\<lambda>(nodeid, f1).
           bind_res (node f1 n) (\<lambda>d.
             let f2 = put_node n (d\<lparr>nd_nodeid := nodeid, nd_generation := fn_generation f1\<rparr>) f1 in
             bind_res (if conf_remember f2 \<noteq> 0 then inc_nlookup f2 n else Inr f2) (\<lambda>f3.
             bind_res (hash_name f3 n parent name) (\<lambda>(err, f4).
               if err = -1 then bind_res (free_node f4 n) (\<lambda>f5. Inr (None, f5))
               else bind_res (hash_id f4 n) (\<lambda>f5. Inr (Some n, f5))))))))"

definition find_node :: "fuse_nodes \<Rightarrow> 64 word \<Rightarrow> string option \<Rightarrow> (nat option \<times> fuse_nodes) res" where
  "find_node f parent nm =
     bind_res (case nm of None \<Rightarrow> bind_res (get_node f parent) (\<lambda>n. Inr (Some n)) | Some name \<Rightarrow> lookup_node f parent name)
       (\<lambda>r.
          case r of
            None \<Rightarrow>
              bind_res (the_res nm NullPointer) (\<lambda>name.
              bind_res (new_node f parent name) (\<lambda>(r1, f1).
                case r1 of None \<Rightarrow> Inr (None, f1) | Some n \<Rightarrow> bind_res (inc_nlookup f1 n) (\<lambda>f2. Inr (Some n, f2))))
          | Some n \<Rightarrow>
              bind_res (node f n) (\<lambda>d.
                let f1 = (if lru_enabled (fn_mem f) \<and> nd_nlookup d = 1 then remove_node_lru n f else f) in
                bind_res (inc_nlookup f1 n) (\<lambda>f2. Inr (Some n, f2))))"

text \<open>
  A node that is locked and about to be forgotten is waited for; in a single thread nobody would
  ever unlock it.
\<close>

definition forget_node :: "fuse_nodes \<Rightarrow> 64 word \<Rightarrow> 64 word \<Rightarrow> fuse_nodes res" where
  "forget_node f nodeid nlookup =
     (if nodeid = FUSE_ROOT_ID then Inr f
      else
        bind_res (get_node f nodeid) (\<lambda>n.
        bind_res (node f n) (\<lambda>d.
        bind_res (guard_res (\<not> (nd_nlookup d = nlookup \<and> nd_treelock d \<noteq> 0)) Blocked) (\<lambda>_.
        bind_res (guard_res (nlookup \<le> nd_nlookup d) AssertFailed) (\<lambda>_.
          let f1 = put_node n (d\<lparr>nd_nlookup := nd_nlookup d - nlookup\<rparr>) f in
          if nd_nlookup d - nlookup = 0 then unref_node f1 n
          else if lru_enabled (fn_mem f1) \<and> nd_nlookup d - nlookup = 1 then set_forget_time f1 n
          else Inr f1)))))"

definition unlink_node :: "fuse_nodes \<Rightarrow> nat \<Rightarrow> fuse_nodes res" where
  "unlink_node f n =
     (if conf_remember f \<noteq> 0
      then
        bind_res (node f n) (\<lambda>d.
        bind_res (guard_res (nd_nlookup d > 1) AssertFailed) (\<lambda>_.
          unhash_name (put_node n (d\<lparr>nd_nlookup := nd_nlookup d - 1\<rparr>) f) n))
      else unhash_name f n)"

definition remove_node :: "fuse_nodes \<Rightarrow> 64 word \<Rightarrow> string \<Rightarrow> fuse_nodes res" where
  "remove_node f dir name =
     bind_res (lookup_node f dir name) (\<lambda>r. case r of None \<Rightarrow> Inr f | Some n \<Rightarrow> unlink_node f n)"

definition EBUSY :: int where "EBUSY = 16"

definition rename_node :: "fuse_nodes \<Rightarrow> 64 word \<Rightarrow> string \<Rightarrow> 64 word \<Rightarrow> string \<Rightarrow> bool \<Rightarrow> (int \<times> fuse_nodes) res" where
  "rename_node f olddir oldname newdir newname hide =
     bind_res (lookup_node f olddir oldname) (\<lambda>r.
     bind_res (lookup_node f newdir newname) (\<lambda>newr.
       case r of
         None \<Rightarrow> Inr (0, f)
       | Some n \<Rightarrow>
           if newr \<noteq> None \<and> hide then Inr (- EBUSY, f)
           else
             bind_res (case newr of None \<Rightarrow> Inr f | Some m \<Rightarrow> unlink_node f m) (\<lambda>f1.
             bind_res (unhash_name f1 n) (\<lambda>f2.
             bind_res (hash_name f2 n newdir newname) (\<lambda>(err, f3).
               if err = -1 then Inr (- ENOMEM, f3)
               else if hide then bind_res (node f3 n) (\<lambda>d. Inr (0, put_node n (d\<lparr>nd_is_hidden := True\<rparr>) f3))
               else Inr (0, f3))))))"

text \<open>The end of \<^verbatim>\<open>fuse_new_common\<close>: the tables and the root.\<close>

definition new_nodes :: "node_mem \<Rightarrow> bool list \<Rightarrow> timespec list \<Rightarrow> (fuse_nodes option) res" where
  "new_nodes mem oks clock =
     (let f = \<lparr>fn_heap = Map.empty, fn_names = node_table_init, fn_ids = node_table_init, fn_lru = [], fn_ctr = 0,
               fn_generation = 0, fn_mem = mem, fn_realloc = oks, fn_clock = clock\<rparr> in
      bind_res (alloc_node mem) (\<lambda>(r, m).
        case r of
          None \<Rightarrow> Inr None
        | Some root \<Rightarrow>
            (let f1 = put_node root (zero_node\<lparr>nd_name := Some ''/'', nd_parent := None, nd_nodeid := FUSE_ROOT_ID\<rparr>)
                        (f\<lparr>fn_mem := m\<rparr>) in
             bind_res (inc_nlookup f1 root) (\<lambda>f2.
             bind_res (hash_id f2 root) (\<lambda>f3. Inr (Some f3))))))"

end
