(* ===== verification/Fuse_Paths.thy ===== *)
theory Fuse_Paths
  imports Fuse_Nodes
begin

text \<open>
  The paths of nodes in \<^verbatim>\<open>lib/fuse.c\<close>. A path is written from its end into a buffer, one name after
  the other on the way from a node up to the root. Every node on the way is locked for reading, and
  a node that is about to be removed or renamed is locked for writing. A request that finds a lock in
  its way waits in a queue, and is tried again whenever a path is unlocked.
\<close>

section \<open>The buffer\<close>

text \<open>\<^verbatim>\<open>buf\<close> with \<^verbatim>\<open>bufsize\<close> bytes, of which one never written is \<^const>\<open>None\<close>, and the position of \<^verbatim>\<open>s\<close> in it.\<close>

record path_buf =
  pb_buf :: "char option list"
  pb_s :: nat

definition NUL_CHAR :: char where "NUL_CHAR = CHR 0x00"

text \<open>The loop that doubles \<^verbatim>\<open>newbufsize\<close>, an \<^verbatim>\<open>unsigned\<close>; it does not end when its largest value is too small.\<close>

partial_function (option) grow_bufsize :: "nat \<Rightarrow> nat \<Rightarrow> nat option" where
  "grow_bufsize newbufsize need =
     (if newbufsize < need
      then grow_bufsize (if 0x80000000 \<le> newbufsize then 0xffffffff else newbufsize * 2) need
      else Some newbufsize)"

text \<open>\<^verbatim>\<open>ok\<close> is the outcome of \<^verbatim>\<open>realloc\<close>.\<close>

definition enlarge :: "bool \<Rightarrow> path_buf \<Rightarrow> nat \<Rightarrow> path_buf option res" where
  "enlarge ok pb len =
     (let bufsize = length (pb_buf pb); pathlen = bufsize - pb_s pb in
      bind_res (the_res (grow_bufsize bufsize (pathlen + len + 1)) Diverges) (\<lambda>newbufsize.
        if \<not> ok then Inr None
        else
          (let newbuf = pb_buf pb @ replicate (newbufsize - bufsize) None;
               s = newbufsize - pathlen in
           Inr (Some \<lparr>pb_buf = splice_bytes s (take pathlen (drop (bufsize - pathlen) newbuf)) newbuf, pb_s = s\<rparr>))))"

definition add_name :: "bool \<Rightarrow> path_buf \<Rightarrow> string \<Rightarrow> path_buf option res" where
  "add_name ok pb name =
     (let len = length name in
      bind_res (if pb_s pb \<le> len then enlarge ok pb len else Inr (Some pb)) (\<lambda>r.
        case r of
          None \<Rightarrow> Inr None
        | Some pb1 \<Rightarrow>
            bind_res (guard_res (len < pb_s pb1 \<and> pb_s pb1 \<le> length (pb_buf pb1)) OutOfBounds) (\<lambda>_.
              let s = pb_s pb1 - len in
              Inr (Some \<lparr>pb_buf = (splice_bytes s (map Some name) (pb_buf pb1))[s - 1 := Some (CHR ''/'')], pb_s = s - 1\<rparr>))))"

text \<open>A C string that is read from a buffer.\<close>

fun read_string :: "char option list \<Rightarrow> string res" where
  "read_string [] = Inl OutOfBounds"
| "read_string (None # cs) = Inl Uninitialised"
| "read_string (Some c # cs) = (if c = NUL_CHAR then Inr [] else bind_res (read_string cs) (\<lambda>s. Inr (c # s)))"

text \<open>The end of \<^verbatim>\<open>try_get_path\<close>: the string moves to the front of the buffer, an empty one becomes the root.\<close>

definition finish_path :: "path_buf \<Rightarrow> string res" where
  "finish_path pb =
     bind_res (guard_res (pb_s pb < length (pb_buf pb)) OutOfBounds) (\<lambda>_.
     bind_res (the_res (pb_buf pb ! pb_s pb) Uninitialised) (\<lambda>c.
       read_string
         (if c \<noteq> NUL_CHAR then splice_bytes 0 (drop (pb_s pb) (pb_buf pb)) (pb_buf pb)
          else splice_bytes 0 [Some (CHR ''/''), Some NUL_CHAR] (pb_buf pb))))"

definition new_path_buf :: path_buf where
  "new_path_buf = \<lparr>pb_buf = replicate 255 None @ [Some NUL_CHAR], pb_s = 255\<rparr>"

section \<open>Locking a path\<close>

definition TREELOCK_WRITE :: int where "TREELOCK_WRITE = -1"
definition TREELOCK_WAIT_OFFSET :: int where "TREELOCK_WAIT_OFFSET = INT_MIN"

text \<open>
  The loops follow the parents, which the code trusts to lead to the root; \<^const>\<open>None\<close> says that
  they do not. The loop of \<^verbatim>\<open>unlock_path\<close> stops at \<^verbatim>\<open>end\<close>, which may be null, or at the root.
\<close>

partial_function (option) unlock_loop :: "fuse_nodes \<Rightarrow> nat option \<Rightarrow> nat option \<Rightarrow> fuse_nodes res option" where
  "unlock_loop f n stop =
     (if n = stop then Some (Inr f)
      else
        (case n of
           None \<Rightarrow> Some (Inl NullPointer)
         | Some m \<Rightarrow>
             (case node f m of
                Inl e \<Rightarrow> Some (Inl e)
              | Inr d \<Rightarrow>
                  if nd_nodeid d = FUSE_ROOT_ID then Some (Inr f)
                  else if nd_treelock d = 0 \<or> nd_treelock d = TREELOCK_WAIT_OFFSET \<or> nd_treelock d = TREELOCK_WRITE
                  then Some (Inl AssertFailed)
                  else
                    (let t = nd_treelock d - 1 in
                     unlock_loop (put_node m (d\<lparr>nd_treelock := (if t = TREELOCK_WAIT_OFFSET then 0 else t)\<rparr>) f)
                       (nd_parent d) stop))))"

definition unlock_path :: "fuse_nodes \<Rightarrow> 64 word \<Rightarrow> nat option \<Rightarrow> nat option \<Rightarrow> fuse_nodes res" where
  "unlock_path f nodeid wnode stop =
     bind_res
       (case wnode of
          None \<Rightarrow> Inr f
        | Some w \<Rightarrow>
            bind_res (node f w) (\<lambda>d.
            bind_res (guard_res (nd_treelock d = TREELOCK_WRITE) AssertFailed) (\<lambda>_. Inr (put_node w (d\<lparr>nd_treelock := 0\<rparr>) f))))
       (\<lambda>f1.
          bind_res (get_node f1 nodeid) (\<lambda>n.
          bind_res (the_res (unlock_loop f1 (Some n) stop) Diverges) (\<lambda>r. r)))"

text \<open>
  The loop of \<^verbatim>\<open>try_get_path\<close>: the error number, 0 at the root, and the node where it stopped. The
  outcome of a call of \<^verbatim>\<open>realloc\<close> is set aside for every name.
\<close>

partial_function (option) path_loop ::
    "fuse_nodes \<Rightarrow> bool \<Rightarrow> nat \<Rightarrow> path_buf \<Rightarrow> (int \<times> path_buf \<times> nat \<times> fuse_nodes) res option" where
  "path_loop f need_lock n pb =
     (case node f n of
        Inl e \<Rightarrow> Some (Inl e)
      | Inr d \<Rightarrow>
          if nd_nodeid d = FUSE_ROOT_ID then Some (Inr (0, pb, n, f))
          else
            (case nd_name d of
               None \<Rightarrow> Some (Inr (- ENOENT, pb, n, f))
             | Some name \<Rightarrow>
                 (case nd_parent d of
                    None \<Rightarrow> Some (Inr (- ENOENT, pb, n, f))
                  | Some parent \<Rightarrow>
                      (case add_name (fst (next_ok f)) pb name of
                         Inl e \<Rightarrow> Some (Inl e)
                       | Inr None \<Rightarrow> Some (Inr (- ENOMEM, pb, n, snd (next_ok f)))
                       | Inr (Some pb1) \<Rightarrow>
                           if \<not> need_lock then path_loop (snd (next_ok f)) need_lock parent pb1
                           else if nd_treelock d < 0 then Some (Inr (- EAGAIN, pb1, n, snd (next_ok f)))
                           else
                             (case chk_int (nd_treelock d + 1) of
                                Inl e \<Rightarrow> Some (Inl e)
                              | Inr t \<Rightarrow> path_loop (put_node n (d\<lparr>nd_treelock := t\<rparr>) (snd (next_ok f))) need_lock parent pb1)))))"

text \<open>Locking the node that is removed or renamed: whether it may go on, and the locked node.\<close>

definition lock_wnode :: "fuse_nodes \<Rightarrow> 64 word \<Rightarrow> string option \<Rightarrow> bool \<Rightarrow> (bool \<times> nat option \<times> fuse_nodes) res" where
  "lock_wnode f nodeid name need_lock =
     bind_res (guard_res need_lock AssertFailed) (\<lambda>_.
     bind_res (the_res name NullPointer) (\<lambda>nm.
     bind_res (lookup_node f nodeid nm) (\<lambda>r.
       case r of
         None \<Rightarrow> Inr (True, None, f)
       | Some w \<Rightarrow>
           bind_res (node f w) (\<lambda>d.
             if nd_treelock d \<noteq> 0
             then
               (if 0 < nd_treelock d
                then bind_res (chk_int (nd_treelock d + TREELOCK_WAIT_OFFSET)) (\<lambda>t.
                       Inr (False, None, put_node w (d\<lparr>nd_treelock := t\<rparr>) f))
                else Inr (False, None, f))
             else Inr (True, Some w, put_node w (d\<lparr>nd_treelock := TREELOCK_WRITE\<rparr>) f)))))"

text \<open>
  The error number, the path, the node locked for writing, and the state. \<open>wr\<close> says whether the
  caller asks for that node.
\<close>

type_synonym path_result = "int \<times> string option \<times> nat option \<times> fuse_nodes"

definition follow_path ::
    "fuse_nodes \<Rightarrow> 64 word \<Rightarrow> path_buf \<Rightarrow> nat option \<Rightarrow> bool \<Rightarrow> path_result res" where
  "follow_path f nodeid pb wnode need_lock =
     bind_res (get_node f nodeid) (\<lambda>n.
     bind_res (the_res (path_loop f need_lock n pb) Diverges) (\<lambda>r.
     bind_res r (\<lambda>(err, pb1, stop, f1).
       if err = 0 then bind_res (finish_path pb1) (\<lambda>path. Inr (0, Some path, wnode, f1))
       else if need_lock
       then bind_res (unlock_path f1 nodeid wnode (Some stop)) (\<lambda>f2. Inr (err, None, None, f2))
       else Inr (err, None, None, f1))))"

definition try_get_path :: "fuse_nodes \<Rightarrow> 64 word \<Rightarrow> string option \<Rightarrow> bool \<Rightarrow> bool \<Rightarrow> path_result res" where
  "try_get_path f nodeid name wr need_lock =
     (let (ok, f1) = next_ok f in
      if \<not> ok then Inr (- ENOMEM, None, None, f1)
      else
        (let (ok2, f2) = (if name = None then (True, f1) else next_ok f1) in
         bind_res (case name of None \<Rightarrow> Inr (Some new_path_buf) | Some nm \<Rightarrow> add_name ok2 new_path_buf nm) (\<lambda>r.
           case r of
             None \<Rightarrow> Inr (- ENOMEM, None, None, f2)
           | Some pb \<Rightarrow>
               bind_res (if wr then lock_wnode f2 nodeid name need_lock else Inr (True, None, f2)) (\<lambda>(go, wnode, f3).
                 if \<not> go then Inr (- EAGAIN, None, None, f3)
                 else follow_path f3 nodeid pb wnode need_lock))))"

definition try_get_path2 ::
    "fuse_nodes \<Rightarrow> 64 word \<Rightarrow> string option \<Rightarrow> 64 word \<Rightarrow> string option \<Rightarrow> bool \<Rightarrow> bool \<Rightarrow>
     (int \<times> (string option \<times> nat option) \<times> (string option \<times> nat option) \<times> fuse_nodes) res" where
  "try_get_path2 f nodeid1 name1 nodeid2 name2 wr1 wr2 =
     bind_res (try_get_path f nodeid1 name1 wr1 True) (\<lambda>(err, path1, wnode1, f1).
       if err \<noteq> 0 then Inr (err, (None, None), (None, None), f1)
       else
         bind_res (try_get_path f1 nodeid2 name2 wr2 True) (\<lambda>(err2, path2, wnode2, f2).
           if err2 \<noteq> 0
           then bind_res (unlock_path f2 nodeid1 wnode1 None) (\<lambda>f3. Inr (err2, (None, None), (None, None), f3))
           else Inr (0, (path1, wnode1), (path2, wnode2), f2)))"

section \<open>The queue\<close>

text \<open>
  \<^verbatim>\<open>struct lock_queue_element\<close>. The pointers \<^verbatim>\<open>path1\<close>, \<^verbatim>\<open>wnode1\<close> and so on go to variables of the waiting
  caller: \<open>qe_wants1\<close> and \<open>qe_wr1\<close> say whether they are set, \<open>qe_path1\<close> and \<open>qe_wnode1\<close> are the variables.
  \<open>qe_signal\<close> says whether the condition was signalled.
\<close>

record lock_qe =
  qe_nodeid1 :: "64 word"
  qe_name1 :: "string option"
  qe_wants1 :: bool
  qe_path1 :: "string option"
  qe_wr1 :: bool
  qe_wnode1 :: "nat option"
  qe_nodeid2 :: "64 word"
  qe_name2 :: "string option"
  qe_wants2 :: bool
  qe_path2 :: "string option"
  qe_wr2 :: bool
  qe_wnode2 :: "nat option"
  qe_err :: int
  qe_first_locked :: bool
  qe_second_locked :: bool
  qe_done :: bool
  qe_signal :: bool

definition queue_element_unlock :: "fuse_nodes \<Rightarrow> lock_qe \<Rightarrow> (lock_qe \<times> fuse_nodes) res" where
  "queue_element_unlock f qe =
     bind_res (if qe_first_locked qe then unlock_path f (qe_nodeid1 qe) (if qe_wr1 qe then qe_wnode1 qe else None) None else Inr f)
       (\<lambda>f1.
     bind_res (if qe_second_locked qe then unlock_path f1 (qe_nodeid2 qe) (if qe_wr2 qe then qe_wnode2 qe else None) None else Inr f1)
       (\<lambda>f2. Inr (qe\<lparr>qe_first_locked := False, qe_second_locked := False\<rparr>, f2)))"

text \<open>One try for each path of an element. The error number is 0, or what stops the element, or \<^verbatim>\<open>-EAGAIN\<close>.\<close>

definition wake_first :: "fuse_nodes \<Rightarrow> lock_qe \<Rightarrow> (int \<times> lock_qe \<times> fuse_nodes) res" where
  "wake_first f qe =
     (if qe_first_locked qe then Inr (0, qe, f)
      else
        bind_res (try_get_path f (qe_nodeid1 qe) (qe_name1 qe) (qe_wr1 qe) True) (\<lambda>(err, path, wnode, f1).
          if err = 0 then Inr (0, qe\<lparr>qe_path1 := path, qe_wnode1 := wnode, qe_first_locked := True\<rparr>, f1)
          else Inr (err, qe\<lparr>qe_path1 := None\<rparr>, f1)))"

definition wake_second :: "fuse_nodes \<Rightarrow> lock_qe \<Rightarrow> (int \<times> lock_qe \<times> fuse_nodes) res" where
  "wake_second f qe =
     (if qe_second_locked qe \<or> \<not> qe_wants2 qe then Inr (0, qe, f)
      else
        bind_res (try_get_path f (qe_nodeid2 qe) (qe_name2 qe) (qe_wr2 qe) True) (\<lambda>(err, path, wnode, f1).
          if err = 0 then Inr (0, qe\<lparr>qe_path2 := path, qe_wnode2 := wnode, qe_second_locked := True\<rparr>, f1)
          else Inr (err, qe\<lparr>qe_path2 := None\<rparr>, f1)))"

definition finish_element :: "int \<Rightarrow> lock_qe \<times> fuse_nodes \<Rightarrow> (lock_qe \<times> fuse_nodes) res" where
  "finish_element err = (\<lambda>(qe, f). Inr (qe\<lparr>qe_err := err, qe_done := True, qe_signal := True\<rparr>, f))"

definition queue_element_wakeup :: "bool \<Rightarrow> fuse_nodes \<Rightarrow> lock_qe \<Rightarrow> (lock_qe \<times> fuse_nodes) res" where
  "queue_element_wakeup first f qe =
     (if \<not> qe_wants1 qe
      then
        bind_res (get_node f (qe_nodeid1 qe)) (\<lambda>n.
        bind_res (node f n) (\<lambda>d. Inr (if nd_treelock d = 0 then qe\<lparr>qe_signal := True\<rparr> else qe, f)))
      else
        bind_res (wake_first f qe) (\<lambda>(err, qe1, f1).
          if err \<noteq> 0 \<and> err \<noteq> - EAGAIN then bind_res (queue_element_unlock f1 qe1) (finish_element err)
          else
            bind_res (wake_second f1 qe1) (\<lambda>(err2, qe2, f2).
              if err2 \<noteq> 0 \<and> err2 \<noteq> - EAGAIN then bind_res (queue_element_unlock f2 qe2) (finish_element err2)
              else if qe_first_locked qe2 \<and> (qe_second_locked qe2 \<or> \<not> qe_wants2 qe2) then finish_element 0 (qe2, f2)
              else if \<not> first then queue_element_unlock f2 qe2
              else Inr (qe2, f2))))"

fun wake_loop :: "bool \<Rightarrow> fuse_nodes \<Rightarrow> lock_qe list \<Rightarrow> (lock_qe list \<times> fuse_nodes) res" where
  "wake_loop first f [] = Inr ([], f)"
| "wake_loop first f (qe # q) =
     bind_res (queue_element_wakeup first f qe) (\<lambda>(qe1, f1).
     bind_res (wake_loop False f1 q) (\<lambda>(q1, f2). Inr (qe1 # q1, f2)))"

definition wake_up_queued :: "fuse_nodes \<Rightarrow> lock_qe list \<Rightarrow> (lock_qe list \<times> fuse_nodes) res" where
  "wake_up_queued f q = wake_loop True f q"

text \<open>A new element goes to the end of the queue; an element that is served leaves it.\<close>

definition queue_path :: "lock_qe list \<Rightarrow> lock_qe \<Rightarrow> lock_qe list" where
  "queue_path q qe = q @ [qe\<lparr>qe_done := False, qe_first_locked := False, qe_second_locked := False, qe_signal := False\<rparr>]"

definition dequeue_path :: "lock_qe list \<Rightarrow> nat \<Rightarrow> lock_qe list" where
  "dequeue_path q i = take i q @ drop (Suc i) q"

section \<open>The calls\<close>

text \<open>
  A call of \<^verbatim>\<open>get_path_common\<close> or \<^verbatim>\<open>get_path2\<close> returns at once, or its thread waits in the queue. The second
  half of \<^verbatim>\<open>wait_path\<close> runs when the element at position \<open>i\<close> is done; before that the thread stays blocked.
\<close>

definition waiting_for1 :: "64 word \<Rightarrow> string option \<Rightarrow> bool \<Rightarrow> lock_qe" where
  "waiting_for1 nodeid name wr =
     \<lparr>qe_nodeid1 = nodeid, qe_name1 = name, qe_wants1 = True, qe_path1 = None, qe_wr1 = wr, qe_wnode1 = None,
      qe_nodeid2 = 0, qe_name2 = None, qe_wants2 = False, qe_path2 = None, qe_wr2 = False, qe_wnode2 = None,
      qe_err = 0, qe_first_locked = False, qe_second_locked = False, qe_done = False, qe_signal = False\<rparr>"

definition waiting_for2 :: "64 word \<Rightarrow> string option \<Rightarrow> 64 word \<Rightarrow> string option \<Rightarrow> bool \<Rightarrow> bool \<Rightarrow> lock_qe" where
  "waiting_for2 nodeid1 name1 nodeid2 name2 wr1 wr2 =
     (waiting_for1 nodeid1 name1 wr1)\<lparr>qe_nodeid2 := nodeid2, qe_name2 := name2, qe_wants2 := True, qe_wr2 := wr2\<rparr>"

datatype 'a call = Returns 'a | Waits

definition get_path_common ::
    "fuse_nodes \<Rightarrow> lock_qe list \<Rightarrow> 64 word \<Rightarrow> string option \<Rightarrow> bool \<Rightarrow>
     ((int \<times> string option \<times> nat option) call \<times> lock_qe list \<times> fuse_nodes) res" where
  "get_path_common f q nodeid name wr =
     bind_res (try_get_path f nodeid name wr True) (\<lambda>(err, path, wnode, f1).
       if err = - EAGAIN then Inr (Waits, queue_path q (waiting_for1 nodeid name wr), f1)
       else Inr (Returns (err, path, wnode), q, f1))"

definition get_path ::
    "fuse_nodes \<Rightarrow> lock_qe list \<Rightarrow> 64 word \<Rightarrow> ((int \<times> string option \<times> nat option) call \<times> lock_qe list \<times> fuse_nodes) res" where
  "get_path f q nodeid = get_path_common f q nodeid None False"

definition get_path_nullok ::
    "bool \<Rightarrow> bool \<Rightarrow> fuse_nodes \<Rightarrow> lock_qe list \<Rightarrow> 64 word \<Rightarrow>
     ((int \<times> string option \<times> nat option) call \<times> lock_qe list \<times> fuse_nodes) res" where
  "get_path_nullok nopath nullpath_ok f q nodeid =
     (if nopath then Inr (Returns (0, None, None), q, f)
      else
        bind_res (get_path_common f q nodeid None False) (\<lambda>(r, q1, f1).
          Inr (case r of
                 Waits \<Rightarrow> Waits
               | Returns (err, path, wnode) \<Rightarrow> Returns (if err = - ENOENT \<and> nullpath_ok then 0 else err, path, wnode), q1, f1)))"

definition get_path_name ::
    "fuse_nodes \<Rightarrow> lock_qe list \<Rightarrow> 64 word \<Rightarrow> string \<Rightarrow> ((int \<times> string option \<times> nat option) call \<times> lock_qe list \<times> fuse_nodes) res" where
  "get_path_name f q nodeid name = get_path_common f q nodeid (Some name) False"

definition get_path_wrlock ::
    "fuse_nodes \<Rightarrow> lock_qe list \<Rightarrow> 64 word \<Rightarrow> string \<Rightarrow> ((int \<times> string option \<times> nat option) call \<times> lock_qe list \<times> fuse_nodes) res" where
  "get_path_wrlock f q nodeid name = get_path_common f q nodeid (Some name) True"

definition get_path2 ::
    "fuse_nodes \<Rightarrow> lock_qe list \<Rightarrow> 64 word \<Rightarrow> string option \<Rightarrow> 64 word \<Rightarrow> string option \<Rightarrow> bool \<Rightarrow> bool \<Rightarrow>
     ((int \<times> (string option \<times> nat option) \<times> (string option \<times> nat option)) call \<times> lock_qe list \<times> fuse_nodes) res" where
  "get_path2 f q nodeid1 name1 nodeid2 name2 wr1 wr2 =
     bind_res (try_get_path2 f nodeid1 name1 nodeid2 name2 wr1 wr2) (\<lambda>(err, r1, r2, f1).
       if err = - EAGAIN then Inr (Waits, queue_path q (waiting_for2 nodeid1 name1 nodeid2 name2 wr1 wr2), f1)
       else Inr (Returns (err, r1, r2), q, f1))"

definition wait_path ::
    "lock_qe list \<Rightarrow> nat \<Rightarrow> (int \<times> lock_qe \<times> lock_qe list) res" where
  "wait_path q i =
     (if i < length q \<and> qe_done (q ! i) then Inr (qe_err (q ! i), q ! i, dequeue_path q i) else Inl Blocked)"

definition free_path_wrlock :: "fuse_nodes \<Rightarrow> lock_qe list \<Rightarrow> 64 word \<Rightarrow> nat option \<Rightarrow> (lock_qe list \<times> fuse_nodes) res" where
  "free_path_wrlock f q nodeid wnode =
     bind_res (unlock_path f nodeid wnode None) (\<lambda>f1. if q \<noteq> [] then wake_up_queued f1 q else Inr (q, f1))"

definition free_path :: "fuse_nodes \<Rightarrow> lock_qe list \<Rightarrow> 64 word \<Rightarrow> string option \<Rightarrow> (lock_qe list \<times> fuse_nodes) res" where
  "free_path f q nodeid path = (if path \<noteq> None then free_path_wrlock f q nodeid None else Inr (q, f))"

definition free_path2 ::
    "fuse_nodes \<Rightarrow> lock_qe list \<Rightarrow> 64 word \<Rightarrow> 64 word \<Rightarrow> nat option \<Rightarrow> nat option \<Rightarrow> (lock_qe list \<times> fuse_nodes) res" where
  "free_path2 f q nodeid1 nodeid2 wnode1 wnode2 =
     bind_res (unlock_path f nodeid1 wnode1 None) (\<lambda>f1.
     bind_res (unlock_path f1 nodeid2 wnode2 None) (\<lambda>f2. wake_up_queued f2 q))"

end
