(* ===== verification/Node_Inv.thy ===== *)
theory Node_Inv
  imports Fuse_Nodes
begin

text \<open>
  The invariant of the nodes and the proof that dropping a reference keeps it. A node whose last
  reference goes away is deleted, and with it the reference to its parent, and so on up the tree.
  While that happens, the nodes on the way are out of the table of names but not yet changed: they
  are the set \<open>D\<close> of the invariant.
\<close>

section \<open>The invariant\<close>

definition parent_rel :: "(nat \<Rightarrow> fnode option) \<Rightarrow> (nat \<times> nat) set" where
  "parent_rel h = {(c, p). \<exists>d. h c = Some d \<and> nd_parent d = Some p}"

definition children :: "(nat \<Rightarrow> fnode option) \<Rightarrow> nat set \<Rightarrow> nat \<Rightarrow> nat set" where
  "children h D p = {c. c \<notin> D \<and> (c, p) \<in> parent_rel h}"

definition held_by_kernel :: "fnode \<Rightarrow> int" where
  "held_by_kernel d = (if nd_nlookup d = 0 then 0 else 1)"

text \<open>The count of references: the children, and one for the kernel. \<open>extra\<close> is a reference not yet dropped.\<close>

definition refs_ok :: "(nat \<Rightarrow> fnode option) \<Rightarrow> nat set \<Rightarrow> nat set \<Rightarrow> bool" where
  "refs_ok h D extra \<longleftrightarrow>
     (\<forall>n d. h n = Some d \<longrightarrow>
        nd_refctr d = int (card (children h D n)) + held_by_kernel d + (if n \<in> extra then 1 else 0))"

text \<open>A node with a parent has a name, its parent is there, and it is not the root.\<close>

definition link_ok :: "(nat \<Rightarrow> fnode option) \<Rightarrow> fnode \<Rightarrow> bool" where
  "link_ok h d \<longleftrightarrow>
     (case nd_parent d of
        None \<Rightarrow> nd_name d = None \<or> nd_nodeid d = FUSE_ROOT_ID
      | Some p \<Rightarrow> nd_name d \<noteq> None \<and> p \<in> dom h \<and> nd_nodeid d \<noteq> FUSE_ROOT_ID)"

definition links_ok :: "(nat \<Rightarrow> fnode option) \<Rightarrow> nat set \<Rightarrow> bool" where
  "links_ok h D \<longleftrightarrow> (\<forall>n d. n \<notin> D \<longrightarrow> h n = Some d \<longrightarrow> link_ok h d)"

definition root_ok :: "(nat \<Rightarrow> fnode option) \<Rightarrow> bool" where
  "root_ok h \<longleftrightarrow> (\<exists>r d. h r = Some d \<and> nd_nodeid d = FUSE_ROOT_ID \<and> nd_parent d = None \<and> nd_nlookup d \<noteq> 0)"

definition ids_distinct :: "(nat \<Rightarrow> fnode option) \<Rightarrow> bool" where
  "ids_distinct h \<longleftrightarrow> (\<forall>n m d e. h n = Some d \<longrightarrow> h m = Some e \<longrightarrow> nd_nodeid d = nd_nodeid e \<longrightarrow> n = m)"

definition named :: "(nat \<Rightarrow> fnode option) \<Rightarrow> nat set \<Rightarrow> nat set" where
  "named h D = {n. n \<notin> D \<and> (\<exists>p. (n, p) \<in> parent_rel h)}"

text \<open>A node in the table of names can be read without a fault, and no two nodes have the same place.\<close>

definition keys_distinct :: "(nat \<Rightarrow> fnode option) \<Rightarrow> nat set \<Rightarrow> bool" where
  "keys_distinct h N \<longleftrightarrow> inj_on (node_key h) N"

definition tables_ok :: "fuse_nodes \<Rightarrow> nat set \<Rightarrow> bool" where
  "tables_ok f D \<longleftrightarrow>
     table_inv (raw_id (fn_heap f)) 0 (fn_ids f) \<and> members (fn_ids f) = dom (fn_heap f) \<and>
     table_inv (raw_name (fn_heap f)) (card D) (fn_names f) \<and> members (fn_names f) = named (fn_heap f) D"

definition store_ok :: "fuse_nodes \<Rightarrow> bool" where
  "store_ok f \<longleftrightarrow> mem_ok (fn_mem f) \<and> allocated (fn_mem f) = dom (fn_heap f) \<and>
     distinct (fn_lru f) \<and> set (fn_lru f) \<subseteq> dom (fn_heap f) \<and> (\<not> lru_enabled (fn_mem f) \<longrightarrow> fn_lru f = [])"

definition tree_inv :: "fuse_nodes \<Rightarrow> nat set \<Rightarrow> bool" where
  "tree_inv f D \<longleftrightarrow> store_ok f \<and> tables_ok f D \<and> links_ok (fn_heap f) D \<and> root_ok (fn_heap f) \<and>
     ids_distinct (fn_heap f) \<and> keys_distinct (fn_heap f) (named (fn_heap f) D) \<and> acyclic (parent_rel (fn_heap f)) \<and>
     finite D"

definition nodes_ok :: "fuse_nodes \<Rightarrow> bool" where
  "nodes_ok f \<longleftrightarrow> tree_inv f {} \<and> refs_ok (fn_heap f) {} {}"

lemmas tree_defs = tree_inv_def tables_ok_def store_ok_def

section \<open>Changes that leave the tree as it is\<close>

text \<open>Numbers, parents and names: all that the invariant of the tree says is about these.\<close>

definition tree_view :: "(nat \<Rightarrow> fnode option) \<Rightarrow> nat \<Rightarrow> (64 word \<times> nat option \<times> string option) option" where
  "tree_view h n = map_option (\<lambda>d. (nd_nodeid d, nd_parent d, nd_name d)) (h n)"

lemma tree_view_iffs:
  "tree_view h n = None \<longleftrightarrow> h n = None"
  "tree_view h n = Some v \<longleftrightarrow> (\<exists>d. h n = Some d \<and> v = (nd_nodeid d, nd_parent d, nd_name d))"
  by (auto simp: tree_view_def)

lemma dom_view: "dom h = dom (tree_view h)"
  by (auto simp: tree_view_def)

lemma parent_rel_view: "parent_rel h = {(c, p). \<exists>i nm. tree_view h c = Some (i, Some p, nm)}"
  by (auto simp: parent_rel_def tree_view_iffs)

lemma raw_id_view: "raw_id h n = (case tree_view h n of None \<Rightarrow> 0 | Some (i, _) \<Rightarrow> id_raw i)"
  by (simp add: raw_id_def tree_view_def split: option.split)

lemma node_key_view:
  "node_key h n =
     (case tree_view h n of
        Some (_, Some p, Some nm) \<Rightarrow> (case tree_view h p of None \<Rightarrow> None | Some (i, _) \<Rightarrow> Some (i, nm))
      | _ \<Rightarrow> None)"
  by (simp add: node_key_def tree_view_def split: option.split)

lemma links_ok_view:
  "links_ok h D \<longleftrightarrow>
     (\<forall>n. n \<notin> D \<longrightarrow>
        (case tree_view h n of
           None \<Rightarrow> True
         | Some (i, None, nm) \<Rightarrow> nm = None \<or> i = FUSE_ROOT_ID
         | Some (i, Some p, nm) \<Rightarrow> nm \<noteq> None \<and> tree_view h p \<noteq> None \<and> i \<noteq> FUSE_ROOT_ID))"
  unfolding links_ok_def link_ok_def tree_view_iffs by (rule all_cong1) (auto simp: tree_view_def split: option.splits)

lemma ids_distinct_view:
  "ids_distinct h \<longleftrightarrow> (\<forall>n m i v w. tree_view h n = Some (i, v) \<longrightarrow> tree_view h m = Some (i, w) \<longrightarrow> n = m)"
  by (simp add: ids_distinct_def tree_view_iffs) metis

lemma same_view:
  assumes "tree_view h' = tree_view h"
  shows "dom h' = dom h" "parent_rel h' = parent_rel h" "raw_id h' = raw_id h" "node_key h' = node_key h" "raw_name h' = raw_name h"
    "named h' D = named h D" "children h' D = children h D" "links_ok h' D = links_ok h D" "ids_distinct h' = ids_distinct h"
    "keys_distinct h' N = keys_distinct h N"
proof -
  show "dom h' = dom h" using dom_view assms by metis
  show p: "parent_rel h' = parent_rel h" by (simp add: parent_rel_view assms)
  show "raw_id h' = raw_id h" by (simp add: fun_eq_iff raw_id_view assms)
  show k: "node_key h' = node_key h" unfolding fun_eq_iff node_key_view assms by (rule allI) (rule refl)
  show "raw_name h' = raw_name h" by (simp add: raw_name_def fun_eq_iff k)
  show "named h' D = named h D" by (simp add: named_def p)
  show "children h' D = children h D" by (simp add: children_def fun_eq_iff p)
  show "links_ok h' D = links_ok h D" unfolding links_ok_view assms ..
  show "ids_distinct h' = ids_distinct h" by (simp add: ids_distinct_view assms)
  show "keys_distinct h' N = keys_distinct h N" by (simp add: keys_distinct_def k)
qed

lemma view_update:
  "h n = Some d \<Longrightarrow> nd_nodeid d' = nd_nodeid d \<Longrightarrow> nd_parent d' = nd_parent d \<Longrightarrow> nd_name d' = nd_name d \<Longrightarrow>
   tree_view (h(n \<mapsto> d')) = tree_view h"
  by (auto simp: tree_view_def)

lemma put_node_sel [simp]:
  "fn_heap (put_node n d f) = (fn_heap f)(n \<mapsto> d)" "fn_names (put_node n d f) = fn_names f" "fn_ids (put_node n d f) = fn_ids f"
  "fn_lru (put_node n d f) = fn_lru f" "fn_ctr (put_node n d f) = fn_ctr f" "fn_generation (put_node n d f) = fn_generation f"
  "fn_mem (put_node n d f) = fn_mem f" "fn_realloc (put_node n d f) = fn_realloc f" "fn_clock (put_node n d f) = fn_clock f"
  by (simp_all add: put_node_def)

text \<open>
  Counters of a node may change, as long as the kernel keeps the root.
\<close>

lemma tree_inv_put:
  assumes "tree_inv f D" "fn_heap f n = Some d" "nd_nodeid d' = nd_nodeid d" "nd_parent d' = nd_parent d" "nd_name d' = nd_name d"
    "nd_nodeid d = FUSE_ROOT_ID \<longrightarrow> nd_nlookup d' \<noteq> 0"
  shows "tree_inv (put_node n d' f) D"
proof -
  have "tree_view ((fn_heap f)(n \<mapsto> d')) = tree_view (fn_heap f)"
    using assms(2-5) by (rule view_update)
  note sv = same_view [OF this]
  have "root_ok (fn_heap f)" using assms(1) by (simp add: tree_inv_def)
  then have "root_ok ((fn_heap f)(n \<mapsto> d'))"
    using assms(2-6) unfolding root_ok_def by (metis fun_upd_apply option.inject)
  then show ?thesis
    using assms(1) by (simp add: tree_defs sv del: dom_fun_upd)
qed

text \<open>
  Dropping a reference that is not accounted for.
\<close>

lemma refs_ok_put:
  assumes "refs_ok h D E" "h n = Some d" "nd_parent d' = nd_parent d" "nd_nodeid d' = nd_nodeid d" "nd_name d' = nd_name d"
    "nd_refctr d' - held_by_kernel d' - (if n \<in> E' then 1 else 0) = nd_refctr d - held_by_kernel d - (if n \<in> E then 1 else 0)"
    "E' - {n} = E - {n}"
  shows "refs_ok (h(n \<mapsto> d')) D E'"
proof -
  have c: "children (h(n \<mapsto> d')) D = children h D"
    by (rule same_view(7) [OF view_update]) (use assms in auto)
  show ?thesis
    unfolding refs_ok_def c
  proof (intro allI impI)
    fix m e
    assume e: "(h(n \<mapsto> d')) m = Some e"
    show "nd_refctr e = int (card (children h D m)) + held_by_kernel e + (if m \<in> E' then 1 else 0)"
    proof (cases "m = n")
      case True
      have "nd_refctr d = int (card (children h D n)) + held_by_kernel d + (if n \<in> E then 1 else 0)"
        using assms(1,2) unfolding refs_ok_def by blast
      then show ?thesis using True e assms(6) by simp
    next
      case False
      then have "h m = Some e" and "m \<in> E' \<longleftrightarrow> m \<in> E" using e assms(7) by auto
      then show ?thesis using assms(1) unfolding refs_ok_def by simp
    qed
  qed
qed

section \<open>Taking a node out of the tree\<close>

lemma finite_members [simp]: "finite (members t)"
  by (simp add: members_def)

lemma tree_finite: "tree_inv f D \<Longrightarrow> finite (dom (fn_heap f))"
  by (metis finite_members tree_inv_def tables_ok_def)

lemma children_dom: "children h D p \<subseteq> dom h"
  by (auto simp: children_def parent_rel_def)

lemma children_insert: "children h (insert n D) p = children h D p - {n}"
  by (auto simp: children_def)

lemma named_insert: "named h (insert n D) = named h D - {n}"
  by (auto simp: named_def)

lemma parent_rel_fun: "(c, p) \<in> parent_rel h \<Longrightarrow> (c, q) \<in> parent_rel h \<Longrightarrow> p = q"
  by (auto simp: parent_rel_def)

lemma parent_relI: "h n = Some d \<Longrightarrow> nd_parent d = Some p \<Longrightarrow> (n, p) \<in> parent_rel h"
  by (simp add: parent_rel_def)

text \<open>First its chain: the reference to the parent is then one too many.\<close>

lemma unlink_names:
  assumes inv: "tree_inv f D" and n: "n \<notin> D" "(n, p) \<in> parent_rel (fn_heap f)"
  shows "\<exists>t. table_unlink (raw_name (fn_heap f)) n (fn_names f) = Some t \<and> tree_inv (f\<lparr>fn_names := t\<rparr>) (insert n D)"
    and "slot (fn_names f) (raw_name (fn_heap f) n) < length (tb_array (fn_names f))"
proof -
  have tb: "table_inv (raw_name (fn_heap f)) (card D) (fn_names f)" and mem: "n \<in> members (fn_names f)"
    using inv n by (auto simp: tree_defs named_def)
  obtain t where t: "table_unlink (raw_name (fn_heap f)) n (fn_names f) = Some t"
    "table_inv (raw_name (fn_heap f)) (Suc (card D)) t" "members t = members (fn_names f) - {n}"
    using table_unlink_inv [OF tb mem] by blast
  have "links_ok (fn_heap f) D" and kd: "keys_distinct (fn_heap f) (named (fn_heap f) D)"
    using inv by (simp_all add: tree_inv_def)
  then have "links_ok (fn_heap f) (insert n D)" by (auto simp: links_ok_def)
  moreover have "keys_distinct (fn_heap f) (named (fn_heap f) (insert n D))"
    using kd by (simp add: keys_distinct_def named_insert inj_on_subset [OF _ Diff_subset])
  ultimately have "tree_inv (f\<lparr>fn_names := t\<rparr>) (insert n D)"
    using inv n(1) t(2,3) by (simp add: tree_defs named_insert)
  with t(1) show "\<exists>t. table_unlink (raw_name (fn_heap f)) n (fn_names f) = Some t \<and> tree_inv (f\<lparr>fn_names := t\<rparr>) (insert n D)"
    by blast
  show "slot (fn_names f) (raw_name (fn_heap f) n) < length (tb_array (fn_names f))"
    using tb by (simp add: table_inv_def slot_in_array)
qed

lemma unlink_refs:
  assumes "refs_ok h D {}" "finite (dom h)" "n \<notin> D" "(n, p) \<in> parent_rel h"
  shows "refs_ok h (insert n D) {p}"
  unfolding refs_ok_def
proof (intro allI impI)
  fix m d
  assume m: "h m = Some d"
  have fin: "finite (children h D m)" by (rule finite_subset [OF children_dom assms(2)])
  have "n \<in> children h D m \<longleftrightarrow> m = p"
    using assms(3,4) parent_rel_fun by (auto simp: children_def)
  then have "int (card (children h D m)) = int (card (children h (insert n D) m)) + (if m \<in> {p} then 1 else 0)"
    using fin card.remove [OF fin, of n] by (auto simp: children_insert)
  then show "nd_refctr d = int (card (children h (insert n D) m)) + held_by_kernel d + (if m \<in> {p} then 1 else 0)"
    using assms(1) m by (simp add: refs_ok_def)
qed

lemma next_ok_cases:
  obtains (ok) ok bs where "next_ok f = (ok, f\<lparr>fn_realloc := bs\<rparr>)"
  by (cases "fn_realloc f") (auto simp: next_ok_def intro: that [of True "[]"])

lemma tree_inv_realloc [simp]: "tree_inv (f\<lparr>fn_realloc := bs\<rparr>) D = tree_inv f D"
  by (simp add: tree_defs)

text \<open>Then its name and parent.\<close>

definition detach :: "fnode \<Rightarrow> fnode" where
  "detach d = d\<lparr>nd_name := None, nd_parent := None\<rparr>"

lemma link_ok_dom: "dom h' = dom h \<Longrightarrow> link_ok h' e = link_ok h e"
  by (cases "nd_parent e") (simp_all add: link_ok_def)

lemma detach_heap:
  assumes "h n = Some d" "h' = h(n \<mapsto> detach d)"
  shows "dom h' = dom h" "parent_rel h' = {(c, p) \<in> parent_rel h. c \<noteq> n}" "raw_id h' = raw_id h"
    "named h' D = named h (insert n D)" "children h' D m = children h (insert n D) m" "m \<noteq> n \<Longrightarrow> node_key h' m = node_key h m"
    "ids_distinct h \<Longrightarrow> ids_distinct h'" "links_ok h (insert n D) \<Longrightarrow> links_ok h' D" "root_ok h \<Longrightarrow> root_ok h'"
proof -
  show "dom h' = dom h" using assms by (auto split: if_splits)
  show p: "parent_rel h' = {(c, p) \<in> parent_rel h. c \<noteq> n}" using assms by (auto simp: parent_rel_def detach_def split: if_splits)
  show "raw_id h' = raw_id h" using assms by (auto simp: raw_id_def detach_def)
  show "named h' D = named h (insert n D)" by (auto simp: named_def p)
  show "children h' D m = children h (insert n D) m" by (auto simp: children_def p)
  show "node_key h' m = node_key h m" if "m \<noteq> n"
    using assms that by (auto simp: node_key_def detach_def split: option.splits)
  show "ids_distinct h'" if "ids_distinct h"
    using assms that unfolding ids_distinct_def by (auto simp: detach_def split: if_splits; metis)
  show "links_ok h' D" if "links_ok h (insert n D)"
  proof -
    have "link_ok h' e = link_ok h e" for e using \<open>dom h' = dom h\<close> by (rule link_ok_dom)
    moreover have "link_ok h (detach d)" by (simp add: link_ok_def detach_def)
    ultimately show ?thesis
      using that assms by (auto simp: links_ok_def split: if_splits)
  qed
  show "root_ok h'" if "root_ok h"
  proof -
    obtain r e where r: "h r = Some e" "nd_nodeid e = FUSE_ROOT_ID" "nd_parent e = None" "nd_nlookup e \<noteq> 0"
      using \<open>root_ok h\<close> by (auto simp: root_ok_def)
    show ?thesis
      using r assms unfolding root_ok_def
      by (intro exI [of _ r] exI [of _ "if r = n then detach d else e"]) (auto simp: detach_def)
  qed
qed

lemma detach_inv:
  assumes inv: "tree_inv f (insert n D)" "refs_ok (fn_heap f) (insert n D) {}" and n: "n \<notin> D" "fn_heap f n = Some d"
  defines "f' \<equiv> (let f2 = put_node n (detach d) f; (ok, f3) = next_ok f2 in f3\<lparr>fn_names := table_release ok (fn_names f3)\<rparr>)"
  shows "tree_inv f' D" "refs_ok (fn_heap f') D {}" "fn_heap f' = (fn_heap f)(n \<mapsto> detach d)"
proof -
  define h' where "h' = (fn_heap f)(n \<mapsto> detach d)"
  note dh = detach_heap [where h = "fn_heap f" and h' = h', OF n(2) h'_def]
  have fin: "finite D" "card (insert n D) = Suc (card D)" using inv(1) n(1) by (simp_all add: tree_inv_def)
  have eq: "raw_name h' m = raw_name (fn_heap f) m" if "m \<in> members (fn_names f)" for m
  proof -
    have "m \<noteq> n" using inv(1) that by (auto simp: tree_defs named_def)
    then show ?thesis by (simp add: raw_name_def dh(6))
  qed
  have "table_inv (raw_name (fn_heap f)) (Suc (card D)) (fn_names f)"
    using inv(1) fin by (simp add: tree_defs)
  then have tb: "table_inv (raw_name h') (Suc (card D)) (fn_names f)"
    by (rule table_inv_cong) (rule eq)
  obtain ok bs where ok: "next_ok (put_node n (detach d) f) = (ok, (put_node n (detach d) f)\<lparr>fn_realloc := bs\<rparr>)"
    by (rule next_ok_cases)
  have f': "f' = (put_node n (detach d) f)\<lparr>fn_realloc := bs, fn_names := table_release ok (fn_names f)\<rparr>"
    by (simp add: f'_def ok)
  have kd: "keys_distinct h' (named h' D)"
    using inv(1) unfolding dh(4) keys_distinct_def
    by (auto simp: tree_defs named_insert keys_distinct_def inj_on_def dh(6))
  have ac: "acyclic (parent_rel h')"
    using inv(1) unfolding dh(2) by (auto simp: tree_inv_def intro: acyclic_subset)
  have sel: "fn_heap f' = h'" "fn_ids f' = fn_ids f" "fn_lru f' = fn_lru f" "fn_mem f' = fn_mem f"
    "fn_names f' = table_release ok (fn_names f)"
    by (simp_all add: f' h'_def)
  show "tree_inv f' D"
    using inv(1) table_release_inv [OF tb, of ok] kd ac fin(1)
    by (simp add: tree_defs sel dh)
  show "refs_ok (fn_heap f') D {}"
    using inv(2) n(2) unfolding refs_ok_def sel dh(5) by (auto simp: h'_def detach_def held_by_kernel_def)
  show "fn_heap f' = (fn_heap f)(n \<mapsto> detach d)" by (simp add: sel h'_def)
qed

section \<open>Giving a node back\<close>

lemma free_heap:
  assumes "h n = Some d" "nd_parent d = None" "children h D n = {}" "h' = h(n := None)"
  shows "dom h' = dom h - {n}" "parent_rel h' = parent_rel h" "named h' D = named h D" "children h' D m = children h D m"
    "m \<in> named h D \<Longrightarrow> node_key h' m = node_key h m" "m \<noteq> n \<Longrightarrow> raw_id h' m = raw_id h m"
    "ids_distinct h \<Longrightarrow> ids_distinct h'" "links_ok h D \<Longrightarrow> links_ok h' D"
    "nd_nodeid d \<noteq> FUSE_ROOT_ID \<Longrightarrow> root_ok h \<Longrightarrow> root_ok h'"
proof -
  show dom: "dom h' = dom h - {n}" using assms(4) by (auto split: if_splits)
  show p: "parent_rel h' = parent_rel h" using assms(1,2,4) by (auto simp: parent_rel_def split: if_splits)
  show "named h' D = named h D" "children h' D m = children h D m" by (auto simp: named_def children_def p)
  have up: "q \<noteq> n" if "m \<notin> D" "(m, q) \<in> parent_rel h" for m q using assms(3) that by (auto simp: children_def)
  show "node_key h' m = node_key h m" if mn: "m \<in> named h D"
  proof -
    obtain q where q: "m \<notin> D" "(m, q) \<in> parent_rel h" using mn by (auto simp: named_def)
    then obtain e where e: "h m = Some e" "nd_parent e = Some q" by (auto simp: parent_rel_def)
    moreover have "q \<noteq> n" using up q by blast
    moreover have "m \<noteq> n" using e assms(1,2) by auto
    ultimately show ?thesis using assms(4) by (simp add: node_key_def split: option.split)
  qed
  show "raw_id h' m = raw_id h m" if "m \<noteq> n" using that assms(4) by (simp add: raw_id_def)
  show "ids_distinct h'" if "ids_distinct h" using that assms(4) unfolding ids_distinct_def by (simp split: if_splits)
  show "links_ok h' D" if l: "links_ok h D"
    unfolding links_ok_def
  proof (intro allI impI)
    fix m e
    assume m: "m \<notin> D" "h' m = Some e"
    then have e: "h m = Some e" using assms(4) by (simp split: if_splits)
    then have "link_ok h e" using l m(1) by (simp add: links_ok_def)
    moreover have "q \<noteq> n" if "nd_parent e = Some q" for q
      using up [OF m(1)] e that by (simp add: parent_rel_def)
    ultimately show "link_ok h' e" by (cases "nd_parent e") (simp_all add: link_ok_def dom)
  qed
  show "root_ok h'" if "nd_nodeid d \<noteq> FUSE_ROOT_ID" "root_ok h"
    using that assms(1,4) unfolding root_ok_def by (metis fun_upd_other option.inject)
qed

lemma free_node_inv:
  assumes inv: "tree_inv f D" "refs_ok (fn_heap f) D {}" and n: "fn_heap f n = Some d" "nd_parent d = None"
    "nd_nodeid d \<noteq> FUSE_ROOT_ID" "children (fn_heap f) D n = {}"
  defines "f2 \<equiv> (if lru_enabled (fn_mem f) then remove_node_lru n f else f)"
  shows "\<exists>f'. bind_res (unhash_id f2 n) (\<lambda>f3. free_node f3 n) = Inr f' \<and> tree_inv f' D \<and> refs_ok (fn_heap f') D {} \<and>
    fn_heap f' = (fn_heap f)(n := None)"
proof -
  define h' where "h' = (fn_heap f)(n := None)"
  note fh = free_heap [OF n(1,2,4) h'_def]
  have f2: "fn_heap f2 = fn_heap f" "fn_ids f2 = fn_ids f" "fn_names f2 = fn_names f" "fn_mem f2 = fn_mem f"
    by (simp_all add: f2_def remove_node_lru_def)
  have lru: "distinct (fn_lru f2)" "set (fn_lru f2) \<subseteq> dom h'" "\<not> lru_enabled (fn_mem f) \<longrightarrow> fn_lru f2 = []"
    using inv(1) by (auto simp: tree_defs f2_def remove_node_lru_def h'_def)
  have ids: "table_inv (raw_id (fn_heap f)) 0 (fn_ids f)" "members (fn_ids f) = dom (fn_heap f)"
    using inv(1) by (simp_all add: tree_defs)
  obtain t where t: "table_unlink (raw_id (fn_heap f)) n (fn_ids f) = Some t" "table_inv (raw_id (fn_heap f)) 1 t"
    "members t = dom h'"
    using table_unlink_inv [OF ids(1), of n] ids(2) n(1) fh(1) by auto
  obtain ok bs where ok: "next_ok f2 = (ok, f2\<lparr>fn_realloc := bs\<rparr>)" by (rule next_ok_cases)
  have "id_hash f2 (nd_nodeid d) < length (tb_array (fn_ids f))"
    using ids(1) by (simp add: id_hash_def f2 table_inv_def slot_in_array)
  then have uh: "unhash_id f2 n = Inr (f2\<lparr>fn_realloc := bs, fn_ids := table_release ok t\<rparr>)"
    using n(1) t(1) ok by (simp add: unhash_id_def node_def f2 chain_def)
  have al: "mem_ok (fn_mem f)" "n \<in> allocated (fn_mem f)" "allocated (fn_mem f) = dom (fn_heap f)"
    using inv(1) n(1) by (auto simp: tree_defs)
  obtain m where m: "free_node_mem (fn_mem f) n = Inr m" "mem_ok m" "allocated m = dom h'" "nm_remember m = nm_remember (fn_mem f)"
    using free_node_mem_ok [OF al(1,2)] free_node_mem_remember al(3) fh(1) by metis
  define f' where "f' = f2\<lparr>fn_realloc := bs, fn_ids := table_release ok t, fn_mem := m, fn_heap := h'\<rparr>"
  have res: "bind_res (unhash_id f2 n) (\<lambda>f3. free_node f3 n) = Inr f'"
    using m(1) by (simp add: uh free_node_def f2 f'_def h'_def)
  have sel: "fn_heap f' = h'" "fn_ids f' = table_release ok t" "fn_names f' = fn_names f" "fn_mem f' = m" "fn_lru f' = fn_lru f2"
    by (simp_all add: f'_def f2)
  have tb: "table_inv (raw_id h') 1 t"
    using t(2) by (rule table_inv_cong) (use t(3) fh(1) fh(6) in auto)
  have "table_inv (raw_name (fn_heap f)) (card D) (fn_names f)" "members (fn_names f) = named (fn_heap f) D"
    using inv(1) by (simp_all add: tree_defs)
  then have tn: "table_inv (raw_name h') (card D) (fn_names f)"
    by (elim table_inv_cong) (simp add: raw_name_def fh(5))
  have kd: "keys_distinct h' (named h' D)"
    using inv(1) fh(5) unfolding fh(3) by (simp add: tree_inv_def keys_distinct_def inj_on_def)
  have le: "lru_enabled m = lru_enabled (fn_mem f)" using m(4) by (simp add: lru_enabled_def)
  have "tree_inv f' D"
    using inv(1) table_release_inv [OF tb [unfolded One_nat_def], of ok] tn kd m(2,3) lru fh(7,8,9) n(3) t(3)
    by (simp add: tree_defs sel fh(2,3) le)
  moreover have "refs_ok h' D {}"
    using inv(2) unfolding refs_ok_def fh(4) by (simp add: h'_def)
  ultimately show ?thesis
    using res by (simp add: sel h'_def)
qed

section \<open>The recursion\<close>

text \<open>
  What may change: nodes that the kernel does not hold may go away, and counts of references change;
  the nodes in \<open>D\<close> do not change.
\<close>

definition same_but_refs :: "fnode \<Rightarrow> fnode \<Rightarrow> bool" where
  "same_but_refs d d' \<longleftrightarrow> d' = d\<lparr>nd_refctr := nd_refctr d'\<rparr>"

definition frame :: "nat set \<Rightarrow> (nat \<Rightarrow> fnode option) \<Rightarrow> (nat \<Rightarrow> fnode option) \<Rightarrow> bool" where
  "frame D h h' \<longleftrightarrow> (\<forall>x \<in> D. h' x = h x) \<and>
     (\<forall>x d'. h' x = Some d' \<longrightarrow> (\<exists>d. h x = Some d \<and> same_but_refs d d')) \<and>
     (\<forall>x d. h x = Some d \<longrightarrow> nd_nlookup d \<noteq> 0 \<longrightarrow> h' x \<noteq> None)"

lemma same_but_refs_refl [simp]: "same_but_refs d d"
  by (simp add: same_but_refs_def)

lemma same_but_refs_trans: "same_but_refs d e \<Longrightarrow> same_but_refs e g \<Longrightarrow> same_but_refs d g"
  by (cases d; cases e; cases g) (simp add: same_but_refs_def)

lemma same_but_refsD:
  "same_but_refs d d' \<Longrightarrow> nd_nodeid d' = nd_nodeid d \<and> nd_parent d' = nd_parent d \<and> nd_name d' = nd_name d \<and>
    nd_nlookup d' = nd_nlookup d \<and> nd_treelock d' = nd_treelock d"
  by (cases d; cases d') (simp add: same_but_refs_def)

text \<open>The assertion of \<^verbatim>\<open>delete_node\<close>: a node that can be deleted is not locked.\<close>

definition lock_free :: "(nat \<Rightarrow> fnode option) \<Rightarrow> bool" where
  "lock_free h \<longleftrightarrow> (\<forall>n d. h n = Some d \<longrightarrow> nd_nlookup d = 0 \<longrightarrow> nd_treelock d = 0)"

definition may_drop :: "(nat \<Rightarrow> fnode option) \<Rightarrow> nat \<Rightarrow> bool" where
  "may_drop h p \<longleftrightarrow> lock_free h \<or> (\<exists>d. h p = Some d \<and> nd_nlookup d \<noteq> 0)"

definition below :: "(nat \<Rightarrow> fnode option) \<Rightarrow> nat set \<Rightarrow> nat \<Rightarrow> bool" where
  "below h D p \<longleftrightarrow> (\<forall>x \<in> D. (x, p) \<in> (parent_rel h)\<^sup>+)"

definition unref_pre :: "fuse_nodes \<Rightarrow> nat set \<Rightarrow> nat \<Rightarrow> bool" where
  "unref_pre f D p \<longleftrightarrow> tree_inv f D \<and> refs_ok (fn_heap f) D {p} \<and> p \<in> dom (fn_heap f) \<and> below (fn_heap f) D p \<and>
     may_drop (fn_heap f) p"

definition unref_post :: "fuse_nodes \<Rightarrow> nat set \<Rightarrow> fuse_nodes \<Rightarrow> bool" where
  "unref_post f D f' \<longleftrightarrow> tree_inv f' D \<and> refs_ok (fn_heap f') D {} \<and> frame D (fn_heap f) (fn_heap f')"

definition unref_good :: "nat \<Rightarrow> bool" where
  "unref_good k \<longleftrightarrow>
     (\<forall>f D p. names_count f < k \<longrightarrow> unref_pre f D p \<longrightarrow> (\<exists>f'. unref_node f p = Inr f' \<and> unref_post f D f'))"

lemmas [simp del] = unhash_name.simps unref_node.simps delete_node.simps

lemma frame_refl: "frame D h h"
  by (auto simp: frame_def)

lemma frameD:
  assumes "frame D h h'" "h' x = Some d'"
  shows "\<exists>d. h x = Some d \<and> same_but_refs d d'"
  using assms by (simp add: frame_def)

lemma frame_trans:
  assumes "frame D h h1" "frame D h1 h2" shows "frame D h h2"
proof -
  have "\<exists>d. h x = Some d \<and> same_but_refs d d2" if "h2 x = Some d2" for x d2
    using frameD [OF assms(2) that] frameD [OF assms(1)] same_but_refs_trans by blast
  moreover have "h2 x \<noteq> None" if "h x = Some d" "nd_nlookup d \<noteq> 0" for x d
  proof -
    have "h1 x \<noteq> None" using assms(1) that unfolding frame_def by blast
    then obtain d1 where 1: "h1 x = Some d1" by blast
    then have "nd_nlookup d1 = nd_nlookup d" using frameD [OF assms(1) 1] that(1) same_but_refsD by auto
    then show ?thesis using assms(2) 1 that(2) by (simp add: frame_def)
  qed
  ultimately show ?thesis using assms by (auto simp: frame_def)
qed

lemma frame_lock_free: "frame D h h' \<Longrightarrow> lock_free h \<Longrightarrow> lock_free h'"
  unfolding lock_free_def by (metis frameD same_but_refsD)

lemma acyclic_not_below: "acyclic (parent_rel h) \<Longrightarrow> below h D p \<Longrightarrow> p \<notin> D"
  by (auto simp: acyclic_def below_def)

lemma below_parent: "below h D n \<Longrightarrow> (n, p) \<in> parent_rel h \<Longrightarrow> below h (insert n D) p"
  by (auto simp: below_def intro: trancl.trancl_into_trancl)

lemma names_count_names: "names_count (put_node n d f) = names_count f"
  by (simp add: names_count_def)

lemma node_Some [simp]: "fn_heap f n = Some d \<Longrightarrow> node f n = Inr d"
  by (simp add: node_def)

text \<open>A name goes away, and with it the reference to the parent.\<close>

lemma unhash_step:
  assumes good: "unref_good (names_count f)" and inv: "tree_inv f D" "refs_ok (fn_heap f) D {}" "below (fn_heap f) D n"
    and n: "fn_heap f n = Some d" "nd_nodeid d \<noteq> FUSE_ROOT_ID" and drop: "\<And>p. nd_parent d = Some p \<Longrightarrow> may_drop (fn_heap f) p"
  shows "\<exists>f'. unhash_name f n = Inr f' \<and> tree_inv f' D \<and> refs_ok (fn_heap f') D {} \<and> fn_heap f' n = Some (detach d) \<and>
    frame D (fn_heap f) ((fn_heap f')(n \<mapsto> d))"
proof -
  have nD: "n \<notin> D" using acyclic_not_below inv(1,3) by (auto simp: tree_inv_def)
  have lk: "link_ok (fn_heap f) d" using inv(1) nD n(1) by (auto simp: tree_inv_def links_ok_def)
  show ?thesis
  proof (cases "nd_parent d")
    case None
    then have nm: "nd_name d = None" using lk n(2) by (simp add: link_ok_def)
    then have "detach d = d" using None by (cases d) (simp add: detach_def)
    moreover have "(fn_heap f)(n \<mapsto> d) = fn_heap f" using n(1) by (auto simp: fun_eq_iff)
    ultimately show ?thesis
      using inv n nm by (simp add: frame_refl unhash_name.simps)
  next
    case (Some p)
    then obtain name pd where nm: "nd_name d = Some name" "fn_heap f p = Some pd" using lk by (auto simp: link_ok_def)
    have rel: "(n, p) \<in> parent_rel (fn_heap f)" using n(1) Some by (rule parent_relI)
    obtain t where t: "table_unlink (raw_name (fn_heap f)) n (fn_names f) = Some t" "tree_inv (f\<lparr>fn_names := t\<rparr>) (insert n D)"
      using unlink_names(1) [OF inv(1) nD rel] by blast
    note sl = unlink_names(2) [OF inv(1) nD rel]
    have "unref_pre (f\<lparr>fn_names := t\<rparr>) (insert n D) p"
      using t(2) unlink_refs [OF inv(2) tree_finite [OF inv(1)] nD rel] below_parent [OF inv(3) rel] nm(2) drop [OF Some]
      by (auto simp: unref_pre_def)
    moreover have "names_count (f\<lparr>fn_names := t\<rparr>) < names_count f"
      using unlink_shorter [OF t(1) sl] by (simp add: names_count_def)
    ultimately obtain f1 where f1: "unref_node (f\<lparr>fn_names := t\<rparr>) p = Inr f1" "tree_inv f1 (insert n D)"
      "refs_ok (fn_heap f1) (insert n D) {}" "frame (insert n D) (fn_heap f) (fn_heap f1)"
      using good unfolding unref_good_def unref_post_def by fastforce
    have h1: "fn_heap f1 n = Some d" using f1(4) n(1) by (simp add: frame_def)
    define f' where "f' = (let f2 = put_node n (detach d) f1; (ok, f3) = next_ok f2 in f3\<lparr>fn_names := table_release ok (fn_names f3)\<rparr>)"
    note dt = detach_inv [OF f1(2,3) nD h1, folded f'_def]
    have "unhash_name f n = Inr f'"
      using n(1) nm Some sl t(1) f1(1) h1
      by (simp add: unhash_name.simps [of f] chain_def f'_def detach_def Let_def split: prod.split)
    moreover have "(fn_heap f')(n \<mapsto> d) = fn_heap f1" using h1 dt(3) by (auto simp: fun_eq_iff)
    moreover have "frame D (fn_heap f) (fn_heap f1)" using f1(4) by (simp add: frame_def)
    ultimately show ?thesis
      using dt by simp
  qed
qed

text \<open>A node without references is deleted.\<close>

lemma refs_zero:
  assumes "tree_inv f D" "refs_ok (fn_heap f) D {}" "fn_heap f n = Some d" "nd_refctr d = 0"
  shows "children (fn_heap f) D n = {}" "nd_nlookup d = 0" "nd_nodeid d \<noteq> FUSE_ROOT_ID"
proof -
  have "nd_refctr d = int (card (children (fn_heap f) D n)) + held_by_kernel d"
    using assms(2,3) by (simp add: refs_ok_def)
  moreover have "finite (children (fn_heap f) D n)" by (rule finite_subset [OF children_dom tree_finite [OF assms(1)]])
  ultimately show "children (fn_heap f) D n = {}" and z: "nd_nlookup d = 0"
    using assms(4) by (auto simp: held_by_kernel_def split: if_splits)
  show "nd_nodeid d \<noteq> FUSE_ROOT_ID"
  proof
    assume r: "nd_nodeid d = FUSE_ROOT_ID"
    obtain m e where "fn_heap f m = Some e" "nd_nodeid e = FUSE_ROOT_ID" "nd_nlookup e \<noteq> 0"
      using assms(1) by (auto simp: tree_inv_def root_ok_def)
    moreover from this have "n = m" using assms(1,3) r unfolding tree_inv_def ids_distinct_def by metis
    ultimately show False using z assms(3) by simp
  qed
qed

lemma frame_children:
  assumes "frame D h (h'(n \<mapsto> d))" "h' n = Some (detach d)" "children h D n = {}"
  shows "children h' D n = {}"
proof -
  have "x \<in> children h D n" if x: "x \<in> children h' D n" for x
  proof -
    obtain e where e: "x \<notin> D" "h' x = Some e" "nd_parent e = Some n" using x by (auto simp: children_def parent_rel_def)
    then have "x \<noteq> n" using assms(2) by (auto simp: detach_def)
    then obtain e0 where "h x = Some e0" "nd_parent e0 = Some n"
      using frameD [OF assms(1), of x e] e same_but_refsD by auto
    then show ?thesis using e(1) by (simp add: children_def parent_rel_def)
  qed
  then show ?thesis using assms(3) by blast
qed

lemma delete_step:
  assumes good: "unref_good (names_count f)" and inv: "tree_inv f D" "refs_ok (fn_heap f) D {}" "below (fn_heap f) D n"
    and n: "fn_heap f n = Some d" "nd_refctr d = 0" and free: "lock_free (fn_heap f)"
  shows "\<exists>f'. delete_node f n = Inr f' \<and> unref_post f D f'"
proof -
  note z = refs_zero [OF inv(1,2) n]
  have nD: "n \<notin> D" using acyclic_not_below inv(1,3) by (auto simp: tree_inv_def)
  obtain f1 where f1: "unhash_name f n = Inr f1" "tree_inv f1 D" "refs_ok (fn_heap f1) D {}" "fn_heap f1 n = Some (detach d)"
    "frame D (fn_heap f) ((fn_heap f1)(n \<mapsto> d))"
    using unhash_step [OF good inv n(1) z(3)] free by (auto simp: may_drop_def)
  have "children (fn_heap f1) D n = {}" using frame_children [OF f1(5,4) z(1)] .
  then obtain f' where f': "bind_res (unhash_id (if lru_enabled (fn_mem f1) then remove_node_lru n f1 else f1) n) (\<lambda>f3. free_node f3 n) = Inr f'"
    "tree_inv f' D" "refs_ok (fn_heap f') D {}" "fn_heap f' = (fn_heap f1)(n := None)"
    using free_node_inv [OF f1(2,3,4)] z(3) by (auto simp: detach_def)
  have "delete_node f n = Inr f'"
    using n f1(1) f'(1) free z(2) by (simp add: delete_node.simps [of f] lock_free_def Let_def)
  moreover have "frame D (fn_heap f) (fn_heap f')"
    using f1(5) nD z(2) n(1) unfolding frame_def f'(4) by (auto split: if_splits)
  ultimately show ?thesis using f' by (simp add: unref_post_def)
qed

lemma unref_step:
  assumes good: "unref_good (names_count f)" and pre: "unref_pre f D n"
  shows "\<exists>f'. unref_node f n = Inr f' \<and> unref_post f D f'"
proof -
  obtain d where d: "fn_heap f n = Some d" and inv: "tree_inv f D" "refs_ok (fn_heap f) D {n}" "below (fn_heap f) D n"
    "may_drop (fn_heap f) n"
    using pre by (auto simp: unref_pre_def)
  have nD: "n \<notin> D" using acyclic_not_below inv(1,3) by (auto simp: tree_inv_def)
  define d1 where "d1 = d\<lparr>nd_refctr := nd_refctr d - 1\<rparr>"
  define f1 where "f1 = put_node n d1 f"
  have rd: "nd_refctr d = int (card (children (fn_heap f) D n)) + held_by_kernel d + 1"
    using inv(2) d by (simp add: refs_ok_def)
  then have pos: "0 < nd_refctr d" by (simp add: held_by_kernel_def)
  have "nd_nodeid d = FUSE_ROOT_ID \<longrightarrow> nd_nlookup d \<noteq> 0"
    using inv(1) d unfolding tree_inv_def root_ok_def ids_distinct_def by (metis option.inject)
  then have t1: "tree_inv f1 D" unfolding f1_def using inv(1) d by (intro tree_inv_put) (auto simp: d1_def)
  have r1: "refs_ok (fn_heap f1) D {}"
    unfolding f1_def put_node_sel by (rule refs_ok_put [OF inv(2) d]) (simp_all add: d1_def held_by_kernel_def)
  have sb: "same_but_refs d d1" by (simp add: d1_def same_but_refs_def)
  have fr: "frame D (fn_heap f) (fn_heap f1)"
    using d sb nD by (auto simp: frame_def f1_def)
  have h1: "fn_heap f1 n = Some d1" by (simp add: f1_def)
  have res: "unref_node f n = (if nd_refctr d - 1 = 0 then delete_node f1 n else Inr f1)"
    using d pos by (simp add: unref_node.simps [of f] f1_def d1_def)
  show ?thesis
  proof (cases "nd_refctr d - 1 = 0")
    case False
    then show ?thesis using res t1 r1 fr by (simp add: unref_post_def)
  next
    case True
    then have "held_by_kernel d = 0" using rd by (cases "nd_nlookup d = 0") (simp_all add: held_by_kernel_def)
    then have "lock_free (fn_heap f)" using inv(4) d by (auto simp: may_drop_def held_by_kernel_def split: if_splits)
    then have lf: "lock_free (fn_heap f1)" using frame_lock_free [OF fr] by blast
    have "parent_rel (fn_heap f1) = parent_rel (fn_heap f)"
      unfolding f1_def put_node_sel by (rule same_view(2), rule view_update) (simp_all add: d d1_def)
    then have b: "below (fn_heap f1) D n" using inv(3) by (simp add: below_def)
    have "unref_good (names_count f1)" using good by (simp add: f1_def names_count_names)
    then obtain f' where "delete_node f1 n = Inr f'" "unref_post f1 D f'"
      using delete_step [OF _ t1 r1 b h1 _ lf] True by (auto simp: d1_def)
    then show ?thesis using res True frame_trans [OF fr] by (auto simp: unref_post_def)
  qed
qed

lemma unref_good_all: "unref_good k"
proof (induction k)
  case 0
  show ?case by (simp add: unref_good_def)
next
  case (Suc k)
  have "unref_good (names_count f)" if "names_count f < Suc k" for f
    using Suc that unfolding unref_good_def by (meson less_Suc_eq_le order_less_le_trans)
  then show ?case
    using unref_step unfolding unref_good_def [of "Suc k"] by blast
qed

end
