(* ===== verification/Node_Ops.thy ===== *)
theory Node_Ops
  imports Node_Inv
begin

text \<open>
  The operations on nodes keep the invariant, one after the other: looking up by number and by
  name, giving a node a name, choosing a number, and the calls that the requests of the kernel make.
\<close>

section \<open>Looking up\<close>

lemma chain_ok: "table_inv raw k t \<Longrightarrow> chain t (slot t h) = Inr (tb_array t ! slot t h)"
  by (simp add: table_inv_def slot_in_array)

lemma bucket_members: "table_inv raw k t \<Longrightarrow> set (tb_array t ! slot t h) \<subseteq> members t"
  using concat_update_mem [of "slot t h" "tb_array t"] by (auto simp: table_inv_def slot_in_array members_def)

lemma find_id_eq:
  "set ns \<subseteq> dom (fn_heap f) \<Longrightarrow> find_id f ino ns = Inr (List.find (\<lambda>n. map_option nd_nodeid (fn_heap f n) = Some ino) ns)"
  by (induction ns) auto

lemma find_name_eq:
  "(\<And>n. n \<in> set ns \<Longrightarrow> node_key (fn_heap f) n \<noteq> None) \<Longrightarrow>
   find_name f parent name ns = Inr (List.find (\<lambda>n. node_key (fn_heap f) n = Some (parent, name)) ns)"
proof (induction ns)
  case (Cons n ns)
  then obtain k where "node_key (fn_heap f) n = Some k" by fastforce
  then show ?case using Cons by simp
qed simp

text \<open>A number is found exactly when a node of the table has it.\<close>

lemma get_node_nocheck_cases:
  assumes "table_inv (raw_id (fn_heap f)) k (fn_ids f)" "members (fn_ids f) \<subseteq> dom (fn_heap f)"
  obtains n d where "get_node_nocheck f ino = Inr (Some n)" "n \<in> members (fn_ids f)" "fn_heap f n = Some d" "nd_nodeid d = ino"
  | "get_node_nocheck f ino = Inr None" "\<And>n d. n \<in> members (fn_ids f) \<Longrightarrow> fn_heap f n = Some d \<Longrightarrow> nd_nodeid d \<noteq> ino"
proof -
  let ?b = "tb_array (fn_ids f) ! slot (fn_ids f) (id_raw ino)"
  let ?P = "\<lambda>n. map_option nd_nodeid (fn_heap f n) = Some ino"
  have sub: "set ?b \<subseteq> members (fn_ids f)" using assms(1) by (rule bucket_members)
  have g: "get_node_nocheck f ino = Inr (List.find ?P ?b)"
    unfolding get_node_nocheck_def id_hash_def chain_ok [OF assms(1)] bind_res_simps
    using sub assms(2) by (intro find_id_eq) auto
  show thesis
  proof (cases "List.find ?P ?b")
    case None
    have "nd_nodeid d \<noteq> ino" if n: "n \<in> members (fn_ids f)" "fn_heap f n = Some d" for n d
    proof
      assume i: "nd_nodeid d = ino"
      then have "n \<in> set ?b" using table_member_bucket [OF assms(1), of n] n by (simp add: raw_id_def)
      then show False using None n i by (auto simp: find_None_iff)
    qed
    then show thesis using that(2) g None by simp
  next
    case (Some n)
    then have "n \<in> set ?b" "?P n" by (auto simp: find_Some_iff)
    then show thesis using that(1) [of n] g Some sub by auto
  qed
qed

lemma lookup_node_cases:
  assumes "table_inv (raw_name (fn_heap f)) k (fn_names f)" "\<And>n. n \<in> members (fn_names f) \<Longrightarrow> node_key (fn_heap f) n \<noteq> None"
  obtains n where "lookup_node f parent name = Inr (Some n)" "n \<in> members (fn_names f)" "node_key (fn_heap f) n = Some (parent, name)"
  | "lookup_node f parent name = Inr None" "\<And>n. n \<in> members (fn_names f) \<Longrightarrow> node_key (fn_heap f) n \<noteq> Some (parent, name)"
proof -
  let ?b = "tb_array (fn_names f) ! slot (fn_names f) (unat (name_raw parent name))"
  let ?P = "\<lambda>n. node_key (fn_heap f) n = Some (parent, name)"
  have sub: "set ?b \<subseteq> members (fn_names f)" using assms(1) by (rule bucket_members)
  have g: "lookup_node f parent name = Inr (List.find ?P ?b)"
    unfolding lookup_node_def name_hash_def chain_ok [OF assms(1)] bind_res_simps
    using sub assms(2) by (intro find_name_eq) blast
  show thesis
  proof (cases "List.find ?P ?b")
    case None
    have "\<not> ?P n" if n: "n \<in> members (fn_names f)" for n
    proof
      assume "?P n"
      then have "n \<in> set ?b" using table_member_bucket [OF assms(1), of n] n by (simp add: raw_name_def)
      then show False using None \<open>?P n\<close> by (auto simp: find_None_iff)
    qed
    then show thesis using that(2) g None by simp
  next
    case (Some n)
    then have "n \<in> set ?b" "?P n" by (auto simp: find_Some_iff)
    then show thesis using that(1) [of n] g Some sub by auto
  qed
qed

lemma named_key:
  assumes "links_ok h D" "n \<in> named h D"
  shows "\<exists>d p pd nm. h n = Some d \<and> nd_parent d = Some p \<and> h p = Some pd \<and> nd_name d = Some nm \<and>
    node_key h n = Some (nd_nodeid pd, nm)"
proof -
  obtain d p where d: "h n = Some d" "nd_parent d = Some p" "n \<notin> D" using assms(2) by (auto simp: named_def parent_rel_def)
  then have "link_ok h d" using assms(1) by (simp add: links_ok_def)
  then obtain pd nm where "h p = Some pd" "nd_name d = Some nm" using d by (auto simp: link_ok_def)
  then show ?thesis using d by (simp add: node_key_def)
qed

lemma get_node_ok:
  assumes "tree_inv f D" "fn_heap f n = Some d"
  shows "get_node_nocheck f (nd_nodeid d) = Inr (Some n)" "get_node f (nd_nodeid d) = Inr n"
proof -
  have ids: "table_inv (raw_id (fn_heap f)) 0 (fn_ids f)" "members (fn_ids f) = dom (fn_heap f)" "ids_distinct (fn_heap f)"
    using assms(1) by (simp_all add: tree_defs)
  show g: "get_node_nocheck f (nd_nodeid d) = Inr (Some n)"
  proof (rule get_node_nocheck_cases [OF ids(1), of "nd_nodeid d"])
    show "members (fn_ids f) \<subseteq> dom (fn_heap f)" using ids(2) by simp
    fix m e
    assume "get_node_nocheck f (nd_nodeid d) = Inr (Some m)" "fn_heap f m = Some e" "nd_nodeid e = nd_nodeid d"
    then show ?thesis using ids(3) assms(2) unfolding ids_distinct_def by metis
  next
    assume "\<And>m e. m \<in> members (fn_ids f) \<Longrightarrow> fn_heap f m = Some e \<Longrightarrow> nd_nodeid e \<noteq> nd_nodeid d"
    then show ?thesis using ids(2) assms(2) by blast
  qed
  show "get_node f (nd_nodeid d) = Inr n" by (simp add: get_node_def g)
qed

text \<open>A name is found exactly when a node has that place in the tree.\<close>

lemma lookup_node_ok:
  assumes "tree_inv f D"
  shows "\<exists>r. lookup_node f parent name = Inr r \<and>
    (case r of None \<Rightarrow> (\<forall>n \<in> named (fn_heap f) D. node_key (fn_heap f) n \<noteq> Some (parent, name))
     | Some n \<Rightarrow> n \<in> named (fn_heap f) D \<and> node_key (fn_heap f) n = Some (parent, name))"
proof -
  have t: "table_inv (raw_name (fn_heap f)) (card D) (fn_names f)" "members (fn_names f) = named (fn_heap f) D" "links_ok (fn_heap f) D"
    using assms by (simp_all add: tree_defs)
  have k: "\<And>n. n \<in> members (fn_names f) \<Longrightarrow> node_key (fn_heap f) n \<noteq> None" using named_key [OF t(3)] unfolding t(2) by fastforce
  show ?thesis by (rule lookup_node_cases [OF t(1) k, of parent name]) (simp_all add: t(2))
qed

section \<open>Giving a node a name\<close>

lemma ids_distinct_map:
  "ids_distinct h \<longleftrightarrow> (\<forall>n m i. map_option nd_nodeid (h n) = Some i \<longrightarrow> map_option nd_nodeid (h m) = Some i \<longrightarrow> n = m)"
  by (auto simp: ids_distinct_def)

lemma attach_heap:
  fixes name :: string
  assumes "h n = Some d" "nd_parent d = None" "h q = Some qd" "q \<noteq> n" "h' = h(n \<mapsto> d\<lparr>nd_name := Some name, nd_parent := Some q\<rparr>)"
  shows "dom h' = dom h" "parent_rel h' = insert (n, q) (parent_rel h)" "named h' {} = insert n (named h {})"
    "children h' {} m = (if m = q then insert n (children h {} m) else children h {} m)" "raw_id h' = raw_id h"
    "m \<noteq> n \<Longrightarrow> node_key h' m = node_key h m" "node_key h' n = Some (nd_nodeid qd, name)" "ids_distinct h \<Longrightarrow> ids_distinct h'"
    "links_ok h {} \<Longrightarrow> nd_nodeid d \<noteq> FUSE_ROOT_ID \<Longrightarrow> links_ok h' {}" "nd_nodeid d \<noteq> FUSE_ROOT_ID \<Longrightarrow> root_ok h \<Longrightarrow> root_ok h'"
proof -
  show dom: "dom h' = dom h" using assms(1,5) by auto
  show p: "parent_rel h' = insert (n, q) (parent_rel h)" using assms(1,2,5) by (auto simp: parent_rel_def split: if_splits)
  show "named h' {} = insert n (named h {})" by (auto simp: named_def p)
  show "children h' {} m = (if m = q then insert n (children h {} m) else children h {} m)" by (auto simp: children_def p)
  show "raw_id h' = raw_id h" using assms(1,5) by (auto simp: raw_id_def)
  show "node_key h' m = node_key h m" if "m \<noteq> n"
    using assms(1,5) that by (auto simp: node_key_def split: option.split)
  show "node_key h' n = Some (nd_nodeid qd, name)" using assms(3,4,5) by (simp add: node_key_def)
  show "ids_distinct h'" if i: "ids_distinct h"
  proof -
    have "map_option nd_nodeid (h' x) = map_option nd_nodeid (h x)" for x using assms(1,5) by simp
    then show ?thesis using i by (simp add: ids_distinct_map)
  qed
  show "links_ok h' {}" if l: "links_ok h {}" "nd_nodeid d \<noteq> FUSE_ROOT_ID"
  proof -
    have "link_ok h' e = link_ok h e" for e using dom by (rule link_ok_dom)
    moreover have "link_ok h (d\<lparr>nd_name := Some name, nd_parent := Some q\<rparr>)" using assms(3) l(2) by (auto simp: link_ok_def)
    ultimately show ?thesis using l(1) assms(5) by (simp add: links_ok_def)
  qed
  show "root_ok h'" if "nd_nodeid d \<noteq> FUSE_ROOT_ID" "root_ok h"
    using that assms(1,5) unfolding root_ok_def by (metis fun_upd_other option.inject)
qed

lemma attach_inv:
  assumes inv: "tree_inv f {}" "refs_ok (fn_heap f) {} {q}" and n: "fn_heap f n = Some d" "nd_parent d = None" "nd_nodeid d \<noteq> FUSE_ROOT_ID"
    and q: "fn_heap f q = Some qd" "(q, n) \<notin> (parent_rel (fn_heap f))\<^sup>*"
    and fresh: "\<And>m. m \<in> named (fn_heap f) {} \<Longrightarrow> node_key (fn_heap f) m \<noteq> Some (nd_nodeid qd, name)"
  defines "f' \<equiv> put_node n (d\<lparr>nd_name := Some name, nd_parent := Some q\<rparr>) f"
  shows "nodes_ok (f'\<lparr>fn_names := table_insert ok (raw_name (fn_heap f')) n (fn_names f)\<rparr>)"
proof -
  define h' where "h' = (fn_heap f)(n \<mapsto> d\<lparr>nd_name := Some name, nd_parent := Some q\<rparr>)"
  have qn: "q \<noteq> n" using q(2) by auto
  note ah = attach_heap [OF n(1,2) q(1) qn h'_def]
  have nn: "n \<notin> named (fn_heap f) {}" using n by (auto simp: named_def parent_rel_def)
  have names: "table_inv (raw_name (fn_heap f)) 0 (fn_names f)" "members (fn_names f) = named (fn_heap f) {}"
    using inv(1) by (simp_all add: tree_defs)
  have "raw_name h' m = raw_name (fn_heap f) m" if "m \<in> members (fn_names f)" for m
    using that nn names(2) ah(6) by (metis raw_name_def)
  then have "table_inv (raw_name h') 0 (fn_names f)" by (rule table_inv_cong [OF names(1)])
  then have tb: "table_inv (raw_name h') 0 (table_insert ok (raw_name h') n (fn_names f))"
    "members (table_insert ok (raw_name h') n (fn_names f)) = named h' {}"
    using table_insert_inv [of "raw_name h'" 0 "fn_names f" n ok] nn names(2) ah(3) by simp_all
  have kd: "keys_distinct h' (named h' {})"
  proof -
    have "inj_on (node_key h') (named (fn_heap f) {})"
      using inv(1) nn ah(6) unfolding tree_inv_def keys_distinct_def inj_on_def by metis
    moreover have "node_key h' n \<notin> node_key h' ` named (fn_heap f) {}"
      using fresh nn ah(6,7) by (metis imageE)
    ultimately show ?thesis unfolding keys_distinct_def ah(3) by (auto simp: inj_on_insert)
  qed
  have ac: "acyclic (parent_rel h')"
    using inv(1) q(2) by (simp add: tree_inv_def ah(2) acyclic_insert)
  have rf: "refs_ok h' {} {}"
  proof -
    have fin: "finite (children (fn_heap f) {} q)" by (rule finite_subset [OF children_dom tree_finite [OF inv(1)]])
    have "n \<notin> children (fn_heap f) {} q" using nn by (auto simp: named_def children_def)
    then show ?thesis
      using inv(2) fin n(1) qn unfolding refs_ok_def ah(4) by (auto simp: h'_def held_by_kernel_def)
  qed
  have sel: "fn_heap f' = h'" by (simp add: f'_def h'_def)
  show ?thesis
    unfolding sel nodes_ok_def using inv(1) tb kd ac rf ah(8,9,10) n(3)
    by (simp add: tree_defs sel ah(1,5)) (simp add: f'_def)
qed

lemma spread_members: "table_inv raw k t \<Longrightarrow> set (spread t) \<subseteq> members t"
proof -
  assume t: "table_inv raw k t"
  then have sh: "table_shape t" by (simp add: table_inv_def)
  have "tb_split t < length (tb_array t)" if "tb_split t \<noteq> tb_size t div 2"
    using that by (rule_tac shape_half [OF sh]) simp
  then show ?thesis
    using concat_update_mem [of "tb_split t" "tb_array t"] by (auto simp: spread_def members_def)
qed

definition bump :: "fnode \<Rightarrow> fnode" where
  "bump d = d\<lparr>nd_refctr := nd_refctr d + 1\<rparr>"

lemma bump_simps [simp]:
  "nd_nodeid (bump d) = nd_nodeid d" "nd_parent (bump d) = nd_parent d" "nd_name (bump d) = nd_name d"
  "nd_nlookup (bump d) = nd_nlookup d" "nd_treelock (bump d) = nd_treelock d" "held_by_kernel (bump d) = held_by_kernel d"
  by (simp_all add: bump_def held_by_kernel_def)

lemma bump_refctr: "nd_refctr (bump d) = nd_refctr d + 1"
  by (simp add: bump_def)

lemma root_kept: "tree_inv f D \<Longrightarrow> fn_heap f n = Some d \<Longrightarrow> nd_nodeid d = FUSE_ROOT_ID \<Longrightarrow> nd_nlookup d \<noteq> 0"
  unfolding tree_inv_def root_ok_def ids_distinct_def by (metis option.inject)

lemma bump_inv:
  assumes "nodes_ok f" "fn_heap f q = Some qd"
  shows "tree_inv (put_node q (bump qd) f) {}" "refs_ok ((fn_heap f)(q \<mapsto> bump qd)) {} {q}"
    "tree_view ((fn_heap f)(q \<mapsto> bump qd)) = tree_view (fn_heap f)"
proof -
  show "tree_inv (put_node q (bump qd) f) {}"
    using assms root_kept [of f "{}" q qd] by (intro tree_inv_put) (auto simp: nodes_ok_def)
  show "refs_ok ((fn_heap f)(q \<mapsto> bump qd)) {} {q}"
    using assms by (intro refs_ok_put [of _ _ "{}" _ qd]) (auto simp: nodes_ok_def bump_refctr)
  show "tree_view ((fn_heap f)(q \<mapsto> bump qd)) = tree_view (fn_heap f)"
    using assms(2) by (intro view_update) simp_all
qed

text \<open>
  The count of references is an \<^verbatim>\<open>int\<close>: it can be raised while the nodes are fewer than its range.
\<close>

lemma refctr_room:
  assumes "nodes_ok f" "fn_heap f n = Some d" "card (dom (fn_heap f)) < 2 ^ 31 - 2"
  shows "in_int (nd_refctr d + 1)"
proof -
  have "card (children (fn_heap f) {} n) \<le> card (dom (fn_heap f))"
    using assms(1) children_dom tree_finite by (intro card_mono) (auto simp: nodes_ok_def)
  moreover have "nd_refctr d = int (card (children (fn_heap f) {} n)) + held_by_kernel d"
    using assms(1,2) by (auto simp: nodes_ok_def refs_ok_def)
  ultimately show ?thesis using assms(3) by (simp add: int_defs held_by_kernel_def)
qed

definition same_others :: "fuse_nodes \<Rightarrow> fuse_nodes \<Rightarrow> bool" where
  "same_others f f' \<longleftrightarrow> fn_ids f' = fn_ids f \<and> fn_lru f' = fn_lru f \<and> fn_ctr f' = fn_ctr f \<and> fn_generation f' = fn_generation f \<and>
     fn_mem f' = fn_mem f \<and> fn_clock f' = fn_clock f"

lemma nodes_ok_realloc [simp]: "nodes_ok (f\<lparr>fn_realloc := bs\<rparr>) = nodes_ok f"
  by (simp add: nodes_ok_def)

lemma get_node_realloc [simp]: "get_node (f\<lparr>fn_realloc := bs\<rparr>) i = get_node f i"
proof -
  have "find_id (f\<lparr>fn_realloc := bs\<rparr>) i ns = find_id f i ns" for ns by (induction ns) (simp_all add: node_def cong: if_cong)
  then show ?thesis by (simp add: get_node_def get_node_nocheck_def id_hash_def)
qed

text \<open>The part of \<^verbatim>\<open>hash_name\<close> after the name is copied.\<close>

lemma hash_name_link:
  assumes ok: "nodes_ok f" and n: "fn_heap f n = Some d" "nd_parent d = None" "nd_nodeid d \<noteq> FUSE_ROOT_ID"
    and q: "fn_heap f q = Some qd" "(q, n) \<notin> (parent_rel (fn_heap f))\<^sup>*"
    and fresh: "\<And>m. m \<in> named (fn_heap f) {} \<Longrightarrow> node_key (fn_heap f) m \<noteq> Some (nd_nodeid qd, name)"
  defines "f3 \<equiv> put_node n (d\<lparr>nd_name := Some name, nd_parent := Some q\<rparr>) (put_node q (bump qd) f)"
  shows "nodes_ok (f3\<lparr>fn_names := table_insert ok' (raw_name (fn_heap f3)) n (fn_names f)\<rparr>)"
    and "\<forall>m \<in> set (spread (fn_names f)). node_key (fn_heap f3) m \<noteq> None"
proof -
  let ?f2 = "put_node q (bump qd) f"
  note b = bump_inv [OF ok q(1)]
  note sv = same_view [OF b(3)]
  have qn: "q \<noteq> n" using q(2) by auto
  have n2: "fn_heap ?f2 n = Some d" using n(1) qn by simp
  have q2: "fn_heap ?f2 q = Some (bump qd)" by simp
  show "nodes_ok (f3\<lparr>fn_names := table_insert ok' (raw_name (fn_heap f3)) n (fn_names f)\<rparr>)"
    using attach_inv [OF b(1) _ n2 n(2,3) q2] b(2) q(2) fresh by (simp add: f3_def sv)
  have tb: "table_inv (raw_name (fn_heap f)) 0 (fn_names f)" "members (fn_names f) = named (fn_heap f) {}" "links_ok (fn_heap f) {}"
    using ok by (simp_all add: nodes_ok_def tree_defs)
  show "\<forall>m \<in> set (spread (fn_names f)). node_key (fn_heap f3) m \<noteq> None"
  proof
    fix m
    assume "m \<in> set (spread (fn_names f))"
    then have m: "m \<in> named (fn_heap f) {}" using spread_members [OF tb(1)] tb(2) by auto
    then have "m \<noteq> n" using n by (auto simp: named_def parent_rel_def)
    then have "node_key (fn_heap f3) m = node_key (fn_heap ?f2) m"
      by (intro attach_heap(6) [where h = "fn_heap ?f2" and name = name, OF n2 n(2) q2 qn]) (simp_all add: f3_def)
    also have "\<dots> = node_key (fn_heap f) m" by (simp add: sv)
    finally show "node_key (fn_heap f3) m \<noteq> None" using named_key [OF tb(3) m] by auto
  qed
qed

lemma hash_name_ok:
  assumes ok: "nodes_ok f" and n: "fn_heap f n = Some d" "nd_parent d = None" "nd_name d = None" "nd_nodeid d \<noteq> FUSE_ROOT_ID"
    and q: "fn_heap f q = Some qd" "(q, n) \<notin> (parent_rel (fn_heap f))\<^sup>*" and g: "get_node f (nd_nodeid qd) = Inr q"
    and room: "in_int (nd_refctr qd + 1)"
    and fresh: "\<And>m. m \<in> named (fn_heap f) {} \<Longrightarrow> node_key (fn_heap f) m \<noteq> Some (nd_nodeid qd, name)"
  shows "\<exists>err f'. hash_name f n (nd_nodeid qd) name = Inr (err, f') \<and> nodes_ok f' \<and> same_others f f' \<and>
    (err = 0 \<and> fn_heap f' = (fn_heap f)(q \<mapsto> bump qd, n \<mapsto> d\<lparr>nd_name := Some name, nd_parent := Some q\<rparr>) \<or>
     err = -1 \<and> INLINE_NAME \<le> length name \<and> fn_heap f' = fn_heap f \<and> fn_names f' = fn_names f)"
proof -
  obtain dup bs where f1: "(if length name < INLINE_NAME then (True, f) else next_ok f) = (dup, f\<lparr>fn_realloc := bs\<rparr>)"
    by (cases "length name < INLINE_NAME") (auto intro: next_ok_cases [of f] simp: that [of _ "fn_realloc f"])
  define f1 where "f1 = f\<lparr>fn_realloc := bs\<rparr>"
  show ?thesis
  proof (cases dup)
    case False
    then have len: "INLINE_NAME \<le> length name" using f1 by (auto split: if_splits)
    have "(fn_heap f)(n \<mapsto> d\<lparr>nd_name := None\<rparr>) = fn_heap f" using n(1,3) by (cases d) (auto simp: fun_eq_iff)
    then have e: "put_node n (d\<lparr>nd_name := None\<rparr>) f1 = f1" by (simp add: f1_def put_node_def)
    have "hash_name f n (nd_nodeid qd) name = Inr (-1, f1)"
      using False n(1) unfolding hash_name_def g f1 by (simp add: e [unfolded f1_def] f1_def)
    then show ?thesis using ok len by (simp add: f1_def same_others_def)
  next
    case True
    define f3 where "f3 = put_node n (d\<lparr>nd_name := Some name, nd_parent := Some q\<rparr>) (put_node q (bump qd) f1)"
    obtain ok' bs' where nx: "next_ok f3 = (ok', f3\<lparr>fn_realloc := bs'\<rparr>)" by (rule next_ok_cases)
    have qn: "q \<noteq> n" using q(2) by auto
    have "nodes_ok f1" "fn_heap f1 n = Some d" "fn_heap f1 q = Some qd" "(q, n) \<notin> (parent_rel (fn_heap f1))\<^sup>*"
      "\<And>m. m \<in> named (fn_heap f1) {} \<Longrightarrow> node_key (fn_heap f1) m \<noteq> Some (nd_nodeid qd, name)"
      using ok n(1) q fresh by (simp_all add: f1_def)
    note hl = hash_name_link [OF this(1,2) n(2,4) this(3-5), folded f3_def]
    have sh: "name_hash f (nd_nodeid qd) name < length (tb_array (fn_names f))"
      using ok by (simp add: name_hash_def nodes_ok_def tree_defs table_inv_def slot_in_array)
    have "hash_name f n (nd_nodeid qd) name =
        Inr (0, f3\<lparr>fn_realloc := bs', fn_names := table_insert ok' (raw_name (fn_heap f3)) n (fn_names f)\<rparr>)"
    proof -
      have "node f1 q = Inr qd" "node (put_node q (bump qd) f1) n = Inr d" using n(1) q(1) qn by (simp_all add: f1_def)
      moreover have "chain (fn_names f3) (name_hash f (nd_nodeid qd) name) = Inr (tb_array (fn_names f) ! name_hash f (nd_nodeid qd) name)"
        using sh by (simp add: f3_def f1_def)
      moreover have "guard_res (\<forall>m \<in> set (spread (fn_names (f3\<lparr>fn_realloc := bs'\<rparr>))). node_key (fn_heap (f3\<lparr>fn_realloc := bs'\<rparr>)) m \<noteq> None) NullPointer = Inr ()"
        using hl(2) by (simp add: f3_def f1_def)
      moreover have "fn_names f3 = fn_names f" by (simp add: f3_def f1_def)
      ultimately show ?thesis
        unfolding hash_name_def g f1 bind_res_simps Let_def prod.case f1_def [symmetric]
        using True by (simp only: chk_int_Inr [OF room] bump_def [symmetric] f3_def [symmetric] nx bind_res_simps prod.case if_False not_True_eq_False) simp
    qed
    moreover have "nodes_ok (f3\<lparr>fn_realloc := bs', fn_names := table_insert ok' (raw_name (fn_heap f3)) n (fn_names f)\<rparr>)"
      using hl(1) [of ok'] by (simp add: f1_def nodes_ok_def tree_defs)
    ultimately show ?thesis by (auto simp: same_others_def f3_def f1_def)
  qed
qed

section \<open>Choosing a number\<close>

lemma next_ctr:
  assumes "unat (c :: 64 word) < 2 ^ 32"
  shows "unat ((c + 1) AND 0xffffffff) = (unat c + 1) mod 2 ^ 32"
proof -
  have m: "(0xffffffff :: 64 word) = mask 32" by (simp add: mask_eq_exp_minus_1)
  have u: "unat (c + 1) = unat c + 1" using assms by (simp add: unat_word_ariths)
  have "unat (take_bit 32 (c + 1)) = take_bit 32 (unat (c + 1))" by (rule unsigned_take_bit_eq)
  then show ?thesis
    unfolding m take_bit_eq_mask [symmetric] u by (simp only: take_bit_eq_mod)
qed

lemma ctr_bound: "unat ((c :: 64 word) AND 0xffffffff) < 2 ^ 32"
proof -
  have m: "(0xffffffff :: 64 word) = mask 32" by (simp add: mask_eq_exp_minus_1)
  have "unat (take_bit 32 c) = take_bit 32 (unat c)" by (rule unsigned_take_bit_eq)
  then show ?thesis
    unfolding m take_bit_eq_mask [symmetric] by (simp only: take_bit_nat_less_exp)
qed

text \<open>How far the counter is from a number, going round.\<close>

definition steps_to :: "nat \<Rightarrow> nat \<Rightarrow> nat" where
  "steps_to x c = (if c < x then x - c - 1 else x + 2 ^ 32 - c - 1)"

lemma steps_to_0: "x < 2 ^ 32 \<Longrightarrow> c < 2 ^ 32 \<Longrightarrow> steps_to x c = 0 \<Longrightarrow> (c + 1) mod 2 ^ 32 = x"
  by (cases "c + 1 = 2 ^ 32") (auto simp: steps_to_def split: if_splits)

lemma steps_to_Suc:
  "x < 2 ^ 32 \<Longrightarrow> c < 2 ^ 32 \<Longrightarrow> steps_to x c = Suc j \<Longrightarrow> steps_to x ((c + 1) mod 2 ^ 32) = j"
  by (cases "c + 1 = 2 ^ 32") (auto simp: steps_to_def split: if_splits)

lemma get_node_nocheck_cong:
  assumes "fn_heap f' = fn_heap f" "fn_ids f' = fn_ids f"
  shows "get_node_nocheck f' i = get_node_nocheck f i"
proof -
  have "find_id f' i ns = find_id f i ns" for ns
    by (induction ns) (simp_all add: node_def assms cong: if_cong)
  then have "find_id f' i = find_id f i" by (rule ext)
  then show ?thesis by (simp add: get_node_nocheck_def id_hash_def assms)
qed

definition unused :: "fuse_nodes \<Rightarrow> 64 word \<Rightarrow> bool" where
  "unused f i \<longleftrightarrow> i \<noteq> 0 \<and> i \<noteq> FUSE_UNKNOWN_INO \<and> unat i < 2 ^ 32 \<and>
     (\<forall>n d. n \<in> members (fn_ids f) \<longrightarrow> fn_heap f n = Some d \<longrightarrow> nd_nodeid d \<noteq> i)"

lemma next_id_step:
  assumes tb: "table_inv (raw_id (fn_heap f)) k (fn_ids f)" "members (fn_ids f) \<subseteq> dom (fn_heap f)"
  defines "i \<equiv> (fn_ctr f + 1) AND 0xffffffff"
  defines "f1 \<equiv> f\<lparr>fn_ctr := i, fn_generation := (if i = 0 then fn_generation f + 1 else fn_generation f)\<rparr>"
  shows "next_id f = (if unused f i then Some (Inr (i, f1)) else next_id f1)"
proof -
  have g: "get_node_nocheck f1 i = get_node_nocheck f i"
    by (rule get_node_nocheck_cong) (simp_all add: f1_def)
  have i: "unat i < 2 ^ 32" unfolding i_def by (rule ctr_bound)
  have s: "next_id f = (if i = 0 \<or> i = FUSE_UNKNOWN_INO then next_id f1
      else case get_node_nocheck f i of Inl e \<Rightarrow> Some (Inl e) | Inr None \<Rightarrow> Some (Inr (i, f1)) | Inr (Some _) \<Rightarrow> next_id f1)"
    unfolding next_id.simps [of f] Let_def i_def [symmetric] f1_def [symmetric] g ..
  show ?thesis
  proof (cases "i = 0 \<or> i = FUSE_UNKNOWN_INO")
    case True
    then show ?thesis unfolding s by (auto simp: unused_def)
  next
    case False
    show ?thesis
    proof (rule get_node_nocheck_cases [OF tb, of i])
      fix n d
      assume "get_node_nocheck f i = Inr (Some n)" "n \<in> members (fn_ids f)" "fn_heap f n = Some d" "nd_nodeid d = i"
      then show ?thesis unfolding s using False by (auto simp: unused_def)
    next
      assume "get_node_nocheck f i = Inr None" "\<And>n d. n \<in> members (fn_ids f) \<Longrightarrow> fn_heap f n = Some d \<Longrightarrow> nd_nodeid d \<noteq> i"
      then show ?thesis unfolding s using False i by (auto simp: unused_def)
    qed
  qed
qed

lemma next_id_reaches:
  "table_inv (raw_id (fn_heap f)) k (fn_ids f) \<Longrightarrow> members (fn_ids f) \<subseteq> dom (fn_heap f) \<Longrightarrow> unused f x \<Longrightarrow>
   unat (fn_ctr f) < 2 ^ 32 \<Longrightarrow> steps_to (unat x) (unat (fn_ctr f)) = j \<Longrightarrow>
   \<exists>i g. next_id f = Some (Inr (i, f\<lparr>fn_ctr := i, fn_generation := g\<rparr>)) \<and> unused f i"
proof (induction j arbitrary: f)
  case (0 f)
  define i where "i = (fn_ctr f + 1) AND 0xffffffff"
  have "unat i = unat x" using 0 steps_to_0 [of "unat x" "unat (fn_ctr f)"] next_ctr by (auto simp: i_def unused_def)
  then have "unused f i" using 0(3) by (simp add: word_unat_eq_iff [symmetric])
  moreover from this have "next_id f = Some (Inr (i, f\<lparr>fn_ctr := i, fn_generation := (if i = 0 then fn_generation f + 1 else fn_generation f)\<rparr>))"
    using next_id_step [OF 0(1,2), folded i_def] by (simp only: if_True)
  ultimately show ?case by blast
next
  case (Suc j f)
  define i where "i = (fn_ctr f + 1) AND 0xffffffff"
  define f1 where "f1 = f\<lparr>fn_ctr := i, fn_generation := (if i = 0 then fn_generation f + 1 else fn_generation f)\<rparr>"
  note st = next_id_step [OF Suc.prems(1,2), folded i_def f1_def]
  show ?case
  proof (cases "unused f i")
    case True
    then have "next_id f = Some (Inr (i, f1))" using st by simp
    then show ?thesis using True unfolding f1_def by blast
  next
    case False
    have u: "unat i = (unat (fn_ctr f) + 1) mod 2 ^ 32" using next_ctr [OF Suc.prems(4)] by (simp add: i_def)
    have un: "unused f1 y = unused f y" for y by (simp add: unused_def f1_def)
    have "\<exists>j g. next_id f1 = Some (Inr (j, f1\<lparr>fn_ctr := j, fn_generation := g\<rparr>)) \<and> unused f1 j"
    proof (rule Suc.IH)
      show "steps_to (unat x) (unat (fn_ctr f1)) = j"
        using steps_to_Suc [of "unat x" "unat (fn_ctr f)" j] Suc.prems(3-5) u by (simp add: f1_def unused_def)
    qed (use Suc.prems(1-3) u un in \<open>simp_all add: f1_def\<close>)
    then show ?thesis using st False un by (auto simp: f1_def)
  qed
qed

text \<open>
  The loop ends: when some number is unused, the counter reaches an unused number after at most \<open>2 ^ 32\<close> steps.
\<close>

lemma next_id_returns:
  assumes "table_inv (raw_id (fn_heap f)) k (fn_ids f)" "members (fn_ids f) \<subseteq> dom (fn_heap f)" "unused f x"
  shows "\<exists>i g. next_id f = Some (Inr (i, f\<lparr>fn_ctr := i, fn_generation := g\<rparr>)) \<and> unused f i"
proof -
  define i where "i = (fn_ctr f + 1) AND 0xffffffff"
  define f1 where "f1 = f\<lparr>fn_ctr := i, fn_generation := (if i = 0 then fn_generation f + 1 else fn_generation f)\<rparr>"
  note st = next_id_step [OF assms(1,2), folded i_def f1_def]
  show ?thesis
  proof (cases "unused f i")
    case True
    then have "next_id f = Some (Inr (i, f1))" using st by simp
    then show ?thesis using True unfolding f1_def by blast
  next
    case False
    have un: "unused f1 y = unused f y" for y by (simp add: unused_def f1_def)
    have "unat (fn_ctr f1) < 2 ^ 32" using ctr_bound by (simp add: f1_def i_def)
    then have "\<exists>j g. next_id f1 = Some (Inr (j, f1\<lparr>fn_ctr := j, fn_generation := g\<rparr>)) \<and> unused f1 j"
      using assms un by (intro next_id_reaches [of f1 k x]) (simp_all add: f1_def)
    then show ?thesis using st False un by (auto simp: f1_def)
  qed
qed

text \<open>A number is unused when there are fewer nodes than numbers.\<close>

lemma unused_exists:
  assumes "finite (dom (fn_heap f))" "card (dom (fn_heap f)) < 2 ^ 32 - 2"
  shows "\<exists>x. unused f x"
proof (rule ccontr)
  assume "\<nexists>x. unused f x"
  define S where "S = (\<lambda>k. of_nat k :: 64 word) ` {1..<2 ^ 32 - 1}"
  have inj: "inj_on (\<lambda>k. of_nat k :: 64 word) {1..<2 ^ 32 - 1}"
    by (rule inj_onI) (simp add: word_of_nat_eq_iff take_bit_nat_eq_self_iff [THEN iffD2])
  have "S \<subseteq> (\<lambda>n. nd_nodeid (the (fn_heap f n))) ` dom (fn_heap f)"
  proof
    fix y
    assume "y \<in> S"
    then obtain k where k: "y = of_nat k" "1 \<le> k" "k < 2 ^ 32 - 1" by (auto simp: S_def)
    then have "unat y = k" by (simp add: unat_of_nat)
    then have "y \<noteq> 0" "y \<noteq> FUSE_UNKNOWN_INO" "unat y < 2 ^ 32" using k by (auto simp: FUSE_UNKNOWN_INO_def)
    then obtain n d where "fn_heap f n = Some d" "nd_nodeid d = y"
      using \<open>\<nexists>x. unused f x\<close> by (auto simp: unused_def)
    then show "y \<in> (\<lambda>n. nd_nodeid (the (fn_heap f n))) ` dom (fn_heap f)" by force
  qed
  then have "card S \<le> card (dom (fn_heap f))"
    using assms(1) by (meson card_image_le card_mono finite_imageI le_trans)
  moreover have "card S = 2 ^ 32 - 2" using inj by (simp add: S_def card_image)
  ultimately show False using assms(2) by simp
qed

section \<open>A new node\<close>

text \<open>Replacing a table by another one of the same nodes.\<close>

lemma nodes_ok_ids:
  "nodes_ok f \<Longrightarrow> table_inv (raw_id (fn_heap f)) 0 t \<Longrightarrow> members t = dom (fn_heap f) \<Longrightarrow> nodes_ok (f\<lparr>fn_ids := t\<rparr>)"
  by (simp add: nodes_ok_def tree_defs)

lemma nodes_ok_same:
  assumes "nodes_ok f" "fn_heap f' = fn_heap f" "fn_names f' = fn_names f" "fn_ids f' = fn_ids f" "fn_lru f' = fn_lru f"
    "mem_ok (fn_mem f')" "allocated (fn_mem f') = dom (fn_heap f)" "nm_remember (fn_mem f') = nm_remember (fn_mem f)"
  shows "nodes_ok f'"
  using assms by (simp add: nodes_ok_def tree_defs lru_enabled_def)

lemma raw_id_fresh: "m \<noteq> n \<Longrightarrow> raw_id (h(n \<mapsto> d)) m = raw_id h m"
  by (simp add: raw_id_def)

lemma add_heap:
  assumes "h n = None" "nd_parent d = None" "links_ok h {}" "h' = h(n \<mapsto> d)"
  shows "parent_rel h' = parent_rel h" "named h' {} = named h {}" "children h' {} m = children h {} m"
    "children h' {} n = {}" "m \<in> named h {} \<Longrightarrow> node_key h' m = node_key h m" "(q, n) \<in> (parent_rel h')\<^sup>* \<Longrightarrow> q = n"
proof -
  show p: "parent_rel h' = parent_rel h" using assms(1,2,4) by (auto simp: parent_rel_def split: if_splits)
  show "named h' {} = named h {}" "children h' {} m = children h {} m" by (simp_all add: named_def children_def p)
  have up: "q \<noteq> n" if mq: "(m, q) \<in> parent_rel h" for m q
  proof -
    obtain e where "h m = Some e" "nd_parent e = Some q" using mq by (auto simp: parent_rel_def)
    then have "q \<in> dom h" using assms(3) by (auto simp: links_ok_def link_ok_def split: option.splits)
    then show ?thesis using assms(1) by auto
  qed
  show "children h' {} n = {}" using up by (auto simp: children_def p)
  show "node_key h' m = node_key h m" if m: "m \<in> named h {}"
  proof -
    obtain q e where e: "h m = Some e" "nd_parent e = Some q" using m by (auto simp: named_def parent_rel_def)
    then have "q \<noteq> n" using up [of m q] by (auto simp: parent_rel_def)
    then show ?thesis using e assms(1,4) by (auto simp: node_key_def split: option.split)
  qed
  show "q = n" if "(q, n) \<in> (parent_rel h')\<^sup>*"
    using that by (cases rule: rtranclE) (use up p in auto)
qed

lemma add_node_inv:
  assumes ok: "nodes_ok f" and n: "fn_heap f n = None" "nd_parent d = None" "nd_name d = None" "nd_refctr d = held_by_kernel d"
    and i: "\<And>m e. fn_heap f m = Some e \<Longrightarrow> nd_nodeid e \<noteq> nd_nodeid d"
    and m: "mem_ok m" "allocated m = insert n (dom (fn_heap f))" "nm_remember m = nm_remember (fn_mem f)"
  defines "h' \<equiv> (fn_heap f)(n \<mapsto> d)"
  shows "nodes_ok (f\<lparr>fn_heap := h', fn_mem := m, fn_ids := table_insert ok' (raw_id h') n (fn_ids f)\<rparr>)"
    and "table_inv (raw_id h') 0 (fn_ids f)"
proof -
  have t: "tree_inv f {}" "links_ok (fn_heap f) {}" using ok by (simp_all add: nodes_ok_def tree_inv_def)
  note ah = add_heap [OF n(1,2) t(2), of h']
  have h': "h' = (fn_heap f)(n \<mapsto> d)" by (simp add: h'_def)
  have ids: "table_inv (raw_id (fn_heap f)) 0 (fn_ids f)" "members (fn_ids f) = dom (fn_heap f)"
    "table_inv (raw_name (fn_heap f)) 0 (fn_names f)" "members (fn_names f) = named (fn_heap f) {}"
    using t(1) by (simp_all add: tree_defs)
  have nm: "n \<notin> members (fn_ids f)" using n(1) ids(2) by auto
  show ti: "table_inv (raw_id h') 0 (fn_ids f)"
    using ids(1) by (rule table_inv_cong) (use nm in \<open>auto simp: h' intro: raw_id_fresh\<close>)
  have tn: "table_inv (raw_name h') 0 (fn_names f)"
    using ids(3) by (rule table_inv_cong) (simp add: raw_name_def ah(5) [OF h'] ids(4))
  have "links_ok h' {}"
  proof -
    have "link_ok h' e" if "link_ok (fn_heap f) e" for e
      using that by (cases "nd_parent e") (auto simp: link_ok_def h')
    moreover have "link_ok h' d" using n by (simp add: link_ok_def)
    ultimately show ?thesis using t(2) by (auto simp: links_ok_def h' split: if_splits)
  qed
  moreover have "root_ok h'" using t(1) n(1) unfolding tree_inv_def root_ok_def h' by (metis fun_upd_other option.distinct(1))
  moreover have "ids_distinct h'"
    unfolding ids_distinct_def
  proof (intro allI impI)
    fix a b x y
    assume "h' a = Some x" "h' b = Some y" "nd_nodeid x = nd_nodeid y"
    then show "a = b"
      using t(1) i [of a x] i [of b y] by (auto simp: h' tree_inv_def ids_distinct_def split: if_splits)
  qed
  moreover have "keys_distinct h' (named h' {})"
    using t(1) ah(5) [OF h'] unfolding ah(2) [OF h'] by (simp add: tree_inv_def keys_distinct_def inj_on_def)
  moreover have "refs_ok h' {} {}"
    using ok ah(3,4) [OF h'] n(4) unfolding nodes_ok_def refs_ok_def by (auto simp: h' split: if_splits)
  moreover have "set (fn_lru f) \<subseteq> dom h'" using t(1) by (auto simp: tree_defs h')
  ultimately show "nodes_ok (f\<lparr>fn_heap := h', fn_mem := m, fn_ids := table_insert ok' (raw_id h') n (fn_ids f)\<rparr>)"
    using t(1) tn m table_insert_inv [OF ti nm, of ok'] ids(2,4)
    by (simp add: nodes_ok_def tree_defs ah(1,2) [OF h'] lru_enabled_def) (simp add: h')
qed

text \<open>The table of numbers only serves to find the parent.\<close>

lemma next_ok_ids: "next_ok (f\<lparr>fn_ids := t\<rparr>) = (fst (next_ok f), (snd (next_ok f))\<lparr>fn_ids := t\<rparr>)"
  by (simp add: next_ok_def split: list.split)

lemma put_node_ids: "put_node n d (f\<lparr>fn_ids := t\<rparr>) = (put_node n d f)\<lparr>fn_ids := t\<rparr>"
  by (simp add: put_node_def)

lemma node_ids: "node (f\<lparr>fn_ids := t\<rparr>) n = node f n"
  by (simp add: node_def)

definition link_name :: "nat \<Rightarrow> nat \<Rightarrow> nat \<Rightarrow> string \<Rightarrow> bool \<times> fuse_nodes \<Rightarrow> (int \<times> fuse_nodes) res" where
  "link_name n parent hash name = (\<lambda>(dup, f1).
     if \<not> dup then bind_res (node f1 n) (\<lambda>d. Inr (-1, put_node n (d\<lparr>nd_name := None\<rparr>) f1))
     else
       bind_res (node f1 parent) (\<lambda>pd.
       bind_res (chk_int (nd_refctr pd + 1)) (\<lambda>c.
         let f2 = put_node parent (pd\<lparr>nd_refctr := c\<rparr>) f1 in
         bind_res (node f2 n) (\<lambda>d.
           let f3 = put_node n (d\<lparr>nd_name := Some name, nd_parent := Some parent\<rparr>) f2 in
           bind_res (chain (fn_names f3) hash) (\<lambda>_.
             let (ok, f4) = next_ok f3 in
             bind_res (guard_res (\<forall>m \<in> set (spread (fn_names f4)). node_key (fn_heap f4) m \<noteq> None) NullPointer)
               (\<lambda>_. Inr (0, f4\<lparr>fn_names := table_insert ok (raw_name (fn_heap f4)) n (fn_names f4)\<rparr>)))))))"

lemma hash_name_link_name:
  "hash_name f n parentid name =
     bind_res (get_node f parentid) (\<lambda>parent.
       link_name n parent (name_hash f parentid name) name (if length name < INLINE_NAME then (True, f) else next_ok f))"
  unfolding hash_name_def link_name_def Let_def ..

lemma bind_res_map_cong: "(\<And>x. g x = bind_res (f x) k) \<Longrightarrow> bind_res m g = bind_res (bind_res m f) k"
  by (cases m) simp_all

lemma link_name_ids:
  "link_name n p hash name (dup, f\<lparr>fn_ids := t\<rparr>) = bind_res (link_name n p hash name (dup, f)) (\<lambda>(e, f'). Inr (e, f'\<lparr>fn_ids := t\<rparr>))"
  unfolding link_name_def prod.case node_ids put_node_ids Let_def next_ok_ids
  by (auto simp: case_prod_beta node_ids put_node_ids next_ok_ids simp del: bind_res_assoc intro!: bind_res_map_cong)

lemma hash_name_ids:
  assumes "get_node (f\<lparr>fn_ids := t\<rparr>) p = get_node f p"
  shows "hash_name (f\<lparr>fn_ids := t\<rparr>) n p name = bind_res (hash_name f n p name) (\<lambda>(e, f'). Inr (e, f'\<lparr>fn_ids := t\<rparr>))"
proof -
  have "(if length name < INLINE_NAME then (True, f\<lparr>fn_ids := t\<rparr>) else next_ok (f\<lparr>fn_ids := t\<rparr>)) =
      (let (dup, f1) = (if length name < INLINE_NAME then (True, f) else next_ok f) in (dup, f1\<lparr>fn_ids := t\<rparr>))"
    by (simp add: next_ok_ids case_prod_beta)
  moreover have "name_hash (f\<lparr>fn_ids := t\<rparr>) p name = name_hash f p name" by (simp add: name_hash_def)
  ultimately show ?thesis
    unfolding hash_name_link_name assms
    by (intro bind_res_map_cong) (simp add: link_name_ids case_prod_beta del: bind_res_assoc)
qed

lemma hash_id_ok:
  assumes "table_inv (raw_id (fn_heap f)) 0 (fn_ids f)" "members (fn_ids f) \<subseteq> dom (fn_heap f)" "fn_heap f n = Some d"
  shows "\<exists>ok bs. hash_id f n = Inr (f\<lparr>fn_realloc := bs, fn_ids := table_insert ok (raw_id (fn_heap f)) n (fn_ids f)\<rparr>)"
proof -
  obtain ok bs where nx: "next_ok f = (ok, f\<lparr>fn_realloc := bs\<rparr>)" by (rule next_ok_cases)
  have "id_hash f (nd_nodeid d) < length (tb_array (fn_ids f))"
    using assms(1) by (simp add: id_hash_def table_inv_def slot_in_array)
  moreover have "\<forall>m \<in> set (spread (fn_ids f)). fn_heap f m \<noteq> None"
    using spread_members [OF assms(1)] assms(2) by auto
  ultimately show ?thesis
    using assms(3) by (auto simp: hash_id_def nx chain_def guard_res_def)
qed

text \<open>The new node before it has a name, as the tables will see it.\<close>

definition fresh_node :: "fuse_nodes \<Rightarrow> 64 word \<Rightarrow> 32 word \<Rightarrow> fnode" where
  "fresh_node f i g =
     (let d = zero_node\<lparr>nd_nodeid := i, nd_generation := g\<rparr> in
      if conf_remember f \<noteq> 0 then d\<lparr>nd_refctr := 1, nd_nlookup := 1\<rparr> else d)"

lemma fresh_node_simps [simp]:
  "nd_nodeid (fresh_node f i g) = i" "nd_parent (fresh_node f i g) = None" "nd_name (fresh_node f i g) = None"
  "nd_refctr (fresh_node f i g) = held_by_kernel (fresh_node f i g)" "nd_treelock (fresh_node f i g) = 0" "nd_open_count (fresh_node f i g) = 0"
  "nd_nlookup (fresh_node f i g) = (if conf_remember f \<noteq> 0 then 1 else 0)"
  by (simp_all add: fresh_node_def zero_node_def held_by_kernel_def Let_def)

lemma unused_add:
  assumes "nodes_ok f" "fn_heap f n = None" "fn_ids f1 = fn_ids f" "fn_heap f1 = (fn_heap f)(n \<mapsto> d)"
  shows "unused f1 i \<longleftrightarrow> unused f i"
  using assms by (auto simp: unused_def nodes_ok_def tree_defs)

text \<open>Up to the call of \<^verbatim>\<open>hash_name\<close>.\<close>

lemma new_node_start:
  assumes ok: "nodes_ok f" and al: "alloc_node (fn_mem f) = Inr (Some n, m)" "n \<notin> allocated (fn_mem f)"
      "mem_ok m" "allocated m = insert n (allocated (fn_mem f))"
    and room: "card (dom (fn_heap f)) < 2 ^ 31 - 3"
  shows "\<exists>i g f3. unused f i \<and> nodes_ok (f3\<lparr>fn_ids := table_insert True (raw_id (fn_heap f3)) n (fn_ids f)\<rparr>) \<and>
    f3 = f\<lparr>fn_heap := (fn_heap f)(n \<mapsto> fresh_node f i g), fn_mem := m, fn_ctr := i, fn_generation := g\<rparr> \<and>
    table_inv (raw_id (fn_heap f3)) 0 (fn_ids f) \<and>
    new_node f parent name = bind_res (hash_name f3 n parent name) (\<lambda>(err, f4).
      if err = -1 then bind_res (free_node f4 n) (\<lambda>f5. Inr (None, f5)) else bind_res (hash_id f4 n) (\<lambda>f5. Inr (Some n, f5)))"
proof -
  have t: "tree_inv f {}" using ok by (simp add: nodes_ok_def)
  have dom: "allocated (fn_mem f) = dom (fn_heap f)" "members (fn_ids f) = dom (fn_heap f)" "table_inv (raw_id (fn_heap f)) 0 (fn_ids f)"
    using t by (simp_all add: tree_defs)
  have rem: "nm_remember m = nm_remember (fn_mem f)" using al(1) by (rule alloc_node_remember)
  have n: "fn_heap f n = None" using al(2) dom(1) by auto
  define fz where "fz = put_node n zero_node (f\<lparr>fn_mem := m\<rparr>)"
  have fz: "fn_ids fz = fn_ids f" "fn_heap fz = (fn_heap f)(n \<mapsto> zero_node)" by (simp_all add: fz_def)
  have tz: "table_inv (raw_id (fn_heap fz)) 0 (fn_ids fz)"
    unfolding fz by (rule table_inv_cong [OF dom(3)]) (use n dom(2) in \<open>auto intro: raw_id_fresh\<close>)
  obtain x where "unused f x" using unused_exists [OF tree_finite [OF t]] room by fastforce
  then have ux: "unused fz x" using unused_add [OF ok n fz] by simp
  have "members (fn_ids fz) \<subseteq> dom (fn_heap fz)" using dom(2) by (auto simp: fz)
  from next_id_returns [OF tz this ux]
  obtain i g where ni: "next_id fz = Some (Inr (i, fz\<lparr>fn_ctr := i, fn_generation := g\<rparr>))" "unused f i"
    using unused_add [OF ok n fz] by blast
  define d where "d = fresh_node f i g"
  define f3 where "f3 = f\<lparr>fn_heap := (fn_heap f)(n \<mapsto> d), fn_mem := m, fn_ctr := i, fn_generation := g\<rparr>"
  have "nd_nodeid e \<noteq> nd_nodeid d" if "fn_heap f k = Some e" for k e
    using ni(2) dom(2) that by (auto simp: unused_def d_def)
  note add = add_node_inv [OF ok n _ _ _ this al(3) _ rem]
  have "nodes_ok (f\<lparr>fn_heap := fn_heap f3, fn_mem := m, fn_ids := table_insert True (raw_id (fn_heap f3)) n (fn_ids f)\<rparr>)"
    and v2: "table_inv (raw_id (fn_heap f3)) 0 (fn_ids f)"
    using add al(4) dom(1) by (simp_all add: d_def f3_def)
  then have v: "nodes_ok (f3\<lparr>fn_ids := table_insert True (raw_id (fn_heap f3)) n (fn_ids f)\<rparr>)"
    by (simp add: f3_def nodes_ok_def tree_defs)
  have e: "conf_remember (put_node n x (fz\<lparr>fn_ctr := i, fn_generation := g\<rparr>)) = conf_remember f" for x
    using rem by (simp add: fz_def conf_remember_def)
  have "new_node f parent name = bind_res (hash_name f3 n parent name) (\<lambda>(err, f4).
      if err = -1 then bind_res (free_node f4 n) (\<lambda>f5. Inr (None, f5)) else bind_res (hash_id f4 n) (\<lambda>f5. Inr (Some n, f5)))"
  proof -
    let ?fi = "fz\<lparr>fn_ctr := i, fn_generation := g\<rparr>"
    let ?f2 = "put_node n (zero_node\<lparr>nd_nodeid := i, nd_generation := g\<rparr>) ?fi"
    have "(if conf_remember ?f2 \<noteq> 0 then inc_nlookup ?f2 n else Inr ?f2) = Inr f3"
      unfolding e by (simp add: inc_nlookup_def f3_def d_def fresh_node_def fz_def put_node_def Let_def) (simp add: zero_node_def int_defs)
    moreover have "node ?fi n = Inr zero_node" by (simp add: fz)
    ultimately show ?thesis
      unfolding new_node_def al(1) bind_res_simps prod.case Let_def option.case fz_def [symmetric] ni(1) the_res_simps
      by (simp split del: if_split cong: if_cong)
  qed
  then show ?thesis using ni(2) v v2 unfolding f3_def d_def by blast
qed

end
