(* ===== verification/Path_Walk.thy ===== *)
theory Path_Walk
  imports Fuse_Paths Node_Ops
begin

text \<open>
  How a path is built: the buffer holds the names from some node on, and the loops of \<^verbatim>\<open>try_get_path\<close>
  and \<^verbatim>\<open>unlock_path\<close> walk up the tree. All that they change of a node is its lock.
\<close>

section \<open>The buffer\<close>

text \<open>The buffer holds a string that ends with it.\<close>

definition pb_ok :: "path_buf \<Rightarrow> string \<Rightarrow> bool" where
  "pb_ok pb t \<longleftrightarrow> length (pb_buf pb) = pb_s pb + length t + 1 \<and>
     drop (pb_s pb) (pb_buf pb) = map Some t @ [Some NUL_CHAR] \<and> 256 \<le> length (pb_buf pb) \<and> length (pb_buf pb) \<le> 0xffffffff"

lemma grow_bufsize_ok:
  assumes "0 < sz" "sz \<le> 0xffffffff" "need \<le> 0xffffffff"
  shows "\<exists>s. grow_bufsize sz need = Some s \<and> need \<le> s \<and> sz \<le> s \<and> s \<le> 0xffffffff"
  using assms
proof (induction "0xffffffff - sz" arbitrary: sz rule: less_induct)
  case less
  show ?case
  proof (cases "sz < need")
    case True
    define s1 where "s1 = (if 0x80000000 \<le> sz then 0xffffffff else sz * 2)"
    have s1: "sz < s1" "s1 \<le> 0xffffffff" using True less.prems by (auto simp: s1_def)
    then have "0xffffffff - s1 < 0xffffffff - sz" by linarith
    then obtain s where "grow_bufsize s1 need = Some s" "need \<le> s" "s1 \<le> s" "s \<le> 0xffffffff"
      using less.hyps [of s1] less.prems(3) s1 by auto
    moreover have "grow_bufsize sz need = grow_bufsize s1 need"
      using True by (subst grow_bufsize.simps) (simp add: s1_def)
    ultimately show ?thesis using s1(1) by auto
  next
    case False
    then show ?thesis using less.prems by (subst grow_bufsize.simps) simp
  qed
qed

lemma drop_splice_same: "k \<le> length obj \<Longrightarrow> drop k (splice_bytes k bs obj) = bs @ drop (k + length bs) obj"
  by (simp add: splice_bytes_def)

lemma new_path_buf_ok: "pb_ok new_path_buf []"
  by (simp add: pb_ok_def new_path_buf_def)

lemma enlarge_ok:
  assumes "pb_ok pb t" "length t + len + 2 \<le> 0xffffffff"
  shows "\<exists>r. enlarge ok pb len = Inr r \<and> (if ok then \<exists>pb1. r = Some pb1 \<and> pb_ok pb1 t \<and> len < pb_s pb1 else r = None)"
proof -
  let ?n = "length (pb_buf pb)" and ?k = "length t + 1"
  have pb: "?n = pb_s pb + ?k" "drop (pb_s pb) (pb_buf pb) = map Some t @ [Some NUL_CHAR]" "256 \<le> ?n" "?n \<le> 0xffffffff"
    using assms(1) by (simp_all add: pb_ok_def)
  obtain m where m: "grow_bufsize ?n (?k + len + 1) = Some m" "?k + len + 1 \<le> m" "?n \<le> m" "m \<le> 0xffffffff"
    using grow_bufsize_ok [of ?n "?k + len + 1"] pb assms(2) by auto
  let ?new = "pb_buf pb @ replicate (m - ?n) None"
  have "take ?k (drop (?n - ?k) ?new) = map Some t @ [Some NUL_CHAR]"
    using pb by simp
  then have "enlarge True pb len = Inr (Some \<lparr>pb_buf = splice_bytes (m - ?k) (map Some t @ [Some NUL_CHAR]) ?new, pb_s = m - ?k\<rparr>)"
    using m(1) pb(1) by (simp add: enlarge_def Let_def)
  moreover have "enlarge False pb len = Inr None"
    using m(1) pb(1) by (simp add: enlarge_def Let_def)
  moreover have "pb_ok \<lparr>pb_buf = splice_bytes (m - ?k) (map Some t @ [Some NUL_CHAR]) ?new, pb_s = m - ?k\<rparr> t"
    using m pb by (simp add: pb_ok_def drop_splice_same)
  ultimately show ?thesis using m(2) by (cases ok) auto
qed

lemma add_name_ok:
  assumes "pb_ok pb t" "length t + length name + 2 \<le> 0xffffffff"
  shows "\<exists>r. add_name ok pb name = Inr r \<and>
    (case r of None \<Rightarrow> \<not> ok | Some pb1 \<Rightarrow> pb_ok pb1 (CHR ''/'' # name @ t))"
proof -
  have put: "pb_ok \<lparr>pb_buf = (splice_bytes (pb_s p - length name) (map Some name) (pb_buf p))[pb_s p - length name - 1 := Some (CHR ''/'')],
      pb_s = pb_s p - length name - 1\<rparr> (CHR ''/'' # name @ t)" if p: "pb_ok p t" "length name < pb_s p" for p
  proof -
    define s where "s = pb_s p - length name - 1"
    have s: "pb_s p = Suc s + length name" using p(2) by (simp add: s_def)
    define b where "b = splice_bytes (Suc s) (map Some name) (pb_buf p)"
    have len: "length (pb_buf p) = Suc s + length name + length t + 1" using p(1) s by (simp add: pb_ok_def)
    have lb: "length b = length (pb_buf p)" using len by (simp add: b_def splice_bytes_def)
    have "drop (Suc s) b = map Some name @ map Some t @ [Some NUL_CHAR]"
      using p(1) len by (simp add: b_def splice_bytes_def pb_ok_def s)
    then have "drop s (b[s := Some (CHR ''/'')]) = Some (CHR ''/'') # map Some name @ map Some t @ [Some NUL_CHAR]"
      using len lb by (simp add: Cons_nth_drop_Suc [symmetric])
    then show ?thesis
      using p(1) len lb s unfolding s_def [symmetric] by (simp add: pb_ok_def b_def)
  qed
  show ?thesis
  proof (cases "pb_s pb \<le> length name")
    case True
    obtain r where r: "enlarge ok pb (length name) = Inr r"
      "if ok then \<exists>pb1. r = Some pb1 \<and> pb_ok pb1 t \<and> length name < pb_s pb1 else r = None"
      using enlarge_ok [OF assms, of ok] by blast
    show ?thesis
      using r True put by (cases ok) (auto simp: add_name_def Let_def pb_ok_def [of _ t])
  next
    case False
    then show ?thesis using put [OF assms(1)] assms(1) by (auto simp: add_name_def Let_def pb_ok_def [of pb])
  qed
qed

lemma read_string_ok: "NUL_CHAR \<notin> set t \<Longrightarrow> read_string (map Some t @ Some NUL_CHAR # rest) = Inr t"
  by (induction t) auto

lemma finish_path_ok:
  assumes "pb_ok pb t" "NUL_CHAR \<notin> set t"
  shows "finish_path pb = Inr (if t = [] then ''/'' else t)"
proof (cases t)
  case Nil
  have l: "length (pb_buf pb) = pb_s pb + 1" "drop (pb_s pb) (pb_buf pb) = [Some NUL_CHAR]"
    using assms(1) Nil by (simp_all add: pb_ok_def)
  then have "pb_buf pb ! pb_s pb = Some NUL_CHAR" by (metis Cons_nth_drop_Suc less_add_one list.inject)
  then show ?thesis
    using Nil l(1) by (simp add: finish_path_def splice_bytes_def NUL_CHAR_def)
next
  case (Cons c cs)
  have l: "pb_s pb < length (pb_buf pb)" "drop (pb_s pb) (pb_buf pb) = map Some t @ [Some NUL_CHAR]"
    using assms(1) by (simp_all add: pb_ok_def)
  then have "pb_buf pb ! pb_s pb = Some c" using Cons by (metis Cons_nth_drop_Suc append_Cons list.inject list.simps(9))
  moreover have "c \<noteq> NUL_CHAR" using assms(2) Cons by auto
  ultimately show ?thesis
    using Cons l read_string_ok [OF assms(2), of "drop (Suc (length t)) (pb_buf pb)"]
    by (simp add: finish_path_def splice_bytes_def)
qed

section \<open>Locks\<close>

definition lock_of :: "(nat \<Rightarrow> fnode option) \<Rightarrow> nat \<Rightarrow> int" where
  "lock_of h x = (case h x of None \<Rightarrow> 0 | Some d \<Rightarrow> nd_treelock d)"

definition relock :: "(nat \<Rightarrow> int) \<Rightarrow> (nat \<Rightarrow> fnode option) \<Rightarrow> (nat \<Rightarrow> fnode option)" where
  "relock L h = (\<lambda>x. map_option (\<lambda>d. d\<lparr>nd_treelock := L x\<rparr>) (h x))"

lemma relock_simps [simp]:
  "relock L (relock L' h) = relock L h" "dom (relock L h) = dom h" "tree_view (relock L h) = tree_view h"
  "relock (lock_of h) h = h"
  by (auto simp: relock_def tree_view_def lock_of_def fun_eq_iff option.map_comp comp_def map_option_case dom_def split: option.splits)

lemma relock_Some [simp]: "h x = Some d \<Longrightarrow> relock L h x = Some (d\<lparr>nd_treelock := L x\<rparr>)"
  by (simp add: relock_def)

lemma lock_of_Some: "h x = Some d \<Longrightarrow> lock_of h x = nd_treelock d"
  by (simp add: lock_of_def)

lemma lock_of_relock: "(\<And>x. x \<notin> dom h \<Longrightarrow> L x = 0) \<Longrightarrow> lock_of (relock L h) = L"
  by (force simp: lock_of_def relock_def split: option.splits)

lemma lock_of_none: "x \<notin> dom h \<Longrightarrow> lock_of h x = 0"
  by (simp add: lock_of_def domIff)

text \<open>A state with other locks.\<close>

definition with_locks :: "(nat \<Rightarrow> int) \<Rightarrow> fuse_nodes \<Rightarrow> fuse_nodes" where
  "with_locks L f = f\<lparr>fn_heap := relock L (fn_heap f)\<rparr>"

abbreviation locks :: "fuse_nodes \<Rightarrow> nat \<Rightarrow> int" where
  "locks f \<equiv> lock_of (fn_heap f)"

lemma with_locks_simps [simp]:
  "with_locks L (with_locks L' f) = with_locks L f" "with_locks (locks f) f = f" "fn_heap (with_locks L f) = relock L (fn_heap f)"
  "fn_realloc (with_locks L f) = fn_realloc f" "(with_locks L f)\<lparr>fn_realloc := bs\<rparr> = with_locks L (f\<lparr>fn_realloc := bs\<rparr>)"
  by (simp_all add: with_locks_def)

lemma put_lock: "fn_heap f n = Some d \<Longrightarrow> put_node n (d\<lparr>nd_treelock := t\<rparr>) f = with_locks ((locks f)(n := t)) f"
  by (auto simp: put_node_def with_locks_def relock_def lock_of_def fun_eq_iff split: option.splits intro!: arg_cong [where f = "\<lambda>h. fn_heap_update h f"])

lemma nodes_ok_with_locks [simp]: "nodes_ok (with_locks L f) = nodes_ok f" "tree_inv (with_locks L f) D = tree_inv f D"
proof -
  let ?h = "relock L (fn_heap f)"
  note sv = same_view [of ?h "fn_heap f", OF relock_simps(3)]
  have r: "root_ok ?h = root_ok (fn_heap f)"
  proof -
    have "(\<exists>d. ?h r = Some d \<and> nd_nodeid d = FUSE_ROOT_ID \<and> nd_parent d = None \<and> nd_nlookup d \<noteq> 0) =
      (\<exists>d. fn_heap f r = Some d \<and> nd_nodeid d = FUSE_ROOT_ID \<and> nd_parent d = None \<and> nd_nlookup d \<noteq> 0)" for r
      by (cases "fn_heap f r") (simp_all add: relock_def)
    then show ?thesis unfolding root_ok_def by simp
  qed
  show t: "tree_inv (with_locks L f) D = tree_inv f D"
    by (simp add: tree_defs with_locks_def sv r del: relock_simps)
  have "refs_ok ?h {} {} = refs_ok (fn_heap f) {} {}"
  proof -
    have "(\<forall>d. ?h n = Some d \<longrightarrow> nd_refctr d = c + held_by_kernel d) = (\<forall>d. fn_heap f n = Some d \<longrightarrow> nd_refctr d = c + held_by_kernel d)"
      for n c
      by (cases "fn_heap f n") (simp_all add: relock_def held_by_kernel_def)
    then show ?thesis unfolding refs_ok_def sv(7) by simp
  qed
  then show "nodes_ok (with_locks L f) = nodes_ok f"
    by (simp add: nodes_ok_def tree_defs with_locks_def sv r del: relock_simps)
qed

section \<open>Walking up the tree\<close>

type_synonym node_heap = "nat \<Rightarrow> fnode option"

inductive walk :: "node_heap \<Rightarrow> nat \<Rightarrow> nat list \<Rightarrow> nat \<Rightarrow> bool" for h where
  stop: "h n \<noteq> None \<Longrightarrow> walk h n [] n"
| step: "h n = Some d \<Longrightarrow> nd_nodeid d \<noteq> FUSE_ROOT_ID \<Longrightarrow> nd_name d = Some nm \<Longrightarrow> nd_parent d = Some p \<Longrightarrow> walk h p ns m \<Longrightarrow>
    walk h n (n # ns) m"

inductive_cases walk_NilE: "walk h n [] m"
inductive_cases walk_ConsE: "walk h n (x # ns) m"

definition at_root :: "node_heap \<Rightarrow> nat \<Rightarrow> bool" where
  "at_root h m \<longleftrightarrow> map_option nd_nodeid (h m) = Some FUSE_ROOT_ID"

text \<open>The walk cannot go on: the node was removed and is only kept because it is in use.\<close>

definition cut_off :: "node_heap \<Rightarrow> nat \<Rightarrow> bool" where
  "cut_off h m \<longleftrightarrow> (\<exists>d. h m = Some d \<and> nd_nodeid d \<noteq> FUSE_ROOT_ID \<and> (nd_name d = None \<or> nd_parent d = None))"

fun path_text :: "node_heap \<Rightarrow> nat list \<Rightarrow> string" where
  "path_text h [] = []"
| "path_text h (n # ns) = path_text h ns @ CHR ''/'' # the (nd_name (the (h n)))"

lemma walk_view:
  assumes "tree_view h' = tree_view h"
  shows "walk h n ns m \<Longrightarrow> walk h' n ns m"
proof (induction rule: walk.induct)
  case (stop n)
  then show ?case using assms dom_view by (intro walk.stop) (metis domIff)
next
  case (step n d nm p ns m)
  have "tree_view h' n = Some (nd_nodeid d, nd_parent d, nd_name d)" using assms step(1) by (simp add: tree_view_def)
  then obtain d' where "h' n = Some d'" "nd_nodeid d' = nd_nodeid d" "nd_parent d' = nd_parent d" "nd_name d' = nd_name d"
    by (auto simp: tree_view_iffs)
  then show ?case using step by (intro walk.step) auto
qed

lemma at_root_view: "tree_view h' = tree_view h \<Longrightarrow> at_root h' m = at_root h m"
  unfolding at_root_def tree_view_def fun_eq_iff by (drule spec [of _ m]) (auto simp: map_option_case split: option.splits)

lemma cut_off_view: "tree_view h' = tree_view h \<Longrightarrow> cut_off h' m = cut_off h m"
  unfolding cut_off_def tree_view_def fun_eq_iff by (drule spec [of _ m]) (cases "h m"; cases "h' m"; auto)

lemma path_text_view: "tree_view h' = tree_view h \<Longrightarrow> set ns \<subseteq> dom h \<Longrightarrow> path_text h' ns = path_text h ns"
proof (induction ns)
  case (Cons n ns)
  then obtain d where "h n = Some d" by auto
  moreover from this obtain d' where "h' n = Some d'" "nd_name d' = nd_name d"
    using Cons.prems(1) unfolding tree_view_def fun_eq_iff by (drule_tac x = n in spec) auto
  ultimately show ?case using Cons by simp
qed simp

lemma walk_rel:
  assumes "walk h n ns m"
  shows "(n, m) \<in> (parent_rel h)\<^sup>*" "x \<in> set ns \<Longrightarrow> (n, x) \<in> (parent_rel h)\<^sup>* \<and> (x, m) \<in> (parent_rel h)\<^sup>+" "set ns \<subseteq> dom h" "m \<in> dom h" "n \<in> dom h"
  using assms
proof (induction rule: walk.induct)
  case (step n d nm p ns m)
  have np: "(n, p) \<in> parent_rel h" using step by (auto simp: parent_rel_def)
  { case 1 show ?case using np step.IH(1) by (rule converse_rtrancl_into_rtrancl) next
    case 2
    then show ?case
    proof (cases "x = n")
      case True
      then show ?thesis using np step.IH(1) by (simp add: rtrancl_into_trancl2)
    next
      case False
      then have "x \<in> set ns" using 2 by simp
      then show ?thesis using np step.IH(2) by (blast intro: converse_rtrancl_into_rtrancl)
    qed
  next case 3 show ?case using step by auto
  next case 4 show ?case using step by auto
  next case 5 show ?case using step by auto }
qed auto

lemma walk_distinct:
  assumes "acyclic (parent_rel h)"
  shows "walk h n ns m \<Longrightarrow> distinct ns \<and> m \<notin> set ns"
proof (induction rule: walk.induct)
  case (step n d nm p ns m)
  have np: "(n, p) \<in> parent_rel h" using step by (auto simp: parent_rel_def)
  have "n \<notin> set ns"
  proof
    assume "n \<in> set ns"
    then have "(p, n) \<in> (parent_rel h)\<^sup>*" using walk_rel(2) [OF step(5)] by blast
    then have "(n, n) \<in> (parent_rel h)\<^sup>+" using np by (rule_tac rtrancl_into_trancl2)
    then show False using assms by (simp add: acyclic_def)
  qed
  moreover have "m \<noteq> n"
  proof
    assume "m = n"
    then have "(n, n) \<in> (parent_rel h)\<^sup>+" using rtrancl_into_trancl2 [OF np walk_rel(1) [OF step(5)]] by simp
    then show False using assms by (simp add: acyclic_def)
  qed
  ultimately show ?case using step by simp
qed simp

text \<open>A walk that cannot go on, at the root or because it is cut off, is the only one from its start.\<close>

lemma walk_end_unique:
  "walk h n ns m \<Longrightarrow> at_root h m \<or> cut_off h m \<Longrightarrow> walk h n ns' m' \<Longrightarrow> at_root h m' \<or> cut_off h m' \<Longrightarrow> ns' = ns \<and> m' = m"
proof (induction arbitrary: ns' rule: walk.induct)
  case (stop n)
  from stop(3,1,2,4) show ?case by (cases rule: walk.cases) (auto simp: at_root_def cut_off_def)
next
  case (step n d nm p ns m)
  from step(8) step(1-7,9) show ?case by (cases rule: walk.cases) (auto simp: at_root_def cut_off_def)
qed

lemmas walk_root_unique = walk_end_unique [OF _ disjI1 _ disjI1]

end
