(* ===== verification/Path_Locks.thy ===== *)
theory Path_Locks
  imports Path_Walk
begin

text \<open>
  Locking and unlocking a path. The locks of the nodes count the paths that lead through them; a
  path that cannot be locked as a whole leaves no lock behind.
\<close>

section \<open>The loops\<close>

definition on_path :: "nat list \<Rightarrow> (int \<Rightarrow> int) \<Rightarrow> (nat \<Rightarrow> int) \<Rightarrow> nat \<Rightarrow> int" where
  "on_path ns g L = (\<lambda>x. if x \<in> set ns then g (L x) else L x)"

definition drop_lock :: "int \<Rightarrow> int" where
  "drop_lock t = (if t - 1 = TREELOCK_WAIT_OFFSET then 0 else t - 1)"

lemma on_path_simps [simp]: "on_path [] g L = L" "n \<notin> set ns \<Longrightarrow> on_path ns g (L(n := g (L n))) = on_path (n # ns) g L"
  by (auto simp: on_path_def fun_eq_iff)

lemma locks_put: "fn_heap f n \<noteq> None \<Longrightarrow> locks (with_locks ((locks f)(n := t)) f) = (locks f)(n := t)"
  by (simp add: with_locks_def) (rule lock_of_relock, auto simp: lock_of_none domIff)

lemma view_with_locks [simp]: "tree_view (fn_heap (with_locks L f)) = tree_view (fn_heap f)"
  by simp

lemma unlock_loop_ok:
  assumes "walk (fn_heap f) n ns m" "acyclic (parent_rel (fn_heap f))"
    "case stop of None \<Rightarrow> at_root (fn_heap f) m | Some s \<Rightarrow> s = m"
    "\<forall>x \<in> set ns. locks f x \<notin> {0, TREELOCK_WAIT_OFFSET, TREELOCK_WRITE}"
  shows "unlock_loop f (Some n) stop = Some (Inr (with_locks (on_path ns drop_lock (locks f)) f))"
  using assms
proof (induction ns arbitrary: n f)
  case Nil
  then have m: "m = n" "fn_heap f n \<noteq> None" by (auto elim: walk_NilE)
  then show ?case
    using Nil.prems(3) by (subst unlock_loop.simps) (auto simp: node_def at_root_def split: option.splits)
next
  case (Cons x ns)
  obtain d p where d: "x = n" "fn_heap f n = Some d" "nd_nodeid d \<noteq> FUSE_ROOT_ID" "nd_parent d = Some p" "walk (fn_heap f) p ns m"
    using Cons.prems(1) by (auto elim: walk_ConsE)
  have nin: "n \<notin> set ns" "m \<noteq> n" using walk_distinct [OF Cons.prems(2,1)] d(1) by auto
  have ns: "stop \<noteq> Some n" using Cons.prems(3) nin(2) by auto
  define f1 where "f1 = with_locks ((locks f)(n := drop_lock (locks f n))) f"
  have v: "tree_view (fn_heap f1) = tree_view (fn_heap f)" by (simp add: f1_def)
  have l: "locks f1 = (locks f)(n := drop_lock (locks f n))" unfolding f1_def using d(2) by (intro locks_put) simp
  have "unlock_loop f (Some n) stop = unlock_loop f1 (Some p) stop"
    using Cons.prems(4) d ns unfolding f1_def
    by (subst unlock_loop.simps) (auto simp: node_def Let_def drop_lock_def lock_of_Some put_lock [symmetric])
  also have "\<dots> = Some (Inr (with_locks (on_path ns drop_lock (locks f1)) f1))"
  proof (rule Cons.IH)
    show "walk (fn_heap f1) p ns m" using v d(5) by (rule walk_view)
    show "acyclic (parent_rel (fn_heap f1))" using Cons.prems(2) same_view(2) [OF v] by simp
    show "case stop of None \<Rightarrow> at_root (fn_heap f1) m | Some s \<Rightarrow> s = m"
      using Cons.prems(3) at_root_view [OF v] by (cases stop) auto
    show "\<forall>x \<in> set ns. locks f1 x \<notin> {0, TREELOCK_WAIT_OFFSET, TREELOCK_WRITE}"
      using Cons.prems(4) nin(1) by (auto simp: l)
  qed
  also have "with_locks (on_path ns drop_lock (locks f1)) f1 = with_locks (on_path (n # ns) drop_lock (locks f)) f"
    unfolding l using nin(1) by (simp add: f1_def)
  finally show ?case by (simp add: d(1))
qed

text \<open>
  A path from a node fits the largest buffer, with \<open>k\<close> more characters. Names are C strings.
\<close>

definition fits :: "node_heap \<Rightarrow> nat \<Rightarrow> nat \<Rightarrow> bool" where
  "fits h n k \<longleftrightarrow> (\<forall>ns m. walk h n ns m \<longrightarrow> length (path_text h ns) + k < 0xffffffff)"

definition c_names :: "node_heap \<Rightarrow> bool" where
  "c_names h \<longleftrightarrow> (\<forall>n d nm. h n = Some d \<longrightarrow> nd_name d = Some nm \<longrightarrow> NUL_CHAR \<notin> set nm)"

text \<open>How the loop of \<^verbatim>\<open>try_get_path\<close> may end.\<close>

definition path_end :: "fuse_nodes \<Rightarrow> bool \<Rightarrow> int \<Rightarrow> nat \<Rightarrow> bool" where
  "path_end f lk err m \<longleftrightarrow>
     (if err = 0 then at_root (fn_heap f) m
      else if err = - ENOENT then cut_off (fn_heap f) m
      else if err = - EAGAIN then lk \<and> locks f m < 0 \<and> \<not> at_root (fn_heap f) m \<and> m \<in> dom (fn_heap f)
      else err = - ENOMEM \<and> \<not> at_root (fn_heap f) m \<and> m \<in> dom (fn_heap f) \<and> False \<in> set (fn_realloc f))"

lemma next_ok_eq:
  obtains bs where "next_ok f = (fst (next_ok f), f\<lparr>fn_realloc := bs\<rparr>)" "fst (next_ok f) \<or> False \<in> set (fn_realloc f)"
    "set bs \<subseteq> set (fn_realloc f)"
proof (cases "fn_realloc f")
  case Nil
  then have "f = f\<lparr>fn_realloc := []\<rparr>" by simp
  then show ?thesis using Nil that [of "[]"] by (simp add: next_ok_def)
next
  case (Cons b bs)
  then show ?thesis using that [of bs] by (auto simp: next_ok_def)
qed

lemma walk_cons_fits:
  assumes "fits h n k" "h n = Some d" "nd_nodeid d \<noteq> FUSE_ROOT_ID" "nd_name d = Some nm" "nd_parent d = Some p"
  shows "fits h p (k + Suc (length nm))"
  unfolding fits_def
proof (intro allI impI)
  fix ns m
  assume "walk h p ns m"
  then have "walk h n (n # ns) m" using assms by (intro walk.step) auto
  then show "length (path_text h ns) + (k + Suc (length nm)) < 0xffffffff"
    using assms(1,2,4) unfolding fits_def by fastforce
qed

lemma fits_view: "tree_view h' = tree_view h \<Longrightarrow> fits h n k \<Longrightarrow> fits h' n k"
  unfolding fits_def using walk_view [of h h'] path_text_view walk_rel(3) by metis

text \<open>What the loop leaves: it walked up to some node, locked the nodes on the way and wrote their names.\<close>

definition path_post :: "fuse_nodes \<Rightarrow> bool \<Rightarrow> nat \<Rightarrow> string \<Rightarrow> int \<times> path_buf \<times> nat \<times> fuse_nodes \<Rightarrow> bool" where
  "path_post f lk n t = (\<lambda>(err, pb, m, f'). \<exists>ns bs. walk (fn_heap f) n ns m \<and>
     f' = with_locks (if lk then on_path ns (\<lambda>t. t + 1) (locks f) else locks f) (f\<lparr>fn_realloc := bs\<rparr>) \<and>
     set bs \<subseteq> set (fn_realloc f) \<and> (lk \<longrightarrow> (\<forall>x \<in> set ns. 0 \<le> locks f x)) \<and> path_end f lk err m \<and>
     (err = 0 \<longrightarrow> pb_ok pb (path_text (fn_heap f) ns @ t)))"

lemma path_post_stop:
  assumes "fn_heap f n \<noteq> None" "set bs \<subseteq> set (fn_realloc f)" "path_end f lk err n" "err = 0 \<Longrightarrow> pb_ok pb t"
  shows "path_post f lk n t (err, pb, n, f\<lparr>fn_realloc := bs\<rparr>)"
proof -
  have "with_locks (if lk then on_path [] (\<lambda>t. t + 1) (locks f) else locks f) (f\<lparr>fn_realloc := bs\<rparr>) = f\<lparr>fn_realloc := bs\<rparr>"
    using with_locks_simps(2) [of "f\<lparr>fn_realloc := bs\<rparr>"] by simp
  then show ?thesis
    using assms walk.stop [of "fn_heap f" n] unfolding path_post_def prod.case
    by (intro exI [of _ "[]"] exI [of _ bs]) simp
qed

lemma path_post_up:
  assumes d: "fn_heap f n = Some d" "nd_nodeid d \<noteq> FUSE_ROOT_ID" "nd_name d = Some nm" "nd_parent d = Some p"
    and ac: "acyclic (parent_rel (fn_heap f))" and bs: "set bs \<subseteq> set (fn_realloc f)" and l: "lk \<Longrightarrow> 0 \<le> locks f n"
    and f1: "f1 = with_locks (if lk then (locks f)(n := locks f n + 1) else locks f) (f\<lparr>fn_realloc := bs\<rparr>)"
    and post: "path_post f1 lk p (CHR ''/'' # nm @ t) (err, pb, m, f')"
  shows "path_post f lk n t (err, pb, m, f')"
proof -
  obtain ns bs' where p: "walk (fn_heap f1) p ns m"
    "f' = with_locks (if lk then on_path ns (\<lambda>t. t + 1) (locks f1) else locks f1) (f1\<lparr>fn_realloc := bs'\<rparr>)"
    "set bs' \<subseteq> set (fn_realloc f1)" "lk \<longrightarrow> (\<forall>x \<in> set ns. 0 \<le> locks f1 x)" "path_end f1 lk err m"
    "err = 0 \<longrightarrow> pb_ok pb (path_text (fn_heap f1) ns @ CHR ''/'' # nm @ t)"
    using post by (auto simp: path_post_def)
  have v: "tree_view (fn_heap f1) = tree_view (fn_heap f)" by (simp add: f1)
  have "walk (fn_heap f) p ns m" using v [symmetric] p(1) by (rule walk_view)
  then have w: "walk (fn_heap f) n (n # ns) m" by (rule walk.step [where h = "fn_heap f", OF d])
  have nin: "n \<notin> set ns" "m \<noteq> n" using walk_distinct [OF ac w] by auto
  have l1: "locks f1 = (if lk then (locks f)(n := locks f n + 1) else locks f)"
    using locks_put [of "f\<lparr>fn_realloc := bs\<rparr>" n "locks f n + 1"] d(1) with_locks_simps(2) [of "f\<lparr>fn_realloc := bs\<rparr>"] by (simp add: f1)
  have "path_text (fn_heap f1) ns @ CHR ''/'' # nm @ t = path_text (fn_heap f) (n # ns) @ t"
    using path_text_view [OF v, of ns] walk_rel(3) [OF w] d(1,3) by simp
  then have "err = 0 \<longrightarrow> pb_ok pb (path_text (fn_heap f) (n # ns) @ t)" using p(6) by (simp only:)
  moreover have "f' = with_locks (if lk then on_path (n # ns) (\<lambda>t. t + 1) (locks f) else locks f) (f\<lparr>fn_realloc := bs'\<rparr>)"
    using on_path_simps(2) [OF nin(1), of "\<lambda>t. t + 1" "locks f"] unfolding p(2) l1 by (simp add: f1)
  moreover have "path_end f lk err m"
    using p(5) nin(2) bs unfolding path_end_def at_root_view [OF v] cut_off_view [OF v] l1 same_view(1) [OF v] by (auto simp: f1)
  moreover have "set bs' \<subseteq> set (fn_realloc f)" using p(3) bs by (simp add: f1)
  moreover have "\<forall>x \<in> set (n # ns). 0 \<le> locks f x" if lk using p(4) that l nin(1) unfolding l1 by auto (metis)
  ultimately show ?thesis
    using w unfolding path_post_def prod.case by (intro exI [of _ "n # ns"] exI [of _ bs']) simp
qed

lemma path_loop_ok:
  assumes wf: "wf ((parent_rel h)\<inverse>)" and links: "links_ok h {}" and ac: "acyclic (parent_rel h)"
  shows "tree_view (fn_heap f) = tree_view h \<Longrightarrow> fn_heap f n \<noteq> None \<Longrightarrow> pb_ok pb t \<Longrightarrow> fits h n (Suc (length t)) \<Longrightarrow>
    (\<And>x. lk \<Longrightarrow> (n, x) \<in> (parent_rel h)\<^sup>* \<Longrightarrow> locks f x < INT_MAX) \<Longrightarrow> \<exists>r. path_loop f lk n pb = Some (Inr r) \<and> path_post f lk n t r"
proof (induction n arbitrary: f pb t rule: wf_induct_rule [OF wf])
  case (1 n)
  note view = "1.prems"(1) and pb = "1.prems"(3) and fit = "1.prems"(4) and maxl = "1.prems"(5)
  obtain d where d: "fn_heap f n = Some d" using "1.prems"(2) by auto
  have wl: "with_locks (locks f) (f\<lparr>fn_realloc := bs\<rparr>) = f\<lparr>fn_realloc := bs\<rparr>" for bs
    using with_locks_simps(2) [of "f\<lparr>fn_realloc := bs\<rparr>"] by simp
  obtain bs where nx: "next_ok f = (fst (next_ok f), f\<lparr>fn_realloc := bs\<rparr>)" "fst (next_ok f) \<or> False \<in> set (fn_realloc f)"
    "set bs \<subseteq> set (fn_realloc f)"
    by (rule next_ok_eq)
  have snd: "snd (next_ok f) = f\<lparr>fn_realloc := bs\<rparr>" using nx(1) by (metis snd_conv)
  consider (root) "nd_nodeid d = FUSE_ROOT_ID"
    | (cut) "nd_nodeid d \<noteq> FUSE_ROOT_ID" "nd_name d = None \<or> nd_parent d = None"
    | (up) nm p where "nd_nodeid d \<noteq> FUSE_ROOT_ID" "nd_name d = Some nm" "nd_parent d = Some p"
    by fastforce
  then show ?case
  proof cases
    case root
    then have "path_loop f lk n pb = Some (Inr (0, pb, n, f))" using d by (subst path_loop.simps) (simp add: node_def)
    moreover have "path_end f lk 0 n" using d root by (simp add: path_end_def at_root_def)
    ultimately show ?thesis using path_post_stop [of f n "fn_realloc f" lk 0 pb t] pb d by auto
  next
    case cut
    then have "path_loop f lk n pb = Some (Inr (- ENOENT, pb, n, f))"
      using d by (subst path_loop.simps) (auto simp: node_def split: option.splits)
    moreover have "path_end f lk (- ENOENT) n" using d cut by (simp add: path_end_def cut_off_def ENOENT_def)
    ultimately show ?thesis using path_post_stop [of f n "fn_realloc f" lk "- ENOENT" pb t] d by (auto simp: errno_defs)
  next
    case (up nm p)
    have nr: "\<not> at_root (fn_heap f) n" using up d by (simp add: at_root_def)
    have lf: "links_ok (fn_heap f) {}" using links same_view(8) [OF view] by simp
    then have "link_ok (fn_heap f) d" using d unfolding links_ok_def by blast
    then have p: "fn_heap f p \<noteq> None" using up(3) by (auto simp: link_ok_def)
    have fit': "fits (fn_heap f) n (Suc (length t))" using view fit by (rule fits_view)
    have fitp: "fits (fn_heap f) p (Suc (length t) + Suc (length nm))" by (rule walk_cons_fits [OF fit' d up])
    then have "length t + length nm + 2 \<le> 0xffffffff"
      using walk.stop [of "fn_heap f" p] p unfolding fits_def by fastforce
    then obtain r where r: "add_name (fst (next_ok f)) pb nm = Inr r"
      "case r of None \<Rightarrow> \<not> fst (next_ok f) | Some pb1 \<Rightarrow> pb_ok pb1 (CHR ''/'' # nm @ t)"
      using add_name_ok [OF pb] by blast
    show ?thesis
    proof (cases r)
      case None
      then have "path_loop f lk n pb = Some (Inr (- ENOMEM, pb, n, f\<lparr>fn_realloc := bs\<rparr>))"
        using d up r(1) snd by (subst path_loop.simps) (simp add: node_def)
      moreover have "path_end f lk (- ENOMEM) n"
        using d nr None r(2) nx(2) by (auto simp: path_end_def errno_defs)
      ultimately show ?thesis using path_post_stop [of f n bs lk "- ENOMEM" pb t] nx(3) d by (auto simp: errno_defs)
    next
      case (Some pb1)
      have pb1: "pb_ok pb1 (CHR ''/'' # nm @ t)" using r(2) Some by simp
      show ?thesis
      proof (cases "lk \<and> nd_treelock d < 0")
        case True
        then have "path_loop f lk n pb = Some (Inr (- EAGAIN, pb1, n, f\<lparr>fn_realloc := bs\<rparr>))"
          using d up r(1) Some snd by (subst path_loop.simps) (simp add: node_def)
        moreover have "path_end f lk (- EAGAIN) n"
          using d nr True by (auto simp: path_end_def errno_defs lock_of_Some)
        ultimately show ?thesis using path_post_stop [of f n bs lk "- EAGAIN" pb1 t] nx(3) d by (auto simp: errno_defs)
      next
        case False
        define f1 where "f1 = with_locks (if lk then on_path [n] (\<lambda>t. t + 1) (locks f) else locks f) (f\<lparr>fn_realloc := bs\<rparr>)"
        have one: "on_path [n] (\<lambda>t. t + 1) (locks f) = (locks f)(n := locks f n + 1)" by (simp add: on_path_def fun_eq_iff)
        have "locks f n < INT_MAX" if lk using maxl [OF that, of n] by simp
        then have rec: "path_loop f lk n pb = path_loop f1 lk p pb1"
          using d up r(1) Some snd False wl [of bs] put_lock [of "f\<lparr>fn_realloc := bs\<rparr>" n d]
          by (subst path_loop.simps) (auto simp: node_def f1_def one lock_of_Some chk_int_def int_defs)
        have v1: "tree_view (fn_heap f1) = tree_view h" using view by (simp add: f1_def)
        have l1: "locks f1 = (if lk then (locks f)(n := locks f n + 1) else locks f)"
          using locks_put [of "f\<lparr>fn_realloc := bs\<rparr>" n] d by (simp add: f1_def one)
        have np: "(n, p) \<in> parent_rel h" using parent_relI [where h = "fn_heap f", OF d up(3)] same_view(2) [OF view] by simp
        obtain err pb' m f' where r: "path_loop f1 lk p pb1 = Some (Inr (err, pb', m, f'))"
          "path_post f1 lk p (CHR ''/'' # nm @ t) (err, pb', m, f')"
        proof -
          have "\<exists>r. path_loop f1 lk p pb1 = Some (Inr r) \<and> path_post f1 lk p (CHR ''/'' # nm @ t) r"
          proof (rule "1.IH" [OF _ v1 _ pb1])
            show "(p, n) \<in> (parent_rel h)\<inverse>" using np by simp
            show "fn_heap f1 p \<noteq> None" using p by (simp add: f1_def relock_def)
            show "fits h p (Suc (length (CHR ''/'' # nm @ t)))"
              using fits_view [OF view [symmetric] fitp] by (simp add: add.commute)
            show "locks f1 x < INT_MAX" if x: lk "(p, x) \<in> (parent_rel h)\<^sup>*" for x
            proof -
              have nx: "(n, x) \<in> (parent_rel h)\<^sup>+" using np x(2) by (rule rtrancl_into_trancl2)
              then have "x \<noteq> n" using ac by (auto simp: acyclic_def)
              then show ?thesis using maxl [OF x(1) trancl_into_rtrancl [OF nx]] l1 x(1) by simp
            qed
          qed
          then show thesis using that by auto
        qed
        have "path_post f lk n t (err, pb', m, f')"
          using False d nx(3) same_view(2) [OF view] ac
          by (intro path_post_up [OF d up _ _ _ _ r(2)]) (auto simp: f1_def one lock_of_Some)
        then show ?thesis using rec r(1) by auto
      qed
    qed
  qed
qed

section \<open>Counting the paths through a node\<close>

text \<open>
  A holder has the nodes of its path locked for reading and one node, perhaps, for writing. The lock of
  a node tells how many holders read it; a waiting writer adds the offset, which keeps new readers away.
\<close>

type_synonym holder = "nat list \<times> nat option"

definition reads :: "holder list \<Rightarrow> nat \<Rightarrow> nat" where
  "reads hs x = length (filter (\<lambda>(ns, w). x \<in> set ns) hs)"

definition writes :: "holder list \<Rightarrow> nat \<Rightarrow> nat" where
  "writes hs x = length (filter (\<lambda>(ns, w). w = Some x) hs)"

definition lock_state :: "nat \<Rightarrow> nat \<Rightarrow> int \<Rightarrow> bool" where
  "lock_state r w t \<longleftrightarrow> w = 1 \<and> r = 0 \<and> t = TREELOCK_WRITE \<or>
     w = 0 \<and> (t = int r \<or> 0 < r \<and> t = int r + TREELOCK_WAIT_OFFSET)"

definition counted :: "(nat \<Rightarrow> int) \<Rightarrow> holder list \<Rightarrow> bool" where
  "counted L hs \<longleftrightarrow> (\<forall>x. lock_state (reads hs x) (writes hs x) (L x))"

lemmas treelock_defs = TREELOCK_WRITE_def TREELOCK_WAIT_OFFSET_def int_defs

lemma reads_Cons [simp]: "reads ((ns, w) # hs) x = reads hs x + (if x \<in> set ns then 1 else 0)" "reads [] x = 0"
  by (simp_all add: reads_def)

lemma writes_Cons [simp]: "writes ((ns, w) # hs) x = writes hs x + (if w = Some x then 1 else 0)" "writes [] x = 0"
  by (simp_all add: writes_def)

lemma reads_max: "reads hs x \<le> length hs"
  by (simp add: reads_def)

lemma counted_none [simp]: "counted L (([], None) # hs) = counted L hs"
  by (simp add: counted_def)

lemma counted_below: "counted L hs \<Longrightarrow> int (length hs) < INT_MAX \<Longrightarrow> L x < INT_MAX"
  using reads_max [of hs x] unfolding counted_def lock_state_def by (drule_tac x = x in spec) (auto simp: treelock_defs)

lemma counted_read:
  assumes "counted L (([], w) # hs)" "\<forall>x \<in> set ns. 0 \<le> L x" "int (length hs) < INT_MAX"
  shows "counted (on_path ns (\<lambda>t. t + 1) L) ((ns, w) # hs)"
  unfolding counted_def
proof
  fix x
  have s: "lock_state (reads hs x) (writes (([], w) # hs) x) (L x)" using assms(1) by (auto simp: counted_def)
  show "lock_state (reads ((ns, w) # hs) x) (writes ((ns, w) # hs) x) (on_path ns (\<lambda>t. t + 1) L x)"
  proof (cases "x \<in> set ns")
    case True
    then have "0 \<le> L x" using assms(2) by blast
    then show ?thesis
      using s True reads_max [of hs x] assms(3) by (auto simp: on_path_def lock_state_def treelock_defs split: if_splits)
  qed (use s in \<open>simp add: on_path_def\<close>)
qed

lemma counted_unread:
  assumes "counted L ((ns, w) # hs)" "int (length hs) + 1 < INT_MAX"
  shows "\<forall>x \<in> set ns. L x \<notin> {0, TREELOCK_WAIT_OFFSET, TREELOCK_WRITE}" "counted (on_path ns drop_lock L) (([], w) # hs)"
proof -
  have s: "lock_state (reads hs x + (if x \<in> set ns then 1 else 0)) (writes (([], w) # hs) x) (L x)" for x
    using assms(1) by (auto simp: counted_def)
  show "\<forall>x \<in> set ns. L x \<notin> {0, TREELOCK_WAIT_OFFSET, TREELOCK_WRITE}"
  proof
    fix x
    assume "x \<in> set ns"
    then show "L x \<notin> {0, TREELOCK_WAIT_OFFSET, TREELOCK_WRITE}"
      using s [of x] reads_max [of hs x] assms(2) by (auto simp: lock_state_def treelock_defs)
  qed
  show "counted (on_path ns drop_lock L) (([], w) # hs)"
    unfolding counted_def
  proof
    fix x
    show "lock_state (reads (([], w) # hs) x) (writes (([], w) # hs) x) (on_path ns drop_lock L x)"
      using s [of x] reads_max [of hs x] assms(2)
      by (auto simp: on_path_def lock_state_def drop_lock_def treelock_defs split: if_splits)
  qed
qed

lemma counted_write:
  assumes "counted L hs" "L n = 0" "int (length hs) < INT_MAX"
  shows "counted (L(n := TREELOCK_WRITE)) (([], Some n) # hs)"
  unfolding counted_def
proof
  fix x
  have "lock_state (reads hs x) (writes hs x) (L x)" using assms(1) unfolding counted_def by blast
  then show "lock_state (reads (([], Some n) # hs) x) (writes (([], Some n) # hs) x) ((L(n := TREELOCK_WRITE)) x)"
    using assms(2,3) reads_max [of hs x] by (cases "x = n") (auto simp: lock_state_def treelock_defs)
qed

lemma counted_unwrite:
  assumes "counted L ((ns, Some n) # hs)"
  shows "L n = TREELOCK_WRITE" "counted (L(n := 0)) ((ns, None) # hs)"
proof -
  have s: "lock_state (reads ((ns, Some n) # hs) x) (writes ((ns, Some n) # hs) x) (L x)" for x
    using assms unfolding counted_def by blast
  show "L n = TREELOCK_WRITE" using s [of n] by (simp add: lock_state_def)
  show "counted (L(n := 0)) ((ns, None) # hs)"
    unfolding counted_def
  proof
    fix x
    show "lock_state (reads ((ns, None) # hs) x) (writes ((ns, None) # hs) x) ((L(n := 0)) x)"
      using s [of x] by (cases "x = n") (auto simp: lock_state_def)
  qed
qed

lemma counted_wait:
  assumes "counted L hs" "0 < L n" "int (length hs) < INT_MAX"
  shows "counted (L(n := L n + TREELOCK_WAIT_OFFSET)) hs"
  unfolding counted_def
proof
  fix x
  have "lock_state (reads hs x) (writes hs x) (L x)" using assms(1) unfolding counted_def by blast
  then show "lock_state (reads hs x) (writes hs x) ((L(n := L n + TREELOCK_WAIT_OFFSET)) x)"
    using assms(2,3) reads_max [of hs x] by (cases "x = n") (auto simp: lock_state_def treelock_defs)
qed

text \<open>Two holders never have a node locked together if one of them writes it.\<close>

lemma counted_exclusive:
  assumes "counted L hs" "i < length hs" "snd (hs ! i) = Some x"
  shows "j < length hs \<Longrightarrow> snd (hs ! j) = Some x \<Longrightarrow> j = i" "j < length hs \<Longrightarrow> x \<notin> set (fst (hs ! j))"
proof -
  have s: "lock_state (reads hs x) (writes hs x) (L x)" using assms(1) by (simp add: counted_def)
  have "hs ! i \<in> set (filter (\<lambda>(ns, w). w = Some x) hs)" using assms(2,3) by (auto simp: split_beta)
  then have "0 < writes hs x" unfolding writes_def by (rule length_pos_if_in_set)
  then have w: "writes hs x = 1" "reads hs x = 0" using s by (auto simp: lock_state_def)
  show "j = i" if j: "j < length hs" "snd (hs ! j) = Some x"
  proof (rule ccontr)
    assume "j \<noteq> i"
    moreover have "{i, j} \<subseteq> {k. k < length hs \<and> (case hs ! k of (ns, w) \<Rightarrow> w = Some x)}" using assms(2,3) j by (auto simp: split_beta)
    then have "card {i, j} \<le> card {k. k < length hs \<and> (case hs ! k of (ns, w) \<Rightarrow> w = Some x)}" by (intro card_mono) auto
    ultimately show False using w(1) by (simp add: writes_def length_filter_conv_card)
  qed
  show "x \<notin> set (fst (hs ! j))" if j: "j < length hs"
  proof
    assume "x \<in> set (fst (hs ! j))"
    then have "hs ! j \<in> set (filter (\<lambda>(ns, w). x \<in> set ns) hs)" using j by (auto simp: split_beta)
    then have "0 < reads hs x" unfolding reads_def by (rule length_pos_if_in_set)
    then show False using w(2) by simp
  qed
qed

end
