(* ===== verification/Path_Calls.thy ===== *)
theory Path_Calls
  imports Path_Locks
begin

text \<open>
  The calls that lock a path, as steps between states whose locks count their holders: a call that
  succeeds adds a holder, a call that fails leaves the holders as they were, and unlocking takes a
  holder away. No assertion about locks fails.
\<close>

section \<open>Unlocking\<close>

lemma locks_with_locks: "(\<And>x. x \<notin> dom (fn_heap f) \<Longrightarrow> L x = 0) \<Longrightarrow> locks (with_locks L f) = L"
  by (simp add: lock_of_relock)

lemma locks_none: "x \<notin> dom (fn_heap f) \<Longrightarrow> locks f x = 0"
  by (rule lock_of_none)

lemma parent_wf:
  assumes "tree_inv f {}"
  shows "wf ((parent_rel (fn_heap f))\<inverse>)"
proof -
  have t: "links_ok (fn_heap f) {}" "acyclic (parent_rel (fn_heap f))" using assms by (simp_all add: tree_inv_def)
  have "parent_rel (fn_heap f) \<subseteq> dom (fn_heap f) \<times> dom (fn_heap f)"
  proof
    fix e
    assume "e \<in> parent_rel (fn_heap f)"
    then obtain c p d where e: "e = (c, p)" "fn_heap f c = Some d" "nd_parent d = Some p" by (auto simp: parent_rel_def)
    then have "link_ok (fn_heap f) d" using t(1) unfolding links_ok_def by blast
    then show "e \<in> dom (fn_heap f) \<times> dom (fn_heap f)" using e by (auto simp: link_ok_def)
  qed
  then have "finite (parent_rel (fn_heap f))" using tree_finite [OF assms] by (simp add: finite_subset)
  then show ?thesis using t(2) by (rule finite_acyclic_wf_converse)
qed

lemma get_node_locks:
  assumes "tree_inv f {}" "fn_heap f n = Some d"
  shows "get_node (with_locks L f) (nd_nodeid d) = Inr n"
proof -
  have "fn_heap (with_locks L f) n = Some (d\<lparr>nd_treelock := L n\<rparr>)" using assms(2) by simp
  then show ?thesis using get_node_ok(2) [of "with_locks L f" "{}" n "d\<lparr>nd_treelock := L n\<rparr>"] assms(1) by simp
qed

lemma unlock_path_ok:
  assumes inv: "tree_inv f {}" and n: "fn_heap f n = Some d" "walk (fn_heap f) n ns m"
    and stop: "case stop of None \<Rightarrow> at_root (fn_heap f) m | Some s \<Rightarrow> s = m"
    and cnt: "counted (locks f) ((ns, w) # hs)" "int (length hs) + 1 < INT_MAX" and w: "\<And>x. w = Some x \<Longrightarrow> x \<in> dom (fn_heap f)"
  shows "\<exists>L. unlock_path f (nd_nodeid d) w stop = Inr (with_locks L f) \<and> counted L hs \<and> (\<forall>x. x \<notin> dom (fn_heap f) \<longrightarrow> L x = 0)"
proof -
  define L1 where "L1 = (case w of None \<Rightarrow> locks f | Some x \<Rightarrow> (locks f)(x := 0))"
  have z: "L1 x = 0" if "x \<notin> dom (fn_heap f)" for x using that by (auto simp: L1_def locks_none split: option.splits)
  have l1: "locks (with_locks L1 f) = L1" using z by (rule locks_with_locks)
  have c1: "counted L1 ((ns, None) # hs)"
    using cnt(1) counted_unwrite(2) [of "locks f" ns _ hs] by (cases w) (auto simp: L1_def)
  have first: "(case w of None \<Rightarrow> Inr f
     | Some w \<Rightarrow> bind_res (node f w) (\<lambda>d. bind_res (guard_res (nd_treelock d = TREELOCK_WRITE) AssertFailed)
         (\<lambda>_. Inr (put_node w (d\<lparr>nd_treelock := 0\<rparr>) f)))) = Inr (with_locks L1 f)"
  proof (cases w)
    case None
    then show ?thesis by (simp add: L1_def)
  next
    case (Some x)
    then obtain e where e: "fn_heap f x = Some e" using w by auto
    have "locks f x = TREELOCK_WRITE" using cnt(1) counted_unwrite(1) unfolding Some by blast
    then show ?thesis using Some e put_lock [OF e, of 0] by (simp add: node_def L1_def lock_of_Some)
  qed
  let ?f = "with_locks L1 f"
  have v: "tree_view (fn_heap ?f) = tree_view (fn_heap f)" by simp
  note u = counted_unread [OF c1 cnt(2)]
  have "unlock_loop ?f (Some n) stop = Some (Inr (with_locks (on_path ns drop_lock (locks ?f)) ?f))"
  proof (rule unlock_loop_ok)
    show "walk (fn_heap ?f) n ns m" using v n(2) by (rule walk_view)
    show "acyclic (parent_rel (fn_heap ?f))" using inv same_view(2) [OF v] by (simp add: tree_inv_def)
    show "case stop of None \<Rightarrow> at_root (fn_heap ?f) m | Some s \<Rightarrow> s = m" using stop at_root_view [OF v] by (cases stop) auto
    show "\<forall>x \<in> set ns. locks ?f x \<notin> {0, TREELOCK_WAIT_OFFSET, TREELOCK_WRITE}" using u(1) unfolding l1 .
  qed
  then have "unlock_path f (nd_nodeid d) w stop = Inr (with_locks (on_path ns drop_lock L1) f)"
    using first get_node_locks [OF inv n(1)] unfolding l1 by (simp add: unlock_path_def)
  moreover have "counted (on_path ns drop_lock L1) hs" using u(2) by simp
  moreover have "on_path ns drop_lock L1 x = 0" if "x \<notin> dom (fn_heap f)" for x
    using that z walk_rel(3) [OF n(2)] by (auto simp: on_path_def)
  ultimately show ?thesis by blast
qed

section \<open>Locking\<close>

text \<open>The path that a walk to the root spells, followed by \<open>t\<close>.\<close>

definition full_path :: "node_heap \<Rightarrow> nat list \<Rightarrow> string \<Rightarrow> string" where
  "full_path h ns t = (let s = path_text h ns @ t in if s = [] then ''/'' else s)"

text \<open>
  What a call that locks a path leaves, for a node \<open>n\<close> and the holders \<open>hs\<close>: on success one holder
  more, whose path leads from the node to the root. It fails when the node is cut off from the root,
  when there is no memory, or when a node is locked, other than the one \<open>w0\<close> it locked itself.
\<close>

definition refusal :: "fuse_nodes \<Rightarrow> nat \<Rightarrow> nat option \<Rightarrow> int \<Rightarrow> bool" where
  "refusal f n w0 err \<longleftrightarrow>
     err = - ENOENT \<and> (\<exists>ns m. walk (fn_heap f) n ns m \<and> cut_off (fn_heap f) m) \<or>
     err = - ENOMEM \<and> False \<in> set (fn_realloc f) \<or>
     err = - EAGAIN \<and> (\<exists>x. locks f x \<noteq> 0 \<and> w0 \<noteq> Some x)"

definition path_outcome ::
    "fuse_nodes \<Rightarrow> nat \<Rightarrow> string \<Rightarrow> holder list \<Rightarrow> nat option \<Rightarrow> path_result \<Rightarrow> bool" where
  "path_outcome f n t hs w0 = (\<lambda>(err, path, w, f').
     (\<exists>L bs. f' = with_locks L (f\<lparr>fn_realloc := bs\<rparr>) \<and> (\<forall>x. x \<notin> dom (fn_heap f) \<longrightarrow> L x = 0) \<and> set bs \<subseteq> set (fn_realloc f)) \<and>
     (\<forall>x. w = Some x \<longrightarrow> x \<in> dom (fn_heap f)) \<and>
     (if err = 0
      then \<exists>ns m. walk (fn_heap f) n ns m \<and> at_root (fn_heap f) m \<and> path = Some (full_path (fn_heap f) ns t) \<and>
             counted (locks f') ((ns, w) # hs)
      else path = None \<and> w = None \<and> counted (locks f') hs \<and> refusal f n w0 err))"

lemma path_text_clean:
  assumes "c_names h"
  shows "walk h n ns m \<Longrightarrow> NUL_CHAR \<notin> set (path_text h ns)"
proof (induction rule: walk.induct)
  case (step n d nm p ns m)
  then have "NUL_CHAR \<notin> set nm" using assms unfolding c_names_def by blast
  then show ?case using step by (simp add: NUL_CHAR_def)
qed simp

lemma follow_path_ok:
  assumes inv: "tree_inv f {}" and n: "fn_heap f n = Some d" and pb: "pb_ok pb t" "NUL_CHAR \<notin> set t"
    and fit: "fits (fn_heap f) n (Suc (length t))" "c_names (fn_heap f)"
    and cnt: "counted (locks f) (([], w) # hs)" "int (length hs) + 1 < INT_MAX" and w: "\<And>x. w = Some x \<Longrightarrow> x \<in> dom (fn_heap f) \<and> (n, x) \<notin> (parent_rel (fn_heap f))\<^sup>*"
  shows "\<exists>r. follow_path f (nd_nodeid d) pb w True = Inr r \<and> path_outcome f n t hs w r"
proof -
  have g: "get_node f (nd_nodeid d) = Inr n" using get_node_ok(2) [OF inv n] .
  have "\<exists>r. path_loop f True n pb = Some (Inr r) \<and> path_post f True n t r"
  proof (rule path_loop_ok [OF parent_wf [OF inv] _ _ refl _ pb(1) fit(1)])
    show "locks f x < INT_MAX" for x using counted_below [OF cnt(1)] cnt(2) by simp
  qed (use inv n in \<open>simp_all add: tree_inv_def\<close>)
  then obtain err pb' m f' where r: "path_loop f True n pb = Some (Inr (err, pb', m, f'))" "path_post f True n t (err, pb', m, f')"
    by fastforce
  then obtain ns bs where p: "walk (fn_heap f) n ns m" "f' = with_locks (on_path ns (\<lambda>t. t + 1) (locks f)) (f\<lparr>fn_realloc := bs\<rparr>)"
    "set bs \<subseteq> set (fn_realloc f)" "\<forall>x \<in> set ns. 0 \<le> locks f x" "path_end f True err m"
    "err = 0 \<longrightarrow> pb_ok pb' (path_text (fn_heap f) ns @ t)"
    by (auto simp: path_post_def)
  define L where "L = on_path ns (\<lambda>t. t + 1) (locks f)"
  have z: "L x = 0" if "x \<notin> dom (fn_heap f)" for x
    using that walk_rel(3) [OF p(1)] locks_none by (auto simp: L_def on_path_def)
  have l: "locks f' = L" unfolding p(2) L_def [symmetric] using z by (intro locks_with_locks) simp
  have c: "counted L ((ns, w) # hs)" unfolding L_def using cnt(1) p(4) cnt(2) by (intro counted_read) simp_all
  have "w \<noteq> Some m" using w walk_rel(1) [OF p(1)] by auto
  then have e: "err = 0 \<or> refusal f n w err"
    using p(1,5) unfolding path_end_def refusal_def by (force simp: errno_defs split: if_splits)
  show ?thesis
  proof (cases "err = 0")
    case True
    have "NUL_CHAR \<notin> set (path_text (fn_heap f) ns @ t)" using path_text_clean [OF fit(2) p(1)] pb(2) by simp
    then have "finish_path pb' = Inr (full_path (fn_heap f) ns t)"
      using p(6) True finish_path_ok by (simp add: full_path_def Let_def)
    then have "follow_path f (nd_nodeid d) pb w True = Inr (0, Some (full_path (fn_heap f) ns t), w, f')"
      using g r(1) True by (simp add: follow_path_def)
    moreover have "at_root (fn_heap f) m" using p(5) True by (simp add: path_end_def)
    ultimately show ?thesis using p(1-3) c l w z unfolding path_outcome_def L_def [symmetric] by auto
  next
    case False
    let ?f = "f\<lparr>fn_realloc := bs\<rparr>"
    have v: "tree_view (fn_heap f') = tree_view (fn_heap f)" by (simp add: p(2))
    have "\<exists>L'. unlock_path f' (nd_nodeid d) w (Some m) = Inr (with_locks L' f') \<and> counted L' hs \<and> (\<forall>x. x \<notin> dom (fn_heap f') \<longrightarrow> L' x = 0)"
    proof -
      have "fn_heap f' n = Some (d\<lparr>nd_treelock := L n\<rparr>)" using n by (simp add: p(2) L_def)
      moreover have "tree_inv f' {}" using inv by (simp add: p(2))
      moreover have "walk (fn_heap f') n ns m" using v p(1) by (rule walk_view)
      moreover have "w = Some x \<Longrightarrow> x \<in> dom (fn_heap f')" for x using w by (simp add: p(2))
      ultimately show ?thesis
        using unlock_path_ok [of f' n "d\<lparr>nd_treelock := L n\<rparr>" ns m "Some m" w hs] c l cnt(2) by simp
    qed
    then obtain L' where L': "unlock_path f' (nd_nodeid d) w (Some m) = Inr (with_locks L' ?f)" "counted L' hs"
      "\<forall>x. x \<notin> dom (fn_heap f) \<longrightarrow> L' x = 0"
      by (auto simp: p(2))
    have "follow_path f (nd_nodeid d) pb w True = Inr (err, None, None, with_locks L' ?f)"
      using g r(1) False L'(1) by (simp add: follow_path_def)
    moreover have "locks (with_locks L' ?f) = L'" using L'(3) by (intro locks_with_locks) simp
    ultimately show ?thesis using L' p(3) e False unfolding path_outcome_def by auto
  qed
qed

lemma lookup_node_dom:
  assumes "tree_inv f {}"
  shows "\<exists>r. lookup_node f i nm = Inr r \<and> (\<forall>x. r = Some x \<longrightarrow> x \<in> dom (fn_heap f))"
proof -
  obtain r where r: "lookup_node f i nm = Inr r" "case r of None \<Rightarrow> True | Some n \<Rightarrow> n \<in> named (fn_heap f) {}"
    using lookup_node_ok [OF assms, of i nm] by (auto split: option.splits)
  moreover have "named (fn_heap f) {} \<subseteq> dom (fn_heap f)" by (auto simp: named_def parent_rel_def)
  ultimately show ?thesis by (cases r) auto
qed

lemma lock_wnode_ok:
  assumes inv: "tree_inv f {}" and cnt: "counted (locks f) hs" "int (length hs) < INT_MAX"
  shows "\<exists>go w L. lock_wnode f i (Some nm) True = Inr (go, w, with_locks L f) \<and> (\<forall>x. x \<notin> dom (fn_heap f) \<longrightarrow> L x = 0) \<and>
    (\<forall>x. w = Some x \<longrightarrow> x \<in> dom (fn_heap f) \<and> lookup_node f i nm = Inr (Some x)) \<and> counted L (([], w) # hs) \<and>
    (if go then \<forall>x. w \<noteq> Some x \<longrightarrow> L x = locks f x else w = None \<and> (\<exists>x. locks f x \<noteq> 0))"
proof -
  obtain r where r: "lookup_node f i nm = Inr r" "\<And>x. r = Some x \<Longrightarrow> x \<in> dom (fn_heap f)"
    using lookup_node_dom [OF inv] by blast
  show ?thesis
  proof (cases r)
    case None
    then have "lock_wnode f i (Some nm) True = Inr (True, None, with_locks (locks f) f)" using r(1) by (simp add: lock_wnode_def)
    then show ?thesis
      by (intro exI [of _ True] exI [of _ None] exI [of _ "locks f"]) (use cnt(1) in \<open>simp add: locks_none\<close>)
  next
    case (Some x)
    then obtain d where d: "fn_heap f x = Some d" using r(2) by auto
    note put = put_lock [OF d] and l = lock_of_Some [where h = "fn_heap f", OF d]
    have z: "((locks f)(x := t)) y = 0" if "y \<notin> dom (fn_heap f)" for y t using that d locks_none by auto
    consider "locks f x < 0" | "0 < locks f x" | "locks f x = 0" by linarith
    then show ?thesis
    proof cases
      case 1
      then have "lock_wnode f i (Some nm) True = Inr (False, None, with_locks (locks f) f)"
        using r(1) Some d l by (simp add: lock_wnode_def node_def)
      moreover have "\<exists>x. locks f x \<noteq> 0" using 1 by (metis less_irrefl)
      ultimately show ?thesis
        by (intro exI [of _ False] exI [of _ None] exI [of _ "locks f"]) (use cnt(1) in \<open>simp add: locks_none\<close>)
    next
      case 2
      have "locks f x < INT_MAX" using counted_below [OF cnt] .
      then have "in_int (locks f x + TREELOCK_WAIT_OFFSET)" using 2 by (simp add: treelock_defs)
      then have "lock_wnode f i (Some nm) True = Inr (False, None, with_locks ((locks f)(x := locks f x + TREELOCK_WAIT_OFFSET)) f)"
        using r(1) Some d l 2 put by (simp add: lock_wnode_def node_def)
      moreover have "\<exists>x. locks f x \<noteq> 0" using 2 by (metis less_irrefl)
      ultimately show ?thesis
        by (intro exI [of _ False] exI [of _ None] exI [of _ "(locks f)(x := locks f x + TREELOCK_WAIT_OFFSET)"]) (simp add: counted_wait [OF cnt(1) 2 cnt(2)] z del: fun_upd_apply)
    next
      case 3
      then have "lock_wnode f i (Some nm) True = Inr (True, Some x, with_locks ((locks f)(x := TREELOCK_WRITE)) f)"
        using r(1) Some d l put by (simp add: lock_wnode_def node_def)
      then show ?thesis
        by (intro exI [of _ True] exI [of _ "Some x"] exI [of _ "(locks f)(x := TREELOCK_WRITE)"]) (simp add: counted_write [OF cnt(1) 3 cnt(2)] z r(1) Some d domIff del: fun_upd_apply, simp)
    qed
  qed
qed

text \<open>The text in front of which the names are written.\<close>

definition name_text :: "string option \<Rightarrow> string" where
  "name_text name = (case name of None \<Rightarrow> [] | Some nm \<Rightarrow> CHR ''/'' # nm)"

definition name_ok :: "string option \<Rightarrow> bool" where
  "name_ok name \<longleftrightarrow> (case name of None \<Rightarrow> True | Some nm \<Rightarrow> NUL_CHAR \<notin> set nm)"

lemma path_outcome_locks:
  assumes "path_outcome (with_locks L (f\<lparr>fn_realloc := bs\<rparr>)) n t hs w0 r" "set bs \<subseteq> set (fn_realloc f)"
    "\<And>x. w0 \<noteq> Some x \<Longrightarrow> L x = locks f x"
  shows "path_outcome f n t hs None r"
proof -
  obtain err path w f' where r: "r = (err, path, w, f')" by (cases r) auto
  let ?g = "with_locks L (f\<lparr>fn_realloc := bs\<rparr>)"
  have v: "tree_view (fn_heap ?g) = tree_view (fn_heap f)" by simp
  have w: "walk (fn_heap f) n ns m" "full_path (fn_heap ?g) ns t = full_path (fn_heap f) ns t" if "walk (fn_heap ?g) n ns m" for ns m
    using walk_view [OF v [symmetric] that] path_text_view [OF v [symmetric], of ns] walk_rel(3) [OF that] by (simp_all add: full_path_def)
  have d: "dom (fn_heap ?g) = dom (fn_heap f)" by simp
  have "\<exists>L bs. f' = with_locks L (f\<lparr>fn_realloc := bs\<rparr>) \<and> (\<forall>x. x \<notin> dom (fn_heap f) \<longrightarrow> L x = 0) \<and> set bs \<subseteq> set (fn_realloc f)"
  proof -
    obtain L' bs' where "f' = with_locks L' (?g\<lparr>fn_realloc := bs'\<rparr>)" "\<forall>x. x \<notin> dom (fn_heap f) \<longrightarrow> L' x = 0" "set bs' \<subseteq> set (fn_realloc ?g)"
      using assms(1) unfolding r path_outcome_def prod.case d by blast
    then show ?thesis using assms(2) by (intro exI [of _ L'] exI [of _ bs']) auto
  qed
  moreover have "\<forall>x. w = Some x \<longrightarrow> x \<in> dom (fn_heap f)" using assms(1) unfolding r path_outcome_def prod.case d by blast
  moreover have "if err = 0
      then \<exists>ns m. walk (fn_heap f) n ns m \<and> at_root (fn_heap f) m \<and> path = Some (full_path (fn_heap f) ns t) \<and>
             counted (locks f') ((ns, w) # hs)
      else path = None \<and> w = None \<and> counted (locks f') hs \<and> refusal f n None err"
  proof (cases "err = 0")
    case True
    then obtain ns m where "walk (fn_heap ?g) n ns m" "at_root (fn_heap f) m" "path = Some (full_path (fn_heap ?g) ns t)"
      "counted (locks f') ((ns, w) # hs)"
      using assms(1) unfolding r path_outcome_def prod.case at_root_view [OF v] by auto
    then show ?thesis using w True by (metis (no_types))
  next
    case False
    have "locks f x \<noteq> 0" if "locks ?g x \<noteq> 0" "w0 \<noteq> Some x" for x
    proof (cases "fn_heap f x")
      case None
      then show ?thesis using that(1) by (simp add: lock_of_def relock_def)
    next
      case (Some e)
      then have "locks ?g x = L x" by (simp add: lock_of_Some)
      then show ?thesis using that assms(3) by simp
    qed
    moreover have "set (fn_realloc ?g) \<subseteq> set (fn_realloc f)" using assms(2) by simp
    ultimately have "refusal f n None err" if "refusal ?g n w0 err"
      using that w(1) unfolding refusal_def cut_off_view [OF v] by blast
    then show ?thesis using assms(1) False by (simp add: r path_outcome_def)
  qed
  ultimately show ?thesis unfolding r path_outcome_def prod.case by blast
qed

text \<open>A node that is found in a directory is not on the way from the directory to the root.\<close>

lemma child_not_above:
  assumes inv: "tree_inv f {}" and n: "fn_heap f n = Some d" and x: "lookup_node f (nd_nodeid d) nm = Inr (Some x)"
  shows "(n, x) \<notin> (parent_rel (fn_heap f))\<^sup>*"
proof
  assume nx: "(n, x) \<in> (parent_rel (fn_heap f))\<^sup>*"
  have "node_key (fn_heap f) x = Some (nd_nodeid d, nm)" using lookup_node_ok [OF inv, of "nd_nodeid d" nm] x by auto
  then obtain e p pd where e: "fn_heap f x = Some e" "nd_parent e = Some p" "fn_heap f p = Some pd" "nd_nodeid pd = nd_nodeid d"
    by (auto simp: node_key_def split: option.splits)
  have "p = n" using inv e(3,4) n unfolding tree_inv_def ids_distinct_def by blast
  then have "(x, n) \<in> parent_rel (fn_heap f)" using parent_relI [where h = "fn_heap f", OF e(1,2)] by simp
  then have "(x, x) \<in> (parent_rel (fn_heap f))\<^sup>+" using nx by (rule rtrancl_into_trancl2)
  then show False using inv by (simp add: tree_inv_def acyclic_def)
qed

lemma start_buf_ok:
  assumes "fn_heap f n = Some d" "fits (fn_heap f) n (Suc (length (name_text name)))"
  shows "\<exists>r. (case name of None \<Rightarrow> Inr (Some new_path_buf) | Some nm \<Rightarrow> add_name ok new_path_buf nm) = Inr r \<and>
    (\<forall>pb. r = Some pb \<longrightarrow> pb_ok pb (name_text name)) \<and> (r = None \<longrightarrow> \<not> ok)"
proof (cases name)
  case None
  then show ?thesis using new_path_buf_ok by (simp add: name_text_def)
next
  case (Some nm)
  have "length (path_text (fn_heap f) []) + Suc (length (name_text name)) < 0xffffffff"
    using assms walk.stop [of "fn_heap f" n] unfolding fits_def by blast
  then have "length [] + length nm + 2 \<le> 0xffffffff" using Some by (simp add: name_text_def)
  from add_name_ok [OF new_path_buf_ok this, of ok]
  obtain r where "add_name ok new_path_buf nm = Inr r"
    "case r of None \<Rightarrow> \<not> ok | Some pb1 \<Rightarrow> pb_ok pb1 (CHR ''/'' # nm @ [])" by blast
  then show ?thesis using Some by (cases r) (simp_all add: name_text_def)
qed

lemma start_wnode_ok:
  assumes "tree_inv f {}" "counted (locks f) hs" "int (length hs) < INT_MAX" "wr \<longrightarrow> name \<noteq> None"
  shows "\<exists>go w L. (if wr then lock_wnode f i name True else Inr (True, None, f)) = Inr (go, w, with_locks L f) \<and>
    (\<forall>x. x \<notin> dom (fn_heap f) \<longrightarrow> L x = 0) \<and>
    (\<forall>x. w = Some x \<longrightarrow> x \<in> dom (fn_heap f) \<and> (\<exists>nm. lookup_node f i nm = Inr (Some x))) \<and> counted L (([], w) # hs) \<and>
    (if go then \<forall>x. w \<noteq> Some x \<longrightarrow> L x = locks f x else w = None \<and> (\<exists>x. locks f x \<noteq> 0))"
proof (cases wr)
  case True
  then obtain nm where "name = Some nm" using assms(4) by auto
  then show ?thesis using lock_wnode_ok [OF assms(1-3), of i nm] unfolding if_P [OF True] by blast
next
  case False
  then show ?thesis
    by (intro exI [of _ True] exI [of _ None] exI [of _ "locks f"]) (use assms(2) in \<open>simp add: locks_none\<close>)
qed

lemma try_get_path_ok:
  assumes inv: "tree_inv f {}" and n: "fn_heap f n = Some d" and nm: "name_ok name" "wr \<longrightarrow> name \<noteq> None"
    and fit: "fits (fn_heap f) n (Suc (length (name_text name)))" "c_names (fn_heap f)"
    and cnt: "counted (locks f) hs" "int (length hs) + 1 < INT_MAX"
  shows "\<exists>r. try_get_path f (nd_nodeid d) name wr True = Inr r \<and> path_outcome f n (name_text name) hs None r"
proof -
  obtain ok bs where nx: "next_ok f = (ok, f\<lparr>fn_realloc := bs\<rparr>)" "set bs \<subseteq> set (fn_realloc f)" "ok \<or> False \<in> set (fn_realloc f)"
    by (rule next_ok_eq [of f]) blast
  obtain ok2 bs2 where nx2: "(if name = None then (True, f\<lparr>fn_realloc := bs\<rparr>) else next_ok (f\<lparr>fn_realloc := bs\<rparr>)) = (ok2, f\<lparr>fn_realloc := bs2\<rparr>)"
    "set bs2 \<subseteq> set (fn_realloc f)" "ok2 \<or> False \<in> set (fn_realloc f)"
  proof (cases name)
    case None
    then show ?thesis using that [of True bs] nx(2) by simp
  next
    case (Some nm)
    obtain ok2 bs2 where "next_ok (f\<lparr>fn_realloc := bs\<rparr>) = (ok2, f\<lparr>fn_realloc := bs\<rparr>\<lparr>fn_realloc := bs2\<rparr>)" "set bs2 \<subseteq> set (fn_realloc (f\<lparr>fn_realloc := bs\<rparr>))"
      "ok2 \<or> False \<in> set (fn_realloc (f\<lparr>fn_realloc := bs\<rparr>))"
      by (rule next_ok_eq [of "f\<lparr>fn_realloc := bs\<rparr>"]) blast
    then show ?thesis using that [of ok2 bs2] nx(2) Some by auto
  qed
  define f2 where "f2 = f\<lparr>fn_realloc := bs2\<rparr>"
  have nomem: "path_outcome f n t hs None (- ENOMEM, None, None, f\<lparr>fn_realloc := bs'\<rparr>)"
    if "set bs' \<subseteq> set (fn_realloc f)" "False \<in> set (fn_realloc f)" for t bs'
  proof -
    have "f\<lparr>fn_realloc := bs'\<rparr> = with_locks (locks f) (f\<lparr>fn_realloc := bs'\<rparr>)"
      using with_locks_simps(2) [of "f\<lparr>fn_realloc := bs'\<rparr>"] by simp
    then show ?thesis
      unfolding path_outcome_def prod.case using that cnt(1) locks_none
      by (intro conjI exI [of _ "locks f"] exI [of _ bs']) (auto simp: errno_defs refusal_def)
  qed
  obtain r where r: "(case name of None \<Rightarrow> Inr (Some new_path_buf) | Some nm \<Rightarrow> add_name ok2 new_path_buf nm) = Inr r"
    "\<And>pb. r = Some pb \<Longrightarrow> pb_ok pb (name_text name)" "r = None \<Longrightarrow> \<not> ok2"
    using start_buf_ok [OF n fit(1)] by blast
  have tg: "try_get_path f (nd_nodeid d) name wr True =
    (if \<not> ok then Inr (- ENOMEM, None, None, f\<lparr>fn_realloc := bs\<rparr>)
     else case r of None \<Rightarrow> Inr (- ENOMEM, None, None, f2)
       | Some pb \<Rightarrow> bind_res (if wr then lock_wnode f2 (nd_nodeid d) name True else Inr (True, None, f2)) (\<lambda>(go, wnode, f3).
           if \<not> go then Inr (- EAGAIN, None, None, f3) else follow_path f3 (nd_nodeid d) pb wnode True))"
    unfolding try_get_path_def Let_def nx(1) prod.case nx2(1) r(1) bind_res_simps f2_def [symmetric] ..
  show ?thesis
  proof (cases "ok \<and> r \<noteq> None")
    case False
    then have "False \<in> set (fn_realloc f)" using nx(3) nx2(3) r(3) by blast
    then show ?thesis using nomem [OF nx(2)] nomem [OF nx2(2)] False unfolding tg f2_def by auto
  next
    case True
    then obtain pb where pb: "r = Some pb" "pb_ok pb (name_text name)" using r(2) by auto
    have inv2: "tree_inv f2 {}" "counted (locks f2) hs" "fn_heap f2 = fn_heap f" using inv cnt(1) by (simp_all add: f2_def)
    obtain go w L where lw: "(if wr then lock_wnode f2 (nd_nodeid d) name True else Inr (True, None, f2)) = Inr (go, w, with_locks L f2)"
      "\<forall>x. x \<notin> dom (fn_heap f) \<longrightarrow> L x = 0"
      "\<forall>x. w = Some x \<longrightarrow> x \<in> dom (fn_heap f) \<and> (\<exists>nm. lookup_node f2 (nd_nodeid d) nm = Inr (Some x))" "counted L (([], w) # hs)"
      "if go then \<forall>x. w \<noteq> Some x \<longrightarrow> L x = locks f x else w = None \<and> (\<exists>x. locks f x \<noteq> 0)"
    proof -
      have "int (length hs) < INT_MAX" using cnt(2) by simp
      from start_wnode_ok [OF inv2(1,2) this nm(2), of "nd_nodeid d"] show thesis
        unfolding inv2(3) using that by blast
    qed
    let ?f3 = "with_locks L f2"
    have l3: "locks ?f3 = L" using lw(2) inv2(3) by (intro locks_with_locks) simp
    show ?thesis
    proof (cases go)
      case False
      then have "try_get_path f (nd_nodeid d) name wr True = Inr (- EAGAIN, None, None, ?f3)"
        using True pb(1) lw(1) by (simp add: tg)
      moreover have "path_outcome f n (name_text name) hs None (- EAGAIN, None, None, ?f3)"
        unfolding path_outcome_def prod.case l3 using lw nx2(2) False
        by (intro conjI exI [of _ L] exI [of _ bs2]) (auto simp: f2_def errno_defs refusal_def)
      ultimately show ?thesis by blast
    next
      case go: True
      have v: "tree_view (fn_heap ?f3) = tree_view (fn_heap f)" by (simp add: f2_def)
      have "\<exists>r. follow_path ?f3 (nd_nodeid (d\<lparr>nd_treelock := L n\<rparr>)) pb w True = Inr r \<and> path_outcome ?f3 n (name_text name) hs w r"
      proof (rule follow_path_ok)
        show "fn_heap ?f3 n = Some (d\<lparr>nd_treelock := L n\<rparr>)" using n by (simp add: f2_def)
        show "NUL_CHAR \<notin> set (name_text name)" using nm(1) by (auto simp: name_ok_def name_text_def NUL_CHAR_def split: option.splits)
        show "fits (fn_heap ?f3) n (Suc (length (name_text name)))" using v fit(1) by (rule fits_view)
        show "c_names (fn_heap ?f3)" using fit(2) by (auto simp: c_names_def f2_def relock_def)
        show "x \<in> dom (fn_heap ?f3) \<and> (n, x) \<notin> (parent_rel (fn_heap ?f3))\<^sup>*" if wx: "w = Some x" for x
        proof -
          obtain nm where "lookup_node f2 (nd_nodeid d) nm = Inr (Some x)" using lw(3) wx by blast
          then have "(n, x) \<notin> (parent_rel (fn_heap f2))\<^sup>*" using n inv2 by (intro child_not_above [of f2 n d]) simp_all
          then show ?thesis using lw(3) wx inv2(3) same_view(2) [OF v] by auto
        qed
      qed (use inv2 pb(2) lw l3 cnt(2) in auto)
      then obtain r where r: "follow_path ?f3 (nd_nodeid d) pb w True = Inr r" "path_outcome ?f3 n (name_text name) hs w r" by auto
      have "path_outcome f n (name_text name) hs None r"
        using r(2) nx2(2) unfolding f2_def by (rule path_outcome_locks) (use lw(5) go in simp)
      then show ?thesis using True pb(1) lw(1) go r(1) by (simp add: tg)
    qed
  qed
qed

end
