(* ===== verification/Path_Queue.thy ===== *)
theory Path_Queue
  imports Path_Calls
begin

text \<open>
  Locked paths and the queue of those that wait. A holder is a request that has locked the path of a
  node, and perhaps a node for writing. The locale \<open>holder_locks\<close> states what locking and unlocking
  promise about the holders; the calls for two paths are proved from it.
\<close>

section \<open>Holders\<close>

definition way :: "fuse_nodes \<Rightarrow> 64 word \<Rightarrow> nat list" where
  "way f i = (THE ns. \<exists>n d m. fn_heap f n = Some d \<and> nd_nodeid d = i \<and> walk (fn_heap f) n ns m \<and> at_root (fn_heap f) m)"

definition linked :: "fuse_nodes \<Rightarrow> 64 word \<Rightarrow> bool" where
  "linked f i \<longleftrightarrow> (\<exists>n d ns m. fn_heap f n = Some d \<and> nd_nodeid d = i \<and> walk (fn_heap f) n ns m \<and> at_root (fn_heap f) m)"

type_synonym path_hold = "64 word \<times> nat option"

definition holder_of :: "fuse_nodes \<Rightarrow> path_hold \<Rightarrow> holder" where
  "holder_of f h = (way f (fst h), snd h)"

definition hold_ok :: "fuse_nodes \<Rightarrow> path_hold \<Rightarrow> bool" where
  "hold_ok f h \<longleftrightarrow> linked f (fst h) \<and> (\<forall>x. snd h = Some x \<longrightarrow> x \<in> dom (fn_heap f))"

definition lock_inv :: "fuse_nodes \<Rightarrow> path_hold list \<Rightarrow> bool" where
  "lock_inv f hs \<longleftrightarrow> tree_inv f {} \<and> counted (locks f) (map (holder_of f) hs) \<and> (\<forall>h \<in> set hs. hold_ok f h)"

text \<open>What the caller provides: the number of a node, a name without a null byte, and paths that fit a buffer.\<close>

definition request_ok :: "fuse_nodes \<Rightarrow> 64 word \<Rightarrow> string option \<Rightarrow> bool \<Rightarrow> bool" where
  "request_ok f i name wr \<longleftrightarrow> name_ok name \<and> (wr \<longrightarrow> name \<noteq> None) \<and> c_names (fn_heap f) \<and>
     (\<exists>n d. fn_heap f n = Some d \<and> nd_nodeid d = i \<and> fits (fn_heap f) n (Suc (length (name_text name))))"

text \<open>Changes of locks only.\<close>

definition same_tree :: "fuse_nodes \<Rightarrow> fuse_nodes \<Rightarrow> bool" where
  "same_tree f f' \<longleftrightarrow> (\<exists>L bs. f' = with_locks L (f\<lparr>fn_realloc := bs\<rparr>))"

lemma same_tree_view: "same_tree f f' \<Longrightarrow> tree_view (fn_heap f') = tree_view (fn_heap f)"
  by (auto simp: same_tree_def)

lemma same_tree_refl [simp]: "same_tree f f"
  unfolding same_tree_def by (metis with_locks_simps(2) fuse_nodes.surjective fuse_nodes.update_convs(8))

lemma same_tree_trans: "same_tree f g \<Longrightarrow> same_tree g h \<Longrightarrow> same_tree f h"
  unfolding same_tree_def by fastforce

lemma same_tree_nodes_ok: "same_tree f f' \<Longrightarrow> nodes_ok f' = nodes_ok f"
  by (auto simp: same_tree_def)

lemma node_with_id_view:
  assumes "tree_view (fn_heap f') = tree_view (fn_heap f)" "fn_heap f n = Some d"
  obtains d' where "fn_heap f' n = Some d'" "nd_nodeid d' = nd_nodeid d" "nd_name d' = nd_name d"
proof -
  have "tree_view (fn_heap f') n = Some (nd_nodeid d, nd_parent d, nd_name d)" using assms by (simp add: tree_view_def)
  then show thesis using that by (auto simp: tree_view_iffs)
qed

lemma linked_view:
  assumes "tree_view (fn_heap f') = tree_view (fn_heap f)" "linked f i"
  shows "linked f' i"
  using assms(2) unfolding linked_def
  by (elim exE conjE) (rule node_with_id_view [OF assms(1)], assumption, metis walk_view [OF assms(1)] at_root_view [OF assms(1)])

lemma way_eq:
  assumes "ids_distinct (fn_heap f)" "fn_heap f n = Some d" "walk (fn_heap f) n ns m" "at_root (fn_heap f) m"
  shows "way f (nd_nodeid d) = ns"
  unfolding way_def
proof (rule the_equality)
  show "\<exists>n' d' m. fn_heap f n' = Some d' \<and> nd_nodeid d' = nd_nodeid d \<and> walk (fn_heap f) n' ns m \<and> at_root (fn_heap f) m"
    using assms by blast
  fix ns'
  assume "\<exists>n' d' m. fn_heap f n' = Some d' \<and> nd_nodeid d' = nd_nodeid d \<and> walk (fn_heap f) n' ns' m \<and> at_root (fn_heap f) m"
  then obtain n' d' m' where n': "fn_heap f n' = Some d'" "nd_nodeid d' = nd_nodeid d" "walk (fn_heap f) n' ns' m'" "at_root (fn_heap f) m'"
    by blast
  have "n' = n" using assms(1,2) n'(1,2) unfolding ids_distinct_def by blast
  then show "ns' = ns" using walk_root_unique [OF assms(3,4), of ns' m'] n'(3,4) by blast
qed

lemma way_view:
  assumes v: "tree_view (fn_heap f') = tree_view (fn_heap f)"
  shows "way f' i = way f i"
proof -
  have "(\<exists>n d m. fn_heap g' n = Some d \<and> nd_nodeid d = i \<and> walk (fn_heap g') n ns m \<and> at_root (fn_heap g') m)"
    if v: "tree_view (fn_heap g') = tree_view (fn_heap g)"
    and ex: "\<exists>n d m. fn_heap g n = Some d \<and> nd_nodeid d = i \<and> walk (fn_heap g) n ns m \<and> at_root (fn_heap g) m" for g g' ns
    using ex
    by (elim exE conjE) (rule node_with_id_view [OF v], assumption, metis walk_view [OF v] at_root_view [OF v])
  from this [OF v] this [OF v [symmetric]] show ?thesis unfolding way_def by (metis (no_types, lifting))
qed

lemma request_view:
  assumes v: "tree_view (fn_heap f') = tree_view (fn_heap f)" and r: "request_ok f i name wr"
  shows "request_ok f' i name wr"
proof -
  obtain n d where n: "fn_heap f n = Some d" "nd_nodeid d = i" "fits (fn_heap f) n (Suc (length (name_text name)))"
    using r by (auto simp: request_ok_def)
  obtain d' where d': "fn_heap f' n = Some d'" "nd_nodeid d' = nd_nodeid d" by (rule node_with_id_view [OF v n(1)])
  have "c_names (fn_heap f')"
    unfolding c_names_def
  proof (intro allI impI)
    fix x e nm
    assume "fn_heap f' x = Some e" "nd_name e = Some nm"
    then obtain e' where "fn_heap f x = Some e'" "nd_name e' = Some nm" by (metis node_with_id_view [OF v [symmetric]])
    then show "NUL_CHAR \<notin> set nm" using r unfolding request_ok_def c_names_def by blast
  qed
  moreover have "fits (fn_heap f') n (Suc (length (name_text name)))" using v n(3) by (rule fits_view)
  ultimately show ?thesis using r d' n(2) by (auto simp: request_ok_def)
qed

lemma hold_ok_view:
  assumes "tree_view (fn_heap f') = tree_view (fn_heap f)"
  shows "hold_ok f h \<Longrightarrow> hold_ok f' h" "holder_of f' = holder_of f"
  using linked_view [OF assms] way_view [OF assms] same_view(1) [OF assms] by (auto simp: hold_ok_def holder_of_def)

lemma lock_inv_view:
  assumes "lock_inv f hs" "tree_inv f' {}" "tree_view (fn_heap f') = tree_view (fn_heap f)" "counted (locks f') (map (holder_of f) hs')"
    "set hs' \<subseteq> set hs"
  shows "lock_inv f' hs'"
proof -
  have "map (holder_of f') hs' = map (holder_of f) hs'" using hold_ok_view(2) [OF assms(3)] by simp
  then have "counted (locks f') (map (holder_of f') hs')" using assms(4) by (simp only:)
  moreover have "\<forall>h \<in> set hs'. hold_ok f' h" using assms(1,5) hold_ok_view(1) [OF assms(3)] unfolding lock_inv_def by blast
  ultimately show ?thesis using assms(2) by (simp add: lock_inv_def)
qed

text \<open>The order of the holders plays no part.\<close>

lemma reads_mset: "reads hs x = size (filter_mset (\<lambda>(ns, w). x \<in> set ns) (mset hs))"
  "writes hs x = size (filter_mset (\<lambda>(ns, w). w = Some x) (mset hs))"
  by (simp_all add: reads_def writes_def flip: mset_filter)

lemma lock_inv_perm:
  assumes "mset hs' = mset hs" "lock_inv f hs"
  shows "lock_inv f hs'"
proof -
  have "mset (map (holder_of f) hs') = mset (map (holder_of f) hs)" using assms(1) by (simp only: mset_map)
  then have "reads (map (holder_of f) hs') x = reads (map (holder_of f) hs) x" "writes (map (holder_of f) hs') x = writes (map (holder_of f) hs) x" for x
    unfolding reads_mset by simp_all
  moreover have "set hs' = set hs" using assms(1) by (rule mset_eq_setD)
  ultimately show ?thesis using assms(2) by (simp add: lock_inv_def counted_def)
qed

section \<open>The laws of locking\<close>

definition room :: "path_hold list \<Rightarrow> bool" where
  "room hs \<longleftrightarrow> int (length hs) + 1 < INT_MAX"

lemma try_get_path_unlocked: "try_get_path f i name False lk = Inr (err, path, w, f') \<Longrightarrow> w = None"
  by (auto simp: try_get_path_def follow_path_def Let_def res_iffs split: prod.splits if_splits option.splits)

lemma lock_law:
  assumes inv: "lock_inv f hs" "room hs" and req: "request_ok f i name wr"
  shows "\<exists>err path w f'. try_get_path f i name wr True = Inr (err, path, w, f') \<and> same_tree f f' \<and>
    (if err = 0 then lock_inv f' ((i, w) # hs) \<and> path = Some (full_path (fn_heap f) (way f i) (name_text name))
     else path = None \<and> w = None \<and> lock_inv f' hs) \<and> (wr \<or> w = None)"
proof -
  obtain n d where n: "fn_heap f n = Some d" "nd_nodeid d = i" "fits (fn_heap f) n (Suc (length (name_text name)))"
    using req by (auto simp: request_ok_def)
  have ti: "tree_inv f {}" "ids_distinct (fn_heap f)" using inv(1) by (simp_all add: lock_inv_def tree_inv_def)
  have "counted (locks f) (map (holder_of f) hs)" "int (length (map (holder_of f) hs)) + 1 < INT_MAX"
    using inv by (simp_all add: lock_inv_def room_def)
  then obtain err path w f' where r: "try_get_path f i name wr True = Inr (err, path, w, f')"
    "path_outcome f n (name_text name) (map (holder_of f) hs) None (err, path, w, f')"
    using try_get_path_ok [OF ti(1) n(1), of name wr "map (holder_of f) hs"] req n(2,3) unfolding request_ok_def by fastforce
  then have st: "same_tree f f'" and wd: "\<forall>x. w = Some x \<longrightarrow> x \<in> dom (fn_heap f)" unfolding path_outcome_def same_tree_def by auto
  note v = same_tree_view [OF st]
  have ti': "tree_inv f' {}" using st ti(1) by (auto simp: same_tree_def)
  have wr: "wr \<or> w = None" using try_get_path_unlocked [of f i name True err path w f'] r(1) by (cases wr) auto
  show ?thesis
  proof (cases "err = 0")
    case True
    then obtain ns m where w: "walk (fn_heap f) n ns m" "at_root (fn_heap f) m" "path = Some (full_path (fn_heap f) ns (name_text name))"
      "counted (locks f') ((ns, w) # map (holder_of f) hs)"
      using r(2) by (auto simp: path_outcome_def)
    have "way f i = ns" using way_eq [OF ti(2) n(1) w(1,2)] n(2) by simp
    then have "counted (locks f') (map (holder_of f) ((i, w) # hs))" using w(4) by (simp add: holder_of_def)
    moreover have "hold_ok f (i, w)" using w(1,2) n wd by (auto simp: hold_ok_def linked_def)
    then have "lock_inv f' ((i, w) # hs)" if "counted (locks f') (map (holder_of f) ((i, w) # hs))"
      using that inv(1) ti' hold_ok_view [OF v] by (simp add: lock_inv_def)
    ultimately show ?thesis using r(1) st True w(3) \<open>way f i = ns\<close> wr by auto
  next
    case False
    then have "path = None" "w = None" "counted (locks f') (map (holder_of f) hs)" using r(2) by (auto simp: path_outcome_def)
    then show ?thesis using lock_inv_view [OF inv(1) ti' v] r(1) st False by auto
  qed
qed

text \<open>Why locking fails.\<close>

lemma lock_refused:
  assumes inv: "lock_inv f hs" "room hs" and req: "request_ok f i name wr"
    and r: "try_get_path f i name wr True = Inr (err, path, w, f')" "err \<noteq> 0"
  shows "\<exists>n d. fn_heap f n = Some d \<and> nd_nodeid d = i \<and> refusal f n None err"
proof -
  obtain n d where n: "fn_heap f n = Some d" "nd_nodeid d = i" "fits (fn_heap f) n (Suc (length (name_text name)))"
    using req by (auto simp: request_ok_def)
  have "counted (locks f) (map (holder_of f) hs)" "int (length (map (holder_of f) hs)) + 1 < INT_MAX" "tree_inv f {}"
    using inv by (simp_all add: lock_inv_def room_def)
  then have "path_outcome f n (name_text name) (map (holder_of f) hs) None (err, path, w, f')"
    using try_get_path_ok [of f n d name wr "map (holder_of f) hs"] req n r(1) unfolding request_ok_def by auto
  then show ?thesis using n r(2) by (auto simp: path_outcome_def)
qed

lemma unlock_law:
  assumes inv: "lock_inv f hs" "room hs" and h: "h \<in> set hs"
  shows "\<exists>f'. unlock_path f (fst h) (snd h) None = Inr f' \<and> same_tree f f' \<and> lock_inv f' (remove1 h hs)"
proof -
  obtain i w where iw: "h = (i, w)" by (cases h) auto
  have ho: "hold_ok f (i, w)" using inv(1) h iw by (simp add: lock_inv_def)
  then obtain n d ns m where n: "fn_heap f n = Some d" "nd_nodeid d = i" "walk (fn_heap f) n ns m" "at_root (fn_heap f) m"
    by (auto simp: hold_ok_def linked_def)
  have ti: "tree_inv f {}" "ids_distinct (fn_heap f)" using inv(1) by (simp_all add: lock_inv_def tree_inv_def)
  have wy: "way f i = ns" using way_eq [OF ti(2) n(1,3,4)] n(2) by simp
  have "lock_inv f (h # remove1 h hs)" by (rule lock_inv_perm [OF _ inv(1)]) (use h in simp)
  then have "counted (locks f) ((ns, w) # map (holder_of f) (remove1 h hs))"
    using wy iw by (simp add: lock_inv_def holder_of_def)
  moreover have "int (length (map (holder_of f) (remove1 h hs))) + 1 < INT_MAX"
    using inv(2) h by (simp add: room_def length_remove1)
  ultimately obtain L where L: "unlock_path f i w None = Inr (with_locks L f)" "counted L (map (holder_of f) (remove1 h hs))"
    "\<forall>x. x \<notin> dom (fn_heap f) \<longrightarrow> L x = 0"
    using unlock_path_ok [OF ti(1) n(1,3), of None w "map (holder_of f) (remove1 h hs)"] n(2,4) ho by (auto simp: hold_ok_def)
  have l: "locks (with_locks L f) = L" using L(3) by (intro locks_with_locks) simp
  have st: "same_tree f (with_locks L f)"
    unfolding same_tree_def by (rule exI [of _ L], rule exI [of _ "fn_realloc f"]) simp
  have "lock_inv (with_locks L f) (remove1 h hs)"
    using ti(1) L(2) by (intro lock_inv_view [OF inv(1)]) (simp_all only: l view_with_locks nodes_ok_with_locks set_remove1_subset)
  then show ?thesis using L(1) st iw by auto
qed

end
