(* ===== verification/Path_Wake.thy ===== *)
theory Path_Wake
  imports Path_Queue
begin

text \<open>
  What the users of locked paths rely on, as the locale \<open>holder_locks\<close>, its interpretation on the
  calls of \<^verbatim>\<open>lib/fuse.c\<close>, and the calls for two paths and for the queue: waking the queue up keeps the
  locks counted, and only the first element may keep one of two locks.
\<close>

section \<open>The interface of locking\<close>

locale holder_locks =
  fixes inv :: "'s \<Rightarrow> 'h list \<Rightarrow> bool"
    and limit :: "'h list \<Rightarrow> bool"
    and accepts :: "'s \<Rightarrow> 'q \<Rightarrow> bool"
    and lock :: "'s \<Rightarrow> 'q \<Rightarrow> ('h option \<times> 's) res"
    and unlock :: "'s \<Rightarrow> 'h \<Rightarrow> 's res"
  assumes lock_step: "inv s hs \<Longrightarrow> limit hs \<Longrightarrow> accepts s q \<Longrightarrow>
      \<exists>r s'. lock s q = Inr (r, s') \<and> (case r of None \<Rightarrow> inv s' hs | Some h \<Rightarrow> inv s' (h # hs)) \<and> (\<forall>p. accepts s p \<longrightarrow> accepts s' p)"
    and unlock_step: "inv s hs \<Longrightarrow> limit hs \<Longrightarrow> h \<in> set hs \<Longrightarrow> \<exists>s'. unlock s h = Inr s' \<and> inv s' (remove1 h hs)"
    and limit_less: "limit (h # hs) \<Longrightarrow> limit hs"
begin

text \<open>Unlocking undoes locking.\<close>

lemma lock_unlock:
  assumes "inv s hs" "limit (h # hs)" "accepts s q" "lock s q = Inr (Some h, s')"
  shows "\<exists>s''. unlock s' h = Inr s'' \<and> inv s'' hs"
proof -
  have "inv s' (h # hs)" using lock_step [OF assms(1) limit_less [OF assms(2)] assms(3)] assms(4) by auto
  then show ?thesis using unlock_step [of s' "h # hs" h] assms(2) by simp
qed

text \<open>A second lock that fails can be followed by unlocking the first: both are held, or none.\<close>

lemma lock_both:
  assumes "inv s hs" "\<And>h. limit (h # hs)" "\<And>h h'. limit (h # h' # hs)" "accepts s q" "accepts s q'" "lock s q = Inr (Some h, s1)"
  shows "\<exists>r s2. lock s1 q' = Inr (r, s2) \<and>
    (case r of None \<Rightarrow> \<exists>s3. unlock s2 h = Inr s3 \<and> inv s3 hs | Some h' \<Rightarrow> inv s2 (h' # h # hs))"
proof -
  have s1: "inv s1 (h # hs)" "accepts s1 q'" using lock_step [OF assms(1) limit_less [OF assms(2)] assms(4)] assms(5,6) by auto
  then obtain r s2 where r: "lock s1 q' = Inr (r, s2)" "case r of None \<Rightarrow> inv s2 (h # hs) | Some h' \<Rightarrow> inv s2 (h' # h # hs)"
    using lock_step [OF s1(1) assms(2) s1(2)] by blast
  show ?thesis
  proof (cases r)
    case None
    then show ?thesis using r unlock_step [of s2 "h # hs" h] assms(2) by simp
  next
    case (Some h')
    then show ?thesis using r by simp
  qed
qed

end

text \<open>Locking and unlocking a path as such an interface.\<close>

type_synonym path_request = "64 word \<times> string option \<times> bool"

definition accepts_path :: "fuse_nodes \<Rightarrow> path_request \<Rightarrow> bool" where
  "accepts_path f = (\<lambda>(i, name, wr). request_ok f i name wr)"

definition lock_path :: "fuse_nodes \<Rightarrow> path_request \<Rightarrow> (path_hold option \<times> fuse_nodes) res" where
  "lock_path f = (\<lambda>(i, name, wr).
     bind_res (try_get_path f i name wr True) (\<lambda>(err, path, w, f'). Inr (if err = 0 then Some (i, w) else None, f')))"

definition unlock_hold :: "fuse_nodes \<Rightarrow> path_hold \<Rightarrow> fuse_nodes res" where
  "unlock_hold f h = unlock_path f (fst h) (snd h) None"

interpretation path_locks: holder_locks lock_inv room accepts_path lock_path unlock_hold
proof
  fix f hs and q :: path_request
  assume a: "lock_inv f hs" "room hs" "accepts_path f q"
  obtain i name wr where q: "q = (i, name, wr)" by (cases q) auto
  obtain err path w f' where r: "try_get_path f i name wr True = Inr (err, path, w, f')" "same_tree f f'"
    "if err = 0 then lock_inv f' ((i, w) # hs) \<and> path = Some (full_path (fn_heap f) (way f i) (name_text name))
     else path = None \<and> w = None \<and> lock_inv f' hs"
    using lock_law [OF a(1,2), of i name wr] a(3) q by (auto simp: accepts_path_def)
  have "accepts_path f' p" if "accepts_path f p" for p
    using request_view [OF same_tree_view [OF r(2)]] that by (cases p) (simp add: accepts_path_def)
  then show "\<exists>r s'. lock_path f q = Inr (r, s') \<and> (case r of None \<Rightarrow> lock_inv s' hs | Some h \<Rightarrow> lock_inv s' (h # hs)) \<and>
      (\<forall>p. accepts_path f p \<longrightarrow> accepts_path s' p)"
    using r(1,3) q by (auto simp: lock_path_def split: if_splits)
next
  fix f hs and h :: path_hold
  assume "lock_inv f hs" "room hs" "h \<in> set hs"
  from unlock_law [OF this] show "\<exists>s'. unlock_hold f h = Inr s' \<and> lock_inv s' (remove1 h hs)" by (auto simp: unlock_hold_def)
qed (simp add: room_def)

section \<open>Two paths\<close>

definition room2 :: "path_hold list \<Rightarrow> bool" where
  "room2 hs \<longleftrightarrow> int (length hs) + 3 < INT_MAX"

lemma try_get_path2_law:
  assumes inv: "lock_inv f hs" "room2 hs" and req: "request_ok f i1 name1 wr1" "request_ok f i2 name2 wr2"
  shows "\<exists>err p1 w1 p2 w2 f'. try_get_path2 f i1 name1 i2 name2 wr1 wr2 = Inr (err, (p1, w1), (p2, w2), f') \<and> same_tree f f' \<and>
    (if err = 0 then lock_inv f' ((i2, w2) # (i1, w1) # hs) else lock_inv f' hs)"
proof -
  have rm: "room hs" "\<And>h. room (h # hs)" "\<And>h h'. room (h # h' # hs)" using inv(2) by (simp_all add: room_def room2_def)
  obtain err p1 w1 f1 where r: "try_get_path f i1 name1 wr1 True = Inr (err, p1, w1, f1)" "same_tree f f1"
    "if err = 0 then lock_inv f1 ((i1, w1) # hs) \<and> p1 = Some (full_path (fn_heap f) (way f i1) (name_text name1))
     else p1 = None \<and> w1 = None \<and> lock_inv f1 hs"
    using lock_law [OF inv(1) rm(1) req(1)] by blast
  show ?thesis
  proof (cases "err = 0")
    case False
    then show ?thesis using r by (auto simp: try_get_path2_def)
  next
    case True
    have req2: "request_ok f1 i2 name2 wr2" using request_view [OF same_tree_view [OF r(2)] req(2)] .
    obtain err2 p2 w2 f2 where r2: "try_get_path f1 i2 name2 wr2 True = Inr (err2, p2, w2, f2)" "same_tree f1 f2"
      using lock_law [OF _ rm(2) req2, of "(i1, w1)"] r(3) True by auto
    have lp: "lock_path f (i1, name1, wr1) = Inr (Some (i1, w1), f1)"
      "lock_path f1 (i2, name2, wr2) = Inr (if err2 = 0 then Some (i2, w2) else None, f2)"
      using r(1) r2(1) True by (simp_all add: lock_path_def)
    have both: "if err2 = 0 then lock_inv f2 ((i2, w2) # (i1, w1) # hs)
      else \<exists>f3. unlock_path f2 i1 w1 None = Inr f3 \<and> lock_inv f3 hs"
      using path_locks.lock_both [OF inv(1) rm(2,3) _ _ lp(1), of "(i2, name2, wr2)"] req lp(2)
      by (auto simp: accepts_path_def unlock_hold_def split: if_splits)
    have st: "same_tree f f2" using r(2) r2(2) by (rule same_tree_trans)
    show ?thesis
    proof (cases "err2 = 0")
      case True
      then show ?thesis using both st r(1) r2(1) \<open>err = 0\<close> by (auto simp: try_get_path2_def)
    next
      case False
      have "lock_inv f2 ((i1, w1) # hs)" using lock_law [OF _ rm(2) req2, of "(i1, w1)"] r(3) True r2(1) False by auto
      then obtain f3 where f3: "unlock_path f2 i1 w1 None = Inr f3" "same_tree f2 f3" "lock_inv f3 hs"
        using unlock_law [of f2 "(i1, w1) # hs" "(i1, w1)"] rm(2) by auto
      then show ?thesis
        using same_tree_trans [OF st f3(2)] r(1) r2(1) \<open>err = 0\<close> False by (auto simp: try_get_path2_def)
    qed
  qed
qed

section \<open>The queue\<close>

definition first_hold :: "lock_qe \<Rightarrow> path_hold list" where
  "first_hold qe = (if qe_first_locked qe then [(qe_nodeid1 qe, if qe_wr1 qe then qe_wnode1 qe else None)] else [])"

definition second_hold :: "lock_qe \<Rightarrow> path_hold list" where
  "second_hold qe = (if qe_second_locked qe then [(qe_nodeid2 qe, if qe_wr2 qe then qe_wnode2 qe else None)] else [])"

definition qe_holds :: "lock_qe \<Rightarrow> path_hold list" where
  "qe_holds qe = first_hold qe @ second_hold qe"

text \<open>An element that asks for a path asks for a good one; one that does not only waits for its node.\<close>

definition qe_ok :: "fuse_nodes \<Rightarrow> lock_qe \<Rightarrow> bool" where
  "qe_ok f qe \<longleftrightarrow>
     (if qe_wants1 qe then request_ok f (qe_nodeid1 qe) (qe_name1 qe) (qe_wr1 qe)
      else (\<exists>n d. fn_heap f n = Some d \<and> nd_nodeid d = qe_nodeid1 qe) \<and> \<not> qe_first_locked qe) \<and>
     (if qe_wants2 qe then qe_wants1 qe \<and> request_ok f (qe_nodeid2 qe) (qe_name2 qe) (qe_wr2 qe) else \<not> qe_second_locked qe)"

definition served :: "lock_qe \<Rightarrow> bool" where
  "served qe \<longleftrightarrow> qe_first_locked qe \<and> (qe_second_locked qe \<or> \<not> qe_wants2 qe) \<and> qe_done qe \<and> qe_err qe = 0"

lemma qe_ok_view:
  assumes "same_tree f f'" "qe_ok f qe"
  shows "qe_ok f' qe"
proof -
  note v = same_tree_view [OF assms(1)]
  have "\<exists>n d. fn_heap f' n = Some d \<and> nd_nodeid d = i" if "fn_heap f n = Some d" "nd_nodeid d = i" for n d i
    using node_with_id_view [OF v that(1)] that(2) by metis
  then show ?thesis using assms(2) request_view [OF v] by (auto simp: qe_ok_def split: if_splits)
qed

lemma length_qe_holds: "length (qe_holds qe) \<le> 2"
  by (simp add: qe_holds_def first_hold_def second_hold_def)

lemma unlock_holds:
  assumes "lock_inv f (ps @ hs)" "room (ps @ hs)" "length ps \<le> 1"
  shows "\<exists>f'. (case ps of [] \<Rightarrow> Inr f | h # _ \<Rightarrow> unlock_path f (fst h) (snd h) None) = Inr f' \<and> same_tree f f' \<and> lock_inv f' hs"
proof (cases ps)
  case Nil
  then show ?thesis using assms(1) by simp
next
  case (Cons h t)
  then have "ps = [h]" using assms(3) by simp
  then show ?thesis using unlock_law [OF assms(1,2), of h] by simp
qed

lemma queue_element_unlock_law:
  assumes "lock_inv f (qe_holds qe @ hs)" "room2 hs"
  shows "\<exists>f'. queue_element_unlock f qe = Inr (qe\<lparr>qe_first_locked := False, qe_second_locked := False\<rparr>, f') \<and> same_tree f f' \<and> lock_inv f' hs"
proof -
  have l: "length (first_hold qe) \<le> 1" "length (second_hold qe) \<le> 1" by (simp_all add: first_hold_def second_hold_def)
  have "room (first_hold qe @ second_hold qe @ hs)" "room (second_hold qe @ hs)" using assms(2) l by (simp_all add: room_def room2_def)
  note rm = this
  obtain f1 where f1: "(case first_hold qe of [] \<Rightarrow> Inr f | h # _ \<Rightarrow> unlock_path f (fst h) (snd h) None) = Inr f1" "same_tree f f1"
    "lock_inv f1 (second_hold qe @ hs)"
    using unlock_holds [of f "first_hold qe" "second_hold qe @ hs"] assms(1) rm(1) l(1) by (auto simp: qe_holds_def)
  obtain f2 where f2: "(case second_hold qe of [] \<Rightarrow> Inr f1 | h # _ \<Rightarrow> unlock_path f1 (fst h) (snd h) None) = Inr f2" "same_tree f1 f2" "lock_inv f2 hs"
    using unlock_holds [OF f1(3) rm(2) l(2)] by blast
  have "queue_element_unlock f qe = Inr (qe\<lparr>qe_first_locked := False, qe_second_locked := False\<rparr>, f2)"
    using f1(1) f2(1) by (auto simp: queue_element_unlock_def first_hold_def second_hold_def split: if_splits)
  then show ?thesis using same_tree_trans [OF f1(2) f2(2)] f2(3) by blast
qed

lemma wake_first_law:
  assumes inv: "lock_inv f (qe_holds qe @ hs)" "room2 hs" and ok: "qe_ok f qe" "qe_wants1 qe"
  shows "\<exists>err qe' f'. wake_first f qe = Inr (err, qe', f') \<and> same_tree f f' \<and> lock_inv f' (qe_holds qe' @ hs) \<and> qe_ok f' qe' \<and>
    qe_wants1 qe' \<and> qe_wants2 qe' = qe_wants2 qe \<and> (err = 0) = qe_first_locked qe'"
proof (cases "qe_first_locked qe")
  case True
  then show ?thesis using inv ok by (simp add: wake_first_def)
next
  case False
  have h: "qe_holds qe = second_hold qe" using False by (simp add: qe_holds_def first_hold_def)
  have rm: "room (qe_holds qe @ hs)" using inv(2) length_qe_holds [of qe] h by (simp add: room_def room2_def)
  have req: "request_ok f (qe_nodeid1 qe) (qe_name1 qe) (qe_wr1 qe)" using ok by (simp add: qe_ok_def)
  obtain err path w f' where r: "try_get_path f (qe_nodeid1 qe) (qe_name1 qe) (qe_wr1 qe) True = Inr (err, path, w, f')" "same_tree f f'"
    "if err = 0 then lock_inv f' ((qe_nodeid1 qe, w) # qe_holds qe @ hs) else lock_inv f' (qe_holds qe @ hs)" "qe_wr1 qe \<or> w = None"
    using lock_law [OF inv(1) rm req] by (auto split: if_splits)
  have ok': "qe_ok f' qe" using qe_ok_view [OF r(2) ok(1)] .
  show ?thesis
  proof (cases "err = 0")
    case True
    let ?q = "qe\<lparr>qe_path1 := path, qe_wnode1 := w, qe_first_locked := True\<rparr>"
    have "qe_holds ?q = (qe_nodeid1 qe, w) # qe_holds qe" using r(4) h by (auto simp: qe_holds_def first_hold_def second_hold_def)
    moreover have "qe_ok f' ?q" using ok' ok(2) by (simp add: qe_ok_def)
    moreover have "wake_first f qe = Inr (0, ?q, f')" using False r(1) True by (simp add: wake_first_def)
    ultimately show ?thesis using r(2,3) True ok(2)
      by (intro exI [of _ 0] exI [of _ ?q] exI [of _ f']) simp
  next
    case err: False
    let ?q = "qe\<lparr>qe_path1 := None\<rparr>"
    have "qe_holds ?q = qe_holds qe" by (simp add: qe_holds_def first_hold_def second_hold_def)
    moreover have "qe_ok f' ?q" using ok' by (simp add: qe_ok_def)
    moreover have "wake_first f qe = Inr (err, ?q, f')" using False r(1) err by (simp add: wake_first_def)
    ultimately show ?thesis using r(2,3) err ok(2) False
      by (intro exI [of _ err] exI [of _ ?q] exI [of _ f']) simp
  qed
qed

lemma wake_second_law:
  assumes inv: "lock_inv f (qe_holds qe @ hs)" "room2 hs" and ok: "qe_ok f qe" "qe_wants1 qe"
  shows "\<exists>err qe' f'. wake_second f qe = Inr (err, qe', f') \<and> same_tree f f' \<and> lock_inv f' (qe_holds qe' @ hs) \<and> qe_ok f' qe' \<and>
    qe_wants1 qe' \<and> qe_wants2 qe' = qe_wants2 qe \<and> qe_first_locked qe' = qe_first_locked qe"
proof (cases "qe_second_locked qe \<or> \<not> qe_wants2 qe")
  case True
  then show ?thesis using inv ok by (auto simp: wake_second_def)
next
  case False
  have h: "qe_holds qe = first_hold qe" using False by (simp add: qe_holds_def second_hold_def)
  have rm: "room (qe_holds qe @ hs)" using inv(2) length_qe_holds [of qe] by (simp add: room_def room2_def)
  have req: "request_ok f (qe_nodeid2 qe) (qe_name2 qe) (qe_wr2 qe)" using ok False by (auto simp: qe_ok_def)
  obtain err path w f' where r: "try_get_path f (qe_nodeid2 qe) (qe_name2 qe) (qe_wr2 qe) True = Inr (err, path, w, f')" "same_tree f f'"
    "if err = 0 then lock_inv f' ((qe_nodeid2 qe, w) # qe_holds qe @ hs) else lock_inv f' (qe_holds qe @ hs)" "qe_wr2 qe \<or> w = None"
    using lock_law [OF inv(1) rm req] by (auto split: if_splits)
  have ok': "qe_ok f' qe" using qe_ok_view [OF r(2) ok(1)] .
  show ?thesis
  proof (cases "err = 0")
    case True
    let ?q = "qe\<lparr>qe_path2 := path, qe_wnode2 := w, qe_second_locked := True\<rparr>"
    have "qe_holds ?q = qe_holds qe @ [(qe_nodeid2 qe, w)]" using r(4) h by (auto simp: qe_holds_def first_hold_def second_hold_def)
    then have "mset (qe_holds ?q @ hs) = mset ((qe_nodeid2 qe, w) # qe_holds qe @ hs)" by simp
    then have "lock_inv f' (qe_holds ?q @ hs)" using r(3) True by (simp only: if_True lock_inv_perm)
    moreover have "qe_ok f' ?q" using ok' False by (auto simp: qe_ok_def)
    moreover have "wake_second f qe = Inr (0, ?q, f')" using False r(1) True by (simp add: wake_second_def)
    ultimately show ?thesis using r(2) ok(2)
      by (intro exI [of _ 0] exI [of _ ?q] exI [of _ f']) simp
  next
    case err: False
    let ?q = "qe\<lparr>qe_path2 := None\<rparr>"
    have "qe_holds ?q = qe_holds qe" by (simp add: qe_holds_def first_hold_def second_hold_def)
    moreover have "qe_ok f' ?q" using ok' by (simp add: qe_ok_def)
    moreover have "wake_second f qe = Inr (err, ?q, f')" using False r(1) err by (simp add: wake_second_def)
    ultimately show ?thesis using r(2,3) err ok(2)
      by (intro exI [of _ err] exI [of _ ?q] exI [of _ f']) simp
  qed
qed

text \<open>Unlocked elements, and how an element ends.\<close>

lemma unlocked_holds: "qe_holds (qe\<lparr>qe_first_locked := False, qe_second_locked := False\<rparr>) = []"
  by (simp add: qe_holds_def first_hold_def second_hold_def)

lemma unlocked_ok: "qe_ok f qe \<Longrightarrow> qe_ok f (qe\<lparr>qe_first_locked := False, qe_second_locked := False\<rparr>)"
  by (auto simp: qe_ok_def split: if_splits)

lemma finish_holds [simp]:
  "qe_holds (qe\<lparr>qe_err := e\<rparr>) = qe_holds qe" "qe_holds (qe\<lparr>qe_done := b\<rparr>) = qe_holds qe" "qe_holds (qe\<lparr>qe_signal := b\<rparr>) = qe_holds qe"
  "qe_ok f (qe\<lparr>qe_err := e\<rparr>) = qe_ok f qe" "qe_ok f (qe\<lparr>qe_done := b\<rparr>) = qe_ok f qe" "qe_ok f (qe\<lparr>qe_signal := b\<rparr>) = qe_ok f qe"
  by (simp_all add: qe_holds_def first_hold_def second_hold_def qe_ok_def)

lemma length_holds: "length (concat (map qe_holds q)) \<le> 2 * length q"
proof (induction q)
  case (Cons qe q)
  then show ?case using length_qe_holds [of qe] by simp
qed simp

definition wake_post :: "bool \<Rightarrow> fuse_nodes \<Rightarrow> path_hold list \<Rightarrow> lock_qe \<times> fuse_nodes \<Rightarrow> bool" where
  "wake_post first f hs = (\<lambda>(qe, f'). same_tree f f' \<and> lock_inv f' (qe_holds qe @ hs) \<and> qe_ok f' qe \<and>
     (first \<or> qe_holds qe = [] \<or> served qe))"

lemma wake_fail:
  assumes "same_tree f f1" "lock_inv f1 (qe_holds qe @ hs)" "room2 hs" "qe_ok f1 qe"
  shows "\<exists>r. queue_element_unlock f1 qe = Inr r \<and> wake_post first f hs r"
    and "\<exists>r. bind_res (queue_element_unlock f1 qe) (finish_element err) = Inr r \<and> wake_post first f hs r"
proof -
  obtain f2 where f2: "queue_element_unlock f1 qe = Inr (qe\<lparr>qe_first_locked := False, qe_second_locked := False\<rparr>, f2)" "same_tree f1 f2" "lock_inv f2 hs"
    using queue_element_unlock_law [OF assms(2,3)] by blast
  have st: "same_tree f f2" using assms(1) f2(2) by (rule same_tree_trans)
  have ok: "qe_ok f2 (qe\<lparr>qe_first_locked := False, qe_second_locked := False\<rparr>)"
    using unlocked_ok [OF qe_ok_view [OF f2(2) assms(4)]] .
  show "\<exists>r. queue_element_unlock f1 qe = Inr r \<and> wake_post first f hs r"
    using f2 st ok unlocked_holds [of qe] by (simp add: wake_post_def)
  show "\<exists>r. bind_res (queue_element_unlock f1 qe) (finish_element err) = Inr r \<and> wake_post first f hs r"
    using f2 st ok unlocked_holds [of qe] by (simp add: wake_post_def finish_element_def)
qed

lemma queue_element_wakeup_law:
  assumes inv: "lock_inv f (qe_holds qe @ hs)" "room2 hs" and ok: "qe_ok f qe"
  shows "\<exists>r. queue_element_wakeup first f qe = Inr r \<and> wake_post first f hs r"
proof (cases "qe_wants1 qe")
  case False
  then obtain n d where n: "fn_heap f n = Some d" "nd_nodeid d = qe_nodeid1 qe" and u: "qe_holds qe = []"
    using ok by (auto simp: qe_ok_def qe_holds_def first_hold_def second_hold_def split: if_splits)
  have "get_node f (qe_nodeid1 qe) = Inr n" using get_node_ok(2) [of f "{}" n d] n inv(1) by (simp add: lock_inv_def)
  then have "queue_element_wakeup first f qe = Inr (if nd_treelock d = 0 then qe\<lparr>qe_signal := True\<rparr> else qe, f)"
    using False n(1) by (simp add: queue_element_wakeup_def node_def)
  then show ?thesis using u inv(1) ok by (simp add: wake_post_def)
next
  case True
  obtain e1 q1 f1 where w1: "wake_first f qe = Inr (e1, q1, f1)" "same_tree f f1" "lock_inv f1 (qe_holds q1 @ hs)" "qe_ok f1 q1"
    "qe_wants1 q1" "(e1 = 0) = qe_first_locked q1"
    using wake_first_law [OF inv ok True] by blast
  obtain e2 q2 f2 where w2: "wake_second f1 q1 = Inr (e2, q2, f2)" "same_tree f1 f2" "lock_inv f2 (qe_holds q2 @ hs)" "qe_ok f2 q2"
    "qe_wants1 q2" "qe_first_locked q2 = qe_first_locked q1"
    using wake_second_law [OF w1(3) inv(2) w1(4,5)] by blast
  have st: "same_tree f f2" using w1(2) w2(2) by (rule same_tree_trans)
  note fail1 = wake_fail [OF w1(2,3) inv(2) w1(4)] and fail2 = wake_fail [OF st w2(3) inv(2) w2(4)]
  have eq: "queue_element_wakeup first f qe =
    (if e1 \<noteq> 0 \<and> e1 \<noteq> - EAGAIN then bind_res (queue_element_unlock f1 q1) (finish_element e1)
     else if e2 \<noteq> 0 \<and> e2 \<noteq> - EAGAIN then bind_res (queue_element_unlock f2 q2) (finish_element e2)
     else if qe_first_locked q2 \<and> (qe_second_locked q2 \<or> \<not> qe_wants2 q2) then finish_element 0 (q2, f2)
     else if \<not> first then queue_element_unlock f2 q2 else Inr (q2, f2))"
    using True w1(1) w2(1) by (simp add: queue_element_wakeup_def)
  have "wake_post first f hs (q2\<lparr>qe_err := 0, qe_done := True, qe_signal := True\<rparr>, f2)"
    if "qe_first_locked q2 \<and> (qe_second_locked q2 \<or> \<not> qe_wants2 q2)"
    using st w2(3,4) that by (auto simp: wake_post_def served_def)
  moreover have "wake_post True f hs (q2, f2)" using st w2(3,4) by (simp add: wake_post_def)
  ultimately show ?thesis
    unfolding eq using fail1(2) fail2 by (auto simp: finish_element_def split: if_splits)
qed

lemma wake_loop_law:
  assumes "lock_inv f (concat (map qe_holds q) @ hs)" "int (length hs + 2 * length q) + 3 < INT_MAX" "\<forall>qe \<in> set q. qe_ok f qe"
  shows "\<exists>q' f'. wake_loop first f q = Inr (q', f') \<and> same_tree f f' \<and> lock_inv f' (concat (map qe_holds q') @ hs) \<and> length q' = length q \<and>
    (\<forall>qe \<in> set q'. qe_ok f' qe) \<and> (\<forall>qe \<in> set (if first then tl q' else q'). qe_holds qe = [] \<or> served qe)"
  using assms
proof (induction q arbitrary: f hs first)
  case Nil
  then show ?case by simp
next
  case (Cons qe q)
  have rm: "room2 (concat (map qe_holds q) @ hs)" using Cons.prems(2) length_holds [of q] by (simp add: room2_def)
  obtain qe' f1 where w: "queue_element_wakeup first f qe = Inr (qe', f1)" "wake_post first f (concat (map qe_holds q) @ hs) (qe', f1)"
    using queue_element_wakeup_law [of f qe "concat (map qe_holds q) @ hs" first] Cons.prems(1,3) rm by auto
  then have p: "same_tree f f1" "lock_inv f1 (qe_holds qe' @ concat (map qe_holds q) @ hs)" "qe_ok f1 qe'" "first \<or> qe_holds qe' = [] \<or> served qe'"
    by (auto simp: wake_post_def)
  have inv1: "lock_inv f1 (concat (map qe_holds q) @ (qe_holds qe' @ hs))" by (rule lock_inv_perm [OF _ p(2)]) simp
  have bound: "int (length (qe_holds qe' @ hs) + 2 * length q) + 3 < INT_MAX" using Cons.prems(2) length_qe_holds [of qe'] by simp
  have "\<forall>e \<in> set q. qe_ok f1 e" using Cons.prems(3) qe_ok_view [OF p(1)] by simp
  from Cons.IH [OF inv1 bound this, of False]
  obtain q' f2 where q': "wake_loop False f1 q = Inr (q', f2)" "same_tree f1 f2" "lock_inv f2 (concat (map qe_holds q') @ (qe_holds qe' @ hs))"
    "length q' = length q" "\<forall>e \<in> set q'. qe_ok f2 e" "\<forall>e \<in> set q'. qe_holds e = [] \<or> served e"
    by auto
  have "lock_inv f2 (concat (map qe_holds (qe' # q')) @ hs)" by (rule lock_inv_perm [OF _ q'(3)]) simp
  moreover have "same_tree f f2" using p(1) q'(2) by (rule same_tree_trans)
  moreover have "qe_ok f2 qe'" using qe_ok_view [OF q'(2) p(3)] .
  ultimately show ?case using w(1) q' p(4) by auto
qed

end
