(* ===== verification/Node_Calls.thy ===== *)
theory Node_Calls
  imports Node_Ops
begin

text \<open>
  The calls on nodes that the requests of the kernel make: looking a name up, forgetting, removing
  and renaming. Each returns, and keeps the invariant, as long as the kernel follows the protocol.
\<close>

section \<open>Finding and making a node\<close>

lemma get_node_table:
  assumes "table_inv (raw_id (fn_heap f)) k (fn_ids f)" "members (fn_ids f) \<subseteq> dom (fn_heap f)" "ids_distinct (fn_heap f)"
    "q \<in> members (fn_ids f)" "fn_heap f q = Some qd"
  shows "get_node f (nd_nodeid qd) = Inr q"
proof (rule get_node_nocheck_cases [OF assms(1,2), of "nd_nodeid qd"])
  fix m e
  assume "get_node_nocheck f (nd_nodeid qd) = Inr (Some m)" "fn_heap f m = Some e" "nd_nodeid e = nd_nodeid qd"
  then show ?thesis using assms(3,5) unfolding ids_distinct_def get_node_def by (metis bind_res_simps(2) the_res_simps(2))
next
  assume "\<And>m e. m \<in> members (fn_ids f) \<Longrightarrow> fn_heap f m = Some e \<Longrightarrow> nd_nodeid e \<noteq> nd_nodeid qd"
  then show ?thesis using assms(4,5) by blast
qed

lemma hash_name_keeps_ids:
  assumes "hash_name f n p name = Inr (e, f')" shows "fn_ids f' = fn_ids f"
proof -
  have "hash_name f n p name = bind_res (hash_name f n p name) (\<lambda>(e, f'). Inr (e, f'\<lparr>fn_ids := fn_ids f\<rparr>))"
    using hash_name_ids [where f = f and t = "fn_ids f" and p = p and n = n and name = name] by simp
  then have "f' = f'\<lparr>fn_ids := fn_ids f\<rparr>" using assms by simp
  then show ?thesis by (metis fuse_nodes.select_convs(3) fuse_nodes.surjective fuse_nodes.update_convs(3))
qed

definition new_entry :: "fuse_nodes \<Rightarrow> nat \<Rightarrow> string \<Rightarrow> nat \<Rightarrow> fnode \<Rightarrow> bool" where
  "new_entry f q name n d \<longleftrightarrow> fn_heap f n = None \<and> unused f (nd_nodeid d) \<and> nd_name d = Some name \<and> nd_parent d = Some q \<and>
     nd_nlookup d = (if conf_remember f \<noteq> 0 then 1 else 0) \<and> nd_treelock d = 0 \<and> nd_open_count d = 0"

text \<open>
  The call of \<^verbatim>\<open>hash_name\<close> for a node that is not yet in the table of numbers: the same as if it were.
\<close>

lemma hash_fresh:
  assumes ok: "nodes_ok f" and n: "fn_heap f n = None" and i: "unused f i"
    and f3: "f3 = f\<lparr>fn_heap := (fn_heap f)(n \<mapsto> fresh_node f i g), fn_mem := m, fn_ctr := i, fn_generation := g\<rparr>"
    and T: "nodes_ok (f3\<lparr>fn_ids := T\<rparr>)" and tb: "table_inv (raw_id (fn_heap f3)) 0 (fn_ids f)"
    and q: "fn_heap f q = Some qd" and room: "in_int (nd_refctr qd + 1)"
    and fresh: "\<And>m. m \<in> named (fn_heap f) {} \<Longrightarrow> node_key (fn_heap f) m \<noteq> Some (nd_nodeid qd, name)"
  shows "\<exists>err f4. hash_name f3 n (nd_nodeid qd) name = Inr (err, f4) \<and> nodes_ok (f4\<lparr>fn_ids := T\<rparr>) \<and>
    fn_ids f4 = fn_ids f \<and> fn_lru f4 = fn_lru f \<and> fn_mem f4 = m \<and>
    (err = 0 \<and> fn_heap f4 = (fn_heap f3)(q \<mapsto> bump qd, n \<mapsto> (fresh_node f i g)\<lparr>nd_name := Some name, nd_parent := Some q\<rparr>) \<or>
     err = -1 \<and> fn_heap f4 = fn_heap f3 \<and> fn_names f4 = fn_names f)"
proof -
  let ?V = "f3\<lparr>fn_ids := T\<rparr>"
  let ?d = "fresh_node f i g"
  have t: "members (fn_ids f) = dom (fn_heap f)" "links_ok (fn_heap f) {}" "tree_inv f {}"
    using ok by (simp_all add: nodes_ok_def tree_defs)
  have qn: "q \<noteq> n" using q n by auto
  have h3: "fn_heap f3 = (fn_heap f)(n \<mapsto> ?d)" by (simp add: f3)
  have q3: "fn_heap f3 q = Some qd" using q qn by (simp add: h3)
  have tV: "tree_inv ?V {}" "ids_distinct (fn_heap f3)" using T by (simp_all add: nodes_ok_def tree_inv_def)
  note ah = add_heap [OF n _ t(2) h3]
  have ids3: "fn_ids f3 = fn_ids f" by (simp add: f3)
  have sub: "members (fn_ids f3) \<subseteq> dom (fn_heap f3)" using t(1) by (auto simp: ids3 h3)
  have "q \<in> members (fn_ids f3)" using t(1) q by (auto simp: ids3)
  then have g3: "get_node f3 (nd_nodeid qd) = Inr q"
    using tb sub tV(2) q3 by (intro get_node_table) (simp_all add: ids3)
  have gV: "get_node ?V (nd_nodeid qd) = Inr q" using get_node_ok(2) [OF tV(1)] q3 by simp
  have root: "i \<noteq> FUSE_ROOT_ID"
    using t(1,3) i by (auto simp: tree_inv_def root_ok_def unused_def)
  have "\<exists>err fV. hash_name ?V n (nd_nodeid qd) name = Inr (err, fV) \<and> nodes_ok fV \<and> same_others ?V fV \<and>
    (err = 0 \<and> fn_heap fV = (fn_heap ?V)(q \<mapsto> bump qd, n \<mapsto> ?d\<lparr>nd_name := Some name, nd_parent := Some q\<rparr>) \<or>
     err = -1 \<and> INLINE_NAME \<le> length name \<and> fn_heap fV = fn_heap ?V \<and> fn_names fV = fn_names ?V)"
    using qn fresh ah(2,5,6) q3 root gV T room by (intro hash_name_ok) (auto simp: h3)
  then obtain err fV where V: "hash_name ?V n (nd_nodeid qd) name = Inr (err, fV)" "nodes_ok fV" "same_others ?V fV"
    "err = 0 \<and> fn_heap fV = (fn_heap f3)(q \<mapsto> bump qd, n \<mapsto> ?d\<lparr>nd_name := Some name, nd_parent := Some q\<rparr>) \<or>
     err = -1 \<and> fn_heap fV = fn_heap f3 \<and> fn_names fV = fn_names f"
    by (auto simp: f3)
  have "hash_name ?V n (nd_nodeid qd) name = bind_res (hash_name f3 n (nd_nodeid qd) name) (\<lambda>(e, f'). Inr (e, f'\<lparr>fn_ids := T\<rparr>))"
    using gV g3 by (intro hash_name_ids) simp
  then have "bind_res (hash_name f3 n (nd_nodeid qd) name) (\<lambda>(e, f'). Inr (e, f'\<lparr>fn_ids := T\<rparr>)) = Inr (err, fV)"
    using V(1) by simp
  then obtain f4 where f4: "hash_name f3 n (nd_nodeid qd) name = Inr (err, f4)" "fV = f4\<lparr>fn_ids := T\<rparr>"
    by (auto simp: bind_res_Inr_iff)
  then have "fn_ids f4 = fn_ids f" using hash_name_keeps_ids by (auto simp: ids3)
  then show ?thesis
    using f4 V(2-4) by (auto simp: same_others_def f3)
qed

lemma new_node_ok:
  assumes ok: "nodes_ok f" and mm: "mmap_fresh (fn_mem f)" and room: "card (dom (fn_heap f)) < 2 ^ 31 - 3"
    and q: "fn_heap f q = Some qd"
    and fresh: "\<And>m. m \<in> named (fn_heap f) {} \<Longrightarrow> node_key (fn_heap f) m \<noteq> Some (nd_nodeid qd, name)"
  shows "\<exists>r f'. new_node f (nd_nodeid qd) name = Inr (r, f') \<and> nodes_ok f' \<and>
    (case r of None \<Rightarrow> fn_heap f' = fn_heap f
     | Some n \<Rightarrow> (\<exists>d. new_entry f q name n d \<and> fn_heap f' = (fn_heap f)(q \<mapsto> bump qd, n \<mapsto> d)))"
proof -
  have t: "mem_ok (fn_mem f)" "allocated (fn_mem f) = dom (fn_heap f)" "members (fn_ids f) = dom (fn_heap f)"
    using ok by (simp_all add: nodes_ok_def tree_defs)
  obtain r m where al: "alloc_node (fn_mem f) = Inr (r, m)" "mem_ok m"
    "case r of None \<Rightarrow> allocated m = allocated (fn_mem f)
     | Some n \<Rightarrow> n \<notin> allocated (fn_mem f) \<and> allocated m = insert n (allocated (fn_mem f))"
    using alloc_node_ok [OF t(1) mm] by blast
  note rem = alloc_node_remember [OF al(1)]
  show ?thesis
  proof (cases r)
    case None
    have "nodes_ok (f\<lparr>fn_mem := m\<rparr>)"
      using al(2,3) None rem t(2) by (intro nodes_ok_same [OF ok]) simp_all
    then show ?thesis using al(1) None by (simp add: new_node_def)
  next
    case (Some n)
    then have n: "n \<notin> allocated (fn_mem f)" "allocated m = insert n (dom (fn_heap f))" using al(3) t(2) by simp_all
    then have hn: "fn_heap f n = None" using t(2) by auto
    obtain i g f3 where st: "unused f i" "nodes_ok (f3\<lparr>fn_ids := table_insert True (raw_id (fn_heap f3)) n (fn_ids f)\<rparr>)"
      "f3 = f\<lparr>fn_heap := (fn_heap f)(n \<mapsto> fresh_node f i g), fn_mem := m, fn_ctr := i, fn_generation := g\<rparr>"
      "table_inv (raw_id (fn_heap f3)) 0 (fn_ids f)"
      "new_node f (nd_nodeid qd) name = bind_res (hash_name f3 n (nd_nodeid qd) name) (\<lambda>(err, f4).
         if err = -1 then bind_res (free_node f4 n) (\<lambda>f5. Inr (None, f5)) else bind_res (hash_id f4 n) (\<lambda>f5. Inr (Some n, f5)))"
      using new_node_start [OF ok al(1) [unfolded Some] n(1) al(2) _ room, of "nd_nodeid qd" name] n(2) t(2) by auto
    let ?d = "(fresh_node f i g)\<lparr>nd_name := Some name, nd_parent := Some q\<rparr>"
    have qn: "q \<noteq> n" using q hn by auto
    obtain err f4 where f4: "hash_name f3 n (nd_nodeid qd) name = Inr (err, f4)"
      "nodes_ok (f4\<lparr>fn_ids := table_insert True (raw_id (fn_heap f3)) n (fn_ids f)\<rparr>)"
      "fn_ids f4 = fn_ids f" "fn_lru f4 = fn_lru f" "fn_mem f4 = m"
      "err = 0 \<and> fn_heap f4 = (fn_heap f3)(q \<mapsto> bump qd, n \<mapsto> ?d) \<or> err = -1 \<and> fn_heap f4 = fn_heap f3 \<and> fn_names f4 = fn_names f"
      using hash_fresh [OF ok hn st(1,3,2,4) q refctr_room [OF ok q] fresh] room by auto
    from f4(6) show ?thesis
    proof
      assume h4: "err = -1 \<and> fn_heap f4 = fn_heap f3 \<and> fn_names f4 = fn_names f"
      obtain m' where m': "free_node_mem m n = Inr m'" "mem_ok m'" "allocated m' = dom (fn_heap f)"
        using free_node_mem_ok [OF al(2), of n] n t(2) by auto
      have prev: "(fn_heap f4)(n := None) = fn_heap f" using h4 hn by (auto simp: st(3) fun_eq_iff)
      have "nodes_ok (f4\<lparr>fn_mem := m', fn_heap := (fn_heap f4)(n := None)\<rparr>)"
        using h4 f4(3,4) m' rem free_node_mem_remember [OF m'(1)] prev by (intro nodes_ok_same [OF ok]) simp_all
      then show ?thesis
        using h4 st(5) f4(1,5) m'(1) prev by (simp add: free_node_def)
    next
      assume h4: "err = 0 \<and> fn_heap f4 = (fn_heap f3)(q \<mapsto> bump qd, n \<mapsto> ?d)"
      have "raw_id (fn_heap f4) = raw_id (fn_heap f3)" using h4 q qn by (auto simp: raw_id_def st(3) fun_eq_iff)
      then have tb: "table_inv (raw_id (fn_heap f4)) 0 (fn_ids f4)" using st(4) f4(3) by simp
      have dom4: "dom (fn_heap f4) = insert n (dom (fn_heap f))" using h4 q by (auto simp: st(3))
      then have sub: "members (fn_ids f4) \<subseteq> dom (fn_heap f4)" "n \<notin> members (fn_ids f4)" using t(3) f4(3) hn by auto
      obtain ok' bs where hi: "hash_id f4 n = Inr (f4\<lparr>fn_realloc := bs, fn_ids := table_insert ok' (raw_id (fn_heap f4)) n (fn_ids f4)\<rparr>)"
        using hash_id_ok [OF tb sub(1)] h4 by fastforce
      have "nodes_ok (f4\<lparr>fn_ids := table_insert True (raw_id (fn_heap f3)) n (fn_ids f), fn_ids := table_insert ok' (raw_id (fn_heap f4)) n (fn_ids f4)\<rparr>)"
        using table_insert_inv [OF tb sub(2), of ok'] dom4 t(3) f4(3) by (intro nodes_ok_ids [OF f4(2)]) simp_all
      then have "nodes_ok (f4\<lparr>fn_realloc := bs, fn_ids := table_insert ok' (raw_id (fn_heap f4)) n (fn_ids f4)\<rparr>)"
        by (simp add: nodes_ok_def tree_defs)
      moreover have "fn_heap f4 = (fn_heap f)(q \<mapsto> bump qd, n \<mapsto> ?d)" using h4 qn by (auto simp: st(3) fun_eq_iff)
      moreover have "new_entry f q name n ?d" using hn st(1) by (simp add: new_entry_def)
      ultimately show ?thesis
        using h4 st(5) f4(1) hi by auto
    qed
  qed
qed

lemma inc_nlookup_ok:
  assumes "nodes_ok f" "fn_heap f n = Some d" "nd_nlookup d + 1 \<noteq> 0" "card (dom (fn_heap f)) < 2 ^ 31 - 2"
  shows "\<exists>d'. inc_nlookup f n = Inr (put_node n d' f) \<and> nodes_ok (put_node n d' f) \<and> nd_nlookup d' = nd_nlookup d + 1 \<and>
    d' = d\<lparr>nd_nlookup := nd_nlookup d', nd_refctr := nd_refctr d'\<rparr>"
proof -
  define d' where "d' = (if nd_nlookup d = 0 then d\<lparr>nd_refctr := nd_refctr d + 1\<rparr> else d)\<lparr>nd_nlookup := nd_nlookup d + 1\<rparr>"
  have sel: "nd_nlookup d' = nd_nlookup d + 1" "nd_nodeid d' = nd_nodeid d" "nd_parent d' = nd_parent d" "nd_name d' = nd_name d"
    "nd_refctr d' - held_by_kernel d' = nd_refctr d - held_by_kernel d"
    using assms(3) by (simp_all add: d'_def held_by_kernel_def)
  have "tree_inv (put_node n d' f) {}"
    using assms sel by (intro tree_inv_put [of f "{}" n d]) (simp_all add: nodes_ok_def)
  moreover have "refs_ok ((fn_heap f)(n \<mapsto> d')) {} {}"
    using assms sel by (intro refs_ok_put [of _ _ "{}" n d]) (simp_all add: nodes_ok_def)
  moreover have "inc_nlookup f n = Inr (put_node n d' f)"
    using assms(2) refctr_room [OF assms(1,2,4)] by (simp add: inc_nlookup_def d'_def)
  ultimately show ?thesis
    using sel(1) by (auto simp: nodes_ok_def d'_def intro!: exI [of _ d'])
qed

lemma nodes_ok_lru:
  assumes "nodes_ok f" shows "nodes_ok (remove_node_lru n f)"
  using assms by (auto simp: nodes_ok_def tree_defs remove_node_lru_def dest: notin_set_remove1 in_set_remove1 [THEN iffD1])

text \<open>
  Looking a name up returns the node that has the place, old or new, with one lookup more, or none
  when there is no memory. No other node changes, but for the count of references of the directory \<open>q\<close>.
\<close>

definition looked_up :: "fuse_nodes \<Rightarrow> nat \<Rightarrow> 64 word \<Rightarrow> string \<Rightarrow> nat \<Rightarrow> fuse_nodes \<Rightarrow> bool" where
  "looked_up f q dir name n f' \<longleftrightarrow> node_key (fn_heap f') n = Some (dir, name) \<and>
     (\<exists>d d'. (fn_heap f n = Some d \<or> new_entry f q name n d) \<and> fn_heap f' n = Some d' \<and> nd_nodeid d' = nd_nodeid d \<and>
        nd_nlookup d' = nd_nlookup d + 1 \<and> nd_nlookup d' \<noteq> 0) \<and>
     (\<forall>m. m \<noteq> n \<longrightarrow> m \<noteq> q \<longrightarrow> fn_heap f' m = fn_heap f m) \<and>
     (\<forall>qd. q \<noteq> n \<longrightarrow> fn_heap f q = Some qd \<longrightarrow> (\<exists>c. fn_heap f' q = Some (qd\<lparr>nd_refctr := c\<rparr>)))"

lemma same_refctr: "\<exists>c. (d :: fnode) = d\<lparr>nd_refctr := c\<rparr>"
  by (rule exI [of _ "nd_refctr d"]) simp

lemma find_old:
  assumes ok: "nodes_ok f" and n: "n \<in> named (fn_heap f) {}" "node_key (fn_heap f) n = Some (dir, name)"
    and few: "\<And>n d. fn_heap f n = Some d \<Longrightarrow> nd_nlookup d + 1 \<noteq> 0" and l: "lookup_node f dir name = Inr (Some n)"
    and room: "card (dom (fn_heap f)) < 2 ^ 31 - 3"
  shows "\<exists>f'. find_node f dir (Some name) = Inr (Some n, f') \<and> nodes_ok f' \<and> looked_up f q dir name n f'"
proof -
  obtain d where d: "fn_heap f n = Some d" using n(1) by (auto simp: named_def parent_rel_def)
  define f1 where "f1 = (if lru_enabled (fn_mem f) \<and> nd_nlookup d = 1 then remove_node_lru n f else f)"
  have f1: "nodes_ok f1" "fn_heap f1 = fn_heap f" using ok nodes_ok_lru by (simp_all add: f1_def remove_node_lru_def)
  obtain d' where d': "inc_nlookup f1 n = Inr (put_node n d' f1)" "nodes_ok (put_node n d' f1)" "nd_nlookup d' = nd_nlookup d + 1"
    "d' = d\<lparr>nd_nlookup := nd_nlookup d', nd_refctr := nd_refctr d'\<rparr>"
    using inc_nlookup_ok [OF f1(1), of n d] f1(2) d few [OF d] room by auto
  have sel: "nd_nodeid d' = nd_nodeid d" "nd_parent d' = nd_parent d" "nd_name d' = nd_name d"
    by (subst d'(4), simp)+
  have "node_key ((fn_heap f)(n \<mapsto> d')) = node_key (fn_heap f)"
    using sel d by (intro same_view(4) view_update) simp_all
  then have "looked_up f q dir name n (put_node n d' f1)"
    using n(2) d d'(3) sel(1) few [OF d] same_refctr by (auto simp: looked_up_def f1(2))
  moreover have "find_node f dir (Some name) = Inr (Some n, put_node n d' f1)"
    using d'(1) d by (simp add: find_node_def l f1_def)
  ultimately show ?thesis using d'(2) by blast
qed

lemma find_new:
  assumes ok: "nodes_ok f" and q: "fn_heap f q = Some qd" and mm: "mmap_fresh (fn_mem f)" and room: "card (dom (fn_heap f)) < 2 ^ 31 - 3"
    and fresh: "\<And>m. m \<in> named (fn_heap f) {} \<Longrightarrow> node_key (fn_heap f) m \<noteq> Some (nd_nodeid qd, name)"
    and l: "lookup_node f (nd_nodeid qd) name = Inr None"
  shows "\<exists>r f'. find_node f (nd_nodeid qd) (Some name) = Inr (r, f') \<and> nodes_ok f' \<and>
    (case r of None \<Rightarrow> fn_heap f' = fn_heap f | Some n \<Rightarrow> looked_up f q (nd_nodeid qd) name n f')"
proof -
  obtain r f1 where f1: "new_node f (nd_nodeid qd) name = Inr (r, f1)" "nodes_ok f1"
    "case r of None \<Rightarrow> fn_heap f1 = fn_heap f
     | Some n \<Rightarrow> (\<exists>d. new_entry f q name n d \<and> fn_heap f1 = (fn_heap f)(q \<mapsto> bump qd, n \<mapsto> d))"
    using new_node_ok [OF ok mm room q fresh] by blast
  show ?thesis
  proof (cases r)
    case None
    then show ?thesis using f1 l by (simp add: find_node_def)
  next
    case (Some n)
    then obtain d where d: "new_entry f q name n d" "fn_heap f1 = (fn_heap f)(q \<mapsto> bump qd, n \<mapsto> d)" using f1(3) by auto
    then have qn: "q \<noteq> n" and few: "nd_nlookup d + 1 \<noteq> 0" using q by (auto simp: new_entry_def)
    have "fn_heap f1 n = Some d" using d(2) by simp
    moreover have "card (dom (fn_heap f1)) \<le> Suc (card (dom (fn_heap f)))"
      using d(2) q ok tree_finite [of f] by (auto simp: insert_absorb card_insert_if nodes_ok_def)
    then have "card (dom (fn_heap f1)) < 2 ^ 31 - 2" using room by simp
    ultimately have "\<exists>d'. inc_nlookup f1 n = Inr (put_node n d' f1) \<and> nodes_ok (put_node n d' f1) \<and> nd_nlookup d' = nd_nlookup d + 1 \<and>
        d' = d\<lparr>nd_nlookup := nd_nlookup d', nd_refctr := nd_refctr d'\<rparr>"
      using inc_nlookup_ok [OF f1(2) _ few] by blast
    then
    obtain d' where d': "inc_nlookup f1 n = Inr (put_node n d' f1)" "nodes_ok (put_node n d' f1)" "nd_nlookup d' = nd_nlookup d + 1"
      "d' = d\<lparr>nd_nlookup := nd_nlookup d', nd_refctr := nd_refctr d'\<rparr>"
      by blast
    have sel: "nd_nodeid d' = nd_nodeid d" "nd_parent d' = Some q" "nd_name d' = Some name"
      using d(1) by (subst d'(4), simp add: new_entry_def)+
    have "node_key (fn_heap (put_node n d' f1)) n = Some (nd_nodeid qd, name)"
      using sel qn d(2) by (simp add: node_key_def)
    then have "looked_up f q (nd_nodeid qd) name n (put_node n d' f1)"
      using d d'(3) sel(1) few q by (auto simp: looked_up_def bump_def)
    moreover have "find_node f (nd_nodeid qd) (Some name) = Inr (Some n, put_node n d' f1)"
      using d'(1) f1(1) Some by (simp add: find_node_def l)
    ultimately show ?thesis using d'(2) by (intro exI [of _ "Some n"] exI [of _ "put_node n d' f1"]) simp
  qed
qed

lemma find_node_ok:
  assumes ok: "nodes_ok f" and q: "fn_heap f q = Some qd" and mm: "mmap_fresh (fn_mem f)" and room: "card (dom (fn_heap f)) < 2 ^ 31 - 3"
    and few: "\<And>n d. fn_heap f n = Some d \<Longrightarrow> nd_nlookup d + 1 \<noteq> 0"
  shows "\<exists>r f'. find_node f (nd_nodeid qd) (Some name) = Inr (r, f') \<and> nodes_ok f' \<and>
    (case r of None \<Rightarrow> fn_heap f' = fn_heap f | Some n \<Rightarrow> looked_up f q (nd_nodeid qd) name n f')"
proof -
  have t: "tree_inv f {}" using ok by (simp add: nodes_ok_def)
  obtain r where r: "lookup_node f (nd_nodeid qd) name = Inr r"
    "case r of None \<Rightarrow> (\<forall>n \<in> named (fn_heap f) {}. node_key (fn_heap f) n \<noteq> Some (nd_nodeid qd, name))
     | Some n \<Rightarrow> n \<in> named (fn_heap f) {} \<and> node_key (fn_heap f) n = Some (nd_nodeid qd, name)"
    using lookup_node_ok [OF t] by blast
  show ?thesis
  proof (cases r)
    case None
    then show ?thesis using find_new [OF ok q mm room] r by simp
  next
    case (Some n)
    then show ?thesis using find_old [OF ok _ _ few _ room] r by force
  qed
qed

text \<open>
  No node is returned exactly when none is there and none can be made: the allocator has no slot, or
  a name too long for the node cannot be copied.
\<close>

definition no_memory :: "fuse_nodes \<Rightarrow> string \<Rightarrow> bool" where
  "no_memory f name \<longleftrightarrow> (\<exists>m. alloc_node (fn_mem f) = Inr (None, m)) \<or> INLINE_NAME \<le> length name \<and> \<not> fst (next_ok f)"

lemma hash_name_err:
  assumes "hash_name f n p name = Inr (err, f')"
  shows "err = -1 \<longleftrightarrow> INLINE_NAME \<le> length name \<and> \<not> fst (next_ok f)"
  using assms by (auto simp: hash_name_def Let_def bind_res_Inr_iff split_beta split: if_splits)

lemma new_node_none:
  assumes ok: "nodes_ok f" and mm: "mmap_fresh (fn_mem f)" and room: "card (dom (fn_heap f)) < 2 ^ 31 - 3"
    and new: "new_node f parent name = Inr (r, f')"
  shows "r = None \<longleftrightarrow> no_memory f name"
proof -
  have t: "mem_ok (fn_mem f)" using ok by (simp add: nodes_ok_def tree_defs)
  obtain a m where al: "alloc_node (fn_mem f) = Inr (a, m)" "mem_ok m"
    "case a of None \<Rightarrow> allocated m = allocated (fn_mem f)
     | Some n \<Rightarrow> n \<notin> allocated (fn_mem f) \<and> allocated m = insert n (allocated (fn_mem f))"
    using alloc_node_ok [OF t mm] by blast
  show ?thesis
  proof (cases a)
    case None
    then show ?thesis using new al(1) by (auto simp: new_node_def no_memory_def)
  next
    case (Some n)
    then obtain i g f3 where st: "f3 = f\<lparr>fn_heap := (fn_heap f)(n \<mapsto> fresh_node f i g), fn_mem := m, fn_ctr := i, fn_generation := g\<rparr>"
      "new_node f parent name = bind_res (hash_name f3 n parent name) (\<lambda>(err, f4).
         if err = -1 then bind_res (free_node f4 n) (\<lambda>f5. Inr (None, f5)) else bind_res (hash_id f4 n) (\<lambda>f5. Inr (Some n, f5)))"
      using new_node_start [OF ok al(1) [unfolded Some] _ al(2) _ room, of parent name] al(3) by auto
    then obtain err f4 where f4: "hash_name f3 n parent name = Inr (err, f4)" "r = None \<longleftrightarrow> err = -1"
    proof -
      have "\<exists>err f4. hash_name f3 n parent name = Inr (err, f4) \<and> (r = None \<longleftrightarrow> err = -1)"
        using new unfolding st(2) bind_res_Inr_iff by (force simp: bind_res_Inr_iff split: if_splits)
      then show thesis using that by blast
    qed
    moreover have "fst (next_ok f3) = fst (next_ok f)" by (simp add: st(1) next_ok_def split: list.split)
    ultimately show ?thesis using hash_name_err [OF f4(1)] al(1) Some by (simp add: no_memory_def)
  qed
qed

section \<open>Forgetting\<close>

lemma unref_ok:
  assumes "tree_inv f {}" "refs_ok (fn_heap f) {} {n}" "fn_heap f n = Some d" "may_drop (fn_heap f) n"
  shows "\<exists>f'. unref_node f n = Inr f' \<and> nodes_ok f' \<and> frame {} (fn_heap f) (fn_heap f')"
  using assms unref_good_all [of "Suc (names_count f)"] unfolding unref_good_def unref_pre_def unref_post_def nodes_ok_def
  by (metis below_def domI empty_iff lessI)

lemma unhash_ok:
  assumes "nodes_ok f" "fn_heap f n = Some d" "nd_nodeid d \<noteq> FUSE_ROOT_ID" "\<And>p. nd_parent d = Some p \<Longrightarrow> may_drop (fn_heap f) p"
  shows "\<exists>f'. unhash_name f n = Inr f' \<and> nodes_ok f' \<and> fn_heap f' n = Some (detach d) \<and> frame {} (fn_heap f) ((fn_heap f')(n \<mapsto> d))"
  using unhash_step [OF unref_good_all, of f "{}" n d] assms by (auto simp: nodes_ok_def below_def)

lemma drop_lookups:
  assumes "nodes_ok f" "fn_heap f n = Some d" "nd_nodeid d \<noteq> FUSE_ROOT_ID" "nd_nlookup d \<noteq> 0"
  shows "tree_inv (put_node n (d\<lparr>nd_nlookup := c\<rparr>) f) {}"
    "refs_ok ((fn_heap f)(n \<mapsto> d\<lparr>nd_nlookup := c\<rparr>)) {} (if c = 0 then {n} else {})"
proof -
  show "tree_inv (put_node n (d\<lparr>nd_nlookup := c\<rparr>) f) {}"
    using assms by (intro tree_inv_put [of f "{}" n d]) (simp_all add: nodes_ok_def)
  show "refs_ok ((fn_heap f)(n \<mapsto> d\<lparr>nd_nlookup := c\<rparr>)) {} (if c = 0 then {n} else {})"
    using assms by (intro refs_ok_put [of _ _ "{}" n d]) (simp_all add: nodes_ok_def held_by_kernel_def)
qed

lemma set_forget_time_ok:
  assumes ok: "nodes_ok f" and n: "fn_heap f n = Some d" and lru: "lru_enabled (fn_mem f)" and clock: "fn_clock f = now # ts"
  shows "\<exists>f'. set_forget_time f n = Inr f' \<and> nodes_ok f' \<and> fn_heap f' = (fn_heap f)(n \<mapsto> d\<lparr>nd_forget_time := now\<rparr>)"
proof -
  let ?f1 = "f\<lparr>fn_lru := remove1 n (fn_lru f) @ [n], fn_clock := ts\<rparr>"
  let ?d = "d\<lparr>nd_forget_time := now\<rparr>"
  have "set (remove1 n (fn_lru f)) = set (fn_lru f) - {n}" using ok by (simp add: nodes_ok_def tree_defs set_remove1_eq)
  then have t: "tree_inv ?f1 {}" using ok n lru by (auto simp: nodes_ok_def tree_defs)
  have "nd_nodeid d = FUSE_ROOT_ID \<longrightarrow> nd_nlookup d \<noteq> 0" using root_kept [of f "{}" n d] ok n by (simp add: nodes_ok_def)
  then have "tree_inv (put_node n ?d ?f1) {}"
    using t n by (intro tree_inv_put [of _ _ n d]) simp_all
  moreover have "refs_ok ((fn_heap f)(n \<mapsto> ?d)) {} {}"
    using ok n by (intro refs_ok_put [of _ _ "{}" n d]) (simp_all add: nodes_ok_def held_by_kernel_def)
  ultimately have "nodes_ok (put_node n ?d ?f1)" by (simp add: nodes_ok_def)
  moreover have "set_forget_time f n = Inr (put_node n ?d ?f1)"
    using n clock by (simp add: set_forget_time_def curr_time_def)
  ultimately show ?thesis by (auto simp: fun_eq_iff)
qed

text \<open>
  Forgetting takes lookups away; a node with none left goes when it has no children, and so do its
  ancestors. What the kernel still holds stays.
\<close>

definition kept :: "fnode \<Rightarrow> fnode \<Rightarrow> bool" where
  "kept e e' \<longleftrightarrow> nd_nodeid e' = nd_nodeid e \<and> nd_parent e' = nd_parent e \<and> nd_name e' = nd_name e \<and> nd_nlookup e' = nd_nlookup e"

lemma forget_last:
  assumes ok: "nodes_ok f" and n: "fn_heap f n = Some d" "nd_nodeid d \<noteq> FUSE_ROOT_ID" "nd_nlookup d \<noteq> 0"
    and free: "lock_free (fn_heap f)" "nd_treelock d = 0"
  shows "\<exists>f'. unref_node (put_node n (d\<lparr>nd_nlookup := 0\<rparr>) f) n = Inr f' \<and> nodes_ok f' \<and>
    (\<forall>m e. fn_heap f m = Some e \<longrightarrow> m \<noteq> n \<longrightarrow> nd_nlookup e \<noteq> 0 \<longrightarrow> (\<exists>e'. fn_heap f' m = Some e' \<and> kept e e'))"
proof -
  let ?d = "d\<lparr>nd_nlookup := 0\<rparr>"
  let ?f1 = "put_node n ?d f"
  note dl = drop_lookups [OF ok n, of 0]
  have "lock_free (fn_heap ?f1)" using free by (auto simp: lock_free_def)
  then have "may_drop (fn_heap ?f1) n" by (simp add: may_drop_def)
  then obtain f' where f': "unref_node ?f1 n = Inr f'" "nodes_ok f'" "frame {} (fn_heap ?f1) (fn_heap f')"
    using unref_ok [OF dl(1), of n ?d] dl(2) by auto
  have "\<exists>e'. fn_heap f' m = Some e' \<and> kept e e'" if m: "fn_heap f m = Some e" "m \<noteq> n" "nd_nlookup e \<noteq> 0" for m e
  proof -
    have 1: "fn_heap ?f1 m = Some e" using m by simp
    then obtain e' where e': "fn_heap f' m = Some e'" using f'(3) m(3) unfolding frame_def by blast
    then show ?thesis using frameD [OF f'(3) e'] 1 same_but_refsD by (auto simp: kept_def)
  qed
  then show ?thesis using f'(1,2) by blast
qed

lemma forget_node_ok:
  assumes ok: "nodes_ok f" and n: "fn_heap f n = Some d" "k \<le> nd_nlookup d" "k \<noteq> 0" and free: "lock_free (fn_heap f)"
    "nd_nlookup d = k \<Longrightarrow> nd_treelock d = 0" and clock: "lru_enabled (fn_mem f) \<Longrightarrow> fn_clock f \<noteq> []"
  shows "\<exists>f'. forget_node f (nd_nodeid d) k = Inr f' \<and> nodes_ok f' \<and>
    (\<forall>m e. fn_heap f m = Some e \<longrightarrow> m \<noteq> n \<longrightarrow> nd_nlookup e \<noteq> 0 \<longrightarrow> (\<exists>e'. fn_heap f' m = Some e' \<and> kept e e'))"
proof (cases "nd_nodeid d = FUSE_ROOT_ID")
  case True
  then show ?thesis using ok by (auto simp: forget_node_def kept_def)
next
  case False
  have t: "tree_inv f {}" using ok by (simp add: nodes_ok_def)
  have nz: "nd_nlookup d \<noteq> 0" using n(2,3) by auto
  let ?c = "nd_nlookup d - k"
  let ?f1 = "put_node n (d\<lparr>nd_nlookup := ?c\<rparr>) f"
  have e: "forget_node f (nd_nodeid d) k =
      (if ?c = 0 then unref_node ?f1 n
       else if lru_enabled (fn_mem ?f1) \<and> ?c = 1 then set_forget_time ?f1 n else Inr ?f1)"
    using False n free(2) get_node_ok(2) [OF t n(1)] by (simp add: forget_node_def Let_def)
  show ?thesis
  proof (cases "?c = 0")
    case True
    then show ?thesis using e forget_last [OF ok n(1) False nz free(1)] free(2) by simp
  next
    case c: False
    then have ok1: "nodes_ok ?f1" using drop_lookups [OF ok n(1) False nz, of ?c] by (simp add: nodes_ok_def)
    have rest: "\<exists>e'. fn_heap ?f1 m = Some e' \<and> kept x e'" if "fn_heap f m = Some x" "m \<noteq> n" for m x
      using that by (simp add: kept_def)
    show ?thesis
    proof (cases "lru_enabled (fn_mem ?f1) \<and> ?c = 1")
      case True
      then obtain now ts where "fn_clock ?f1 = now # ts" using clock by (cases "fn_clock f") auto
      then obtain f' where "set_forget_time ?f1 n = Inr f'" "nodes_ok f'"
        "fn_heap f' = (fn_heap ?f1)(n \<mapsto> d\<lparr>nd_nlookup := ?c, nd_forget_time := now\<rparr>)"
        using set_forget_time_ok [OF ok1, of n "d\<lparr>nd_nlookup := ?c\<rparr>"] True by auto
      then show ?thesis using e c True rest by auto
    next
      case False
      then show ?thesis using e c ok1 rest by auto
    qed
  qed
qed

section \<open>Removing and renaming\<close>

text \<open>
  When a name goes and the kernel holds the directory, no node goes: the tree only loses the place
  of one node.
\<close>

definition less_tree :: "(nat \<Rightarrow> fnode option) \<Rightarrow> (nat \<Rightarrow> fnode option) \<Rightarrow> bool" where
  "less_tree h h' \<longleftrightarrow> dom h' = dom h \<and> parent_rel h' \<subseteq> parent_rel h \<and> (\<forall>m \<in> named h' {}. node_key h' m = node_key h m) \<and>
     (\<forall>x e. h x = Some e \<longrightarrow> (\<exists>e'. h' x = Some e' \<and> nd_nodeid e' = nd_nodeid e \<and> (nd_nlookup e \<noteq> 0 \<longrightarrow> nd_nlookup e' \<noteq> 0)))"

lemma less_tree_refl: "less_tree h h"
  by (auto simp: less_tree_def)

lemma named_mono: "parent_rel h' \<subseteq> parent_rel h \<Longrightarrow> named h' {} \<subseteq> named h {}"
  by (auto simp: named_def)

lemma less_tree_trans:
  assumes "less_tree h h1" "less_tree h1 h2" shows "less_tree h h2"
proof -
  have "named h2 {} \<subseteq> named h1 {}" using assms(2) by (intro named_mono) (simp add: less_tree_def)
  then have "node_key h2 m = node_key h m" if "m \<in> named h2 {}" for m
    using assms that unfolding less_tree_def by (metis subsetD)
  moreover have "\<exists>e'. h2 x = Some e' \<and> nd_nodeid e' = nd_nodeid e \<and> (nd_nlookup e \<noteq> 0 \<longrightarrow> nd_nlookup e' \<noteq> 0)" if "h x = Some e" for x e
    using assms that unfolding less_tree_def by metis
  ultimately show ?thesis using assms by (auto simp: less_tree_def)
qed

lemma less_tree_view:
  assumes "tree_view h' = tree_view h" "\<And>x e. h x = Some e \<Longrightarrow> \<exists>e'. h' x = Some e' \<and> nd_nodeid e' = nd_nodeid e \<and> (nd_nlookup e \<noteq> 0 \<longrightarrow> nd_nlookup e' \<noteq> 0)"
  shows "less_tree h h'"
  using assms(2) by (simp add: less_tree_def same_view [OF assms(1)])

lemma less_tree_detach: "h n = Some d \<Longrightarrow> less_tree h (h(n \<mapsto> detach d))"
proof -
  assume n: "h n = Some d"
  note dh = detach_heap [where h = h and n = n and d = d, OF n refl]
  have "node_key (h(n \<mapsto> detach d)) m = node_key h m" if "m \<in> named (h(n \<mapsto> detach d)) {}" for m
  proof -
    have "m \<noteq> n" using that unfolding dh(4) by (simp add: named_def)
    then show ?thesis by (rule dh(6))
  qed
  moreover have "parent_rel (h(n \<mapsto> detach d)) \<subseteq> parent_rel h" unfolding dh(2) by auto
  ultimately show ?thesis unfolding less_tree_def dh(1) using n by (auto simp: detach_def)
qed

definition drop_ref :: "fnode \<Rightarrow> fnode" where
  "drop_ref d = d\<lparr>nd_refctr := nd_refctr d - 1\<rparr>"

lemma drop_ref_simps [simp]:
  "nd_nodeid (drop_ref d) = nd_nodeid d" "nd_parent (drop_ref d) = nd_parent d" "nd_name (drop_ref d) = nd_name d"
  "nd_nlookup (drop_ref d) = nd_nlookup d"
  by (simp_all add: drop_ref_def)

lemma unhash_held:
  assumes ok: "nodes_ok f" and n: "fn_heap f n = Some d" "nd_parent d = Some p" and p: "fn_heap f p = Some pd" "nd_nlookup pd \<noteq> 0"
  shows "\<exists>f'. unhash_name f n = Inr f' \<and> nodes_ok f' \<and> fn_heap f' = (fn_heap f)(p \<mapsto> drop_ref pd, n \<mapsto> detach d)"
proof -
  have t: "tree_inv f {}" "acyclic (parent_rel (fn_heap f))" "links_ok (fn_heap f) {}" using ok by (simp_all add: nodes_ok_def tree_inv_def)
  have rel: "(n, p) \<in> parent_rel (fn_heap f)" using n by (rule parent_relI)
  have pn: "p \<noteq> n" using t(2) rel by (auto simp: acyclic_def)
  have lk: "link_ok (fn_heap f) d" using t(3) n(1) by (auto simp: links_ok_def)
  then obtain name where nm: "nd_name d = Some name" "nd_nodeid d \<noteq> FUSE_ROOT_ID" using n(2) by (auto simp: link_ok_def)
  obtain f' where f': "unhash_name f n = Inr f'" "nodes_ok f'"
    using unhash_ok [OF ok n(1) nm(2)] n(2) p by (auto simp: may_drop_def)
  obtain u where u: "table_unlink (raw_name (fn_heap f)) n (fn_names f) = Some u"
    using unlink_names(1) [OF t(1) _ rel] by auto
  have "finite (children (fn_heap f) {} p)" by (rule finite_subset [OF children_dom tree_finite [OF t(1)]])
  moreover have "n \<in> children (fn_heap f) {} p" using rel by (simp add: children_def)
  ultimately have "0 < card (children (fn_heap f) {} p)" by (auto simp: card_gt_0_iff)
  then have "1 < nd_refctr pd" using ok p by (auto simp: nodes_ok_def refs_ok_def held_by_kernel_def)
  then have ur: "unref_node (f\<lparr>fn_names := u\<rparr>) p = Inr (put_node p (drop_ref pd) (f\<lparr>fn_names := u\<rparr>))"
    using p(1) by (simp add: unref_node.simps [of "f\<lparr>fn_names := u\<rparr>"] drop_ref_def guard_res_def)
  let ?f2 = "put_node n (detach d) (put_node p (drop_ref pd) (f\<lparr>fn_names := u\<rparr>))"
  obtain ok' bs where nx: "next_ok ?f2 = (ok', ?f2\<lparr>fn_realloc := bs\<rparr>)" by (rule next_ok_cases)
  have "unhash_name f n = Inr (?f2\<lparr>fn_realloc := bs, fn_names := table_release ok' (fn_names ?f2)\<rparr>)"
    using n p nm u ur pn unlink_names(2) [OF t(1) _ rel] nx
    by (simp add: unhash_name.simps [of f] chain_def detach_def [symmetric] Let_def)
  then have "fn_heap f' = (fn_heap f)(p \<mapsto> drop_ref pd, n \<mapsto> detach d)" using f'(1) by simp
  with f' show ?thesis by blast
qed

lemma unhash_less:
  assumes "nodes_ok f" "fn_heap f n = Some d" "nd_parent d = Some p" "fn_heap f p = Some pd" "nd_nlookup pd \<noteq> 0"
  shows "\<exists>f'. unhash_name f n = Inr f' \<and> nodes_ok f' \<and> less_tree (fn_heap f) (fn_heap f') \<and>
    parent_rel (fn_heap f') = {(c, p) \<in> parent_rel (fn_heap f). c \<noteq> n} \<and> fn_heap f' n = Some (detach d)"
proof -
  obtain f' where f': "unhash_name f n = Inr f'" "nodes_ok f'" "fn_heap f' = (fn_heap f)(p \<mapsto> drop_ref pd, n \<mapsto> detach d)"
    using unhash_held [OF assms] by blast
  have "acyclic (parent_rel (fn_heap f))" using assms(1) by (simp add: nodes_ok_def tree_inv_def)
  moreover have "(n, p) \<in> parent_rel (fn_heap f)" using assms(2,3) by (rule parent_relI)
  ultimately have pn: "p \<noteq> n" by (auto simp: acyclic_def)
  let ?h1 = "(fn_heap f)(p \<mapsto> drop_ref pd)"
  have "less_tree (fn_heap f) ?h1"
    using assms(4) by (intro less_tree_view view_update) auto
  moreover have "less_tree ?h1 (?h1(n \<mapsto> detach d))"
    using assms(2) pn by (intro less_tree_detach) simp
  ultimately have "less_tree (fn_heap f) (fn_heap f')" unfolding f'(3) by (rule less_tree_trans)
  moreover have "parent_rel (fn_heap f') = {(c, p) \<in> parent_rel ?h1. c \<noteq> n}"
    using assms(2) pn by (intro detach_heap(2) [of _ _ d]) (simp_all add: f'(3))
  moreover have "parent_rel ?h1 = parent_rel (fn_heap f)"
    using assms(4) by (intro same_view(2) view_update) simp_all
  ultimately show ?thesis using f' by auto
qed

lemma nodes_ok_put:
  assumes "nodes_ok f" "fn_heap f n = Some d" "nd_nodeid d' = nd_nodeid d" "nd_parent d' = nd_parent d" "nd_name d' = nd_name d"
    "nd_refctr d' = nd_refctr d" "nd_nlookup d' = 0 \<longleftrightarrow> nd_nlookup d = 0"
  shows "nodes_ok (put_node n d' f)" "less_tree (fn_heap f) (fn_heap (put_node n d' f))"
proof -
  have "tree_inv (put_node n d' f) {}"
    using assms root_kept [of f "{}" n d] by (intro tree_inv_put [of f "{}" n d]) (auto simp: nodes_ok_def)
  moreover have "refs_ok ((fn_heap f)(n \<mapsto> d')) {} {}"
    using assms by (intro refs_ok_put [of _ _ "{}" n d]) (simp_all add: nodes_ok_def held_by_kernel_def)
  ultimately show "nodes_ok (put_node n d' f)" by (simp add: nodes_ok_def)
  show "less_tree (fn_heap f) (fn_heap (put_node n d' f))"
    unfolding put_node_sel using assms by (intro less_tree_view view_update) auto
qed

lemma named_parent:
  assumes "nodes_ok f" "n \<in> named (fn_heap f) {}" "node_key (fn_heap f) n = Some (nd_nodeid pd, name)" "fn_heap f p = Some pd"
  obtains d where "fn_heap f n = Some d" "nd_parent d = Some p" "nd_nodeid d \<noteq> FUSE_ROOT_ID"
proof -
  have l: "links_ok (fn_heap f) {}" "ids_distinct (fn_heap f)" using assms(1) by (simp_all add: nodes_ok_def tree_inv_def)
  obtain d p' pd' nm where d: "fn_heap f n = Some d" "nd_parent d = Some p'" "fn_heap f p' = Some pd'"
    "node_key (fn_heap f) n = Some (nd_nodeid pd', nm)"
    using named_key [OF l(1) assms(2)] by blast
  then have "p' = p" using assms(3,4) l(2) unfolding ids_distinct_def by auto
  moreover have "link_ok (fn_heap f) d" using l(1) d(1) by (auto simp: links_ok_def)
  ultimately show thesis using that d(1,2) by (auto simp: link_ok_def)
qed

lemma unlink_less:
  assumes ok: "nodes_ok f" and n: "fn_heap f n = Some d" "nd_parent d = Some p" and p: "fn_heap f p = Some pd" "nd_nlookup pd \<noteq> 0"
    and rem: "conf_remember f \<noteq> 0 \<Longrightarrow> 1 < nd_nlookup d"
  shows "\<exists>f'. unlink_node f n = Inr f' \<and> nodes_ok f' \<and> less_tree (fn_heap f) (fn_heap f') \<and>
    parent_rel (fn_heap f') = {(c, p) \<in> parent_rel (fn_heap f). c \<noteq> n} \<and>
    (\<exists>d'. fn_heap f' n = Some d' \<and> nd_parent d' = None \<and> nd_name d' = None)"
proof (cases "conf_remember f = 0")
  case True
  then show ?thesis using unhash_less [OF ok n p] by (auto simp: unlink_node_def detach_def)
next
  case False
  let ?d = "d\<lparr>nd_nlookup := nd_nlookup d - 1\<rparr>"
  let ?f1 = "put_node n ?d f"
  have big: "1 < nd_nlookup d" using False rem by simp
  then have "nd_nlookup d \<noteq> 0" "nd_nlookup d - 1 \<noteq> 0" by auto
  then have f1: "nodes_ok ?f1" "less_tree (fn_heap f) (fn_heap ?f1)" using nodes_ok_put [OF ok n(1), of ?d] by simp_all
  have "acyclic (parent_rel (fn_heap f))" using ok by (simp add: nodes_ok_def tree_inv_def)
  moreover have "(n, p) \<in> parent_rel (fn_heap f)" using n by (rule parent_relI)
  ultimately have pn: "p \<noteq> n" by (auto simp: acyclic_def)
  obtain f' where f': "unhash_name ?f1 n = Inr f'" "nodes_ok f'" "less_tree (fn_heap ?f1) (fn_heap f')"
    "parent_rel (fn_heap f') = {(c, p) \<in> parent_rel (fn_heap ?f1). c \<noteq> n}" "fn_heap f' n = Some (detach ?d)"
    using unhash_less [OF f1(1), of n ?d p pd] n p pn by auto
  have "parent_rel (fn_heap ?f1) = parent_rel (fn_heap f)"
    unfolding put_node_sel using n(1) by (intro same_view(2) view_update) simp_all
  moreover have "unlink_node f n = Inr f'" using False big n(1) f'(1) by (simp add: unlink_node_def)
  ultimately show ?thesis using f' less_tree_trans [OF f1(2) f'(3)] by (auto simp: detach_def)
qed

text \<open>
  With the option \<^verbatim>\<open>remember\<close> every node has one lookup of its own; the kernel removes and replaces only
  nodes that it has looked up too.
\<close>

definition remembered :: "fuse_nodes \<Rightarrow> 64 word \<Rightarrow> string \<Rightarrow> bool" where
  "remembered f dir name \<longleftrightarrow>
     (\<forall>n d. conf_remember f \<noteq> 0 \<longrightarrow> fn_heap f n = Some d \<longrightarrow> node_key (fn_heap f) n = Some (dir, name) \<longrightarrow> 1 < nd_nlookup d)"

text \<open>Removing a name: afterwards nothing has that place, and no node has gone.\<close>

lemma remove_node_ok:
  assumes ok: "nodes_ok f" and q: "fn_heap f q = Some qd" "nd_nlookup qd \<noteq> 0"
    and rem: "remembered f (nd_nodeid qd) name"
  shows "\<exists>f'. remove_node f (nd_nodeid qd) name = Inr f' \<and> nodes_ok f' \<and> less_tree (fn_heap f) (fn_heap f') \<and>
    (\<forall>n \<in> named (fn_heap f') {}. node_key (fn_heap f') n \<noteq> Some (nd_nodeid qd, name))"
proof -
  have t: "tree_inv f {}" "keys_distinct (fn_heap f) (named (fn_heap f) {})" using ok by (simp_all add: nodes_ok_def tree_inv_def)
  obtain r where r: "lookup_node f (nd_nodeid qd) name = Inr r"
    "case r of None \<Rightarrow> (\<forall>n \<in> named (fn_heap f) {}. node_key (fn_heap f) n \<noteq> Some (nd_nodeid qd, name))
     | Some n \<Rightarrow> n \<in> named (fn_heap f) {} \<and> node_key (fn_heap f) n = Some (nd_nodeid qd, name)"
    using lookup_node_ok [OF t(1)] by blast
  show ?thesis
  proof (cases r)
    case None
    then show ?thesis using r ok by (simp add: remove_node_def less_tree_refl)
  next
    case (Some n)
    then have n: "n \<in> named (fn_heap f) {}" "node_key (fn_heap f) n = Some (nd_nodeid qd, name)" using r(2) by simp_all
    obtain d where d: "fn_heap f n = Some d" "nd_parent d = Some q" using named_parent [OF ok n q(1)] .
    obtain f' where f': "unlink_node f n = Inr f'" "nodes_ok f'" "less_tree (fn_heap f) (fn_heap f')" "n \<notin> named (fn_heap f') {}"
      using unlink_less [OF ok d q] rem d(1) n(2) by (auto simp: named_def remembered_def)
    have "node_key (fn_heap f') m \<noteq> Some (nd_nodeid qd, name)" if m: "m \<in> named (fn_heap f') {}" for m
    proof
      assume k: "node_key (fn_heap f') m = Some (nd_nodeid qd, name)"
      have "m \<in> named (fn_heap f) {}" using m f'(3) named_mono by (auto simp: less_tree_def)
      moreover have "node_key (fn_heap f) m = Some (nd_nodeid qd, name)" using m k f'(3) by (simp add: less_tree_def)
      ultimately have "m = n" using n t(2) unfolding keys_distinct_def inj_on_def by metis
      then show False using m f'(4) by simp
    qed
    then show ?thesis using f' r(1) Some by (auto simp: remove_node_def)
  qed
qed

lemma less_treeD:
  assumes "less_tree h h'" "m \<in> named h' {}"
  shows "m \<in> named h {}" "node_key h m = node_key h' m"
  using assms named_mono [of h' h] by (auto simp: less_tree_def)

lemma less_tree_node:
  "less_tree h h' \<Longrightarrow> h x = Some e \<Longrightarrow> \<exists>e'. h' x = Some e' \<and> nd_nodeid e' = nd_nodeid e \<and> (nd_nlookup e \<noteq> 0 \<longrightarrow> nd_nlookup e' \<noteq> 0)"
  by (simp add: less_tree_def)

definition place_free :: "(nat \<Rightarrow> fnode option) \<Rightarrow> 64 word \<Rightarrow> string \<Rightarrow> bool" where
  "place_free h dir name \<longleftrightarrow> (\<forall>x \<in> named h {}. node_key h x \<noteq> Some (dir, name))"

text \<open>The last step of a renaming: the node has no place any more and gets the new one.\<close>

lemma rename_end:
  assumes ok: "nodes_ok f2" and less: "less_tree h (fn_heap f2)" and cyc: "(q2, n) \<notin> (parent_rel h)\<^sup>*"
    and n: "fn_heap f2 n = Some d" "nd_parent d = None" "nd_name d = None" "nd_nodeid d \<noteq> FUSE_ROOT_ID" and q: "h q2 = Some p2"
    and fresh: "place_free (fn_heap f2) (nd_nodeid p2) newname" and room: "card (dom h) < 2 ^ 31 - 2"
  shows "\<exists>err f3. hash_name f2 n (nd_nodeid p2) newname = Inr (err, f3) \<and> nodes_ok f3 \<and>
    (err = 0 \<and> node_key (fn_heap f3) n = Some (nd_nodeid p2, newname) \<or> err = -1 \<and> fn_heap f3 = fn_heap f2)"
proof -
  obtain e where e: "fn_heap f2 q2 = Some e" "nd_nodeid e = nd_nodeid p2" using less_tree_node [OF less q] by blast
  have "(q2, n) \<notin> (parent_rel (fn_heap f2))\<^sup>*"
    using cyc less rtrancl_mono [of "parent_rel (fn_heap f2)" "parent_rel h"] by (auto simp: less_tree_def)
  moreover have "get_node f2 (nd_nodeid e) = Inr q2" using get_node_ok(2) [OF _ e(1)] ok by (auto simp: nodes_ok_def)
  ultimately obtain err f3 where f3: "hash_name f2 n (nd_nodeid p2) newname = Inr (err, f3)" "nodes_ok f3"
    "err = 0 \<and> fn_heap f3 = (fn_heap f2)(q2 \<mapsto> bump e, n \<mapsto> d\<lparr>nd_name := Some newname, nd_parent := Some q2\<rparr>) \<or>
     err = -1 \<and> fn_heap f3 = fn_heap f2"
    using hash_name_ok [OF ok n e(1), of newname] refctr_room [OF ok e(1)] fresh room less
    unfolding e(2) place_free_def less_tree_def by auto
  have "q2 \<noteq> n" using cyc by auto
  then have "node_key (fn_heap f3) n = Some (nd_nodeid p2, newname)" if "err = 0"
    using f3(3) that e(2) by (auto simp: node_key_def)
  then show ?thesis using f3 by blast
qed

text \<open>Freeing the new place and the old one.\<close>

lemma key_gone:
  assumes "keys_distinct h (named h {})" "less_tree h h'" "m \<in> named h {}" "node_key h m = Some k" "m \<notin> named h' {}"
  shows "\<forall>x \<in> named h' {}. node_key h' x \<noteq> Some k"
  using assms less_treeD [OF assms(2)] unfolding keys_distinct_def inj_on_def by metis

lemma key_not_new:
  assumes "less_tree h h'" "\<forall>x \<in> named h {}. node_key h x \<noteq> Some k"
  shows "\<forall>x \<in> named h' {}. node_key h' x \<noteq> Some k"
  using assms less_treeD [OF assms(1)] by metis

lemma free_target:
  assumes ok: "nodes_ok f" and q2: "fn_heap f q2 = Some p2" "nd_nlookup p2 \<noteq> 0"
    and r: "case newr of None \<Rightarrow> place_free (fn_heap f) (nd_nodeid p2) newname
       | Some m \<Rightarrow> m \<in> named (fn_heap f) {} \<and> node_key (fn_heap f) m = Some (nd_nodeid p2, newname)"
    and rem: "remembered f (nd_nodeid p2) newname"
  shows "\<exists>f1. (case newr of None \<Rightarrow> Inr f | Some m \<Rightarrow> unlink_node f m) = Inr f1 \<and> nodes_ok f1 \<and> less_tree (fn_heap f) (fn_heap f1) \<and>
    place_free (fn_heap f1) (nd_nodeid p2) newname \<and>
    (\<forall>c p. (c, p) \<in> parent_rel (fn_heap f) \<longrightarrow> newr \<noteq> Some c \<longrightarrow> (c, p) \<in> parent_rel (fn_heap f1)) \<and>
    (\<forall>m. newr = Some m \<longrightarrow> (\<exists>d'. fn_heap f1 m = Some d' \<and> nd_parent d' = None \<and> nd_name d' = None))"
proof (cases newr)
  case None
  then show ?thesis using ok r by (simp add: less_tree_refl)
next
  case (Some m)
  then have m: "m \<in> named (fn_heap f) {}" "node_key (fn_heap f) m = Some (nd_nodeid p2, newname)" using r by simp_all
  obtain d where d: "fn_heap f m = Some d" "nd_parent d = Some q2" using named_parent [OF ok m q2(1)] .
  obtain f1 where f1: "unlink_node f m = Inr f1" "nodes_ok f1" "less_tree (fn_heap f) (fn_heap f1)"
    "parent_rel (fn_heap f1) = {(c, p) \<in> parent_rel (fn_heap f). c \<noteq> m}" "\<exists>d'. fn_heap f1 m = Some d' \<and> nd_parent d' = None \<and> nd_name d' = None"
    using unlink_less [OF ok d q2] rem d(1) m(2) unfolding remembered_def by blast
  have "keys_distinct (fn_heap f) (named (fn_heap f) {})" using ok by (simp add: nodes_ok_def tree_inv_def)
  then have "place_free (fn_heap f1) (nd_nodeid p2) newname"
    unfolding place_free_def using f1(3) m by (rule key_gone) (simp add: named_def f1(4))
  then show ?thesis using f1 Some by auto
qed

lemma rename_start:
  assumes ok: "nodes_ok f" and q1: "fn_heap f q1 = Some p1" "nd_nlookup p1 \<noteq> 0" and q2: "fn_heap f q2 = Some p2" "nd_nlookup p2 \<noteq> 0"
    and n: "n \<in> named (fn_heap f) {}" "node_key (fn_heap f) n = Some (nd_nodeid p1, oldname)"
    and r: "case newr of None \<Rightarrow> place_free (fn_heap f) (nd_nodeid p2) newname
       | Some m \<Rightarrow> m \<in> named (fn_heap f) {} \<and> node_key (fn_heap f) m = Some (nd_nodeid p2, newname)"
    and rem: "remembered f (nd_nodeid p2) newname"
  shows "\<exists>f1 f2 d. (case newr of None \<Rightarrow> Inr f | Some m \<Rightarrow> unlink_node f m) = Inr f1 \<and> unhash_name f1 n = Inr f2 \<and> nodes_ok f2 \<and>
    less_tree (fn_heap f) (fn_heap f2) \<and> fn_heap f2 n = Some d \<and> nd_parent d = None \<and> nd_name d = None \<and> nd_nodeid d \<noteq> FUSE_ROOT_ID \<and>
    place_free (fn_heap f2) (nd_nodeid p2) newname"
proof -
  obtain d0 where d0: "fn_heap f n = Some d0" "nd_parent d0 = Some q1" "nd_nodeid d0 \<noteq> FUSE_ROOT_ID" using named_parent [OF ok n q1(1)] .
  obtain f1 where f1: "(case newr of None \<Rightarrow> Inr f | Some m \<Rightarrow> unlink_node f m) = Inr f1" "nodes_ok f1" "less_tree (fn_heap f) (fn_heap f1)"
    "place_free (fn_heap f1) (nd_nodeid p2) newname"
    "\<And>c p. (c, p) \<in> parent_rel (fn_heap f) \<Longrightarrow> newr \<noteq> Some c \<Longrightarrow> (c, p) \<in> parent_rel (fn_heap f1)"
    "\<And>m. newr = Some m \<Longrightarrow> \<exists>d'. fn_heap f1 m = Some d' \<and> nd_parent d' = None \<and> nd_name d' = None"
    using free_target [OF ok q2 r rem] by blast
  obtain d1 where d1: "fn_heap f1 n = Some d1" "nd_nodeid d1 \<noteq> FUSE_ROOT_ID" using less_tree_node [OF f1(3) d0(1)] d0(3) by auto
  show ?thesis
  proof (cases "newr = Some n")
    case True
    then have d: "nd_parent d1 = None" "nd_name d1 = None" using f1(6) d1(1) by auto
    then have "unhash_name f1 n = Inr f1" using d1(1) by (simp add: unhash_name.simps)
    then show ?thesis using f1 d d1 by blast
  next
    case False
    have "(n, q1) \<in> parent_rel (fn_heap f)" using d0(1,2) by (rule parent_relI)
    then have "(n, q1) \<in> parent_rel (fn_heap f1)" using f1(5) False by blast
    then have "nd_parent d1 = Some q1" using d1(1) by (auto simp: parent_rel_def)
    moreover obtain p1' where p1': "fn_heap f1 q1 = Some p1'" "nd_nlookup p1' \<noteq> 0" using less_tree_node [OF f1(3) q1(1)] q1(2) by auto
    ultimately obtain f2 where f2: "unhash_name f1 n = Inr f2" "nodes_ok f2" "less_tree (fn_heap f1) (fn_heap f2)"
      "fn_heap f2 n = Some (detach d1)"
      using unhash_less [OF f1(2) d1(1)] by blast
    have "place_free (fn_heap f2) (nd_nodeid p2) newname"
      using key_not_new [OF f2(3)] f1(4) by (simp add: place_free_def)
    then show ?thesis
      using f1(1) f2 less_tree_trans [OF f1(3) f2(3)] d1(2)
      by (intro exI [of _ f1] exI [of _ f2] exI [of _ "detach d1"]) (simp add: detach_def)
  qed
qed

text \<open>
  Renaming: unless there is no memory, the node has its new place afterwards, whoever had it before.
\<close>

lemma rename_node_ok:
  assumes ok: "nodes_ok f" and q1: "fn_heap f q1 = Some p1" "nd_nlookup p1 \<noteq> 0" and q2: "fn_heap f q2 = Some p2" "nd_nlookup p2 \<noteq> 0"
    and cyc: "\<And>n. node_key (fn_heap f) n = Some (nd_nodeid p1, oldname) \<Longrightarrow> (q2, n) \<notin> (parent_rel (fn_heap f))\<^sup>*"
    and rem: "remembered f (nd_nodeid p2) newname" and room: "card (dom (fn_heap f)) < 2 ^ 31 - 2"
  shows "\<exists>err f'. rename_node f (nd_nodeid p1) oldname (nd_nodeid p2) newname hide = Inr (err, f') \<and> nodes_ok f' \<and>
    err \<in> {0, - EBUSY, - ENOMEM} \<and>
    (err = 0 \<longrightarrow> (\<forall>n \<in> named (fn_heap f) {}. node_key (fn_heap f) n = Some (nd_nodeid p1, oldname) \<longrightarrow>
       node_key (fn_heap f') n = Some (nd_nodeid p2, newname)))"
proof -
  have t: "tree_inv f {}" "keys_distinct (fn_heap f) (named (fn_heap f) {})" using ok by (simp_all add: nodes_ok_def tree_inv_def)
  obtain r where r: "lookup_node f (nd_nodeid p1) oldname = Inr r"
    "case r of None \<Rightarrow> (\<forall>n \<in> named (fn_heap f) {}. node_key (fn_heap f) n \<noteq> Some (nd_nodeid p1, oldname))
     | Some n \<Rightarrow> n \<in> named (fn_heap f) {} \<and> node_key (fn_heap f) n = Some (nd_nodeid p1, oldname)"
    using lookup_node_ok [OF t(1)] by blast
  obtain newr where newr: "lookup_node f (nd_nodeid p2) newname = Inr newr"
    "case newr of None \<Rightarrow> place_free (fn_heap f) (nd_nodeid p2) newname
     | Some n \<Rightarrow> n \<in> named (fn_heap f) {} \<and> node_key (fn_heap f) n = Some (nd_nodeid p2, newname)"
    using lookup_node_ok [OF t(1)] unfolding place_free_def by blast
  show ?thesis
  proof (cases r)
    case None
    then show ?thesis using r newr(1) ok by (auto simp: rename_node_def)
  next
    case (Some n)
    then have n: "n \<in> named (fn_heap f) {}" "node_key (fn_heap f) n = Some (nd_nodeid p1, oldname)" using r(2) by simp_all
    have uniq: "m = n" if "m \<in> named (fn_heap f) {}" "node_key (fn_heap f) m = Some (nd_nodeid p1, oldname)" for m
      using that n t(2) unfolding keys_distinct_def inj_on_def by metis
    show ?thesis
    proof (cases "newr \<noteq> None \<and> hide")
      case True
      then show ?thesis using r(1) newr(1) Some ok by (simp add: rename_node_def EBUSY_def)
    next
      case False
      obtain f1 f2 d where f2: "(case newr of None \<Rightarrow> Inr f | Some m \<Rightarrow> unlink_node f m) = Inr f1" "unhash_name f1 n = Inr f2" "nodes_ok f2"
        "less_tree (fn_heap f) (fn_heap f2)" "fn_heap f2 n = Some d" "nd_parent d = None" "nd_name d = None" "nd_nodeid d \<noteq> FUSE_ROOT_ID"
        "place_free (fn_heap f2) (nd_nodeid p2) newname"
        using rename_start [OF ok q1 q2 n newr(2) rem] by blast
      obtain err f3 where f3: "hash_name f2 n (nd_nodeid p2) newname = Inr (err, f3)" "nodes_ok f3"
        "err = 0 \<and> node_key (fn_heap f3) n = Some (nd_nodeid p2, newname) \<or> err = -1 \<and> fn_heap f3 = fn_heap f2"
        using rename_end [OF f2(3,4) cyc [OF n(2)] f2(5-8) q2(1) f2(9) room] by blast
      have e: "rename_node f (nd_nodeid p1) oldname (nd_nodeid p2) newname hide =
          (if err = -1 then Inr (- ENOMEM, f3)
           else if hide then bind_res (node f3 n) (\<lambda>d. Inr (0, put_node n (d\<lparr>nd_is_hidden := True\<rparr>) f3)) else Inr (0, f3))"
        using r(1) newr(1) Some False f2(1,2) f3(1) by (auto simp: rename_node_def)
      show ?thesis
      proof (cases "err = -1")
        case True
        then show ?thesis using e f3(2) by (simp add: ENOMEM_def)
      next
        case False
        then have k: "node_key (fn_heap f3) n = Some (nd_nodeid p2, newname)" using f3(3) by blast
        then obtain d3 where d3: "fn_heap f3 n = Some d3" by (auto simp: node_key_def split: option.splits)
        let ?f4 = "put_node n (d3\<lparr>nd_is_hidden := True\<rparr>) f3"
        have "nodes_ok ?f4" using nodes_ok_put(1) [OF f3(2) d3] by simp
        moreover have "node_key (fn_heap ?f4) = node_key (fn_heap f3)"
          unfolding put_node_sel using d3 by (intro same_view(4) view_update) simp_all
        moreover have "rename_node f (nd_nodeid p1) oldname (nd_nodeid p2) newname hide = Inr (0, if hide then ?f4 else f3)"
          using e False d3 by simp
        ultimately show ?thesis using k f3(2) uniq by (intro exI [of _ 0] exI [of _ "if hide then ?f4 else f3"]) auto
      qed
    qed
  qed
qed

end
