(* ===== verification/Node_Memory.thy ===== *)
theory Node_Memory
  imports Node_Slab
begin

text \<open>
  What the users of the node allocator rely on, as a locale, and its interpretation on the allocator
  of \<^verbatim>\<open>lib/fuse.c\<close>; and that two nodes in use never overlap.
\<close>

section \<open>The interface of an allocator\<close>

locale node_memory =
  fixes ok :: "'m \<Rightarrow> bool"
    and fresh :: "'m \<Rightarrow> bool"
    and used :: "'m \<Rightarrow> 'n set"
    and alloc :: "'m \<Rightarrow> ('n option \<times> 'm) res"
    and release :: "'m \<Rightarrow> 'n \<Rightarrow> 'm res"
  assumes alloc_law: "ok m \<Longrightarrow> fresh m \<Longrightarrow> \<exists>r m'. alloc m = Inr (r, m') \<and> ok m' \<and>
      (case r of None \<Rightarrow> used m' = used m | Some n \<Rightarrow> n \<notin> used m \<and> used m' = insert n (used m))"
    and release_law: "ok m \<Longrightarrow> n \<in> used m \<Longrightarrow> \<exists>m'. release m n = Inr m' \<and> ok m' \<and> used m' = used m - {n}"
begin

lemma alloc_keeps:
  assumes "ok m" "fresh m" "alloc m = Inr (r, m')"
  shows "ok m'" "case r of None \<Rightarrow> used m' = used m | Some n \<Rightarrow> n \<notin> used m \<and> used m' = insert n (used m)"
  using alloc_law [OF assms(1,2)] assms(3) by auto

text \<open>Giving a new node back restores what was in use.\<close>

lemma alloc_release:
  assumes "ok m" "fresh m" "alloc m = Inr (Some n, m')"
  shows "\<exists>m''. release m' n = Inr m'' \<and> ok m'' \<and> used m'' = used m"
proof -
  have "n \<notin> used m" "used m' = insert n (used m)" using alloc_keeps(2) [OF assms] by simp_all
  then show ?thesis using release_law [OF alloc_keeps(1) [OF assms], of n] by auto
qed

text \<open>Nodes that are in use together are given back in any order.\<close>

lemma release_swap:
  assumes "ok m" "a \<in> used m" "b \<in> used m" "a \<noteq> b"
  shows "\<exists>m1 m2 m3 m4. release m a = Inr m1 \<and> release m1 b = Inr m2 \<and> release m b = Inr m3 \<and> release m3 a = Inr m4 \<and>
    ok m2 \<and> ok m4 \<and> used m2 = used m4"
proof -
  obtain m1 m3 where m: "release m a = Inr m1" "ok m1" "used m1 = used m - {a}" "release m b = Inr m3" "ok m3" "used m3 = used m - {b}"
    using release_law [OF assms(1,2)] release_law [OF assms(1,3)] by blast
  moreover obtain m2 m4 where "release m1 b = Inr m2" "ok m2" "used m2 = used m1 - {b}" "release m3 a = Inr m4" "ok m4" "used m4 = used m3 - {a}"
    using release_law [OF m(2), of b] release_law [OF m(5), of a] m(3,6) assms(2-4) by blast
  ultimately show ?thesis by fastforce
qed

end

interpretation slab_memory: node_memory mem_ok mmap_fresh allocated alloc_node free_node_mem
  by unfold_locales (rule alloc_node_ok, assumption+, rule free_node_mem_ok)

section \<open>Nodes do not overlap\<close>

lemma cells_apart:
  assumes "a \<in> cells f page" "b \<in> cells f page" "a < b"
  shows "a + get_node_size f \<le> b"
proof -
  define ns where "ns = get_node_size f"
  define start where "start = page + nm_pagesize f - (nm_pagesize f - nm_sizeof_slab f) div ns * ns"
  obtain i j where "a = start + i * ns" "b = start + j * ns"
    using assms(1,2) by (auto simp: cells_def slab_nodes_def Let_def ns_def start_def)
  moreover from this have "Suc i \<le> j" using assms(3) by simp
  then have "Suc i * ns \<le> j * ns" by (rule mult_le_mono1)
  ultimately show ?thesis by (simp add: ns_def)
qed

lemma pages_apart:
  assumes "page_ok f p" "page_ok f q" "p < q"
  shows "p + nm_pagesize f \<le> q"
proof -
  obtain i j where ij: "p = i * nm_pagesize f" "q = j * nm_pagesize f"
    using assms(1,2) by (metis page_ok_def mod_0_imp_dvd dvd_div_mult_self)
  then have "Suc i \<le> j" using assms(3) by simp
  then have "Suc i * nm_pagesize f \<le> j * nm_pagesize f" by (rule mult_le_mono1)
  then show ?thesis using ij by simp
qed

lemma allocated_cell:
  assumes "mem_ok f" "n \<in> allocated f"
  shows "n \<in> cells f (node_to_slab f n)" "page_ok f (node_to_slab f n)"
proof -
  obtain s where s: "s \<in> set (slabs f)" "n \<in> cells f (sl_page s)" using assms(2) by (auto simp: allocated_def live_def)
  then have "page_ok f (sl_page s)" using assms(1) by (simp add: mem_ok_def slab_ok_def)
  moreover from this have "node_to_slab f n = sl_page s"
    using assms(1) s by (intro cells_page) (simp_all add: mem_ok_def)
  ultimately show "n \<in> cells f (node_to_slab f n)" "page_ok f (node_to_slab f n)" using s(2) by simp_all
qed

lemma allocated_bounds:
  assumes "mem_ok f" "n \<in> allocated f"
  shows "node_to_slab f n + nm_sizeof_slab f \<le> n" "n + get_node_size f \<le> node_to_slab f n + nm_pagesize f"
  using cells_in_page [OF _ allocated_cell(1) [OF assms]] assms(1) by (simp_all add: mem_ok_def)

lemma allocated_apart:
  assumes "mem_ok f" "a \<in> allocated f" "b \<in> allocated f" "a < b"
  shows "a + get_node_size f \<le> b"
proof (cases "node_to_slab f a = node_to_slab f b")
  case True
  then show ?thesis
    using cells_apart [OF allocated_cell(1) [OF assms(1,2)], of b] allocated_cell(1) [OF assms(1,3)] assms(4) by simp
next
  case False
  note A = allocated_bounds [OF assms(1,2)] and B = allocated_bounds [OF assms(1,3)]
  note pa = pages_apart [OF allocated_cell(2) allocated_cell(2), OF assms(1,2) assms(1,3)]
    pages_apart [OF allocated_cell(2) allocated_cell(2), OF assms(1,3) assms(1,2)]
  show ?thesis using False A B pa assms(4) by (cases "node_to_slab f a < node_to_slab f b") linarith+
qed

lemma alloc_node_layout:
  assumes "alloc_node f = Inr (r, f')"
  shows "get_node_size f' = get_node_size f" "node_to_slab f' n = node_to_slab f n" "nm_sizeof_slab f' = nm_sizeof_slab f"
    "nm_pagesize f' = nm_pagesize f"
  using assms
  by (auto simp: alloc_node_def alloc_slab_def mmap_def take_node_def Let_def bind_res_Inr_iff
      split: if_splits prod.splits option.splits list.splits)

section \<open>Properties\<close>

text \<open>
  (C34) The allocator returns a node that is not in use, behind the header of its page and within the
  page, that overlaps no node in use; giving it back finds its page by masking the address and
  restores what was in use. Without a page nothing is in use that was not before.
\<close>

theorem alloc_node_sound:
  assumes "mem_ok f" "mmap_fresh f"
  shows "\<exists>r f'. alloc_node f = Inr (r, f') \<and> mem_ok f' \<and>
    (case r of
       None \<Rightarrow> allocated f' = allocated f
     | Some n \<Rightarrow> n \<notin> allocated f \<and> allocated f' = insert n (allocated f) \<and>
         node_to_slab f n + nm_sizeof_slab f \<le> n \<and> n + get_node_size f \<le> node_to_slab f n + nm_pagesize f \<and>
         (\<forall>a \<in> allocated f. a + get_node_size f \<le> n \<or> n + get_node_size f \<le> a) \<and>
         (\<exists>f''. free_node_mem f' n = Inr f'' \<and> mem_ok f'' \<and> allocated f'' = allocated f))"
proof -
  obtain r f' where al: "alloc_node f = Inr (r, f')" "mem_ok f'"
    "case r of None \<Rightarrow> allocated f' = allocated f | Some n \<Rightarrow> n \<notin> allocated f \<and> allocated f' = insert n (allocated f)"
    using slab_memory.alloc_law [OF assms] by blast
  show ?thesis
  proof (cases r)
    case None
    then show ?thesis using al by auto
  next
    case (Some n)
    then have n: "n \<notin> allocated f" "allocated f' = insert n (allocated f)" using al(3) by simp_all
    have "a + get_node_size f \<le> n \<or> n + get_node_size f \<le> a" if "a \<in> allocated f" for a
      using allocated_apart [OF al(2), of a n] allocated_apart [OF al(2), of n a] n that
        alloc_node_layout(1) [OF al(1)] by (cases a n rule: linorder_cases) auto
    moreover have "node_to_slab f n + nm_sizeof_slab f \<le> n" "n + get_node_size f \<le> node_to_slab f n + nm_pagesize f"
      using allocated_bounds [OF al(2), of n] n(2) alloc_node_layout [OF al(1)] by simp_all
    moreover have "\<exists>f''. free_node_mem f' n = Inr f'' \<and> mem_ok f'' \<and> allocated f'' = allocated f"
      using assms al(1) [unfolded Some] by (rule slab_memory.alloc_release)
    ultimately show ?thesis using al(1,2) n Some by auto
  qed
qed

text \<open>A page of 4096 bytes at 8192, as an example.\<close>

definition page_mem :: node_mem where
  "page_mem = \<lparr>nm_pagesize = 4096, nm_sizeof_slab = 40, nm_sizeof_node = 208, nm_sizeof_node_lru = 240, nm_remember = 0,
     nm_partial = [], nm_full = [], nm_mmap = [Some 8192]\<rparr>"

lemma page_mem_ok: "mem_ok page_mem" "allocated page_mem = {}" "mmap_fresh page_mem"
proof -
  have "\<exists>k \<le> 64. (4096 :: nat) = 2 ^ k" by (rule exI [of _ 12]) simp
  then show "mem_ok page_mem"
    by (simp add: mem_ok_def sizes_ok_def slabs_def page_mem_def get_node_size_def lru_enabled_def)
  show "allocated page_mem = {}" by (simp add: allocated_def slabs_def page_mem_def)
  show "mmap_fresh page_mem" by (simp add: mmap_fresh_def slabs_def page_mem_def page_ok_def)
qed

lemma page_mem_first:
  "\<exists>m. alloc_node page_mem = Inr (Some 8336, m) \<and> nm_mmap m = [] \<and> nm_remember m = 0 \<and> nm_partial m \<noteq> []"
  by (simp add: alloc_node_def alloc_slab_def mmap_def page_mem_def slab_nodes_def get_node_size_def lru_enabled_def
      take_node_def Let_def upt_rec)

theorem alloc_node_sound_witness:
  "\<exists>m m'. alloc_node page_mem = Inr (Some 8336, m) \<and> mem_ok m \<and> allocated m = {8336} \<and>
     free_node_mem m 8336 = Inr m' \<and> mem_ok m' \<and> allocated m' = {}"
proof -
  obtain m where m: "alloc_node page_mem = Inr (Some 8336, m)" using page_mem_first by blast
  show ?thesis using alloc_node_sound [OF page_mem_ok(1,3)] m page_mem_ok(2) by auto
qed

end
