(* ===== verification/Node_Props.thy ===== *)
theory Node_Props
  imports Node_Calls Node_Memory
begin

text \<open>
  The properties of the nodes: no sequence of requests that follows the protocol of the kernel makes
  an assertion of libfuse fail, aborts it, follows a dangling pointer or loops; and what a lookup
  finds.
\<close>

section \<open>The first state\<close>

lemma new_nodes_ok:
  assumes "mem_ok mem" "allocated mem = {}" "alloc_node mem = Inr (Some root, m)" "mem_ok m" "allocated m = {root}"
  shows "\<exists>f d. new_nodes mem oks clock = Inr (Some f) \<and> nodes_ok f \<and> fn_heap f = [root \<mapsto> d] \<and> nd_nodeid d = FUSE_ROOT_ID \<and>
    nd_nlookup d = 1 \<and> nd_treelock d = 0 \<and> nd_parent d = None \<and> fn_mem f = m \<and> nd_name d = Some ''/''"
proof -
  define d where "d = zero_node\<lparr>nd_name := Some ''/'', nd_parent := None, nd_nodeid := FUSE_ROOT_ID, nd_refctr := 1, nd_nlookup := 1\<rparr>"
  define f2 where "f2 = \<lparr>fn_heap = [root \<mapsto> d], fn_names = node_table_init, fn_ids = node_table_init, fn_lru = [], fn_ctr = 0,
    fn_generation = 0, fn_mem = m, fn_realloc = oks, fn_clock = clock\<rparr>"
  have "table_inv (raw_id (fn_heap f2)) 0 (fn_ids f2)" "members (fn_ids f2) = {}" "fn_heap f2 root = Some d"
    by (simp_all add: f2_def table_init_inv)
  then obtain ok' bs where hi: "hash_id f2 root = Inr (f2\<lparr>fn_realloc := bs, fn_ids := table_insert ok' (raw_id (fn_heap f2)) root (fn_ids f2)\<rparr>)"
    using hash_id_ok [of f2 root d] by auto
  define f where "f = f2\<lparr>fn_realloc := bs, fn_ids := table_insert ok' (raw_id (fn_heap f2)) root (fn_ids f2)\<rparr>"
  have res: "new_nodes mem oks clock = Inr (Some f)"
    using hi unfolding f_def by (simp add: new_nodes_def assms(3) inc_nlookup_def put_node_def zero_node_def d_def f2_def int_defs)
  have d: "nd_parent d = None" "nd_nodeid d = FUSE_ROOT_ID" "nd_nlookup d = 1" "nd_refctr d = 1" "nd_treelock d = 0"
    "nd_name d = Some ''/''"
    by (simp_all add: d_def zero_node_def)
  have h: "fn_heap f = [root \<mapsto> d]" "fn_names f = node_table_init" "fn_mem f = m" "fn_lru f = []"
    "fn_ids f = table_insert ok' (raw_id [root \<mapsto> d]) root node_table_init"
    by (simp_all add: f_def f2_def)
  have p: "parent_rel [root \<mapsto> d] = {}" using d by (auto simp: parent_rel_def split: if_splits)
  have "table_inv (raw_id [root \<mapsto> d]) 0 (fn_ids f)" "members (fn_ids f) = {root}"
    unfolding h using table_insert_inv [OF table_init_inv(1), of root] table_init_inv(2) by simp_all
  moreover have "links_ok [root \<mapsto> d] {}" using d by (auto simp: links_ok_def link_ok_def split: if_splits)
  moreover have "root_ok [root \<mapsto> d]" using d by (auto simp: root_ok_def)
  moreover have "ids_distinct [root \<mapsto> d]" by (auto simp: ids_distinct_def split: if_splits)
  moreover have "refs_ok [root \<mapsto> d] {} {}" using d p by (auto simp: refs_ok_def children_def held_by_kernel_def)
  moreover have "named [root \<mapsto> d] {} = {}" by (simp add: named_def p)
  ultimately have "nodes_ok f"
    using assms(4,5) by (simp add: nodes_ok_def tree_defs h p keys_distinct_def table_init_inv acyclic_def)
  then show ?thesis using res d h by auto
qed

lemma lookup_node_found:
  assumes "nodes_ok f" "node_key (fn_heap f) n = Some (dir, name)"
  shows "lookup_node f dir name = Inr (Some n)"
proof -
  have t: "tree_inv f {}" "keys_distinct (fn_heap f) (named (fn_heap f) {})" using assms(1) by (simp_all add: nodes_ok_def tree_inv_def)
  have n: "n \<in> named (fn_heap f) {}"
    using assms(2) by (auto simp: node_key_def named_def parent_rel_def split: option.splits)
  obtain r where r: "lookup_node f dir name = Inr r"
    "case r of None \<Rightarrow> (\<forall>n \<in> named (fn_heap f) {}. node_key (fn_heap f) n \<noteq> Some (dir, name))
     | Some n \<Rightarrow> n \<in> named (fn_heap f) {} \<and> node_key (fn_heap f) n = Some (dir, name)"
    using lookup_node_ok [OF t(1)] by blast
  then show ?thesis
    using n assms(2) t(2) unfolding keys_distinct_def inj_on_def by (cases r) auto
qed

lemma looked_up_apart:
  assumes ok: "nodes_ok f'" and l: "looked_up f q dir name n f'" and q: "fn_heap f q = Some qd" "nd_nodeid qd = dir"
  shows "q \<noteq> n"
proof
  assume e: "q = n"
  obtain d' where d': "fn_heap f' n = Some d'" "nd_nodeid d' = dir" "node_key (fn_heap f') n = Some (dir, name)"
    using l q e by (auto simp: looked_up_def new_entry_def)
  then have n: "n \<in> named (fn_heap f') {}" by (auto simp: node_key_def named_def parent_rel_def split: option.splits)
  have "(n, n) \<in> parent_rel (fn_heap f')"
    using named_parent [OF ok n, of d' name n] d' parent_relI by metis
  moreover have "acyclic (parent_rel (fn_heap f'))" using ok by (simp add: nodes_ok_def tree_inv_def)
  ultimately show False by (auto simp: acyclic_def)
qed

lemma find_node_none:
  assumes ok: "nodes_ok f" "mmap_fresh (fn_mem f)" "card (dom (fn_heap f)) < 2 ^ 31 - 3"
    and none: "\<forall>n. node_key (fn_heap f) n \<noteq> Some (dir, name)" and r: "find_node f dir (Some name) = Inr (r, f')"
  shows "r = None \<longleftrightarrow> no_memory f name"
proof -
  have t: "tree_inv f {}" using ok(1) by (simp add: nodes_ok_def)
  obtain l where "lookup_node f dir name = Inr l"
    "case l of None \<Rightarrow> (\<forall>n \<in> named (fn_heap f) {}. node_key (fn_heap f) n \<noteq> Some (dir, name))
     | Some n \<Rightarrow> n \<in> named (fn_heap f) {} \<and> node_key (fn_heap f) n = Some (dir, name)"
    using lookup_node_ok [OF t] by blast
  then have "lookup_node f dir name = Inr None" using none by (cases l) auto
  then obtain r1 f1 where "new_node f dir name = Inr (r1, f1)" "r = None \<longleftrightarrow> r1 = None"
    using r by (auto simp: find_node_def bind_res_Inr_iff split: option.splits)
  then show ?thesis using new_node_none [OF ok] by simp
qed

section \<open>Requests\<close>

datatype node_op =
    Lookup "64 word" string
  | Forget "64 word" "64 word"
  | Remove "64 word" string
  | Rename "64 word" string "64 word" string bool

definition exec_op :: "node_op \<Rightarrow> fuse_nodes \<Rightarrow> fuse_nodes res" where
  "exec_op op f =
     (case op of
        Lookup dir name \<Rightarrow> bind_res (find_node f dir (Some name)) (\<lambda>(_, f'). Inr f')
      | Forget nodeid k \<Rightarrow> forget_node f nodeid k
      | Remove dir name \<Rightarrow> remove_node f dir name
      | Rename olddir oldname newdir newname hide \<Rightarrow> bind_res (rename_node f olddir oldname newdir newname hide) (\<lambda>(_, f'). Inr f'))"

text \<open>A node that the kernel knows: it has looked it up, or it is the root.\<close>

definition known :: "fuse_nodes \<Rightarrow> 64 word \<Rightarrow> bool" where
  "known f dir \<longleftrightarrow> (\<exists>q qd. fn_heap f q = Some qd \<and> nd_nodeid qd = dir \<and> nd_nlookup qd \<noteq> 0)"

text \<open>
  The protocol. The kernel names only nodes it knows, forgets no more lookups than it made, and does
  not move a directory into itself. Forgetting happens while no path is locked, as it does in the
  single thread. The limits are those of the integers: a request that adds to a count of references
  (an \<^verbatim>\<open>int\<close>: one for every child and one for the kernel) finds fewer than \<open>2 ^ 31 - 3\<close> nodes, which also
  leaves a number unused, and no count of lookups is at the end of its 64 bits. \<^verbatim>\<open>mmap\<close> gives an unused
  page, and the clock can be read.
\<close>

definition protocol :: "node_op \<Rightarrow> fuse_nodes \<Rightarrow> bool" where
  "protocol op f \<longleftrightarrow>
     (case op of
        Lookup dir name \<Rightarrow> known f dir \<and> mmap_fresh (fn_mem f) \<and> card (dom (fn_heap f)) < 2 ^ 31 - 3 \<and>
          (\<forall>n d. fn_heap f n = Some d \<longrightarrow> nd_nlookup d + 1 \<noteq> 0)
      | Forget nodeid k \<Rightarrow> (\<exists>n d. fn_heap f n = Some d \<and> nd_nodeid d = nodeid \<and> k \<le> nd_nlookup d \<and> k \<noteq> 0) \<and>
          (\<forall>n d. fn_heap f n = Some d \<longrightarrow> nd_treelock d = 0) \<and> (lru_enabled (fn_mem f) \<longrightarrow> fn_clock f \<noteq> [])
      | Remove dir name \<Rightarrow> known f dir \<and> remembered f dir name
      | Rename olddir oldname newdir newname hide \<Rightarrow> known f olddir \<and> known f newdir \<and> remembered f newdir newname \<and>
          card (dom (fn_heap f)) < 2 ^ 31 - 3 \<and>
          (\<forall>n q qd. node_key (fn_heap f) n = Some (olddir, oldname) \<longrightarrow> fn_heap f q = Some qd \<longrightarrow> nd_nodeid qd = newdir \<longrightarrow>
             (q, n) \<notin> (parent_rel (fn_heap f))\<^sup>*))"

lemma exec_op_ok:
  assumes "nodes_ok f" "protocol op f"
  shows "\<exists>f'. exec_op op f = Inr f' \<and> nodes_ok f'"
proof (cases op)
  case (Lookup dir name)
  then obtain q qd where q: "fn_heap f q = Some qd" "nd_nodeid qd = dir" and rest: "mmap_fresh (fn_mem f)"
    "card (dom (fn_heap f)) < 2 ^ 31 - 3" "\<And>n d. fn_heap f n = Some d \<Longrightarrow> nd_nlookup d + 1 \<noteq> 0"
    using assms(2) by (auto simp: protocol_def known_def)
  obtain r f' where "find_node f dir (Some name) = Inr (r, f')" "nodes_ok f'"
    using find_node_ok [OF assms(1) q(1) rest(1,2), of name] rest(3) q(2) by blast
  then show ?thesis using Lookup by (simp add: exec_op_def)
next
  case (Forget nodeid k)
  then obtain n d where n: "fn_heap f n = Some d" "nd_nodeid d = nodeid" "k \<le> nd_nlookup d" "k \<noteq> 0"
    and rest: "\<And>n d. fn_heap f n = Some d \<Longrightarrow> nd_treelock d = 0" "lru_enabled (fn_mem f) \<Longrightarrow> fn_clock f \<noteq> []"
    using assms(2) by (auto simp: protocol_def)
  have "lock_free (fn_heap f)" using rest(1) by (auto simp: lock_free_def)
  then show ?thesis
    using Forget forget_node_ok [OF assms(1) n(1,3,4)] rest(1) [OF n(1)] rest(2) n(2) by (auto simp: exec_op_def)
next
  case (Remove dir name)
  then obtain q qd where q: "fn_heap f q = Some qd" "nd_nlookup qd \<noteq> 0" "nd_nodeid qd = dir" and rem: "remembered f dir name"
    using assms(2) by (auto simp: protocol_def known_def)
  then show ?thesis
    using Remove remove_node_ok [OF assms(1) q(1,2), of name] by (auto simp: exec_op_def)
next
  case (Rename olddir oldname newdir newname hide)
  then obtain q1 p1 q2 p2 where q: "fn_heap f q1 = Some p1" "nd_nlookup p1 \<noteq> 0" "fn_heap f q2 = Some p2" "nd_nlookup p2 \<noteq> 0"
    and ids: "nd_nodeid p1 = olddir" "nd_nodeid p2 = newdir" and rem: "remembered f (nd_nodeid p2) newname"
    and cyc: "\<And>n. node_key (fn_heap f) n = Some (nd_nodeid p1, oldname) \<Longrightarrow> (q2, n) \<notin> (parent_rel (fn_heap f))\<^sup>*"
    and room: "card (dom (fn_heap f)) < 2 ^ 31 - 2"
    using assms(2) by (auto simp: protocol_def known_def)
  obtain err f' where "rename_node f olddir oldname newdir newname hide = Inr (err, f')" "nodes_ok f'"
    using rename_node_ok [OF assms(1) q, of oldname newname hide] cyc rem ids room by blast
  then show ?thesis using Rename by (simp add: exec_op_def)
qed

inductive node_reach :: "node_mem \<Rightarrow> fuse_nodes \<Rightarrow> bool" for mem where
  start: "new_nodes mem oks clock = Inr (Some f) \<Longrightarrow> node_reach mem f"
| step: "node_reach mem f \<Longrightarrow> protocol op f \<Longrightarrow> exec_op op f = Inr f' \<Longrightarrow> node_reach mem f'"

lemma node_reach_ok:
  assumes "mem_ok mem" "allocated mem = {}" "mmap_fresh mem"
  shows "node_reach mem f \<Longrightarrow> nodes_ok f"
proof (induction rule: node_reach.induct)
  case (start oks clock f)
  obtain r m where al: "alloc_node mem = Inr (r, m)" "mem_ok m"
    "case r of None \<Rightarrow> allocated m = allocated mem | Some n \<Rightarrow> n \<notin> allocated mem \<and> allocated m = insert n (allocated mem)"
    using alloc_node_ok [OF assms(1,3)] by blast
  show ?case
  proof (cases r)
    case None
    then show ?thesis using start al(1) by (simp add: new_nodes_def)
  next
    case (Some root)
    then show ?thesis using new_nodes_ok [OF assms(1,2), of root m oks clock] al start assms(2) by auto
  qed
next
  case (step f op f')
  then show ?case using exec_op_ok by fastforce
qed

section \<open>Properties\<close>

text \<open>
  (C5) From the first state on, every request that follows the protocol returns: no assertion fails,
  nothing aborts, no count of references overflows, no pointer is null or dangling, and the search
  for a free number ends. The invariant holds afterwards: every node is in both hash tables where its
  hash says, under a unique number and place, and its count of references is right. The protocol asks
  for fewer than \<open>2 ^ 31 - 3\<close> nodes when a name is looked up or moved, for no more lookups than 64 bits
  count, and for no locked path when lookups are forgotten.
\<close>

theorem node_requests_safe:
  assumes "mem_ok mem" "allocated mem = {}" "mmap_fresh mem" "node_reach mem f" "protocol op f"
  shows "\<exists>f'. exec_op op f = Inr f' \<and> nodes_ok f'"
  using exec_op_ok [OF node_reach_ok [OF assms(1-4)] assms(5)] .

lemma page_mem_alloc:
  "\<exists>m. alloc_node page_mem = Inr (Some 8336, m) \<and> mem_ok m \<and> allocated m = {8336} \<and> nm_mmap m = [] \<and> nm_remember m = 0 \<and>
     nm_partial m \<noteq> []"
  using page_mem_first alloc_node_ok [OF page_mem_ok(1,3)] page_mem_ok(2) by auto

lemma page_start:
  "\<exists>f d. new_nodes page_mem [] [] = Inr (Some f) \<and> nodes_ok f \<and> fn_heap f = [8336 \<mapsto> d] \<and> nd_nodeid d = FUSE_ROOT_ID \<and>
    nd_nlookup d = 1 \<and> nd_treelock d = 0 \<and> nd_parent d = None \<and> mmap_fresh (fn_mem f) \<and> nm_remember (fn_mem f) = 0 \<and> nd_name d = Some ''/'' \<and>
    nm_partial (fn_mem f) \<noteq> []"
proof -
  obtain m where m: "alloc_node page_mem = Inr (Some 8336, m)" "mem_ok m" "allocated m = {8336}" "nm_mmap m = []" "nm_remember m = 0"
    "nm_partial m \<noteq> []"
    using page_mem_alloc by blast
  obtain f d where f: "new_nodes page_mem [] [] = Inr (Some f)" "nodes_ok f" "fn_heap f = [8336 \<mapsto> d]" "nd_nodeid d = FUSE_ROOT_ID"
    "nd_nlookup d = 1" "nd_treelock d = 0" "nd_parent d = None" "fn_mem f = m" "nd_name d = Some ''/''"
    using new_nodes_ok [OF page_mem_ok(1,2) m(1-3), of "[]" "[]"] by blast
  show ?thesis
    by (intro exI [of _ f] exI [of _ d]) (use f m(4-6) in \<open>simp add: mmap_fresh_def\<close>)
qed

theorem node_requests_safe_witness:
  "\<exists>f f'. node_reach page_mem f \<and> exec_op (Lookup FUSE_ROOT_ID ''a'') f = Inr f' \<and> nodes_ok f'"
proof -
  obtain f d where f: "new_nodes page_mem [] [] = Inr (Some f)" "nodes_ok f" "fn_heap f = [8336 \<mapsto> d]" "nd_nodeid d = FUSE_ROOT_ID"
    "nd_nlookup d = 1" "mmap_fresh (fn_mem f)"
    using page_start by blast
  have r: "node_reach page_mem f" using f(1) by (rule node_reach.start)
  have "protocol (Lookup FUSE_ROOT_ID ''a'') f"
    using f by (auto simp: protocol_def known_def)
  from node_requests_safe [OF page_mem_ok r this] show ?thesis using r by blast
qed

text \<open>
  (C11) Looking a name up in a directory the kernel knows returns the one node with that place. The
  node is the one that was there, or a new one with a number that no node had; it has one lookup more,
  and the next lookup of the name returns it again. Nothing is returned exactly when no node has the
  place and none can be made for want of memory, and then no node changes. Otherwise no other node
  changes, but for the count of references of the directory.
\<close>

theorem find_node_finds:
  assumes "nodes_ok f" "protocol (Lookup dir name) f"
  shows "\<exists>q qd r f'. fn_heap f q = Some qd \<and> nd_nodeid qd = dir \<and> find_node f dir (Some name) = Inr (r, f') \<and> nodes_ok f' \<and>
    (r = None \<longleftrightarrow> (\<forall>n. node_key (fn_heap f) n \<noteq> Some (dir, name)) \<and> no_memory f name) \<and>
    (case r of None \<Rightarrow> fn_heap f' = fn_heap f
     | Some n \<Rightarrow> q \<noteq> n \<and> looked_up f q dir name n f' \<and> lookup_node f' dir name = Inr (Some n) \<and>
         (\<forall>m. node_key (fn_heap f) m = Some (dir, name) \<longrightarrow> m = n))"
proof -
  obtain q qd where q: "fn_heap f q = Some qd" "nd_nodeid qd = dir" and rest: "mmap_fresh (fn_mem f)"
    "card (dom (fn_heap f)) < 2 ^ 31 - 3" "\<And>n d. fn_heap f n = Some d \<Longrightarrow> nd_nlookup d + 1 \<noteq> 0"
    using assms(2) by (auto simp: protocol_def known_def)
  obtain r f' where f': "find_node f dir (Some name) = Inr (r, f')" "nodes_ok f'"
    "case r of None \<Rightarrow> fn_heap f' = fn_heap f | Some n \<Rightarrow> looked_up f q dir name n f'"
    using find_node_ok [OF assms(1) q(1) rest(1,2), of name] rest(3) q(2) by blast
  have l: "lookup_node f' dir name = Inr (Some n) \<and> q \<noteq> n" if "looked_up f q dir name n f'" for n
    using that lookup_node_found [OF f'(2)] looked_up_apart [OF f'(2) that q] by (simp add: looked_up_def)
  have m: "r = Some m" if "node_key (fn_heap f) m = Some (dir, name)" for m
    using lookup_node_found [OF assms(1) that] f'(1) by (auto simp: find_node_def Let_def bind_res_Inr_iff)
  have n: "r = None \<longleftrightarrow> no_memory f name" if "\<forall>n. node_key (fn_heap f) n \<noteq> Some (dir, name)"
    using find_node_none [OF assms(1) rest(1,2) that f'(1)] .
  show ?thesis
    using q f' l m n by (intro exI [of _ q] exI [of _ qd] exI [of _ r] exI [of _ f']) (cases r, auto)
qed

theorem find_node_finds_witness:
  "\<exists>f n f'. new_nodes page_mem [] [] = Inr (Some f) \<and> find_node f FUSE_ROOT_ID (Some ''a'') = Inr (Some n, f') \<and> nodes_ok f' \<and>
     n \<noteq> 8336 \<and> lookup_node f' FUSE_ROOT_ID ''a'' = Inr (Some n)"
proof -
  obtain f d where f: "new_nodes page_mem [] [] = Inr (Some f)" "nodes_ok f" "fn_heap f = [8336 \<mapsto> d]" "nd_nodeid d = FUSE_ROOT_ID"
    "nd_nlookup d = 1" "mmap_fresh (fn_mem f)" "nm_partial (fn_mem f) \<noteq> []"
    using page_start by blast
  have "protocol (Lookup FUSE_ROOT_ID ''a'') f"
    using f by (auto simp: protocol_def known_def)
  from find_node_finds [OF f(2) this] obtain q qd r f' where r: "fn_heap f q = Some qd"
    "find_node f FUSE_ROOT_ID (Some ''a'') = Inr (r, f')" "nodes_ok f'"
    "r = None \<longleftrightarrow> (\<forall>n. node_key (fn_heap f) n \<noteq> Some (FUSE_ROOT_ID, ''a'')) \<and> no_memory f ''a''"
    "case r of None \<Rightarrow> fn_heap f' = fn_heap f
     | Some n \<Rightarrow> q \<noteq> n \<and> looked_up f q FUSE_ROOT_ID ''a'' n f' \<and> lookup_node f' FUSE_ROOT_ID ''a'' = Inr (Some n) \<and>
         (\<forall>m. node_key (fn_heap f) m = Some (FUSE_ROOT_ID, ''a'') \<longrightarrow> m = n)"
    by blast
  have "\<not> no_memory f ''a''"
    using f(7) by (auto simp: no_memory_def alloc_node_def bind_res_Inr_iff INLINE_NAME_def)
  then obtain n where "r = Some n" using r(4) by blast
  moreover have "q = 8336" using r(1) f(3) by (simp split: if_splits)
  ultimately show ?thesis using f(1) r by auto
qed

end
