(* ===== verification/Path_Props.thy ===== *)
theory Path_Props
  imports Path_Wake Node_Props
begin

text \<open>
  The properties of paths: what path a node has, that locking and unlocking undo each other, and
  that however the calls of several threads interleave, no assertion about locks fails and a node
  that is locked for writing is on nobody's path.
\<close>

section \<open>Interleaved calls\<close>

text \<open>
  The state of the locks: the nodes, the requests that hold a path, and the queue. Every call runs
  under the mutex of \<^verbatim>\<open>struct fuse\<close>, so the calls of several threads are a sequence of steps. A thread
  whose element is done goes on and holds what its element held; one that waits for a node to be
  forgotten leaves the queue when it was signalled.
\<close>

type_synonym path_state = "fuse_nodes \<times> path_hold list \<times> lock_qe list"

datatype path_op =
    GetPath "64 word" "string option" bool
  | GetPath2 "64 word" "string option" bool "64 word" "string option" bool
  | FreePath path_hold
  | FreePath2 path_hold path_hold
  | Collect nat
  | WaitFor "64 word"
  | StopWaiting nat

definition waiting_node :: "64 word \<Rightarrow> lock_qe" where
  "waiting_node i = (waiting_for1 i None False)\<lparr>qe_wants1 := False\<rparr>"

definition exec_path :: "path_op \<Rightarrow> path_state \<Rightarrow> path_state res" where
  "exec_path op = (\<lambda>(f, hs, q).
     (case op of
        GetPath i name wr \<Rightarrow>
          bind_res (get_path_common f q i name wr) (\<lambda>(r, q1, f1).
            Inr (f1, (case r of Returns (err, _, w) \<Rightarrow> if err = 0 then (i, w) # hs else hs | Waits \<Rightarrow> hs), q1))
      | GetPath2 i1 name1 wr1 i2 name2 wr2 \<Rightarrow>
          bind_res (get_path2 f q i1 name1 i2 name2 wr1 wr2) (\<lambda>(r, q1, f1).
            Inr (f1, (case r of Returns (err, (_, w1), (_, w2)) \<Rightarrow> if err = 0 then (i2, w2) # (i1, w1) # hs else hs | Waits \<Rightarrow> hs), q1))
      | FreePath h \<Rightarrow> bind_res (free_path_wrlock f q (fst h) (snd h)) (\<lambda>(q1, f1). Inr (f1, remove1 h hs, q1))
      | FreePath2 h1 h2 \<Rightarrow>
          bind_res (free_path2 f q (fst h1) (fst h2) (snd h1) (snd h2)) (\<lambda>(q1, f1). Inr (f1, remove1 h2 (remove1 h1 hs), q1))
      | Collect k \<Rightarrow> bind_res (wait_path q k) (\<lambda>(err, qe, q1). Inr (f, qe_holds qe @ hs, q1))
      | WaitFor i \<Rightarrow> Inr (f, hs, queue_path q (waiting_node i))
      | StopWaiting k \<Rightarrow> Inr (f, hs, dequeue_path q k)))"

definition path_op_ok :: "path_op \<Rightarrow> path_state \<Rightarrow> bool" where
  "path_op_ok op = (\<lambda>(f, hs, q).
     (case op of
        GetPath i name wr \<Rightarrow> request_ok f i name wr
      | GetPath2 i1 name1 wr1 i2 name2 wr2 \<Rightarrow> request_ok f i1 name1 wr1 \<and> request_ok f i2 name2 wr2
      | FreePath h \<Rightarrow> h \<in> set hs
      | FreePath2 h1 h2 \<Rightarrow> h1 \<in> set hs \<and> h2 \<in> set (remove1 h1 hs)
      | Collect k \<Rightarrow> k < length q \<and> qe_done (q ! k)
      | WaitFor i \<Rightarrow> (\<exists>n d. fn_heap f n = Some d \<and> nd_nodeid d = i)
      | StopWaiting k \<Rightarrow> k < length q \<and> \<not> qe_wants1 (q ! k)))"

definition space :: "path_hold list \<Rightarrow> lock_qe list \<Rightarrow> bool" where
  "space hs q \<longleftrightarrow> int (length hs + 2 * length q) + 5 < INT_MAX"

text \<open>
  The invariant: the locks count the holders, in the queue too, and only the first element of the
  queue may have one of two paths locked while it waits for the other.
\<close>

definition path_inv :: "path_state \<Rightarrow> bool" where
  "path_inv = (\<lambda>(f, hs, q). lock_inv f (concat (map qe_holds q) @ hs) \<and> (\<forall>qe \<in> set q. qe_ok f qe) \<and>
     (\<forall>qe \<in> set (tl q). qe_holds qe = [] \<or> served qe))"

lemma path_inv_locks:
  assumes "path_inv (f, hs, q)" "same_tree f f'" "lock_inv f' (concat (map qe_holds q) @ hs')"
  shows "path_inv (f', hs', q)"
  using assms qe_ok_view [OF assms(2)] by (auto simp: path_inv_def)

lemma queue_inv:
  assumes "path_inv (f, hs, q)" "qe_ok f qe" "qe_holds qe = []"
  shows "path_inv (f, hs, queue_path q qe)"
proof -
  let ?e = "qe\<lparr>qe_done := False, qe_first_locked := False, qe_second_locked := False, qe_signal := False\<rparr>"
  have "qe_holds ?e = []" "qe_ok f ?e" using assms(2) by (auto simp: qe_holds_def first_hold_def second_hold_def qe_ok_def split: if_splits)
  then show ?thesis using assms(1) by (cases q) (auto simp: path_inv_def queue_path_def)
qed

lemma waiting_ok:
  "request_ok f i name wr \<Longrightarrow> qe_ok f (waiting_for1 i name wr)"
  "request_ok f i1 name1 wr1 \<Longrightarrow> request_ok f i2 name2 wr2 \<Longrightarrow> qe_ok f (waiting_for2 i1 name1 i2 name2 wr1 wr2)"
  by (simp_all add: qe_ok_def waiting_for1_def waiting_for2_def)

lemma waiting_node_ok: "fn_heap f n = Some d \<Longrightarrow> nd_nodeid d = i \<Longrightarrow> qe_ok f (waiting_node i)"
  unfolding qe_ok_def by (simp add: waiting_for1_def waiting_node_def) blast

lemma waiting_holds:
  "qe_holds (waiting_for1 i name wr) = []" "qe_holds (waiting_for2 i1 name1 i2 name2 wr1 wr2) = []" "qe_holds (waiting_node i) = []"
  by (simp_all add: waiting_for2_def waiting_node_def qe_holds_def first_hold_def second_hold_def) (simp_all add: waiting_for1_def)

lemma remove1_append_mset: "h \<in> set ys \<Longrightarrow> mset (remove1 h (xs @ ys)) = mset (xs @ remove1 h ys)"
  by (simp only: mset_remove1 mset_append set_mset_mset diff_union_single_conv)

lemma unlock_inv:
  assumes "path_inv (f, hs, q)" "space hs q" "h \<in> set hs"
  shows "\<exists>f'. unlock_path f (fst h) (snd h) None = Inr f' \<and> path_inv (f', remove1 h hs, q)"
proof -
  have l: "lock_inv f (concat (map qe_holds q) @ hs)" using assms(1) by (simp add: path_inv_def)
  have "room (concat (map qe_holds q) @ hs)" using assms(2) length_holds [of q] by (simp add: room_def space_def)
  from unlock_law [OF l this, of h] assms(3) obtain f' where f': "unlock_path f (fst h) (snd h) None = Inr f'" "same_tree f f'"
    "lock_inv f' (remove1 h (concat (map qe_holds q) @ hs))" by auto
  have "lock_inv f' (concat (map qe_holds q) @ remove1 h hs)"
    using remove1_append_mset [OF assms(3)] f'(3) by (metis lock_inv_perm)
  then show ?thesis using f'(1) path_inv_locks [OF assms(1) f'(2)] by blast
qed

lemma wake_inv:
  assumes "path_inv (f, hs, q)" "space hs q"
  shows "\<exists>q' f'. wake_up_queued f q = Inr (q', f') \<and> path_inv (f', hs, q')"
proof -
  have "lock_inv f (concat (map qe_holds q) @ hs)" "\<forall>qe \<in> set q. qe_ok f qe" using assms(1) by (simp_all add: path_inv_def)
  moreover have "int (length hs + 2 * length q) + 3 < INT_MAX" using assms(2) by (simp add: space_def)
  ultimately show ?thesis using wake_loop_law [of f q hs True] by (fastforce simp: wake_up_queued_def path_inv_def)
qed

lemma in_set_tlD: "x \<in> set (tl xs) \<Longrightarrow> x \<in> set xs"
  by (cases xs) auto

lemma dequeue_inv:
  assumes "path_inv (f, hs, q)" "k < length q"
  shows "path_inv (f, qe_holds (q ! k) @ hs, dequeue_path q k)"
proof -
  have q: "q = take k q @ q ! k # drop (Suc k) q" using assms(2) by (rule id_take_nth_drop)
  have "concat (map qe_holds q) = concat (map qe_holds (take k q)) @ qe_holds (q ! k) @ concat (map qe_holds (drop (Suc k) q))"
    using arg_cong [OF q, of "\<lambda>x. concat (map qe_holds x)"] by (simp only: map_append concat_append list.map concat.simps)
  then have "mset (concat (map qe_holds (dequeue_path q k)) @ qe_holds (q ! k) @ hs) = mset (concat (map qe_holds q) @ hs)"
    by (simp add: dequeue_path_def)
  then have "lock_inv f (concat (map qe_holds (dequeue_path q k)) @ qe_holds (q ! k) @ hs)"
    by (rule lock_inv_perm) (use assms(1) in \<open>simp add: path_inv_def\<close>)
  moreover have "set (dequeue_path q k) \<subseteq> set q" by (auto simp: dequeue_path_def dest: in_set_takeD in_set_dropD)
  moreover have "set (tl (dequeue_path q k)) \<subseteq> set (tl q)"
    using assms(2) by (cases q; cases k) (auto simp: dequeue_path_def dest: in_set_takeD in_set_dropD in_set_tlD)
  ultimately show ?thesis using assms(1) by (auto simp: path_inv_def)
qed

lemma get_path_inv:
  assumes inv: "path_inv (f, hs, q)" "space hs q" and req: "request_ok f i name wr"
  shows "\<exists>s'. exec_path (GetPath i name wr) (f, hs, q) = Inr s' \<and> path_inv s'"
proof -
  let ?hs = "concat (map qe_holds q) @ hs"
  have l: "lock_inv f ?hs" "room ?hs" using inv length_holds [of q] by (simp_all add: path_inv_def room_def space_def)
  obtain err path w f' where r: "try_get_path f i name wr True = Inr (err, path, w, f')" "same_tree f f'"
    "if err = 0 then lock_inv f' ((i, w) # ?hs) \<and> path = Some (full_path (fn_heap f) (way f i) (name_text name))
     else path = None \<and> w = None \<and> lock_inv f' ?hs"
    using lock_law [OF l req] by blast
  consider "err = 0" | "err = - EAGAIN" | "err \<noteq> 0" "err \<noteq> - EAGAIN" by blast
  then show ?thesis
  proof cases
    case 1
    have "lock_inv f' (concat (map qe_holds q) @ (i, w) # hs)" by (rule lock_inv_perm [of _ "(i, w) # ?hs"]) (use r(3) 1 in simp_all)
    then show ?thesis using path_inv_locks [OF inv(1) r(2)] r(1) 1 by (simp add: exec_path_def get_path_common_def errno_defs)
  next
    case 2
    then have "path_inv (f', hs, q)" using path_inv_locks [OF inv(1) r(2)] r(3) by (simp add: errno_defs)
    then have "path_inv (f', hs, queue_path q (waiting_for1 i name wr))"
      by (rule queue_inv [OF _ waiting_ok(1) waiting_holds(1)]) (rule request_view [OF same_tree_view [OF r(2)] req])
    then show ?thesis using r(1) 2 by (simp add: exec_path_def get_path_common_def errno_defs)
  next
    case 3
    then have "path_inv (f', hs, q)" using path_inv_locks [OF inv(1) r(2)] r(3) by simp
    then show ?thesis using r(1) 3 by (simp add: exec_path_def get_path_common_def)
  qed
qed

lemma get_path2_inv:
  assumes inv: "path_inv (f, hs, q)" "space hs q" and req: "request_ok f i1 name1 wr1" "request_ok f i2 name2 wr2"
  shows "\<exists>s'. exec_path (GetPath2 i1 name1 wr1 i2 name2 wr2) (f, hs, q) = Inr s' \<and> path_inv s'"
proof -
  let ?hs = "concat (map qe_holds q) @ hs"
  have l: "lock_inv f ?hs" "room2 ?hs" using inv length_holds [of q] by (simp_all add: path_inv_def room2_def space_def)
  obtain err p1 w1 p2 w2 f' where r: "try_get_path2 f i1 name1 i2 name2 wr1 wr2 = Inr (err, (p1, w1), (p2, w2), f')" "same_tree f f'"
    "if err = 0 then lock_inv f' ((i2, w2) # (i1, w1) # ?hs) else lock_inv f' ?hs"
    using try_get_path2_law [OF l req] by blast
  consider "err = 0" | "err = - EAGAIN" | "err \<noteq> 0" "err \<noteq> - EAGAIN" by blast
  then show ?thesis
  proof cases
    case 1
    have "lock_inv f' (concat (map qe_holds q) @ (i2, w2) # (i1, w1) # hs)"
      by (rule lock_inv_perm [of _ "(i2, w2) # (i1, w1) # ?hs"]) (use r(3) 1 in simp_all)
    then show ?thesis using path_inv_locks [OF inv(1) r(2)] r(1) 1 by (simp add: exec_path_def get_path2_def errno_defs)
  next
    case 2
    then have "path_inv (f', hs, q)" using path_inv_locks [OF inv(1) r(2)] r(3) by (simp add: errno_defs)
    then have "path_inv (f', hs, queue_path q (waiting_for2 i1 name1 i2 name2 wr1 wr2))"
      by (rule queue_inv [OF _ waiting_ok(2) waiting_holds(2)]) (rule request_view [OF same_tree_view [OF r(2)]], rule req)+
    then show ?thesis using r(1) 2 by (simp add: exec_path_def get_path2_def errno_defs)
  next
    case 3
    then have "path_inv (f', hs, q)" using path_inv_locks [OF inv(1) r(2)] r(3) by simp
    then show ?thesis using r(1) 3 by (simp add: exec_path_def get_path2_def)
  qed
qed

lemma space_remove: "space hs q \<Longrightarrow> space (remove1 h hs) q"
  by (cases "h \<in> set hs") (auto simp: space_def length_remove1)

lemma exec_path_inv:
  assumes inv: "path_inv (f, hs, q)" "space hs q" and ok: "path_op_ok op (f, hs, q)"
  shows "\<exists>s'. exec_path op (f, hs, q) = Inr s' \<and> path_inv s'"
proof (cases op)
  case (GetPath i name wr)
  then show ?thesis using get_path_inv [OF inv] ok by (simp add: path_op_ok_def)
next
  case (GetPath2 i1 name1 wr1 i2 name2 wr2)
  then show ?thesis using get_path2_inv [OF inv] ok by (simp add: path_op_ok_def)
next
  case (FreePath h)
  obtain f1 where u: "unlock_path f (fst h) (snd h) None = Inr f1" "path_inv (f1, remove1 h hs, q)"
    using unlock_inv [OF inv, of h] ok FreePath by (auto simp: path_op_ok_def)
  obtain q2 f2 where "wake_up_queued f1 q = Inr (q2, f2)" "path_inv (f2, remove1 h hs, q2)"
    using wake_inv [OF u(2) space_remove [OF inv(2)]] by blast
  then show ?thesis using u FreePath by (auto simp: exec_path_def free_path_wrlock_def)
next
  case (FreePath2 h1 h2)
  then have h: "h1 \<in> set hs" "h2 \<in> set (remove1 h1 hs)" using ok by (simp_all add: path_op_ok_def)
  obtain f1 where u1: "unlock_path f (fst h1) (snd h1) None = Inr f1" "path_inv (f1, remove1 h1 hs, q)"
    using unlock_inv [OF inv h(1)] by blast
  obtain f2 where u2: "unlock_path f1 (fst h2) (snd h2) None = Inr f2" "path_inv (f2, remove1 h2 (remove1 h1 hs), q)"
    using unlock_inv [OF u1(2) space_remove [OF inv(2)] h(2)] by blast
  obtain q3 f3 where "wake_up_queued f2 q = Inr (q3, f3)" "path_inv (f3, remove1 h2 (remove1 h1 hs), q3)"
    using wake_inv [OF u2(2) space_remove [OF space_remove [OF inv(2)]]] by blast
  then show ?thesis using u1(1) u2(1) FreePath2 by (auto simp: exec_path_def free_path2_def)
next
  case (Collect k)
  then show ?thesis using dequeue_inv [OF inv(1), of k] ok by (auto simp: exec_path_def wait_path_def path_op_ok_def)
next
  case (WaitFor i)
  then obtain n d where n: "fn_heap f n = Some d" "nd_nodeid d = i" using ok by (auto simp: path_op_ok_def)
  then show ?thesis
    using queue_inv [OF inv(1) waiting_node_ok waiting_holds(3)] WaitFor by (auto simp: exec_path_def)
next
  case (StopWaiting k)
  then have k: "k < length q" "\<not> qe_wants1 (q ! k)" using ok by (simp_all add: path_op_ok_def)
  then have "qe_ok f (q ! k)" using inv(1) by (simp add: path_inv_def)
  then have "qe_holds (q ! k) = []" using k(2) by (auto simp: qe_ok_def qe_holds_def first_hold_def second_hold_def split: if_splits)
  then show ?thesis using dequeue_inv [OF inv(1) k(1)] StopWaiting by (simp add: exec_path_def)
qed

text \<open>The states that sequences of calls reach from nodes without locks.\<close>

inductive path_reach :: "fuse_nodes \<Rightarrow> path_state \<Rightarrow> bool" for f0 where
  start: "path_reach f0 (f0, [], [])"
| step: "path_reach f0 (f, hs, q) \<Longrightarrow> space hs q \<Longrightarrow> path_op_ok op (f, hs, q) \<Longrightarrow> exec_path op (f, hs, q) = Inr s' \<Longrightarrow> path_reach f0 s'"

lemma counted_empty: "counted L [] \<longleftrightarrow> (\<forall>x. L x = 0)"
  by (simp add: counted_def lock_state_def reads_def writes_def)

lemma path_reach_inv:
  assumes "nodes_ok f0" "\<forall>x. locks f0 x = 0"
  shows "path_reach f0 s \<Longrightarrow> path_inv s"
proof (induction rule: path_reach.induct)
  case start
  show ?case using assms by (simp add: path_inv_def lock_inv_def counted_empty nodes_ok_def)
next
  case (step f hs q op s')
  then show ?case using exec_path_inv [of f hs q op] by auto
qed

section \<open>Properties\<close>

text \<open>No node is locked for writing by two, or on the path of anybody while it is.\<close>

definition exclusive :: "fuse_nodes \<Rightarrow> path_hold list \<Rightarrow> bool" where
  "exclusive f hs \<longleftrightarrow> (\<forall>i < length hs. \<forall>j < length hs. \<forall>x. snd (hs ! i) = Some x \<longrightarrow>
     x \<notin> set (way f (fst (hs ! j))) \<and> (snd (hs ! j) = Some x \<longrightarrow> j = i))"

lemma lock_inv_exclusive:
  assumes "lock_inv f hs"
  shows "exclusive f hs"
  unfolding exclusive_def
proof (intro allI impI conjI)
  fix i j x
  assume i: "i < length hs" "snd (hs ! i) = Some x" and j: "j < length hs"
  have c: "counted (locks f) (map (holder_of f) hs)" using assms by (simp add: lock_inv_def)
  have s: "snd (map (holder_of f) hs ! i) = Some x" using i by (simp add: holder_of_def)
  show "x \<notin> set (way f (fst (hs ! j)))" using counted_exclusive(2) [OF c _ s, of j] i(1) j by (simp add: holder_of_def)
  show "j = i" if "snd (hs ! j) = Some x" using counted_exclusive(1) [OF c _ s, of j] i(1) j that by (simp add: holder_of_def)
qed

text \<open>
  (C9) However the calls of several threads that lock, unlock, wait and wake up interleave, every call
  returns: no assertion about locks fails and the walks up the tree end. A node that is locked for
  writing is locked by one request and is on the locked path of none, whether the request runs or
  waits in the queue. Only the first of the queue holds one path while it waits for another, so the
  waiting requests do not block each other.
\<close>

theorem path_locks_safe:
  assumes "nodes_ok f0" "\<forall>x. locks f0 x = 0" "path_reach f0 (f, hs, q)" "space hs q" "path_op_ok op (f, hs, q)"
  shows "(\<exists>s'. exec_path op (f, hs, q) = Inr s') \<and> exclusive f (concat (map qe_holds q) @ hs) \<and>
    (\<forall>qe \<in> set (tl q). qe_holds qe = [] \<or> served qe)"
proof -
  have inv: "path_inv (f, hs, q)" using path_reach_inv [OF assms(1-3)] .
  then have "lock_inv f (concat (map qe_holds q) @ hs)" "\<forall>qe \<in> set (tl q). qe_holds qe = [] \<or> served qe" by (simp_all add: path_inv_def)
  then show ?thesis using exec_path_inv [OF inv assms(4,5)] lock_inv_exclusive by blast
qed

text \<open>The root of a new file system, whose path every request may lock.\<close>

lemma walk_from_root: "at_root h n \<Longrightarrow> walk h n ns m \<Longrightarrow> ns = [] \<and> m = n"
  by (erule walk.cases) (auto simp: at_root_def)

lemma root_start:
  "\<exists>f. nodes_ok f \<and> (\<forall>x. locks f x = 0) \<and> request_ok f FUSE_ROOT_ID None False \<and> linked f FUSE_ROOT_ID \<and> fn_realloc f = []"
proof -
  obtain f0 d where f0: "nodes_ok f0" "fn_heap f0 = [8336 \<mapsto> d]" "nd_nodeid d = FUSE_ROOT_ID" "nd_treelock d = 0" "nd_name d = Some ''/''"
    using page_start by blast
  define f where "f = f0\<lparr>fn_realloc := []\<rparr>"
  have f: "nodes_ok f" "fn_heap f = [8336 \<mapsto> d]" "fn_realloc f = []" using f0 by (simp_all add: f_def)
  have r: "at_root (fn_heap f) 8336" using f(2) f0(3) by (simp add: at_root_def)
  have "fits (fn_heap f) 8336 (Suc (length (name_text None)))"
    unfolding fits_def
  proof (intro allI impI)
    fix ns m
    assume "walk (fn_heap f) 8336 ns m"
    then have "ns = []" using walk_from_root [OF r] by blast
    then show "length (path_text (fn_heap f) ns) + Suc (length (name_text None)) < 0xffffffff" by (simp add: name_text_def)
  qed
  moreover have "c_names (fn_heap f)" using f(2) f0(5) by (auto simp: c_names_def NUL_CHAR_def split: if_splits)
  ultimately have "request_ok f FUSE_ROOT_ID None False" using f(2) f0(3) by (auto simp: request_ok_def name_ok_def)
  moreover have "walk (fn_heap f) 8336 [] 8336" using f(2) by (intro walk.stop) simp
  then have "linked f FUSE_ROOT_ID"
    unfolding linked_def using f(2) f0(3) r by (intro exI [of _ 8336] exI [of _ d] exI [of _ "[]"]) auto
  moreover have "locks f x = 0" for x using f(2) f0(4) by (simp add: lock_of_def)
  ultimately show ?thesis using f(1,3) by blast
qed

theorem path_locks_safe_witness:
  "\<exists>f s'. path_reach f (f, [], []) \<and> exec_path (GetPath FUSE_ROOT_ID None False) (f, [], []) = Inr s' \<and> exclusive f []"
proof -
  obtain f where f: "nodes_ok f" "\<forall>x. locks f x = 0" "request_ok f FUSE_ROOT_ID None False"
    using root_start by blast
  have r: "path_reach f (f, [], [])" by (rule path_reach.start)
  have "space [] []" "path_op_ok (GetPath FUSE_ROOT_ID None False) (f, [], [])"
    using f(3) by (simp_all add: space_def int_defs path_op_ok_def)
  from path_locks_safe [OF f(1,2) r this] show ?thesis using r by auto
qed

text \<open>Following names from the root, one lookup after the other.\<close>

fun resolve_names :: "fuse_nodes \<Rightarrow> 64 word \<Rightarrow> string list \<Rightarrow> 64 word option res" where
  "resolve_names f i [] = Inr (Some i)"
| "resolve_names f i (nm # nms) =
     bind_res (lookup_node f i nm) (\<lambda>r.
       case r of None \<Rightarrow> Inr None | Some n \<Rightarrow> bind_res (node f n) (\<lambda>d. resolve_names f (nd_nodeid d) nms))"

definition names_on :: "node_heap \<Rightarrow> nat list \<Rightarrow> string list" where
  "names_on h ns = rev (map (\<lambda>n. the (nd_name (the (h n)))) ns)"

definition join_names :: "string list \<Rightarrow> string" where
  "join_names nms = concat (map (\<lambda>nm. CHR ''/'' # nm) nms)"

lemma path_text_names: "path_text h ns = join_names (names_on h ns)"
  by (induction ns) (simp_all add: names_on_def join_names_def)

lemma resolve_then:
  "resolve_names f i (xs @ ys) = bind_res (resolve_names f i xs) (\<lambda>r. case r of None \<Rightarrow> Inr None | Some j \<Rightarrow> resolve_names f j ys)"
proof (induction xs arbitrary: i)
  case (Cons nm xs)
  show ?case
  proof (cases "lookup_node f i nm")
    case (Inr r)
    then show ?thesis using Cons by (cases r; cases "node f (the r)") auto
  qed simp
qed simp

lemma resolve_walk:
  assumes "nodes_ok f" "at_root (fn_heap f) m"
  shows "walk (fn_heap f) n ns m \<Longrightarrow> fn_heap f n = Some e \<Longrightarrow> resolve_names f FUSE_ROOT_ID (names_on (fn_heap f) ns) = Inr (Some (nd_nodeid e))"
proof (induction ns arbitrary: n e)
  case Nil
  then have "m = n" by (auto elim: walk_NilE)
  then show ?case using Nil.prems(2) assms(2) by (simp add: names_on_def at_root_def)
next
  case (Cons x ns)
  obtain nm p where d: "x = n" "nd_nodeid e \<noteq> FUSE_ROOT_ID" "nd_name e = Some nm" "nd_parent e = Some p" "walk (fn_heap f) p ns m"
    using Cons.prems by (auto elim!: walk_ConsE)
  obtain pd where pd: "fn_heap f p = Some pd" using walk_rel(5) [OF d(5)] by auto
  have "node_key (fn_heap f) n = Some (nd_nodeid pd, nm)" using Cons.prems(2) d pd by (simp add: node_key_def)
  then have "lookup_node f (nd_nodeid pd) nm = Inr (Some n)" by (rule lookup_node_found [OF assms(1)])
  moreover have "names_on (fn_heap f) (x # ns) = names_on (fn_heap f) ns @ [nm]" using Cons.prems(2) d(1,3) by (simp add: names_on_def)
  ultimately show ?case using Cons.IH [OF d(5) pd] Cons.prems(2) by (simp add: resolve_then node_def)
qed

lemma same_heap:
  assumes "same_tree f f'" "\<forall>x. locks f x = 0" "\<forall>x. locks f' x = 0"
  shows "fn_heap f' = fn_heap f"
proof -
  obtain L where h: "fn_heap f' = relock L (fn_heap f)" using assms(1) by (auto simp: same_tree_def)
  show ?thesis
  proof
    fix x
    show "fn_heap f' x = fn_heap f x"
    proof (cases "fn_heap f x")
      case None
      then show ?thesis by (simp add: h relock_def)
    next
      case (Some d)
      have "locks f' x = L x" using Some by (simp add: h lock_of_def)
      then show ?thesis using Some assms(2,3) lock_of_Some [of "fn_heap f" x d] by (simp add: h)
    qed
  qed
qed

text \<open>
  (C10) While no path is locked, asking for the path of a node never waits. It gives the names that
  lead from the root to the node, each found by a lookup in the directory before it, with a slash in
  front of each and the given name at the end; the buffer is never overrun. It fails only when the
  node was cut off from the root or memory is short. Freeing the path puts every node back as it was.
\<close>

theorem get_path_names:
  assumes "nodes_ok f" "\<forall>x. locks f x = 0" "request_ok f i name wr"
  shows "\<exists>err path w f'. get_path_common f [] i name wr = Inr (Returns (err, path, w), [], f') \<and> nodes_ok f' \<and>
    (if err = 0
     then (\<exists>nms. resolve_names f FUSE_ROOT_ID nms = Inr (Some i) \<and>
            path = Some (let s = join_names (nms @ (case name of None \<Rightarrow> [] | Some nm \<Rightarrow> [nm])) in if s = [] then ''/'' else s)) \<and>
          (\<exists>f''. free_path_wrlock f' [] i w = Inr ([], f'') \<and> fn_heap f'' = fn_heap f)
     else fn_heap f' = fn_heap f \<and> (err = - ENOENT \<and> \<not> linked f i \<or> err = - ENOMEM \<and> False \<in> set (fn_realloc f)))"
proof -
  have ti: "tree_inv f {}" "ids_distinct (fn_heap f)" using assms(1) by (simp_all add: nodes_ok_def tree_inv_def)
  have inv: "lock_inv f []" "room []" using assms(2) ti(1) by (simp_all add: lock_inv_def counted_empty room_def int_defs)
  obtain err path w f' where r: "try_get_path f i name wr True = Inr (err, path, w, f')" "same_tree f f'"
    "if err = 0 then lock_inv f' ((i, w) # []) \<and> path = Some (full_path (fn_heap f) (way f i) (name_text name))
     else path = None \<and> w = None \<and> lock_inv f' []"
    using lock_law [OF inv assms(3)] by blast
  have no: "nodes_ok f'" using same_tree_nodes_ok [OF r(2)] assms(1) by simp
  show ?thesis
  proof (cases "err = 0")
    case True
    then have "hold_ok f' (i, w)" using r(3) by (simp add: lock_inv_def)
    then have "linked f i" using linked_view [OF same_tree_view [OF r(2), symmetric]] by (simp add: hold_ok_def)
    then obtain n d ns m where n: "fn_heap f n = Some d" "nd_nodeid d = i" "walk (fn_heap f) n ns m" "at_root (fn_heap f) m"
      by (auto simp: linked_def)
    have "resolve_names f FUSE_ROOT_ID (names_on (fn_heap f) ns) = Inr (Some i)"
      using resolve_walk [OF assms(1) n(4,3,1)] n(2) by simp
    moreover have "way f i = ns" using way_eq [OF ti(2) n(1,3,4)] n(2) by simp
    then have "path = Some (let s = join_names (names_on (fn_heap f) ns @ (case name of None \<Rightarrow> [] | Some nm \<Rightarrow> [nm])) in if s = [] then ''/'' else s)"
      using r(3) True by (simp add: full_path_def path_text_names join_names_def name_text_def split: option.splits)
    moreover obtain f'' where u: "unlock_path f' i w None = Inr f''" "same_tree f' f''" "lock_inv f'' []"
      using unlock_law [of f' "[(i, w)]" "(i, w)"] r(3) True by (auto simp: room_def int_defs)
    moreover have "fn_heap f'' = fn_heap f"
      using same_heap [OF same_tree_trans [OF r(2) u(2)] assms(2)] u(3) by (simp add: lock_inv_def counted_empty)
    ultimately show ?thesis
      using r(1) True no by (auto simp: get_path_common_def free_path_wrlock_def errno_defs)
  next
    case False
    obtain n d where n: "fn_heap f n = Some d" "nd_nodeid d = i" "refusal f n None err"
      using lock_refused [OF inv assms(3) r(1) False] by blast
    have "\<not> linked f i" if c: "walk (fn_heap f) n ns m" "cut_off (fn_heap f) m" for ns m
    proof
      assume "linked f i"
      then obtain n' d' ns' m' where l: "fn_heap f n' = Some d'" "nd_nodeid d' = i" "walk (fn_heap f) n' ns' m'" "at_root (fn_heap f) m'"
        by (auto simp: linked_def)
      have "n' = n" using ti(2) l(1,2) n(1,2) unfolding ids_distinct_def by metis
      then have "m' = m" using walk_end_unique [OF c(1), of ns' m'] c(2) l(3,4) by blast
      then show False using c(2) l(4) by (auto simp: cut_off_def at_root_def)
    qed
    then have e: "err = - ENOENT \<and> \<not> linked f i \<or> err = - ENOMEM \<and> False \<in> set (fn_realloc f)"
      using n(3) assms(2) by (auto simp: refusal_def)
    moreover have "fn_heap f' = fn_heap f"
      using same_heap [OF r(2) assms(2)] r(3) False by (simp add: lock_inv_def counted_empty)
    ultimately show ?thesis
      using r(1,3) False no by (auto simp: get_path_common_def errno_defs)
  qed
qed

theorem get_path_names_witness:
  "\<exists>f nms w f' f''. nodes_ok f \<and>
     get_path_common f [] FUSE_ROOT_ID None False =
       Inr (Returns (0, Some (if join_names nms = [] then ''/'' else join_names nms), w), [], f') \<and>
     resolve_names f FUSE_ROOT_ID nms = Inr (Some FUSE_ROOT_ID) \<and> free_path_wrlock f' [] FUSE_ROOT_ID w = Inr ([], f'') \<and> fn_heap f'' = fn_heap f"
proof -
  obtain f where f: "nodes_ok f" "\<forall>x. locks f x = 0" "request_ok f FUSE_ROOT_ID None False" "linked f FUSE_ROOT_ID" "fn_realloc f = []"
    using root_start by blast
  from get_path_names [OF f(1-3), unfolded option.case(1)] obtain err path w f' where r: "get_path_common f [] FUSE_ROOT_ID None False = Inr (Returns (err, path, w), [], f')"
    "if err = 0
     then (\<exists>nms. resolve_names f FUSE_ROOT_ID nms = Inr (Some FUSE_ROOT_ID) \<and>
            path = Some (let s = join_names (nms @ []) in if s = [] then ''/'' else s)) \<and>
          (\<exists>f''. free_path_wrlock f' [] FUSE_ROOT_ID w = Inr ([], f'') \<and> fn_heap f'' = fn_heap f)
     else fn_heap f' = fn_heap f \<and> (err = - ENOENT \<and> \<not> linked f FUSE_ROOT_ID \<or> err = - ENOMEM \<and> False \<in> set (fn_realloc f))"
    by blast
  then have "err = 0" using f(4,5) by (auto split: if_splits)
  with r obtain nms f'' where "resolve_names f FUSE_ROOT_ID nms = Inr (Some FUSE_ROOT_ID)" "path = Some (if join_names nms = [] then ''/'' else join_names nms)"
    "free_path_wrlock f' [] FUSE_ROOT_ID w = Inr ([], f'')" "fn_heap f'' = fn_heap f"
    by (auto simp: Let_def)
  with r(1) f(1) \<open>err = 0\<close> show ?thesis by blast
qed

end
