(* ===== verification/Lib_Frames.thy ===== *)
theory Lib_Frames
  imports Path_Props
begin

unbundle bit_operations_syntax

text \<open>
  What the operations on nodes leave alone. A request works on the nodes while it holds a path; these
  lemmas show that no operation moves a node of the path, changes a lock or frees a locked node, so that
  the path can be unlocked afterwards.
\<close>

declare unhash_name.simps [simp del] unref_node.simps [simp del] delete_node.simps [simp del]

section \<open>Nodes that stay where they are\<close>

text \<open>No node goes, only the nodes \<open>M\<close> change their place, and a new node is not locked.\<close>

definition stays :: "nat set \<Rightarrow> nat \<Rightarrow> fnode \<Rightarrow> fnode \<Rightarrow> bool" where
  "stays M x d d' \<longleftrightarrow> nd_nodeid d' = nd_nodeid d \<and> nd_treelock d' = nd_treelock d \<and> nd_open_count d' = nd_open_count d \<and>
     (nd_nlookup d \<noteq> 0 \<longrightarrow> nd_nlookup d' \<noteq> 0) \<and>
     (x \<notin> M \<longrightarrow> nd_parent d' = nd_parent d \<and> nd_name d' = nd_name d)"

definition moves :: "nat set \<Rightarrow> fuse_nodes \<Rightarrow> fuse_nodes \<Rightarrow> bool" where
  "moves M f f' \<longleftrightarrow> (\<forall>x d. fn_heap f x = Some d \<longrightarrow> (\<exists>d'. fn_heap f' x = Some d' \<and> stays M x d d')) \<and>
     (\<forall>x d'. fn_heap f x = None \<longrightarrow> fn_heap f' x = Some d' \<longrightarrow> nd_treelock d' = 0 \<and> nd_open_count d' = 0)"

lemma stays_refl [simp]: "stays M x d d"
  by (simp add: stays_def)

lemma moves_same: "fn_heap f' = fn_heap f \<Longrightarrow> moves M f f'"
  by (simp add: moves_def)

lemma moves_refl [simp]: "moves M f f"
  by (rule moves_same) simp

lemma movesD: "moves M f f' \<Longrightarrow> fn_heap f x = Some d \<Longrightarrow> \<exists>d'. fn_heap f' x = Some d' \<and> stays M x d d'"
  by (simp add: moves_def)

lemma moves_mono: "moves M f f' \<Longrightarrow> M \<subseteq> N \<Longrightarrow> moves N f f'"
  unfolding moves_def stays_def by (meson subsetD)

lemma moves_trans:
  assumes "moves M f g" "moves M g h" shows "moves M f h"
  unfolding moves_def
proof (intro conjI allI impI)
  fix x d
  assume "fn_heap f x = Some d"
  from movesD [OF assms(1) this] obtain e where e: "fn_heap g x = Some e" "stays M x d e" by blast
  from movesD [OF assms(2) e(1)] obtain d' where "fn_heap h x = Some d'" "stays M x e d'" by blast
  then show "\<exists>d'. fn_heap h x = Some d' \<and> stays M x d d'" using e(2) by (auto simp: stays_def)
next
  fix x d'
  assume x: "fn_heap f x = None" "fn_heap h x = Some d'"
  have "nd_treelock d' = 0 \<and> nd_open_count d' = 0"
  proof (cases "fn_heap g x")
    case None
    then show ?thesis using assms(2) x(2) by (simp add: moves_def)
  next
    case (Some e)
    then have "nd_treelock e = 0 \<and> nd_open_count e = 0" using assms(1) x(1) by (simp add: moves_def)
    then show ?thesis using movesD [OF assms(2) Some] x(2) by (auto simp: stays_def)
  qed
  then show "nd_treelock d' = 0" "nd_open_count d' = 0" by simp_all
qed

lemma moves_put: "fn_heap f x = Some d \<Longrightarrow> stays M x d d' \<Longrightarrow> moves M f (put_node x d' f)"
  by (simp add: moves_def)

lemma moves_locks: "moves M f f' \<Longrightarrow> locks f' = locks f"
proof
  fix x
  assume m: "moves M f f'"
  show "locks f' x = locks f x"
  proof (cases "fn_heap f x")
    case None
    then show ?thesis using m by (auto simp: moves_def lock_of_def split: option.splits)
  next
    case (Some d)
    then show ?thesis using movesD [OF m Some] by (auto simp: lock_of_def stays_def)
  qed
qed

section \<open>Holders of paths\<close>

lemma walk_kept:
  assumes "\<And>x d. x \<in> set ns \<Longrightarrow> fn_heap f x = Some d \<Longrightarrow>
      \<exists>d'. fn_heap f' x = Some d' \<and> nd_nodeid d' = nd_nodeid d \<and> nd_parent d' = nd_parent d \<and> nd_name d' = nd_name d"
    and "fn_heap f' m \<noteq> None" and "walk (fn_heap f) n ns m"
  shows "walk (fn_heap f') n ns m"
  using assms(3,1,2)
proof (induction rule: walk.induct)
  case (step n d nm p ns m)
  obtain d' where "fn_heap f' n = Some d'" "nd_nodeid d' = nd_nodeid d" "nd_parent d' = nd_parent d" "nd_name d' = nd_name d"
    using step.prems(1) step.hyps(1) by (meson list.set_intros(1))
  moreover have "walk (fn_heap f') p ns m" using step by (meson list.set_intros(2))
  ultimately show ?case using step.hyps by (intro walk.step) simp_all
qed (auto intro: walk.stop)

text \<open>The ways of the holders are kept when their nodes are; the other conditions concern the locks.\<close>

lemma lock_inv_kept:
  assumes inv: "lock_inv f hs" and t: "tree_inv f' {}" and l: "locks f' = locks f"
    and nodes: "\<And>h x d. h \<in> set hs \<Longrightarrow> x \<in> set (way f (fst h)) \<Longrightarrow> fn_heap f x = Some d \<Longrightarrow>
      \<exists>d'. fn_heap f' x = Some d' \<and> nd_nodeid d' = nd_nodeid d \<and> nd_parent d' = nd_parent d \<and> nd_name d' = nd_name d"
    and ends: "\<And>h n d. h \<in> set hs \<Longrightarrow> fn_heap f n = Some d \<Longrightarrow> nd_nodeid d = fst h \<or> at_root (fn_heap f) n \<Longrightarrow>
      \<exists>d'. fn_heap f' n = Some d' \<and> nd_nodeid d' = nd_nodeid d"
    and writes: "\<And>h x. h \<in> set hs \<Longrightarrow> snd h = Some x \<Longrightarrow> x \<in> dom (fn_heap f')"
  shows "lock_inv f' hs \<and> (\<forall>h \<in> set hs. way f' (fst h) = way f (fst h))"
proof -
  have ids: "ids_distinct (fn_heap f)" "ids_distinct (fn_heap f')" using inv t by (simp_all add: lock_inv_def tree_inv_def)
  have way: "linked f' (fst h) \<and> way f' (fst h) = way f (fst h)" if h: "h \<in> set hs" for h
  proof -
    obtain n d ns m where n: "fn_heap f n = Some d" "nd_nodeid d = fst h" "walk (fn_heap f) n ns m" "at_root (fn_heap f) m"
      using inv h by (auto simp: lock_inv_def hold_ok_def linked_def)
    have ns: "way f (fst h) = ns" using way_eq [OF ids(1) n(1,3,4)] n(2) by simp
    obtain dm where dm: "fn_heap f m = Some dm" "nd_nodeid dm = FUSE_ROOT_ID" using n(4) by (auto simp: at_root_def)
    then obtain m' where m': "fn_heap f' m = Some m'" "nd_nodeid m' = FUSE_ROOT_ID" using ends [OF h dm(1)] n(4) by auto
    obtain d' where d': "fn_heap f' n = Some d'" "nd_nodeid d' = fst h" using ends [OF h n(1)] n(2) by auto
    have w: "walk (fn_heap f') n ns m" using nodes [OF h] ns m' by (intro walk_kept [OF _ _ n(3)]) auto
    have r: "at_root (fn_heap f') m" using m' by (simp add: at_root_def)
    show ?thesis using d' w r ns way_eq [OF ids(2) d'(1) w r] by (auto simp: linked_def)
  qed
  then have h: "holder_of f' h = holder_of f h" "hold_ok f' h" if "h \<in> set hs" for h
    using that way writes by (auto simp: holder_of_def hold_ok_def)
  then have "map (holder_of f') hs = map (holder_of f) hs" by simp
  then have "counted (locks f') (map (holder_of f') hs)" using inv l by (simp only: lock_inv_def)
  then show ?thesis using t h(2) way by (simp add: lock_inv_def)
qed

lemma lock_inv_moves:
  assumes inv: "lock_inv f hs" and t: "tree_inv f' {}" and m: "moves M f f'"
    and free: "\<And>h. h \<in> set hs \<Longrightarrow> M \<inter> set (way f (fst h)) = {}"
  shows "lock_inv f' hs \<and> (\<forall>h \<in> set hs. way f' (fst h) = way f (fst h))"
proof (rule lock_inv_kept [OF inv t moves_locks [OF m]])
  fix h x d
  assume h: "h \<in> set hs" "x \<in> set (way f (fst h))" "fn_heap f x = Some d"
  then have "x \<notin> M" using free [OF h(1)] by blast
  then show "\<exists>d'. fn_heap f' x = Some d' \<and> nd_nodeid d' = nd_nodeid d \<and> nd_parent d' = nd_parent d \<and> nd_name d' = nd_name d"
    using movesD [OF m h(3)] by (auto simp: stays_def)
next
  fix h n d
  assume "fn_heap f n = Some d"
  then show "\<exists>d'. fn_heap f' n = Some d' \<and> nd_nodeid d' = nd_nodeid d" using movesD [OF m] by (auto simp: stays_def)
next
  fix h x
  assume "h \<in> set hs" "snd h = Some x"
  then have "x \<in> dom (fn_heap f)" using inv by (simp add: lock_inv_def hold_ok_def)
  then show "x \<in> dom (fn_heap f')" using movesD [OF m] by auto
qed

section \<open>The operations\<close>

lemma next_ok_sel [simp]:
  "fn_heap (snd (next_ok f)) = fn_heap f" "fn_clock (snd (next_ok f)) = fn_clock f" "fn_ids (snd (next_ok f)) = fn_ids f"
  by (simp_all add: next_ok_def split: list.splits)

lemma next_okD: "next_ok f = (b, g) \<Longrightarrow> fn_heap g = fn_heap f \<and> fn_clock g = fn_clock f \<and> fn_ids g = fn_ids f"
  using next_ok_sel [of f] by simp

lemma hash_name_moves:
  assumes "hash_name f n i nm = Inr (err, f')"
  shows "moves {n} f f' \<and> fn_clock f' = fn_clock f"
proof -
  obtain p where p: "get_node f i = Inr p" using assms by (auto simp: hash_name_def bind_res_Inr_iff)
  obtain dup f1 where f1: "(if length nm < INLINE_NAME then (True, f) else next_ok f) = (dup, f1)" by fastforce
  have h: "fn_heap f1 = fn_heap f" "fn_clock f1 = fn_clock f" using f1 by (auto dest: next_okD split: if_splits)
  show ?thesis
  proof (cases dup)
    case False
    then obtain d where "fn_heap f n = Some d" "f' = put_node n (d\<lparr>nd_name := None\<rparr>) f1"
      using assms p f1 h by (auto simp: hash_name_def node_def res_iffs)
    then show ?thesis using h by (simp add: moves_def stays_def)
  next
    case True
    then obtain pd d where d: "fn_heap f p = Some pd" "((fn_heap f)(p \<mapsto> bump pd)) n = Some d"
      "fn_heap f' = (fn_heap f)(p \<mapsto> bump pd, n \<mapsto> d\<lparr>nd_name := Some nm, nd_parent := Some p\<rparr>)" "fn_clock f' = fn_clock f"
      using assms p f1 True by (cases "n = p") (auto simp: hash_name_def node_def res_iffs chk_int_Inr_iff bump_def Let_def split_beta h)
    then show ?thesis by (auto simp: moves_def stays_def bump_def split: if_splits)
  qed
qed

lemma put_moves:
  "fn_heap f x = Some d \<Longrightarrow> nd_nodeid d' = nd_nodeid d \<Longrightarrow> nd_treelock d' = nd_treelock d \<Longrightarrow> nd_open_count d' = nd_open_count d \<Longrightarrow>
   nd_parent d' = nd_parent d \<Longrightarrow> nd_name d' = nd_name d \<Longrightarrow> (nd_nlookup d \<noteq> 0 \<Longrightarrow> nd_nlookup d' \<noteq> 0) \<Longrightarrow> moves M f (put_node x d' f)"
  by (intro moves_put) (auto simp: stays_def)

lemma unhash_moves:
  assumes ok: "nodes_ok f" and n: "fn_heap f n = Some d"
    and p: "case nd_parent d of None \<Rightarrow> nd_name d = None | Some p \<Rightarrow> (\<exists>pd. fn_heap f p = Some pd \<and> nd_nlookup pd \<noteq> 0)"
    and u: "unhash_name f n = Inr f'"
  shows "moves {n} f f'"
proof (cases "nd_parent d")
  case None
  then have "f' = f" using p u n by (simp add: unhash_name.simps [of f n])
  then show ?thesis by simp
next
  case (Some q)
  then obtain pd where pd: "fn_heap f q = Some pd" "nd_nlookup pd \<noteq> 0" using p by auto
  have "fn_heap f' = (fn_heap f)(q \<mapsto> drop_ref pd, n \<mapsto> detach d)" using unhash_held [OF ok n Some pd] u by auto
  moreover have "q \<noteq> n" using ok parent_relI [of "fn_heap f", OF n Some] by (auto simp: nodes_ok_def tree_inv_def acyclic_def)
  ultimately show ?thesis using pd n by (auto simp: moves_def stays_def drop_ref_def detach_def)
qed

lemma unlink_moves:
  assumes ok: "nodes_ok f" and n: "fn_heap f n = Some d" "nd_parent d = Some p" and p: "fn_heap f p = Some pd" "nd_nlookup pd \<noteq> 0"
    and rem: "conf_remember f \<noteq> 0 \<Longrightarrow> 1 < nd_nlookup d" and u: "unlink_node f n = Inr f'"
  shows "moves {n} f f'"
proof (cases "conf_remember f = 0")
  case True
  then show ?thesis using u n p by (intro unhash_moves [OF ok n(1)]) (simp_all add: unlink_node_def)
next
  case False
  let ?d = "d\<lparr>nd_nlookup := nd_nlookup d - 1\<rparr>"
  let ?f = "put_node n ?d f"
  have big: "1 < nd_nlookup d" using False rem by simp
  then have nz: "nd_nlookup d \<noteq> 0" "nd_nlookup d - 1 \<noteq> 0" by auto
  have m1: "moves {n} f ?f" using n(1) nz by (intro put_moves) simp_all
  have "p \<noteq> n" using ok parent_relI [of "fn_heap f", OF n] by (auto simp: nodes_ok_def tree_inv_def acyclic_def)
  then have "moves {n} ?f f'"
    using n p big u False nodes_ok_put(1) [OF ok n(1), of ?d] nz
    by (intro unhash_moves [of ?f n ?d]) (simp_all add: unlink_node_def)
  with m1 show ?thesis by (rule moves_trans)
qed

lemma inc_nlookup_moves: "inc_nlookup f n = Inr f' \<Longrightarrow> fn_heap f n = Some d \<Longrightarrow> nd_nlookup d + 1 \<noteq> 0 \<Longrightarrow> moves {} f f'"
  by (auto simp: inc_nlookup_def bind_res_Inr_iff chk_int_Inr_iff stays_def intro!: moves_put split: if_splits)

lemma find_moves:
  assumes ok: "nodes_ok f" and q: "fn_heap f q = Some qd" and mm: "mmap_fresh (fn_mem f)" and room: "card (dom (fn_heap f)) < 2 ^ 31 - 3"
    and few: "\<And>n d. fn_heap f n = Some d \<Longrightarrow> nd_nlookup d + 1 \<noteq> 0"
    and r: "find_node f (nd_nodeid qd) (Some name) = Inr (r, f')"
  shows "moves {} f f'"
proof -
  have t: "tree_inv f {}" using ok by (simp add: nodes_ok_def)
  obtain l where l: "lookup_node f (nd_nodeid qd) name = Inr l"
    "case l of None \<Rightarrow> (\<forall>n \<in> named (fn_heap f) {}. node_key (fn_heap f) n \<noteq> Some (nd_nodeid qd, name))
     | Some n \<Rightarrow> n \<in> named (fn_heap f) {} \<and> node_key (fn_heap f) n = Some (nd_nodeid qd, name)"
    using lookup_node_ok [OF t] by blast
  show ?thesis
  proof (cases l)
    case None
    obtain r1 f1 where f1: "new_node f (nd_nodeid qd) name = Inr (r1, f1)"
      "case r1 of None \<Rightarrow> fn_heap f1 = fn_heap f
       | Some n \<Rightarrow> (\<exists>d. new_entry f q name n d \<and> fn_heap f1 = (fn_heap f)(q \<mapsto> bump qd, n \<mapsto> d))"
      using new_node_ok [OF ok mm room q] None l(2) by fastforce
    show ?thesis
    proof (cases r1)
      case None
      then show ?thesis using f1 l(1) \<open>l = None\<close> r by (simp add: find_node_def moves_same)
    next
      case (Some n)
      then obtain d where d: "new_entry f q name n d" "fn_heap f1 = (fn_heap f)(q \<mapsto> bump qd, n \<mapsto> d)" using f1(2) by auto
      have "moves {} f f1" using d q by (auto simp: moves_def stays_def new_entry_def bump_def)
      moreover have "moves {} f1 f'"
        using r f1(1) l(1) None Some \<open>l = None\<close> d by (intro inc_nlookup_moves [of f1 n f' d]) (auto simp: find_node_def new_entry_def bind_res_Inr_iff)
      ultimately show ?thesis by (rule moves_trans)
    qed
  next
    case (Some n)
    then obtain d where d: "fn_heap f n = Some d" using l(2) by (auto simp: named_def parent_rel_def)
    let ?f1 = "if lru_enabled (fn_mem f) \<and> nd_nlookup d = 1 then remove_node_lru n f else f"
    have "moves {} f ?f1" by (intro moves_same) (simp add: remove_node_lru_def)
    moreover have "moves {} ?f1 f'"
      using r l(1) Some d few [OF d] by (intro inc_nlookup_moves [of ?f1 n f' d]) (auto simp: find_node_def bind_res_Inr_iff remove_node_lru_def)
    ultimately show ?thesis by (rule moves_trans)
  qed
qed

lemma next_id_clock:
  assumes "next_id f = Some (Inr (i, g))" shows "fn_clock g = fn_clock f"
proof -
  have "\<forall>i g. r = Inr (i, g) \<longrightarrow> fn_clock g = fn_clock f" if "next_id f = Some r" for f r
  proof (rule next_id.raw_induct [where P = "\<lambda>f r. \<forall>i g. r = Inr (i, g) \<longrightarrow> fn_clock g = fn_clock f", OF _ that])
    fix rec f r
    assume "\<And>f r. rec f = Some r \<Longrightarrow> \<forall>i g. r = Inr (i, g) \<longrightarrow> fn_clock g = fn_clock f"
      "(let ctr = (fn_ctr f + 1) AND 0xffffffff;
          f1 = f\<lparr>fn_ctr := ctr, fn_generation := (if ctr = 0 then fn_generation f + 1 else fn_generation f)\<rparr> in
        if ctr = 0 \<or> ctr = FUSE_UNKNOWN_INO then rec f1
        else
          (case get_node_nocheck f1 ctr of
             Inl e \<Rightarrow> Some (Inl e) | Inr None \<Rightarrow> Some (Inr (ctr, f1)) | Inr (Some _) \<Rightarrow> rec f1)) = Some r"
    then show "\<forall>i g. r = Inr (i, g) \<longrightarrow> fn_clock g = fn_clock f"
      by (fastforce simp: Let_def split: if_splits sum.splits option.splits)
  qed
  with assms show ?thesis by blast
qed

lemma find_clock:
  assumes "find_node f dir nm = Inr (r, f')" shows "fn_clock f' = fn_clock f"
proof -
  have inc: "fn_clock g' = fn_clock g" if "inc_nlookup g n = Inr g'" for g g' n
    using that by (auto simp: inc_nlookup_def bind_res_Inr_iff)
  have fr: "fn_clock g' = fn_clock g" if "free_node g n = Inr g'" for g g' n
    using that by (auto simp: free_node_def bind_res_Inr_iff)
  have hi: "fn_clock g' = fn_clock g" if "hash_id g n = Inr g'" for g g' n
    using that by (auto simp: hash_id_def Let_def split_beta bind_res_Inr_iff)
  have "fn_clock g' = fn_clock g" if "new_node g p name = Inr (x, g')" for g p name x g'
    using that
    by (auto simp: new_node_def Let_def res_iffs split: option.splits if_splits dest!: next_id_clock hash_name_moves inc fr hi)
  then show ?thesis
    using assms by (auto simp: find_node_def Let_def res_iffs remove_node_lru_def split: option.splits if_splits dest!: inc)
qed

section \<open>Removing and renaming\<close>

text \<open>The node that has a place.\<close>

definition target :: "fuse_nodes \<Rightarrow> 64 word \<Rightarrow> string \<Rightarrow> nat set" where
  "target f dir name = {x. lookup_node f dir name = Inr (Some x)}"

lemma target_child:
  assumes ok: "nodes_ok f" and q: "fn_heap f q = Some qd" and x: "x \<in> target f (nd_nodeid qd) name"
  obtains d where "fn_heap f x = Some d" "nd_parent d = Some q" "x \<in> named (fn_heap f) {}"
    "node_key (fn_heap f) x = Some (nd_nodeid qd, name)"
proof -
  have t: "tree_inv f {}" using ok by (simp add: nodes_ok_def)
  have n: "x \<in> named (fn_heap f) {}" "node_key (fn_heap f) x = Some (nd_nodeid qd, name)"
    using lookup_node_ok [OF t, of "nd_nodeid qd" name] x by (auto simp: target_def)
  from named_parent [OF ok n q] obtain d where "fn_heap f x = Some d" "nd_parent d = Some q" by blast
  then show thesis using n by (rule that)
qed

lemma remove_moves:
  assumes ok: "nodes_ok f" and q: "fn_heap f q = Some qd" "nd_nlookup qd \<noteq> 0" and rem: "remembered f (nd_nodeid qd) name"
    and r: "remove_node f (nd_nodeid qd) name = Inr f'"
  shows "moves (target f (nd_nodeid qd) name) f f'"
proof (cases "\<exists>x. lookup_node f (nd_nodeid qd) name = Inr (Some x)")
  case True
  then obtain x where x: "lookup_node f (nd_nodeid qd) name = Inr (Some x)" by blast
  then have m: "x \<in> target f (nd_nodeid qd) name" by (simp add: target_def)
  obtain d where d: "fn_heap f x = Some d" "nd_parent d = Some q" "node_key (fn_heap f) x = Some (nd_nodeid qd, name)"
    using target_child [OF ok q(1) m] by blast
  have "unlink_node f x = Inr f'" using r x by (simp add: remove_node_def)
  then have "moves {x} f f'" using rem d by (intro unlink_moves [OF ok d(1,2) q]) (simp_all add: remembered_def)
  then show ?thesis by (rule moves_mono) (simp add: m)
next
  case False
  then show ?thesis using r by (cases "lookup_node f (nd_nodeid qd) name") (auto simp: remove_node_def split: option.splits)
qed

lemma rename_moves:
  assumes ok: "nodes_ok f" and q1: "fn_heap f q1 = Some p1" "nd_nlookup p1 \<noteq> 0" and q2: "fn_heap f q2 = Some p2" "nd_nlookup p2 \<noteq> 0"
    and rem: "remembered f (nd_nodeid p2) newname"
    and r: "rename_node f (nd_nodeid p1) oldname (nd_nodeid p2) newname hide = Inr (err, f')"
  shows "moves (target f (nd_nodeid p1) oldname \<union> target f (nd_nodeid p2) newname) f f'"
proof -
  let ?M = "target f (nd_nodeid p1) oldname \<union> target f (nd_nodeid p2) newname"
  have t: "tree_inv f {}" using ok by (simp add: nodes_ok_def)
  obtain o1 where o1: "lookup_node f (nd_nodeid p1) oldname = Inr o1" using lookup_node_ok [OF t] by blast
  obtain newr where newr: "lookup_node f (nd_nodeid p2) newname = Inr newr"
    "case newr of None \<Rightarrow> place_free (fn_heap f) (nd_nodeid p2) newname
     | Some n \<Rightarrow> n \<in> named (fn_heap f) {} \<and> node_key (fn_heap f) n = Some (nd_nodeid p2, newname)"
    using lookup_node_ok [OF t] unfolding place_free_def by blast
  show ?thesis
  proof (cases "o1 = None \<or> newr \<noteq> None \<and> hide")
    case True
    then show ?thesis using r o1 newr(1) by (auto simp: rename_node_def split: option.splits)
  next
    case False
    then obtain n where n: "o1 = Some n" by auto
    then have nM: "n \<in> target f (nd_nodeid p1) oldname" using o1 by (simp add: target_def)
    obtain d where d: "fn_heap f n = Some d" "nd_parent d = Some q1" using target_child [OF ok q1(1) nM] by blast
    obtain f1 where f1: "(case newr of None \<Rightarrow> Inr f | Some m \<Rightarrow> unlink_node f m) = Inr f1" "nodes_ok f1"
      "\<And>m. newr = Some m \<Longrightarrow> \<exists>d'. fn_heap f1 m = Some d' \<and> nd_parent d' = None \<and> nd_name d' = None"
      using free_target [OF ok q2 newr(2) rem] by blast
    obtain f2 e f3 where r2: "unhash_name f1 n = Inr f2" "hash_name f2 n (nd_nodeid p2) newname = Inr (e, f3)"
      "f' = f3 \<or> (\<exists>d3. fn_heap f3 n = Some d3 \<and> f' = put_node n (d3\<lparr>nd_is_hidden := True\<rparr>) f3)"
      using r o1 newr(1) n f1(1) False by (auto simp: rename_node_def bind_res_Inr_iff node_def the_res_Inr_iff split: if_splits)
    have m1: "moves (target f (nd_nodeid p2) newname) f f1"
    proof (cases newr)
      case None
      then show ?thesis using f1(1) by simp
    next
      case (Some m)
      then have mM: "m \<in> target f (nd_nodeid p2) newname" using newr(1) by (simp add: target_def)
      obtain dm where dm: "fn_heap f m = Some dm" "nd_parent dm = Some q2" "node_key (fn_heap f) m = Some (nd_nodeid p2, newname)"
        using target_child [OF ok q2(1) mM] by blast
      then have "1 < nd_nlookup dm" if "conf_remember f \<noteq> 0" using rem that unfolding remembered_def by blast
      then have "moves {m} f f1" using f1(1) Some by (intro unlink_moves [OF ok dm(1,2) q2]) simp_all
      then show ?thesis by (rule moves_mono) (simp add: mM)
    qed
    obtain d1 where d1: "fn_heap f1 n = Some d1" "stays (target f (nd_nodeid p2) newname) n d d1" using movesD [OF m1 d(1)] by blast
    have "case nd_parent d1 of None \<Rightarrow> nd_name d1 = None | Some p \<Rightarrow> \<exists>pd. fn_heap f1 p = Some pd \<and> nd_nlookup pd \<noteq> 0"
    proof (cases "newr = Some n")
      case True
      then show ?thesis using f1(3) d1(1) by auto
    next
      case False
      then have "n \<notin> target f (nd_nodeid p2) newname" using newr(1) by (simp add: target_def)
      then have "nd_parent d1 = Some q1" using d1(2) d(2) by (simp add: stays_def)
      then show ?thesis using movesD [OF m1 q1(1)] q1(2) by (auto simp: stays_def)
    qed
    then have "moves {n} f1 f2" using d1(1) r2(1) by (intro unhash_moves [OF f1(2)])
    moreover have "moves {n} f2 f3" using hash_name_moves [OF r2(2)] by simp
    moreover have "moves {n} f3 f'" using r2(3) by (auto intro: put_moves)
    ultimately have "moves {n} f1 f'" by (blast intro: moves_trans)
    then have "moves ?M f1 f'" by (rule moves_mono) (simp add: nM)
    moreover have "moves ?M f f1" using m1 by (rule moves_mono) simp
    ultimately show ?thesis by (blast intro: moves_trans)
  qed
qed

section \<open>Forgetting\<close>

text \<open>Nodes may go, but none comes and no lock changes.\<close>

definition shrinks :: "fuse_nodes \<Rightarrow> fuse_nodes \<Rightarrow> bool" where
  "shrinks f f' \<longleftrightarrow> (\<forall>x d'. fn_heap f' x = Some d' \<longrightarrow> (\<exists>d. fn_heap f x = Some d \<and> nd_treelock d' = nd_treelock d))"

lemma shrinks_same: "fn_heap f' = fn_heap f \<Longrightarrow> shrinks f f'"
  by (simp add: shrinks_def)

lemma shrinks_trans: "shrinks f g \<Longrightarrow> shrinks g h \<Longrightarrow> shrinks f h"
  unfolding shrinks_def by metis

lemma shrinks_put: "fn_heap f x = Some d \<Longrightarrow> nd_treelock d' = nd_treelock d \<Longrightarrow> shrinks f (put_node x d' f)"
  by (simp add: shrinks_def)

lemma unhash_id_shrinks:
  assumes "unhash_id f n = Inr f'" shows "shrinks f f'"
  using assms by (intro shrinks_same) (auto simp: unhash_id_def Let_def split_beta bind_res_Inr_iff split: option.splits)

lemma free_node_shrinks:
  assumes "free_node f n = Inr f'" shows "shrinks f f'"
  using assms by (auto simp: free_node_def bind_res_Inr_iff shrinks_def split: if_splits)

lemma drop_shrinks:
  "\<forall>f'. unhash_name f n = Inr f' \<longrightarrow> shrinks f f'"
  "\<forall>f'. unref_node f n = Inr f' \<longrightarrow> shrinks f f'"
  "\<forall>f'. delete_node f n = Inr f' \<longrightarrow> shrinks f f'"
proof (induction f n and f n and f n rule: unhash_name_unref_node_delete_node.induct)
  case (1 f n)
  show ?case
  proof (intro allI impI)
    fix f'
    assume r: "unhash_name f n = Inr f'"
    show "shrinks f f'"
    proof (cases "\<exists>d. fn_heap f n = Some d \<and> nd_name d \<noteq> None")
      case False
      then show ?thesis using r by (auto simp: unhash_name.simps [of f n] node_def res_iffs shrinks_def)
    next
      case True
      then obtain d nm where d: "node f n = Inr d" "nd_name d = Some nm" by (auto simp: node_def)
      then obtain p pd c t f1 d1 where u: "the_res (nd_parent d) NullPointer = Inr p" "node f p = Inr pd"
        "chain (fn_names f) (slot (fn_names f) (raw_name (fn_heap f) n)) = Inr c"
        "table_unlink (raw_name (fn_heap f)) n (fn_names f) = Some t" "unref_node (f\<lparr>fn_names := t\<rparr>) p = Inr f1" "node f1 n = Inr d1"
        and f': "fn_heap f' = (fn_heap f1)(n \<mapsto> d1\<lparr>nd_name := None, nd_parent := None\<rparr>)"
        using r by (auto simp: unhash_name.simps [of f n] bind_res_Inr_iff Let_def split_beta split: option.splits)
      have "shrinks (f\<lparr>fn_names := t\<rparr>) f1" using 1 [OF d u(1-4)] u(5) by blast
      moreover have "fn_heap f1 n = Some d1" using u(6) by (simp add: node_def the_res_Inr_iff)
      ultimately show ?thesis using f' by (simp add: shrinks_def)
    qed
  qed
next
  case (2 f n)
  show ?case
  proof (intro allI impI)
    fix f'
    assume r: "unref_node f n = Inr f'"
    then obtain d where d: "node f n = Inr d" "nd_refctr d > 0" by (auto simp: unref_node.simps [of f n] res_iffs)
    let ?f1 = "put_node n (d\<lparr>nd_refctr := nd_refctr d - 1\<rparr>) f"
    have s: "shrinks f ?f1" using d by (intro shrinks_put) (auto simp: node_def the_res_Inr_iff)
    show "shrinks f f'"
    proof (cases "nd_refctr d - 1 = 0")
      case True
      then have "delete_node ?f1 n = Inr f'" using r d by (simp add: unref_node.simps [of f n] Let_def)
      moreover have "guard_res (nd_refctr d > 0) AssertFailed = Inr ()" using d by simp
      ultimately have "shrinks ?f1 f'" using 2 [OF d(1) _ refl True] by blast
      with s show ?thesis by (rule shrinks_trans)
    next
      case False
      then show ?thesis using r d s by (simp add: unref_node.simps [of f n] Let_def)
    qed
  qed
next
  case (3 f n)
  show ?case
  proof (intro allI impI)
    fix f'
    assume r: "delete_node f n = Inr f'"
    then obtain d f1 f3 where d: "node f n = Inr d" "guard_res (nd_treelock d = 0) AssertFailed = Inr ()" "unhash_name f n = Inr f1"
      "unhash_id (if lru_enabled (fn_mem f1) then remove_node_lru n f1 else f1) n = Inr f3" "free_node f3 n = Inr f'"
      by (auto simp: delete_node.simps [of f n] bind_res_Inr_iff Let_def)
    have "shrinks f f1" using 3 [OF d(1,2)] d(3) by blast
    moreover have "shrinks f1 (if lru_enabled (fn_mem f1) then remove_node_lru n f1 else f1)"
      by (intro shrinks_same) (simp add: remove_node_lru_def)
    ultimately show "shrinks f f'"
      using unhash_id_shrinks [OF d(4)] free_node_shrinks [OF d(5)] by (blast intro: shrinks_trans)
  qed
qed

lemma forget_shrinks:
  assumes "forget_node f i k = Inr f'" shows "shrinks f f'"
proof (cases "i = FUSE_ROOT_ID")
  case True
  then show ?thesis using assms by (simp add: forget_node_def shrinks_def)
next
  case False
  then obtain n d where d: "fn_heap f n = Some d"
    and r: "(let f1 = put_node n (d\<lparr>nd_nlookup := nd_nlookup d - k\<rparr>) f in
        if nd_nlookup d - k = 0 then unref_node f1 n
        else if lru_enabled (fn_mem f1) \<and> nd_nlookup d - k = 1 then set_forget_time f1 n else Inr f1) = Inr f'"
    using assms by (auto simp: forget_node_def res_iffs node_def)
  let ?f1 = "put_node n (d\<lparr>nd_nlookup := nd_nlookup d - k\<rparr>) f"
  have "shrinks f ?f1" using d by (intro shrinks_put) simp_all
  moreover have "shrinks ?f1 f'"
  proof (cases "nd_nlookup d - k = 0")
    case True
    then show ?thesis using r drop_shrinks(2) [of ?f1 n] by simp
  next
    case False
    then show ?thesis
      using r by (auto simp: set_forget_time_def curr_time_def Let_def res_iffs node_def shrinks_def split: if_splits list.splits)
  qed
  ultimately show ?thesis by (rule shrinks_trans)
qed

definition known_node :: "fuse_nodes \<Rightarrow> nat \<Rightarrow> bool" where
  "known_node f x \<longleftrightarrow> (\<exists>d. fn_heap f x = Some d \<and> nd_nlookup d \<noteq> 0)"

text \<open>A node that is not locked can be forgotten while paths of known nodes are held.\<close>

lemma forget_hold:
  assumes ok: "nodes_ok f" and inv: "lock_inv f hs" and n: "fn_heap f n = Some d" "k \<le> nd_nlookup d" "k \<noteq> 0"
    and free: "lock_free (fn_heap f)" "nd_treelock d = 0" and clock: "lru_enabled (fn_mem f) \<Longrightarrow> fn_clock f \<noteq> []"
    and ways: "\<And>h x. h \<in> set hs \<Longrightarrow> x \<in> set (way f (fst h)) \<Longrightarrow> known_node f x \<and> x \<noteq> n"
    and ends: "\<And>h x e. h \<in> set hs \<Longrightarrow> fn_heap f x = Some e \<Longrightarrow> nd_nodeid e = fst h \<Longrightarrow> nd_nlookup e \<noteq> 0 \<and> x \<noteq> n"
    and writes: "\<And>h x. h \<in> set hs \<Longrightarrow> snd h = Some x \<Longrightarrow> known_node f x \<and> x \<noteq> n"
  shows "\<exists>f'. forget_node f (nd_nodeid d) k = Inr f' \<and> nodes_ok f' \<and> lock_inv f' hs"
proof (cases "nd_nodeid d = FUSE_ROOT_ID")
  case True
  then show ?thesis using ok inv by (simp add: forget_node_def)
next
  case False
  obtain f' where f': "forget_node f (nd_nodeid d) k = Inr f'" "nodes_ok f'"
    and keep: "\<And>m e. fn_heap f m = Some e \<Longrightarrow> m \<noteq> n \<Longrightarrow> nd_nlookup e \<noteq> 0 \<Longrightarrow> \<exists>e'. fn_heap f' m = Some e' \<and> kept e e'"
    using forget_node_ok [OF ok n free(1) free(2) clock] by blast
  have sh: "shrinks f f'" using f'(1) by (rule forget_shrinks)
  have l: "locks f' x = locks f x" for x
  proof (cases "fn_heap f' x")
    case (Some d')
    then obtain e where "fn_heap f x = Some e" "nd_treelock d' = nd_treelock e" using sh by (auto simp: shrinks_def)
    then show ?thesis using Some by (simp add: lock_of_def)
  next
    case None
    show ?thesis
    proof (cases "fn_heap f x")
      case (Some e)
      then have "x = n \<or> nd_nlookup e = 0" using keep None by fastforce
      then have "nd_treelock e = 0" using Some free n(1) by (auto simp: lock_free_def)
      then show ?thesis using None Some by (simp add: lock_of_def)
    qed (simp add: None lock_of_def)
  qed
  have root: "nd_nlookup e \<noteq> 0 \<and> x \<noteq> n" if "fn_heap f x = Some e" "nd_nodeid e = FUSE_ROOT_ID" for x e
    using root_kept [of f "{}" x e] ok that n(1) False by (auto simp: nodes_ok_def)
  have "lock_inv f' hs \<and> (\<forall>h \<in> set hs. way f' (fst h) = way f (fst h))"
  proof (rule lock_inv_kept [OF inv])
    show "tree_inv f' {}" using f'(2) by (simp add: nodes_ok_def)
    show "locks f' = locks f" using l by blast
  next
    fix h x e
    assume h: "h \<in> set hs" "x \<in> set (way f (fst h))" "fn_heap f x = Some e"
    then have "nd_nlookup e \<noteq> 0" "x \<noteq> n" using ways [OF h(1,2)] by (auto simp: known_node_def)
    then show "\<exists>d'. fn_heap f' x = Some d' \<and> nd_nodeid d' = nd_nodeid e \<and> nd_parent d' = nd_parent e \<and> nd_name d' = nd_name e"
      using keep [OF h(3)] by (auto simp: kept_def)
  next
    fix h x e
    assume h: "h \<in> set hs" "fn_heap f x = Some e" "nd_nodeid e = fst h \<or> at_root (fn_heap f) x"
    then have "nd_nlookup e \<noteq> 0 \<and> x \<noteq> n" using ends [OF h(1,2)] root [OF h(2)] by (auto simp: at_root_def)
    then show "\<exists>d'. fn_heap f' x = Some d' \<and> nd_nodeid d' = nd_nodeid e" using keep [OF h(2)] by (auto simp: kept_def)
  next
    fix h x
    assume "h \<in> set hs" "snd h = Some x"
    then show "x \<in> dom (fn_heap f')" using writes keep by (fastforce simp: known_node_def)
  qed
  with f' show ?thesis by blast
qed

end
