(* ===== verification/Fuse_Lib.thy ===== *)
theory Fuse_Lib
  imports Complex_Main Fuse_FS Fuse_Paths
begin

text \<open>
  The requests of the kernel in \<^verbatim>\<open>lib/fuse.c\<close>: each \<^verbatim>\<open>fuse_lib_*\<close> function turns the numbers of nodes
  into paths, calls the operations of the file system through \<^verbatim>\<open>fuse_fs_*\<close>, keeps the nodes in step with
  what was done, unlocks the paths, and sends a reply. This theory holds the state of a mounted file
  system, the replies, and the requests about names and attributes.

  The loop of a single thread runs one request after the other, so the mutexes do nothing, and a path
  that would have to be waited for blocks for ever. Requests are not interrupted (the option \<^verbatim>\<open>intr\<close>).
\<close>

unbundle bit_operations_syntax

section \<open>State\<close>

text \<open>\<^verbatim>\<open>struct fuse_config\<close>; the timeouts are rational numbers, as every finite \<^verbatim>\<open>double\<close> is.\<close>

record fuse_config =
  cf_uid :: int
  cf_gid :: int
  cf_umask :: int
  cf_entry_timeout :: rat
  cf_negative_timeout :: rat
  cf_attr_timeout :: rat
  cf_ac_attr_timeout :: rat
  cf_nopath :: bool
  cf_debug :: bool
  cf_hard_remove :: bool
  cf_use_ino :: bool
  cf_readdir_ino :: bool
  cf_set_mode :: bool
  cf_set_uid :: bool
  cf_set_gid :: bool
  cf_direct_io :: bool
  cf_kernel_cache :: bool
  cf_auto_cache :: bool

record entry_param =
  en_ino :: "64 word"
  en_generation :: "32 word"
  en_attr :: stat
  en_attr_timeout :: rat
  en_entry_timeout :: rat

definition zero_entry :: entry_param where
  "zero_entry = \<lparr>en_ino = 0, en_generation = 0, en_attr = zero_stat, en_attr_timeout = 0, en_entry_timeout = 0\<rparr>"

text \<open>What a reply carries besides its error number.\<close>

datatype payload =
    NoPayload
  | EntryOut entry_param
  | CreateOut entry_param fuse_file_info
  | AttrOut stat rat
  | OpenOut fuse_file_info
  | WriteOut int
  | BytesOut mbytes
  | DataOut mbytes
  | StatfsOut statvfs
  | XattrOut int
  | LockOut flock_t
  | BmapOut int
  | PollOut int
  | NoReply

text \<open>
  \<^verbatim>\<open>struct fuse\<close> with what the requests use of the connection: its minor version, the \<^verbatim>\<open>umask\<close> of the
  request, the replies that were sent, and the error numbers of sending the coming ones, 0 when one is sent.
\<close>

record 'w fuse =
  fz_nodes :: fuse_nodes
  fz_lockq :: "lock_qe list"
  fz_conf :: fuse_config
  fz_fs :: "'w fuse_fs"
  fz_nullpath_ok :: bool
  fz_utime_omit_ok :: bool
  fz_hidectr :: "32 word"
  fz_state :: "'w fstate"
  fz_minor :: int
  fz_umask :: int
  fz_sent :: "(int \<times> payload) list"
  fz_results :: "nat list"

section \<open>Steps\<close>

type_synonym ('a, 'w) lib = "'w fuse \<Rightarrow> ('a \<times> 'w fuse) res"

definition ret_lib :: "'a \<Rightarrow> ('a, 'w) lib" where
  "ret_lib x = (\<lambda>s. Inr (x, s))"

definition bind_lib :: "('a, 'w) lib \<Rightarrow> ('a \<Rightarrow> ('b, 'w) lib) \<Rightarrow> ('b, 'w) lib" where
  "bind_lib m k = (\<lambda>s. bind_res (m s) (\<lambda>(x, s1). k x s1))"

definition lift_lib :: "'a res \<Rightarrow> ('a, 'w) lib" where
  "lift_lib r = (\<lambda>s. bind_res r (\<lambda>x. Inr (x, s)))"

definition ask_lib :: "('w fuse \<Rightarrow> 'a) \<Rightarrow> ('a, 'w) lib" where
  "ask_lib g = (\<lambda>s. Inr (g s, s))"

definition on_nodes :: "(fuse_nodes \<Rightarrow> ('a \<times> fuse_nodes) res) \<Rightarrow> ('a, 'w) lib" where
  "on_nodes m = (\<lambda>s. bind_res (m (fz_nodes s)) (\<lambda>(x, f). Inr (x, s\<lparr>fz_nodes := f\<rparr>)))"

definition do_nodes :: "(fuse_nodes \<Rightarrow> fuse_nodes res) \<Rightarrow> (unit, 'w) lib" where
  "do_nodes m = on_nodes (\<lambda>f. bind_res (m f) (\<lambda>f1. Inr ((), f1)))"

definition ask_nodes :: "(fuse_nodes \<Rightarrow> 'a res) \<Rightarrow> ('a, 'w) lib" where
  "ask_nodes m = (\<lambda>s. bind_res (m (fz_nodes s)) (\<lambda>x. Inr (x, s)))"

definition change_node :: "nat \<Rightarrow> (fnode \<Rightarrow> fnode res) \<Rightarrow> (unit, 'w) lib" where
  "change_node n g = do_nodes (\<lambda>f. bind_res (node f n) (\<lambda>d. bind_res (g d) (\<lambda>d1. Inr (put_node n d1 f))))"

text \<open>A call of an operation of the file system.\<close>

definition on_fs :: "('w fuse_fs \<Rightarrow> ('a, 'w) act) \<Rightarrow> ('a, 'w) lib" where
  "on_fs m = (\<lambda>s. bind_res (m (fz_fs s) (fz_state s)) (\<lambda>(x, st). Inr (x, s\<lparr>fz_state := st\<rparr>)))"

definition lib_debug :: "string \<Rightarrow> (unit, 'w) lib" where
  "lib_debug msg = (\<lambda>s. Inr ((), if cf_debug (fz_conf s) then s\<lparr>fz_state := eprint msg (fz_state s)\<rparr> else s))"

definition req_fuse_prepare :: "(unit, 'w) lib" where
  "req_fuse_prepare = (\<lambda>s. Inr ((), s\<lparr>fz_state := (fz_state s)\<lparr>ctx_umask := fz_umask s\<rparr>\<rparr>))"

section \<open>Replies\<close>

text \<open>
  The replies of \<^verbatim>\<open>lib/fuse_lowlevel.c\<close>. The error number of a reply has to be between -999 and 0; the
  result of writing to the device, 0 or a negated error number, is set aside for every reply.
\<close>

definition ERANGE :: int where "ERANGE = 34"

definition send_reply :: "int \<Rightarrow> payload \<Rightarrow> (int, 'w) lib" where
  "send_reply error arg = (\<lambda>s.
     let bad = error \<le> -1000 \<or> error > 0;
         s1 = (if bad then s\<lparr>fz_state := eprint (''fuse: bad error value: '' @ show_int error) (fz_state s)\<rparr> else s);
         s2 = s1\<lparr>fz_sent := fz_sent s1 @ [(if bad then - ERANGE else error, arg)]\<rparr> in
     Inr (case fz_results s2 of [] \<Rightarrow> (0, s2) | r # rs \<Rightarrow> (- int r, s2\<lparr>fz_results := rs\<rparr>)))"

definition fuse_reply_err :: "int \<Rightarrow> (int, 'w) lib" where
  "fuse_reply_err err = send_reply (- err) NoPayload"

text \<open>A request that takes no reply is freed; that writes nothing to the device.\<close>

definition fuse_reply_none :: "(unit, 'w) lib" where
  "fuse_reply_none = (\<lambda>s. Inr ((), s\<lparr>fz_sent := fz_sent s @ [(0, NoReply)]\<rparr>))"

definition fuse_reply_entry :: "entry_param \<Rightarrow> (int, 'w) lib" where
  "fuse_reply_entry e = bind_lib (ask_lib fz_minor) (\<lambda>minor.
     if en_ino e = 0 \<and> minor < 4 then fuse_reply_err ENOENT else send_reply 0 (EntryOut e))"

definition fuse_reply_create :: "entry_param \<Rightarrow> fuse_file_info \<Rightarrow> (int, 'w) lib" where
  "fuse_reply_create e fi = send_reply 0 (CreateOut e fi)"

definition fuse_reply_attr :: "stat \<Rightarrow> rat \<Rightarrow> (int, 'w) lib" where
  "fuse_reply_attr st timeout = send_reply 0 (AttrOut st timeout)"

definition fuse_reply_open :: "fuse_file_info \<Rightarrow> (int, 'w) lib" where
  "fuse_reply_open fi = send_reply 0 (OpenOut fi)"

text \<open>The error number of the requests is negated already.\<close>

definition reply_err :: "int \<Rightarrow> (unit, 'w) lib" where
  "reply_err err = bind_lib (fuse_reply_err (- err)) (\<lambda>_. ret_lib ())"

definition reply_entry :: "entry_param \<Rightarrow> int \<Rightarrow> (unit, 'w) lib" where
  "reply_entry e err =
     (if err = 0
      then bind_lib (fuse_reply_entry e) (\<lambda>r.
             if r = - ENOENT \<and> en_ino e \<noteq> 0 then do_nodes (\<lambda>f. forget_node f (en_ino e) 1) else ret_lib ())
      else reply_err err)"

section \<open>Paths of requests\<close>

text \<open>A path that has to be waited for blocks the only thread.\<close>

definition path_call ::
    "(fuse_nodes \<Rightarrow> lock_qe list \<Rightarrow> ('a call \<times> lock_qe list \<times> fuse_nodes) res) \<Rightarrow> ('a, 'w) lib" where
  "path_call c = (\<lambda>s.
     bind_res (c (fz_nodes s) (fz_lockq s)) (\<lambda>(r, q, f).
       case r of Returns x \<Rightarrow> Inr (x, s\<lparr>fz_nodes := f, fz_lockq := q\<rparr>) | Waits \<Rightarrow> Inl Blocked))"

definition unlock_call :: "(fuse_nodes \<Rightarrow> lock_qe list \<Rightarrow> (lock_qe list \<times> fuse_nodes) res) \<Rightarrow> (unit, 'w) lib" where
  "unlock_call c = (\<lambda>s. bind_res (c (fz_nodes s) (fz_lockq s)) (\<lambda>(q, f). Inr ((), s\<lparr>fz_nodes := f, fz_lockq := q\<rparr>)))"

definition lib_nullok_path :: "64 word \<Rightarrow> (int \<times> string option \<times> nat option, 'w) lib" where
  "lib_nullok_path ino = (\<lambda>s.
     path_call (\<lambda>f q. get_path_nullok (cf_nopath (fz_conf s)) (fz_nullpath_ok s) f q ino) s)"

text \<open>
  What the requests have in common: the path is got, the operation runs if that succeeded, and the path
  is freed. The operation has a result besides its error number; \<open>none\<close> stands for it when it did not run.
\<close>

definition with_path ::
    "(int \<times> 'p, 'w) lib \<Rightarrow> ('p \<Rightarrow> (unit, 'w) lib) \<Rightarrow> 'b \<Rightarrow> ('p \<Rightarrow> (int \<times> 'b, 'w) lib) \<Rightarrow> (int \<times> 'b, 'w) lib" where
  "with_path getp freep none body =
     bind_lib getp (\<lambda>(err, p).
       if err \<noteq> 0 then ret_lib (err, none)
       else bind_lib (body p) (\<lambda>r. bind_lib (freep p) (\<lambda>_. ret_lib r)))"

definition free_one :: "64 word \<Rightarrow> string option \<times> nat option \<Rightarrow> (unit, 'w) lib" where
  "free_one ino = (\<lambda>(path, wnode). unlock_call (\<lambda>f q. free_path f q ino path))"

definition free_wr :: "64 word \<Rightarrow> string option \<times> nat option \<Rightarrow> (unit, 'w) lib" where
  "free_wr ino = (\<lambda>(path, wnode). unlock_call (\<lambda>f q. free_path_wrlock f q ino wnode))"

text \<open>A path that must not be null, and an operation on it whose result is the error number alone.\<close>

definition need_path :: "(string \<Rightarrow> ('a, 'w) lib) \<Rightarrow> string option \<times> nat option \<Rightarrow> ('a, 'w) lib" where
  "need_path k = (\<lambda>(path, _). bind_lib (lift_lib (the_res path NullPointer)) k)"

definition path_op :: "('w fuse_fs \<Rightarrow> string \<Rightarrow> (int, 'w) act) \<Rightarrow> string option \<times> nat option \<Rightarrow> (int \<times> unit, 'w) lib" where
  "path_op f = need_path (\<lambda>p. bind_lib (on_fs (\<lambda>fs. f fs p)) (\<lambda>err. ret_lib (err, ())))"

definition err_only :: "(int \<times> unit, 'w) lib \<Rightarrow> (unit, 'w) lib" where
  "err_only m = bind_lib m (\<lambda>(err, _). reply_err err)"

section \<open>Attributes\<close>

text \<open>The node's number, and the owner and mode that the configuration prescribes, go into the attributes.\<close>

definition S_IFMT :: int where "S_IFMT = 61440"
definition S_IFREG :: int where "S_IFREG = 32768"

definition set_stat :: "fuse_config \<Rightarrow> 64 word \<Rightarrow> stat \<Rightarrow> stat" where
  "set_stat conf nodeid st =
     (let st1 = (if cf_use_ino conf then st else st\<lparr>st_ino := uint nodeid\<rparr>);
          st2 = (if cf_set_mode conf
                 then st1\<lparr>st_mode := (st_mode st1 AND S_IFMT) OR (511 AND NOT (cf_umask conf))\<rparr> else st1);
          st3 = (if cf_set_uid conf then st2\<lparr>st_uid := cf_uid conf\<rparr> else st2) in
      if cf_set_gid conf then st3\<lparr>st_gid := cf_gid conf\<rparr> else st3)"

definition mtime_eq :: "stat \<Rightarrow> timespec \<Rightarrow> bool" where
  "mtime_eq st ts \<longleftrightarrow> st_mtime st = tv_sec ts \<and> st_mtime_nsec st = tv_nsec ts"

definition update_stat :: "fuse_nodes \<Rightarrow> nat \<Rightarrow> stat \<Rightarrow> fuse_nodes res" where
  "update_stat f n st =
     bind_res (curr_time f) (\<lambda>(now, f1).
     bind_res (node f1 n) (\<lambda>d.
       Inr (put_node n (d\<lparr>nd_cache_valid := nd_cache_valid d \<and> mtime_eq st (nd_mtime d) \<and> st_size st = nd_size d,
                          nd_mtime := \<lparr>tv_sec = st_mtime st, tv_nsec = st_mtime_nsec st\<rparr>,
                          nd_size := st_size st, nd_stat_updated := now\<rparr>) f1)))"

definition any_getattr ::
    "string option \<Rightarrow> stat \<Rightarrow> fuse_file_info option \<Rightarrow> (int \<times> stat \<times> fuse_file_info option, 'w) lib" where
  "any_getattr path st fi =
     (case fi of
        Some i \<Rightarrow> bind_lib (on_fs (\<lambda>fs. fuse_fs_fgetattr fs path st i)) (\<lambda>(res, st1, i1). ret_lib (res, st1, Some i1))
      | None \<Rightarrow>
          bind_lib (lift_lib (the_res path NullPointer)) (\<lambda>p.
          bind_lib (on_fs (\<lambda>fs. fuse_fs_getattr fs p st)) (\<lambda>(res, st1). ret_lib (res, st1, None))))"

text \<open>The attributes of a path, and a lookup of its node: what is sent for a name.\<close>

definition entry_of :: "fuse_config \<Rightarrow> fnode \<Rightarrow> stat \<Rightarrow> entry_param" where
  "entry_of conf d st =
     \<lparr>en_ino = nd_nodeid d, en_generation = nd_generation d, en_attr = set_stat conf (nd_nodeid d) st,
      en_attr_timeout = cf_attr_timeout conf, en_entry_timeout = cf_entry_timeout conf\<rparr>"

definition lookup_path ::
    "64 word \<Rightarrow> string option \<Rightarrow> string \<Rightarrow> fuse_file_info option \<Rightarrow> (int \<times> entry_param \<times> fuse_file_info option, 'w) lib" where
  "lookup_path nodeid name path fi =
     bind_lib (any_getattr (Some path) zero_stat fi) (\<lambda>(res, st, fi1).
       if res \<noteq> 0 then ret_lib (res, zero_entry\<lparr>en_attr := st\<rparr>, fi1)
       else
         bind_lib (on_nodes (\<lambda>f. find_node f nodeid name)) (\<lambda>r.
           case r of
             None \<Rightarrow> ret_lib (- ENOMEM, zero_entry\<lparr>en_attr := st\<rparr>, fi1)
           | Some n \<Rightarrow>
               bind_lib (ask_nodes (\<lambda>f. node f n)) (\<lambda>d.
               bind_lib (ask_lib fz_conf) (\<lambda>conf.
               bind_lib (if cf_auto_cache conf then do_nodes (\<lambda>f. update_stat f n st) else ret_lib ()) (\<lambda>_.
               bind_lib (lib_debug (''   NODEID: '' @ show_nat (unat (nd_nodeid d)))) (\<lambda>_.
                 ret_lib (0, entry_of conf d st, fi1)))))))"

section \<open>Open files that are removed\<close>

definition is_open :: "fuse_nodes \<Rightarrow> 64 word \<Rightarrow> string \<Rightarrow> bool res" where
  "is_open f dir name =
     bind_res (lookup_node f dir name) (\<lambda>r.
       case r of None \<Rightarrow> Inr False | Some n \<Rightarrow> bind_res (node f n) (\<lambda>d. Inr (nd_open_count d > 0)))"

definition hidden_text :: "64 word \<Rightarrow> 32 word \<Rightarrow> string" where
  "hidden_text nodeid ctr = ''.fuse_hidden'' @ pad0 8 (fmt_x (uint nodeid)) @ pad0 8 (fmt_x (uint ctr))"

text \<open>The loop that looks for a name that no node has; it ends unless every name is taken.\<close>

partial_function (option) hidden_pick :: "fuse_nodes \<Rightarrow> 64 word \<Rightarrow> 64 word \<Rightarrow> 32 word \<Rightarrow> (string \<times> 32 word) res option" where
  "hidden_pick f dir nodeid ctr =
     (case lookup_node f dir (hidden_text nodeid (ctr + 1)) of
        Inl e \<Rightarrow> Some (Inl e)
      | Inr None \<Rightarrow> Some (Inr (hidden_text nodeid (ctr + 1), ctr + 1))
      | Inr (Some _) \<Rightarrow> hidden_pick f dir nodeid (ctr + 1))"

definition hidden_choose :: "64 word \<Rightarrow> 64 word \<Rightarrow> (string, 'w) lib" where
  "hidden_choose dir nodeid = (\<lambda>s.
     bind_res (the_res (hidden_pick (fz_nodes s) dir nodeid (fz_hidectr s)) Diverges) (\<lambda>r.
     bind_res r (\<lambda>(name, ctr). Inr (name, s\<lparr>fz_hidectr := ctr\<rparr>))))"

text \<open>At most \<^verbatim>\<open>failctr\<close> tries. The name and the path, which is null when there is none.\<close>

fun hidden_name :: "nat \<Rightarrow> 64 word \<Rightarrow> string \<Rightarrow> (string \<times> string option, 'w) lib" where
  "hidden_name 0 dir oldname = ret_lib ([], None)"
| "hidden_name (Suc failctr) dir oldname =
     bind_lib (ask_nodes (\<lambda>f. lookup_node f dir oldname)) (\<lambda>r.
       case r of
         None \<Rightarrow> ret_lib ([], None)
       | Some n \<Rightarrow>
           bind_lib (ask_nodes (\<lambda>f. node f n)) (\<lambda>d.
           bind_lib (hidden_choose dir (nd_nodeid d)) (\<lambda>newname.
           bind_lib (on_nodes (\<lambda>f. bind_res (try_get_path f dir (Some newname) False False) (\<lambda>(err, path, _, f1). Inr ((err, path), f1))))
             (\<lambda>(err, path).
               if err \<noteq> 0 then ret_lib (newname, path)
               else
                 bind_lib (lift_lib (the_res path NullPointer)) (\<lambda>p.
                 bind_lib (on_fs (\<lambda>fs. fuse_fs_getattr fs p zero_stat)) (\<lambda>(res, _).
                   if res = - ENOENT then ret_lib (newname, path)
                   else if res \<noteq> 0 then ret_lib (newname, None)
                   else hidden_name failctr dir oldname))))))"

definition hide_node :: "string \<Rightarrow> 64 word \<Rightarrow> string \<Rightarrow> (int, 'w) lib" where
  "hide_node oldpath dir oldname =
     bind_lib (hidden_name 10 dir oldname) (\<lambda>(newname, newpath).
       case newpath of
         None \<Rightarrow> ret_lib (- EBUSY)
       | Some p \<Rightarrow>
           bind_lib (on_fs (\<lambda>fs. fuse_fs_rename fs oldpath p)) (\<lambda>err.
             if err \<noteq> 0 then ret_lib err
             else on_nodes (\<lambda>f. rename_node f dir oldname dir newname True)))"

end
