(* ===== verification/Fuse_Requests.thy ===== *)
theory Fuse_Requests
  imports Fuse_Lib
begin

text \<open>
  The requests of \<^verbatim>\<open>lib/fuse.c\<close> about names and attributes: looking up and forgetting nodes, reading and
  setting attributes, and making, removing, renaming and linking files.
\<close>

unbundle bit_operations_syntax

section \<open>Looking up and forgetting\<close>

definition ESTALE :: int where "ESTALE = 116"

definition lib_path :: "64 word \<Rightarrow> (int \<times> string option \<times> nat option, 'w) lib" where
  "lib_path ino = path_call (\<lambda>f q. get_path f q ino)"

text \<open>The part of \<^verbatim>\<open>fuse_lib_lookup\<close> after the names of one and two dots; \<open>dot\<close> is a node that is referenced meanwhile.\<close>

definition lookup_in :: "64 word \<Rightarrow> string option \<Rightarrow> nat option \<Rightarrow> (unit, 'w) lib" where
  "lookup_in parent name dot =
     bind_lib
       (with_path (path_call (\<lambda>f q. get_path_common f q parent name False)) (free_one parent) zero_entry
         (need_path (\<lambda>path.
            bind_lib (lib_debug (''LOOKUP '' @ path)) (\<lambda>_.
            bind_lib (lookup_path parent name path None) (\<lambda>(err, e, _).
            bind_lib (ask_lib fz_conf) (\<lambda>conf.
              if err = - ENOENT \<and> cf_negative_timeout conf \<noteq> 0
              then ret_lib (0, e\<lparr>en_ino := 0, en_entry_timeout := cf_negative_timeout conf\<rparr>)
              else ret_lib (err, e)))))))
       (\<lambda>(err, e).
          bind_lib (case dot of None \<Rightarrow> ret_lib () | Some n \<Rightarrow> do_nodes (\<lambda>f. unref_node f n)) (\<lambda>_. reply_entry e err))"

definition parent_id :: "fuse_nodes \<Rightarrow> 64 word \<Rightarrow> 64 word res" where
  "parent_id f i =
     bind_res (get_node f i) (\<lambda>n.
     bind_res (node f n) (\<lambda>d.
     bind_res (the_res (nd_parent d) NullPointer) (\<lambda>p.
     bind_res (node f p) (\<lambda>pd. Inr (nd_nodeid pd)))))"

definition fuse_lib_lookup :: "64 word \<Rightarrow> string \<Rightarrow> (unit, 'w) lib" where
  "fuse_lib_lookup parent name =
     bind_lib req_fuse_prepare (\<lambda>_.
       if name = ''.'' then
         bind_lib (lib_debug ''LOOKUP-DOT'') (\<lambda>_.
         bind_lib (ask_nodes (\<lambda>f. get_node_nocheck f parent)) (\<lambda>r.
           case r of
             None \<Rightarrow> reply_entry zero_entry (- ESTALE)
           | Some n \<Rightarrow>
               bind_lib (change_node n (\<lambda>d. bind_res (chk_int (nd_refctr d + 1)) (\<lambda>c. Inr (d\<lparr>nd_refctr := c\<rparr>)))) (\<lambda>_.
                 lookup_in parent None (Some n))))
       else if name = ''..'' then
         bind_lib (lib_debug ''LOOKUP-DOTDOT'') (\<lambda>_.
         bind_lib (ask_nodes (\<lambda>f. parent_id f parent)) (\<lambda>i. lookup_in i None None))
       else lookup_in parent (Some name) None)"

definition do_forget :: "64 word \<Rightarrow> 64 word \<Rightarrow> (unit, 'w) lib" where
  "do_forget ino nlookup =
     bind_lib (lib_debug (''FORGET '' @ fmt_llu (uint ino) @ ''/'' @ fmt_llu (uint nlookup))) (\<lambda>_.
       do_nodes (\<lambda>f. forget_node f ino nlookup))"

definition fuse_lib_forget :: "64 word \<Rightarrow> 64 word \<Rightarrow> (unit, 'w) lib" where
  "fuse_lib_forget ino nlookup =
     bind_lib (do_forget ino nlookup) (\<lambda>_. bind_lib fuse_reply_none (\<lambda>_. ret_lib ()))"

fun forget_all :: "(64 word \<times> 64 word) list \<Rightarrow> (unit, 'w) lib" where
  "forget_all [] = ret_lib ()"
| "forget_all ((ino, nlookup) # xs) = bind_lib (do_forget ino nlookup) (\<lambda>_. forget_all xs)"

definition fuse_lib_forget_multi :: "(64 word \<times> 64 word) list \<Rightarrow> (unit, 'w) lib" where
  "fuse_lib_forget_multi forgets =
     bind_lib (forget_all forgets) (\<lambda>_. bind_lib fuse_reply_none (\<lambda>_. ret_lib ()))"

section \<open>Attributes\<close>

definition send_attr :: "64 word \<Rightarrow> stat \<Rightarrow> (unit, 'w) lib" where
  "send_attr ino st =
     bind_lib (ask_lib fz_conf) (\<lambda>conf.
     bind_lib (fuse_reply_attr (set_stat conf ino st) (cf_attr_timeout conf)) (\<lambda>_. ret_lib ()))"

definition find_nd :: "64 word \<Rightarrow> fuse_nodes \<Rightarrow> (nat \<times> fnode) res" where
  "find_nd ino f = bind_res (get_node f ino) (\<lambda>n. bind_res (node f n) (\<lambda>d. Inr (n, d)))"

definition fuse_lib_getattr :: "64 word \<Rightarrow> fuse_file_info option \<Rightarrow> (unit, 'w) lib" where
  "fuse_lib_getattr ino fi =
     bind_lib req_fuse_prepare (\<lambda>_.
     bind_lib (ask_lib (\<lambda>s. fi \<noteq> None \<and> op_fgetattr (fs_op (fz_fs s)) \<noteq> None)) (\<lambda>nullok.
     bind_lib
       (with_path (if nullok then lib_nullok_path ino else lib_path ino) (free_one ino) zero_stat
         (\<lambda>(path, _). bind_lib (any_getattr path zero_stat fi) (\<lambda>(err, st, _). ret_lib (err, st))))
       (\<lambda>(err, st).
          if err \<noteq> 0 then reply_err err
          else
            bind_lib (ask_nodes (find_nd ino)) (\<lambda>(n, d).
            bind_lib (ask_lib fz_conf) (\<lambda>conf.
              let st1 = (if nd_is_hidden d \<and> st_nlink st > 0 then st\<lparr>st_nlink := st_nlink st - 1\<rparr> else st) in
              bind_lib (if cf_auto_cache conf then do_nodes (\<lambda>f. update_stat f n st1) else ret_lib ()) (\<lambda>_.
                send_attr ino st1))))))"

text \<open>The fields of \<^verbatim>\<open>struct stat\<close> that a request to set attributes reads.\<close>

record set_attr =
  sa_mode :: int
  sa_uid :: int
  sa_gid :: int
  sa_size :: int
  sa_atim :: timespec
  sa_mtim :: timespec

definition FUSE_SET_ATTR_MODE :: int where "FUSE_SET_ATTR_MODE = 1"
definition FUSE_SET_ATTR_UID :: int where "FUSE_SET_ATTR_UID = 2"
definition FUSE_SET_ATTR_GID :: int where "FUSE_SET_ATTR_GID = 4"
definition FUSE_SET_ATTR_SIZE :: int where "FUSE_SET_ATTR_SIZE = 8"
definition FUSE_SET_ATTR_ATIME :: int where "FUSE_SET_ATTR_ATIME = 16"
definition FUSE_SET_ATTR_MTIME :: int where "FUSE_SET_ATTR_MTIME = 32"
definition FUSE_SET_ATTR_ATIME_NOW :: int where "FUSE_SET_ATTR_ATIME_NOW = 128"
definition FUSE_SET_ATTR_MTIME_NOW :: int where "FUSE_SET_ATTR_MTIME_NOW = 256"

definition UTIME_NOW :: int where "UTIME_NOW = 2 ^ 30 - 1"
definition UTIME_OMIT :: int where "UTIME_OMIT = 2 ^ 30 - 2"
definition NO_ID :: int where "NO_ID = 2 ^ 32 - 1"

definition omit_times :: "int \<Rightarrow> set_attr \<Rightarrow> timespec \<times> timespec" where
  "omit_times valid attr =
     (if valid AND FUSE_SET_ATTR_ATIME_NOW \<noteq> 0 then \<lparr>tv_sec = 0, tv_nsec = UTIME_NOW\<rparr>
      else if valid AND FUSE_SET_ATTR_ATIME \<noteq> 0 then sa_atim attr else \<lparr>tv_sec = 0, tv_nsec = UTIME_OMIT\<rparr>,
      if valid AND FUSE_SET_ATTR_MTIME_NOW \<noteq> 0 then \<lparr>tv_sec = 0, tv_nsec = UTIME_NOW\<rparr>
      else if valid AND FUSE_SET_ATTR_MTIME \<noteq> 0 then sa_mtim attr else \<lparr>tv_sec = 0, tv_nsec = UTIME_OMIT\<rparr>)"

text \<open>One step of \<^verbatim>\<open>fuse_lib_setattr\<close>: it runs when no step before it failed and the request asks for it.\<close>

definition attr_step :: "int \<Rightarrow> bool \<Rightarrow> string option \<Rightarrow> ('w fuse_fs \<Rightarrow> string \<Rightarrow> (int, 'w) act) \<Rightarrow> (int, 'w) lib" where
  "attr_step err asked path f =
     (if err = 0 \<and> asked
      then bind_lib (lift_lib (the_res path NullPointer)) (\<lambda>p. on_fs (\<lambda>fs. f fs p)) else ret_lib err)"

definition set_size ::
    "int \<Rightarrow> int \<Rightarrow> string option \<Rightarrow> set_attr \<Rightarrow> fuse_file_info option \<Rightarrow> (int \<times> fuse_file_info option, 'w) lib" where
  "set_size err valid path attr fi =
     (if err = 0 \<and> valid AND FUSE_SET_ATTR_SIZE \<noteq> 0
      then
        (case fi of
           Some i \<Rightarrow> bind_lib (on_fs (\<lambda>fs. fuse_fs_ftruncate fs path (sa_size attr) i)) (\<lambda>(err1, i1). ret_lib (err1, Some i1))
         | None \<Rightarrow>
             bind_lib (attr_step 0 True path (\<lambda>fs p. fuse_fs_truncate fs p (sa_size attr))) (\<lambda>err1. ret_lib (err1, None)))
      else ret_lib (err, fi))"

definition set_times :: "int \<Rightarrow> int \<Rightarrow> string option \<Rightarrow> set_attr \<Rightarrow> (int, 'w) lib" where
  "set_times err valid path attr =
     bind_lib (ask_lib fz_utime_omit_ok) (\<lambda>omit_ok.
       let both = FUSE_SET_ATTR_ATIME OR FUSE_SET_ATTR_MTIME in
       if err = 0 \<and> omit_ok \<and> valid AND both \<noteq> 0
       then attr_step 0 True path (\<lambda>fs p. fuse_fs_utimens fs p (omit_times valid attr))
       else attr_step err (valid AND both = both) path (\<lambda>fs p. fuse_fs_utimens fs p (sa_atim attr, sa_mtim attr)))"

definition setattr_body ::
    "int \<Rightarrow> set_attr \<Rightarrow> fuse_file_info option \<Rightarrow> string option \<times> nat option \<Rightarrow> (int \<times> stat, 'w) lib" where
  "setattr_body valid attr fi = (\<lambda>(path, _).
     bind_lib (attr_step 0 (valid AND FUSE_SET_ATTR_MODE \<noteq> 0) path (\<lambda>fs p. fuse_fs_chmod fs p (sa_mode attr))) (\<lambda>err1.
     bind_lib
       (attr_step err1 (valid AND (FUSE_SET_ATTR_UID OR FUSE_SET_ATTR_GID) \<noteq> 0) path
         (\<lambda>fs p. fuse_fs_chown fs p
            (if valid AND FUSE_SET_ATTR_UID \<noteq> 0 then sa_uid attr else NO_ID)
            (if valid AND FUSE_SET_ATTR_GID \<noteq> 0 then sa_gid attr else NO_ID))) (\<lambda>err2.
     bind_lib (set_size err2 valid path attr fi) (\<lambda>(err3, fi1).
     bind_lib (set_times err3 valid path attr) (\<lambda>err4.
       if err4 \<noteq> 0 then ret_lib (err4, zero_stat)
       else bind_lib (any_getattr path zero_stat fi1) (\<lambda>(err5, st, _). ret_lib (err5, st)))))))"

definition fuse_lib_setattr :: "64 word \<Rightarrow> set_attr \<Rightarrow> int \<Rightarrow> fuse_file_info option \<Rightarrow> (unit, 'w) lib" where
  "fuse_lib_setattr ino attr valid fi =
     bind_lib req_fuse_prepare (\<lambda>_.
     bind_lib (ask_lib (\<lambda>s. valid = FUSE_SET_ATTR_SIZE \<and> fi \<noteq> None \<and> op_ftruncate (fs_op (fz_fs s)) \<noteq> None \<and>
         op_fgetattr (fs_op (fz_fs s)) \<noteq> None)) (\<lambda>nullok.
     bind_lib
       (with_path (if nullok then lib_nullok_path ino else lib_path ino) (free_one ino) zero_stat (setattr_body valid attr fi))
       (\<lambda>(err, st).
          if err \<noteq> 0 then reply_err err
          else
            bind_lib (ask_lib fz_conf) (\<lambda>conf.
            bind_lib
              (if cf_auto_cache conf then do_nodes (\<lambda>f. bind_res (get_node f ino) (\<lambda>n. update_stat f n st)) else ret_lib ())
              (\<lambda>_. send_attr ino st)))))"

definition fuse_lib_access :: "64 word \<Rightarrow> int \<Rightarrow> (unit, 'w) lib" where
  "fuse_lib_access ino amask =
     bind_lib req_fuse_prepare (\<lambda>_.
       err_only (with_path (lib_path ino) (free_one ino) () (path_op (\<lambda>fs p. fuse_fs_access fs p amask))))"

text \<open>The array \<^verbatim>\<open>linkname\<close> is an object that lives while the request runs.\<close>

definition PATH_MAX_LEN :: nat where "PATH_MAX_LEN = 4096"

fun c_bytes :: "mbytes \<Rightarrow> mbytes res" where
  "c_bytes [] = Inl OutOfBounds"
| "c_bytes (None # bs) = Inl Uninitialised"
| "c_bytes (Some b # bs) = (if b = 0 then Inr [] else bind_res (c_bytes bs) (\<lambda>r. Inr (Some b # r)))"

definition local_array :: "nat \<Rightarrow> (nat, 'w) lib" where
  "local_array n = (\<lambda>s. let st = fz_state s in
     Inr (mnext st, s\<lparr>fz_state := st\<lparr>mheap := (mheap st)(mnext st \<mapsto> replicate n None), mnext := Suc (mnext st)\<rparr>\<rparr>))"

definition drop_array :: "nat \<Rightarrow> (unit, 'w) lib" where
  "drop_array a = (\<lambda>s. Inr ((), s\<lparr>fz_state := (fz_state s)\<lparr>mheap := (mheap (fz_state s))(a := None)\<rparr>\<rparr>))"

definition read_link_name :: "nat \<Rightarrow> (mbytes, 'w) lib" where
  "read_link_name a = (\<lambda>s.
     bind_res (mem_write (mheap (fz_state s)) (a, PATH_MAX_LEN) [Some 0]) (\<lambda>h.
     bind_res (the_res (h a) NullPointer) (\<lambda>obj.
     bind_res (c_bytes obj) (\<lambda>bs. Inr (bs, s\<lparr>fz_state := (fz_state s)\<lparr>mheap := h\<rparr>\<rparr>)))))"

definition fuse_lib_readlink :: "64 word \<Rightarrow> (unit, 'w) lib" where
  "fuse_lib_readlink ino =
     bind_lib req_fuse_prepare (\<lambda>_.
     bind_lib (local_array (PATH_MAX_LEN + 1)) (\<lambda>a.
     bind_lib
       (with_path (lib_path ino) (free_one ino) () (path_op (\<lambda>fs p. fuse_fs_readlink fs p (a, 0) (PATH_MAX_LEN + 1))))
       (\<lambda>(err, _).
          bind_lib
            (if err = 0 then bind_lib (read_link_name a) (\<lambda>bs. bind_lib (send_reply 0 (BytesOut bs)) (\<lambda>_. ret_lib ())) else reply_err err)
            (\<lambda>_. drop_array a))))"

section \<open>Making files\<close>

text \<open>What the requests that make a file do when it was made: look it up, for the entry that is sent.\<close>

definition entry_after ::
    "('w fuse_fs \<Rightarrow> string \<Rightarrow> (int, 'w) act) \<Rightarrow> 64 word \<Rightarrow> string \<Rightarrow> string \<Rightarrow> (int \<times> entry_param, 'w) lib" where
  "entry_after f parent name path =
     bind_lib (on_fs (\<lambda>fs. f fs path)) (\<lambda>err.
       if err \<noteq> 0 then ret_lib (err, zero_entry)
       else bind_lib (lookup_path parent (Some name) path None) (\<lambda>(err1, e, _). ret_lib (err1, e)))"

definition send_entry :: "64 word \<Rightarrow> string \<Rightarrow> (string \<Rightarrow> (int \<times> entry_param, 'w) lib) \<Rightarrow> (unit, 'w) lib" where
  "send_entry parent name body =
     bind_lib req_fuse_prepare (\<lambda>_.
     bind_lib (with_path (path_call (\<lambda>f q. get_path_name f q parent name)) (free_one parent) zero_entry (need_path body))
       (\<lambda>(err, e). reply_entry e err))"

definition zero_fi :: fuse_file_info where
  "zero_fi = \<lparr>fi_flags = 0, fi_fh_old = 0, fi_writepage = 0, fi_direct_io = False, fi_keep_cache = False, fi_flush = False,
     fi_nonseekable = False, fi_flock_release = False, fi_fh = 0, fi_lock_owner = 0\<rparr>"

text \<open>\<^verbatim>\<open>O_CREAT | O_EXCL | O_WRONLY\<close>\<close>

definition CREATE_FLAGS :: int where "CREATE_FLAGS = 193"

text \<open>A regular file is created by \<^verbatim>\<open>create\<close> and closed again; if the file system cannot do that, by \<^verbatim>\<open>mknod\<close>.\<close>

definition mknod_create :: "64 word \<Rightarrow> string \<Rightarrow> int \<Rightarrow> string \<Rightarrow> (int \<times> entry_param, 'w) lib" where
  "mknod_create parent name mode path =
     bind_lib (on_fs (\<lambda>fs. fuse_fs_create fs path mode (zero_fi\<lparr>fi_flags := CREATE_FLAGS\<rparr>))) (\<lambda>(err, fi).
       if err \<noteq> 0 then ret_lib (err, zero_entry)
       else
         bind_lib (lookup_path parent (Some name) path (Some fi)) (\<lambda>(err1, e, fi1).
         bind_lib (on_fs (\<lambda>fs. fuse_fs_release fs (Some path) (case fi1 of None \<Rightarrow> fi | Some i \<Rightarrow> i))) (\<lambda>_. ret_lib (err1, e))))"

definition fuse_lib_mknod :: "64 word \<Rightarrow> string \<Rightarrow> int \<Rightarrow> int \<Rightarrow> (unit, 'w) lib" where
  "fuse_lib_mknod parent name mode rdev =
     send_entry parent name (\<lambda>path.
       bind_lib (if mode AND S_IFMT = S_IFREG then mknod_create parent name mode path else ret_lib (- ENOSYS, zero_entry))
         (\<lambda>(err, e).
            if err = - ENOSYS then entry_after (\<lambda>fs p. fuse_fs_mknod fs p mode rdev) parent name path
            else ret_lib (err, e)))"

definition fuse_lib_mkdir :: "64 word \<Rightarrow> string \<Rightarrow> int \<Rightarrow> (unit, 'w) lib" where
  "fuse_lib_mkdir parent name mode = send_entry parent name (entry_after (\<lambda>fs p. fuse_fs_mkdir fs p mode) parent name)"

definition fuse_lib_symlink :: "string \<Rightarrow> 64 word \<Rightarrow> string \<Rightarrow> (unit, 'w) lib" where
  "fuse_lib_symlink linkname parent name =
     send_entry parent name (entry_after (\<lambda>fs p. fuse_fs_symlink fs linkname p) parent name)"

section \<open>Removing and renaming\<close>

text \<open>An operation that succeeded changes the nodes.\<close>

definition then_nodes :: "('w fuse_fs \<Rightarrow> (int, 'w) act) \<Rightarrow> (fuse_nodes \<Rightarrow> (int \<times> fuse_nodes) res) \<Rightarrow> (int, 'w) lib" where
  "then_nodes f g = bind_lib (on_fs f) (\<lambda>err. if err \<noteq> 0 then ret_lib err else on_nodes g)"

definition removed :: "64 word \<Rightarrow> string \<Rightarrow> fuse_nodes \<Rightarrow> (int \<times> fuse_nodes) res" where
  "removed dir name f = bind_res (remove_node f dir name) (\<lambda>f1. Inr (0, f1))"

definition open_there :: "64 word \<Rightarrow> string \<Rightarrow> (bool, 'w) lib" where
  "open_there dir name =
     bind_lib (ask_lib fz_conf) (\<lambda>conf. if cf_hard_remove conf then ret_lib False else ask_nodes (\<lambda>f. is_open f dir name))"

definition fuse_lib_unlink :: "64 word \<Rightarrow> string \<Rightarrow> (unit, 'w) lib" where
  "fuse_lib_unlink parent name =
     bind_lib req_fuse_prepare (\<lambda>_.
       err_only (with_path (path_call (\<lambda>f q. get_path_wrlock f q parent name)) (free_wr parent) ()
         (need_path (\<lambda>path.
            bind_lib (open_there parent name) (\<lambda>open.
            bind_lib
              (if open then hide_node path parent name
               else then_nodes (\<lambda>fs. fuse_fs_unlink fs path) (removed parent name)) (\<lambda>err. ret_lib (err, ())))))))"

definition fuse_lib_rmdir :: "64 word \<Rightarrow> string \<Rightarrow> (unit, 'w) lib" where
  "fuse_lib_rmdir parent name =
     bind_lib req_fuse_prepare (\<lambda>_.
       err_only (with_path (path_call (\<lambda>f q. get_path_wrlock f q parent name)) (free_wr parent) ()
         (need_path (\<lambda>path.
            bind_lib (then_nodes (\<lambda>fs. fuse_fs_rmdir fs path) (removed parent name)) (\<lambda>err. ret_lib (err, ()))))))"

type_synonym locked_path = "string option \<times> nat option"

definition free_two :: "64 word \<Rightarrow> 64 word \<Rightarrow> locked_path \<times> locked_path \<Rightarrow> (unit, 'w) lib" where
  "free_two i1 i2 = (\<lambda>((_, w1), (_, w2)). unlock_call (\<lambda>f q. free_path2 f q i1 i2 w1 w2))"

definition need_paths :: "(string \<Rightarrow> string \<Rightarrow> ('a, 'w) lib) \<Rightarrow> locked_path \<times> locked_path \<Rightarrow> ('a, 'w) lib" where
  "need_paths k = (\<lambda>(p1, p2). need_path (\<lambda>path1. need_path (k path1) p2) p1)"

definition rename_body :: "64 word \<Rightarrow> string \<Rightarrow> 64 word \<Rightarrow> string \<Rightarrow> string \<Rightarrow> string \<Rightarrow> (int \<times> unit, 'w) lib" where
  "rename_body olddir oldname newdir newname oldpath newpath =
     bind_lib (open_there newdir newname) (\<lambda>open.
     bind_lib (if open then hide_node newpath newdir newname else ret_lib 0) (\<lambda>err.
     bind_lib
       (if err \<noteq> 0 then ret_lib err
        else then_nodes (\<lambda>fs. fuse_fs_rename fs oldpath newpath) (\<lambda>f. rename_node f olddir oldname newdir newname False))
       (\<lambda>err1. ret_lib (err1, ()))))"

definition fuse_lib_rename :: "64 word \<Rightarrow> string \<Rightarrow> 64 word \<Rightarrow> string \<Rightarrow> (unit, 'w) lib" where
  "fuse_lib_rename olddir oldname newdir newname =
     bind_lib req_fuse_prepare (\<lambda>_.
       err_only (with_path (path_call (\<lambda>f q. get_path2 f q olddir (Some oldname) newdir (Some newname) True True))
         (free_two olddir newdir) () (need_paths (rename_body olddir oldname newdir newname))))"

definition fuse_lib_link :: "64 word \<Rightarrow> 64 word \<Rightarrow> string \<Rightarrow> (unit, 'w) lib" where
  "fuse_lib_link ino newparent newname =
     bind_lib req_fuse_prepare (\<lambda>_.
     bind_lib
       (with_path (path_call (\<lambda>f q. get_path2 f q ino None newparent (Some newname) False False)) (free_two ino newparent) zero_entry
         (need_paths (\<lambda>oldpath newpath. entry_after (\<lambda>fs p. fuse_fs_link fs oldpath p) newparent newname newpath)))
       (\<lambda>(err, e). reply_entry e err))"

end
