(* ===== verification/Fuse_File_Requests.thy ===== *)
theory Fuse_File_Requests
  imports Fuse_Requests
begin

text \<open>
  The requests of \<^verbatim>\<open>lib/fuse.c\<close> about open files: opening, reading, writing and closing, extended
  attributes, locks of files, and the nodes that are forgotten after a time.
\<close>

unbundle bit_operations_syntax

section \<open>Opening and closing\<close>

text \<open>A node hidden by a removal is unlinked when the last open file of it is closed.\<close>

definition unlink_hidden :: "64 word \<Rightarrow> string option \<Rightarrow> (unit, 'w) lib" where
  "unlink_hidden ino path =
     (case path of
        Some p \<Rightarrow> bind_lib (on_fs (\<lambda>fs. fuse_fs_unlink fs p)) (\<lambda>_. ret_lib ())
      | None \<Rightarrow>
          bind_lib (ask_lib fz_conf) (\<lambda>conf.
            if cf_nopath conf
            then
              bind_lib (lib_path ino) (\<lambda>(err, p, w).
              bind_lib (if err = 0 then path_op fuse_fs_unlink (p, w) else ret_lib (0, ())) (\<lambda>_. free_one ino (p, w)))
            else ret_lib ()))"

definition fuse_do_release :: "64 word \<Rightarrow> string option \<Rightarrow> fuse_file_info \<Rightarrow> (unit, 'w) lib" where
  "fuse_do_release ino path fi =
     bind_lib (ask_lib (\<lambda>s. if path \<noteq> None \<or> fz_nullpath_ok s \<or> cf_nopath (fz_conf s) then path else Some ''-'')) (\<lambda>compatpath.
     bind_lib (on_fs (\<lambda>fs. fuse_fs_release fs compatpath fi)) (\<lambda>_.
     bind_lib (ask_nodes (find_nd ino)) (\<lambda>(n, d).
     bind_lib (lift_lib (guard_res (nd_open_count d > 0) AssertFailed)) (\<lambda>_.
       let gone = nd_is_hidden d \<and> nd_open_count d - 1 = 0 in
       bind_lib (change_node n (\<lambda>d. Inr (d\<lparr>nd_open_count := nd_open_count d - 1,
           nd_is_hidden := (if gone then False else nd_is_hidden d)\<rparr>))) (\<lambda>_.
         if gone then unlink_hidden ino path else ret_lib ())))))"

definition count_open :: "64 word \<Rightarrow> (unit, 'w) lib" where
  "count_open ino =
     bind_lib (ask_nodes (\<lambda>f. get_node f ino)) (\<lambda>n.
       change_node n (\<lambda>d. bind_res (chk_int (nd_open_count d + 1)) (\<lambda>c. Inr (d\<lparr>nd_open_count := c\<rparr>))))"

text \<open>How the kernel may cache an open file.\<close>

definition cache_flags :: "fuse_config \<Rightarrow> fuse_file_info \<Rightarrow> fuse_file_info" where
  "cache_flags conf fi =
     (let fi1 = (if cf_direct_io conf then fi\<lparr>fi_direct_io := True\<rparr> else fi) in
      if cf_kernel_cache conf then fi1\<lparr>fi_keep_cache := True\<rparr> else fi1)"

definition release_after :: "string \<Rightarrow> fuse_file_info \<Rightarrow> 'a \<Rightarrow> ('a, 'w) lib" where
  "release_after path fi x = bind_lib (on_fs (\<lambda>fs. fuse_fs_release fs (Some path) fi)) (\<lambda>_. ret_lib x)"

definition create_body :: "64 word \<Rightarrow> string \<Rightarrow> int \<Rightarrow> fuse_file_info \<Rightarrow> string \<Rightarrow> (int \<times> entry_param \<times> fuse_file_info, 'w) lib" where
  "create_body parent name mode fi path =
     bind_lib (on_fs (\<lambda>fs. fuse_fs_create fs path mode fi)) (\<lambda>(err, fi1).
       if err \<noteq> 0 then ret_lib (err, zero_entry, fi1)
       else
         bind_lib (lookup_path parent (Some name) path (Some fi1)) (\<lambda>(err1, e, r).
           let fi2 = (case r of None \<Rightarrow> fi1 | Some i \<Rightarrow> i) in
           if err1 \<noteq> 0 then release_after path fi2 (err1, e, fi2)
           else if st_mode (en_attr e) AND S_IFMT \<noteq> S_IFREG
           then bind_lib (release_after path fi2 (- EIO, e, fi2)) (\<lambda>x.
                bind_lib (do_nodes (\<lambda>f. forget_node f (en_ino e) 1)) (\<lambda>_. ret_lib x))
           else bind_lib (ask_lib fz_conf) (\<lambda>conf. ret_lib (0, e, cache_flags conf fi2))))"

text \<open>A reply that the kernel refuses, because the call was interrupted, closes the file again.\<close>

definition fuse_lib_create :: "64 word \<Rightarrow> string \<Rightarrow> int \<Rightarrow> fuse_file_info \<Rightarrow> (unit, 'w) lib" where
  "fuse_lib_create parent name mode fi =
     bind_lib req_fuse_prepare (\<lambda>_.
     bind_lib (path_call (\<lambda>f q. get_path_name f q parent name)) (\<lambda>(err0, path, w).
     bind_lib (if err0 \<noteq> 0 then ret_lib (err0, zero_entry, fi) else need_path (create_body parent name mode fi) (path, w))
       (\<lambda>(err, e, fi1).
     bind_lib
       (if err \<noteq> 0 then reply_err err
        else
          bind_lib (count_open (en_ino e)) (\<lambda>_.
          bind_lib (fuse_reply_create e fi1) (\<lambda>r.
            if r = - ENOENT
            then bind_lib (fuse_do_release (en_ino e) path fi1) (\<lambda>_. do_nodes (\<lambda>f. forget_node f (en_ino e) 1))
            else ret_lib ())))
       (\<lambda>_. free_one parent (path, w)))))"

text \<open>The difference in seconds, without the rounding of a \<^verbatim>\<open>double\<close>.\<close>

definition diff_timespec :: "timespec \<Rightarrow> timespec \<Rightarrow> rat" where
  "diff_timespec t1 t2 = of_int (tv_sec t1 - tv_sec t2) + of_int (tv_nsec t1 - tv_nsec t2) / 1000000000"

definition recheck_cache :: "nat \<Rightarrow> string option \<Rightarrow> fuse_file_info \<Rightarrow> (fuse_file_info, 'w) lib" where
  "recheck_cache n path fi =
     bind_lib (on_fs (\<lambda>fs. fuse_fs_fgetattr fs path zero_stat fi)) (\<lambda>(err, st, fi1).
     bind_lib
       (if err = 0 then do_nodes (\<lambda>f. update_stat f n st) else change_node n (\<lambda>d. Inr (d\<lparr>nd_cache_valid := False\<rparr>)))
       (\<lambda>_. ret_lib fi1))"

definition open_auto_cache :: "64 word \<Rightarrow> string option \<Rightarrow> fuse_file_info \<Rightarrow> (fuse_file_info, 'w) lib" where
  "open_auto_cache ino path fi =
     bind_lib (ask_nodes (find_nd ino)) (\<lambda>(n, d).
     bind_lib
       (if nd_cache_valid d
        then
          bind_lib (on_nodes curr_time) (\<lambda>now.
          bind_lib (ask_lib (\<lambda>s. cf_ac_attr_timeout (fz_conf s))) (\<lambda>timeout.
            if diff_timespec now (nd_stat_updated d) > timeout then recheck_cache n path fi else ret_lib fi))
        else ret_lib fi) (\<lambda>fi1.
     bind_lib (ask_nodes (\<lambda>f. node f n)) (\<lambda>d1.
     bind_lib (change_node n (\<lambda>d. Inr (d\<lparr>nd_cache_valid := True\<rparr>))) (\<lambda>_.
       ret_lib (if nd_cache_valid d1 then fi1\<lparr>fi_keep_cache := True\<rparr> else fi1)))))"

definition open_body :: "64 word \<Rightarrow> fuse_file_info \<Rightarrow> string \<Rightarrow> (int \<times> fuse_file_info, 'w) lib" where
  "open_body ino fi path =
     bind_lib (on_fs (\<lambda>fs. fuse_fs_open fs path fi)) (\<lambda>(err, fi1).
       if err \<noteq> 0 then ret_lib (err, fi1)
       else
         bind_lib (ask_lib fz_conf) (\<lambda>conf.
         bind_lib
           (if cf_auto_cache conf then open_auto_cache ino (Some path) (cache_flags conf fi1) else ret_lib (cache_flags conf fi1))
           (\<lambda>fi2. ret_lib (0, fi2))))"

definition fuse_lib_open :: "64 word \<Rightarrow> fuse_file_info \<Rightarrow> (unit, 'w) lib" where
  "fuse_lib_open ino fi =
     bind_lib req_fuse_prepare (\<lambda>_.
     bind_lib (lib_path ino) (\<lambda>(err0, path, w).
     bind_lib (if err0 \<noteq> 0 then ret_lib (err0, fi) else need_path (open_body ino fi) (path, w)) (\<lambda>(err, fi1).
     bind_lib
       (if err \<noteq> 0 then reply_err err
        else
          bind_lib (count_open ino) (\<lambda>_.
          bind_lib (fuse_reply_open fi1) (\<lambda>r.
            if r = - ENOENT then fuse_do_release ino path fi1 else ret_lib ())))
       (\<lambda>_. free_one ino (path, w)))))"

section \<open>Reading and writing\<close>

definition on_malloc :: "nat \<Rightarrow> (nat option, 'w) lib" where
  "on_malloc n = (\<lambda>s. let (r, st) = malloc n (fz_state s) in Inr (r, s\<lparr>fz_state := st\<rparr>))"

definition on_state :: "('w fstate \<Rightarrow> 'w fstate res) \<Rightarrow> (unit, 'w) lib" where
  "on_state g = (\<lambda>s. bind_res (g (fz_state s)) (\<lambda>st. Inr ((), s\<lparr>fz_state := st\<rparr>)))"

text \<open>
  The data of a vector is sent from the buffer itself when it is one in memory, and otherwise copied
  first. Large data of descriptors goes by \<^verbatim>\<open>splice\<close> where libfuse is built with it, which is left out.
\<close>

definition send_from :: "ptr \<Rightarrow> nat \<Rightarrow> (int, 'w) lib" where
  "send_from p n =
     bind_lib (ask_lib (\<lambda>s. mheap (fz_state s))) (\<lambda>h.
     bind_lib (lift_lib (mem_read h p n)) (\<lambda>bs. send_reply 0 (DataOut bs)))"

definition send_copied :: "'w fdops \<Rightarrow> fuse_bufvec \<Rightarrow> 64 word \<Rightarrow> (int, 'w) lib" where
  "send_copied ops bv len =
     bind_lib (on_malloc (unat len)) (\<lambda>r.
       case r of
         None \<Rightarrow> ret_lib ENOMEM
       | Some a \<Rightarrow>
           bind_lib (on_fs (\<lambda>_. fuse_buf_copy ops False (bufvec_init len (a, 0)) bv no_flags)) (\<lambda>(n, _).
           let res = to_int32 n in
           if res < 0
           then bind_lib (on_state (mfree_obj a)) (\<lambda>_. lift_lib (chk_int (- res)))
           else
             bind_lib (send_from (a, 0) (nat res)) (\<lambda>sent.
             bind_lib (on_state (mfree_obj a)) (\<lambda>_. ret_lib sent))))"

definition send_data_fallback :: "'w fdops \<Rightarrow> fuse_bufvec \<Rightarrow> (int, 'w) lib" where
  "send_data_fallback ops bv =
     (let len = fuse_buf_size bv in
      case bv_bufs bv of
        [b] \<Rightarrow>
          if bv_idx bv = 0 \<and> bv_off bv = 0 \<and> \<not> buf_is_fd b then send_from (buf_mem b) (unat len)
          else send_copied ops bv len
      | _ \<Rightarrow> send_copied ops bv len)"

definition fuse_reply_data :: "'w fdops \<Rightarrow> fuse_bufvec \<Rightarrow> (int, 'w) lib" where
  "fuse_reply_data ops bv =
     bind_lib (send_data_fallback ops bv) (\<lambda>res. if res \<le> 0 then ret_lib res else fuse_reply_err res)"

definition fuse_lib_read :: "'w fdops \<Rightarrow> 64 word \<Rightarrow> 64 word \<Rightarrow> int \<Rightarrow> fuse_file_info \<Rightarrow> (unit, 'w) lib" where
  "fuse_lib_read ops ino sz off fi =
     bind_lib req_fuse_prepare (\<lambda>_.
     bind_lib
       (with_path (lib_nullok_path ino) (free_one ino) None (\<lambda>(path, _).
          bind_lib (on_fs (\<lambda>fs. fuse_fs_read_buf fs path None sz off fi)) (\<lambda>(res, buf, _). ret_lib (res, buf))))
       (\<lambda>(res, buf).
          bind_lib
            (if res = 0
             then bind_lib (lift_lib (the_res buf NullPointer)) (\<lambda>(_, bv). bind_lib (fuse_reply_data ops bv) (\<lambda>_. ret_lib ()))
             else reply_err res)
            (\<lambda>_. on_state (fuse_free_buf buf))))"

text \<open>An operation whose path may be null; it returns an error number and the file information.\<close>

definition file_op ::
    "('w fuse_fs \<Rightarrow> string option \<Rightarrow> (int \<times> 'a, 'w) act) \<Rightarrow> string option \<times> nat option \<Rightarrow> (int \<times> unit, 'w) lib" where
  "file_op f = (\<lambda>(path, _). bind_lib (on_fs (\<lambda>fs. f fs path)) (\<lambda>(err, _). ret_lib (err, ())))"

definition fuse_lib_write_buf :: "'w fdops \<Rightarrow> 64 word \<Rightarrow> fuse_bufvec \<Rightarrow> int \<Rightarrow> fuse_file_info \<Rightarrow> (unit, 'w) lib" where
  "fuse_lib_write_buf ops ino buf off fi =
     bind_lib req_fuse_prepare (\<lambda>_.
     bind_lib (with_path (lib_nullok_path ino) (free_one ino) () (file_op (\<lambda>fs p. fuse_fs_write_buf ops fs p buf off fi)))
       (\<lambda>(res, _). if res \<ge> 0 then bind_lib (send_reply 0 (WriteOut res)) (\<lambda>_. ret_lib ()) else reply_err res))"

definition nullok_request :: "64 word \<Rightarrow> ('w fuse_fs \<Rightarrow> string option \<Rightarrow> (int \<times> 'a, 'w) act) \<Rightarrow> (unit, 'w) lib" where
  "nullok_request ino f =
     bind_lib req_fuse_prepare (\<lambda>_. err_only (with_path (lib_nullok_path ino) (free_one ino) () (file_op f)))"

definition fuse_lib_fsync :: "64 word \<Rightarrow> int \<Rightarrow> fuse_file_info \<Rightarrow> (unit, 'w) lib" where
  "fuse_lib_fsync ino datasync fi = nullok_request ino (\<lambda>fs p. fuse_fs_fsync fs p datasync fi)"

definition fuse_lib_flock :: "64 word \<Rightarrow> fuse_file_info \<Rightarrow> int \<Rightarrow> (unit, 'w) lib" where
  "fuse_lib_flock ino fi lop = nullok_request ino (\<lambda>fs p. fuse_fs_flock fs p fi lop)"

definition fuse_lib_fallocate :: "64 word \<Rightarrow> int \<Rightarrow> int \<Rightarrow> int \<Rightarrow> fuse_file_info \<Rightarrow> (unit, 'w) lib" where
  "fuse_lib_fallocate ino mode offs len fi = nullok_request ino (\<lambda>fs p. fuse_fs_fallocate fs p mode offs len fi)"

definition fuse_lib_poll :: "64 word \<Rightarrow> fuse_file_info \<Rightarrow> nat \<Rightarrow> (unit, 'w) lib" where
  "fuse_lib_poll ino fi ph =
     bind_lib req_fuse_prepare (\<lambda>_.
     bind_lib
       (with_path (lib_nullok_path ino) (free_one ino) 0 (\<lambda>(path, _).
          bind_lib (on_fs (\<lambda>fs. fuse_fs_poll fs path fi ph 0)) (\<lambda>(err, revents, _). ret_lib (err, revents))))
       (\<lambda>(err, revents).
          if err = 0 then bind_lib (send_reply 0 (PollOut revents)) (\<lambda>_. ret_lib ()) else reply_err err))"

definition fuse_lib_bmap :: "64 word \<Rightarrow> nat \<Rightarrow> int \<Rightarrow> (unit, 'w) lib" where
  "fuse_lib_bmap ino blocksize idx =
     bind_lib req_fuse_prepare (\<lambda>_.
     bind_lib
       (with_path (lib_path ino) (free_one ino) idx (need_path (\<lambda>path. on_fs (\<lambda>fs. fuse_fs_bmap fs path blocksize idx))))
       (\<lambda>(err, idx1).
          if err = 0 then bind_lib (send_reply 0 (BmapOut idx1)) (\<lambda>_. ret_lib ()) else reply_err err))"

definition zero_statvfs :: statvfs where
  "zero_statvfs = \<lparr>f_bsize = 0, f_frsize = 0, f_blocks = 0, f_bfree = 0, f_bavail = 0, f_files = 0, f_ffree = 0, f_namemax = 0\<rparr>"

definition fuse_lib_statfs :: "64 word \<Rightarrow> (unit, 'w) lib" where
  "fuse_lib_statfs ino =
     bind_lib req_fuse_prepare (\<lambda>_.
     bind_lib
       (with_path (if ino \<noteq> 0 then lib_path ino else ret_lib (0, None, None)) (free_one ino) zero_statvfs (\<lambda>(path, _).
          on_fs (\<lambda>fs. fuse_fs_statfs fs (case path of None \<Rightarrow> ''/'' | Some p \<Rightarrow> p) zero_statvfs)))
       (\<lambda>(err, buf).
          if err = 0 then bind_lib (send_reply 0 (StatfsOut buf)) (\<lambda>_. ret_lib ()) else reply_err err))"

section \<open>Extended attributes\<close>

definition fuse_lib_setxattr :: "64 word \<Rightarrow> string \<Rightarrow> ptr \<Rightarrow> nat \<Rightarrow> int \<Rightarrow> (unit, 'w) lib" where
  "fuse_lib_setxattr ino name val sz flags =
     bind_lib req_fuse_prepare (\<lambda>_.
       err_only (with_path (lib_path ino) (free_one ino) () (path_op (\<lambda>fs p. fuse_fs_setxattr fs p name val sz flags))))"

definition fuse_lib_removexattr :: "64 word \<Rightarrow> string \<Rightarrow> (unit, 'w) lib" where
  "fuse_lib_removexattr ino name =
     bind_lib req_fuse_prepare (\<lambda>_.
       err_only (with_path (lib_path ino) (free_one ino) () (path_op (\<lambda>fs p. fuse_fs_removexattr fs p name))))"

text \<open>\<^verbatim>\<open>common_getxattr\<close> and \<^verbatim>\<open>common_listxattr\<close>: the operation \<open>f\<close> gets the buffer and its size.\<close>

definition common_xattr ::
    "64 word \<Rightarrow> ('w fuse_fs \<Rightarrow> string \<Rightarrow> ptr \<Rightarrow> nat \<Rightarrow> (int, 'w) act) \<Rightarrow> ptr \<Rightarrow> nat \<Rightarrow> (int, 'w) lib" where
  "common_xattr ino f val sz =
     bind_lib (with_path (lib_path ino) (free_one ino) () (path_op (\<lambda>fs p. f fs p val sz))) (\<lambda>(err, _). ret_lib err)"

definition xattr_request ::
    "64 word \<Rightarrow> nat \<Rightarrow> ('w fuse_fs \<Rightarrow> string \<Rightarrow> ptr \<Rightarrow> nat \<Rightarrow> (int, 'w) act) \<Rightarrow> (unit, 'w) lib" where
  "xattr_request ino sz f =
     bind_lib req_fuse_prepare (\<lambda>_.
       if sz \<noteq> 0 then
         bind_lib (on_malloc sz) (\<lambda>r.
           case r of
             None \<Rightarrow> reply_err (- ENOMEM)
           | Some a \<Rightarrow>
               bind_lib (common_xattr ino f (a, 0) sz) (\<lambda>res.
               bind_lib
                 (if res > 0
                  then
                    bind_lib (ask_lib (\<lambda>s. mheap (fz_state s))) (\<lambda>h.
                    bind_lib (lift_lib (mem_read h (a, 0) (nat res))) (\<lambda>bs.
                    bind_lib (send_reply 0 (BytesOut bs)) (\<lambda>_. ret_lib ())))
                  else reply_err res)
                 (\<lambda>_. on_state (mfree_obj a))))
       else
         bind_lib (common_xattr ino f (0, 0) 0) (\<lambda>res.
           if res \<ge> 0 then bind_lib (send_reply 0 (XattrOut res)) (\<lambda>_. ret_lib ()) else reply_err res))"

definition fuse_lib_getxattr :: "64 word \<Rightarrow> string \<Rightarrow> nat \<Rightarrow> (unit, 'w) lib" where
  "fuse_lib_getxattr ino name sz = xattr_request ino sz (\<lambda>fs p val n. fuse_fs_getxattr fs p name val n)"

definition fuse_lib_listxattr :: "64 word \<Rightarrow> nat \<Rightarrow> (unit, 'w) lib" where
  "fuse_lib_listxattr ino sz = xattr_request ino sz fuse_fs_listxattr"

section \<open>Locks of files\<close>

definition F_GETLK :: int where "F_GETLK = 5"
definition F_SETLK :: int where "F_SETLK = 6"
definition F_SETLKW :: int where "F_SETLKW = 7"

text \<open>The lock goes into the list of the node; that there was no memory for it is not noticed.\<close>

definition keep_lock :: "64 word \<Rightarrow> lock_t \<Rightarrow> fuse_nodes \<Rightarrow> fuse_nodes res" where
  "keep_lock ino l f =
     bind_res (get_node f ino) (\<lambda>n.
     bind_res (node f n) (\<lambda>d.
       let need = lk_type l \<noteq> F_UNLCK \<or> lk_start l \<noteq> 0 \<or> lk_end l \<noteq> OFFSET_MAX;
           (ok1, f1) = (if need then next_ok f else (True, f));
           (ok2, f2) = (if need then next_ok f1 else (True, f1)) in
       bind_res (locks_insert ok1 ok2 (nd_locks d) l) (\<lambda>(_, ls). Inr (put_node n (d\<lparr>nd_locks := ls\<rparr>) f2))))"

definition owned_lock :: "flock_t \<Rightarrow> fuse_file_info \<Rightarrow> lock_t res" where
  "owned_lock lock fi = bind_res (flock_to_lock lock) (\<lambda>l. Inr (l\<lparr>lk_owner := fi_lock_owner fi\<rparr>))"

definition keep_flock :: "64 word \<Rightarrow> flock_t \<Rightarrow> fuse_file_info \<Rightarrow> (unit, 'w) lib" where
  "keep_flock ino lock fi = bind_lib (lift_lib (owned_lock lock fi)) (\<lambda>l. do_nodes (keep_lock ino l))"

definition unlock_all :: flock_t where
  "unlock_all = \<lparr>l_type = F_UNLCK, l_whence = 0, l_start = 0, l_len = 0, l_pid = 0\<rparr>"

definition fuse_flush_common :: "64 word \<Rightarrow> string option \<Rightarrow> fuse_file_info \<Rightarrow> (int \<times> fuse_file_info, 'w) lib" where
  "fuse_flush_common ino path fi =
     bind_lib (on_fs (\<lambda>fs. fuse_fs_flush fs path fi)) (\<lambda>(err, fi1).
     bind_lib (on_fs (\<lambda>fs. fuse_fs_lock fs path fi1 F_SETLK unlock_all)) (\<lambda>(errlock, lock, fi2).
       if errlock = - ENOSYS then ret_lib (err, fi2)
       else bind_lib (keep_flock ino lock fi2) (\<lambda>_. ret_lib (if err = - ENOSYS then 0 else err, fi2))))"

definition fuse_lib_release :: "64 word \<Rightarrow> fuse_file_info \<Rightarrow> (unit, 'w) lib" where
  "fuse_lib_release ino fi =
     bind_lib req_fuse_prepare (\<lambda>_.
     bind_lib (lib_nullok_path ino) (\<lambda>(_, path, w).
     bind_lib
       (if fi_flush fi
        then bind_lib (fuse_flush_common ino path fi) (\<lambda>(err, fi1). ret_lib (if err = - ENOSYS then 0 else err, fi1))
        else ret_lib (0, fi)) (\<lambda>(err, fi1).
     bind_lib (fuse_do_release ino path fi1) (\<lambda>_.
     bind_lib (free_one ino (path, w)) (\<lambda>_. reply_err err)))))"

definition fuse_lib_flush :: "64 word \<Rightarrow> fuse_file_info \<Rightarrow> (unit, 'w) lib" where
  "fuse_lib_flush ino fi =
     bind_lib req_fuse_prepare (\<lambda>_.
     bind_lib (lib_nullok_path ino) (\<lambda>(_, path, w).
     bind_lib (fuse_flush_common ino path fi) (\<lambda>(err, _).
     bind_lib (free_one ino (path, w)) (\<lambda>_. reply_err err))))"

definition fuse_lock_common :: "64 word \<Rightarrow> fuse_file_info \<Rightarrow> flock_t \<Rightarrow> int \<Rightarrow> (int \<times> flock_t \<times> fuse_file_info, 'w) lib" where
  "fuse_lock_common ino fi lock cmd =
     bind_lib req_fuse_prepare (\<lambda>_.
       with_path (lib_nullok_path ino) (free_one ino) (lock, fi) (\<lambda>(path, _). on_fs (\<lambda>fs. fuse_fs_lock fs path fi cmd lock)))"

text \<open>A conflict with a lock that this file system knows is answered at once.\<close>

definition fuse_lib_getlk :: "64 word \<Rightarrow> fuse_file_info \<Rightarrow> flock_t \<Rightarrow> (unit, 'w) lib" where
  "fuse_lib_getlk ino fi lock =
     bind_lib (lift_lib (owned_lock lock fi)) (\<lambda>l.
     bind_lib (ask_nodes (find_nd ino)) (\<lambda>(n, d).
     bind_lib
       (case locks_conflict (nd_locks d) l of
          Some c \<Rightarrow> bind_lib (lift_lib (lock_to_flock c lock)) (\<lambda>lock1. ret_lib (0, lock1))
        | None \<Rightarrow> bind_lib (fuse_lock_common ino fi lock F_GETLK) (\<lambda>(err, lock1, _). ret_lib (err, lock1)))
       (\<lambda>(err, lock1).
          if err = 0 then bind_lib (send_reply 0 (LockOut lock1)) (\<lambda>_. ret_lib ()) else reply_err err)))"

definition fuse_lib_setlk :: "64 word \<Rightarrow> fuse_file_info \<Rightarrow> flock_t \<Rightarrow> bool \<Rightarrow> (unit, 'w) lib" where
  "fuse_lib_setlk ino fi lock sleep =
     bind_lib (fuse_lock_common ino fi lock (if sleep then F_SETLKW else F_SETLK)) (\<lambda>(err, lock1, fi1).
     bind_lib (if err = 0 then keep_flock ino lock1 fi1 else ret_lib ()) (\<lambda>_. reply_err err))"

section \<open>Forgetting after a time\<close>

text \<open>The time between two cleanings, a tenth of the time nodes are remembered, from a minute to an hour.\<close>

definition clean_delay :: "fuse_nodes \<Rightarrow> int" where
  "clean_delay f =
     (let sleep_time = conf_remember f div 10 in
      if sleep_time > 3600 then 3600 else if sleep_time < 60 then 60 else sleep_time)"

text \<open>
  The list is in the order of the times, so the first node that is young enough ends the loop. A node in
  the list holds a reference of its own, so that removing another node never takes it out of the list.
\<close>

fun clean_loop :: "timespec \<Rightarrow> nat list \<Rightarrow> fuse_nodes \<Rightarrow> fuse_nodes res" where
  "clean_loop now [] f = Inr f"
| "clean_loop now (n # ns) f =
     bind_res (node f n) (\<lambda>d.
       if diff_timespec now (nd_forget_time d) \<le> of_int (conf_remember f) then Inr f
       else
         bind_res (guard_res (nd_nlookup d = 1) AssertFailed) (\<lambda>_.
           if nd_refctr d > 1 then clean_loop now ns f
           else
             bind_res (unhash_name (put_node n (d\<lparr>nd_nlookup := 0\<rparr>) f) n) (\<lambda>f1.
             bind_res (unref_node f1 n) (clean_loop now ns))))"

definition fuse_clean_cache :: "fuse_nodes \<Rightarrow> (int \<times> fuse_nodes) res" where
  "fuse_clean_cache f =
     bind_res (curr_time f) (\<lambda>(now, f1).
     bind_res (clean_loop now (fn_lru f1) f1) (\<lambda>f2. Inr (clean_delay f2, f2)))"

section \<open>All requests\<close>

text \<open>
  The table of operations that \<^verbatim>\<open>lib/fuse.c\<close> hands to the session: a request and its arguments. The
  table \<open>ops\<close> of functions on descriptors is for the data of a read or write.
\<close>

datatype request =
    ReqLookup "64 word" string
  | ReqForget "64 word" "64 word"
  | ReqForgetMulti "(64 word \<times> 64 word) list"
  | ReqGetattr "64 word" "fuse_file_info option"
  | ReqSetattr "64 word" set_attr int "fuse_file_info option"
  | ReqAccess "64 word" int
  | ReqReadlink "64 word"
  | ReqMknod "64 word" string int int
  | ReqMkdir "64 word" string int
  | ReqUnlink "64 word" string
  | ReqRmdir "64 word" string
  | ReqSymlink string "64 word" string
  | ReqRename "64 word" string "64 word" string
  | ReqLink "64 word" "64 word" string
  | ReqCreate "64 word" string int fuse_file_info
  | ReqOpen "64 word" fuse_file_info
  | ReqRead "64 word" "64 word" int fuse_file_info
  | ReqWriteBuf "64 word" fuse_bufvec int fuse_file_info
  | ReqFlush "64 word" fuse_file_info
  | ReqRelease "64 word" fuse_file_info
  | ReqFsync "64 word" int fuse_file_info
  | ReqStatfs "64 word"
  | ReqSetxattr "64 word" string ptr nat int
  | ReqGetxattr "64 word" string nat
  | ReqListxattr "64 word" nat
  | ReqRemovexattr "64 word" string
  | ReqGetlk "64 word" fuse_file_info flock_t
  | ReqSetlk "64 word" fuse_file_info flock_t bool
  | ReqFlock "64 word" fuse_file_info int
  | ReqBmap "64 word" nat int
  | ReqPoll "64 word" fuse_file_info nat
  | ReqFallocate "64 word" int int int fuse_file_info

definition serve :: "'w fdops \<Rightarrow> request \<Rightarrow> (unit, 'w) lib" where
  "serve ops r =
     (case r of
        ReqLookup parent name \<Rightarrow> fuse_lib_lookup parent name
      | ReqForget ino nlookup \<Rightarrow> fuse_lib_forget ino nlookup
      | ReqForgetMulti forgets \<Rightarrow> fuse_lib_forget_multi forgets
      | ReqGetattr ino fi \<Rightarrow> fuse_lib_getattr ino fi
      | ReqSetattr ino attr valid fi \<Rightarrow> fuse_lib_setattr ino attr valid fi
      | ReqAccess ino amask \<Rightarrow> fuse_lib_access ino amask
      | ReqReadlink ino \<Rightarrow> fuse_lib_readlink ino
      | ReqMknod parent name mode rdev \<Rightarrow> fuse_lib_mknod parent name mode rdev
      | ReqMkdir parent name mode \<Rightarrow> fuse_lib_mkdir parent name mode
      | ReqUnlink parent name \<Rightarrow> fuse_lib_unlink parent name
      | ReqRmdir parent name \<Rightarrow> fuse_lib_rmdir parent name
      | ReqSymlink linkname parent name \<Rightarrow> fuse_lib_symlink linkname parent name
      | ReqRename olddir oldname newdir newname \<Rightarrow> fuse_lib_rename olddir oldname newdir newname
      | ReqLink ino newparent newname \<Rightarrow> fuse_lib_link ino newparent newname
      | ReqCreate parent name mode fi \<Rightarrow> fuse_lib_create parent name mode fi
      | ReqOpen ino fi \<Rightarrow> fuse_lib_open ino fi
      | ReqRead ino sz off fi \<Rightarrow> fuse_lib_read ops ino sz off fi
      | ReqWriteBuf ino buf off fi \<Rightarrow> fuse_lib_write_buf ops ino buf off fi
      | ReqFlush ino fi \<Rightarrow> fuse_lib_flush ino fi
      | ReqRelease ino fi \<Rightarrow> fuse_lib_release ino fi
      | ReqFsync ino datasync fi \<Rightarrow> fuse_lib_fsync ino datasync fi
      | ReqStatfs ino \<Rightarrow> fuse_lib_statfs ino
      | ReqSetxattr ino name val sz flags \<Rightarrow> fuse_lib_setxattr ino name val sz flags
      | ReqGetxattr ino name sz \<Rightarrow> fuse_lib_getxattr ino name sz
      | ReqListxattr ino sz \<Rightarrow> fuse_lib_listxattr ino sz
      | ReqRemovexattr ino name \<Rightarrow> fuse_lib_removexattr ino name
      | ReqGetlk ino fi lock \<Rightarrow> fuse_lib_getlk ino fi lock
      | ReqSetlk ino fi lock sleep \<Rightarrow> fuse_lib_setlk ino fi lock sleep
      | ReqFlock ino fi lop \<Rightarrow> fuse_lib_flock ino fi lop
      | ReqBmap ino blocksize idx \<Rightarrow> fuse_lib_bmap ino blocksize idx
      | ReqPoll ino fi ph \<Rightarrow> fuse_lib_poll ino fi ph
      | ReqFallocate ino mode offs len fi \<Rightarrow> fuse_lib_fallocate ino mode offs len fi)"

end
