(* ===== verification/Lib_Steps.thy ===== *)
theory Lib_Steps
  imports Lib_Frames Fuse_File_Requests
begin

text \<open>
  A calculus for the requests. \<open>serves R m Q\<close> says that \<open>m\<close> returns from every state whose nodes satisfy
  \<open>R\<close>, with nodes that satisfy \<open>Q\<close>, and that it leaves no request waiting. The operations of the file
  system may do what they want, but return.
\<close>

section \<open>File systems whose operations return\<close>

definition returns :: "('a, 'w) act \<Rightarrow> bool" where
  "returns m \<longleftrightarrow> (\<forall>s. \<exists>r. m s = Inr r)"

definition fs_total :: "'w fuse_fs \<Rightarrow> bool" where
  "fs_total fs \<longleftrightarrow>
     (\<forall>p st. returns (fuse_fs_getattr fs p st)) \<and> (\<forall>p st fi. returns (fuse_fs_fgetattr fs p st fi)) \<and>
     (\<forall>p mode. returns (fuse_fs_chmod fs p mode)) \<and> (\<forall>p u g. returns (fuse_fs_chown fs p u g)) \<and>
     (\<forall>p n. returns (fuse_fs_truncate fs p n)) \<and> (\<forall>p n fi. returns (fuse_fs_ftruncate fs p n fi)) \<and>
     (\<forall>p tv. returns (fuse_fs_utimens fs p tv)) \<and> (\<forall>p k. returns (fuse_fs_access fs p k)) \<and>
     (\<forall>p mode rdev. returns (fuse_fs_mknod fs p mode rdev)) \<and> (\<forall>p mode. returns (fuse_fs_mkdir fs p mode)) \<and>
     (\<forall>l p. returns (fuse_fs_symlink fs l p)) \<and> (\<forall>p. returns (fuse_fs_unlink fs p)) \<and> (\<forall>p. returns (fuse_fs_rmdir fs p)) \<and>
     (\<forall>p q. returns (fuse_fs_rename fs p q)) \<and> (\<forall>p q. returns (fuse_fs_link fs p q)) \<and>
     (\<forall>p mode fi. returns (fuse_fs_create fs p mode fi)) \<and> (\<forall>p fi. returns (fuse_fs_open fs p fi)) \<and>
     (\<forall>p fi. returns (fuse_fs_release fs p fi)) \<and> (\<forall>p fi. returns (fuse_fs_flush fs p fi)) \<and>
     (\<forall>p k fi. returns (fuse_fs_fsync fs p k fi)) \<and> (\<forall>p st. returns (fuse_fs_statfs fs p st)) \<and> op_lock (fs_op fs) = None"

lemma fs_totalD:
  assumes "fs_total fs"
  shows "returns (fuse_fs_getattr fs p st)" "returns (fuse_fs_fgetattr fs pn st fi)" "returns (fuse_fs_chmod fs p mode)"
    "returns (fuse_fs_chown fs p u g)" "returns (fuse_fs_truncate fs p n)" "returns (fuse_fs_ftruncate fs pn n fi)"
    "returns (fuse_fs_utimens fs p tv)" "returns (fuse_fs_access fs p k)" "returns (fuse_fs_mknod fs p mode rdev)"
    "returns (fuse_fs_mkdir fs p mode)" "returns (fuse_fs_symlink fs l p)" "returns (fuse_fs_unlink fs p)"
    "returns (fuse_fs_rmdir fs p)" "returns (fuse_fs_rename fs p q)" "returns (fuse_fs_link fs p q)"
    "returns (fuse_fs_create fs p mode fi)" "returns (fuse_fs_open fs p fi)" "returns (fuse_fs_release fs pn fi)"
    "returns (fuse_fs_flush fs pn fi)" "returns (fuse_fs_fsync fs pn k fi)" "returns (fuse_fs_statfs fs p sv)"
    "op_lock (fs_op fs) = None"
  using assms unfolding fs_total_def by (simp_all del: split_paired_All)

section \<open>The rules\<close>

definition serves :: "(fuse_nodes \<Rightarrow> bool) \<Rightarrow> ('a, 'w) lib \<Rightarrow> ('a \<Rightarrow> fuse_nodes \<Rightarrow> bool) \<Rightarrow> bool" where
  "serves R m Q \<longleftrightarrow>
     (\<forall>s. fz_lockq s = [] \<longrightarrow> fs_total (fz_fs s) \<longrightarrow> R (fz_nodes s) \<longrightarrow>
        (\<exists>x s'. m s = Inr (x, s') \<and> fz_lockq s' = [] \<and> fz_fs s' = fz_fs s \<and> Q x (fz_nodes s')))"

text \<open>Steps that do not touch the nodes.\<close>

definition quiet :: "('a, 'w) lib \<Rightarrow> bool" where
  "quiet m \<longleftrightarrow>
     (\<forall>s. fz_lockq s = [] \<longrightarrow> fs_total (fz_fs s) \<longrightarrow>
        (\<exists>x s'. m s = Inr (x, s') \<and> fz_lockq s' = [] \<and> fz_fs s' = fz_fs s \<and> fz_nodes s' = fz_nodes s))"

lemma serves_bind:
  fixes m :: "('a, 'w) lib"
  assumes "serves R m P" "\<And>x. serves (P x) (k x) Q"
  shows "serves R (bind_lib m k) Q"
  unfolding serves_def
proof (intro allI impI)
  fix s :: "'w fuse"
  assume s: "fz_lockq s = []" "fs_total (fz_fs s)" "R (fz_nodes s)"
  then obtain x s1 where s1: "m s = Inr (x, s1)" "fz_lockq s1 = []" "fz_fs s1 = fz_fs s" "P x (fz_nodes s1)"
    using assms(1) unfolding serves_def by blast
  then obtain y s2 where "k x s1 = Inr (y, s2)" "fz_lockq s2 = []" "fz_fs s2 = fz_fs s" "Q y (fz_nodes s2)"
    using assms(2) [of x] s(2) unfolding serves_def by metis
  then show "\<exists>x s'. bind_lib m k s = Inr (x, s') \<and> fz_lockq s' = [] \<and> fz_fs s' = fz_fs s \<and> Q x (fz_nodes s')"
    using s1(1) by (simp add: bind_lib_def)
qed

lemma serves_conseq: "serves R m P \<Longrightarrow> (\<And>f. R' f \<Longrightarrow> R f) \<Longrightarrow> (\<And>x f. P x f \<Longrightarrow> Q x f) \<Longrightarrow> serves R' m Q"
  unfolding serves_def by blast

lemma serves_ret: "(\<And>f. R f \<Longrightarrow> Q x f) \<Longrightarrow> serves R (ret_lib x) Q"
  by (simp add: serves_def ret_lib_def)

lemma serves_quiet: "quiet m \<Longrightarrow> (\<And>x f. R f \<Longrightarrow> Q x f) \<Longrightarrow> serves R m Q"
  unfolding serves_def quiet_def by metis

lemma serves_after: "quiet m \<Longrightarrow> (\<And>x. serves R (k x) Q) \<Longrightarrow> serves R (bind_lib m k) Q"
  by (rule serves_bind [of R m "\<lambda>_. R"]) (rule serves_quiet)

lemma serves_pre: "(\<And>f. R f \<Longrightarrow> A) \<Longrightarrow> (A \<Longrightarrow> serves R m Q) \<Longrightarrow> serves R m Q"
  unfolding serves_def by blast

lemma serves_on_nodes:
  "(\<And>f. R f \<Longrightarrow> \<exists>x f'. m f = Inr (x, f') \<and> Q x f') \<Longrightarrow> serves R (on_nodes m) Q"
  unfolding serves_def on_nodes_def by fastforce

lemma serves_do_nodes: "(\<And>f. R f \<Longrightarrow> \<exists>f'. m f = Inr f' \<and> Q f') \<Longrightarrow> serves R (do_nodes m) (\<lambda>_. Q)"
  unfolding do_nodes_def by (rule serves_on_nodes) fastforce

lemma serves_ask_nodes: "(\<And>f. R f \<Longrightarrow> \<exists>x. m f = Inr x \<and> Q x f) \<Longrightarrow> serves R (ask_nodes m) Q"
  unfolding serves_def ask_nodes_def by fastforce

lemma quiet_iff:
  fixes m :: "('a, 'w) lib"
  shows "quiet m \<longleftrightarrow> (\<forall>R. serves R m (\<lambda>_. R))"
proof
  assume a: "\<forall>R. serves R m (\<lambda>_. R)"
  show "quiet m"
    unfolding quiet_def
  proof (intro allI impI)
    fix s :: "'w fuse"
    assume "fz_lockq s = []" "fs_total (fz_fs s)"
    with a [rule_format, of "\<lambda>f. f = fz_nodes s"]
    show "\<exists>x s'. m s = Inr (x, s') \<and> fz_lockq s' = [] \<and> fz_fs s' = fz_fs s \<and> fz_nodes s' = fz_nodes s"
      unfolding serves_def by blast
  qed
qed (auto intro: serves_quiet)

lemma quiet_bind: "quiet m \<Longrightarrow> (\<And>x. quiet (k x)) \<Longrightarrow> quiet (bind_lib m k)"
  by (auto simp: quiet_iff intro: serves_bind)

lemma quiet_ret: "quiet (ret_lib x)"
  by (simp add: quiet_def ret_lib_def)

lemma quiet_ask: "quiet (ask_lib g)"
  by (simp add: quiet_def ask_lib_def)

lemma quiet_debug: "quiet (lib_debug msg)"
  by (simp add: quiet_def lib_debug_def)

lemma quiet_prepare: "quiet req_fuse_prepare"
  by (simp add: quiet_def req_fuse_prepare_def)

lemma quiet_send: "quiet (send_reply e arg)"
  by (auto simp: quiet_def send_reply_def Let_def split: list.splits)

lemma quiet_reply_none: "quiet fuse_reply_none"
  by (simp add: quiet_def fuse_reply_none_def)

lemma quiet_on_fs:
  fixes m :: "'w fuse_fs \<Rightarrow> ('a, 'w) act"
  assumes "\<And>fs. fs_total fs \<Longrightarrow> returns (m fs)"
  shows "quiet (on_fs m)"
  unfolding quiet_def
proof (intro allI impI)
  fix s :: "'w fuse"
  assume s: "fz_lockq s = []" "fs_total (fz_fs s)"
  from assms [OF s(2)] obtain x st where "m (fz_fs s) (fz_state s) = Inr (x, st)" unfolding returns_def by fastforce
  then show "\<exists>x s'. on_fs m s = Inr (x, s') \<and> fz_lockq s' = [] \<and> fz_fs s' = fz_fs s \<and> fz_nodes s' = fz_nodes s"
    using s by (simp add: on_fs_def)
qed

lemma quiet_lift: "quiet (lift_lib (Inr x))"
  by (simp add: quiet_def lift_lib_def)

lemma quiet_reply_err: "quiet (reply_err err)"
  unfolding reply_err_def fuse_reply_err_def by (intro quiet_bind quiet_send quiet_ret)

lemmas quiet_rules = quiet_bind quiet_ret quiet_ask quiet_debug quiet_prepare quiet_send quiet_lift quiet_reply_err quiet_reply_none

end
