(* ===== verification/Lib_Holds.thy ===== *)
theory Lib_Holds
  imports Lib_Steps
begin

text \<open>
  The rules for getting and freeing paths, and for what happens in between. \<open>busy hs\<close> says that the nodes
  are well formed and that the locks are those of the holders \<open>hs\<close>; between requests there are none.
\<close>

definition busy :: "path_hold list \<Rightarrow> fuse_nodes \<Rightarrow> bool" where
  "busy hs f \<longleftrightarrow> nodes_ok f \<and> lock_inv f hs"

lemma busy_idle: "busy [] f \<longleftrightarrow> nodes_ok f \<and> (\<forall>x. locks f x = 0)"
  by (auto simp: busy_def lock_inv_def counted_empty nodes_ok_def)

text \<open>What does not depend on the locks.\<close>

definition tree_pred :: "(fuse_nodes \<Rightarrow> bool) \<Rightarrow> bool" where
  "tree_pred R \<longleftrightarrow> (\<forall>f f'. same_tree f f' \<longrightarrow> R f \<longrightarrow> R f')"

lemma tree_predD: "tree_pred R \<Longrightarrow> same_tree f f' \<Longrightarrow> R f \<Longrightarrow> R f'"
  by (simp add: tree_pred_def)

lemma tree_pred_conj [intro]: "tree_pred R \<Longrightarrow> tree_pred S \<Longrightarrow> tree_pred (\<lambda>f. R f \<and> S f)"
  unfolding tree_pred_def by blast

lemma tree_pred_imp [intro]: "(A \<Longrightarrow> tree_pred R) \<Longrightarrow> tree_pred (\<lambda>f. A \<longrightarrow> R f)"
  unfolding tree_pred_def by blast

lemma tree_pred_const [simp]: "tree_pred (\<lambda>f. A)"
  by (simp add: tree_pred_def)

section \<open>Locking for a request\<close>

lemma find_name_view:
  "node_key (fn_heap f') = node_key (fn_heap f) \<Longrightarrow> find_name f' i nm ns = find_name f i nm ns"
  by (induction ns) (simp_all cong: if_cong)

lemma lookup_same_names:
  "fn_names f' = fn_names f \<Longrightarrow> node_key (fn_heap f') = node_key (fn_heap f) \<Longrightarrow> lookup_node f' i nm = lookup_node f i nm"
  using ext [of "find_name f' i nm" "find_name f i nm", OF find_name_view] by (simp add: lookup_node_def name_hash_def)

lemma lookup_same_tree:
  assumes "same_tree f f'" shows "lookup_node f' i nm = lookup_node f i nm"
proof (rule lookup_same_names)
  show "fn_names f' = fn_names f" using assms by (auto simp: same_tree_def with_locks_def)
  show "node_key (fn_heap f') = node_key (fn_heap f)" by (rule same_view(4) [OF same_tree_view [OF assms]])
qed

lemma try_get_path_target:
  assumes "try_get_path f i (Some nm) True True = Inr (0, path, w, f')"
  shows "lookup_node f i nm = Inr w"
proof -
  obtain ok f1 where 1: "next_ok f = (ok, f1)" by fastforce
  obtain ok2 f2 where 2: "next_ok f1 = (ok2, f2)" by fastforce
  have f2: "fn_names f2 = fn_names f" "fn_heap f2 = fn_heap f"
    using 1 2 by (auto simp: next_ok_def split: list.splits)
  obtain wn f3 pb where lw: "lock_wnode f2 i (Some nm) True = Inr (True, wn, f3)" "follow_path f3 i pb wn True = Inr (0, path, w, f')"
    using assms 1 2 by (auto simp: try_get_path_def Let_def bind_res_Inr_iff errno_defs split: if_splits option.splits)
  have l: "lookup_node f2 i nm = lookup_node f i nm" using f2 by (intro lookup_same_names) simp_all
  have "w = wn" using lw(2) by (auto simp: follow_path_def res_iffs split: if_splits)
  then show ?thesis using lw(1) l by (auto simp: lock_wnode_def res_iffs split: option.splits if_splits)
qed

text \<open>Nothing is locked before, so nothing has to be waited for.\<close>

lemma serves_get_path:
  assumes R: "tree_pred R" "\<And>f. R f \<Longrightarrow> request_ok f i name wr"
  shows "serves (\<lambda>f. busy [] f \<and> R f) (path_call (\<lambda>f q. get_path_common f q i name wr))
    (\<lambda>(err, path, w) f. R f \<and> (wr \<or> w = None) \<and>
       (if err = 0 then busy [(i, w)] f \<and> path \<noteq> None \<and> (\<forall>nm. wr \<longrightarrow> name = Some nm \<longrightarrow> lookup_node f i nm = Inr w)
        else busy [] f \<and> path = None \<and> w = None))"
  unfolding serves_def
proof (intro allI impI, elim conjE)
  fix s :: "'w fuse"
  let ?f = "fz_nodes s"
  assume s: "fz_lockq s = []" "fs_total (fz_fs s)" and b: "busy [] ?f" "R ?f"
  have l: "lock_inv ?f []" "room []" using b by (simp_all add: busy_def room_def int_defs)
  obtain err path w f' where r: "try_get_path ?f i name wr True = Inr (err, path, w, f')" "same_tree ?f f'"
    "if err = 0 then lock_inv f' ((i, w) # []) \<and> path = Some (full_path (fn_heap ?f) (way ?f i) (name_text name))
     else path = None \<and> w = None \<and> lock_inv f' []" "wr \<or> w = None"
    using lock_law [OF l R(2) [OF b(2)]] by blast
  have "err \<noteq> - EAGAIN"
  proof
    assume e: "err = - EAGAIN"
    then obtain n where "refusal ?f n None err" using lock_refused [OF l R(2) [OF b(2)] r(1)] by (auto simp: errno_defs)
    then show False using e b(1) by (auto simp: refusal_def busy_idle errno_defs)
  qed
  then have g: "get_path_common ?f [] i name wr = Inr (Returns (err, path, w), [], f')"
    using r(1) by (simp add: get_path_common_def)
  have ok: "nodes_ok f'" "R f'" using b same_tree_nodes_ok [OF r(2)] tree_predD [OF R(1) r(2)] by (simp_all add: busy_def)
  have t: "lookup_node f' i nm = Inr w" if "err = 0" "wr" "name = Some nm" for nm
    using try_get_path_target [of ?f i nm path w f'] r(1) that lookup_same_tree [OF r(2)] by simp
  show "\<exists>x s'. path_call (\<lambda>f q. get_path_common f q i name wr) s = Inr (x, s') \<and> fz_lockq s' = [] \<and> fz_fs s' = fz_fs s \<and>
    (case x of (err, path, w) \<Rightarrow> \<lambda>f. R f \<and> (wr \<or> w = None) \<and>
       (if err = 0 then busy [(i, w)] f \<and> path \<noteq> None \<and> (\<forall>nm. wr \<longrightarrow> name = Some nm \<longrightarrow> lookup_node f i nm = Inr w)
        else busy [] f \<and> path = None \<and> w = None)) (fz_nodes s')"
    using s g ok r(3,4) t by (auto simp: path_call_def busy_def split: if_splits)
qed

lemma serves_unlock:
  assumes "tree_pred R" "length hs < 10"
  shows "serves (\<lambda>f. busy ((i, w) # hs) f \<and> R f) (unlock_call (\<lambda>f q. free_path_wrlock f q i w)) (\<lambda>_ f. busy hs f \<and> R f)"
  unfolding serves_def
proof (intro allI impI, elim conjE)
  fix s :: "'w fuse"
  let ?f = "fz_nodes s"
  assume s: "fz_lockq s = []" "fs_total (fz_fs s)" and b: "busy ((i, w) # hs) ?f" "R ?f"
  have "room ((i, w) # hs)" using assms(2) by (simp add: room_def int_defs)
  then obtain f' where f': "unlock_path ?f i w None = Inr f'" "same_tree ?f f'" "lock_inv f' hs"
    using unlock_law [of ?f "(i, w) # hs" "(i, w)"] b(1) by (auto simp: busy_def)
  then show "\<exists>x s'. unlock_call (\<lambda>f q. free_path_wrlock f q i w) s = Inr (x, s') \<and> fz_lockq s' = [] \<and> fz_fs s' = fz_fs s \<and>
    busy hs (fz_nodes s') \<and> R (fz_nodes s')"
    using s b same_tree_nodes_ok [OF f'(2)] tree_predD [OF assms(1) f'(2)]
    by (auto simp: unlock_call_def free_path_wrlock_def busy_def)
qed

lemma free_one_eq:
  "w = None \<Longrightarrow> free_one i (Some path, w) = unlock_call (\<lambda>f q. free_path_wrlock f q i w)"
  "free_wr i (pn, w) = unlock_call (\<lambda>f q. free_path_wrlock f q i w)"
  by (simp_all add: free_one_def free_wr_def free_path_def)

lemma quiet_free_none: "quiet (free_one i (None, w))"
  by (simp add: quiet_def free_one_def unlock_call_def free_path_def)

lemma serves_with_path:
  assumes R: "tree_pred R" "\<And>f. R f \<Longrightarrow> request_ok f i name wr"
    and fr: "freep = (if wr then free_wr i else free_one i)"
    and body: "\<And>path w. serves (\<lambda>f. busy [(i, w)] f \<and> R f \<and> (\<forall>nm. wr \<longrightarrow> name = Some nm \<longrightarrow> lookup_node f i nm = Inr w))
        (body (Some path, w)) (\<lambda>r f. busy [(i, w)] f \<and> Q r f)"
    and Q: "\<And>r. tree_pred (Q r)" "\<And>err f. err \<noteq> 0 \<Longrightarrow> R f \<Longrightarrow> Q (err, none) f"
  shows "serves (\<lambda>f. busy [] f \<and> R f) (with_path (path_call (\<lambda>f q. get_path_common f q i name wr)) freep none body)
    (\<lambda>r f. busy [] f \<and> Q r f)"
  unfolding with_path_def
proof (rule serves_bind, rule serves_get_path [OF R(1)], erule R(2), goal_cases)
  case (1 x)
  obtain err path w where x: "x = (err, path, w)" by (cases x) auto
  show ?case
  proof (cases "err = 0")
    case False
    then show ?thesis using x Q(2) by (auto intro!: serves_ret)
  next
    case True
    show ?thesis
    proof (cases "path \<noteq> None \<and> (wr \<or> w = None)")
      case False
      then show ?thesis using x True by (auto simp: serves_def)
    next
      case ok: True
      then obtain p where p: "path = Some p" by blast
      have "freep (path, w) = unlock_call (\<lambda>f q. free_path_wrlock f q i w)"
        using fr ok p free_one_eq by (cases wr) simp_all
      then have fr: "serves (\<lambda>f. busy ((i, w) # []) f \<and> Q r f) (freep (path, w)) (\<lambda>_ f. busy [] f \<and> Q r f)" for r
        using serves_unlock [OF Q(1), of "[]" i w r] by simp
      have "serves (\<lambda>f. busy [(i, w)] f \<and> R f \<and> (\<forall>nm. wr \<longrightarrow> name = Some nm \<longrightarrow> lookup_node f i nm = Inr w))
        (bind_lib (body (path, w)) (\<lambda>r. bind_lib (freep (path, w)) (\<lambda>_. ret_lib r))) (\<lambda>r f. busy [] f \<and> Q r f)"
        unfolding p by (rule serves_bind [OF body]) (rule serves_bind [OF fr [unfolded p]], rule serves_ret)
      then show ?thesis using x True by (auto elim!: serves_conseq)
    qed
  qed
qed

section \<open>Paths that may be null\<close>

lemma path_call_Inr_iff:
  "path_call c s = Inr (x, s') \<longleftrightarrow>
     (\<exists>q f. c (fz_nodes s) (fz_lockq s) = Inr (Returns x, q, f) \<and> s' = s\<lparr>fz_nodes := f, fz_lockq := q\<rparr>)"
  by (cases "c (fz_nodes s) (fz_lockq s)") (auto simp: path_call_def split: call.splits)

lemma serves_nullok_path:
  assumes R: "tree_pred R" "\<And>f. R f \<Longrightarrow> request_ok f i None False"
  shows "serves (\<lambda>f. busy [] f \<and> R f) (lib_nullok_path i)
    (\<lambda>(err, path, w) f. R f \<and> w = None \<and> (if path = None then busy [] f else err = 0 \<and> busy [(i, None)] f))"
  unfolding serves_def
proof (intro allI impI)
  fix s :: "'w fuse"
  assume s: "fz_lockq s = []" "fs_total (fz_fs s)" "busy [] (fz_nodes s) \<and> R (fz_nodes s)"
  show "\<exists>x s'. lib_nullok_path i s = Inr (x, s') \<and> fz_lockq s' = [] \<and> fz_fs s' = fz_fs s \<and>
    (case x of (err, path, w) \<Rightarrow> \<lambda>f. R f \<and> w = None \<and> (if path = None then busy [] f else err = 0 \<and> busy [(i, None)] f)) (fz_nodes s')"
  proof (cases "cf_nopath (fz_conf s)")
    case True
    then show ?thesis using s by (simp add: lib_nullok_path_def path_call_def get_path_nullok_def)
  next
    case False
    have got: "serves (\<lambda>f. busy [] f \<and> R f) (path_call (\<lambda>f q. get_path_common f q i None False))
      (\<lambda>(err, path, w) f. R f \<and> (False \<or> w = None) \<and>
         (if err = 0 then busy [(i, w)] f \<and> path \<noteq> None \<and> (\<forall>nm. False \<longrightarrow> None = Some nm \<longrightarrow> lookup_node f i nm = Inr w)
          else busy [] f \<and> path = None \<and> w = None))"
      by (rule serves_get_path [OF R(1)]) (erule R(2))
    obtain err path w s' where c: "path_call (\<lambda>f q. get_path_common f q i None False) s = Inr ((err, path, w), s')" "fz_lockq s' = []"
      "fz_fs s' = fz_fs s" "R (fz_nodes s')" "w = None"
      "if err = 0 then busy [(i, w)] (fz_nodes s') \<and> path \<noteq> None else busy [] (fz_nodes s') \<and> path = None"
      using got [unfolded serves_def, rule_format, OF s] by (fastforce split: if_splits)
    from c(1) obtain q f where g: "get_path_common (fz_nodes s) (fz_lockq s) i None False = Inr (Returns (err, path, w), q, f)"
      "s' = s\<lparr>fz_nodes := f, fz_lockq := q\<rparr>"
      by (auto simp: path_call_Inr_iff)
    have "lib_nullok_path i s = Inr ((if err = - ENOENT \<and> fz_nullpath_ok s then 0 else err, path, w), s')"
      using False by (simp add: lib_nullok_path_def path_call_def get_path_nullok_def g)
    then show ?thesis using c by (auto split: if_splits)
  qed
qed

lemma serves_with_nullok:
  assumes R: "tree_pred R" "\<And>f. R f \<Longrightarrow> request_ok f i None False"
    and body: "\<And>path hs. (path \<noteq> None \<Longrightarrow> hs = [(i, None)]) \<Longrightarrow> (path = None \<Longrightarrow> hs = []) \<Longrightarrow>
        serves (\<lambda>f. busy hs f \<and> R f) (body (path, None)) (\<lambda>r f. busy hs f \<and> Q r f)"
    and Q: "\<And>r. tree_pred (Q r)" "\<And>err f. err \<noteq> 0 \<Longrightarrow> R f \<Longrightarrow> Q (err, none) f"
  shows "serves (\<lambda>f. busy [] f \<and> R f) (with_path (lib_nullok_path i) (free_one i) none body) (\<lambda>r f. busy [] f \<and> Q r f)"
  unfolding with_path_def
proof (rule serves_bind, rule serves_nullok_path [OF R(1)], erule R(2), goal_cases)
  case (1 x)
  obtain err path w where x: "x = (err, path, w)" by (cases x) auto
  show ?case
  proof (cases "err = 0 \<and> w = None")
    case False
    show ?thesis
    proof (cases "err = 0")
      case True
      then show ?thesis using x False by (auto simp: serves_def)
    next
      case err: False
      then show ?thesis using x Q(2) by (auto intro!: serves_ret split: if_splits)
    qed
  next
    case ok: True
    have "serves (\<lambda>f. busy (if path = None then [] else [(i, None)]) f \<and> R f)
      (bind_lib (body (path, w)) (\<lambda>r. bind_lib (free_one i (path, w)) (\<lambda>_. ret_lib r))) (\<lambda>r f. busy [] f \<and> Q r f)"
    proof (cases path)
      case None
      have fr: "serves (\<lambda>f. busy [] f \<and> Q r f) (bind_lib (free_one i (None, None)) (\<lambda>_. ret_lib r)) (\<lambda>r f. busy [] f \<and> Q r f)" for r
        by (rule serves_after [OF quiet_free_none]) (rule serves_ret)
      have "serves (\<lambda>f. busy [] f \<and> R f) (body (None, None)) (\<lambda>r f. busy [] f \<and> Q r f)" by (rule body) simp_all
      from serves_bind [OF this fr] show ?thesis using ok None by simp
    next
      case (Some p)
      have fr: "serves (\<lambda>f. busy ((i, None) # []) f \<and> Q r f) (free_one i (path, w)) (\<lambda>_ f. busy [] f \<and> Q r f)" for r
        using serves_unlock [OF Q(1), of "[]" i None r] ok Some by (simp add: free_one_eq)
      have fr: "serves (\<lambda>f. busy [(i, None)] f \<and> Q r f) (bind_lib (free_one i (path, w)) (\<lambda>_. ret_lib r)) (\<lambda>r f. busy [] f \<and> Q r f)" for r
        by (rule serves_bind [OF fr], rule serves_ret)
      have "serves (\<lambda>f. busy [(i, None)] f \<and> R f) (body (path, None)) (\<lambda>r f. busy [(i, None)] f \<and> Q r f)"
        by (rule body) (simp_all add: Some)
      from serves_bind [OF this fr] show ?thesis using ok Some by simp
    qed
    then show ?thesis using x ok by (auto elim!: serves_conseq split: if_splits)
  qed
qed

section \<open>Two paths\<close>

lemma try_get_path_some: "try_get_path f i name wr lk = Inr (0, path, w, f') \<Longrightarrow> path \<noteq> None"
  by (auto simp: try_get_path_def follow_path_def Let_def res_iffs errno_defs split: prod.splits if_splits option.splits)

text \<open>Neither path has to wait for the other.\<close>

definition paths_apart :: "fuse_nodes \<Rightarrow> 64 word \<Rightarrow> string option \<Rightarrow> 64 word \<Rightarrow> string option \<Rightarrow> bool \<Rightarrow> bool" where
  "paths_apart f i1 name1 i2 name2 wr \<longleftrightarrow>
     (case get_path2 f [] i1 name1 i2 name2 wr wr of Inr (Waits, _, _) \<Rightarrow> False | _ \<Rightarrow> True)"

lemma serves_get_path2:
  assumes R: "tree_pred R" "\<And>f. R f \<Longrightarrow> request_ok f i1 name1 wr \<and> request_ok f i2 name2 wr"
  shows "serves (\<lambda>f. busy [] f \<and> R f \<and> paths_apart f i1 name1 i2 name2 wr) (path_call (\<lambda>f q. get_path2 f q i1 name1 i2 name2 wr wr))
    (\<lambda>(err, (p1, w1), (p2, w2)) f. R f \<and>
       (if err = 0 then busy [(i2, w2), (i1, w1)] f \<and> p1 \<noteq> None \<and> p2 \<noteq> None \<and>
          (\<forall>nm. wr \<longrightarrow> name1 = Some nm \<longrightarrow> lookup_node f i1 nm = Inr w1) \<and> (\<forall>nm. wr \<longrightarrow> name2 = Some nm \<longrightarrow> lookup_node f i2 nm = Inr w2)
        else busy [] f))"
  unfolding serves_def
proof (intro allI impI, elim conjE)
  fix s :: "'w fuse"
  let ?f = "fz_nodes s"
  assume s: "fz_lockq s = []" "fs_total (fz_fs s)" and b: "busy [] ?f" "R ?f" "paths_apart ?f i1 name1 i2 name2 wr"
  have l: "lock_inv ?f []" "room2 []" using b by (simp_all add: busy_def room2_def int_defs)
  obtain err p1 w1 p2 w2 f' where r: "try_get_path2 ?f i1 name1 i2 name2 wr wr = Inr (err, (p1, w1), (p2, w2), f')" "same_tree ?f f'"
    "if err = 0 then lock_inv f' ((i2, w2) # (i1, w1) # []) else lock_inv f' []"
    using try_get_path2_law [OF l] R(2) [OF b(2)] by blast
  have g: "get_path2 ?f [] i1 name1 i2 name2 wr wr = Inr (Returns (err, (p1, w1), (p2, w2)), [], f')"
    using r(1) b(3) by (auto simp: paths_apart_def get_path2_def)
  have ok: "nodes_ok f'" "R f'" using b same_tree_nodes_ok [OF r(2)] tree_predD [OF R(1) r(2)] by (simp_all add: busy_def)
  have t: "p1 \<noteq> None \<and> p2 \<noteq> None \<and> (\<forall>nm. wr \<longrightarrow> name1 = Some nm \<longrightarrow> lookup_node f' i1 nm = Inr w1) \<and>
      (\<forall>nm. wr \<longrightarrow> name2 = Some nm \<longrightarrow> lookup_node f' i2 nm = Inr w2)" if e: "err = 0"
  proof -
    obtain f1 where f1: "try_get_path ?f i1 name1 wr True = Inr (0, p1, w1, f1)" "try_get_path f1 i2 name2 wr True = Inr (0, p2, w2, f')"
      using r(1) e by (auto simp: try_get_path2_def bind_res_Inr_iff split: if_splits)
    have "lookup_node f1 i2 nm = lookup_node ?f i2 nm" for nm
    proof -
      have "room []" by (simp add: room_def int_defs)
      then have "same_tree ?f f1" using lock_law [OF l(1) _, of i1 name1 wr] R(2) [OF b(2)] f1(1) by fastforce
      then show ?thesis by (rule lookup_same_tree)
    qed
    then show ?thesis
      using try_get_path_some f1 try_get_path_target [of ?f i1 _ p1 w1 f1] try_get_path_target [of f1 i2 _ p2 w2 f'] lookup_same_tree [OF r(2)]
      by (cases wr) auto
  qed
  show "\<exists>x s'. path_call (\<lambda>f q. get_path2 f q i1 name1 i2 name2 wr wr) s = Inr (x, s') \<and> fz_lockq s' = [] \<and> fz_fs s' = fz_fs s \<and>
    ((\<lambda>(err, (p1, w1), (p2, w2)) f. R f \<and>
       (if err = 0 then busy [(i2, w2), (i1, w1)] f \<and> p1 \<noteq> None \<and> p2 \<noteq> None \<and>
          (\<forall>nm. wr \<longrightarrow> name1 = Some nm \<longrightarrow> lookup_node f i1 nm = Inr w1) \<and> (\<forall>nm. wr \<longrightarrow> name2 = Some nm \<longrightarrow> lookup_node f i2 nm = Inr w2)
        else busy [] f)) x (fz_nodes s'))"
    using s g ok r(3) t by (auto simp: path_call_def busy_def split: if_splits)
qed

end
