(* ===== verification/Lib_Names.thy ===== *)
theory Lib_Names
  imports Lib_Holds
begin

text \<open>
  Looking up names, attributes, and making files: each request returns, keeps the nodes well formed and
  leaves no lock.
\<close>

section \<open>What lasts while a request runs\<close>

text \<open>Nodes keep their number and how often they are open, and the kernel keeps knowing them; new nodes are not open.\<close>

definition grows :: "fuse_nodes \<Rightarrow> fuse_nodes \<Rightarrow> bool" where
  "grows f f' \<longleftrightarrow>
     (\<forall>x d. fn_heap f x = Some d \<longrightarrow>
        (\<exists>d'. fn_heap f' x = Some d' \<and> nd_nodeid d' = nd_nodeid d \<and> nd_open_count d' = nd_open_count d \<and>
           (nd_nlookup d \<noteq> 0 \<longrightarrow> nd_nlookup d' \<noteq> 0))) \<and>
     (\<forall>x d'. fn_heap f x = None \<longrightarrow> fn_heap f' x = Some d' \<longrightarrow> nd_open_count d' = 0)"

definition lasting :: "(fuse_nodes \<Rightarrow> bool) \<Rightarrow> bool" where
  "lasting P \<longleftrightarrow> (\<forall>f f'. grows f f' \<longrightarrow> P f \<longrightarrow> P f')"

lemma lastingD: "lasting P \<Longrightarrow> grows f f' \<Longrightarrow> P f \<Longrightarrow> P f'"
  by (simp add: lasting_def)

lemma moves_grows: "moves M f f' \<Longrightarrow> grows f f'"
  using movesD by (fastforce simp: grows_def moves_def stays_def)

lemma same_tree_node:
  assumes "same_tree f f'" "fn_heap f x = Some d"
  shows "\<exists>t. fn_heap f' x = Some (d\<lparr>nd_treelock := t\<rparr>)"
  using assms by (auto simp: same_tree_def with_locks_def relock_def)

lemma same_tree_sel:
  "same_tree f f' \<Longrightarrow> fn_clock f' = fn_clock f \<and> fn_mem f' = fn_mem f \<and> dom (fn_heap f') = dom (fn_heap f) \<and> conf_remember f' = conf_remember f"
  by (auto simp: same_tree_def with_locks_def relock_def conf_remember_def)

lemma same_tree_grows:
  assumes "same_tree f f'" shows "grows f f'"
  unfolding grows_def
proof (intro conjI allI impI)
  fix x d'
  assume "fn_heap f x = None" "fn_heap f' x = Some d'"
  then show "nd_open_count d' = 0" using same_tree_sel [OF assms] by auto
qed (use same_tree_node [OF assms] in force)

lemma lasting_tree: "lasting P \<Longrightarrow> tree_pred P"
  unfolding tree_pred_def using lastingD same_tree_grows by blast

definition is_node :: "nat \<Rightarrow> 64 word \<Rightarrow> fuse_nodes \<Rightarrow> bool" where
  "is_node n i f \<longleftrightarrow> (\<exists>d. fn_heap f n = Some d \<and> nd_nodeid d = i)"

definition knows :: "64 word \<Rightarrow> fuse_nodes \<Rightarrow> bool" where
  "knows i f \<longleftrightarrow> (\<exists>n d. fn_heap f n = Some d \<and> nd_nodeid d = i \<and> nd_nlookup d \<noteq> 0)"

definition opened :: "64 word \<Rightarrow> int \<Rightarrow> fuse_nodes \<Rightarrow> bool" where
  "opened i c f \<longleftrightarrow> (\<exists>n d. fn_heap f n = Some d \<and> nd_nodeid d = i \<and> nd_open_count d = c)"

definition opens_ok :: "fuse_nodes \<Rightarrow> bool" where
  "opens_ok f \<longleftrightarrow> (\<forall>n d. fn_heap f n = Some d \<longrightarrow> 0 \<le> nd_open_count d \<and> nd_open_count d < INT_MAX)"

lemma lasting_rules [intro, simp]:
  "lasting (is_node n i)" "lasting (knows i)" "lasting (opened i c)" "lasting (\<lambda>f. A)"
  unfolding lasting_def is_node_def knows_def opened_def grows_def by metis+

lemma lasting_opens [intro, simp]: "lasting opens_ok"
  unfolding lasting_def
proof (intro allI impI)
  fix f f'
  assume g: "grows f f'" and o: "opens_ok f"
  have "0 \<le> nd_open_count d' \<and> nd_open_count d' < INT_MAX" if x: "fn_heap f' x = Some d'" for x d'
  proof (cases "fn_heap f x")
    case None
    then show ?thesis using g x by (simp add: grows_def int_defs)
  next
    case (Some d)
    then have "nd_open_count d' = nd_open_count d" using g x by (fastforce simp: grows_def)
    then show ?thesis using o Some by (simp add: opens_ok_def)
  qed
  then show "opens_ok f'" by (simp add: opens_ok_def)
qed

lemma lasting_conj [intro]: "lasting P \<Longrightarrow> lasting Q \<Longrightarrow> lasting (\<lambda>f. P f \<and> Q f)"
  unfolding lasting_def by blast

lemma lasting_ex [intro]: "(\<And>x. lasting (P x)) \<Longrightarrow> lasting (\<lambda>f. \<exists>x. P x f)"
  unfolding lasting_def by blast

lemma lasting_imp [intro]: "(A \<Longrightarrow> lasting P) \<Longrightarrow> lasting (\<lambda>f. A \<longrightarrow> P f)"
  unfolding lasting_def by blast

lemma lasting_disj [intro]: "lasting P \<Longrightarrow> lasting Q \<Longrightarrow> lasting (\<lambda>f. P f \<or> Q f)"
  unfolding lasting_def by blast

text \<open>The tree above a node, which counting and remembering attributes leave alone.\<close>

definition follows :: "fuse_nodes \<Rightarrow> fuse_nodes \<Rightarrow> bool" where
  "follows f f' \<longleftrightarrow>
     (\<forall>x d. fn_heap f x = Some d \<longrightarrow>
        (\<exists>d'. fn_heap f' x = Some d' \<and> nd_nodeid d' = nd_nodeid d \<and> nd_parent d' = nd_parent d \<and> nd_name d' = nd_name d \<and>
           (nd_nlookup d \<noteq> 0 \<longrightarrow> nd_nlookup d' \<noteq> 0)))"

definition abides :: "(fuse_nodes \<Rightarrow> bool) \<Rightarrow> bool" where
  "abides P \<longleftrightarrow> (\<forall>f f'. follows f f' \<longrightarrow> P f \<longrightarrow> P f')"

lemma abidesD: "abides P \<Longrightarrow> follows f f' \<Longrightarrow> P f \<Longrightarrow> P f'"
  by (simp add: abides_def)

lemma moves_follows: "moves {} f f' \<Longrightarrow> follows f f'"
  unfolding follows_def using movesD by (force simp: stays_def)

lemma same_tree_follows: "same_tree f f' \<Longrightarrow> follows f f'"
  unfolding follows_def using same_tree_node by force

lemma abides_tree: "abides P \<Longrightarrow> tree_pred P"
  unfolding tree_pred_def using abidesD same_tree_follows by blast

text \<open>A node that the kernel knows at a place.\<close>

definition known_at :: "64 word \<Rightarrow> string \<Rightarrow> 64 word \<Rightarrow> fuse_nodes \<Rightarrow> bool" where
  "known_at i nm j f \<longleftrightarrow>
     (\<exists>n d. fn_heap f n = Some d \<and> nd_nodeid d = j \<and> nd_nlookup d \<noteq> 0 \<and> node_key (fn_heap f) n = Some (i, nm))"

lemma known_at_knows: "known_at i nm j f \<Longrightarrow> knows j f"
  by (auto simp: known_at_def knows_def)

lemma follows_key:
  assumes "follows f f'" "node_key (fn_heap f) n = Some k" shows "node_key (fn_heap f') n = Some k"
proof -
  obtain d p pd nm where d: "fn_heap f n = Some d" "nd_parent d = Some p" "nd_name d = Some nm" "fn_heap f p = Some pd" "k = (nd_nodeid pd, nm)"
    using assms(2) by (auto simp: node_key_def split: option.splits)
  obtain d' where "fn_heap f' n = Some d'" "nd_parent d' = Some p" "nd_name d' = Some nm" using assms(1) d(1-3) by (fastforce simp: follows_def)
  moreover obtain pd' where "fn_heap f' p = Some pd'" "nd_nodeid pd' = nd_nodeid pd" using assms(1) d(4) by (fastforce simp: follows_def)
  ultimately show ?thesis using d(5) by (simp add: node_key_def)
qed

lemma abides_known_at [intro, simp]: "abides (known_at i nm j)"
  unfolding abides_def
proof (intro allI impI)
  fix f f'
  assume f: "follows f f'" "known_at i nm j f"
  then obtain n d where n: "fn_heap f n = Some d" "nd_nodeid d = j" "nd_nlookup d \<noteq> 0" "node_key (fn_heap f) n = Some (i, nm)"
    by (auto simp: known_at_def)
  then obtain d' where "fn_heap f' n = Some d'" "nd_nodeid d' = j" "nd_nlookup d' \<noteq> 0" using f(1) by (fastforce simp: follows_def)
  then show "known_at i nm j f'" using follows_key [OF f(1) n(4)] by (auto simp: known_at_def)
qed

lemma abides_rules [intro, simp]: "abides (is_node n i)" "abides (knows i)" "abides (\<lambda>f. A)"
  unfolding abides_def is_node_def knows_def follows_def by metis+

lemma abides_conj [intro]: "abides P \<Longrightarrow> abides Q \<Longrightarrow> abides (\<lambda>f. P f \<and> Q f)"
  unfolding abides_def by blast

lemma abides_ex [intro]: "(\<And>x. abides (P x)) \<Longrightarrow> abides (\<lambda>f. \<exists>x. P x f)"
  unfolding abides_def by blast

text \<open>What stays when no known node moves.\<close>

definition persists :: "(fuse_nodes \<Rightarrow> bool) \<Rightarrow> bool" where
  "persists P \<longleftrightarrow> (\<forall>f f'. moves {} f f' \<longrightarrow> P f \<longrightarrow> P f')"

lemma persistsD: "persists P \<Longrightarrow> moves {} f f' \<Longrightarrow> P f \<Longrightarrow> P f'"
  by (simp add: persists_def)

lemma lasting_persists: "lasting P \<Longrightarrow> persists P"
  unfolding persists_def using lastingD moves_grows by blast

lemma abides_persists: "abides P \<Longrightarrow> persists P"
  unfolding persists_def using abidesD moves_follows by blast

lemma persists_conj [intro]: "persists P \<Longrightarrow> persists Q \<Longrightarrow> persists (\<lambda>f. P f \<and> Q f)"
  unfolding persists_def by blast

lemma persists_rules [intro, simp]: "persists (is_node n i)" "persists (known_at i nm j)" "persists (knows i)" "persists (\<lambda>f. A)"
  by (auto intro: lasting_persists abides_persists)

text \<open>What only the locks may change for: the clock, and the room for new nodes.\<close>

definition clock :: "nat \<Rightarrow> fuse_nodes \<Rightarrow> bool" where
  "clock k f \<longleftrightarrow> k \<le> length (fn_clock f)"

definition may_make :: "fuse_nodes \<Rightarrow> bool" where
  "may_make f \<longleftrightarrow> mmap_fresh (fn_mem f) \<and> card (dom (fn_heap f)) < 2 ^ 31 - 3 \<and>
     (\<forall>n d. fn_heap f n = Some d \<longrightarrow> nd_nlookup d + 1 \<noteq> 0)"

lemma tree_pred_clock [intro, simp]: "tree_pred (clock k)"
  by (simp add: tree_pred_def clock_def same_tree_sel)

lemma clock_le: "clock k f \<Longrightarrow> j \<le> k \<Longrightarrow> clock j f"
  by (simp add: clock_def)

lemma tree_pred_make [intro, simp]: "tree_pred may_make"
  unfolding tree_pred_def
proof (intro allI impI)
  fix f f'
  assume s: "same_tree f f'" and m: "may_make f"
  have "nd_nlookup d + 1 \<noteq> 0" if x: "fn_heap f' n = Some d" for n d
  proof -
    have "n \<in> dom (fn_heap f)" using x same_tree_sel [OF s] by auto
    then obtain e where e: "fn_heap f n = Some e" by blast
    from same_tree_node [OF s e] have "nd_nlookup d = nd_nlookup e" using x by auto
    then show ?thesis using m e by (auto simp: may_make_def)
  qed
  then show "may_make f'" using s m by (simp add: may_make_def same_tree_sel)
qed

lemma tree_pred_request [intro, simp]: "tree_pred (\<lambda>f. request_ok f i name wr)"
  by (auto simp: tree_pred_def intro: request_view same_tree_view)

lemma request_is_node: "request_ok f i name wr \<Longrightarrow> \<exists>n. is_node n i f"
  by (auto simp: request_ok_def is_node_def)

section \<open>Steps on nodes\<close>

lemma busy_moves:
  assumes "busy hs f" "nodes_ok f'" "moves M f f'" "\<And>h. h \<in> set hs \<Longrightarrow> M \<inter> set (way f (fst h)) = {}"
  shows "busy hs f'"
  using assms lock_inv_moves [of f hs f' M] by (auto simp: busy_def nodes_ok_def)

lemma update_stat_ok:
  assumes "nodes_ok f" "is_node n i f" "clock (Suc k) f"
  shows "\<exists>f'. update_stat f n st = Inr f' \<and> nodes_ok f' \<and> moves {} f f' \<and> clock k f'"
proof -
  obtain d where d: "fn_heap f n = Some d" using assms(2) by (auto simp: is_node_def)
  obtain t ts where t: "fn_clock f = t # ts" "k \<le> length ts" using assms(3) by (cases "fn_clock f") (auto simp: clock_def)
  let ?d = "d\<lparr>nd_cache_valid := nd_cache_valid d \<and> mtime_eq st (nd_mtime d) \<and> st_size st = nd_size d,
     nd_mtime := \<lparr>tv_sec = st_mtime st, tv_nsec = st_mtime_nsec st\<rparr>, nd_size := st_size st, nd_stat_updated := t\<rparr>"
  let ?f = "f\<lparr>fn_clock := ts\<rparr>"
  have "nodes_ok ?f" using assms(1) by (simp add: nodes_ok_def tree_defs)
  then have "nodes_ok (put_node n ?d ?f)" using d by (intro nodes_ok_put(1)) simp_all
  moreover have "moves {} f (put_node n ?d ?f)" using d by (simp add: moves_def stays_def)
  moreover have "update_stat f n st = Inr (put_node n ?d ?f)" using d t(1) by (simp add: update_stat_def curr_time_def node_def)
  ultimately show ?thesis using t(2) by (simp add: clock_def)
qed

lemma serves_update_stat:
  assumes "persists P"
  shows "serves (\<lambda>f. busy hs f \<and> clock (Suc k) f \<and> is_node n i f \<and> P f) (do_nodes (\<lambda>f. update_stat f n st))
    (\<lambda>_ f. busy hs f \<and> clock k f \<and> is_node n i f \<and> P f)"
proof (rule serves_do_nodes)
  fix f
  assume f: "busy hs f \<and> clock (Suc k) f \<and> is_node n i f \<and> P f"
  then obtain f' where f': "update_stat f n st = Inr f'" "nodes_ok f'" "moves {} f f'" "clock k f'"
    using update_stat_ok [of f n i k st] by (auto simp: busy_def)
  have "busy hs f'" using f f'(2,3) busy_moves [of hs f f' "{}"] by simp
  moreover have "P f'" using f by (intro persistsD [OF assms f'(3)]) simp
  moreover have "is_node n i f'" using f by (intro persistsD [OF persists_rules(1) f'(3)]) simp
  ultimately show "\<exists>f'. update_stat f n st = Inr f' \<and> busy hs f' \<and> clock k f' \<and> is_node n i f' \<and> P f'" using f' by blast
qed

text \<open>With \<^verbatim>\<open>auto_cache\<close> the attributes of a node are remembered.\<close>

lemma serves_cache_stat:
  assumes "persists P"
  shows "serves (\<lambda>f. busy hs f \<and> clock (Suc k) f \<and> is_node n i f \<and> P f)
    (if c then do_nodes (\<lambda>f. update_stat f n st) else ret_lib ()) (\<lambda>_ f. busy hs f \<and> clock k f \<and> is_node n i f \<and> P f)"
proof (cases c)
  case True
  then show ?thesis using serves_update_stat [OF assms] by simp
next
  case False
  then show ?thesis by (auto intro!: serves_ret intro: clock_le)
qed

lemma serves_find_node:
  assumes "persists P"
  shows "serves (\<lambda>f. busy hs f \<and> clock k f \<and> may_make f \<and> (\<exists>q. is_node q i f) \<and> P f)
    (on_nodes (\<lambda>f. find_node f i (Some name)))
    (\<lambda>r f. busy hs f \<and> clock k f \<and> (case r of None \<Rightarrow> True | Some n \<Rightarrow> \<exists>j. is_node n j f \<and> known_at i name j f) \<and> P f)"
proof (rule serves_on_nodes)
  fix f
  assume f: "busy hs f \<and> clock k f \<and> may_make f \<and> (\<exists>q. is_node q i f) \<and> P f"
  then obtain q qd where q: "fn_heap f q = Some qd" "nd_nodeid qd = i" by (auto simp: is_node_def)
  have a: "nodes_ok f" "mmap_fresh (fn_mem f)" "card (dom (fn_heap f)) < 2 ^ 31 - 3" using f by (simp_all add: busy_def may_make_def)
  have few: "nd_nlookup d + 1 \<noteq> 0" if "fn_heap f n = Some d" for n d using f that by (simp add: may_make_def)
  obtain r f' where r: "find_node f i (Some name) = Inr (r, f')" "nodes_ok f'"
    "case r of None \<Rightarrow> fn_heap f' = fn_heap f | Some n \<Rightarrow> looked_up f q i name n f'"
    using find_node_ok [of f q qd name] a q few by blast
  have m: "moves {} f f'" using find_moves [of f q qd name r f'] a q few r(1) by blast
  have "busy hs f'" using f r(2) m busy_moves [of hs f f' "{}"] by simp
  moreover have "clock k f'" using f find_clock [OF r(1)] by (simp add: clock_def)
  moreover have "P f'" using f persistsD [OF assms m] by simp
  moreover have "case r of None \<Rightarrow> True | Some n \<Rightarrow> \<exists>j. is_node n j f' \<and> known_at i name j f'"
    using r(3) by (auto simp: looked_up_def is_node_def known_at_def split: option.splits)
  ultimately show "\<exists>r f'. find_node f i (Some name) = Inr (r, f') \<and>
      busy hs f' \<and> clock k f' \<and> (case r of None \<Rightarrow> True | Some n \<Rightarrow> \<exists>j. is_node n j f' \<and> known_at i name j f') \<and> P f'"
    using r(1) by blast
qed

lemma ask_node_ok: "is_node n i f \<Longrightarrow> \<exists>d. node f n = Inr d \<and> nd_nodeid d = i"
  by (auto simp: is_node_def node_def)


section \<open>Operations of the file system\<close>

lemma quiet_fs:
  "quiet (on_fs (\<lambda>fs. fuse_fs_getattr fs p st))" "quiet (on_fs (\<lambda>fs. fuse_fs_fgetattr fs pn st fi))"
  "quiet (on_fs (\<lambda>fs. fuse_fs_chmod fs p mode))" "quiet (on_fs (\<lambda>fs. fuse_fs_chown fs p u g))"
  "quiet (on_fs (\<lambda>fs. fuse_fs_truncate fs p sz))" "quiet (on_fs (\<lambda>fs. fuse_fs_ftruncate fs pn sz fi))"
  "quiet (on_fs (\<lambda>fs. fuse_fs_utimens fs p tv))" "quiet (on_fs (\<lambda>fs. fuse_fs_access fs p k))"
  "quiet (on_fs (\<lambda>fs. fuse_fs_mknod fs p mode rdev))" "quiet (on_fs (\<lambda>fs. fuse_fs_mkdir fs p mode))"
  "quiet (on_fs (\<lambda>fs. fuse_fs_symlink fs l p))" "quiet (on_fs (\<lambda>fs. fuse_fs_unlink fs p))"
  "quiet (on_fs (\<lambda>fs. fuse_fs_rmdir fs p))" "quiet (on_fs (\<lambda>fs. fuse_fs_rename fs p q))"
  "quiet (on_fs (\<lambda>fs. fuse_fs_link fs p q))" "quiet (on_fs (\<lambda>fs. fuse_fs_create fs p mode fi))"
  "quiet (on_fs (\<lambda>fs. fuse_fs_open fs p fi))" "quiet (on_fs (\<lambda>fs. fuse_fs_release fs pn fi))"
  "quiet (on_fs (\<lambda>fs. fuse_fs_flush fs pn fi))" "quiet (on_fs (\<lambda>fs. fuse_fs_fsync fs pn k fi))"
  "quiet (on_fs (\<lambda>fs. fuse_fs_statfs fs p sv))"
  by (rule quiet_on_fs, erule fs_totalD)+

lemma quiet_getattr: "path \<noteq> None \<or> fi \<noteq> None \<Longrightarrow> quiet (any_getattr path st fi)"
  unfolding any_getattr_def by (cases fi; cases path) (auto intro!: quiet_rules quiet_fs split: prod.splits)

lemma quiet_path_op: "(\<And>p. quiet (on_fs (\<lambda>fs. f fs p))) \<Longrightarrow> quiet (path_op f (Some path, w))"
  by (auto simp: path_op_def need_path_def intro!: quiet_rules)

lemma quiet_file_op: "(\<And>p. quiet (on_fs (\<lambda>fs. f fs p))) \<Longrightarrow> quiet (file_op f (path, w))"
  by (auto simp: file_op_def intro!: quiet_rules split: prod.splits)

text \<open>Rules for what the requests are put together of.\<close>

lemma bind_lift: "bind_lib (lift_lib (Inr x)) k = k x"
  by (simp add: bind_lib_def lift_lib_def)

lemma bind_ret: "bind_lib (ret_lib x) k = k x"
  by (simp add: bind_lib_def ret_lib_def)

lemma serves_split: "(\<And>a b. x = (a, b) \<Longrightarrow> serves R (k a b) Q) \<Longrightarrow> serves R (case x of (a, b) \<Rightarrow> k a b) Q"
  by (cases x) simp

lemma serves_need: "serves R (k path) Q \<Longrightarrow> serves R (need_path k (Some path, w)) Q"
  by (simp add: serves_def need_path_def bind_lib_def lift_lib_def)

section \<open>The entry of a name\<close>

definition entry_at :: "64 word \<Rightarrow> string \<Rightarrow> int \<Rightarrow> entry_param \<Rightarrow> fuse_nodes \<Rightarrow> bool" where
  "entry_at i nm err e f \<longleftrightarrow> (err = 0 \<longrightarrow> known_at i nm (en_ino e) f)"

text \<open>Looking up a path; nothing has happened yet when the file system cannot tell its attributes.\<close>

definition entry_ok :: "int \<Rightarrow> entry_param \<Rightarrow> fuse_nodes \<Rightarrow> bool" where
  "entry_ok err e f \<longleftrightarrow> (err = 0 \<and> en_ino e \<noteq> 0 \<longrightarrow> knows (en_ino e) f)"

lemma lasting_entry [intro, simp]: "lasting (entry_ok err e)"
  unfolding entry_ok_def [abs_def] by (intro lasting_imp lasting_rules)

lemma entry_at_ok: "entry_at i nm err e f \<Longrightarrow> entry_ok err e f"
  using known_at_knows by (auto simp: entry_at_def entry_ok_def)

lemma entry_ok_err: "err \<noteq> 0 \<Longrightarrow> entry_ok err e f"
  by (simp add: entry_ok_def)

lemma serves_lookup_path:
  assumes P: "persists P"
  shows "serves (\<lambda>f. busy hs f \<and> clock (Suc k) f \<and> may_make f \<and> (\<exists>q. is_node q i f) \<and> P f) (lookup_path i (Some name) path fi)
    (\<lambda>(err, e, fi) f. (err = - ENOSYS \<longrightarrow> clock (Suc k) f \<and> may_make f) \<and> busy hs f \<and> clock k f \<and> entry_at i name err e f \<and> P f)"
  unfolding lookup_path_def
proof (rule serves_after [OF quiet_getattr], simp, intro serves_split, goal_cases)
  case (1 _ res _ st fi1)
  show ?case
  proof (cases "res = 0")
    case False
    then show ?thesis by (auto intro!: serves_ret intro: clock_le simp: entry_at_def)
  next
    case True
    then have e: "(res \<noteq> 0) = False" by simp
    show ?thesis
      unfolding e if_False
    proof (rule serves_bind [OF serves_find_node [OF P]], goal_cases)
      case (1 r)
      show ?case
      proof (cases r)
        case None
        then show ?thesis by (auto intro!: serves_ret intro: clock_le simp: entry_at_def errno_defs)
      next
        case (Some n)
        let ?K = "\<lambda>d f. (is_node n (nd_nodeid d) f \<and> known_at i name (nd_nodeid d) f) \<and> P f"
        have L: "persists (\<lambda>f. known_at i name j f \<and> P f)" for j using P by auto
        show ?thesis
          unfolding Some option.case
        proof (rule serves_bind [where P = "\<lambda>d f. busy hs f \<and> clock (Suc k) f \<and> is_node n (nd_nodeid d) f \<and> known_at i name (nd_nodeid d) f \<and> P f"], goal_cases)
          case 1
          show ?case by (rule serves_ask_nodes) (auto dest: ask_node_ok)
        next
          case (2 d)
          show ?case
            by (rule serves_after [OF quiet_ask], rule serves_bind [OF serves_cache_stat [OF L]], rule serves_after [OF quiet_debug])
              (auto intro!: serves_ret simp: entry_at_def entry_of_def errno_defs)
        qed
      qed
    qed
  qed
qed

text \<open>Sending it; when the kernel does not take it, it is forgotten.\<close>

lemma forget_idle:
  assumes b: "busy [] f" and c: "clock (Suc 0) f" and k: "fn_heap f n = Some d" "c \<le> nd_nlookup d" "c \<noteq> 0"
  shows "\<exists>f'. forget_node f (nd_nodeid d) c = Inr f' \<and> busy [] f'"
proof -
  have l: "nd_treelock e = 0" if "fn_heap f m = Some e" for m e
    using b that by (auto simp: busy_idle lock_of_def split: option.splits)
  have "\<exists>f'. forget_node f (nd_nodeid d) c = Inr f' \<and> nodes_ok f' \<and> lock_inv f' []"
    using b c k l by (intro forget_hold [where n = n]) (auto simp: busy_def lock_free_def clock_def)
  then show ?thesis by (auto simp: busy_def)
qed

lemma serves_reply_entry:
  "serves (\<lambda>f. busy [] f \<and> clock (Suc 0) f \<and> entry_ok err e f) (reply_entry e err) (\<lambda>_. busy [])"
proof (cases "err = 0")
  case False
  then show ?thesis unfolding reply_entry_def by (auto intro!: serves_quiet quiet_reply_err)
next
  case True
  have q: "quiet (fuse_reply_entry e)"
    unfolding fuse_reply_entry_def fuse_reply_err_def by (auto intro!: quiet_rules)
  have "serves (\<lambda>f. busy [] f \<and> clock (Suc 0) f \<and> entry_ok err e f) (do_nodes (\<lambda>f. forget_node f (en_ino e) 1)) (\<lambda>_. busy [])" if nz: "en_ino e \<noteq> 0"
  proof (rule serves_do_nodes)
    fix f
    assume f: "busy [] f \<and> clock (Suc 0) f \<and> entry_ok err e f"
    then obtain n d where n: "fn_heap f n = Some d" "nd_nodeid d = en_ino e" "nd_nlookup d \<noteq> 0"
      using nz True unfolding entry_ok_def knows_def by blast
    then have "1 \<le> nd_nlookup d" by (simp add: word_le_nat_alt unat_gt_0 Suc_leI)
    then show "\<exists>f'. forget_node f (en_ino e) 1 = Inr f' \<and> busy [] f'" using forget_idle [of f n d 1] f n by simp
  qed
  then show ?thesis using True unfolding reply_entry_def by (auto intro!: serves_after [OF q] serves_ret)
qed

end
