(* ===== verification/Lib_Requests.thy ===== *)
theory Lib_Requests
  imports Lib_Names
begin

text \<open>
  The requests about names and attributes that make or change no name of a known node.
\<close>

section \<open>Requests with a path\<close>

lemma serves_one_path:
  assumes R: "tree_pred R" "\<And>f. R f \<Longrightarrow> request_ok f i name False"
    and body: "\<And>path. serves (\<lambda>f. busy [(i, None)] f \<and> R f) (body (Some path, None)) (\<lambda>r f. busy [(i, None)] f \<and> Q r f)"
    and Q: "\<And>r. tree_pred (Q r)" "\<And>err f. err \<noteq> 0 \<Longrightarrow> R f \<Longrightarrow> Q (err, none) f"
  shows "serves (\<lambda>f. busy [] f \<and> R f) (with_path (path_call (\<lambda>f q. get_path_common f q i name False)) (free_one i) none body)
    (\<lambda>r f. busy [] f \<and> Q r f)"
  unfolding with_path_def
proof (rule serves_bind, rule serves_get_path [OF R(1)], erule R(2), goal_cases)
  case (1 x)
  obtain err path w where x: "x = (err, path, w)" by (cases x) auto
  show ?case
  proof (cases "err = 0 \<and> path \<noteq> None \<and> w = None")
    case True
    then obtain p where p: "x = (0, Some p, None)" using x by auto
    have fr: "serves (\<lambda>f. busy ((i, None) # []) f \<and> Q r f) (free_one i (Some p, None)) (\<lambda>_ f. busy [] f \<and> Q r f)" for r
      using serves_unlock [OF Q(1), of "[]" i None r] by (simp add: free_one_eq)
    have "serves (\<lambda>f. busy [(i, None)] f \<and> R f)
      (bind_lib (body (Some p, None)) (\<lambda>r. bind_lib (free_one i (Some p, None)) (\<lambda>_. ret_lib r))) (\<lambda>r f. busy [] f \<and> Q r f)"
      by (rule serves_bind [OF body]) (rule serves_bind [OF fr], rule serves_ret)
    then show ?thesis using p by (auto elim!: serves_conseq)
  next
    case False
    show ?thesis
    proof (cases "err = 0")
      case True
      then show ?thesis using x False by (auto simp: serves_def)
    next
      case err: False
      then show ?thesis using x Q(2) by (auto intro!: serves_ret)
    qed
  qed
qed

lemma lib_path_common: "lib_path i = path_call (\<lambda>f q. get_path_common f q i None False)"
  by (simp add: lib_path_def get_path_def)

lemma serves_quiet_path:
  assumes "tree_pred R" "\<And>f. R f \<Longrightarrow> request_ok f i None False" "\<And>p. quiet (body (Some p, None))"
  shows "serves (\<lambda>f. busy [] f \<and> R f) (with_path (lib_path i) (free_one i) none body) (\<lambda>_ f. busy [] f \<and> R f)"
  unfolding lib_path_common by (rule serves_one_path [OF assms(1,2)]) (auto intro: serves_quiet [OF assms(3)] assms(1))

lemma serves_quiet_nullok:
  assumes "tree_pred R" "\<And>f. R f \<Longrightarrow> request_ok f i None False" "\<And>p. quiet (body (p, None))"
  shows "serves (\<lambda>f. busy [] f \<and> R f) (with_path (lib_nullok_path i) (free_one i) none body) (\<lambda>_ f. busy [] f \<and> R f)"
  by (rule serves_with_nullok [OF assms(1,2)]) (auto intro: serves_quiet [OF assms(3)] assms(1))

lemma serves_err_only:
  "serves R m (\<lambda>_ f. busy [] f \<and> S f) \<Longrightarrow> serves R (err_only m) (\<lambda>_. busy [])"
  unfolding err_only_def by (rule serves_bind, assumption, intro serves_split serves_quiet quiet_reply_err) simp

section \<open>Attributes\<close>

lemma quiet_send_attr: "quiet (send_attr ino st)"
  unfolding send_attr_def fuse_reply_attr_def by (intro quiet_rules)

lemma serves_get_nd:
  assumes "\<And>f. R f \<Longrightarrow> busy hs f \<and> (\<exists>n. is_node n i f)"
  shows "serves R (ask_nodes (find_nd i)) (\<lambda>(n, d) f. R f \<and> is_node n i f \<and> fn_heap f n = Some d)"
proof (rule serves_ask_nodes)
  fix f
  assume r: "R f"
  obtain n d where n: "fn_heap f n = Some d" "nd_nodeid d = i" using assms [OF r] by (auto simp: is_node_def)
  then have "get_node f i = Inr n" using get_node_ok(2) [of f "{}" n d] assms [OF r] by (auto simp: busy_def nodes_ok_def)
  then have "find_nd i f = Inr (n, d)" using n by (simp add: find_nd_def node_def)
  then show "\<exists>x. find_nd i f = Inr x \<and> (case x of (n, d) \<Rightarrow> \<lambda>f. R f \<and> is_node n i f \<and> fn_heap f n = Some d) f"
    using r n by (auto simp: is_node_def)
qed

abbreviation attr_pre :: "64 word \<Rightarrow> fuse_nodes \<Rightarrow> bool" where
  "attr_pre i f \<equiv> request_ok f i None False \<and> clock (Suc 0) f"

lemma attr_pre_rules: "tree_pred (attr_pre i)"
  by (intro tree_pred_conj) simp_all

lemma serves_ask: "(\<And>s. serves R (k (g s)) Q) \<Longrightarrow> serves R (bind_lib (ask_lib g) k) Q"
  by (simp add: serves_def bind_lib_def ask_lib_def)

text \<open>What follows the attributes: the error, or the attributes are remembered and sent.\<close>

lemma serves_remember_stat:
  assumes "\<And>f. R f \<Longrightarrow> busy [] f \<and> clock (Suc 0) f \<and> is_node n i f"
  shows "serves R (bind_lib (if c then do_nodes (\<lambda>f. update_stat f n st) else ret_lib ()) (\<lambda>_. send_attr i st)) (\<lambda>_. busy [])"
proof (rule serves_bind [where P = "\<lambda>_. busy []"])
  show "serves R (if c then do_nodes (\<lambda>f. update_stat f n st) else ret_lib ()) (\<lambda>_. busy [])"
    using assms by (intro serves_conseq [OF serves_cache_stat [of "\<lambda>_. True" "[]" 0 n i c st]]) auto
qed (intro serves_quiet [OF quiet_send_attr])

lemma serves_getattr: "serves (\<lambda>f. busy [] f \<and> attr_pre i f) (fuse_lib_getattr i fi) (\<lambda>_. busy [])"
  unfolding fuse_lib_getattr_def
proof (rule serves_after [OF quiet_prepare], rule serves_ask, rule serves_bind [where P = "\<lambda>_ f. busy [] f \<and> attr_pre i f"], goal_cases)
  case (1 _ s)
  show ?case
    using attr_pre_rules
    by (cases fi) (auto intro!: serves_quiet_path [where R = "attr_pre i"] serves_quiet_nullok [where R = "attr_pre i"] quiet_rules quiet_getattr split: prod.splits)
next
  case (2 _ s x)
  show ?case
  proof (rule serves_split)
    fix err st
    show "serves (\<lambda>f. busy [] f \<and> attr_pre i f)
      (if err \<noteq> 0 then reply_err err
       else bind_lib (ask_nodes (find_nd i)) (\<lambda>(n, d).
            bind_lib (ask_lib fz_conf) (\<lambda>conf.
              let st1 = (if nd_is_hidden d \<and> st_nlink st > 0 then st\<lparr>st_nlink := st_nlink st - 1\<rparr> else st) in
              bind_lib (if cf_auto_cache conf then do_nodes (\<lambda>f. update_stat f n st1) else ret_lib ()) (\<lambda>_.
                send_attr i st1))))
      (\<lambda>_. busy [])"
    proof (cases "err = 0")
      case True
      then have e: "(err \<noteq> 0) = False" by simp
      show ?thesis
        unfolding e if_False Let_def
      proof (rule serves_bind [OF serves_get_nd [where hs = "[]"]], goal_cases)
        case (1 f)
        then show ?case using request_is_node by blast
      next
        case (2 x)
        show ?case
          by (rule serves_split, rule serves_after [OF quiet_ask], rule serves_remember_stat) auto
      qed
    qed (auto intro: serves_quiet [OF quiet_reply_err])
  qed
qed

text \<open>Setting attributes.\<close>

lemma quiet_attr_step: "(\<And>p. quiet (on_fs (\<lambda>fs. f fs p))) \<Longrightarrow> asked \<longrightarrow> path \<noteq> None \<Longrightarrow> quiet (attr_step err asked path f)"
  unfolding attr_step_def by (cases path) (auto intro!: quiet_rules)

text \<open>A step whose result has a property, whatever the nodes are.\<close>

lemma quiet_bind_result:
  assumes "\<And>R. serves R m (\<lambda>x f. P x \<and> R f)" "\<And>x. P x \<Longrightarrow> quiet (k x)"
  shows "quiet (bind_lib m k)"
  unfolding quiet_iff
proof (intro allI, rule serves_bind [OF assms(1)])
  fix R x
  show "serves (\<lambda>f. P x \<and> R f) (k x) (\<lambda>_. R)"
    by (rule serves_pre [where A = "P x"]) (auto intro: serves_quiet [OF assms(2)])
qed

lemma serves_set_size:
  assumes "path \<noteq> None \<or> fi \<noteq> None"
  shows "serves R (set_size err valid path attr fi) (\<lambda>x f. (fi \<noteq> None \<longrightarrow> snd x \<noteq> None) \<and> R f)"
proof (cases fi)
  case None
  then have "quiet (set_size err valid path attr fi)"
    using assms unfolding set_size_def by (auto intro!: quiet_rules quiet_attr_step quiet_fs)
  then show ?thesis using None by (intro serves_quiet) auto
next
  case (Some i)
  have "serves R (bind_lib (on_fs (\<lambda>fs. fuse_fs_ftruncate fs path (sa_size attr) i)) (\<lambda>(err1, i1). ret_lib (err1, Some i1)))
    (\<lambda>x f. (fi \<noteq> None \<longrightarrow> snd x \<noteq> None) \<and> R f)"
    by (rule serves_after [OF quiet_fs(6)], rule serves_split, rule serves_ret) simp
  then show ?thesis using Some by (auto simp: set_size_def intro!: serves_ret)
qed

lemma quiet_set_times: "path \<noteq> None \<or> valid AND (FUSE_SET_ATTR_ATIME OR FUSE_SET_ATTR_MTIME) = 0 \<Longrightarrow> quiet (set_times err valid path attr)"
  unfolding set_times_def Let_def
  by (intro quiet_bind quiet_ask) (auto intro!: quiet_attr_step quiet_fs simp: FUSE_SET_ATTR_ATIME_def FUSE_SET_ATTR_MTIME_def)

lemma quiet_setattr:
  assumes "path \<noteq> None \<or> valid = FUSE_SET_ATTR_SIZE \<and> fi \<noteq> None"
  shows "quiet (setattr_body valid attr fi (path, None))"
proof -
  have bits: "FUSE_SET_ATTR_SIZE AND FUSE_SET_ATTR_MODE = 0" "FUSE_SET_ATTR_SIZE AND (FUSE_SET_ATTR_UID OR FUSE_SET_ATTR_GID) = 0"
    "FUSE_SET_ATTR_SIZE AND (FUSE_SET_ATTR_ATIME OR FUSE_SET_ATTR_MTIME) = 0"
    by (simp_all add: FUSE_SET_ATTR_SIZE_def FUSE_SET_ATTR_MODE_def FUSE_SET_ATTR_UID_def FUSE_SET_ATTR_GID_def
        FUSE_SET_ATTR_ATIME_def FUSE_SET_ATTR_MTIME_def)
  have p: "path \<noteq> None \<or> fi \<noteq> None" using assms by blast
  have last: "quiet (if e \<noteq> 0 then ret_lib (e, zero_stat)
      else bind_lib (any_getattr path zero_stat fi1) (\<lambda>(err5, st, _). ret_lib (err5, st)))"
    if "fi \<noteq> None \<longrightarrow> fi1 \<noteq> None" for e fi1
    using p that by (auto intro!: quiet_rules quiet_getattr split: prod.splits)
  show ?thesis
    unfolding setattr_body_def prod.case
    using assms bits last
    by (intro quiet_bind [OF quiet_attr_step] quiet_bind_result [OF serves_set_size [OF p]]) (auto intro!: quiet_fs quiet_bind [OF quiet_set_times])
qed

lemma serves_setattr: "serves (\<lambda>f. busy [] f \<and> attr_pre i f) (fuse_lib_setattr i attr valid fi) (\<lambda>_. busy [])"
  unfolding fuse_lib_setattr_def
proof (rule serves_after [OF quiet_prepare], rule serves_ask, rule serves_bind [where P = "\<lambda>_ f. busy [] f \<and> attr_pre i f"], goal_cases)
  case (1 _ s)
  have b: "quiet (setattr_body valid attr fi (path, None))" if "path \<noteq> None \<or> valid = FUSE_SET_ATTR_SIZE \<and> fi \<noteq> None" for path
    using that by (rule quiet_setattr)
  show ?case
    using attr_pre_rules b
    by (auto intro!: serves_quiet_path [where R = "attr_pre i"] serves_quiet_nullok [where R = "attr_pre i"])
next
  case (2 _ s x)
  show ?case
  proof (rule serves_split)
    fix err st
    show "serves (\<lambda>f. busy [] f \<and> attr_pre i f)
      (if err \<noteq> 0 then reply_err err
       else bind_lib (ask_lib fz_conf) (\<lambda>conf. bind_lib
            (if cf_auto_cache conf then do_nodes (\<lambda>f. bind_res (get_node f i) (\<lambda>n. update_stat f n st)) else ret_lib ())
            (\<lambda>_. send_attr i st)))
      (\<lambda>_. busy [])"
    proof (cases "err = 0")
      case True
      then have e: "(err \<noteq> 0) = False" by simp
      show ?thesis
        unfolding e if_False
      proof (rule serves_after [OF quiet_ask], goal_cases)
        case (1 conf)
        have "serves (\<lambda>f. busy [] f \<and> attr_pre i f) (do_nodes (\<lambda>f. bind_res (get_node f i) (\<lambda>n. update_stat f n st))) (\<lambda>_. busy [])"
        proof (rule serves_do_nodes)
          fix f
          assume f: "busy [] f \<and> attr_pre i f"
          then obtain n d where n: "fn_heap f n = Some d" "nd_nodeid d = i" by (auto simp: request_ok_def)
          then have "get_node f i = Inr n" using get_node_ok(2) [of f "{}" n d] f by (auto simp: busy_def nodes_ok_def)
          moreover obtain f' where "update_stat f n st = Inr f'" "nodes_ok f'" "moves {} f f'"
            using update_stat_ok [of f n i 0 st] f n by (auto simp: busy_def is_node_def)
          ultimately show "\<exists>f'. bind_res (get_node f i) (\<lambda>n. update_stat f n st) = Inr f' \<and> busy [] f'"
            using f busy_moves [of "[]" f f' "{}"] by simp
        qed
        then show ?case
          by (cases "cf_auto_cache conf") (auto intro!: serves_bind [where P = "\<lambda>_. busy []"] serves_quiet [OF quiet_send_attr] serves_ret)
      qed
    qed (auto intro: serves_quiet [OF quiet_reply_err])
  qed
qed

lemma serves_access: "serves (\<lambda>f. busy [] f \<and> attr_pre i f) (fuse_lib_access i amask) (\<lambda>_. busy [])"
  unfolding fuse_lib_access_def
  by (rule serves_after [OF quiet_prepare], rule serves_err_only, rule serves_quiet_path [OF attr_pre_rules])
    (auto intro: quiet_path_op quiet_fs)

section \<open>Requests that send an entry\<close>

abbreviation entry_pre :: "64 word \<Rightarrow> string \<Rightarrow> fuse_nodes \<Rightarrow> bool" where
  "entry_pre i name f \<equiv> request_ok f i (Some name) False \<and> clock (Suc (Suc 0)) f \<and> may_make f"

lemma entry_pre_rules: "tree_pred (entry_pre i name)"
  by (intro tree_pred_conj) simp_all

abbreviation entry_post :: "path_hold list \<Rightarrow> int \<times> entry_param \<Rightarrow> fuse_nodes \<Rightarrow> bool" where
  "entry_post hs r f \<equiv> busy hs f \<and> clock (Suc 0) f \<and> entry_ok (fst r) (snd r) f"

lemma entry_post_rules: "tree_pred (\<lambda>f. clock (Suc 0) f \<and> entry_ok err e f)"
  by (intro tree_pred_conj tree_pred_clock lasting_tree lasting_entry)

text \<open>While the path is held; when the file system cannot tell the attributes, all is as before.\<close>

abbreviation entry_mid :: "path_hold list \<Rightarrow> 64 word \<Rightarrow> fuse_nodes \<Rightarrow> bool" where
  "entry_mid hs i f \<equiv> busy hs f \<and> clock (Suc (Suc 0)) f \<and> may_make f \<and> (\<exists>q. is_node q i f)"

lemma serves_entry:
  "serves (entry_mid hs i) (lookup_path i (Some name) path fi)
    (\<lambda>(err, e, fi) f. (err = - ENOSYS \<longrightarrow> entry_mid hs i f) \<and> entry_post hs (err, e) f)"
  by (rule serves_conseq [OF serves_lookup_path [OF lasting_persists, of "\<lambda>f. \<exists>q. is_node q i f" hs "Suc 0" i name path fi]])
    (auto intro: entry_at_ok)

lemma serves_no_entry: "err \<noteq> 0 \<Longrightarrow> serves (entry_mid hs i) (ret_lib (err, e)) (entry_post hs)"
  by (auto intro!: serves_ret intro: clock_le entry_ok_err)

lemma serves_reply:
  "serves R m (entry_post []) \<Longrightarrow> serves R (bind_lib m (\<lambda>(err, e). reply_entry e err)) (\<lambda>_. busy [])"
  by (erule serves_bind, rule serves_split, simp add: serves_reply_entry)

lemma serves_entry_path:
  assumes "\<And>path. serves (entry_mid [(i, None)] i) (body path) (entry_post [(i, None)])"
  shows "serves (\<lambda>f. busy [] f \<and> entry_pre i name f)
    (with_path (path_call (\<lambda>f q. get_path_common f q i (Some name) False)) (free_one i) zero_entry (need_path body)) (entry_post [])"
proof (rule serves_one_path [OF entry_pre_rules], goal_cases)
  case (2 path)
  show ?case by (rule serves_need, rule serves_conseq [OF assms]) (auto dest: request_is_node)
qed (auto intro: entry_post_rules clock_le entry_ok_err)

lemma serves_send_entry:
  assumes "\<And>path. serves (entry_mid [(i, None)] i) (body path) (entry_post [(i, None)])"
  shows "serves (\<lambda>f. busy [] f \<and> entry_pre i name f) (send_entry i name body) (\<lambda>_. busy [])"
  unfolding send_entry_def get_path_name_def
  by (rule serves_after [OF quiet_prepare], rule serves_reply, rule serves_entry_path [OF assms])

lemma serves_entry_after:
  assumes "\<And>p. quiet (on_fs (\<lambda>fs. g fs p))"
  shows "serves (entry_mid hs i) (entry_after g i name path) (entry_post hs)"
  unfolding entry_after_def
proof (rule serves_after [OF assms], goal_cases)
  case (1 err)
  have "serves (entry_mid hs i) (bind_lib (lookup_path i (Some name) path None) (\<lambda>(err1, e, _). ret_lib (err1, e))) (entry_post hs)"
    by (rule serves_bind [OF serves_entry]) (auto intro!: serves_ret)
  then show ?case by (auto intro: serves_no_entry)
qed

lemma serves_mkdir: "serves (\<lambda>f. busy [] f \<and> entry_pre i name f) (fuse_lib_mkdir i name mode) (\<lambda>_. busy [])"
  unfolding fuse_lib_mkdir_def by (intro serves_send_entry serves_entry_after quiet_fs)

lemma serves_symlink: "serves (\<lambda>f. busy [] f \<and> entry_pre i name f) (fuse_lib_symlink l i name) (\<lambda>_. busy [])"
  unfolding fuse_lib_symlink_def by (intro serves_send_entry serves_entry_after quiet_fs)

text \<open>Creating the file and closing it again; \<^verbatim>\<open>mknod\<close> follows when that is not implemented.\<close>

lemma serves_mknod_create:
  "serves (entry_mid hs i) (mknod_create i name mode path)
    (\<lambda>(err, e) f. (err = - ENOSYS \<longrightarrow> entry_mid hs i f) \<and> entry_post hs (err, e) f)"
  unfolding mknod_create_def
proof (rule serves_after [OF quiet_fs(16)], rule serves_split)
  fix err fi
  have "serves (entry_mid hs i)
    (bind_lib (lookup_path i (Some name) path (Some fi)) (\<lambda>(err1, e, fi1).
        bind_lib (on_fs (\<lambda>fs. fuse_fs_release fs (Some path) (case fi1 of None \<Rightarrow> fi | Some i \<Rightarrow> i))) (\<lambda>_. ret_lib (err1, e))))
    (\<lambda>(err, e) f. (err = - ENOSYS \<longrightarrow> entry_mid hs i f) \<and> entry_post hs (err, e) f)"
    by (rule serves_bind [OF serves_entry]) (auto intro!: serves_after [OF quiet_fs(18)] serves_ret)
  then show "serves (entry_mid hs i)
    (if err \<noteq> 0 then ret_lib (err, zero_entry)
     else bind_lib (lookup_path i (Some name) path (Some fi)) (\<lambda>(err1, e, fi1).
          bind_lib (on_fs (\<lambda>fs. fuse_fs_release fs (Some path) (case fi1 of None \<Rightarrow> fi | Some i \<Rightarrow> i))) (\<lambda>_. ret_lib (err1, e))))
    (\<lambda>(err, e) f. (err = - ENOSYS \<longrightarrow> entry_mid hs i f) \<and> entry_post hs (err, e) f)"
    by (auto intro!: serves_ret intro: clock_le entry_ok_err)
qed

lemma serves_mknod: "serves (\<lambda>f. busy [] f \<and> entry_pre i name f) (fuse_lib_mknod i name mode rdev) (\<lambda>_. busy [])"
  unfolding fuse_lib_mknod_def
proof (rule serves_send_entry, rule serves_bind [where P = "\<lambda>(err, e) f. (err = - ENOSYS \<longrightarrow> entry_mid [(i, None)] i f) \<and> entry_post [(i, None)] (err, e) f"], goal_cases)
  case (1 path)
  show "serves (entry_mid [(i, None)] i)
    (if mode AND S_IFMT = S_IFREG then mknod_create i name mode path else ret_lib (- ENOSYS, zero_entry))
    (\<lambda>(err, e) f. (err = - ENOSYS \<longrightarrow> entry_mid [(i, None)] i f) \<and> entry_post [(i, None)] (err, e) f)"
    using serves_mknod_create by (auto intro!: serves_ret intro: clock_le entry_ok_err simp: errno_defs)
next
  case (2 path x)
  show ?case
  proof (rule serves_split, goal_cases)
    case (1 err e)
    then show ?case
      by (cases "err = - ENOSYS") (auto intro!: serves_ret intro: serves_conseq [OF serves_entry_after [OF quiet_fs(9)]])
  qed
qed

text \<open>A lookup; a name that is not there may be remembered by the kernel.\<close>

lemma serves_lookup:
  assumes "name \<noteq> ''.''" "name \<noteq> ''..''"
  shows "serves (\<lambda>f. busy [] f \<and> entry_pre i name f) (fuse_lib_lookup i name) (\<lambda>_. busy [])"
proof -
  have b: "serves (entry_mid [(i, None)] i)
     (bind_lib (lib_debug (''LOOKUP '' @ path)) (\<lambda>_.
      bind_lib (lookup_path i (Some name) path None) (\<lambda>(err, e, _).
      bind_lib (ask_lib fz_conf) (\<lambda>conf.
        if err = - ENOENT \<and> cf_negative_timeout conf \<noteq> 0
        then ret_lib (0, e\<lparr>en_ino := 0, en_entry_timeout := cf_negative_timeout conf\<rparr>)
        else ret_lib (err, e))))) (entry_post [(i, None)])" for path
    by (rule serves_after [OF quiet_debug], rule serves_bind [OF serves_entry], intro serves_split serves_after [OF quiet_ask])
      (auto intro!: serves_ret simp: entry_ok_def)
  have "serves (\<lambda>f. busy [] f \<and> entry_pre i name f) (lookup_in i (Some name) None) (\<lambda>_. busy [])"
    unfolding lookup_in_def option.case
    by (rule serves_bind [OF serves_entry_path [OF b]], rule serves_split, rule serves_after [OF quiet_ret])
      (simp add: serves_reply_entry)
  then show ?thesis using assms unfolding fuse_lib_lookup_def by (auto intro!: serves_after [OF quiet_prepare])
qed

section \<open>Forgetting and the whole file system\<close>

definition can_forget :: "64 word \<Rightarrow> 64 word \<Rightarrow> fuse_nodes \<Rightarrow> bool" where
  "can_forget i k f \<longleftrightarrow> (\<exists>n d. fn_heap f n = Some d \<and> nd_nodeid d = i \<and> k \<le> nd_nlookup d) \<and> k \<noteq> 0"

lemma serves_forget:
  "serves (\<lambda>f. busy [] f \<and> clock (Suc 0) f \<and> can_forget i k f) (fuse_lib_forget i k) (\<lambda>_. busy [])"
proof -
  have "serves (\<lambda>f. busy [] f \<and> clock (Suc 0) f \<and> can_forget i k f) (do_nodes (\<lambda>f. forget_node f i k)) (\<lambda>_. busy [])"
    by (rule serves_do_nodes) (auto simp: can_forget_def dest: forget_idle)
  then show ?thesis
    unfolding fuse_lib_forget_def do_forget_def
    by (intro serves_bind [where P = "\<lambda>_. busy []"] serves_after [OF quiet_debug] serves_quiet [OF quiet_reply_none] serves_ret)
qed

lemma serves_statfs: "serves (\<lambda>f. busy [] f \<and> (i \<noteq> 0 \<longrightarrow> attr_pre i f)) (fuse_lib_statfs i) (\<lambda>_. busy [])"
proof (cases "i = 0")
  case False
  have "serves (\<lambda>f. busy [] f \<and> attr_pre i f)
    (with_path (lib_path i) (free_one i) zero_statvfs (\<lambda>(path, _).
       on_fs (\<lambda>fs. fuse_fs_statfs fs (case path of None \<Rightarrow> ''/'' | Some p \<Rightarrow> p) zero_statvfs))) (\<lambda>_ f. busy [] f \<and> attr_pre i f)"
    by (rule serves_quiet_path [OF attr_pre_rules]) (auto intro: quiet_fs)
  then show ?thesis
    using False unfolding fuse_lib_statfs_def
    by (simp, intro serves_after [OF quiet_prepare] serves_bind [where P = "\<lambda>_ f. busy [] f \<and> attr_pre i f"])
      (auto intro!: serves_quiet quiet_rules)
next
  case True
  have "quiet (with_path (ret_lib (0, None, None)) (free_one 0) zero_statvfs (\<lambda>(path, _).
       on_fs (\<lambda>fs. fuse_fs_statfs fs (case path of None \<Rightarrow> ''/'' | Some p \<Rightarrow> p) zero_statvfs)))"
    unfolding with_path_def by (auto simp: bind_ret intro!: quiet_rules quiet_fs quiet_free_none)
  then show ?thesis using True unfolding fuse_lib_statfs_def by (auto intro!: serves_quiet quiet_rules)
qed

end
