(* ===== verification/Lib_Removal.thy ===== *)
theory Lib_Removal
  imports Lib_Requests
begin

text \<open>
  Removing, renaming and linking. The node at a place is locked for writing, so it is on no path that is
  held, and the nodes can be changed without touching those paths.
\<close>

section \<open>Two paths\<close>

lemma serves_free_two:
  assumes "tree_pred R"
  shows "serves (\<lambda>f. busy [(i2, w2), (i1, w1)] f \<and> R f) (free_two i1 i2 ((p1, w1), (p2, w2))) (\<lambda>_ f. busy [] f \<and> R f)"
  unfolding serves_def
proof (intro allI impI, elim conjE)
  fix s :: "'w fuse"
  let ?f = "fz_nodes s"
  assume s: "fz_lockq s = []" "fs_total (fz_fs s)" and b: "busy [(i2, w2), (i1, w1)] ?f" "R ?f"
  have "lock_inv ?f [(i1, w1), (i2, w2)]" using b(1) lock_inv_perm [of "[(i1, w1), (i2, w2)]" "[(i2, w2), (i1, w1)]" ?f]
    by (simp add: busy_def add_mset_commute)
  then obtain f1 where f1: "unlock_path ?f i1 w1 None = Inr f1" "same_tree ?f f1" "lock_inv f1 [(i2, w2)]"
    using unlock_law [of ?f "[(i1, w1), (i2, w2)]" "(i1, w1)"] by (auto simp: room_def int_defs)
  obtain f2 where f2: "unlock_path f1 i2 w2 None = Inr f2" "same_tree f1 f2" "lock_inv f2 []"
    using unlock_law [OF f1(3), of "(i2, w2)"] by (auto simp: room_def int_defs)
  have st: "same_tree ?f f2" using f1(2) f2(2) by (rule same_tree_trans)
  show "\<exists>x s'. free_two i1 i2 ((p1, w1), (p2, w2)) s = Inr (x, s') \<and> fz_lockq s' = [] \<and> fz_fs s' = fz_fs s \<and>
    busy [] (fz_nodes s') \<and> R (fz_nodes s')"
    using s b(1) f1(1) f2(1,3) same_tree_nodes_ok [OF st] tree_predD [OF assms st b(2)]
    by (auto simp: free_two_def unlock_call_def free_path2_def wake_up_queued_def busy_def)
qed

lemma serves_two_paths:
  assumes R: "tree_pred R" "\<And>f. R f \<Longrightarrow> request_ok f i1 name1 wr \<and> request_ok f i2 name2 wr"
    and body: "\<And>p1 p2 w1 w2. serves (\<lambda>f. busy [(i2, w2), (i1, w1)] f \<and> R f \<and>
        (\<forall>nm. wr \<longrightarrow> name1 = Some nm \<longrightarrow> lookup_node f i1 nm = Inr w1) \<and> (\<forall>nm. wr \<longrightarrow> name2 = Some nm \<longrightarrow> lookup_node f i2 nm = Inr w2))
        (body p1 p2) (\<lambda>r f. busy [(i2, w2), (i1, w1)] f \<and> Q r f)"
    and Q: "\<And>r. tree_pred (Q r)" "\<And>err f. err \<noteq> 0 \<Longrightarrow> R f \<Longrightarrow> Q (err, none) f"
  shows "serves (\<lambda>f. busy [] f \<and> R f \<and> paths_apart f i1 name1 i2 name2 wr)
    (with_path (path_call (\<lambda>f q. get_path2 f q i1 name1 i2 name2 wr wr)) (free_two i1 i2) none (need_paths body)) (\<lambda>r f. busy [] f \<and> Q r f)"
  unfolding with_path_def
proof (rule serves_bind, rule serves_get_path2 [OF R(1)], erule R(2), goal_cases)
  case (1 x)
  obtain err p1 w1 p2 w2 where x: "x = (err, (p1, w1), (p2, w2))" by (metis surj_pair)
  show ?case
  proof (cases "err = 0 \<and> p1 \<noteq> None \<and> p2 \<noteq> None")
    case True
    then obtain t1 t2 where p: "x = (0, (Some t1, w1), (Some t2, w2))" using x by auto
    have fr: "serves (\<lambda>f. busy [(i2, w2), (i1, w1)] f \<and> Q r f)
      (bind_lib (free_two i1 i2 ((Some t1, w1), (Some t2, w2))) (\<lambda>_. ret_lib r)) (\<lambda>r f. busy [] f \<and> Q r f)" for r
      by (rule serves_bind [OF serves_free_two [OF Q(1)]]) (rule serves_ret)
    have "serves (\<lambda>f. busy [(i2, w2), (i1, w1)] f \<and> R f \<and>
        (\<forall>nm. wr \<longrightarrow> name1 = Some nm \<longrightarrow> lookup_node f i1 nm = Inr w1) \<and> (\<forall>nm. wr \<longrightarrow> name2 = Some nm \<longrightarrow> lookup_node f i2 nm = Inr w2))
      (need_paths body ((Some t1, w1), (Some t2, w2))) (\<lambda>r f. busy [(i2, w2), (i1, w1)] f \<and> Q r f)"
      unfolding need_paths_def prod.case by (intro serves_need body)
    from serves_bind [OF this fr]
    show ?thesis using p by (auto elim!: serves_conseq)
  next
    case False
    show ?thesis
    proof (cases "err = 0")
      case True
      then show ?thesis using x False by (auto simp: serves_def)
    next
      case err: False
      then show ?thesis using x Q(2) by (auto intro!: serves_ret)
    qed
  qed
qed

abbreviation link_pre :: "64 word \<Rightarrow> 64 word \<Rightarrow> string \<Rightarrow> fuse_nodes \<Rightarrow> bool" where
  "link_pre i dir name f \<equiv> (request_ok f i None False \<and> request_ok f dir (Some name) False) \<and> clock (Suc (Suc 0)) f \<and> may_make f"

lemma serves_link:
  "serves (\<lambda>f. busy [] f \<and> link_pre i dir name f \<and> paths_apart f i None dir (Some name) False) (fuse_lib_link i dir name) (\<lambda>_. busy [])"
  unfolding fuse_lib_link_def
proof (rule serves_after [OF quiet_prepare], rule serves_reply, rule serves_two_paths [where R = "link_pre i dir name"], goal_cases)
  case 1
  show ?case by (intro tree_pred_conj) simp_all
next
  case (3 _ p1 p2 w1 w2)
  have "serves (entry_mid [(dir, w2), (i, w1)] dir) (entry_after (\<lambda>fs p. fuse_fs_link fs p1 p) dir name p2) (entry_post [(dir, w2), (i, w1)])"
    by (rule serves_entry_after) (rule quiet_fs)
  then show ?case by (rule serves_conseq) (auto dest: request_is_node)
qed (auto intro: entry_post_rules clock_le entry_ok_err)

section \<open>Changing the locked node\<close>

definition clear :: "path_hold list \<Rightarrow> 64 word \<Rightarrow> string \<Rightarrow> fuse_nodes \<Rightarrow> bool" where
  "clear hs i name f \<longleftrightarrow> (\<forall>h \<in> set hs. target f i name \<inter> set (way f (fst h)) = {})"

lemma locked_apart:
  assumes "busy hs f" "(j, Some x) \<in> set hs" "h \<in> set hs"
  shows "x \<notin> set (way f (fst h))"
proof
  assume x: "x \<in> set (way f (fst h))"
  let ?hs = "map (holder_of f) hs"
  have "lock_state (reads ?hs x) (writes ?hs x) (locks f x)" using assms(1) by (simp add: busy_def lock_inv_def counted_def)
  moreover have "0 < reads ?hs x" using assms(3) x by (auto simp: reads_def holder_of_def filter_empty_conv intro!: bexI [of _ h])
  moreover have "0 < writes ?hs x" using assms(2) by (auto simp: writes_def holder_of_def filter_empty_conv intro!: bexI [of _ "(j, Some x)"])
  ultimately show False by (simp add: lock_state_def)
qed

lemma locked_clear: "busy hs f \<Longrightarrow> (j, w) \<in> set hs \<Longrightarrow> lookup_node f i name = Inr w \<Longrightarrow> clear hs i name f"
  unfolding clear_def target_def using locked_apart by fastforce

lemma busy_target:
  "busy hs f \<Longrightarrow> nodes_ok f' \<Longrightarrow> moves (target f i name) f f' \<Longrightarrow> clear hs i name f \<Longrightarrow> busy hs f'"
  by (rule busy_moves) (auto simp: clear_def)

definition removal_ok :: "64 word \<Rightarrow> string \<Rightarrow> fuse_nodes \<Rightarrow> bool" where
  "removal_ok i name f \<longleftrightarrow> knows i f \<and> remembered f i name"

lemma serves_removed:
  "serves (\<lambda>f. busy hs f \<and> clear hs i name f \<and> removal_ok i name f) (on_nodes (removed i name)) (\<lambda>_. busy hs)"
proof (rule serves_on_nodes)
  fix f
  assume f: "busy hs f \<and> clear hs i name f \<and> removal_ok i name f"
  then obtain q qd where q: "fn_heap f q = Some qd" "nd_nlookup qd \<noteq> 0" "nd_nodeid qd = i"
    by (auto simp: removal_ok_def knows_def)
  have ok: "nodes_ok f" "remembered f (nd_nodeid qd) name" using f q by (auto simp: busy_def removal_ok_def)
  obtain f' where f': "remove_node f i name = Inr f'" "nodes_ok f'"
    using remove_node_ok [OF ok(1) q(1,2) ok(2)] q(3) by auto
  moreover have "moves (target f i name) f f'" using remove_moves [OF ok(1) q(1,2) ok(2), of f'] f'(1) q(3) by simp
  ultimately show "\<exists>x f'. removed i name f = Inr (x, f') \<and> busy hs f'"
    using f busy_target [of hs f f' i name] by (auto simp: removed_def)
qed

lemma serves_then_nodes:
  fixes g :: "'w fuse_fs \<Rightarrow> (int, 'w) act"
  assumes "quiet (on_fs g)" "serves R (on_nodes h :: (int, 'w) lib) (\<lambda>_. busy hs)" "\<And>f. R f \<Longrightarrow> busy hs f"
  shows "serves R (then_nodes g h) (\<lambda>_. busy hs)"
  unfolding then_nodes_def
  by (rule serves_after [OF assms(1)]) (auto intro: assms(2) serves_ret assms(3))

abbreviation remove_pre :: "64 word \<Rightarrow> string \<Rightarrow> fuse_nodes \<Rightarrow> bool" where
  "remove_pre i name f \<equiv> request_ok f i (Some name) True \<and> removal_ok i name f"

lemma tree_pred_removal [intro, simp]: "tree_pred (removal_ok i name)"
  unfolding removal_ok_def [abs_def]
proof (rule tree_pred_conj)
  show "tree_pred (knows i)" by (simp add: lasting_tree)
  show "tree_pred (\<lambda>f. remembered f i name)"
    unfolding tree_pred_def remembered_def
  proof (intro allI impI)
    fix f f' n d
    assume s: "same_tree f f'" and r: "\<forall>n d. conf_remember f \<noteq> 0 \<longrightarrow> fn_heap f n = Some d \<longrightarrow> node_key (fn_heap f) n = Some (i, name) \<longrightarrow> 1 < nd_nlookup d"
      and n: "conf_remember f' \<noteq> 0" "fn_heap f' n = Some d" "node_key (fn_heap f') n = Some (i, name)"
    have "n \<in> dom (fn_heap f)" using n(2) same_tree_sel [OF s] by auto
    then obtain e where e: "fn_heap f n = Some e" by blast
    have "nd_nlookup d = nd_nlookup e" using same_tree_node [OF s e] n(2) by auto
    then show "1 < nd_nlookup d" using r e n same_tree_sel [OF s] same_view(4) [OF same_tree_view [OF s]] by metis
  qed
qed

lemma serves_rmdir: "serves (\<lambda>f. busy [] f \<and> remove_pre i name f) (fuse_lib_rmdir i name) (\<lambda>_. busy [])"
  unfolding fuse_lib_rmdir_def get_path_wrlock_def
proof (rule serves_after [OF quiet_prepare], rule serves_err_only [where S = "\<lambda>_. True"], rule serves_with_path [where R = "remove_pre i name"], goal_cases)
  case 1
  show ?case by (intro tree_pred_conj) simp_all
next
  case (4 _ path w)
  show ?case
    by (rule serves_need, rule serves_bind [where P = "\<lambda>_. busy [(i, w)]"],
        rule serves_then_nodes [OF quiet_fs(13) serves_conseq [OF serves_removed]])
      (auto intro: locked_clear serves_ret)
qed auto

end
