(* ===== verification/Lib_Hidden.thy ===== *)
theory Lib_Hidden
  imports Lib_Removal
begin

text \<open>
  Files that are removed while they are open: \<^verbatim>\<open>hide_node\<close> renames them to a name of the form
  \<^verbatim>\<open>.fuse_hidden\<close>, which has to be found and must not be a name that is in use.
\<close>

section \<open>The names\<close>

fun hex_val :: "string \<Rightarrow> nat \<Rightarrow> nat" where
  "hex_val [] a = a"
| "hex_val (c # cs) a = hex_val cs (16 * a + (if of_char c < (58 :: nat) then of_char c - 48 else of_char c - 87))"

lemma hex_val_append: "hex_val (s @ t) a = hex_val t (hex_val s a)"
  by (induction s a rule: hex_val.induct) simp_all

lemma hex_digit_val: "d < 16 \<Longrightarrow> hex_val [hex_digit d] a = 16 * a + d"
  by (simp add: hex_digit_def digit_char_def)

lemma show_base_val: "hex_val (show_base 16 n) 0 = n"
proof (induction n rule: less_induct)
  case (less n)
  show ?case
  proof (cases "n < 16")
    case True
    then show ?thesis using hex_digit_val [of n 0] by (simp add: show_base.simps [of 16 n])
  next
    case False
    then show ?thesis
      using less [of "n div 16"] hex_digit_val [of "n mod 16"]
      by (simp add: show_base.simps [of 16 n] hex_val_append del: hex_val.simps)
  qed
qed

lemma show_base_length: "n < 16 ^ Suc k \<Longrightarrow> length (show_base 16 n) \<le> Suc k"
proof (induction k arbitrary: n)
  case (Suc k)
  show ?case
  proof (cases "n < 16")
    case False
    have "n div 16 < 16 ^ Suc k" using Suc.prems by (simp add: less_mult_imp_div_less)
    then show ?thesis using Suc.IH [of "n div 16"] False by (simp add: show_base.simps [of 16 n])
  qed (simp add: show_base.simps [of 16 n])
next
  case 0
  then show ?case by (simp add: show_base.simps [of 16 n])
qed

lemma hex_digit_nonzero: "d < 16 \<Longrightarrow> hex_digit d \<noteq> NUL_CHAR"
  by (simp add: hex_digit_def digit_char_def NUL_CHAR_def char_of_eq_iff take_bit_nat_eq_self)

lemma show_base_clean: "NUL_CHAR \<notin> set (show_base 16 n)"
proof (induction n rule: less_induct)
  case (less n)
  then show ?case using hex_digit_nonzero [of n] hex_digit_nonzero [of "n mod 16"] by (auto simp: show_base.simps [of 16 n])
qed

lemma zeros_val: "hex_val (replicate k CHR ''0'') 0 = 0"
  by (induction k) simp_all

lemma pad0_val: "hex_val (pad0 8 (fmt_x i)) 0 = nat (i mod 2 ^ 32)"
  by (simp add: pad0_def fmt_x_def hex_val_append zeros_val show_base_val)

lemma pad0_length: "length (pad0 8 (fmt_x i)) = 8"
proof -
  have "nat (i mod 2 ^ 32) < 16 ^ Suc 7" by (simp add: nat_less_iff)
  from show_base_length [OF this] show ?thesis by (simp add: pad0_def fmt_x_def)
qed

lemma pad0_clean: "NUL_CHAR \<notin> set (pad0 8 (fmt_x i))"
  using show_base_clean by (simp add: pad0_def fmt_x_def NUL_CHAR_def)

lemma hidden_text_inj: "hidden_text a c = hidden_text a c' \<longleftrightarrow> c = c'"
proof
  assume "hidden_text a c = hidden_text a c'"
  then have "pad0 8 (fmt_x (uint c)) = pad0 8 (fmt_x (uint c'))" by (simp add: hidden_text_def)
  then have "nat (uint c mod 2 ^ 32) = nat (uint c' mod 2 ^ 32)" by (metis pad0_val)
  then have "uint c = uint c'" using uint_lt2p [of c] uint_lt2p [of c'] by (simp add: nat_eq_iff2 mod_pos_pos_trivial)
  then show "c = c'" by (simp add: word_uint_eq_iff)
qed simp

lemma hidden_text_shape: "length (hidden_text a c) = 28" "NUL_CHAR \<notin> set (hidden_text a c)"
  using pad0_clean by (simp_all add: hidden_text_def pad0_length) (simp add: NUL_CHAR_def)

lemma hidden_request: "request_ok f i (Some (hidden_text a c)) wr \<Longrightarrow> request_ok f i (Some (hidden_text a' c')) wr"
  by (auto simp: request_ok_def name_ok_def name_text_def hidden_text_shape)

section \<open>Finding a name that is free\<close>

text \<open>Fewer nodes than numbers, so the loop ends.\<close>

lemma hidden_free:
  assumes t: "tree_inv f {}" and few: "card (dom (fn_heap f)) < 2 ^ 31 - 3"
  obtains c where "lookup_node f dir (hidden_text a c) = Inr None"
proof (rule ccontr)
  assume n: "\<not> thesis"
  have "\<exists>x. x \<in> dom (fn_heap f) \<and> node_key (fn_heap f) x = Some (dir, hidden_text a c)" for c
  proof -
    obtain r where r: "lookup_node f dir (hidden_text a c) = Inr r"
      "case r of None \<Rightarrow> True | Some x \<Rightarrow> x \<in> named (fn_heap f) {} \<and> node_key (fn_heap f) x = Some (dir, hidden_text a c)"
      using lookup_node_ok [OF t, of dir "hidden_text a c"] by (auto split: option.splits)
    moreover have "r \<noteq> None"
    proof
      assume "r = None"
      with r(1) have "lookup_node f dir (hidden_text a c) = Inr None" by simp
      with n show False by (rule notE [OF _ that])
    qed
    moreover have "x \<in> dom (fn_heap f)" if "x \<in> named (fn_heap f) {}" for x using that by (auto simp: named_def parent_rel_def)
    ultimately show ?thesis by (cases r) (simp_all del: domIff, blast)
  qed
  then obtain g where g: "\<And>c. g c \<in> dom (fn_heap f)" "\<And>c. node_key (fn_heap f) (g c) = Some (dir, hidden_text a c)" by metis
  have "inj g"
  proof (rule injI)
    fix c c'
    assume "g c = g c'"
    then have "hidden_text a c = hidden_text a c'" using g(2) [of c] g(2) [of c'] by simp
    then show "c = c'" by (simp add: hidden_text_inj)
  qed
  moreover have "range g \<subseteq> dom (fn_heap f)" using g(1) by blast
  moreover have "finite (dom (fn_heap f))" using t by (rule tree_finite)
  ultimately have "card (UNIV :: 32 word set) \<le> card (dom (fn_heap f))" by (metis card_image card_mono)
  then show False using few by (simp add: card_word)
qed

lemma hidden_pick_from:
  assumes t: "tree_inv f {}"
  shows "lookup_node f dir (hidden_text a (c + of_nat (Suc k))) = Inr None \<Longrightarrow>
    \<exists>c'. hidden_pick f dir a c = Some (Inr (hidden_text a c', c')) \<and> lookup_node f dir (hidden_text a c') = Inr None"
proof (induction k arbitrary: c)
  case 0
  then show ?case by (subst hidden_pick.simps) (auto intro: exI [of _ "c + 1"])
next
  case (Suc k)
  obtain r where r: "lookup_node f dir (hidden_text a (c + 1)) = Inr r" using lookup_node_ok [OF t] by blast
  show ?case
  proof (cases r)
    case None
    then show ?thesis using r by (subst hidden_pick.simps) (auto intro: exI [of _ "c + 1"])
  next
    case (Some x)
    have "lookup_node f dir (hidden_text a (c + 1 + of_nat (Suc k))) = Inr None" using Suc.prems by (simp add: add_ac)
    from Suc.IH [OF this] show ?thesis using r Some by (subst hidden_pick.simps) simp
  qed
qed

lemma hidden_pick_ok:
  assumes t: "tree_inv f {}" and few: "card (dom (fn_heap f)) < 2 ^ 31 - 3"
  shows "\<exists>c'. hidden_pick f dir a c = Some (Inr (hidden_text a c', c')) \<and> lookup_node f dir (hidden_text a c') = Inr None"
proof -
  obtain c0 where "lookup_node f dir (hidden_text a c0) = Inr None" by (rule hidden_free [OF t few])
  moreover have "c0 = c + of_nat (Suc (unat (c0 - c - 1)))" by simp
  ultimately show ?thesis using hidden_pick_from [OF t, of dir a c "unat (c0 - c - 1)"] by simp
qed

text \<open>The path of the name, without locking it.\<close>

lemma peek_path:
  assumes t: "tree_inv f {}" and req: "request_ok f i (Some nm) False"
  shows "\<exists>err path f'. try_get_path f i (Some nm) False False = Inr (err, path, None, f') \<and> (\<exists>bs. f' = f\<lparr>fn_realloc := bs\<rparr>) \<and>
    (err = 0 \<longleftrightarrow> path \<noteq> None)"
proof -
  obtain n d where n: "fn_heap f n = Some d" "nd_nodeid d = i" "fits (fn_heap f) n (Suc (length (name_text (Some nm))))"
    using req by (auto simp: request_ok_def)
  obtain bs where nx: "next_ok f = (fst (next_ok f), f\<lparr>fn_realloc := bs\<rparr>)" by (rule next_ok_eq)
  let ?f1 = "f\<lparr>fn_realloc := bs\<rparr>"
  obtain bs2 where nx2: "next_ok ?f1 = (fst (next_ok ?f1), ?f1\<lparr>fn_realloc := bs2\<rparr>)" by (rule next_ok_eq)
  let ?f2 = "f\<lparr>fn_realloc := bs2\<rparr>"
  have wl: "with_locks (locks f) (f\<lparr>fn_realloc := b\<rparr>) = f\<lparr>fn_realloc := b\<rparr>" for b
    using with_locks_simps(2) [of "f\<lparr>fn_realloc := b\<rparr>"] by simp
  obtain r where r: "add_name (fst (next_ok ?f1)) new_path_buf nm = Inr r" "\<And>pb. r = Some pb \<Longrightarrow> pb_ok pb (name_text (Some nm))"
    using start_buf_ok [of f n d "Some nm" "fst (next_ok ?f1)"] n by auto
  show ?thesis
  proof (cases "fst (next_ok f) \<and> r \<noteq> None")
    case False
    then show ?thesis using r(1) nx nx2
      by (auto simp: try_get_path_def Let_def split_beta errno_defs) (metis snd_conv)+
  next
    case True
    then obtain pb where pb: "r = Some pb" by blast
    have g: "get_node ?f2 i = Inr n" using get_node_ok(2) [of ?f2 "{}" n d] t n by simp
    have t2: "tree_inv ?f2 {}" using t by simp
    have "\<exists>r. path_loop ?f2 False n pb = Some (Inr r) \<and> path_post ?f2 False n (name_text (Some nm)) r"
      by (rule path_loop_ok [OF parent_wf [OF t2] _ _ refl _ r(2) [OF pb]]) (use t2 n in \<open>simp_all add: tree_inv_def\<close>)
    then obtain err pb' m f' where p: "path_loop ?f2 False n pb = Some (Inr (err, pb', m, f'))"
      "path_post ?f2 False n (name_text (Some nm)) (err, pb', m, f')" by fastforce
    then obtain ns bs3 where q: "walk (fn_heap f) n ns m" "f' = with_locks (locks f) (f\<lparr>fn_realloc := bs3\<rparr>)"
      "err = 0 \<longrightarrow> pb_ok pb' (path_text (fn_heap f) ns @ name_text (Some nm))"
      by (auto simp: path_post_def)
    have e: "try_get_path f i (Some nm) False False = follow_path ?f2 i pb None False"
      using True pb r(1) nx nx2 by (simp add: try_get_path_def Let_def split_beta) (metis snd_conv)
    show ?thesis
    proof (cases "err = 0")
      case True
      have "NUL_CHAR \<notin> set (path_text (fn_heap f) ns @ name_text (Some nm))"
        using path_text_clean [OF _ q(1)] req by (simp add: request_ok_def name_ok_def name_text_def NUL_CHAR_def)
      then have "\<exists>pth. finish_path pb' = Inr pth" using q(3) True finish_path_ok by blast
      then show ?thesis using e g p(1) True q(2) wl by (auto simp: follow_path_def)
    next
      case False
      then show ?thesis using e g p(1) q(2) wl by (auto simp: follow_path_def)
    qed
  qed
qed

section \<open>Hiding a node\<close>

text \<open>What the directory needs for it, and what is known of the name that was found.\<close>

abbreviation few :: "fuse_nodes \<Rightarrow> bool" where
  "few f \<equiv> card (dom (fn_heap f)) < 2 ^ 31 - 3"

lemma tree_pred_few [intro, simp]: "tree_pred few"
  by (simp add: tree_pred_def same_tree_sel)

definition hides :: "64 word \<Rightarrow> fuse_nodes \<Rightarrow> bool" where
  "hides dir f \<longleftrightarrow> request_ok f dir (Some (hidden_text 0 0)) False \<and> few f"

lemma tree_pred_hides [intro, simp]: "tree_pred (hides dir)"
  unfolding hides_def [abs_def] by (intro tree_pred_conj tree_pred_request tree_pred_few)

lemma tree_pred_lookup [intro, simp]: "tree_pred (\<lambda>f. A (lookup_node f i nm))"
  by (simp add: tree_pred_def lookup_same_tree)

lemma busy_same_tree: "busy hs f \<Longrightarrow> same_tree f f' \<Longrightarrow> locks f' = locks f \<Longrightarrow> busy hs f'"
  using same_tree_nodes_ok lock_inv_view [of f hs f' hs] same_tree_view
  by (auto simp: busy_def lock_inv_def nodes_ok_def)

definition named_free :: "64 word \<Rightarrow> string \<Rightarrow> string \<Rightarrow> fuse_nodes \<Rightarrow> bool" where
  "named_free dir oldname newname f \<longleftrightarrow> lookup_node f dir newname = Inr None \<and> lookup_node f dir oldname \<noteq> Inr None"

lemma serves_hidden_choose:
  "serves (\<lambda>f. busy hs f \<and> hides dir f \<and> P f) (hidden_choose dir nodeid)
    (\<lambda>nm f. busy hs f \<and> hides dir f \<and> lookup_node f dir nm = Inr None \<and> (\<exists>c. nm = hidden_text nodeid c) \<and> P f)"
  unfolding serves_def
proof (intro allI impI)
  fix s :: "'w fuse"
  assume s: "fz_lockq s = []" "fs_total (fz_fs s)" "busy hs (fz_nodes s) \<and> hides dir (fz_nodes s) \<and> P (fz_nodes s)"
  then have "tree_inv (fz_nodes s) {}" "card (dom (fn_heap (fz_nodes s))) < 2 ^ 31 - 3"
    by (simp_all add: busy_def nodes_ok_def hides_def)
  then obtain c where "hidden_pick (fz_nodes s) dir nodeid (fz_hidectr s) = Some (Inr (hidden_text nodeid c, c))"
    "lookup_node (fz_nodes s) dir (hidden_text nodeid c) = Inr None"
    using hidden_pick_ok by blast
  then show "\<exists>nm s'. hidden_choose dir nodeid s = Inr (nm, s') \<and> fz_lockq s' = [] \<and> fz_fs s' = fz_fs s \<and>
    busy hs (fz_nodes s') \<and> hides dir (fz_nodes s') \<and> lookup_node (fz_nodes s') dir nm = Inr None \<and>
    (\<exists>c. nm = hidden_text nodeid c) \<and> P (fz_nodes s')"
    using s by (auto simp: hidden_choose_def)
qed

lemma realloc_same: "same_tree f (f\<lparr>fn_realloc := bs\<rparr>)"
proof -
  have "with_locks (locks f) (f\<lparr>fn_realloc := bs\<rparr>) = f\<lparr>fn_realloc := bs\<rparr>"
    using with_locks_simps(2) [of "f\<lparr>fn_realloc := bs\<rparr>"] by simp
  then show ?thesis unfolding same_tree_def by metis
qed

lemma busy_realloc: "busy hs f \<Longrightarrow> busy hs (f\<lparr>fn_realloc := bs\<rparr>)"
  by (rule busy_same_tree [OF _ realloc_same]) simp_all

text \<open>The name that is found; nothing has changed but the memory that was asked for.\<close>

lemma serves_peek:
  assumes "tree_pred P" "\<And>f. P f \<Longrightarrow> request_ok f dir (Some nm) False"
  shows "serves (\<lambda>f. busy hs f \<and> P f)
    (on_nodes (\<lambda>f. bind_res (try_get_path f dir (Some nm) False False) (\<lambda>(err, path, _, f1). Inr ((err, path), f1))))
    (\<lambda>x f. (fst x = 0 \<longleftrightarrow> snd x \<noteq> None) \<and> busy hs f \<and> P f)"
proof (rule serves_on_nodes)
  fix f
  assume f: "busy hs f \<and> P f"
  then obtain err path bs where r: "try_get_path f dir (Some nm) False False = Inr (err, path, None, f\<lparr>fn_realloc := bs\<rparr>)"
    "err = 0 \<longleftrightarrow> path \<noteq> None"
    using peek_path [of f dir nm] assms(2) by (auto simp: busy_def nodes_ok_def)
  have "P (f\<lparr>fn_realloc := bs\<rparr>)" using tree_predD [OF assms(1) realloc_same] f by blast
  then show "\<exists>x f'. bind_res (try_get_path f dir (Some nm) False False) (\<lambda>(err, path, _, f1). Inr ((err, path), f1)) = Inr (x, f') \<and>
      (fst x = 0 \<longleftrightarrow> snd x \<noteq> None) \<and> busy hs f' \<and> P f'"
    using f r busy_realloc by auto
qed

lemma serves_hidden_name:
  assumes P: "tree_pred P"
  shows "serves (\<lambda>f. busy hs f \<and> hides dir f \<and> P f) (hidden_name k dir oldname :: (_, 'w) lib)
    (\<lambda>x f. busy hs f \<and> P f \<and> (snd x \<noteq> None \<longrightarrow> named_free dir oldname (fst x) f))"
proof (induction k)
  case (Suc k)
  let ?I = "\<lambda>f. busy hs f \<and> hides dir f \<and> P f"
  show ?case
    unfolding hidden_name.simps(2)
  proof (rule serves_bind [where P = "\<lambda>r f. ?I f \<and> lookup_node f dir oldname = Inr r"], goal_cases)
    case 1
    show ?case
      by (rule serves_ask_nodes) (metis busy_def nodes_ok_def lookup_node_ok)
  next
    case (2 r)
    show ?case
    proof (cases r)
      case None
      then show ?thesis by (auto intro!: serves_ret)
    next
      case (Some n)
      let ?J = "\<lambda>f. ?I f \<and> lookup_node f dir oldname = Inr (Some n)"
      show ?thesis
        unfolding Some option.case
      proof (rule serves_bind [where P = "\<lambda>_. ?J"], goal_cases)
        case 1
        show ?case
        proof (rule serves_ask_nodes)
          fix f
          assume f: "?J f"
          then have "n \<in> dom (fn_heap f)" using lookup_node_dom [of f dir oldname] by (auto simp: busy_def nodes_ok_def)
          then show "\<exists>x. node f n = Inr x \<and> ?J f" using f by (auto simp: node_def)
        qed
      next
        case (2 d)
        have J: "tree_pred (\<lambda>f. hides dir f \<and> P f \<and> lookup_node f dir oldname = Inr (Some n) \<and>
            lookup_node f dir nm = Inr None \<and> (\<exists>c. nm = hidden_text (nd_nodeid d) c))" for nm
          by (intro tree_pred_conj tree_pred_hides P tree_pred_const tree_pred_lookup)
        show ?case
        proof (rule serves_bind [where P = "\<lambda>nm f. busy hs f \<and> hides dir f \<and> P f \<and> lookup_node f dir oldname = Inr (Some n) \<and>
            lookup_node f dir nm = Inr None \<and> (\<exists>c. nm = hidden_text (nd_nodeid d) c)"], goal_cases)
          case 1
          show ?case
            by (rule serves_conseq [OF serves_hidden_choose [of hs dir "\<lambda>f. P f \<and> lookup_node f dir oldname = Inr (Some n)"]]) auto
        next
          case (2 nm)
          show ?case
          proof (rule serves_bind [OF serves_peek [OF J]], goal_cases)
            case (1 f)
            then show ?case using hidden_request by (auto simp: hides_def)
          next
            case (2 x)
            obtain err path where x: "x = (err, path)" by (cases x)
            show ?case
            proof (cases "err = 0 \<and> path \<noteq> None")
              case False
              then show ?thesis
                unfolding x prod.case by (cases "err = 0") (auto intro!: serves_ret simp: serves_def [of "\<lambda>f. False"])
            next
              case True
              then obtain p where p: "path = Some p" "err = 0" by blast
              have nf: "lookup_node f dir oldname = Inr (Some n) \<Longrightarrow> lookup_node f dir nm = Inr None \<Longrightarrow> named_free dir oldname nm f" for f
                by (simp add: named_free_def)
              have IH: "serves (\<lambda>f. busy hs f \<and> hides dir f \<and> P f \<and> lookup_node f dir oldname = Inr (Some n) \<and>
                  lookup_node f dir nm = Inr None \<and> (\<exists>c. nm = hidden_text (nd_nodeid d) c)) (hidden_name k dir oldname :: (_, 'w) lib)
                (\<lambda>x f. busy hs f \<and> P f \<and> (snd x \<noteq> None \<longrightarrow> named_free dir oldname (fst x) f))"
                by (rule serves_conseq [OF Suc.IH]) auto
              have "serves (\<lambda>f. busy hs f \<and> hides dir f \<and> P f \<and> lookup_node f dir oldname = Inr (Some n) \<and>
                  lookup_node f dir nm = Inr None \<and> (\<exists>c. nm = hidden_text (nd_nodeid d) c))
                (bind_lib (on_fs (\<lambda>fs. fuse_fs_getattr fs p zero_stat)) (\<lambda>(res, _).
                   if res = - ENOENT then ret_lib (nm, Some p)
                   else if res \<noteq> 0 then ret_lib (nm, None)
                   else hidden_name k dir oldname :: (_, 'w) lib))
                (\<lambda>x f. busy hs f \<and> P f \<and> (snd x \<noteq> None \<longrightarrow> named_free dir oldname (fst x) f))"
                by (rule serves_after [OF quiet_fs(1)], rule serves_split)
                  (use nf IH in \<open>auto intro!: serves_ret\<close>)
              then show ?thesis
                unfolding x p prod.case by (simp add: bind_lift)
            qed
          qed
        qed
      qed
    qed
  qed
qed (auto intro: serves_ret)

text \<open>The old node gets the new name; it was locked, so no path that is held goes through it.\<close>

lemma key_target:
  assumes "nodes_ok f" "node_key (fn_heap f) n = Some (i, nm)"
  shows "n \<in> target f i nm"
proof -
  have t: "tree_inv f {}" "keys_distinct (fn_heap f) (named (fn_heap f) {})" using assms(1) by (simp_all add: nodes_ok_def tree_inv_def)
  have n: "n \<in> named (fn_heap f) {}" using assms(2) by (auto simp: node_key_def named_def parent_rel_def split: option.splits)
  obtain r where r: "lookup_node f i nm = Inr r" "case r of None \<Rightarrow> (\<forall>n \<in> named (fn_heap f) {}. node_key (fn_heap f) n \<noteq> Some (i, nm))
      | Some x \<Rightarrow> x \<in> named (fn_heap f) {} \<and> node_key (fn_heap f) x = Some (i, nm)"
    using lookup_node_ok [OF t(1)] by blast
  have "r = Some n"
  proof (cases r)
    case None
    then show ?thesis using r(2) n assms(2) by auto
  next
    case (Some x)
    then show ?thesis using r(2) t(2) n assms(2) by (auto simp: keys_distinct_def inj_on_def)
  qed
  then show ?thesis using r(1) by (simp add: target_def)
qed

lemma target_key:
  assumes "nodes_ok f" "n \<in> target f i nm"
  shows "n \<in> named (fn_heap f) {} \<and> node_key (fn_heap f) n = Some (i, nm)"
  using lookup_node_ok [of f "{}" i nm] assms by (auto simp: nodes_ok_def target_def)

text \<open>A node that does not move keeps its place.\<close>

lemma key_moves:
  assumes ok: "nodes_ok f" and m: "moves M f f'" and x: "x \<in> dom (fn_heap f)" "x \<notin> M" and k: "node_key (fn_heap f') x = Some (i, nm)"
  shows "node_key (fn_heap f) x = Some (i, nm)"
proof -
  obtain e where e: "fn_heap f x = Some e" using x(1) by blast
  then obtain e' where e': "fn_heap f' x = Some e'" "nd_parent e' = nd_parent e" "nd_name e' = nd_name e"
    using movesD [OF m e] x(2) by (auto simp: stays_def)
  then obtain p pd where p: "nd_parent e = Some p" "nd_name e = Some nm" "fn_heap f' p = Some pd" "nd_nodeid pd = i"
    using k by (auto simp: node_key_def split: option.splits)
  have "link_ok (fn_heap f) e" using ok e by (auto simp: nodes_ok_def tree_inv_def links_ok_def)
  then obtain pe where pe: "fn_heap f p = Some pe" using p(1) by (auto simp: link_ok_def)
  then have "nd_nodeid pe = i" using movesD [OF m pe] p(3,4) by (auto simp: stays_def)
  then show ?thesis using e p(1,2) pe by (simp add: node_key_def)
qed

text \<open>A place that no path goes through stays one when such nodes move.\<close>

lemma clear_moves:
  assumes b: "busy hs f" "busy hs f'" and m: "moves M f f'" "\<And>h. h \<in> set hs \<Longrightarrow> M \<inter> set (way f (fst h)) = {}" and c: "clear hs i nm f"
  shows "clear hs i nm f'"
  unfolding clear_def
proof (intro ballI equals0I)
  fix h x
  assume h: "h \<in> set hs" and x: "x \<in> target f' i nm \<inter> set (way f' (fst h))"
  have ok: "nodes_ok f" "nodes_ok f'" "tree_inv f' {}" using b by (simp_all add: busy_def nodes_ok_def)
  have "set (way f' (fst h)) = set (way f (fst h))"
    using lock_inv_moves [of f hs f' M] ok(3) m b(1) h by (simp add: busy_def)
  then have w: "x \<in> set (way f (fst h))" using x by simp
  have "linked f (fst h)" using b(1) h by (simp add: busy_def lock_inv_def hold_ok_def)
  then obtain n d ns r where n: "fn_heap f n = Some d" "nd_nodeid d = fst h" "walk (fn_heap f) n ns r" "at_root (fn_heap f) r"
    by (auto simp: linked_def)
  have "way f (fst h) = ns" using way_eq [of f n d ns r] n ok(1) by (simp add: nodes_ok_def tree_inv_def)
  then have "x \<in> dom (fn_heap f)" using w walk_rel(3) [OF n(3)] by blast
  moreover have "x \<notin> M" using m(2) [OF h] w by blast
  moreover have "node_key (fn_heap f') x = Some (i, nm)" using target_key [OF ok(2)] x by blast
  ultimately have "node_key (fn_heap f) x = Some (i, nm)" by (rule key_moves [OF ok(1) m(1)])
  then have "x \<in> target f i nm" by (rule key_target [OF ok(1)])
  then show False using c h w by (auto simp: clear_def)
qed

text \<open>A renaming brings no new node.\<close>

lemma hash_name_dom:
  assumes "hash_name f n i nm = Inr (err, f')" shows "dom (fn_heap f') \<subseteq> dom (fn_heap f)"
proof -
  obtain p where p: "get_node f i = Inr p" using assms by (auto simp: hash_name_def bind_res_Inr_iff)
  obtain dup f1 where f1: "(if length nm < INLINE_NAME then (True, f) else next_ok f) = (dup, f1)" by fastforce
  then have "fn_heap f1 = fn_heap f" by (auto dest: next_okD split: if_splits)
  then show ?thesis
    using assms p f1 by (auto simp: hash_name_def node_def res_iffs chk_int_Inr_iff bump_def Let_def split_beta split: if_splits)
qed

lemma shrinks_dom: "shrinks f f' \<Longrightarrow> dom (fn_heap f') \<subseteq> dom (fn_heap f)"
  by (auto simp: shrinks_def)

lemma rename_dom:
  assumes "rename_node f i nm j nm' hide = Inr (err, f')"
  shows "dom (fn_heap f') \<subseteq> dom (fn_heap f)"
proof -
  have u: "dom (fn_heap g') \<subseteq> dom (fn_heap g)" if "unhash_name g n = Inr g'" for g g' n
    using that drop_shrinks(1) [of g n] by (intro shrinks_dom) blast
  have v: "dom (fn_heap g') \<subseteq> dom (fn_heap g)" if r: "unlink_node g m = Inr g'" for g g' m
  proof (cases "conf_remember g = 0")
    case True
    then show ?thesis using r u by (simp add: unlink_node_def)
  next
    case False
    then obtain d where "fn_heap g m = Some d" "unhash_name (put_node m (d\<lparr>nd_nlookup := nd_nlookup d - 1\<rparr>) g) m = Inr g'"
      using r by (auto simp: unlink_node_def res_iffs node_def)
    then show ?thesis using u by fastforce
  qed
  have w: "dom (fn_heap g') \<subseteq> dom (fn_heap g)" if "(case newr of None \<Rightarrow> Inr g | Some m \<Rightarrow> unlink_node g m) = Inr g'" for g g' newr
    using that v by (auto split: option.splits)
  obtain r newr where r: "lookup_node f i nm = Inr r" "lookup_node f j nm' = Inr newr"
    using assms by (auto simp: rename_node_def bind_res_Inr_iff)
  show ?thesis
  proof (cases "r = None \<or> newr \<noteq> None \<and> hide")
    case True
    then have "f' = f" using assms r by (auto simp: rename_node_def split: option.splits)
    then show ?thesis by simp
  next
    case False
    then obtain n where n: "r = Some n" by auto
    obtain f1 f2 e f3 where s: "(case newr of None \<Rightarrow> Inr f | Some m \<Rightarrow> unlink_node f m) = Inr f1" "unhash_name f1 n = Inr f2"
      "hash_name f2 n j nm' = Inr (e, f3)" "f' = f3 \<or> (\<exists>d. fn_heap f3 n = Some d \<and> f' = put_node n (d\<lparr>nd_is_hidden := True\<rparr>) f3)"
      using assms r n False by (auto simp: rename_node_def bind_res_Inr_iff node_def the_res_Inr_iff split: if_splits)
    have "dom (fn_heap f') \<subseteq> dom (fn_heap f3)" using s(4) by (auto split: if_splits)
    then show ?thesis using hash_name_dom [OF s(3)] u [OF s(2)] w [OF s(1)] by blast
  qed
qed

text \<open>The file that is hidden is gone from its place.\<close>

definition gone :: "64 word \<Rightarrow> string \<Rightarrow> fuse_nodes \<Rightarrow> bool" where
  "gone dir name f \<longleftrightarrow> (\<forall>x. node_key (fn_heap f) x \<noteq> Some (dir, name))"

lemma hide_rename:
  assumes b: "busy hs f" and c: "clear hs dir oldname f" and k: "knows dir f" and nm: "named_free dir oldname newname f"
    and room: "few f"
  shows "\<exists>err f'. rename_node f dir oldname dir newname True = Inr (err, f') \<and> busy hs f' \<and>
    moves (target f dir oldname) f f' \<and> (err = 0 \<longrightarrow> gone dir oldname f')"
proof -
  obtain q qd where q: "fn_heap f q = Some qd" "nd_nlookup qd \<noteq> 0" "nd_nodeid qd = dir" using k by (auto simp: knows_def)
  have ok: "nodes_ok f" "acyclic (parent_rel (fn_heap f))" using b by (simp_all add: busy_def nodes_ok_def tree_inv_def)
  have free: "target f dir newname = {}" using nm by (simp add: target_def named_free_def)
  have rem: "remembered f (nd_nodeid qd) newname" using key_target [OF ok(1)] free q(3) by (auto simp: remembered_def)
  have cyc: "(q, n) \<notin> (parent_rel (fn_heap f))\<^sup>*" if n: "node_key (fn_heap f) n = Some (nd_nodeid qd, oldname)" for n
  proof
    assume r: "(q, n) \<in> (parent_rel (fn_heap f))\<^sup>*"
    obtain d where "fn_heap f n = Some d" "nd_parent d = Some q"
      using named_parent [OF ok(1) _ n q(1)] target_key [OF ok(1) key_target [OF ok(1) n]] by blast
    then have "(n, q) \<in> parent_rel (fn_heap f)" by (rule parent_relI)
    then show False using r ok(2) by (auto simp: acyclic_def dest: rtrancl_into_trancl2)
  qed
  obtain err f' where r: "rename_node f dir oldname dir newname True = Inr (err, f')" "nodes_ok f'"
    "err = 0 \<longrightarrow> (\<forall>n \<in> named (fn_heap f) {}. node_key (fn_heap f) n = Some (dir, oldname) \<longrightarrow> node_key (fn_heap f') n = Some (dir, newname))"
    using rename_node_ok [OF ok(1) q(1,2) q(1,2) _ rem, of oldname True] cyc q(3) room by auto
  have m: "moves (target f dir oldname) f f'"
    using rename_moves [OF ok(1) q(1,2) q(1,2) rem, of oldname True err f'] r(1) q(3) free by simp
  have b': "busy hs f'" using busy_target [OF b r(2) m c] .
  have "gone dir oldname f'" if e: "err = 0"
    unfolding gone_def
  proof (intro allI notI)
    fix x
    assume x: "node_key (fn_heap f') x = Some (dir, oldname)"
    have "x \<in> dom (fn_heap f)" using x rename_dom [OF r(1)] by (auto simp: node_key_def split: option.splits)
    moreover have nt: "x \<notin> target f dir oldname"
    proof
      assume "x \<in> target f dir oldname"
      then have "node_key (fn_heap f') x = Some (dir, newname)" using r(3) e target_key [OF ok(1)] by blast
      then have "newname = oldname" using x by simp
      then show False using nm by (simp add: named_free_def)
    qed
    ultimately have "node_key (fn_heap f) x = Some (dir, oldname)" using key_moves [OF ok(1) m] x by blast
    then show False using key_target [OF ok(1)] nt by blast
  qed
  then show ?thesis using r(1) b' m by blast
qed

text \<open>Hiding as a step; what lasts, and other places that are clear, stay so.\<close>

lemma tree_pred_clear [intro, simp]: "tree_pred (clear hs i nm)"
  unfolding tree_pred_def clear_def target_def using lookup_same_tree way_view [OF same_tree_view] by simp

abbreviation hide_pre :: "path_hold list \<Rightarrow> 64 word \<Rightarrow> string \<Rightarrow> fuse_nodes \<Rightarrow> bool" where
  "hide_pre hs dir name f \<equiv> busy hs f \<and> hides dir f \<and> knows dir f \<and> clear hs dir name f"

lemma serves_hide:
  assumes L: "lasting P"
  shows "serves (\<lambda>f. hide_pre hs dir name f \<and> clear hs i nm f \<and> P f) (hide_node path dir name)
    (\<lambda>err f. busy hs f \<and> (err = 0 \<longrightarrow> gone dir name f) \<and> clear hs i nm f \<and> few f \<and> P f)"
  unfolding hide_node_def
proof (rule serves_bind [where P = "\<lambda>x f. busy hs f \<and> (knows dir f \<and> clear hs dir name f \<and> clear hs i nm f \<and> few f \<and> P f) \<and>
    (snd x \<noteq> None \<longrightarrow> named_free dir name (fst x) f)"], goal_cases)
  case 1
  have "tree_pred (\<lambda>f. knows dir f \<and> clear hs dir name f \<and> clear hs i nm f \<and> few f \<and> P f)"
    by (intro tree_pred_conj lasting_tree lasting_rules L tree_pred_clear tree_pred_few)
  from serves_hidden_name [OF this] show ?case by (rule serves_conseq) (auto simp: hides_def)
next
  case (2 x)
  obtain newname newpath where x: "x = (newname, newpath)" by (cases x)
  show ?case
  proof (cases newpath)
    case None
    then show ?thesis using x by (auto intro!: serves_ret simp: EBUSY_def)
  next
    case (Some p)
    let ?R = "\<lambda>f. busy hs f \<and> (knows dir f \<and> clear hs dir name f \<and> clear hs i nm f \<and> few f \<and> P f) \<and> named_free dir name newname f"
    have "serves ?R (on_nodes (\<lambda>f. rename_node f dir name dir newname True))
      (\<lambda>err f. busy hs f \<and> (err = 0 \<longrightarrow> gone dir name f) \<and> clear hs i nm f \<and> few f \<and> P f)"
    proof (rule serves_on_nodes)
      fix f
      assume f: "?R f"
      then obtain err f' where r: "rename_node f dir name dir newname True = Inr (err, f')" "busy hs f'"
        "moves (target f dir name) f f'" "err = 0 \<longrightarrow> gone dir name f'"
        using hide_rename [of hs f dir name newname] by blast
      have "finite (dom (fn_heap f))" using f tree_finite by (auto simp: busy_def nodes_ok_def)
      then have "card (dom (fn_heap f')) \<le> card (dom (fn_heap f))" by (rule card_mono [OF _ rename_dom [OF r(1)]])
      then have "few f'" using f by simp
      have "clear hs i nm f'" using clear_moves [of hs f f' _ i nm, OF _ r(2,3)] f by (auto simp: clear_def)
      moreover note \<open>few f'\<close>
      moreover have "P f'" using lastingD [OF L moves_grows [OF r(3)]] f by blast
      ultimately show "\<exists>err f'. rename_node f dir name dir newname True = Inr (err, f') \<and>
          busy hs f' \<and> (err = 0 \<longrightarrow> gone dir name f') \<and> clear hs i nm f' \<and> few f' \<and> P f'" using r by blast
    qed
    then have "serves ?R
      (bind_lib (on_fs (\<lambda>fs. fuse_fs_rename fs path p)) (\<lambda>err.
         if err \<noteq> 0 then ret_lib err else on_nodes (\<lambda>f. rename_node f dir name dir newname True)))
      (\<lambda>err f. busy hs f \<and> (err = 0 \<longrightarrow> gone dir name f) \<and> clear hs i nm f \<and> few f \<and> P f)"
      by (intro serves_after [OF quiet_fs(14)]) (auto intro!: serves_ret)
    then show ?thesis unfolding x Some by simp
  qed
qed

section \<open>Removing and renaming files that may be open\<close>

lemma serves_open_there:
  "serves (\<lambda>f. busy hs f \<and> R f) (open_there dir name) (\<lambda>_ f. busy hs f \<and> R f)"
  unfolding open_there_def
proof (rule serves_after [OF quiet_ask], goal_cases)
  case (1 conf)
  have "serves (\<lambda>f. busy hs f \<and> R f) (ask_nodes (\<lambda>f. is_open f dir name)) (\<lambda>_ f. busy hs f \<and> R f)"
  proof (rule serves_ask_nodes)
    fix f
    assume f: "busy hs f \<and> R f"
    then obtain r where "lookup_node f dir name = Inr r" "\<And>x. r = Some x \<Longrightarrow> x \<in> dom (fn_heap f)"
      using lookup_node_dom [of f dir name] by (auto simp: busy_def nodes_ok_def)
    then have "\<exists>b. is_open f dir name = Inr b" by (cases r) (auto simp: is_open_def node_def domIff)
    then show "\<exists>x. is_open f dir name = Inr x \<and> busy hs f \<and> R f" using f by blast
  qed
  then show ?case by (auto intro: serves_ret)
qed

abbreviation unlink_pre :: "64 word \<Rightarrow> string \<Rightarrow> fuse_nodes \<Rightarrow> bool" where
  "unlink_pre i name f \<equiv> request_ok f i (Some name) True \<and> removal_ok i name f \<and> hides i f"

lemma serves_unlink_body:
  assumes "\<And>f. R f \<Longrightarrow> hide_pre hs i name f \<and> removal_ok i name f"
  shows "serves R
    (bind_lib (open_there i name) (\<lambda>open.
     bind_lib (if open then hide_node path i name else then_nodes (\<lambda>fs. fuse_fs_unlink fs path) (removed i name))
       (\<lambda>err. ret_lib (err, ())))) (\<lambda>_. busy hs)"
proof (rule serves_bind [where P = "\<lambda>_ f. hide_pre hs i name f \<and> removal_ok i name f"], goal_cases)
  case 1
  show ?case by (rule serves_conseq [OF serves_open_there [where R = "\<lambda>f. hide_pre hs i name f \<and> removal_ok i name f"]]) (use assms in auto)
next
  case (2 opn)
  show ?case
  proof (rule serves_bind [where P = "\<lambda>_. busy hs"], goal_cases)
    case 1
    show ?case
    proof (cases opn)
      case True
      then show ?thesis
        by simp (rule serves_conseq [OF serves_hide [of "\<lambda>_. True" hs i name i name]], auto)
    next
      case False
      then show ?thesis
        by simp (rule serves_then_nodes [OF quiet_fs(12) serves_conseq [OF serves_removed]], auto)
    qed
  qed (auto intro: serves_ret)
qed

lemma serves_unlink: "serves (\<lambda>f. busy [] f \<and> unlink_pre i name f) (fuse_lib_unlink i name) (\<lambda>_. busy [])"
  unfolding fuse_lib_unlink_def get_path_wrlock_def
proof (rule serves_after [OF quiet_prepare], rule serves_err_only [where S = "\<lambda>_. True"],
    rule serves_with_path [where R = "unlink_pre i name"], goal_cases)
  case 1
  show ?case by (intro tree_pred_conj) simp_all
next
  case (4 _ path w)
  show ?case
    by (rule serves_need, rule serves_conseq [OF serves_unlink_body [where hs = "[(i, w)]" and R = "\<lambda>f. hide_pre [(i, w)] i name f \<and> removal_ok i name f"]])
      (auto simp: removal_ok_def intro: locked_clear)
qed auto

text \<open>Renaming; the file that is replaced may be open, too.\<close>

lemma gone_removal: "gone dir name f \<Longrightarrow> knows dir f \<Longrightarrow> removal_ok dir name f"
  by (simp add: gone_def removal_ok_def remembered_def)

lemma gone_clear: "nodes_ok f \<Longrightarrow> gone dir name f \<Longrightarrow> clear hs dir name f"
  using target_key [of f _ dir name] by (auto simp: gone_def clear_def)

text \<open>The way from a node to the root goes through every node above it.\<close>

lemma walk_through:
  assumes l: "links_ok h {}" and n: "(n, p0) \<in> parent_rel h"
  shows "walk h q ns r \<Longrightarrow> at_root h r \<Longrightarrow> (q, n) \<in> (parent_rel h)\<^sup>* \<Longrightarrow> n \<in> set ns"
proof (induction rule: walk.induct)
  case (stop q)
  have no: "(q, x) \<notin> parent_rel h" for x
    using stop.prems(1) l by (fastforce simp: at_root_def parent_rel_def links_ok_def link_ok_def)
  show ?case using stop.prems(2)
  proof (cases rule: converse_rtranclE)
    case base
    then show ?thesis using n no by blast
  qed (use no in blast)
next
  case (step q d nm p ns m)
  show ?case using step.prems(2)
  proof (cases rule: converse_rtranclE)
    case (step y)
    then have "y = p" using step.hyps by (auto simp: parent_rel_def)
    then show ?thesis using step.IH step.prems(1) \<open>(y, n) \<in> (parent_rel h)\<^sup>*\<close> by simp
  qed simp
qed

text \<open>A directory whose path is held lies not below a node that no such path goes through.\<close>

lemma clear_cycle:
  assumes b: "busy hs f" and c: "clear hs i nm f" and h: "h \<in> set hs" "fn_heap f q = Some qd" "nd_nodeid qd = fst h"
    and n: "node_key (fn_heap f) n = Some (i, nm)"
  shows "(q, n) \<notin> (parent_rel (fn_heap f))\<^sup>*"
proof
  assume r: "(q, n) \<in> (parent_rel (fn_heap f))\<^sup>*"
  have ok: "nodes_ok f" "ids_distinct (fn_heap f)" "links_ok (fn_heap f) {}" using b by (simp_all add: busy_def nodes_ok_def tree_inv_def)
  have nt: "n \<in> target f i nm" by (rule key_target [OF ok(1) n])
  then obtain p where np: "(n, p) \<in> parent_rel (fn_heap f)" using target_key [OF ok(1) nt] by (auto simp: named_def)
  have "linked f (fst h)" using b h(1) by (simp add: busy_def lock_inv_def hold_ok_def)
  then obtain q' d ns r' where w: "fn_heap f q' = Some d" "nd_nodeid d = fst h" "walk (fn_heap f) q' ns r'" "at_root (fn_heap f) r'"
    by (auto simp: linked_def)
  have "q' = q" using ok(2) w(1,2) h(2,3) by (auto simp: ids_distinct_def)
  then have "n \<in> set ns" using walk_through [OF ok(3) np w(3,4)] r by simp
  moreover have "way f (fst h) = ns" using way_eq [OF ok(2) w(1,3,4)] w(2) by simp
  ultimately show False using c h(1) nt by (auto simp: clear_def)
qed

lemma serves_rename_node:
  assumes h: "h \<in> set hs" "fst h = j"
  shows "serves (\<lambda>f. busy hs f \<and> knows i f \<and> clear hs i nm f \<and> clear hs j nm' f \<and> removal_ok j nm' f \<and> few f)
    (on_nodes (\<lambda>f. rename_node f i nm j nm' False)) (\<lambda>_. busy hs)"
proof (rule serves_on_nodes)
  fix f
  assume f: "busy hs f \<and> knows i f \<and> clear hs i nm f \<and> clear hs j nm' f \<and> removal_ok j nm' f \<and> few f"
  have ok: "nodes_ok f" using f by (simp add: busy_def)
  obtain q1 p1 where q1: "fn_heap f q1 = Some p1" "nd_nlookup p1 \<noteq> 0" "nd_nodeid p1 = i" using f by (auto simp: knows_def)
  obtain q2 p2 where q2: "fn_heap f q2 = Some p2" "nd_nlookup p2 \<noteq> 0" "nd_nodeid p2 = j" using f by (auto simp: removal_ok_def knows_def)
  have rem: "remembered f (nd_nodeid p2) nm'" using f q2(3) by (simp add: removal_ok_def)
  have cyc: "(q2, n) \<notin> (parent_rel (fn_heap f))\<^sup>*" if "node_key (fn_heap f) n = Some (nd_nodeid p1, nm)" for n
    using clear_cycle [of hs f i nm h q2 p2 n] f h q1(3) q2 that by simp
  obtain err f' where r: "rename_node f i nm j nm' False = Inr (err, f')" "nodes_ok f'"
    using rename_node_ok [OF ok q1(1,2) q2(1,2) _ rem, of nm False] cyc q1(3) q2(3) f by auto
  have m: "moves (target f i nm \<union> target f j nm') f f'"
    using rename_moves [OF ok q1(1,2) q2(1,2) rem, of nm False err f'] r(1) q1(3) q2(3) by simp
  have "busy hs f'" by (rule busy_moves [OF _ r(2) m]) (use f in \<open>auto simp: clear_def\<close>)
  then show "\<exists>x f'. rename_node f i nm j nm' False = Inr (x, f') \<and> busy hs f'" using r(1) by blast
qed

abbreviation rename_pre :: "64 word \<Rightarrow> string \<Rightarrow> 64 word \<Rightarrow> string \<Rightarrow> fuse_nodes \<Rightarrow> bool" where
  "rename_pre i nm j nm' f \<equiv> (request_ok f i (Some nm) True \<and> request_ok f j (Some nm') True) \<and>
     knows i f \<and> removal_ok j nm' f \<and> hides j f"

lemma serves_rename_body:
  assumes h: "h \<in> set hs" "fst h = j"
    and R: "\<And>f. R f \<Longrightarrow> hide_pre hs j nm' f \<and> clear hs i nm f \<and> knows i f \<and> removal_ok j nm' f"
  shows "serves R (rename_body i nm j nm' path path') (\<lambda>_. busy hs)"
  unfolding rename_body_def
proof (rule serves_bind [where P = "\<lambda>_ f. hide_pre hs j nm' f \<and> clear hs i nm f \<and> knows i f \<and> removal_ok j nm' f"], goal_cases)
  case 1
  show ?case
    by (rule serves_conseq [OF serves_open_there [where R = "\<lambda>f. hide_pre hs j nm' f \<and> clear hs i nm f \<and> knows i f \<and> removal_ok j nm' f"]])
      (use R in auto)
next
  case (2 opn)
  let ?S = "\<lambda>f. busy hs f \<and> knows i f \<and> clear hs i nm f \<and> clear hs j nm' f \<and> removal_ok j nm' f \<and> few f"
  show ?case
  proof (rule serves_bind [where P = "\<lambda>err f. busy hs f \<and> (err = 0 \<longrightarrow> ?S f)"], goal_cases)
    case 1
    show ?case
    proof (cases opn)
      case True
      have "lasting (\<lambda>f. knows i f \<and> knows j f)" by (intro lasting_conj lasting_rules)
      from serves_hide [OF this, of hs j nm' i nm] show ?thesis
        using True by simp (rule serves_conseq, assumption,
          auto intro: gone_clear simp: busy_def removal_ok_def remembered_def gone_def)
    qed (auto intro: serves_ret simp: hides_def)
  next
    case (2 err)
    show ?case
    proof (rule serves_bind [where P = "\<lambda>_. busy hs"], goal_cases)
      case 1
      show ?case
      proof (cases "err = 0")
        case True
        then show ?thesis
          by simp (rule serves_then_nodes [OF quiet_fs(14) serves_conseq [OF serves_rename_node [OF h]]], auto)
      qed (auto intro: serves_ret)
    qed (auto intro: serves_ret)
  qed
qed

lemma serves_rename:
  "serves (\<lambda>f. busy [] f \<and> rename_pre i nm j nm' f \<and> paths_apart f i (Some nm) j (Some nm') True) (fuse_lib_rename i nm j nm') (\<lambda>_. busy [])"
  unfolding fuse_lib_rename_def
proof (rule serves_after [OF quiet_prepare], rule serves_err_only [where S = "\<lambda>_. True"],
    rule serves_two_paths [where R = "rename_pre i nm j nm'"], goal_cases)
  case 1
  show ?case by (intro tree_pred_conj) (simp_all add: lasting_tree)
next
  case (3 _ p1 p2 w1 w2)
  show ?case
    by (rule serves_conseq [OF serves_rename_body [where h = "(j, w2)" and hs = "[(j, w2), (i, w1)]" and
            R = "\<lambda>f. hide_pre [(j, w2), (i, w1)] j nm' f \<and> clear [(j, w2), (i, w1)] i nm f \<and> knows i f \<and> removal_ok j nm' f"]])
      (auto simp: removal_ok_def intro: locked_clear)
qed auto

end
