(* ===== verification/Lib_Open.thy ===== *)
theory Lib_Open
  imports Lib_Requests
begin

text \<open>
  Opening, creating and closing: how often a node is open is counted while its path is held, and a file
  whose reply the kernel does not take is closed and forgotten again.
\<close>

section \<open>What counting leaves alone\<close>

text \<open>A node changes in what neither the tree nor the locks depend on.\<close>

definition recounts :: "fnode \<Rightarrow> fnode \<Rightarrow> bool" where
  "recounts d d' \<longleftrightarrow> nd_nodeid d' = nd_nodeid d \<and> nd_parent d' = nd_parent d \<and> nd_name d' = nd_name d \<and> nd_refctr d' = nd_refctr d \<and>
     nd_nlookup d' = nd_nlookup d \<and> nd_treelock d' = nd_treelock d"

lemma put_recounts:
  assumes "busy hs f" "fn_heap f n = Some d" "recounts d d'"
  shows "busy hs (put_node n d' f)" "follows f (put_node n d' f)" "tree_view (fn_heap (put_node n d' f)) = tree_view (fn_heap f)"
proof -
  show v: "tree_view (fn_heap (put_node n d' f)) = tree_view (fn_heap f)"
    using assms(2,3) view_update [of "fn_heap f" n d d'] by (simp add: recounts_def)
  have ok: "nodes_ok (put_node n d' f)" using assms nodes_ok_put(1) [of f n d d'] by (simp add: busy_def recounts_def)
  have "locks (put_node n d' f) = locks f" using assms(2,3) by (auto simp: lock_of_def recounts_def fun_eq_iff)
  then have "lock_inv (put_node n d' f) hs"
    using assms(1) ok by (intro lock_inv_view [of f hs _ hs, OF _ _ v]) (simp_all only: busy_def nodes_ok_def lock_inv_def subset_refl, blast)
  then show "busy hs (put_node n d' f)" using ok by (simp add: busy_def)
  show "follows f (put_node n d' f)" using assms(2,3) by (auto simp: follows_def recounts_def)
qed

definition steady :: "(fuse_nodes \<Rightarrow> bool) \<Rightarrow> bool" where
  "steady P \<longleftrightarrow> (\<forall>hs f n d d'. busy hs f \<longrightarrow> fn_heap f n = Some d \<longrightarrow> recounts d d' \<longrightarrow> P f \<longrightarrow> P (put_node n d' f))"

lemma steadyD: "steady P \<Longrightarrow> busy hs f \<Longrightarrow> fn_heap f n = Some d \<Longrightarrow> recounts d d' \<Longrightarrow> P f \<Longrightarrow> P (put_node n d' f)"
  unfolding steady_def by blast

lemma abides_steady: "abides P \<Longrightarrow> steady P"
  unfolding steady_def using abidesD put_recounts(2) by blast

lemma steady_request: "steady (\<lambda>f. request_ok f i name wr)"
  unfolding steady_def using put_recounts(3) request_view by blast

lemma opened_ok: "opens_ok f \<Longrightarrow> is_node n i f \<Longrightarrow> \<exists>c. opened i c f \<and> 0 \<le> c \<and> c < INT_MAX"
  by (auto simp: opens_ok_def is_node_def opened_def)

text \<open>Counting an open file.\<close>

abbreviation may_open :: "64 word \<Rightarrow> fuse_nodes \<Rightarrow> bool" where
  "may_open i f \<equiv> \<exists>c. opened i c f \<and> 0 \<le> c \<and> c < INT_MAX"

abbreviation is_opened :: "64 word \<Rightarrow> fuse_nodes \<Rightarrow> bool" where
  "is_opened i f \<equiv> \<exists>c. opened i c f \<and> 0 < c \<and> c \<le> INT_MAX"

lemma ask_get_node:
  assumes "busy hs f" "opened i c f"
  shows "\<exists>n d. get_node f i = Inr n \<and> find_nd i f = Inr (n, d) \<and> fn_heap f n = Some d \<and> nd_nodeid d = i \<and> nd_open_count d = c"
proof -
  obtain n d where n: "fn_heap f n = Some d" "nd_nodeid d = i" "nd_open_count d = c" using assms(2) by (auto simp: opened_def)
  moreover have "get_node f i = Inr n" using get_node_ok(2) [of f "{}" n d] assms(1) n by (simp add: busy_def nodes_ok_def)
  ultimately show ?thesis by (simp add: find_nd_def node_def)
qed

lemma serves_change_node:
  assumes P: "steady P" and g: "\<And>f. R f \<Longrightarrow> busy hs f \<and> clock k f \<and> P f \<and> (\<exists>d d'. fn_heap f n = Some d \<and> g d = Inr d' \<and> recounts d d' \<and>
      nd_nodeid d' = i \<and> C (nd_open_count d'))"
  shows "serves R (change_node n g) (\<lambda>_ f. busy hs f \<and> clock k f \<and> P f \<and> (\<exists>c. opened i c f \<and> C c))"
  unfolding change_node_def
proof (rule serves_do_nodes)
  fix f
  assume "R f"
  then obtain d d' where d: "fn_heap f n = Some d" "g d = Inr d'" "recounts d d'" "nd_nodeid d' = i" "C (nd_open_count d')"
    and f: "busy hs f" "clock k f" "P f" using g by blast
  have "P (put_node n d' f)" by (rule steadyD [OF P f(1) d(1,3) f(3)])
  moreover have "opened i (nd_open_count d') (put_node n d' f)" using d(4) by (auto simp: opened_def)
  ultimately show "\<exists>f'. bind_res (node f n) (\<lambda>d. bind_res (g d) (\<lambda>d1. Inr (put_node n d1 f))) = Inr f' \<and>
      busy hs f' \<and> clock k f' \<and> P f' \<and> (\<exists>c. opened i c f' \<and> C c)"
    using d(1,2,5) f(2) put_recounts(1) [OF f(1) d(1,3)] by (intro exI [of _ "put_node n d' f"]) (auto simp: node_def clock_def)
qed

lemma serves_count_open:
  assumes P: "steady P"
  shows "serves (\<lambda>f. busy hs f \<and> clock k f \<and> P f \<and> may_open i f) (count_open i) (\<lambda>_ f. busy hs f \<and> clock k f \<and> P f \<and> is_opened i f)"
  unfolding count_open_def
proof (rule serves_bind [where P = "\<lambda>n f. busy hs f \<and> clock k f \<and> P f \<and>
    (\<exists>d. fn_heap f n = Some d \<and> nd_nodeid d = i \<and> 0 \<le> nd_open_count d \<and> nd_open_count d < INT_MAX)"], goal_cases)
  case 1
  show ?case
  proof (rule serves_ask_nodes)
    fix f
    assume f: "busy hs f \<and> clock k f \<and> P f \<and> may_open i f"
    then obtain c where c: "opened i c f" "0 \<le> c" "c < INT_MAX" by blast
    from ask_get_node [OF _ c(1)] f obtain n d where "get_node f i = Inr n" "fn_heap f n = Some d" "nd_nodeid d = i" "nd_open_count d = c"
      by blast
    then show "\<exists>n. get_node f i = Inr n \<and> busy hs f \<and> clock k f \<and> P f \<and>
        (\<exists>d. fn_heap f n = Some d \<and> nd_nodeid d = i \<and> 0 \<le> nd_open_count d \<and> nd_open_count d < INT_MAX)"
      using f c(2,3) by blast
  qed
next
  case (2 n)
  show ?case
  proof (rule serves_change_node [OF P, where C = "\<lambda>c. 0 < c \<and> c \<le> INT_MAX"], goal_cases)
    case (1 f)
    then obtain d where d: "fn_heap f n = Some d" "nd_nodeid d = i" "0 \<le> nd_open_count d" "nd_open_count d < INT_MAX" by blast
    then have "chk_int (nd_open_count d + 1) = Inr (nd_open_count d + 1)" by (simp add: chk_int_def int_defs)
    then show ?case
      using 1 d by (intro conjI exI [of _ d] exI [of _ "d\<lparr>nd_open_count := nd_open_count d + 1\<rparr>"]) (simp_all add: recounts_def)
  qed
qed

text \<open>Closing a file; a hidden one may go.\<close>

lemma serves_do_release_with:
  assumes P: "steady P" and u: "serves (\<lambda>f. busy hs f \<and> clock k f \<and> P f) (unlink_hidden i path :: (unit, 'w) lib) (\<lambda>_. Q)"
    and Q: "\<And>f. busy hs f \<and> clock k f \<and> P f \<Longrightarrow> Q f"
  shows "serves (\<lambda>f. busy hs f \<and> clock k f \<and> P f \<and> is_opened i f) (fuse_do_release i path fi :: (unit, 'w) lib) (\<lambda>_. Q)"
  unfolding fuse_do_release_def
proof (rule serves_after [OF quiet_ask], rule serves_after [OF quiet_fs(18)],
    rule serves_bind [where P = "\<lambda>(n, d) f. busy hs f \<and> clock k f \<and> P f \<and> fn_heap f n = Some d \<and> nd_nodeid d = i \<and> 0 < nd_open_count d"], goal_cases)
  case 1
  show ?case
  proof (rule serves_ask_nodes)
    fix f
    assume f: "busy hs f \<and> clock k f \<and> P f \<and> is_opened i f"
    then obtain c where c: "opened i c f" "0 < c" by blast
    from ask_get_node [OF _ c(1)] f obtain n d where "find_nd i f = Inr (n, d)" "fn_heap f n = Some d" "nd_nodeid d = i" "nd_open_count d = c"
      by blast
    then show "\<exists>x. find_nd i f = Inr x \<and> (case x of (n, d) \<Rightarrow> \<lambda>f. busy hs f \<and> clock k f \<and> P f \<and> fn_heap f n = Some d \<and>
        nd_nodeid d = i \<and> 0 < nd_open_count d) f"
      using f c(2) by auto
  qed
next
  case (2 _ _ x)
  obtain n d where x: "x = (n, d)" by (cases x)
  let ?R = "\<lambda>f. busy hs f \<and> clock k f \<and> P f \<and> fn_heap f n = Some d \<and> nd_nodeid d = i"
  have r: "serves ?R (change_node n (\<lambda>d. Inr (d\<lparr>nd_open_count := nd_open_count d - 1, nd_is_hidden := (if gone then False else nd_is_hidden d)\<rparr>)))
      (\<lambda>_ f. busy hs f \<and> clock k f \<and> P f \<and> (\<exists>c. opened i c f \<and> True))" for gone
    by (rule serves_change_node [OF P]) (auto simp: recounts_def)
  have s: "serves (\<lambda>f. busy hs f \<and> clock k f \<and> P f \<and> (\<exists>c. opened i c f \<and> True))
      (if g then unlink_hidden i path else ret_lib () :: (unit, 'w) lib) (\<lambda>_. Q)" for g
    using u Q by (cases g) (auto intro!: serves_ret elim: serves_conseq)
  show ?case
    unfolding x prod.case
  proof (rule serves_pre [where A = "0 < nd_open_count d"], goal_cases)
    case A: 2
    show ?case
      unfolding Let_def
      by (use A in \<open>simp only: guard_res_simps bind_lift\<close>) (rule serves_conseq [OF serves_bind [OF r s]], simp_all)
  qed simp
qed

lemma serves_do_release:
  assumes P: "steady P"
  shows "serves (\<lambda>f. busy hs f \<and> clock k f \<and> P f \<and> is_opened i f) (fuse_do_release i (Some p) fi) (\<lambda>_ f. busy hs f \<and> clock k f \<and> P f)"
proof (rule serves_do_release_with [OF P])
  have "quiet (unlink_hidden i (Some p))" unfolding unlink_hidden_def option.case by (intro quiet_rules quiet_fs)
  then show "serves (\<lambda>f. busy hs f \<and> clock k f \<and> P f) (unlink_hidden i (Some p)) (\<lambda>_ f. busy hs f \<and> clock k f \<and> P f)"
    by (rule serves_quiet)
qed

section \<open>Opening a file\<close>

lemma serves_curr_time:
  assumes "persists P"
  shows "serves (\<lambda>f. busy hs f \<and> clock (Suc k) f \<and> P f) (on_nodes curr_time) (\<lambda>_ f. busy hs f \<and> clock k f \<and> P f)"
proof (rule serves_on_nodes)
  fix f
  assume f: "busy hs f \<and> clock (Suc k) f \<and> P f"
  then obtain t ts where t: "fn_clock f = t # ts" "k \<le> length ts" by (cases "fn_clock f") (auto simp: clock_def)
  let ?f = "f\<lparr>fn_clock := ts\<rparr>"
  have m: "moves {} f ?f" by (rule moves_same) simp
  have "nodes_ok ?f" using f by (simp add: busy_def nodes_ok_def tree_defs)
  then have "busy hs ?f" using f m busy_moves [of hs f ?f "{}"] by simp
  moreover have "P ?f" using persistsD [OF assms m] f by blast
  ultimately show "\<exists>x f'. curr_time f = Inr (x, f') \<and> busy hs f' \<and> clock k f' \<and> P f'"
    using t by (auto simp: curr_time_def clock_def)
qed

abbreviation open_mid :: "path_hold list \<Rightarrow> nat \<Rightarrow> 64 word \<Rightarrow> nat \<Rightarrow> fuse_nodes \<Rightarrow> bool" where
  "open_mid hs k i n f \<equiv> busy hs f \<and> clock k f \<and> is_node n i f \<and> may_open i f"

lemma lasting_may_open: "lasting (\<lambda>f. may_open i f)"
  by (intro lasting_ex lasting_conj lasting_rules)

lemma open_mid_node:
  assumes "open_mid hs k i n f"
  shows "\<exists>d. fn_heap f n = Some d \<and> nd_nodeid d = i \<and> 0 \<le> nd_open_count d \<and> nd_open_count d < INT_MAX"
proof -
  obtain d where d: "fn_heap f n = Some d" "nd_nodeid d = i" using assms by (auto simp: is_node_def)
  obtain m e where e: "fn_heap f m = Some e" "nd_nodeid e = i" "0 \<le> nd_open_count e" "nd_open_count e < INT_MAX"
    using assms by (auto simp: opened_def)
  have "ids_distinct (fn_heap f)" using assms by (simp add: busy_def nodes_ok_def tree_inv_def)
  then have "m = n" using d e(1,2) by (auto simp: ids_distinct_def)
  then show ?thesis using d e by auto
qed

lemma serves_set_valid:
  "serves (open_mid hs k i n) (change_node n (\<lambda>d. Inr (d\<lparr>nd_cache_valid := v\<rparr>))) (\<lambda>_. open_mid hs k i n)"
proof (rule serves_change_node [OF abides_steady, of "is_node n i" "open_mid hs k i n" hs k n _ i "\<lambda>c. 0 \<le> c \<and> c < INT_MAX"], goal_cases)
  case (2 f)
  then show ?case using open_mid_node [OF 2] by (auto simp: recounts_def)
qed simp

lemma serves_recheck: "serves (open_mid hs (Suc k) i n) (recheck_cache n path fi) (\<lambda>_. open_mid hs k i n)"
  unfolding recheck_cache_def
proof (rule serves_after [OF quiet_fs(2)], intro serves_split, rule serves_bind [where P = "\<lambda>_. open_mid hs k i n"], goal_cases)
  case (1 _ err _ st fi1)
  show ?case
  proof (cases "err = 0")
    case True
    then show ?thesis using serves_update_stat [OF lasting_persists [OF lasting_may_open [of i]], of hs k n i st] by simp
  next
    case False
    then show ?thesis by simp (rule serves_conseq [OF serves_set_valid], auto intro: clock_le)
  qed
qed (auto intro: serves_ret)

lemma serves_auto_cache:
  "serves (open_mid hs (Suc (Suc 0)) i n) (open_auto_cache i path fi) (\<lambda>_ f. busy hs f \<and> may_open i f)"
  unfolding open_auto_cache_def
proof (rule serves_bind [OF serves_get_nd [where hs = hs]], goal_cases)
  case (2 x)
  obtain m d where x: "x = (m, d)" by (cases x)
  have m: "lasting (\<lambda>f. is_node m i f \<and> may_open i f)" by (intro lasting_conj lasting_rules lasting_may_open)
  show ?case
    unfolding x prod.case
  proof (rule serves_bind [where P = "\<lambda>_. open_mid hs 0 i m"], goal_cases)
    case 1
    show ?case
    proof (cases "nd_cache_valid d")
      case True
      have "serves (open_mid hs (Suc (Suc 0)) i m)
        (bind_lib (on_nodes curr_time) (\<lambda>now.
         bind_lib (ask_lib (\<lambda>s. cf_ac_attr_timeout (fz_conf s))) (\<lambda>timeout.
           if diff_timespec now (nd_stat_updated d) > timeout then recheck_cache m path fi else ret_lib fi)))
        (\<lambda>_. open_mid hs 0 i m)"
        by (rule serves_bind [OF serves_curr_time [OF lasting_persists [OF m]]], rule serves_after [OF quiet_ask])
          (auto intro!: serves_recheck serves_ret intro: clock_le)
      then show ?thesis using True by simp (erule serves_conseq, auto)
    qed (auto intro!: serves_ret intro: clock_le)
  next
    case (2 fi1)
    show ?case
    proof (rule serves_bind [where P = "\<lambda>_. open_mid hs 0 i m"], goal_cases)
      case 1
      show ?case by (rule serves_ask_nodes) (use ask_node_ok in blast)
    next
      case (2 d1)
      show ?case by (rule serves_bind [OF serves_set_valid]) (auto intro: serves_ret)
    qed
  qed
qed auto

abbreviation open_pre :: "64 word \<Rightarrow> fuse_nodes \<Rightarrow> bool" where
  "open_pre i f \<equiv> request_ok f i None False \<and> clock (Suc (Suc 0)) f \<and> may_open i f"

lemma serves_free_one: "serves (busy [(i, None)]) (free_one i (Some p, None)) (\<lambda>_. busy [])"
  using serves_unlock [of "\<lambda>_. True" "[]" i None] by (simp add: free_one_eq)

lemma serves_open_body:
  "serves (\<lambda>f. busy hs f \<and> open_pre i f) (open_body i fi p) (\<lambda>_ f. busy hs f \<and> may_open i f)"
  unfolding open_body_def
proof (rule serves_after [OF quiet_fs(17)], rule serves_split)
  fix err fi1
  have "serves (\<lambda>f. busy hs f \<and> open_pre i f)
      (if cf_auto_cache conf then open_auto_cache i (Some p) (cache_flags conf fi1) else ret_lib (cache_flags conf fi1))
      (\<lambda>_ f. busy hs f \<and> may_open i f)" for conf
  proof (cases "cf_auto_cache conf")
    case True
    have "\<exists>n. open_mid hs (Suc (Suc 0)) i n f" if "busy hs f \<and> open_pre i f" for f
      using that request_is_node [of f i None False] by blast
    then show ?thesis
      using True serves_auto_cache [where hs = hs and i = i and path = "Some p" and fi = "cache_flags conf fi1"] unfolding serves_def by simp blast
  qed (auto intro: serves_ret)
  then show "serves (\<lambda>f. busy hs f \<and> open_pre i f)
    (if err \<noteq> 0 then ret_lib (err, fi1)
     else bind_lib (ask_lib fz_conf) (\<lambda>conf. bind_lib
           (if cf_auto_cache conf then open_auto_cache i (Some p) (cache_flags conf fi1) else ret_lib (cache_flags conf fi1))
           (\<lambda>fi2. ret_lib (0, fi2))))
    (\<lambda>_ f. busy hs f \<and> may_open i f)"
    by (auto intro!: serves_after [OF quiet_ask] serves_ret serves_bind [where P = "\<lambda>_ f. busy hs f \<and> may_open i f"])
qed

text \<open>The reply; a file that the kernel does not want to have open is closed.\<close>

lemma quiet_reply_open: "quiet (fuse_reply_open fi)" "quiet (fuse_reply_create e fi)"
  by (simp_all add: fuse_reply_open_def fuse_reply_create_def quiet_send)

lemma serves_open_reply:
  "serves (\<lambda>f. busy hs f \<and> may_open i f)
    (bind_lib (count_open i) (\<lambda>_. bind_lib (fuse_reply_open fi) (\<lambda>r.
       if r = - ENOENT then fuse_do_release i (Some p) fi else ret_lib ()))) (\<lambda>_. busy hs)"
proof (rule serves_bind [where P = "\<lambda>_ f. busy hs f \<and> clock 0 f \<and> True \<and> is_opened i f"], goal_cases)
  case 1
  show ?case by (rule serves_conseq [OF serves_count_open [OF abides_steady, of "\<lambda>_. True" hs 0 i]]) (auto simp: clock_def)
next
  case (2 x)
  show ?case
  proof (rule serves_after [OF quiet_reply_open(1)], goal_cases)
    case (1 r)
    have "serves (\<lambda>f. busy hs f \<and> clock 0 f \<and> True \<and> is_opened i f) (fuse_do_release i (Some p) fi) (\<lambda>_. busy hs)"
      by (rule serves_conseq [OF serves_do_release [OF abides_steady, of "\<lambda>_. True" hs 0 i p fi]]) auto
    then show ?case by (auto intro: serves_ret)
  qed
qed

lemma serves_open: "serves (\<lambda>f. busy [] f \<and> open_pre i f) (fuse_lib_open i fi) (\<lambda>_. busy [])"
  unfolding fuse_lib_open_def lib_path_common
proof (rule serves_after [OF quiet_prepare], rule serves_bind [OF serves_get_path], goal_cases)
  case (1 _)
  show ?case by (intro tree_pred_conj lasting_tree [OF lasting_may_open]) simp_all
next
  case (3 _ x)
  obtain err0 path w where x: "x = (err0, path, w)" by (cases x) auto
  show ?case
  proof (cases "err0 = 0 \<and> path \<noteq> None \<and> w = None")
    case True
    then obtain p where p: "x = (0, Some p, None)" using x by auto
    have "serves (\<lambda>f. busy [(i, None)] f \<and> open_pre i f) (need_path (open_body i fi) (Some p, None)) (\<lambda>_ f. busy [(i, None)] f \<and> may_open i f)"
      by (rule serves_need) (rule serves_open_body)
    then have "serves (\<lambda>f. busy [(i, None)] f \<and> open_pre i f)
      (bind_lib (need_path (open_body i fi) (Some p, None)) (\<lambda>(err, fi1).
       bind_lib
         (if err \<noteq> 0 then reply_err err
          else bind_lib (count_open i) (\<lambda>_. bind_lib (fuse_reply_open fi1) (\<lambda>r.
              if r = - ENOENT then fuse_do_release i (Some p) fi1 else ret_lib ())))
         (\<lambda>_. free_one i (Some p, None)))) (\<lambda>_. busy [])"
      by (rule serves_bind, intro serves_split serves_bind [where P = "\<lambda>_. busy [(i, None)]"])
        (use serves_open_reply in \<open>auto intro!: serves_free_one intro: serves_quiet [OF quiet_reply_err]\<close>)
    then show ?thesis unfolding p by simp (erule serves_conseq, auto)
  next
    case False
    show ?thesis
    proof (cases "err0 = 0")
      case True
      then show ?thesis using x False by (auto simp: serves_def)
    next
      case err: False
      have "serves (busy []) (bind_lib (reply_err err0) (\<lambda>_. free_one i (None, None))) (\<lambda>_. busy [])"
        by (intro serves_quiet quiet_bind quiet_reply_err quiet_free_none)
      then have "serves (\<lambda>f. busy [] f \<and> path = None \<and> w = None) (bind_lib (reply_err err0) (\<lambda>_. free_one i (path, w))) (\<lambda>_. busy [])"
        by (cases "path = None \<and> w = None") (auto simp: serves_def)
      then show ?thesis using err unfolding x prod.case by (simp add: bind_ret) (erule serves_conseq, simp_all)
    qed
  qed
qed auto

section \<open>Closing a file\<close>

lemma quiet_flush: "quiet (fuse_flush_common i path fi)"
  unfolding fuse_flush_common_def
proof (rule quiet_bind [OF quiet_fs(19)], goal_cases)
  case (1 x)
  obtain err fi1 where x: "x = (err, fi1)" by (cases x)
  have l: "serves R (on_fs (\<lambda>fs. fuse_fs_lock fs path fi1 F_SETLK unlock_all)) (\<lambda>x f. fst x = - ENOSYS \<and> R f)" for R
    unfolding serves_def
  proof (intro allI impI)
    fix s :: "'w fuse"
    assume s: "fz_lockq s = []" "fs_total (fz_fs s)" "R (fz_nodes s)"
    then show "\<exists>x s'. on_fs (\<lambda>fs. fuse_fs_lock fs path fi1 F_SETLK unlock_all) s = Inr (x, s') \<and> fz_lockq s' = [] \<and> fz_fs s' = fz_fs s \<and>
        fst x = - ENOSYS \<and> R (fz_nodes s')"
      using fs_totalD(22) [OF s(2)] by (simp add: on_fs_def fuse_fs_lock_def)
  qed
  show ?case
    unfolding x prod.case by (rule quiet_bind_result [OF l]) (auto intro: quiet_ret)
qed

lemma serves_flush: "serves (\<lambda>f. busy [] f \<and> request_ok f i None False) (fuse_lib_flush i fi) (\<lambda>_. busy [])"
  unfolding fuse_lib_flush_def
proof (rule serves_after [OF quiet_prepare], rule serves_bind [OF serves_nullok_path [OF tree_pred_request]], goal_cases)
  case (2 _ x)
  obtain err path w where x: "x = (err, path, w)" by (cases x) auto
  have n: "quiet (bind_lib (fuse_flush_common i path fi) (\<lambda>(err, _). bind_lib (free_one i (None, w)) (\<lambda>_. reply_err err)))"
    by (auto intro!: quiet_bind quiet_flush quiet_free_none quiet_reply_err)
  have p: "serves (busy [(i, None)]) (bind_lib (fuse_flush_common i path fi) (\<lambda>(err, _). bind_lib (free_one i (Some p, None)) (\<lambda>_. reply_err err)))
    (\<lambda>_. busy [])" for p
    by (rule serves_after [OF quiet_flush], rule serves_split, rule serves_bind [OF serves_free_one], rule serves_quiet [OF quiet_reply_err])
  show ?case
  proof (cases path)
    case None
    then show ?thesis unfolding x using n by (auto intro!: serves_quiet split: if_splits)
  next
    case (Some q)
    have "serves (\<lambda>f. busy [(i, None)] f \<and> w = None)
      (bind_lib (fuse_flush_common i path fi) (\<lambda>(err, _). bind_lib (free_one i (path, w)) (\<lambda>_. reply_err err))) (\<lambda>_. busy [])"
      using p [of q] Some by (cases w) (auto simp: serves_def)
    then show ?thesis unfolding x prod.case by (rule serves_conseq) (use Some in auto)
  qed
qed

lemma serves_fsync: "serves (\<lambda>f. busy [] f \<and> request_ok f i None False) (fuse_lib_fsync i k fi) (\<lambda>_. busy [])"
  unfolding fuse_lib_fsync_def nullok_request_def
  by (rule serves_after [OF quiet_prepare], rule serves_err_only, rule serves_quiet_nullok [OF tree_pred_request])
    (auto intro: quiet_file_op quiet_fs)

text \<open>Without the path, it is looked for again to remove a hidden file.\<close>

lemma serves_unlink_hidden_none:
  "serves (\<lambda>f. busy [] f \<and> request_ok f i None False) (unlink_hidden i None) (\<lambda>_. busy [])"
  unfolding unlink_hidden_def option.case
proof (rule serves_after [OF quiet_ask], goal_cases)
  case (1 conf)
  have "serves (\<lambda>f. busy [] f \<and> request_ok f i None False)
    (bind_lib (lib_path i) (\<lambda>(err, p, w).
       bind_lib (if err = 0 then path_op fuse_fs_unlink (p, w) else ret_lib (0, ())) (\<lambda>_. free_one i (p, w)))) (\<lambda>_. busy [])"
    unfolding lib_path_common
  proof (rule serves_bind [OF serves_get_path [OF tree_pred_request]], goal_cases)
    case (2 x)
    obtain err path w where x: "x = (err, path, w)" by (cases x) auto
    show ?case
    proof (cases "err = 0 \<and> path \<noteq> None \<and> w = None")
      case True
      then obtain p where p: "x = (0, Some p, None)" using x by auto
      have "serves (busy [(i, None)]) (bind_lib (path_op fuse_fs_unlink (Some p, None)) (\<lambda>_. free_one i (Some p, None))) (\<lambda>_. busy [])"
        by (rule serves_after [OF quiet_path_op [OF quiet_fs(12)]]) (rule serves_free_one)
      then show ?thesis unfolding p by simp (erule serves_conseq, auto)
    next
      case False
      have "serves (\<lambda>f. busy [] f \<and> err \<noteq> 0 \<and> path = None \<and> w = None)
        (bind_lib (if err = 0 then path_op fuse_fs_unlink (path, w) else ret_lib (0, ())) (\<lambda>_. free_one i (path, w))) (\<lambda>_. busy [])"
        by (rule serves_pre [where A = "err \<noteq> 0 \<and> path = None \<and> w = None"])
          (auto simp: bind_ret intro: serves_quiet [OF quiet_free_none])
      then show ?thesis unfolding x prod.case by (rule serves_conseq) (use False in \<open>auto split: if_splits\<close>)
    qed
  qed
  then show ?case by (auto intro: serves_ret)
qed

abbreviation release_pre :: "64 word \<Rightarrow> fuse_nodes \<Rightarrow> bool" where
  "release_pre i f \<equiv> request_ok f i None False \<and> is_opened i f"

lemma serves_close:
  "serves (\<lambda>f. busy [(i, None)] f \<and> release_pre i f) (fuse_do_release i (Some p) fi) (\<lambda>_. busy [(i, None)])"
  "serves (\<lambda>f. busy [] f \<and> release_pre i f) (fuse_do_release i None fi) (\<lambda>_. busy [])"
proof -
  show "serves (\<lambda>f. busy [(i, None)] f \<and> release_pre i f) (fuse_do_release i (Some p) fi) (\<lambda>_. busy [(i, None)])"
    by (rule serves_conseq [OF serves_do_release [OF steady_request, where k = 0]]) (auto simp: clock_def)
  have "serves (\<lambda>f. busy [] f \<and> clock 0 f \<and> request_ok f i None False \<and> is_opened i f) (fuse_do_release i None fi) (\<lambda>_. busy [])"
    by (rule serves_do_release_with [OF steady_request]) (auto intro: serves_conseq [OF serves_unlink_hidden_none])
  then show "serves (\<lambda>f. busy [] f \<and> release_pre i f) (fuse_do_release i None fi) (\<lambda>_. busy [])"
    by (rule serves_conseq) (auto simp: clock_def)
qed

lemma lasting_is_opened: "lasting (\<lambda>f. is_opened i f)"
  by (intro lasting_ex lasting_conj lasting_rules)

lemma serves_release: "serves (\<lambda>f. busy [] f \<and> release_pre i f) (fuse_lib_release i fi) (\<lambda>_. busy [])"
  unfolding fuse_lib_release_def
proof (rule serves_after [OF quiet_prepare], rule serves_bind [OF serves_nullok_path [where R = "release_pre i"]], goal_cases)
  case 1
  show ?case by (intro tree_pred_conj lasting_tree [OF lasting_is_opened]) simp_all
next
  case (3 _ x)
  obtain err path w where x: "x = (err, path, w)" by (cases x) auto
  have q: "quiet (if fi_flush fi then bind_lib (fuse_flush_common i path fi) (\<lambda>(err, fi1). ret_lib (if err = - ENOSYS then 0 else err, fi1))
      else ret_lib (0, fi))"
    by (auto intro!: quiet_bind quiet_flush quiet_ret)
  show ?case
    unfolding x prod.case
  proof (rule serves_after [OF q], rule serves_split, cases path, goal_cases)
    case (1 _ err1 fi1)
    have "serves (\<lambda>f. busy [] f \<and> release_pre i f)
      (bind_lib (fuse_do_release i None fi1) (\<lambda>_. bind_lib (free_one i (None, w)) (\<lambda>_. reply_err err1))) (\<lambda>_. busy [])"
      by (rule serves_bind [OF serves_close(2)]) (intro serves_quiet quiet_bind quiet_free_none quiet_reply_err)
    then show ?case unfolding 1 by (rule serves_conseq) auto
  next
    case (2 _ err1 fi1 p)
    have "serves (\<lambda>f. busy [(i, None)] f \<and> release_pre i f)
      (bind_lib (fuse_do_release i (Some p) fi1) (\<lambda>_. bind_lib (free_one i (Some p, None)) (\<lambda>_. reply_err err1))) (\<lambda>_. busy [])"
      by (rule serves_bind [OF serves_close(1)], rule serves_bind [OF serves_free_one], rule serves_quiet [OF quiet_reply_err])
    then show ?case
      unfolding 2 by (cases w) (auto simp: serves_def)
  qed
qed auto

section \<open>Creating a file\<close>

text \<open>The kernel knows a directory and everything above it.\<close>

definition home :: "64 word \<Rightarrow> nat \<Rightarrow> fuse_nodes \<Rightarrow> bool" where
  "home i q f \<longleftrightarrow> is_node q i f \<and> (\<forall>x. (q, x) \<in> (parent_rel (fn_heap f))\<^sup>* \<longrightarrow> known_node f x)"

lemma abides_home [intro, simp]: "abides (home i q)"
  unfolding abides_def
proof (intro allI impI)
  fix f f'
  assume f: "follows f f'" "home i q f"
  have up: "(q, x) \<in> (parent_rel (fn_heap f))\<^sup>*" if "(q, x) \<in> (parent_rel (fn_heap f'))\<^sup>*" for x
    using that
  proof (induction rule: rtrancl_induct)
    case (step y z)
    then have "known_node f y" using f(2) by (simp add: home_def)
    then obtain d where d: "fn_heap f y = Some d" by (auto simp: known_node_def)
    then obtain d' where "fn_heap f' y = Some d'" "nd_parent d' = nd_parent d" using f(1) by (fastforce simp: follows_def)
    then have "(y, z) \<in> parent_rel (fn_heap f)" using step.hyps(2) d by (auto simp: parent_rel_def)
    with step.IH show ?case by (rule rtrancl_into_rtrancl)
  qed simp
  have "known_node f' x" if "known_node f x" for x
    using that f(1) by (fastforce simp: known_node_def follows_def)
  then show "home i q f'" using up f abidesD [OF abides_rules(1) f(1)] by (simp add: home_def)
qed

abbreviation created :: "64 word \<Rightarrow> string \<Rightarrow> 64 word \<Rightarrow> fuse_nodes \<Rightarrow> bool" where
  "created i nm j f \<equiv> known_at i nm j f \<and> (\<exists>q. home i q f)"

lemma abides_created: "abides (created i nm j)"
  by (intro abides_conj abides_ex abides_known_at abides_home)

lemma forget_below:
  assumes b: "busy [(i, None)] f" "clock (Suc 0) f" and c: "created i nm j f"
  shows "\<exists>f'. forget_node f j 1 = Inr f' \<and> busy [(i, None)] f'"
proof -
  obtain q qd where q: "fn_heap f q = Some qd" "nd_nodeid qd = i" "\<And>x. (q, x) \<in> (parent_rel (fn_heap f))\<^sup>* \<Longrightarrow> known_node f x"
    using c by (auto simp: home_def is_node_def)
  obtain n d where n: "fn_heap f n = Some d" "nd_nodeid d = j" "nd_nlookup d \<noteq> 0" "node_key (fn_heap f) n = Some (i, nm)"
    using c by (auto simp: known_at_def)
  have ok: "nodes_ok f" "ids_distinct (fn_heap f)" "acyclic (parent_rel (fn_heap f))" using b by (simp_all add: busy_def nodes_ok_def tree_inv_def)
  obtain p pd where p: "nd_parent d = Some p" "fn_heap f p = Some pd" "nd_nodeid pd = i"
    using n(1,4) by (auto simp: node_key_def split: option.splits)
  have "p = q" using ok(2) p(2,3) q(1,2) by (auto simp: ids_distinct_def)
  then have nq: "(n, q) \<in> parent_rel (fn_heap f)" using n(1) p(1) by (auto simp: parent_rel_def)
  have above: "x \<noteq> n" if "(q, x) \<in> (parent_rel (fn_heap f))\<^sup>*" for x
    using ok(3) nq that by (auto simp: acyclic_def dest: rtrancl_into_trancl2)
  have h: "linked f i" "counted (locks f) [(way f i, None)]" using b by (simp_all add: busy_def lock_inv_def hold_ok_def holder_of_def)
  then obtain m e ns r where w: "fn_heap f m = Some e" "nd_nodeid e = i" "walk (fn_heap f) m ns r" "at_root (fn_heap f) r"
    by (auto simp: linked_def)
  have "m = q" using ok(2) w(1,2) q(1,2) by (auto simp: ids_distinct_def)
  then have way: "x \<in> set (way f i) \<Longrightarrow> (q, x) \<in> (parent_rel (fn_heap f))\<^sup>*" for x
    using way_eq [OF ok(2) w(1,3,4)] w(2) walk_rel(2) [OF w(3)] by auto
  have free: "locks f x = 0" if "x \<notin> set (way f i)" for x
    using h(2) that unfolding counted_def by (auto simp: lock_state_def dest!: spec [of _ x])
  have "1 \<le> nd_nlookup d" using n(3) by (simp add: word_le_nat_alt unat_gt_0 Suc_leI)
  moreover have "lock_free (fn_heap f)"
    unfolding lock_free_def
  proof (intro allI impI)
    fix x y
    assume x: "fn_heap f x = Some y" "nd_nlookup y = 0"
    then have "x \<notin> set (way f i)" using way q(3) by (fastforce simp: known_node_def)
    then show "nd_treelock y = 0" using free [of x] x(1) by (simp add: lock_of_def)
  qed
  moreover have "n \<notin> set (way f i)" using above way by blast
  then have "nd_treelock d = 0" using free [of n] n(1) by (simp add: lock_of_def)
  moreover have "x = q" if "fn_heap f x = Some y" "nd_nodeid y = i" for x y
    using ok(2) that q(1,2) by (auto simp: ids_distinct_def)
  then have "nd_nlookup y \<noteq> 0 \<and> x \<noteq> n" if "fn_heap f x = Some y" "nd_nodeid y = i" for x y
    using that above [of q] q(3) [of q] by (auto simp: known_node_def)
  ultimately have "\<exists>f'. forget_node f (nd_nodeid d) 1 = Inr f' \<and> nodes_ok f' \<and> lock_inv f' [(i, None)]"
    using b n(1) way q(3) above by (intro forget_hold [OF ok(1) _ n(1)]) (auto simp: busy_def clock_def)
  then show ?thesis using n(2) by (auto simp: busy_def)
qed

abbreviation create_pre :: "64 word \<Rightarrow> string \<Rightarrow> fuse_nodes \<Rightarrow> bool" where
  "create_pre i nm f \<equiv> request_ok f i (Some nm) False \<and> clock (Suc (Suc 0)) f \<and> may_make f \<and> opens_ok f \<and> (\<exists>q. home i q f)"

abbreviation create_mid :: "64 word \<Rightarrow> string \<Rightarrow> int \<Rightarrow> entry_param \<Rightarrow> fuse_nodes \<Rightarrow> bool" where
  "create_mid i nm err e f \<equiv> err = 0 \<longrightarrow> clock (Suc 0) f \<and> created i nm (en_ino e) f \<and> opens_ok f"

lemma home_node: "home i q f \<Longrightarrow> is_node q i f"
  by (simp add: home_def)

lemma serves_release_after:
  "(\<And>f. R f \<Longrightarrow> Q x f) \<Longrightarrow> serves R (release_after path fi x) Q"
  unfolding release_after_def by (rule serves_after [OF quiet_fs(18)]) (rule serves_ret)

lemma serves_not_regular:
  "serves (\<lambda>f. busy [(i, None)] f \<and> clock (Suc 0) f \<and> created i nm (en_ino e) f)
    (bind_lib (release_after path fi2 (- EIO, e, fi2)) (\<lambda>x. bind_lib (do_nodes (\<lambda>f. forget_node f (en_ino e) 1)) (\<lambda>_. ret_lib x)))
    (\<lambda>x f. busy [(i, None)] f \<and> x = (- EIO, e, fi2))"
proof (rule serves_bind [where P = "\<lambda>x f. x = (- EIO, e, fi2) \<and> busy [(i, None)] f \<and> clock (Suc 0) f \<and> created i nm (en_ino e) f"])
  fix x
  show "serves (\<lambda>f. x = (- EIO, e, fi2) \<and> busy [(i, None)] f \<and> clock (Suc 0) f \<and> created i nm (en_ino e) f)
    (bind_lib (do_nodes (\<lambda>f. forget_node f (en_ino e) 1)) (\<lambda>_. ret_lib x)) (\<lambda>x f. busy [(i, None)] f \<and> x = (- EIO, e, fi2))"
  proof (rule serves_bind [where P = "\<lambda>_ f. x = (- EIO, e, fi2) \<and> busy [(i, None)] f"])
    show "serves (\<lambda>f. x = (- EIO, e, fi2) \<and> busy [(i, None)] f \<and> clock (Suc 0) f \<and> created i nm (en_ino e) f)
      (do_nodes (\<lambda>f. forget_node f (en_ino e) 1)) (\<lambda>_ f. x = (- EIO, e, fi2) \<and> busy [(i, None)] f)"
      by (rule serves_do_nodes) (use forget_below in blast)
  qed (auto intro: serves_ret)
qed (auto intro: serves_release_after)

lemma serves_create_body:
  "serves (\<lambda>f. busy [(i, None)] f \<and> create_pre i nm f) (create_body i nm mode fi path :: (_, 'w) lib)
    (\<lambda>(err, e, fi1) f. busy [(i, None)] f \<and> create_mid i nm err e f)"
  unfolding create_body_def
proof (rule serves_after [OF quiet_fs(16)], rule serves_split)
  fix err fi1
  let ?Q = "\<lambda>(err, e, fi1) f. busy [(i, None)] f \<and> create_mid i nm err e f"
  have eio: "EIO \<noteq> 0" by (simp add: errno_defs)
  have P: "persists (\<lambda>f. opens_ok f \<and> (\<exists>q. home i q f))"
    by (intro persists_conj lasting_persists [OF lasting_opens] abides_persists abides_ex abides_home)
  have "serves (\<lambda>f. busy [(i, None)] f \<and> create_pre i nm f)
    (bind_lib (lookup_path i (Some nm) path (Some fi1)) (\<lambda>(err1, e, r).
       let fi2 = (case r of None \<Rightarrow> fi1 | Some i \<Rightarrow> i) in
       if err1 \<noteq> 0 then release_after path fi2 (err1, e, fi2)
       else if st_mode (en_attr e) AND S_IFMT \<noteq> S_IFREG
       then bind_lib (release_after path fi2 (- EIO, e, fi2)) (\<lambda>x.
            bind_lib (do_nodes (\<lambda>f. forget_node f (en_ino e) 1)) (\<lambda>_. ret_lib x))
       else bind_lib (ask_lib fz_conf) (\<lambda>conf. ret_lib (0, e, cache_flags conf fi2))) :: (_, 'w) lib) ?Q"
  proof (rule serves_bind [where P = "\<lambda>(err1, e, r) f. busy [(i, None)] f \<and> clock (Suc 0) f \<and> entry_at i nm err1 e f \<and>
      opens_ok f \<and> (\<exists>q. home i q f)"], goal_cases)
    case 1
    show ?case
      by (rule serves_conseq [OF serves_lookup_path [OF P, of "[(i, None)]" "Suc 0" i nm path "Some fi1"]]) (auto intro: home_node)
  next
    case (2 x)
    obtain err1 e r where x: "x = (err1, e, r)" by (cases x) auto
    let ?fi = "case r of None \<Rightarrow> fi1 | Some i \<Rightarrow> i"
    show ?case
    proof (cases "err1 = 0")
      case False
      then show ?thesis unfolding x by (auto simp: Let_def intro!: serves_release_after)
    next
      case True
      then have e: "(err1 \<noteq> 0) = False" by simp
      have "serves (\<lambda>f. busy [(i, None)] f \<and> clock (Suc 0) f \<and> created i nm (en_ino e) f \<and> opens_ok f)
         (if st_mode (en_attr e) AND S_IFMT \<noteq> S_IFREG
          then bind_lib (release_after path ?fi (- EIO, e, ?fi)) (\<lambda>x.
               bind_lib (do_nodes (\<lambda>f. forget_node f (en_ino e) 1)) (\<lambda>_. ret_lib x))
          else bind_lib (ask_lib fz_conf) (\<lambda>conf. ret_lib (0, e, cache_flags conf ?fi)) :: (_, 'w) lib) ?Q"
        using eio by (auto intro!: serves_after [OF quiet_ask] serves_ret intro: serves_conseq [OF serves_not_regular])
      then show ?thesis
        unfolding x prod.case Let_def e if_False by (rule serves_conseq) (use True in \<open>auto simp: entry_at_def\<close>)
    qed
  qed
  then show "serves (\<lambda>f. busy [(i, None)] f \<and> create_pre i nm f)
    (if err \<noteq> 0 then ret_lib (err, zero_entry, fi1)
     else bind_lib (lookup_path i (Some nm) path (Some fi1)) (\<lambda>(err1, e, r).
       let fi2 = (case r of None \<Rightarrow> fi1 | Some i \<Rightarrow> i) in
       if err1 \<noteq> 0 then release_after path fi2 (err1, e, fi2)
       else if st_mode (en_attr e) AND S_IFMT \<noteq> S_IFREG
       then bind_lib (release_after path fi2 (- EIO, e, fi2)) (\<lambda>x.
            bind_lib (do_nodes (\<lambda>f. forget_node f (en_ino e) 1)) (\<lambda>_. ret_lib x))
       else bind_lib (ask_lib fz_conf) (\<lambda>conf. ret_lib (0, e, cache_flags conf fi2))) :: (_, 'w) lib) ?Q"
    by (cases "err = 0") (simp, auto intro!: serves_ret)
qed

lemma serves_create_reply:
  "serves (\<lambda>f. busy [(i, None)] f \<and> clock (Suc 0) f \<and> created i nm (en_ino e) f \<and> opens_ok f)
    (bind_lib (count_open (en_ino e)) (\<lambda>_.
     bind_lib (fuse_reply_create e fi1) (\<lambda>r.
       if r = - ENOENT
       then bind_lib (fuse_do_release (en_ino e) (Some p) fi1) (\<lambda>_. do_nodes (\<lambda>f. forget_node f (en_ino e) 1))
       else ret_lib ()))) (\<lambda>_. busy [(i, None)])"
proof (rule serves_bind [where P = "\<lambda>_ f. busy [(i, None)] f \<and> clock (Suc 0) f \<and> created i nm (en_ino e) f \<and> is_opened (en_ino e) f"], goal_cases)
  case 1
  have "may_open (en_ino e) f" if "known_at i nm (en_ino e) f" "opens_ok f" for f
    using that by (auto simp: known_at_def opens_ok_def opened_def)
  then show ?case by (intro serves_conseq [OF serves_count_open [OF abides_steady [OF abides_created]]]) auto
next
  case (2 x)
  show ?case
  proof (rule serves_after [OF quiet_reply_open(2)], goal_cases)
    case (1 r)
    have "serves (\<lambda>f. busy [(i, None)] f \<and> clock (Suc 0) f \<and> created i nm (en_ino e) f \<and> is_opened (en_ino e) f)
      (bind_lib (fuse_do_release (en_ino e) (Some p) fi1) (\<lambda>_. do_nodes (\<lambda>f. forget_node f (en_ino e) 1))) (\<lambda>_. busy [(i, None)])"
      by (rule serves_bind [OF serves_do_release [OF abides_steady [OF abides_created]]], rule serves_do_nodes) (use forget_below in blast)
    then show ?case by (auto intro: serves_ret)
  qed
qed

lemma serves_create: "serves (\<lambda>f. busy [] f \<and> create_pre i nm f) (fuse_lib_create i nm mode fi) (\<lambda>_. busy [])"
  unfolding fuse_lib_create_def get_path_name_def
proof (rule serves_after [OF quiet_prepare], rule serves_bind [OF serves_get_path [where R = "create_pre i nm"]], goal_cases)
  case 1
  show ?case by (intro tree_pred_conj lasting_tree [OF lasting_opens] abides_tree [OF abides_ex] abides_home) simp_all
next
  case (3 _ x)
  obtain err0 path w where x: "x = (err0, path, w)" by (cases x) auto
  show ?case
  proof (cases "err0 = 0 \<and> path \<noteq> None \<and> w = None")
    case True
    then obtain p where p: "x = (0, Some p, None)" using x by auto
    have "serves (\<lambda>f. busy [(i, None)] f \<and> create_pre i nm f)
      (bind_lib (need_path (create_body i nm mode fi) (Some p, None)) (\<lambda>(err, e, fi1).
       bind_lib
         (if err \<noteq> 0 then reply_err err
          else
            bind_lib (count_open (en_ino e)) (\<lambda>_.
            bind_lib (fuse_reply_create e fi1) (\<lambda>r.
              if r = - ENOENT
              then bind_lib (fuse_do_release (en_ino e) (Some p) fi1) (\<lambda>_. do_nodes (\<lambda>f. forget_node f (en_ino e) 1))
              else ret_lib ())))
         (\<lambda>_. free_one i (Some p, None)))) (\<lambda>_. busy [])"
    proof (rule serves_bind [OF serves_need [OF serves_create_body]], intro serves_split, rule serves_bind [OF _ serves_free_one], goal_cases)
      case (1 _ err _ e fi1)
      show ?case
      proof (cases "err = 0")
        case True
        then show ?thesis using 1 by simp (rule serves_conseq [OF serves_create_reply [of i nm]], auto)
      qed (auto intro: serves_quiet [OF quiet_reply_err])
    qed
    then show ?thesis unfolding p by simp (erule serves_conseq, auto)
  next
    case False
    show ?thesis
    proof (cases "err0 = 0")
      case True
      then show ?thesis using x False by (auto simp: serves_def)
    next
      case err: False
      have "serves (busy []) (bind_lib (reply_err err0) (\<lambda>_. free_one i (None, None))) (\<lambda>_. busy [])"
        by (intro serves_quiet quiet_bind quiet_reply_err quiet_free_none)
      then have "serves (\<lambda>f. busy [] f \<and> path = None \<and> w = None) (bind_lib (reply_err err0) (\<lambda>_. free_one i (path, w))) (\<lambda>_. busy [])"
        by (cases "path = None \<and> w = None") (auto simp: serves_def)
      then show ?thesis using err unfolding x prod.case by (simp add: bind_ret) (erule serves_conseq, simp_all)
    qed
  qed
qed auto

end
