(* ===== verification/Lib_Replies.thy ===== *)
theory Lib_Replies
  imports Fuse_File_Requests
begin

text \<open>
  How many replies a request sends: every request that returns has sent exactly one, with an error
  number that the kernel takes.
\<close>

section \<open>What is sent\<close>

definition sends :: "(int \<times> payload) list set \<Rightarrow> ('a, 'w) lib \<Rightarrow> bool" where
  "sends R m \<longleftrightarrow> (\<forall>s x s'. m s = Inr (x, s') \<longrightarrow> (\<exists>rs \<in> R. fz_sent s' = fz_sent s @ rs))"

text \<open>Nothing; or one reply, which is \<^const>\<open>NoReply\<close> when \<open>none\<close> holds.\<close>

abbreviation silent :: "('a, 'w) lib \<Rightarrow> bool" where
  "silent \<equiv> sends {[]}"

definition one_reply :: "bool \<Rightarrow> (int \<times> payload) list set" where
  "one_reply none = {[(e, p)] | e p. -1000 < e \<and> e \<le> 0 \<and> (p = NoReply \<longleftrightarrow> none)}"

abbreviation answers :: "('a, 'w) lib \<Rightarrow> bool" where
  "answers \<equiv> sends (one_reply False)"

lemma silent_iff: "silent m \<longleftrightarrow> (\<forall>s x s'. m s = Inr (x, s') \<longrightarrow> fz_sent s' = fz_sent s)"
  by (simp add: sends_def)

lemma sends_bind: "silent m \<Longrightarrow> (\<And>x. sends R (f x)) \<Longrightarrow> sends R (bind_lib m f)"
  unfolding sends_def bind_lib_def by (fastforce simp: bind_res_Inr_iff)

lemma sends_then: "sends R m \<Longrightarrow> (\<And>x. silent (f x)) \<Longrightarrow> sends R (bind_lib m f)"
  unfolding sends_def bind_lib_def by (fastforce simp: bind_res_Inr_iff)

lemma sends_split: "(\<And>x y. sends R (f x y)) \<Longrightarrow> sends R (case r of (x, y) \<Rightarrow> f x y)"
  by (cases r) simp

lemma sends_option: "sends R a \<Longrightarrow> (\<And>x. sends R (f x)) \<Longrightarrow> sends R (case r of None \<Rightarrow> a | Some x \<Rightarrow> f x)"
  by (cases r) simp_all

lemma sends_if: "sends R m \<Longrightarrow> sends R n \<Longrightarrow> sends R (if b then m else n)"
  by simp

lemma sends_let: "(\<And>x. sends R (f x)) \<Longrightarrow> sends R (let x = e in f x)"
  by (simp add: Let_def)

lemmas sends_parts = sends_split sends_option sends_if sends_let

section \<open>Steps that send nothing\<close>

named_theorems silent_intro

lemma silent_steps [silent_intro]:
  "silent (ret_lib x)" "silent (ask_lib g)" "silent (lift_lib r)" "silent (on_nodes h)" "silent (do_nodes u)"
  "silent (ask_nodes a)" "silent (change_node n c)" "silent (on_fs p)" "silent (lib_debug t)" "silent req_fuse_prepare"
  "silent (unlock_call l)" "silent (local_array n)" "silent (drop_array n)" "silent (read_link_name n)"
  "silent (on_state st)" "silent (on_malloc n)" "silent (hidden_choose d i)"
  by (auto simp: silent_iff ret_lib_def ask_lib_def lift_lib_def on_nodes_def do_nodes_def ask_nodes_def change_node_def
      on_fs_def lib_debug_def req_fuse_prepare_def unlock_call_def local_array_def drop_array_def
      read_link_name_def on_state_def on_malloc_def hidden_choose_def bind_res_Inr_iff Let_def split: prod.splits)

lemma silent_path_call [silent_intro]: "silent (path_call c)"
  unfolding silent_iff
proof (intro allI impI)
  fix s x s'
  assume "path_call c s = Inr (x, s')"
  then obtain r q f where "c (fz_nodes s) (fz_lockq s) = Inr (r, q, f)"
    "(case r of Returns x \<Rightarrow> Inr (x, s\<lparr>fz_nodes := f, fz_lockq := q\<rparr>) | Waits \<Rightarrow> Inl Blocked) = Inr (x, s')"
    by (auto simp: path_call_def bind_res_Inr_iff)
  then show "fz_sent s' = fz_sent s" by (cases r) auto
qed


lemma silent_paths [silent_intro]: "silent (lib_path i :: (_, 'a) lib)" "silent (lib_nullok_path i :: (_, 'a) lib)"
proof -
  have c: "path_call c s = Inr (x, s') \<Longrightarrow> fz_sent s' = fz_sent s" for c :: "_ \<Rightarrow> _ \<Rightarrow> ((int \<times> string option \<times> nat option) call \<times> _ \<times> _) res"
      and s :: "'a fuse" and x s'
    using silent_path_call [of c] unfolding silent_iff by blast
  show "silent (lib_path i :: (_, 'a) lib)" "silent (lib_nullok_path i :: (_, 'a) lib)"
    unfolding lib_path_def lib_nullok_path_def silent_iff using c by blast+
qed

lemma silent_frees [silent_intro]: "silent (free_one i x)" "silent (free_wr i x)" "silent (free_two i j y)"
  by (auto simp: free_one_def free_wr_def free_two_def intro: silent_intro split: prod.splits)

lemma silent_need_path [silent_intro]: "(\<And>p. silent (f p)) \<Longrightarrow> silent (need_path f x)"
  unfolding need_path_def by (rule sends_split sends_bind silent_intro | assumption)+

lemma silent_need_paths [silent_intro]: "(\<And>p q. silent (f p q)) \<Longrightarrow> silent (need_paths f x)"
  unfolding need_paths_def by (rule sends_split silent_intro | assumption)+

lemma silent_with_path [silent_intro]:
  assumes "silent getp" "\<And>p. silent (freep p)" "\<And>p. silent (body p)"
  shows "silent (with_path getp freep none body)"
  unfolding with_path_def by (rule assms sends_split sends_if silent_steps | rule sends_bind)+

lemma silent_path_op [silent_intro]: "silent (path_op f x)" "silent (file_op g x)"
  unfolding path_op_def file_op_def by (rule silent_intro sends_split | rule sends_bind)+

lemma silent_any_getattr [silent_intro]: "silent (any_getattr path st fi)"
  unfolding any_getattr_def by (rule silent_intro sends_parts | rule sends_bind)+

lemma silent_lookup_path [silent_intro]: "silent (lookup_path i name path fi)"
  unfolding lookup_path_def by (rule silent_intro sends_parts | rule sends_bind)+

lemma silent_attr_step [silent_intro]: "silent (attr_step err asked path f)"
  unfolding attr_step_def by (rule silent_intro sends_parts | rule sends_bind)+

lemma silent_set_attr [silent_intro]: "silent (set_size err valid path attr fi)" "silent (set_times err valid path attr)"
  unfolding set_size_def set_times_def by (rule silent_intro sends_parts | rule sends_bind)+

lemma silent_setattr_body [silent_intro]: "silent (setattr_body valid attr fi x)"
  unfolding setattr_body_def by (rule silent_intro sends_parts | rule sends_bind)+

lemma silent_making [silent_intro]: "silent (entry_after f i name path)" "silent (mknod_create i name mode path)"
  unfolding entry_after_def mknod_create_def by (rule silent_intro sends_parts | rule sends_bind)+

lemma silent_hidden_name [silent_intro]: "silent (hidden_name k i name)"
proof (induction k)
  case (Suc k)
  show ?case unfolding hidden_name.simps by (rule Suc.IH silent_intro sends_parts | rule sends_bind)+
qed (simp add: silent_intro)

lemma silent_removing [silent_intro]:
  "silent (hide_node path i name)" "silent (then_nodes f g)" "silent (open_there i name)"
  unfolding hide_node_def then_nodes_def open_there_def by (rule silent_intro sends_parts | rule sends_bind)+

lemma silent_rename_body [silent_intro]: "silent (rename_body i name j name' path path')"
  unfolding rename_body_def by (rule silent_intro sends_parts | rule sends_bind)+

lemma silent_unlink_hidden [silent_intro]: "silent (unlink_hidden i path)"
  unfolding unlink_hidden_def by (rule silent_intro sends_parts | rule sends_bind)+

lemma silent_release [silent_intro]:
  "silent (fuse_do_release i path fi)" "silent (count_open i)" "silent (release_after p fi r)"
  unfolding fuse_do_release_def count_open_def release_after_def by (rule silent_intro sends_parts | rule sends_bind)+

lemma silent_create_body [silent_intro]: "silent (create_body i name mode fi path)"
  unfolding create_body_def by (rule silent_intro sends_parts | rule sends_bind)+

lemma silent_auto_cache [silent_intro]: "silent (recheck_cache n path fi)" "silent (open_auto_cache i path fi)"
proof -
  show r: "silent (recheck_cache n path fi)" for n path fi
    unfolding recheck_cache_def by (rule silent_intro sends_parts | rule sends_bind)+
  show "silent (open_auto_cache i path fi)"
    unfolding open_auto_cache_def by (rule r silent_intro sends_parts | rule sends_bind)+
qed

lemma silent_open_body [silent_intro]: "silent (open_body i fi path)"
  unfolding open_body_def by (rule silent_intro sends_parts | rule sends_bind)+

lemma silent_files [silent_intro]: "silent (common_xattr i f val sz)" "silent (keep_flock i lock fi)" "silent (fuse_lock_common i fi lock cmd)"
  unfolding common_xattr_def keep_flock_def fuse_lock_common_def by (rule silent_intro sends_parts | rule sends_bind)+

lemma silent_flush [silent_intro]: "silent (fuse_flush_common i path fi)"
  unfolding fuse_flush_common_def by (rule silent_intro sends_parts | rule sends_bind)+

section \<open>Replies\<close>

lemma sends_reply: "sends (one_reply (arg = NoReply)) (send_reply error arg)"
  by (auto simp: sends_def one_reply_def send_reply_def ERANGE_def Let_def split: list.splits)

lemma answers_send: "arg \<noteq> NoReply \<Longrightarrow> answers (send_reply error arg)"
  using sends_reply [of arg error] by simp

named_theorems reply_intro

lemma answers_replies [reply_intro]:
  "arg \<noteq> NoReply \<Longrightarrow> answers (send_reply error arg)" "answers (fuse_reply_err err)" "answers (fuse_reply_create e fi)"
  "answers (fuse_reply_attr st t)" "answers (fuse_reply_open fi)"
  unfolding fuse_reply_err_def fuse_reply_create_def fuse_reply_attr_def fuse_reply_open_def
  by (rule answers_send; simp)+

lemma answers_reply_entry [reply_intro]:
  "answers (fuse_reply_entry e)" "answers (reply_err err)" "answers (reply_entry e err)"
proof -
  show a: "answers (fuse_reply_entry e)" for e
    unfolding fuse_reply_entry_def by (rule reply_intro silent_intro sends_parts | rule sends_bind | simp)+
  show b: "answers (reply_err err)" for err
    unfolding reply_err_def by (rule reply_intro [THEN sends_then] silent_intro)+
  show "answers (reply_entry e err)"
    unfolding reply_entry_def by (rule b a [THEN sends_then] silent_intro sends_parts)+
qed

lemma answers_err_only [reply_intro]: "silent m \<Longrightarrow> answers (err_only m)"
  unfolding err_only_def by (rule sends_bind reply_intro sends_parts | assumption)+

text \<open>Data is sent once, or not at all, and then the error is sent.\<close>

definition sends_or_fails :: "(int, 'w) lib \<Rightarrow> bool" where
  "sends_or_fails m \<longleftrightarrow>
     (\<forall>s r s'. m s = Inr (r, s') \<longrightarrow> (if r \<le> 0 then \<exists>bs. fz_sent s' = fz_sent s @ [(0, DataOut bs)] else fz_sent s' = fz_sent s))"

lemma send_from_sent: "send_from p n s = Inr (r, s') \<Longrightarrow> r \<le> 0 \<and> (\<exists>bs. fz_sent s' = fz_sent s @ [(0, DataOut bs)])"
  by (cases "fz_results s")
    (auto simp: send_from_def bind_lib_def ask_lib_def lift_lib_def send_reply_def Let_def bind_res_Inr_iff)

lemma sends_data_from: "sends_or_fails (send_from p n)"
  by (auto simp: sends_or_fails_def dest: send_from_sent)

lemma bind_lib_Inr: "bind_lib m k s = Inr p \<longleftrightarrow> (\<exists>x s1. m s = Inr (x, s1) \<and> k x s1 = Inr p)"
  by (auto simp: bind_lib_def bind_res_Inr_iff)

lemma sends_data_copied: "sends_or_fails (send_copied ops bv len)"
  unfolding sends_or_fails_def
proof (intro allI impI)
  fix s s' :: "'a fuse" and r
  assume c: "send_copied ops bv len s = Inr (r, s')"
  let ?outcome = "if r \<le> 0 then \<exists>bs. fz_sent s' = fz_sent s @ [(0, DataOut bs)] else fz_sent s' = fz_sent s"
  have quiet_steps: "fz_sent s2 = fz_sent s1" if "on_state h s1 = Inr (u, s2)" for h s1 s2 and u :: unit
    using that by (auto simp: on_state_def bind_res_Inr_iff)
  obtain m s1 where m: "on_malloc (unat len) s = Inr (m, s1)" "fz_sent s1 = fz_sent s"
    using c by (auto simp: send_copied_def bind_lib_Inr on_malloc_def Let_def split: prod.splits)
  show ?outcome
  proof (cases m)
    case None
    then show ?thesis using c m by (simp add: send_copied_def bind_lib_def ret_lib_def errno_defs)
  next
    case (Some a)
    then obtain n y s2 where n: "on_fs (\<lambda>_. fuse_buf_copy ops False (bufvec_init len (a, 0)) bv no_flags) s1 = Inr ((n, y), s2)"
      "(let res = to_int32 n in
         if res < 0 then bind_lib (on_state (mfree_obj a)) (\<lambda>_. lift_lib (chk_int (- res)))
         else bind_lib (send_from (a, 0) (nat res)) (\<lambda>sent. bind_lib (on_state (mfree_obj a)) (\<lambda>_. ret_lib sent))) s2 = Inr (r, s')"
      using c m(1) by (auto simp: send_copied_def bind_lib_Inr)
    have s2: "fz_sent s2 = fz_sent s" using n(1) m(2) by (auto simp: on_fs_def bind_res_Inr_iff)
    show ?thesis
    proof (cases "to_int32 n < 0")
      case True
      then show ?thesis
        using n(2) s2 by (auto simp: Let_def bind_lib_Inr lift_lib_def chk_int_def bind_res_Inr_iff dest!: quiet_steps split: if_splits)
    next
      case False
      then show ?thesis
        using n(2) s2 by (auto simp: Let_def bind_lib_Inr ret_lib_def dest!: quiet_steps send_from_sent)
    qed
  qed
qed

lemma sends_data: "sends_or_fails (send_data_fallback ops bv)"
  by (auto simp: send_data_fallback_def Let_def sends_data_from sends_data_copied split: list.splits)

lemma answers_data [reply_intro]: "answers (fuse_reply_data ops bv)"
  unfolding sends_def
proof (intro allI impI)
  fix s s' :: "'a fuse" and r
  assume "fuse_reply_data ops bv s = Inr (r, s')"
  then obtain x s1 where x: "send_data_fallback ops bv s = Inr (x, s1)"
    "(if x \<le> 0 then ret_lib x else fuse_reply_err x) s1 = Inr (r, s')"
    unfolding fuse_reply_data_def bind_lib_Inr by blast
  have d: "if x \<le> 0 then \<exists>bs. fz_sent s1 = fz_sent s @ [(0, DataOut bs)] else fz_sent s1 = fz_sent s"
    using sends_data [of ops bv] x(1) unfolding sends_or_fails_def by blast
  show "\<exists>rs \<in> one_reply False. fz_sent s' = fz_sent s @ rs"
  proof (cases "x \<le> 0")
    case True
    then show ?thesis using d x(2) by (auto simp: ret_lib_def one_reply_def)
  next
    case False
    then have "fuse_reply_err x s1 = Inr (r, s')" "fz_sent s1 = fz_sent s" using d x(2) by simp_all
    then show ?thesis using answers_replies(2) [of x] unfolding sends_def by metis
  qed
qed

lemma answers_send_attr [reply_intro]: "answers (send_attr i st)"
  unfolding send_attr_def by (rule reply_intro [THEN sends_then] silent_intro | rule sends_bind)+

lemma answers_send_entry [reply_intro]: "(\<And>path. silent (body path)) \<Longrightarrow> answers (send_entry i name body)"
  unfolding send_entry_def by (rule silent_intro reply_intro sends_parts | assumption | rule sends_bind)+

lemma answers_lookup_in [reply_intro]: "answers (lookup_in i name dot)"
  unfolding lookup_in_def by (rule silent_intro reply_intro sends_parts | rule sends_bind)+

lemmas reply_first = reply_intro [THEN sends_then]

text \<open>Replies in the middle of a request, with something to do after them.\<close>

lemma answers_read: "answers (fuse_lib_read ops i sz off fi)"
proof -
  have mid: "answers (if res = 0 then bind_lib (lift_lib (the_res buf NullPointer)) (\<lambda>(_, bv). bind_lib (fuse_reply_data ops bv) (\<lambda>_. ret_lib ()))
      else reply_err res)" for res :: int and buf :: "(nat \<times> fuse_bufvec) option"
    by (rule silent_intro reply_intro reply_first sends_parts | rule sends_bind | simp)+
  show ?thesis unfolding fuse_lib_read_def by (rule silent_intro sends_parts | rule mid [THEN sends_then] | rule sends_bind)+
qed

lemma answers_readlink: "answers (fuse_lib_readlink i)"
proof -
  have mid: "answers (if err = 0 then bind_lib (read_link_name a) (\<lambda>bs. bind_lib (send_reply 0 (BytesOut bs)) (\<lambda>_. ret_lib ())) else reply_err err)"
    for err a
    by (rule silent_intro reply_intro reply_first sends_parts | rule sends_bind | simp)+
  show ?thesis unfolding fuse_lib_readlink_def
    by (rule silent_intro sends_parts | rule mid [THEN sends_then] | rule sends_bind)+
qed

lemma answers_xattr: "answers (xattr_request i sz f)"
proof -
  have mid: "answers (if res > 0 then bind_lib (ask_lib (\<lambda>s. mheap (fz_state s))) (\<lambda>h.
      bind_lib (lift_lib (mem_read h (a, 0) (nat res))) (\<lambda>bs. bind_lib (send_reply 0 (BytesOut bs)) (\<lambda>_. ret_lib ()))) else reply_err res)"
    for res a
    by (rule silent_intro reply_intro reply_first sends_parts | rule sends_bind | simp)+
  show ?thesis unfolding xattr_request_def
    by (rule silent_intro reply_intro reply_first sends_parts | rule mid [THEN sends_then] | rule sends_bind | simp)+
qed

lemma answers_open: "answers (fuse_lib_open i fi)"
proof -
  have mid: "answers (if err \<noteq> 0 then reply_err err else bind_lib (count_open i) (\<lambda>_. bind_lib (fuse_reply_open fi1) (\<lambda>r.
      if r = - ENOENT then fuse_do_release i path fi1 else ret_lib ())))" for err fi1 path
    by (rule silent_intro reply_intro reply_first sends_parts | rule sends_bind | simp)+
  show ?thesis unfolding fuse_lib_open_def by (rule silent_intro sends_parts | rule mid [THEN sends_then] | rule sends_bind)+
qed

lemma answers_create: "answers (fuse_lib_create i name mode fi)"
proof -
  have mid: "answers (if err \<noteq> 0 then reply_err err else bind_lib (count_open (en_ino e)) (\<lambda>_. bind_lib (fuse_reply_create e fi1) (\<lambda>r.
      if r = - ENOENT then bind_lib (fuse_do_release (en_ino e) path fi1) (\<lambda>_. do_nodes (\<lambda>f. forget_node f (en_ino e) 1)) else ret_lib ())))"
    for err e fi1 path
    by (rule silent_intro reply_intro reply_first sends_parts | rule sends_bind | simp)+
  show ?thesis unfolding fuse_lib_create_def by (rule silent_intro sends_parts | rule mid [THEN sends_then] | rule sends_bind)+
qed

lemma answers_nullok [reply_intro]: "answers (nullok_request i f)"
  unfolding nullok_request_def by (rule silent_intro reply_intro reply_first sends_parts | rule sends_bind | simp)+

lemma silent_forget_all: "silent (forget_all xs)"
  by (induction xs rule: forget_all.induct) (auto simp: do_forget_def intro!: silent_intro sends_bind)

lemma forgets_silently:
  "sends (one_reply True) (fuse_lib_forget i k)" "sends (one_reply True) (fuse_lib_forget_multi xs)"
proof -
  have n: "sends (one_reply True) fuse_reply_none" by (simp add: sends_def one_reply_def fuse_reply_none_def)
  have d: "silent (do_forget i k)" unfolding do_forget_def by (rule silent_intro reply_intro reply_first sends_parts | rule sends_bind | simp)+
  show "sends (one_reply True) (fuse_lib_forget i k)" "sends (one_reply True) (fuse_lib_forget_multi xs)"
    unfolding fuse_lib_forget_def fuse_lib_forget_multi_def
    by (intro sends_bind d silent_forget_all sends_then n silent_intro)+
qed

lemmas special_requests = answers_read answers_readlink answers_xattr answers_open answers_create

lemmas request_defs = fuse_lib_lookup_def fuse_lib_getattr_def fuse_lib_setattr_def fuse_lib_access_def fuse_lib_mknod_def
  fuse_lib_mkdir_def fuse_lib_unlink_def fuse_lib_rmdir_def fuse_lib_symlink_def fuse_lib_rename_def fuse_lib_link_def
  fuse_lib_write_buf_def fuse_lib_flush_def fuse_lib_release_def fuse_lib_fsync_def fuse_lib_statfs_def fuse_lib_setxattr_def
  fuse_lib_getxattr_def fuse_lib_listxattr_def fuse_lib_removexattr_def fuse_lib_getlk_def fuse_lib_setlk_def fuse_lib_flock_def
  fuse_lib_bmap_def fuse_lib_poll_def fuse_lib_fallocate_def

definition is_forget :: "request \<Rightarrow> bool" where
  "is_forget r = (case r of ReqForget _ _ \<Rightarrow> True | ReqForgetMulti _ \<Rightarrow> True | _ \<Rightarrow> False)"

lemma serve_sends: "sends (one_reply (is_forget r)) (serve ops r)"
proof (cases "is_forget r")
  case True
  then show ?thesis by (cases r) (simp_all add: is_forget_def serve_def forgets_silently)
next
  case False
  then have "answers (serve ops r)"
    unfolding is_forget_def serve_def
    by (cases r; simp only: request.case simp_thms)
      (unfold request_defs,
       (rule special_requests silent_intro reply_intro reply_first sends_parts | rule sends_bind | simp)+)
  then show ?thesis using False by simp
qed

end
