(* ===== verification/Lib_Read.thy ===== *)
theory Lib_Read
  imports Fuse_File_Requests Path_Props FS_Props
begin

text \<open>
  A read request of the kernel, from the number of the node to the bytes in the reply: the path of the
  node is got and locked, the caching file system reads through its cache into a buffer of libfuse, the
  buffer is sent, and path and memory are given back.
\<close>

section \<open>The buffer of the reply\<close>

lemma caching_read_bounce:
  assumes fs: "fs_op fs = init_caching_oper os"
    and env: "read_env os P c pth fi st f (set_private fs s)"
    and cm: "cache_ok n p (cacheManager (world s))" "cache_coherent disk (cacheManager (world s))"
    and disk: "\<And>k. 0 \<le> k \<Longrightarrow> disk (to_int32 (st_ino st), k) = disk_block (st_blksize st) f k"
    and mem: "SIZEOF_BUFVEC + unat sz \<le> mfree s"
    and off: "0 \<le> off" "off < int (length f)" and sz: "0 < unat sz" "int (unat sz) \<le> INT_MAX"
    and rm: "rm = min (int (unat sz)) (int (length f) - off)"
    and al: "off mod st_blksize st = 0 \<or> off mod st_blksize st + rm \<le> st_blksize st"
    and room: "has_room p (cacheManager (world s)) (nat (blocks_for (st_blksize st) rm))"
  shows "\<exists>k s1 bytes. fuse_fs_read_buf fs (Some pth) None sz off fi s =
      Inr ((0, Some (mnext s, bufvec_init k (Suc (mnext s), 0)), fi), s1) \<and>
    mheap s1 = (mheap s)(mnext s \<mapsto> replicate SIZEOF_BUFVEC None, Suc (mnext s) \<mapsto> bytes) \<and>
    length bytes = unat sz \<and> unat k \<le> unat sz \<and> take (unat k) bytes = map Some (take (nat rm) (drop (nat off) f)) \<and>
    mfree s1 = mfree s - SIZEOF_BUFVEC - unat sz \<and> cache_ok n p (cacheManager (world s1)) \<and>
    cache_coherent disk (cacheManager (world s1))"
proof -
  let ?s = "read_start fs sz off fi s" and ?m = "Suc (mnext s)"
  let ?data = "map Some (take (nat rm) (drop (nat off) f))"
  define k where "k = (word_of_nat (nat rm) :: 64 word)"
  have "rm \<le> int (unat sz)" unfolding rm by (rule min.cobounded1)
  then have r: "nat rm \<le> unat sz" by (simp only: nat_le_iff)
  have r0: "0 \<le> rm" "length ?data = nat rm" using rm off by auto
  have "unat sz < 2 ^ LENGTH(64)" by (rule unsigned_less)
  then have k: "unat k = nat rm" using r by (simp add: k_def unat_of_nat)
  have op: "op_read_buf (fs_op fs) = None" "op_read (fs_op fs) = Some (caching_read os)"
    by (simp_all add: fs init_caching_oper_def no_operations_def)
  have env': "read_env os P c pth fi st f ?s"
    using env read_env_cong [of ?s "set_private fs s"] by simp
  have "mheap ?s ?m = Some (replicate (unat sz) None)" by simp
  from caching_read_inside [OF env' _ _ disk this, of n p 0 "unat sz" off rm] cm off sz rm al room
  obtain s4 where rd: "caching_read os (Some pth) (?m, 0) (unat sz) off fi ?s = Inr ((rm, fi), s4)"
    and s4: "cache_ok n p (cacheManager (world s4))" "cache_coherent disk (cacheManager (world s4))"
      "mfree s4 = mfree ?s" "mheap s4 = (mheap ?s)(?m \<mapsto> splice_bytes 0 ?data (replicate (unat sz) None))"
    by (auto split: sum.splits)
  have eq: "int (unat k) = rm" and le: "k \<le> sz" using k r r0 by (simp_all add: word_le_nat_alt)
  have small: "unat sz \<le> nat INT_MAX" using sz(2) by linarith
  obtain e where fin: "read_buf_done fs sz off (int (unat k)) (Some (mnext s, bufvec_init k (?m, 0))) fi s4 =
      Inr ((0, Some (mnext s, bufvec_init k (?m, 0)), fi), s4\<lparr>stderr := e\<rparr>)"
    using read_buf_done_ok [OF small le] by blast
  have w: "word_of_int rm = k" using r0(1) by (simp add: k_def)
  have "fuse_fs_read_buf fs (Some pth) None sz off fi s = Inr ((0, Some (mnext s, bufvec_init k (?m, 0)), fi), s4\<lparr>stderr := e\<rparr>)"
    using fin [unfolded eq] r0(1) by (simp add: fuse_fs_read_buf_start [OF op mem] rd w)
  moreover define bytes where "bytes = splice_bytes 0 ?data (replicate (unat sz) (None :: 8 word option))"
  have "length bytes = unat sz" "unat k \<le> unat sz" "take (unat k) bytes = ?data"
    using r r0 k by (simp_all add: bytes_def splice_bytes_def)
  ultimately show ?thesis
    using s4 by (intro exI [of _ k] exI [of _ "s4\<lparr>stderr := e\<rparr>"] exI [of _ bytes]) (simp add: bytes_def)
qed


text \<open>Sending the vector and giving its memory back.\<close>

lemma reply_bounce:
  assumes h: "mheap (fz_state z) m = Some bytes" "unat k \<le> length bytes"
  shows "\<exists>r z'. fuse_reply_data ops (bufvec_init k (m, 0)) z = Inr (r, z') \<and>
    fz_sent z' = fz_sent z @ [(0, DataOut (take (unat k) bytes))] \<and> fz_state z' = fz_state z \<and>
    fz_nodes z' = fz_nodes z \<and> fz_lockq z' = fz_lockq z"
proof -
  have "fuse_buf_size (bufvec_init k (m, 0)) = k" by (simp add: fuse_buf_size_def bufvec_init_def SIZE_MAX_def)
  moreover have "mem_read (mheap (fz_state z)) (m, 0) (unat k) = Inr (take (unat k) bytes)" using h by (simp add: mem_read_def)
  ultimately have "\<exists>r z'. send_data_fallback ops (bufvec_init k (m, 0)) z = Inr (r, z') \<and> r \<le> 0 \<and>
    fz_sent z' = fz_sent z @ [(0, DataOut (take (unat k) bytes))] \<and> fz_state z' = fz_state z \<and>
    fz_nodes z' = fz_nodes z \<and> fz_lockq z' = fz_lockq z"
    by (auto simp: send_data_fallback_def send_from_def bufvec_init_def bind_lib_def ask_lib_def lift_lib_def send_reply_def Let_def
        split: list.split)
  then show ?thesis by (auto simp: fuse_reply_data_def bind_lib_def ret_lib_def)
qed

lemma free_bounce:
  assumes "mheap st = (mheap s)(a \<mapsto> vec, m \<mapsto> bytes)" "a \<noteq> m" "m \<noteq> 0" "mheap s a = None" "mheap s m = None"
    and "mfree st = mfree s - length vec - length bytes" "length vec + length bytes \<le> mfree s"
  shows "\<exists>st'. fuse_free_buf (Some (a, bufvec_init k (m, 0))) st = Inr st' \<and> mheap st' = mheap s \<and> mfree st' = mfree s \<and>
    world st' = world st"
  using assms by (auto simp: fuse_free_buf_def bufvec_init_def free_ptr_def mfree_obj_def fun_eq_iff)


section \<open>The path of the request\<close>

lemma path_round:
  assumes f: "nodes_ok f" "\<forall>x. locks f x = 0" "request_ok f ino None False"
    and g: "get_path f [] ino = Inr (Returns (0, Some pth, w), q, f1)"
  shows "q = [] \<and> w = None \<and> (\<exists>f2. free_path f1 [] ino (Some pth) = Inr ([], f2) \<and> nodes_ok f2 \<and> fn_heap f2 = fn_heap f)"
proof -
  have inv: "lock_inv f []" "room []" using f(1,2) by (simp_all add: lock_inv_def counted_empty room_def int_defs nodes_ok_def)
  obtain err path v f' where r: "try_get_path f ino None False True = Inr (err, path, v, f')" "same_tree f f'"
    "if err = 0 then lock_inv f' ((ino, v) # []) \<and> path = Some (full_path (fn_heap f) (way f ino) (name_text None))
     else path = None \<and> v = None \<and> lock_inv f' []" "v = None"
    using lock_law [OF inv f(3)] by blast
  then have e: "err = 0" "v = w" "f1 = f'" "q = []"
    using g by (auto simp: get_path_def get_path_common_def split: if_splits)
  then have l: "lock_inv f' [(ino, None)]" using r(3,4) by simp
  obtain f2 where u: "unlock_path f' ino None None = Inr f2" "same_tree f' f2" "lock_inv f2 []"
    using unlock_law [of f' "[(ino, None)]" "(ino, None)"] l by (auto simp: room_def int_defs)
  have "same_tree f f2" using same_tree_trans [OF r(2) u(2)] .
  then have "fn_heap f2 = fn_heap f" "nodes_ok f2"
    using same_heap [of f f2] same_tree_nodes_ok [of f f2] f(1,2) u(3) by (auto simp: lock_inv_def counted_empty)
  then show ?thesis using e r(4) u(1) by (simp add: free_path_def free_path_wrlock_def)
qed

lemma nullok_path_eq:
  assumes "\<not> cf_nopath (fz_conf z)" "get_path (fz_nodes z) (fz_lockq z) ino = Inr (Returns (0, Some pth, w), q, f1)"
  shows "lib_nullok_path ino z = Inr ((0, Some pth, w), z\<lparr>fz_nodes := f1, fz_lockq := q\<rparr>)"
  using assms by (simp add: lib_nullok_path_def get_path_nullok_def get_path_def path_call_def)

end
