(* ===== verification/Lib_Start.thy ===== *)
theory Lib_Start
  imports Lib_Hidden Lib_Open Lib_Replies Lib_Read
begin

text \<open>
  A newly mounted file system, on which the properties of the requests are tried: the root is its only
  node, with the path \<open>''/''\<close>; and a file system in memory whose operations all return.
\<close>

lemma root_mounted:
  "\<exists>f d. new_nodes page_mem [] ts = Inr (Some f) \<and> nodes_ok f \<and> fn_heap f = [8336 \<mapsto> d] \<and> nd_nodeid d = FUSE_ROOT_ID \<and>
    nd_nlookup d = 1 \<and> nd_treelock d = 0 \<and> nd_name d = Some ''/'' \<and> mmap_fresh (fn_mem f) \<and> fn_clock f = ts \<and> fn_realloc f = []"
proof -
  obtain m where m: "alloc_node page_mem = Inr (Some 8336, m)" "mem_ok m" "allocated m = {8336}" "nm_mmap m = []"
    using page_mem_alloc by blast
  obtain f d where f: "new_nodes page_mem [] ts = Inr (Some f)" "nodes_ok f" "fn_heap f = [8336 \<mapsto> d]" "nd_nodeid d = FUSE_ROOT_ID"
    "nd_nlookup d = 1" "nd_treelock d = 0" "fn_mem f = m" "nd_name d = Some ''/''"
    using new_nodes_ok [OF page_mem_ok(1,2) m(1-3), of "[]" ts] by blast
  have "fn_clock f = ts" "fn_realloc f = []"
    using f(1) m(1) by (auto simp: new_nodes_def inc_nlookup_def hash_id_def next_ok_def Let_def res_iffs zero_node_def int_defs split: if_splits)
  then show ?thesis using f m(4) by (intro exI [of _ f] exI [of _ d]) (simp add: mmap_fresh_def)
qed

lemma root_request:
  assumes "fn_heap f = [8336 \<mapsto> d]" "nd_nodeid d = FUSE_ROOT_ID" "nd_name d = Some ''/''" "name_ok name" "length (name_text name) < 4096"
  shows "request_ok f FUSE_ROOT_ID name False"
proof -
  have r: "at_root (fn_heap f) 8336" using assms(1,2) by (simp add: at_root_def)
  have "fits (fn_heap f) 8336 (Suc (length (name_text name)))"
    unfolding fits_def using walk_from_root [OF r] assms(5) by (fastforce simp: name_text_def)
  moreover have "c_names (fn_heap f)" using assms(1,3) by (auto simp: c_names_def NUL_CHAR_def split: if_splits)
  ultimately show ?thesis using assms by (auto simp: request_ok_def)
qed

lemma root_path:
  assumes f: "nodes_ok f" "\<forall>x. locks f x = 0" "request_ok f FUSE_ROOT_ID None False" "fn_heap f = [8336 \<mapsto> d]"
    "nd_nodeid d = FUSE_ROOT_ID" "fn_realloc f = []"
  shows "\<exists>f1. get_path f [] FUSE_ROOT_ID = Inr (Returns (0, Some ''/'', None), [], f1)"
proof -
  have inv: "lock_inv f []" "room []" using f(1,2) by (simp_all add: lock_inv_def counted_empty room_def int_defs nodes_ok_def)
  have r: "at_root (fn_heap f) 8336" using f(4,5) by (simp add: at_root_def)
  have w: "walk (fn_heap f) 8336 [] 8336" using f(4) by (intro walk.stop) simp
  obtain err path w f' where g: "try_get_path f FUSE_ROOT_ID None False True = Inr (err, path, w, f')"
    "if err = 0 then lock_inv f' ((FUSE_ROOT_ID, w) # []) \<and> path = Some (full_path (fn_heap f) (way f FUSE_ROOT_ID) (name_text None))
     else path = None \<and> w = None \<and> lock_inv f' []" "w = None"
    using lock_law [OF inv f(3)] by blast
  have e: "err = 0"
  proof (rule ccontr)
    assume "err \<noteq> 0"
    then obtain n where "fn_heap f n \<noteq> None" "refusal f n None err" using lock_refused [OF inv f(3) g(1)] by blast
    then have "refusal f 8336 None err" using f(4) by (auto split: if_splits)
    then show False using f(2,6) walk_from_root [OF r] r by (fastforce simp: refusal_def cut_off_def at_root_def)
  qed
  have "way f FUSE_ROOT_ID = []" using way_eq [of f 8336 d "[]" 8336] f(1,4,5) r w by (simp add: nodes_ok_def tree_inv_def)
  then have "path = Some ''/''" using g(2) e by (simp add: full_path_def name_text_def)
  then show ?thesis using g(1,3) e by (auto simp: get_path_def get_path_common_def errno_defs)
qed

text \<open>A file system in memory that makes any directory.\<close>

definition making_fs :: "unit fuse_fs" where
  "making_fs = \<lparr>fs_op = no_operations\<lparr>op_getattr := Some (\<lambda>_ st s. Inr ((0, st), s)), op_mkdir := Some (\<lambda>_ _ s. Inr (0, s))\<rparr>,
     fs_compat_op = null_compat, fs_user_data = 1, fs_compat = 0, fs_debug = True\<rparr>"

lemma making_total: "fs_total making_fs"
  unfolding fs_total_def returns_def fuse_fs_getattr_def fuse_fs_fgetattr_def fuse_fs_chmod_def fuse_fs_chown_def
    fuse_fs_truncate_def fuse_fs_ftruncate_def fuse_fs_utimens_def fuse_fs_access_def fuse_fs_mknod_def fuse_fs_mkdir_def
    fuse_fs_symlink_def fuse_fs_unlink_def fuse_fs_rmdir_def fuse_fs_rename_def fuse_fs_link_def fuse_fs_create_def
    fuse_fs_open_def fuse_fs_release_def fuse_fs_flush_def fuse_fs_fsync_def fuse_fs_statfs_def making_fs_def no_operations_def Let_def
  by (simp split: option.split)

definition plain_conf :: fuse_config where
  "plain_conf = \<lparr>cf_uid = 0, cf_gid = 0, cf_umask = 0, cf_entry_timeout = 1, cf_negative_timeout = 0, cf_attr_timeout = 1,
     cf_ac_attr_timeout = 0, cf_nopath = False, cf_debug = False, cf_hard_remove = False, cf_use_ino = False,
     cf_readdir_ino = False, cf_set_mode = False, cf_set_uid = False, cf_set_gid = False, cf_direct_io = False,
     cf_kernel_cache = False, cf_auto_cache = False\<rparr>"

definition fresh_fuse :: "fuse_nodes \<Rightarrow> 'w fuse_fs \<Rightarrow> 'w fstate \<Rightarrow> 'w fuse" where
  "fresh_fuse f fs s = \<lparr>fz_nodes = f, fz_lockq = [], fz_conf = plain_conf, fz_fs = fs, fz_nullpath_ok = False,
     fz_utime_omit_ok = False, fz_hidectr = 0, fz_state = s, fz_minor = 19, fz_umask = 18, fz_sent = [], fz_results = []\<rparr>"

lemma fresh_fuse_sel [simp]:
  "fz_nodes (fresh_fuse f fs s) = f" "fz_lockq (fresh_fuse f fs s) = []" "fz_conf (fresh_fuse f fs s) = plain_conf"
  "fz_fs (fresh_fuse f fs s) = fs" "fz_state (fresh_fuse f fs s) = s" "fz_sent (fresh_fuse f fs s) = []"
  by (simp_all add: fresh_fuse_def)

definition roomy_unit :: "unit fstate" where
  "roomy_unit = \<lparr>private_data = 0, ctx_umask = 0, stderr = [], mheap = Map.empty, mnext = 1, mfree = 100, world = ()\<rparr>"

end
