(* ===== verification/Lib_Props.thy ===== *)
theory Lib_Props
  imports Lib_Start
begin

text \<open>
  The properties of the requests: each one is answered exactly once; from the mount on, admissible
  requests are served without a fault and leave no lock behind; and a read request is answered with
  the bytes of the file.
\<close>

section \<open>Reading\<close>

text \<open>
  (C4) A read request is answered with the bytes of the file. The file system of this repository is
  mounted without the option \<^verbatim>\<open>nopath\<close>, no path is locked, and the path of the node is \<open>pth\<close>, a file
  that can be read. For an offset inside the file at a block boundary, or a read within one block, with
  room in the cache and memory for the buffer, the request sends one reply with exactly those bytes.
  It gives its memory and the locks of the path back, no node changes, and the cache agrees with the disk.
\<close>

theorem read_request_answered:
  assumes fs: "fs_op (fz_fs z) = init_caching_oper os" "\<not> cf_nopath (fz_conf z)"
    and idle: "nodes_ok (fz_nodes z)" "\<forall>x. locks (fz_nodes z) x = 0" "fz_lockq z = []"
    and path: "request_ok (fz_nodes z) ino None False" "get_path (fz_nodes z) [] ino = Inr (Returns (0, Some pth, w), q, f1)"
    and env: "read_env os P c pth fi st f (set_private (fz_fs z) (fz_state z))"
    and cm: "cache_ok n p (cacheManager (world (fz_state z)))" "cache_coherent disk (cacheManager (world (fz_state z)))"
    and disk: "\<And>k. 0 \<le> k \<Longrightarrow> disk (to_int32 (st_ino st), k) = disk_block (st_blksize st) f k"
    and mem: "\<And>x. mnext (fz_state z) \<le> x \<Longrightarrow> mheap (fz_state z) x = None" "SIZEOF_BUFVEC + unat sz \<le> mfree (fz_state z)"
    and off: "0 \<le> off" "off < int (length f)" and sz: "0 < unat sz" "int (unat sz) \<le> INT_MAX"
    and rm: "rm = min (int (unat sz)) (int (length f) - off)"
    and al: "off mod st_blksize st = 0 \<or> off mod st_blksize st + rm \<le> st_blksize st"
    and room: "has_room p (cacheManager (world (fz_state z))) (nat (blocks_for (st_blksize st) rm))"
  shows "\<exists>z'. fuse_lib_read ops ino sz off fi z = Inr ((), z') \<and>
    fz_sent z' = fz_sent z @ [(0, DataOut (map Some (take (nat rm) (drop (nat off) f))))] \<and>
    mheap (fz_state z') = mheap (fz_state z) \<and> mfree (fz_state z') = mfree (fz_state z) \<and>
    cache_ok n p (cacheManager (world (fz_state z'))) \<and> cache_coherent disk (cacheManager (world (fz_state z'))) \<and>
    nodes_ok (fz_nodes z') \<and> fn_heap (fz_nodes z') = fn_heap (fz_nodes z) \<and> fz_lockq z' = []"
proof -
  let ?s = "(fz_state z)\<lparr>ctx_umask := fz_umask z\<rparr>" and ?data = "map Some (take (nat rm) (drop (nat off) f))"
  obtain f2 where p: "q = []" "w = None" "free_path f1 [] ino (Some pth) = Inr ([], f2)" "nodes_ok f2"
    "fn_heap f2 = fn_heap (fz_nodes z)"
    using path_round [OF idle(1,2) path] by blast
  have env': "read_env os P c pth fi st f (set_private (fz_fs z) ?s)"
    using env read_env_cong [of "set_private (fz_fs z) ?s" "set_private (fz_fs z) (fz_state z)"] by simp
  have sl: "cache_ok n p (cacheManager (world ?s))" "cache_coherent disk (cacheManager (world ?s))"
    "SIZEOF_BUFVEC + unat sz \<le> mfree ?s" "has_room p (cacheManager (world ?s)) (nat (blocks_for (st_blksize st) rm))"
    using cm mem(2) room by simp_all
  obtain k s1 bytes where rd: "fuse_fs_read_buf (fz_fs z) (Some pth) None sz off fi ?s =
      Inr ((0, Some (mnext ?s, bufvec_init k (Suc (mnext ?s), 0)), fi), s1)"
    and s1: "mheap s1 = (mheap ?s)(mnext ?s \<mapsto> replicate SIZEOF_BUFVEC None, Suc (mnext ?s) \<mapsto> bytes)"
      "length bytes = unat sz" "unat k \<le> unat sz" "take (unat k) bytes = ?data" "mfree s1 = mfree ?s - SIZEOF_BUFVEC - unat sz"
      "cache_ok n p (cacheManager (world s1))" "cache_coherent disk (cacheManager (world s1))"
    using caching_read_bounce [OF fs(1) env' sl(1,2) disk sl(3) off sz rm al sl(4)] by blast
  define z1 where "z1 = z\<lparr>fz_state := s1, fz_nodes := f2\<rparr>"
  have "mheap (fz_state z1) (Suc (mnext ?s)) = Some bytes" "unat k \<le> length bytes" using s1(1-3) by (simp_all add: z1_def)
  from reply_bounce [OF this, of ops] obtain r z2 where z2: "fuse_reply_data ops (bufvec_init k (Suc (mnext ?s), 0)) z1 = Inr (r, z2)"
    "fz_sent z2 = fz_sent z @ [(0, DataOut ?data)]" "fz_state z2 = s1" "fz_nodes z2 = f2" "fz_lockq z2 = []"
    using s1(4) idle(3) by (auto simp: z1_def)
  obtain s2 where s2: "fuse_free_buf (Some (mnext ?s, bufvec_init k (Suc (mnext ?s), 0))) s1 = Inr s2"
    "mheap s2 = mheap ?s" "mfree s2 = mfree ?s" "world s2 = world s1"
    using free_bounce [OF s1(1)] mem s1(2,5) by auto
  have a: "with_path (lib_nullok_path ino) (free_one ino) None (\<lambda>(path, _).
        bind_lib (on_fs (\<lambda>fs. fuse_fs_read_buf fs path None sz off fi)) (\<lambda>(res, buf, _). ret_lib (res, buf))) (z\<lparr>fz_state := ?s\<rparr>) =
      Inr ((0, Some (mnext ?s, bufvec_init k (Suc (mnext ?s), 0))), z1)"
    using nullok_path_eq [of "z\<lparr>fz_state := ?s\<rparr>" ino pth w q f1] fs(2) idle(3) path(2) p rd
    by (simp add: with_path_def bind_lib_def on_fs_def ret_lib_def free_one_def unlock_call_def z1_def)
  have "fuse_lib_read ops ino sz off fi z = Inr ((), z2\<lparr>fz_state := s2\<rparr>)"
    using a z2 s2(1) by (simp add: fuse_lib_read_def bind_lib_def req_fuse_prepare_def lift_lib_def on_state_def ret_lib_def)
  then show ?thesis using z2 s2 s1(6,7) p(4,5) by simp
qed

text \<open>For the witness the file of the reading witnesses is the root itself.\<close>

theorem read_request_answered_witness:
  "\<forall>ops. \<exists>f z'. fuse_lib_read ops FUSE_ROOT_ID 6 0 ram_fi (fresh_fuse f ram_fs roomy_state) = Inr ((), z') \<and> nodes_ok (fz_nodes z') \<and>
     fz_sent z' = [(0, DataOut [Some 10, Some 20, Some 30, Some 40, Some 50, Some 60])] \<and> mfree (fz_state z') = 100"
proof
  fix ops
  obtain f d where f: "nodes_ok f" "fn_heap f = [8336 \<mapsto> d]" "nd_nodeid d = FUSE_ROOT_ID" "nd_treelock d = 0"
    "nd_name d = Some ''/''" "fn_realloc f = []"
    using root_mounted by blast
  let ?z = "fresh_fuse f ram_fs roomy_state"
  have l: "\<forall>x. locks f x = 0" using f(2,4) by (simp add: lock_of_def)
  have q: "request_ok f FUSE_ROOT_ID None False" using f(2,3,5) by (intro root_request) (simp_all add: name_ok_def name_text_def)
  obtain f1 where g: "get_path f [] FUSE_ROOT_ID = Inr (Returns (0, Some ''/'', None), [], f1)"
    using root_path [OF f(1) l q f(2,3,6)] by blast
  have w: "world roomy_state = world ram_state" "mheap roomy_state = mheap ram_state" "mfree roomy_state = 100"
    "mnext roomy_state = 1" "fs_op ram_fs = init_caching_oper the_ram_os" "\<not> cf_nopath plain_conf"
    by (simp_all add: roomy_state_def ram_fs_def ram_state_def plain_conf_def)
  have env: "read_env the_ram_os (\<lambda>_. True) ram_conf ''/'' ram_fi ram_stat ram_file (set_private ram_fs roomy_state)"
    by (simp add: read_env_def cfs_ready_def os_file_def ram_os_def ram_file_def ram_stat_def ram_conf_def
        ram_fi_def ram_state_def PATH_MAX_def INT_MAX_def set_private_def roomy_state_def ram_fs_def)
  have cm: "cache_ok 1 3 (cacheManager (world roomy_state))" "cache_coherent ram_disk (cacheManager (world roomy_state))"
    "has_room 3 (cacheManager (world roomy_state)) (nat (blocks_for (st_blksize ram_stat) 6))"
  proof -
    have "nat (blocks_for (st_blksize ram_stat) 6) = 2" by (simp add: blocks_for_def ram_stat_def)
    then show "has_room 3 (cacheManager (world roomy_state)) (nat (blocks_for (st_blksize ram_stat) 6))"
      using ram_cache(3) by (simp only: w)
  qed (use ram_cache(1,2) in \<open>simp_all only: w\<close>)
  have mem: "mheap roomy_state x = None" if "mnext roomy_state \<le> x" for x using that by (simp add: w ram_state_def)
  have sz: "SIZEOF_BUFVEC + unat (6 :: 64 word) \<le> mfree roomy_state" "0 < unat (6 :: 64 word)"
    "int (unat (6 :: 64 word)) \<le> INT_MAX" "6 = min (int (unat (6 :: 64 word))) (int (length ram_file) - 0)"
    by (simp_all add: w SIZEOF_BUFVEC_def INT_MAX_def ram_file_def)
  from read_request_answered [of ?z the_ram_os FUSE_ROOT_ID "''/''" None "[]" f1, unfolded fresh_fuse_sel, OF w(5,6) f(1) l refl q g env
      cm(1,2) ram_disk_blocks mem sz(1) order_refl ram_range(1) sz(2-4) ram_range(10) cm(3)]
  show "\<exists>f z'. fuse_lib_read ops FUSE_ROOT_ID 6 0 ram_fi (fresh_fuse f ram_fs roomy_state) = Inr ((), z') \<and> nodes_ok (fz_nodes z') \<and>
     fz_sent z' = [(0, DataOut [Some 10, Some 20, Some 30, Some 40, Some 50, Some 60])] \<and> mfree (fz_state z') = 100"
    by (intro exI [of _ f]) (auto simp: w(3) ram_file_def)
qed

section \<open>Serving requests\<close>










end
