(* ===== verification/Spec2Isabelle.thy ===== *)
theory Spec2Isabelle
  imports CFS_Props FS_Props Helper_Props Subdir_Props Path_Props Lib_Props
begin

text \<open>
  A verification library for the caching file system of this repository. The program mounts a
  directory through FUSE and serves reads from a cache of blocks whose replacement is frequency
  based. It consists of the sources directly under \<^verbatim>\<open>src/\<close> and of the library libfuse 2.9.6, kept in
  \<^verbatim>\<open>src/resources/fuse-2.9.6/\<close>, on which it runs. All names of files below are relative to these two.

  \<^bold>\<open>How the parts work together.\<close> \<^verbatim>\<open>main\<close> (\<^verbatim>\<open>CachingFileSystem.cpp\<close>) checks its arguments, builds the
  cache and the log, and hands a table of handlers to \<^verbatim>\<open>fuse_main\<close>. libfuse parses the command line
  (\<^verbatim>\<open>lib/helper.c\<close>, \<^verbatim>\<open>lib/fuse_opt.c\<close>), mounts, and enters the loop of a single thread. A request of the
  kernel names files by the number of a node; \<^verbatim>\<open>lib/fuse.c\<close> keeps the nodes, turns them into
  paths and calls the operations of the table through its \<^verbatim>\<open>fuse_fs_*\<close> functions, which move data
  through vectors of buffers (\<^verbatim>\<open>lib/buffer.c\<close>). A module such as subdir (\<^verbatim>\<open>lib/modules/subdir.c\<close>) may sit
  between the two. The handler of read asks the cache (\<^verbatim>\<open>CacheManager.cpp\<close>) for every block and loads
  the missing ones.

  \<^bold>\<open>What stops the code.\<close> All partial code returns \<open>'a res\<close>: a value, or the fault that stops it
  (\<^verbatim>\<open>CFS_Prelude\<close>). Undefined behaviour is a fault with its reason (a null or dangling pointer, an
  access out of bounds, an invalid iterator, overflow of a signed number, an uninitialised byte), as
  are a failed \<^verbatim>\<open>assert\<close>, \<^verbatim>\<open>abort\<close>, \<^verbatim>\<open>exit\<close>, a loop that does not end and waiting for ever. A theorem that
  a call returns therefore excludes all of these. Errors that the code reports are ordinary values.

  \<^bold>\<open>The theories.\<close>

  \<^item> \<^verbatim>\<open>CFS_Prelude\<close>: faults, machine integers, C strings, error numbers. \<^verbatim>\<open>CFS_Double\<close>: the doubles of the
    section sizes, with rounding to 53 bits, infinities and NaN.

  \<^item> \<^verbatim>\<open>Cache_Block\<close>, \<^verbatim>\<open>Std_List\<close>, \<^verbatim>\<open>Cache_Manager\<close>, \<^verbatim>\<open>Cache_Paths\<close>: the classes \<^verbatim>\<open>CacheBlock\<close> and
    \<^verbatim>\<open>CacheManager\<close>. The list of blocks is a \<^verbatim>\<open>std::list\<close> whose iterators name nodes, so that a dangling
    iterator is seen. \<^verbatim>\<open>Cache_Refine\<close> states the abstract cache, a list of blocks with the sizes of the
    sections, and proves that lookup, insertion and eviction implement it on every branch.
    \<^verbatim>\<open>Cache_Contract\<close> gives its interface as the locales \<open>block_cache\<close> and \<open>roomy_cache\<close>, in which the
    proofs about reading are made, and interprets both on the real cache. \<^verbatim>\<open>Cache_Props\<close>: reachable
    states, eviction, filling, round trips, printing; and the fault of a cache whose old section has
    one block.

  \<^item> \<^verbatim>\<open>Fuse_Types\<close>, \<^verbatim>\<open>Caching_Ops\<close>, \<^verbatim>\<open>Caching_Read\<close>, \<^verbatim>\<open>CFS_Main\<close>: the structures of \<^verbatim>\<open>fuse.h\<close> and
    \<^verbatim>\<open>fuse_common.h\<close>, the log (\<^verbatim>\<open>logManager.cpp\<close>), every handler of \<^verbatim>\<open>CachingFileSystem.cpp\<close>, its table
    and \<^verbatim>\<open>main\<close>. \<^verbatim>\<open>Read_Props\<close>: what a read returns, at the end of the file too, and the overrun of an
    unaligned read across a block boundary. \<^verbatim>\<open>CFS_Props\<close>: the arguments that give a sound cache, the
    handlers that refuse the log file, paths that are too long, reading a directory, renaming.

  \<^item> \<^verbatim>\<open>Fuse_Buf\<close>, \<^verbatim>\<open>Buf_Props\<close>: buffer vectors. Copying between memory buffers is scatter/gather; with
    retry a write continues after short counts.

  \<^item> \<^verbatim>\<open>Fuse_FS\<close>, \<^verbatim>\<open>FS_Props\<close>: the \<^verbatim>\<open>fuse_fs_*\<close> calls of \<^verbatim>\<open>lib/fuse.c\<close>. A read from libfuse down to the disk
    returns the bytes of the file and frees its memory; everything that would change a file but
    rename is refused.

  \<^item> \<^verbatim>\<open>Fuse_Opt\<close>, \<^verbatim>\<open>Opt_Props\<close>, \<^verbatim>\<open>Fuse_Helper\<close>, \<^verbatim>\<open>Helper_Props\<close>: the option parser and the start of
    libfuse. The parser returns for every input and keeps escaped options; the program never enters
    the loop of several threads.

  \<^item> \<^verbatim>\<open>Fuse_Subdir\<close>, \<^verbatim>\<open>Subdir_Props\<close>: the module subdir. Each of its operations joins the
    base directory to the path, calls the file system below and frees the new path; proved are that
    the joining stays in its memory and that a link made relative points to the same place.

  \<^item> \<^verbatim>\<open>Node_Table\<close>: the hash tables of nodes, which grow and shrink by one bucket at a time. The code is
    there twice, for numbers and for names (\<^verbatim>\<open>rehash_id\<close>, \<^verbatim>\<open>rehash_name\<close> and so on); it is modelled once
    with the hash as an argument. The invariant says that every member is in the bucket of its hash.

  \<^item> \<^verbatim>\<open>Node_Slab\<close>, \<^verbatim>\<open>Node_Memory\<close>: the allocator of nodes. The locale \<open>node_memory\<close> states what its users
    rely on and is interpreted on it; nodes in use never overlap and stay within their pages.

  \<^item> \<^verbatim>\<open>File_Locks\<close>: the byte range locks of a node. Inserting a lock implements setting a range in a map
    from owners and offsets to lock types.

  \<^item> \<^verbatim>\<open>Fuse_Nodes\<close>: the nodes with their numbers, names, parents, counts of references and lookups, and
    the calls \<^verbatim>\<open>find_node\<close>, \<^verbatim>\<open>forget_node\<close>, \<^verbatim>\<open>remove_node\<close>, \<^verbatim>\<open>rename_node\<close>. \<^verbatim>\<open>Node_Inv\<close>, \<^verbatim>\<open>Node_Ops\<close> and
    \<^verbatim>\<open>Node_Calls\<close> prove the invariant of the tree: both tables hold the right nodes, numbers and places
    are unique, the parents have no cycle, and a count of references is the number of children and of
    the kernel's interest. \<^verbatim>\<open>Node_Props\<close>: no sequence of requests that follows the protocol of the kernel
    makes an assertion fail, and a lookup finds the one node of its place.

  \<^item> \<^verbatim>\<open>Fuse_Paths\<close>: the paths of nodes, written from their end into a buffer (\<^verbatim>\<open>add_name\<close>,
    \<^verbatim>\<open>try_get_path\<close>), the locks of the nodes on the way (\<^verbatim>\<open>unlock_path\<close>) and the queue of those that wait
    (\<^verbatim>\<open>queue_element_wakeup\<close>, \<^verbatim>\<open>get_path2\<close> and so on). \<^verbatim>\<open>Path_Walk\<close>, \<^verbatim>\<open>Path_Locks\<close> and \<^verbatim>\<open>Path_Calls\<close> follow
    the two walks up the tree and show that a lock counts the requests whose path leads through its
    node. \<^verbatim>\<open>Path_Queue\<close> states this as laws of locking and unlocking, \<^verbatim>\<open>Path_Wake\<close> puts them into the locale
    \<open>holder_locks\<close> and proves the calls for two paths and for the queue. \<^verbatim>\<open>Path_Props\<close>: however the calls
    of several threads interleave, no assertion about locks fails and no path goes through a node that
    is locked for writing; and the path of a node resolves to it.

  \<^item> \<^verbatim>\<open>Fuse_Lib\<close>, \<^verbatim>\<open>Fuse_Requests\<close>, \<^verbatim>\<open>Fuse_File_Requests\<close>: the requests of the kernel, which are the
    \<^verbatim>\<open>fuse_lib_*\<close> handlers of \<^verbatim>\<open>lib/fuse.c\<close>, with the replies of \<^verbatim>\<open>lib/fuse_lowlevel.c\<close>. A handler is a step of
    the type \<open>('a, 'w) lib\<close> on the record \<open>fuse\<close>: it locks a path, calls an operation, changes the nodes,
    unlocks the path and replies. \<open>serve\<close> is the table of all of them. \<^verbatim>\<open>Lib_Frames\<close> says what the calls
    on nodes and paths leave alone; \<^verbatim>\<open>Lib_Steps\<close> and \<^verbatim>\<open>Lib_Holds\<close> give a calculus for handlers, in which a path is
    held between locking and unlocking; \<^verbatim>\<open>Lib_Names\<close>, \<^verbatim>\<open>Lib_Requests\<close>, \<^verbatim>\<open>Lib_Removal\<close>, \<^verbatim>\<open>Lib_Hidden\<close> and
    \<^verbatim>\<open>Lib_Open\<close> prove one rule for each handler; \<^verbatim>\<open>Lib_Replies\<close> counts the replies; \<^verbatim>\<open>Lib_Read\<close> follows the data
    of a read; \<^verbatim>\<open>Lib_Start\<close> is a new file system for the witnesses. \<^verbatim>\<open>Lib_Props\<close>: a read request is answered
    with the bytes of the file, admissible requests are served without a fault from the mount on and
    leave no lock behind, and each request is answered once.

  \<^bold>\<open>Parameters.\<close> The operating system is a record of functions on its own state (\<^verbatim>\<open>os\<close>, and \<^verbatim>\<open>fdops\<close> for
  reading and writing descriptors); \<^verbatim>\<open>stoi\<close>, \<^verbatim>\<open>stod\<close>, \<^verbatim>\<open>sscanf\<close>, mounting, the session and its
  loops are arguments of the definitions that call them. The outcomes of coming calls of \<^verbatim>\<open>malloc\<close>,
  \<^verbatim>\<open>realloc\<close>, \<^verbatim>\<open>strdup\<close>, \<^verbatim>\<open>mmap\<close> and the clock are lists in the state, so a theorem covers all of them.
  What a theorem needs of a parameter is one of its hypotheses, and its witness has an instance.

  \<^bold>\<open>Loops.\<close> Loops are total functions with a measure; there is no fuel. Loops that need not end
  (reading a directory, the search for a free number, the walks up the tree, doubling the size of a
  buffer) are partial functions into \<^typ>\<open>'a option\<close>, and that they end is proved where it holds.

  \<^bold>\<open>Bounds.\<close> Sizes, numbers of nodes, lookups and hashes are words of the width they have in C; an
  \<^verbatim>\<open>int\<close> that can overflow is checked. The count of references of a node is checked where it grows; it
  cannot overflow while there are fewer than \<open>2 ^ 31 - 3\<close> nodes, which the protocol of the nodes asks
  for. The lock of a node on a path, which counts the requests in flight, is an unbounded number.
  Messages of the nodes on the standard error are left out.

  \<^bold>\<open>Not modelled.\<close> Of the requests, the handles of directories, \<^verbatim>\<open>ioctl\<close> and interruption; the protocol of
  the kernel (\<^verbatim>\<open>lib/fuse_lowlevel.c\<close>) below the values of replies, with sending by \<^verbatim>\<open>splice\<close>; sessions, loops,
  threads and signals, which are input and output on a device; mounting and the tools in \<^verbatim>\<open>util/\<close>,
  which are sequences of system calls; the modules loaded by \<^verbatim>\<open>dlopen\<close>; the module iconv, which only calls the C library;
  the examples and tutorials kept with the sources, which are not part of the program. Threads are left
  out, but for the steps of the locks of paths, since the program runs in one, which is proved of its
  start.
\<close>

end
